(* ===== verification/Prelude.thy ===== *)
theory Prelude
  imports Main "HOL-Library.AList"
begin

text \<open>
  Shared vocabulary of the development: results of fallible code, Python dictionaries,
  and the list lemmas that several components use.

  \<^item> A fallible computation returns \<open>'e + 'a\<close>: \<open>Inl\<close> is the raised exception,
    \<open>Inr\<close> the returned value. \<open>rbind\<close> sequences two of them, \<open>rmap\<close> runs one over a
    list from left to right and stops at the first exception, as a loop or a
    comprehension does.
  \<^item> A Python dictionary keeps the insertion order of its keys, and assigning to an
    existing key keeps the key's place. That is an association list under
    \<open>AList.update\<close> (assignment) and \<open>AList.delete\<close> (\<open>pop\<close>); \<open>map_of\<close> is the
    lookup. The invariant is \<open>distinct (map fst d)\<close>.
\<close>

named_theorems result_simps "evaluation of fallible computations"
named_theorems dict_simps "lookups in updated dictionaries"

type_synonym ('k, 'v) dict = "('k \<times> 'v) list"

abbreviation dict_ok :: "('k, 'v) dict \<Rightarrow> bool" where
  "dict_ok d \<equiv> distinct (map fst d)"

section \<open>Fallible computations\<close>

definition rbind :: "'e + 'a \<Rightarrow> ('a \<Rightarrow> 'e + 'b) \<Rightarrow> 'e + 'b" where
  "rbind m k = (case m of Inl e \<Rightarrow> Inl e | Inr a \<Rightarrow> k a)"

primrec rmap :: "('a \<Rightarrow> 'e + 'b) \<Rightarrow> 'a list \<Rightarrow> 'e + 'b list" where
  "rmap f [] = Inr []"
| "rmap f (x # xs) = rbind (f x) (\<lambda>y. rbind (rmap f xs) (\<lambda>ys. Inr (y # ys)))"

text \<open>A loop that updates a state and stops at the first exception.\<close>

primrec rfold :: "('a \<Rightarrow> 's \<Rightarrow> 'e + 's) \<Rightarrow> 'a list \<Rightarrow> 's \<Rightarrow> 'e + 's" where
  "rfold f [] s = Inr s"
| "rfold f (x # xs) s = rbind (f x s) (rfold f xs)"

lemma rbind_Inl [simp, result_simps]: "rbind (Inl e) k = Inl e"
  by (simp add: rbind_def)

lemma rbind_Inr [simp, result_simps]: "rbind (Inr a) k = k a"
  by (simp add: rbind_def)

lemma rbind_eq_Inr: "rbind m k = Inr b \<longleftrightarrow> (\<exists>a. m = Inr a \<and> k a = Inr b)"
  by (cases m) auto

lemma rbind_eq_Inl: "rbind m k = Inl e \<longleftrightarrow> m = Inl e \<or> (\<exists>a. m = Inr a \<and> k a = Inl e)"
  by (cases m) auto

lemma rbind_assoc: "rbind (rbind m f) g = rbind m (\<lambda>x. rbind (f x) g)"
  by (cases m) simp_all

lemma rfold_append: "rfold f (xs @ ys) s = rbind (rfold f xs s) (rfold f ys)"
proof (induction xs arbitrary: s)
  case (Cons x xs)
  then show ?case by (cases "f x s") simp_all
qed simp

lemma rfold_fixed: "(\<And>x. x \<in> set xs \<Longrightarrow> f x s = Inr s) \<Longrightarrow> rfold f xs s = Inr s"
  by (induction xs) simp_all

lemma rmap_eq_Inr: "rmap f xs = Inr ys \<longleftrightarrow> list_all2 (\<lambda>x y. f x = Inr y) xs ys"
proof (induction xs arbitrary: ys)
  case Nil
  then show ?case by auto
next
  case (Cons x xs)
  then show ?case by (cases ys) (auto simp: rbind_eq_Inr)
qed

lemma rmap_in_set: "rmap f xs = Inr ys \<Longrightarrow> y \<in> set ys \<Longrightarrow> \<exists>x \<in> set xs. f x = Inr y"
  by (induction xs arbitrary: ys) (auto simp: rbind_eq_Inr)

lemma rmap_length: "rmap f xs = Inr ys \<Longrightarrow> length ys = length xs"
  by (auto simp: rmap_eq_Inr list_all2_lengthD)

lemma rmap_total: "(\<And>x. x \<in> set xs \<Longrightarrow> f x = Inr (g x)) \<Longrightarrow> rmap f xs = Inr (map g xs)"
  by (induction xs) auto

section \<open>Dictionaries\<close>

lemma dict_update_ok: "dict_ok d \<Longrightarrow> dict_ok (AList.update k v d)"
  by (rule distinct_update)

lemma dict_delete_ok: "dict_ok d \<Longrightarrow> dict_ok (AList.delete k d)"
  by (rule distinct_delete)

lemma map_of_dict_update [simp, dict_simps]:
  "map_of (AList.update k v d) k' = (if k' = k then Some v else map_of d k')"
  by (simp add: update_conv')

lemma map_of_dict_delete [simp, dict_simps]:
  "map_of (AList.delete k d) k' = (if k' = k then None else map_of d k')"
  by (simp add: delete_conv')

lemma dict_keys_update: "fst ` set (AList.update k v d) = insert k (fst ` set d)"
  by (simp add: dom_update)

lemma dict_update_new: "k \<notin> fst ` set d \<Longrightarrow> AList.update k v d = d @ [(k, v)]"
  by (induction d) auto

lemma dict_rebuild: "dict_ok (e @ d) \<Longrightarrow> fold (\<lambda>(k, v). AList.update k v) d e = e @ d"
proof (induction d arbitrary: e)
  case (Cons kv d)
  then show ?case
    by (cases kv) (simp add: dict_update_new image_Un [symmetric] del: image_Un)
qed simp

lemma dict_as_map:
  assumes "dict_ok d"
  shows "d = map (\<lambda>k. (k, the (map_of d k))) (map fst d)"
proof -
  have "map (\<lambda>x. (fst x, the (map_of d (fst x)))) d = d"
    using assms by (intro map_idI) auto
  then show ?thesis by (simp add: o_def)
qed

lemma dict_set_eq:
  assumes "dict_ok d" "dict_ok e" "map_of d = map_of e"
  shows "set d = set e"
  using map_of_inject_set [of d e] assms by simp

lemma dict_length_eq:
  assumes "dict_ok d" "dict_ok e" "map_of d = map_of e"
  shows "length d = length e"
proof -
  have "distinct d" "distinct e" using assms by (auto simp: distinct_map)
  then show ?thesis
    using dict_set_eq [OF assms] distinct_card [of d] distinct_card [of e] by simp
qed

text \<open>Sorting a dictionary by its keys forgets the insertion order.\<close>

lemma dict_sort_eq:
  fixes d e :: "('k::linorder, 'v) dict"
  assumes "dict_ok d" "dict_ok e" "map_of d = map_of e"
  shows "sort_key fst d = sort_key fst e"
proof -
  let ?sd = "sort_key fst d" and ?se = "sort_key fst e"
  have ok: "dict_ok ?sd" "dict_ok ?se"
    using assms(1,2) by (simp_all add: distinct_map)
  have sets: "set ?sd = set d" "set ?se = set e" by simp_all
  have "map fst ?sd = map fst ?se"
    using ok dict_set_eq [OF assms] by (intro sorted_distinct_set_unique) simp_all
  moreover have "map_of ?sd = map_of ?se"
    using ok assms sets dict_set_eq [OF assms] by (intro map_of_eqI) auto
  ultimately show ?thesis
    using dict_as_map [OF ok(1)] dict_as_map [OF ok(2)] by simp
qed

section \<open>Lists\<close>

lemma filter_neg_empty: "(\<And>x. x \<in> set xs \<Longrightarrow> P x) \<Longrightarrow> filter (\<lambda>x. \<not> P x) xs = []"
  by (simp add: filter_empty_conv)

lemma filter_all: "(\<And>x. x \<in> set xs \<Longrightarrow> P x) \<Longrightarrow> filter P xs = xs"
  by (simp add: filter_id_conv)

lemma take_drop_append: "take m xs @ take n (drop m xs) = take (m + n) xs"
  by (simp add: take_add)

end
