(* ===== verification/Py_Values.thy ===== *)
theory Py_Values
  imports Complex_Main Prelude
begin

text \<open>
  The Python values that travel through the pipeline as \<open>dict[str, Any]\<close> payloads, the
  exceptions the code raises, and the handful of built-in operations it applies to
  payload fields: subscription, \<open>.get\<close>, truthiness, conversion to a number.

  A \<open>PDatetime us\<close> is a timezone-aware datetime, \<open>us\<close> microseconds after the epoch
  (the resolution of the type). Floats are real numbers; where the code's rounding can
  be observed (\<open>common.times\<close>) the rounding of doubles is modelled in \<open>Py_Float\<close>.
\<close>

datatype exn = Exn (exn_type: string) (exn_text: string)

abbreviation KeyError :: "string \<Rightarrow> exn" where "KeyError \<equiv> Exn ''KeyError''"
abbreviation ValueError :: "string \<Rightarrow> exn" where "ValueError \<equiv> Exn ''ValueError''"
abbreviation TypeError :: "string \<Rightarrow> exn" where "TypeError \<equiv> Exn ''TypeError''"
abbreviation RuntimeError :: "string \<Rightarrow> exn" where "RuntimeError \<equiv> Exn ''RuntimeError''"

datatype pyval =
    PNone
  | PBool bool
  | PInt int
  | PFloat real
  | PStr string
  | PDatetime int

type_synonym payload = "(string, pyval) dict"

text \<open>\<open>d[k]\<close> and \<open>d.get(k)\<close>.\<close>

definition d_item :: "payload \<Rightarrow> string \<Rightarrow> exn + pyval" where
  "d_item d k = (case map_of d k of None \<Rightarrow> Inl (KeyError k) | Some v \<Rightarrow> Inr v)"

definition d_get :: "payload \<Rightarrow> string \<Rightarrow> pyval" where
  "d_get d k = (case map_of d k of None \<Rightarrow> PNone | Some v \<Rightarrow> v)"

text \<open>The truth value of an object, as \<open>or\<close> and \<open>if\<close> test it.\<close>

fun truthy :: "pyval \<Rightarrow> bool" where
  "truthy PNone = False"
| "truthy (PBool b) = b"
| "truthy (PInt i) = (i \<noteq> 0)"
| "truthy (PFloat r) = (r \<noteq> 0)"
| "truthy (PStr s) = (s \<noteq> [])"
| "truthy (PDatetime _) = True"

text \<open>A value used as a float: ints are promoted, anything else is a TypeError.\<close>

fun as_num :: "pyval \<Rightarrow> exn + real" where
  "as_num (PFloat r) = Inr r"
| "as_num (PInt i) = Inr (of_int i)"
| "as_num (PBool b) = Inr (if b then 1 else 0)"
| "as_num _ = Inl (TypeError ''must be real number'')"

fun opt_int :: "pyval \<Rightarrow> int option" where
  "opt_int (PInt i) = Some i"
| "opt_int _ = None"

fun of_opt_int :: "int option \<Rightarrow> pyval" where
  "of_opt_int None = PNone"
| "of_opt_int (Some i) = PInt i"

fun of_opt_float :: "real option \<Rightarrow> pyval" where
  "of_opt_float None = PNone"
| "of_opt_float (Some r) = PFloat r"

fun of_opt_str :: "string option \<Rightarrow> pyval" where
  "of_opt_str None = PNone"
| "of_opt_str (Some s) = PStr s"

lemma d_get_update [simp, dict_simps]:
  "d_get (AList.update k v d) k' = (if k' = k then v else d_get d k')"
  by (simp add: d_get_def)

lemma d_item_update [simp, dict_simps]:
  "d_item (AList.update k v d) k' = (if k' = k then Inr v else d_item d k')"
  by (simp add: d_item_def)

lemma d_item_eq_Inr: "d_item d k = Inr v \<longleftrightarrow> map_of d k = Some v"
  by (auto simp: d_item_def split: option.splits)

lemma d_get_of_item: "d_item d k = Inr v \<Longrightarrow> d_get d k = v"
  by (auto simp: d_item_def d_get_def split: option.splits)

text \<open>Decimal digits, as an f-string renders an int.\<close>

fun nat_digits :: "nat \<Rightarrow> string" where
  "nat_digits n =
     (if n < 10 then [char_of (48 + n)] else nat_digits (n div 10) @ [char_of (48 + n mod 10)])"

declare nat_digits.simps [simp del]

definition int_digits :: "int \<Rightarrow> string" where
  "int_digits i = (if i < 0 then ''-'' @ nat_digits (nat (- i)) else nat_digits (nat i))"

text \<open>\<open>str(v)\<close>; the decimal rendering of floats and datetimes is a parameter.\<close>

fun py_str :: "(pyval \<Rightarrow> string) \<Rightarrow> pyval \<Rightarrow> string" where
  "py_str render (PStr s) = s"
| "py_str render (PInt i) = int_digits i"
| "py_str render (PBool b) = (if b then ''True'' else ''False'')"
| "py_str render PNone = ''None''"
| "py_str render v = render v"

section \<open>Conversion to int\<close>

text \<open>
  \<open>int(s)\<close> of a decimal text: white space around, a sign, digits with single underscores
  between them. \<open>int(x)\<close> of a float truncates.
\<close>

definition is_digit :: "char \<Rightarrow> bool" where
  "is_digit c \<longleftrightarrow> (48 \<le> (of_char c :: nat) \<and> (of_char c :: nat) \<le> 57)"

definition digit_value :: "char \<Rightarrow> int" where
  "digit_value c = int (of_char c) - 48"

fun int_digits_value :: "int \<Rightarrow> string \<Rightarrow> int option" where
  "int_digits_value acc [] = Some acc"
| "int_digits_value acc [c] = (if is_digit c then Some (acc * 10 + digit_value c) else None)"
| "int_digits_value acc (c # d # s) =
     (if is_digit c then int_digits_value (acc * 10 + digit_value c) (d # s)
      else if c = CHR ''_'' \<and> is_digit d then int_digits_value (acc * 10 + digit_value d) s
      else None)"

definition int_unsigned :: "string \<Rightarrow> int option" where
  "int_unsigned s = (if s \<noteq> [] \<and> is_digit (hd s) then int_digits_value 0 s else None)"

definition is_space :: "char \<Rightarrow> bool" where
  "is_space c \<longleftrightarrow> (of_char c :: nat) \<in> {9, 10, 11, 12, 13, 28, 29, 30, 31, 32}"

definition strip :: "string \<Rightarrow> string" where
  "strip s = rev (dropWhile is_space (rev (dropWhile is_space s)))"

definition int_of_str :: "string \<Rightarrow> int option" where
  "int_of_str s = (case strip s of
      [] \<Rightarrow> None
    | c # t \<Rightarrow> if c = CHR ''-'' then map_option uminus (int_unsigned t)
              else if c = CHR ''+'' then int_unsigned t
              else int_unsigned (c # t))"

fun py_int :: "pyval \<Rightarrow> exn + int" where
  "py_int (PInt i) = Inr i"
| "py_int (PBool b) = Inr (if b then 1 else 0)"
| "py_int (PFloat r) = Inr (if r \<ge> 0 then \<lfloor>r\<rfloor> else \<lceil>r\<rceil>)"
| "py_int (PStr s) = (case int_of_str s of None \<Rightarrow> Inl (ValueError ''invalid literal for int()'') | Some i \<Rightarrow> Inr i)"
| "py_int _ = Inl (TypeError ''int() argument must be a string or a number'')"

text \<open>\<open>float(x)\<close>; the parser of decimal texts is a parameter.\<close>

fun py_float :: "(string \<Rightarrow> real option) \<Rightarrow> pyval \<Rightarrow> exn + real" where
  "py_float parse (PStr s) = (case parse s of None \<Rightarrow> Inl (ValueError ''could not convert string to float'') | Some r \<Rightarrow> Inr r)"
| "py_float parse v = as_num v"

section \<open>JSON texts of payloads\<close>

text \<open>
  \<open>json.dumps\<close> of a payload: every value but a datetime has a JSON form, and
  \<open>json.loads\<close> of that text gives the payload back. A text is therefore represented by
  the payload it decodes to; what is modelled is the TypeError.
\<close>

fun jsonable :: "pyval \<Rightarrow> bool" where
  "jsonable (PDatetime _) = False"
| "jsonable _ = True"

definition json_dumps :: "payload \<Rightarrow> exn + payload" where
  "json_dumps d =
     (if list_all (\<lambda>(_, v). jsonable v) d then Inr d
      else Inl (TypeError ''Object of type datetime is not JSON serializable''))"

lemma json_dumps_eq_Inr: "json_dumps d = Inr t \<longleftrightarrow> t = d \<and> list_all (\<lambda>(_, v). jsonable v) d"
  by (auto simp: json_dumps_def)

end
