(* ===== verification/Py_Float.thy ===== *)
theory Py_Float
  imports Complex_Main Prelude
begin

text \<open>
  IEEE-754 double rounding, for the one place where the pipeline truncates the result of
  float arithmetic to an integer (\<open>common.times\<close>). \<open>fl x\<close> is the double nearest to
  the real \<open>x\<close>, ties to even; a float operation of the code is \<open>fl\<close> of the exact
  result. Overflow and subnormals are outside the range of the timestamps modelled.
\<close>

definition round_even :: "real \<Rightarrow> int" where
  "round_even x =
     (let f = \<lfloor>x\<rfloor>; r = x - of_int f in
      if r < 1/2 then f else if 1/2 < r then f + 1 else if even f then f else f + 1)"

definition ulp :: "real \<Rightarrow> real" where
  "ulp x = 2 powi (\<lfloor>log 2 \<bar>x\<bar>\<rfloor> - 52)"

definition fl :: "real \<Rightarrow> real" where
  "fl x = (if x = 0 then 0 else of_int (round_even (x / ulp x)) * ulp x)"

text \<open>\<open>int()\<close> of a float truncates towards zero.\<close>

definition trunc :: "real \<Rightarrow> int" where
  "trunc x = (if x < 0 then \<lceil>x\<rceil> else \<lfloor>x\<rfloor>)"

section \<open>Rounding\<close>

lemma round_even_err: "\<bar>x - of_int (round_even x)\<bar> \<le> 1/2"
  unfolding round_even_def Let_def by (auto simp: abs_le_iff)

lemma round_even_near:
  assumes "\<bar>x - of_int k\<bar> < 1/2"
  shows "round_even x = k"
proof -
  have "\<bar>of_int (round_even x) - (of_int k :: real)\<bar> < 1"
    using round_even_err [of x] assms by linarith
  then show ?thesis by linarith
qed

lemma round_even_of_int [simp]: "round_even (of_int k) = k"
  by (rule round_even_near) simp

lemma trunc_of_int [simp]: "trunc (of_int k) = k"
  by (simp add: trunc_def)

lemma ulp_binade:
  assumes "2 powi k \<le> x" "x < 2 powi (k + 1)"
  shows "ulp x = 2 powi (k - 52)"
proof -
  have "0 < x" using assms(1) by (smt (verit) zero_less_power_int)
  moreover have "2 powr (real_of_int k + 1) = 2 powi (k + 1)"
    using powr_real_of_int' [of 2 "k + 1"] by simp
  then have "\<lfloor>log 2 x\<rfloor> = k"
    using assms \<open>0 < x\<close> by (subst floor_log_eq_powr_iff) (auto simp: powr_real_of_int')
  ultimately show ?thesis by (simp add: ulp_def)
qed

lemma ulp_pos: "0 < ulp x"
  by (simp add: ulp_def)

text \<open>The nearest double is at most half a unit in the last place away.\<close>

lemma fl_err: "\<bar>fl x - x\<bar> \<le> ulp x / 2"
proof (cases "x = 0")
  case True
  then show ?thesis using ulp_pos [of x] by (simp add: fl_def less_imp_le)
next
  case False
  have "\<bar>x / ulp x - of_int (round_even (x / ulp x))\<bar> * ulp x \<le> 1/2 * ulp x"
    using round_even_err ulp_pos [of x] by (intro mult_right_mono) auto
  then have "\<bar>(x / ulp x - of_int (round_even (x / ulp x))) * ulp x\<bar> \<le> ulp x / 2"
    using ulp_pos [of x] by (simp add: abs_mult)
  then show ?thesis
    using False ulp_pos [of x] by (simp add: fl_def algebra_simps abs_minus_commute)
qed

text \<open>
  The double nearest to \<open>x\<close> is the grid point \<open>k * u\<close> whenever \<open>x\<close> lies in the
  binade with spacing \<open>u\<close> and closer than half a spacing to that point.
\<close>

lemma fl_nearest:
  assumes "ulp x = u" "x \<noteq> 0" "\<bar>x - of_int k * u\<bar> < u / 2"
  shows "fl x = of_int k * u"
proof -
  have u: "0 < u" using ulp_pos [of x] assms(1) by simp
  have "x / u - of_int k = (x - of_int k * u) / u"
    using u by (simp add: field_simps)
  then have "\<bar>x / u - of_int k\<bar> = \<bar>x - of_int k * u\<bar> / u"
    using u by simp
  also have "\<dots> < 1/2" using assms(3) u by (simp add: field_simps)
  finally have "round_even (x / u) = k" by (rule round_even_near)
  then show ?thesis using assms by (simp add: fl_def)
qed

end
