(* ===== verification/Times.thy ===== *)
theory Times
  imports Py_Values Py_Float
begin

text \<open>
  \<open>common.times\<close>: the conversion of Avro's timezone-aware datetimes to epoch
  milliseconds and back. \<open>datetime.timestamp()\<close> divides the microseconds by \<open>10^6\<close> in
  doubles, the code multiplies by 1000 in doubles and truncates; \<open>datetime.fromtimestamp\<close>
  splits a double into seconds and microseconds and rounds the latter half to even.

  The lemmas give the exact range of milliseconds on which the conversion is lossless,
  from November 2004 to January 2038, and what happens just past it.
\<close>

definition dt_timestamp :: "int \<Rightarrow> real" where
  "dt_timestamp us = fl (of_int us / 10 ^ 6)"

definition dt_from_timestamp :: "real \<Rightarrow> int" where
  "dt_from_timestamp x =
     (let ip = trunc x; fp = x - of_int ip in ip * 10 ^ 6 + round_even (fl (fp * 10 ^ 6)))"

text \<open>
  The argument is annotated \<open>datetime | int\<close>. Anything else would fail at the first
  arithmetic on the result; the model raises that TypeError here.
\<close>

fun to_epoch_ms :: "pyval \<Rightarrow> exn + int" where
  "to_epoch_ms (PDatetime us) = Inr (trunc (fl (dt_timestamp us * 1000)))"
| "to_epoch_ms (PInt i) = Inr i"
| "to_epoch_ms _ = Inl (TypeError ''an integer is required'')"

fun to_epoch_ms_opt :: "pyval \<Rightarrow> exn + int option" where
  "to_epoch_ms_opt PNone = Inr None"
| "to_epoch_ms_opt v = rbind (to_epoch_ms v) (\<lambda>ms. Inr (Some ms))"

text \<open>\<open>datetime.fromtimestamp(ms / 1000, tz=UTC)\<close>, as \<open>iso_utc\<close> and the sinks build it.\<close>

definition dt_of_ms :: "int \<Rightarrow> int" where
  "dt_of_ms ms = dt_from_timestamp (fl (of_int ms / 1000))"

section \<open>Where the conversion is lossless\<close>

lemma ulp_seconds:
  assumes "(2 ^ 40 :: int) < ms" "ms < 2147483648000"
  shows "ulp (of_int ms / 1000) = 1 / 2 ^ 22"
proof -
  have "real_of_int (2 ^ 40) < of_int ms" "of_int ms < (2147483648000 :: real)"
    using assms by linarith+
  then have "2 powi 30 \<le> real_of_int ms / 1000" "real_of_int ms / 1000 < 2 powi (30 + 1)"
    by simp_all
  from ulp_binade [OF this] show ?thesis by (simp add: power_int_def field_simps)
qed

lemma timestamp_err:
  assumes "(2 ^ 40 :: int) < ms" "ms < 2147483648000"
  shows "\<bar>fl (of_int ms / 1000) - of_int ms / 1000\<bar> \<le> 1 / 2 ^ 23"
  using fl_err [of "of_int ms / 1000"] ulp_seconds [OF assms] by simp

lemma to_epoch_ms_of_ms:
  assumes "(2 ^ 40 :: int) < ms" "ms < 2147483648000"
  shows "to_epoch_ms (PDatetime (ms * 1000)) = Inr ms"
proof -
  define y where "y = fl (of_int ms / 1000) * (1000 :: real)"
  have err: "\<bar>y - of_int ms\<bar> \<le> 1000 / 2 ^ 23"
    using timestamp_err [OF assms] unfolding y_def by linarith
  have "(1099511627776 :: int) < ms" using assms(1) by simp
  then have ms: "real_of_int ms \<ge> 1099511627777" "real_of_int ms \<le> 2147483647999"
    using assms(2) by linarith+
  have "\<bar>y - of_int ms\<bar> < 1" by (rule le_less_trans [OF err]) simp
  then have "1099511627776 \<le> y" "y < 2199023255552" "y \<noteq> 0"
    using ms by linarith+
  then have "2 powi 40 \<le> y" "y < 2 powi (40 + 1)" "y \<noteq> 0"
    by simp_all
  then have "ulp y = 1 / 2 ^ 12" "y \<noteq> 0"
    using ulp_binade [of 40 y] by (simp_all add: power_int_def field_simps)
  moreover have "\<bar>y - of_int (ms * 2 ^ 12) * (1 / 2 ^ 12)\<bar> < 1 / 2 ^ 12 / 2"
    using err by simp
  ultimately have "fl y = of_int ms"
    using fl_nearest [of y "1 / 2 ^ 12" "ms * 2 ^ 12"] by simp
  moreover have "dt_timestamp (ms * 1000) = fl (of_int ms / 1000)"
    by (simp add: dt_timestamp_def)
  ultimately show ?thesis by (simp add: y_def)
qed

lemma ulp_small:
  assumes "0 < x" "x < 2 powi k"
  shows "ulp x \<le> 2 powi (k - 53)"
proof -
  have "log 2 x < log 2 (2 powi k)"
    using assms by (subst log_less_cancel_iff) auto
  also have "log 2 (2 powi k) = (k :: real)"
    by (simp add: powr_real_of_int' [symmetric])
  finally have "\<lfloor>log 2 x\<rfloor> \<le> k - 1" by linarith
  then show ?thesis
    using assms(1) by (simp add: ulp_def power_int_increasing)
qed

lemma from_timestamp_seconds:
  "dt_from_timestamp (of_int q) = q * 10 ^ 6"
  by (simp add: dt_from_timestamp_def Let_def fl_def round_even_def)

lemma from_timestamp_near:
  assumes "0 < r" "r < 1000" "0 \<le> q"
    and near: "\<bar>x - (of_int q + of_int r / 1000)\<bar> \<le> 1 / 2 ^ 23"
  shows "dt_from_timestamp x = q * 10 ^ 6 + r * 1000"
proof -
  define z where "z = (x - of_int q) * 10 ^ 6"
  have r: "1 \<le> real_of_int r" "real_of_int r \<le> 999" "0 \<le> real_of_int q"
    using assms by linarith+
  moreover have "\<bar>x - (of_int q + of_int r / 1000)\<bar> \<le> 1 / 8388608"
    by (rule order_trans [OF near]) simp
  ultimately have "of_int q < x" "x < of_int q + 1"
    by linarith+
  then have "trunc x = q"
    using r unfolding trunc_def by (simp add: floor_eq_iff)
  have "z - of_int (r * 1000) = (x - (of_int q + of_int r / 1000)) * 10 ^ 6"
    by (simp add: z_def field_simps)
  then have "\<bar>z - of_int (r * 1000)\<bar> = \<bar>x - (of_int q + of_int r / 1000)\<bar> * 10 ^ 6"
    by (simp only: abs_mult) simp
  also have "\<dots> \<le> 1 / 2 ^ 23 * 10 ^ 6"
    by (rule mult_right_mono [OF near]) simp
  finally have z: "\<bar>z - of_int r * 1000\<bar> \<le> 125 / 1000"
    by simp
  then have "0 < z" "z < 1048576"
    using r by linarith+
  then have "0 < z" "z < 2 powi 20" by simp_all
  then have "ulp z \<le> 2 powi (20 - 53)" by (rule ulp_small)
  then have "\<bar>fl z - z\<bar> \<le> 1 / 2 ^ 34"
    using fl_err [of z] by (simp add: power_int_def field_simps)
  then have "\<bar>fl z - z\<bar> \<le> 1 / 8"
    by (rule order_trans) simp
  with z have "\<bar>fl z - of_int r * 1000\<bar> < 1 / 2" by linarith
  then have "\<bar>fl z - of_int (r * 1000)\<bar> < 1 / 2" by simp
  then have "round_even (fl z) = r * 1000" by (rule round_even_near)
  then show ?thesis
    using \<open>trunc x = q\<close> by (simp add: dt_from_timestamp_def z_def)
qed

lemma dt_of_ms_exact:
  assumes "(2 ^ 40 :: int) < ms" "ms < 2147483648000"
  shows "dt_of_ms ms = ms * 1000"
proof -
  define q r where "q = ms div 1000" and "r = ms mod 1000"
  have qr: "ms = q * 1000 + r" "0 \<le> r" "r < 1000" "0 < q"
    using assms by (simp_all add: q_def r_def)
  have x: "real_of_int ms / 1000 = of_int q + of_int r / 1000"
    using qr(1) by (simp add: field_simps)
  show ?thesis
  proof (cases "r = 0")
    case True
    have "fl (of_int q) = of_int (q * 2 ^ 22) * (1 / 2 ^ 22)"
      using ulp_seconds [OF assms] x True qr(4) by (intro fl_nearest) auto
    then show ?thesis
      using x True qr(1) by (simp add: dt_of_ms_def from_timestamp_seconds)
  next
    case False
    with qr timestamp_err [OF assms] show ?thesis
      unfolding dt_of_ms_def x by (subst from_timestamp_near [of r q]) auto
  qed
qed

section \<open>Properties\<close>

text \<open>C40: for every instant from November 2004 to 19 January 2038, the event time that
  \<open>to_epoch_ms\<close> recovers from the datetime an Avro decoder (or the sinks' own
  \<open>fromtimestamp(ms / 1000)\<close>) builds for it is the original millisecond, although the
  division, the multiplication and the truncation are done on doubles.\<close>

theorem to_epoch_ms_roundtrip:
  assumes "(2 ^ 40 :: int) < ms" "ms < 2147483648000"
  shows "to_epoch_ms (PDatetime (dt_of_ms ms)) = Inr ms"
  using assms by (simp only: dt_of_ms_exact to_epoch_ms_of_ms)

theorem to_epoch_ms_roundtrip_witness:
  "to_epoch_ms (PDatetime (dt_of_ms 1767225600123)) = Inr 1767225600123"
  by (rule to_epoch_ms_roundtrip) simp_all

text \<open>Outside that range the conversion loses time: the datetime of 3 January 2039,
  04:11:34.831 UTC is turned into the millisecond before it, because the rounded product
  lies just below the integer and \<open>int\<close> truncates.\<close>

theorem to_epoch_ms_truncates_2039:
  "to_epoch_ms (PDatetime (2177640694831 * 1000)) = Inr (2177640694831 - 1)"
proof -
  define t :: real where "t = 2177640694831 / 1000"
  define s :: real where "s = of_int 4566843538446221 * (1 / 2 ^ 21)"
  have "ulp t = 2 powi (31 - 52)"
    by (rule ulp_binade) (simp_all add: t_def)
  then have "fl t = s"
    unfolding s_def by (intro fl_nearest) (simp_all add: t_def power_int_def power_one_over)
  moreover have "ulp (s * 1000) = 2 powi (40 - 52)"
    by (rule ulp_binade) (simp_all add: s_def)
  then have "fl (s * 1000) = of_int 8919616286027775 * (1 / 2 ^ 12)"
    by (intro fl_nearest) (simp_all add: s_def power_int_def power_one_over)
  ultimately show ?thesis
    by (simp add: dt_timestamp_def t_def trunc_def floor_eq_iff)
qed

end
