(* ===== verification/State_Store.thy ===== *)
theory State_Store
  imports Times
begin

text \<open>
  \<open>processors/state_store.py\<close>: the offset-tagged SQLite store of the sessionizer. A table
  is a dictionary over its primary key: \<open>journal\<close> over \<open>(partition, kafka_offset)\<close>,
  \<open>closes\<close> over \<open>ride_id\<close>. Each operation is one SQLite transaction
  (\<open>with self._db\<close>), so an exception inside it leaves the store as it was.

  The locale \<open>tagged_table\<close> is what recovery relies on: rows carry the (partition, offset)
  that caused them and \<open>rollback\<close> deletes exactly the rows tagged at or beyond a resume
  position. Both tables of the store are interpretations of it.
\<close>

record JournalRow =
  jr_partition :: int
  jr_offset :: int
  jr_ride_id :: string
  jr_value :: payload

record CloseRow =
  cr_ride_id :: string
  cr_partition :: int
  cr_offset :: int
  cr_session :: payload

record StateStore =
  journal_tbl :: "(int \<times> int, string \<times> payload) dict"
  closes_tbl :: "(string, (int \<times> int) \<times> payload) dict"

definition empty_store :: StateStore where
  "empty_store = \<lparr>journal_tbl = [], closes_tbl = []\<rparr>"

section \<open>Writes\<close>

definition insert_or_ignore :: "'k \<Rightarrow> 'v \<Rightarrow> ('k, 'v) dict \<Rightarrow> ('k, 'v) dict" where
  "insert_or_ignore k v d = (if map_of d k = None then d @ [(k, v)] else d)"

definition journal_params :: "JournalRow \<Rightarrow> exn + (int \<times> int) \<times> string \<times> payload" where
  "journal_params r =
     rbind (json_dumps (jr_value r)) (\<lambda>j. Inr ((jr_partition r, jr_offset r), (jr_ride_id r, j)))"

definition close_params :: "CloseRow \<Rightarrow> exn + string \<times> (int \<times> int) \<times> payload" where
  "close_params c =
     rbind (json_dumps (cr_session c)) (\<lambda>j. Inr (cr_ride_id c, ((cr_partition c, cr_offset c), j)))"

definition append_batch :: "StateStore \<Rightarrow> JournalRow list \<Rightarrow> CloseRow list \<Rightarrow> exn + StateStore" where
  "append_batch st journal closes =
     rbind (rmap journal_params journal) (\<lambda>js.
     rbind (rmap close_params closes) (\<lambda>cs.
       Inr \<lparr>journal_tbl = fold (\<lambda>(k, v). insert_or_ignore k v) js (journal_tbl st),
            closes_tbl = fold (\<lambda>(k, v). AList.update k v) cs (closes_tbl st)\<rparr>))"

definition tagged_from :: "int \<Rightarrow> int \<Rightarrow> int \<times> int \<Rightarrow> bool" where
  "tagged_from part resume_offset tag \<longleftrightarrow> fst tag = part \<and> snd tag \<ge> resume_offset"

definition rollback_from :: "StateStore \<Rightarrow> int \<Rightarrow> int \<Rightarrow> StateStore \<times> nat \<times> nat" where
  "rollback_from st part resume_offset =
     (let hit = tagged_from part resume_offset
      in (\<lparr>journal_tbl = filter (\<lambda>(tag, _). \<not> hit tag) (journal_tbl st),
           closes_tbl = filter (\<lambda>(_, tag, _). \<not> hit tag) (closes_tbl st)\<rparr>,
          length (filter (\<lambda>(tag, _). hit tag) (journal_tbl st)),
          length (filter (\<lambda>(_, tag, _). hit tag) (closes_tbl st))))"

definition purge_confirmed :: "StateStore \<Rightarrow> int \<Rightarrow> int \<Rightarrow> StateStore \<times> nat" where
  "purge_confirmed st part below_offset =
     (let confirmed = map fst (filter (\<lambda>(_, (p, off), _). p = part \<and> off < below_offset)
                        (closes_tbl st))
      in (st\<lparr>journal_tbl := filter (\<lambda>(_, ride, _). ride \<notin> set confirmed) (journal_tbl st)\<rparr>,
          length (filter (\<lambda>(_, ride, _). ride \<in> set confirmed) (journal_tbl st))))"

section \<open>Reads\<close>

definition is_closed :: "StateStore \<Rightarrow> string \<Rightarrow> bool" where
  "is_closed st ride_id \<longleftrightarrow> map_of (closes_tbl st) ride_id \<noteq> None"

text \<open>\<open>grouped.setdefault(ride_id, []).append(event)\<close>\<close>

definition group_append :: "('k, 'v list) dict \<Rightarrow> 'k \<times> 'v \<Rightarrow> ('k, 'v list) dict" where
  "group_append d kv =
     AList.update (fst kv) (case map_of d (fst kv) of None \<Rightarrow> [snd kv] | Some vs \<Rightarrow> vs @ [snd kv]) d"

definition open_rows :: "StateStore \<Rightarrow> int \<Rightarrow> (string \<times> payload) list" where
  "open_rows st part =
     map snd (sort_key (snd \<circ> fst)
       (filter (\<lambda>((p, _), ride, _). p = part \<and> \<not> is_closed st ride) (journal_tbl st)))"

definition open_rides :: "StateStore \<Rightarrow> int \<Rightarrow> (string, payload list) dict" where
  "open_rides st part = foldl group_append [] (open_rows st part)"

text \<open>
  \<open>MAX(json_extract(event_json, '$.event_ts'))\<close>; a missing field is an SQL NULL, which
  \<open>MAX\<close> skips. The sessionizer only journals integer time stamps.
\<close>

definition max_journal_ts :: "StateStore \<Rightarrow> int \<Rightarrow> int option" where
  "max_journal_ts st part =
     (let tss = List.map_filter (\<lambda>((p, _), _, v).
           if p = part then opt_int (d_get v ''event_ts'') else None) (journal_tbl st)
      in if tss = [] then None else Some (Max (set tss)))"

definition counts :: "StateStore \<Rightarrow> nat \<times> nat" where
  "counts st = (length (journal_tbl st), length (closes_tbl st))"

section \<open>The contract of a tagged table\<close>

locale tagged_table =
  fixes rows :: "'s \<Rightarrow> 'r list"
    and tag :: "'r \<Rightarrow> int \<times> int"
    and rollback :: "int \<Rightarrow> int \<Rightarrow> 's \<Rightarrow> 's"
  assumes rows_rollback:
    "rows (rollback p r s) = filter (\<lambda>x. \<not> tagged_from p r (tag x)) (rows s)"
begin

lemma rollback_commute:
  "rows (rollback p r (rollback p' r' s)) = rows (rollback p' r' (rollback p r s))"
  by (simp add: rows_rollback conj_commute)

lemma rollback_min: "rows (rollback p r (rollback p r' s)) = rows (rollback p (min r r') s)"
  by (auto simp: rows_rollback tagged_from_def intro: filter_cong)

text \<open>Rolling back every partition of a list to its own resume position.\<close>

lemma rollback_all:
  "rows (fold (\<lambda>p. rollback p (resume p)) ps s) =
     filter (\<lambda>x. fst (tag x) \<in> set ps \<longrightarrow> snd (tag x) < resume (fst (tag x))) (rows s)"
proof (induction ps arbitrary: s)
  case (Cons p ps)
  show ?case
    by (simp add: Cons rows_rollback) (rule filter_cong, auto simp: tagged_from_def)
qed simp

lemma rollback_undoes:
  assumes "rows s' = rows s @ new"
    and "\<And>x. x \<in> set (rows s) \<Longrightarrow> snd (tag x) < resume (fst (tag x))"
    and "\<And>x. x \<in> set new \<Longrightarrow> fst (tag x) \<in> set ps \<and> resume (fst (tag x)) \<le> snd (tag x)"
  shows "rows (fold (\<lambda>p. rollback p (resume p)) ps s') = rows s"
  using assms by (force simp: rollback_all filter_empty_conv intro!: filter_True)

end

definition rollback_store :: "int \<Rightarrow> int \<Rightarrow> StateStore \<Rightarrow> StateStore" where
  "rollback_store p r st = fst (rollback_from st p r)"

lemma rollback_store_simps [simp]:
  "journal_tbl (rollback_store p r st) = filter (\<lambda>x. \<not> tagged_from p r (fst x)) (journal_tbl st)"
  "closes_tbl (rollback_store p r st) = filter (\<lambda>x. \<not> tagged_from p r (fst (snd x))) (closes_tbl st)"
  by (simp_all add: rollback_store_def rollback_from_def Let_def case_prod_unfold)

interpretation journal_table: tagged_table journal_tbl fst rollback_store
  by unfold_locales simp

interpretation closes_table: tagged_table closes_tbl "\<lambda>x. fst (snd x)" rollback_store
  by unfold_locales simp

section \<open>The invariant of the store\<close>

definition store_ok :: "StateStore \<Rightarrow> bool" where
  "store_ok st \<longleftrightarrow> dict_ok (journal_tbl st) \<and> dict_ok (closes_tbl st)"

lemma store_ok_empty [simp]: "store_ok empty_store"
  by (simp add: store_ok_def empty_store_def)

lemma insert_or_ignore_ok: "dict_ok d \<Longrightarrow> dict_ok (insert_or_ignore k v d)"
  by (auto simp: insert_or_ignore_def map_of_eq_None_iff)

lemma fold_insert_ok: "dict_ok d \<Longrightarrow> dict_ok (fold (\<lambda>(k, v). insert_or_ignore k v) kvs d)"
  by (induction kvs arbitrary: d) (auto simp: insert_or_ignore_ok)

lemma fold_update_ok: "dict_ok d \<Longrightarrow> dict_ok (fold (\<lambda>(k, v). AList.update k v) kvs d)"
  by (induction kvs arbitrary: d) (auto simp: dict_update_ok)

lemma dict_filter_ok: "dict_ok d \<Longrightarrow> dict_ok (filter P d)"
  by (rule distinct_map_filter)

lemma append_batch_eq_Inr:
  "append_batch st j c = Inr st' \<longleftrightarrow>
     (\<exists>js cs. rmap journal_params j = Inr js \<and> rmap close_params c = Inr cs \<and>
        st' = \<lparr>journal_tbl = fold (\<lambda>(k, v). insert_or_ignore k v) js (journal_tbl st),
              closes_tbl = fold (\<lambda>(k, v). AList.update k v) cs (closes_tbl st)\<rparr>)"
  by (auto simp: append_batch_def rbind_eq_Inr)

lemma store_ok_append: "store_ok st \<Longrightarrow> append_batch st j c = Inr st' \<Longrightarrow> store_ok st'"
  by (auto simp: store_ok_def append_batch_eq_Inr fold_insert_ok fold_update_ok)

lemma store_ok_rollback: "store_ok st \<Longrightarrow> store_ok (rollback_store p r st)"
  by (simp add: store_ok_def dict_filter_ok)

lemma store_ok_purge: "store_ok st \<Longrightarrow> store_ok (fst (purge_confirmed st p b))"
  by (simp add: store_ok_def purge_confirmed_def Let_def dict_filter_ok)

lemma is_closed_filter:
  assumes "dict_ok (closes_tbl st)"
  shows "is_closed (rollback_store p r st) ride \<longleftrightarrow>
    (\<exists>tag s. map_of (closes_tbl st) ride = Some (tag, s) \<and> \<not> tagged_from p r tag)"
proof -
  have "map_of (filter (\<lambda>x. Q (snd x)) d) ride = (case map_of d ride of
      Some v \<Rightarrow> if Q v then Some v else None | None \<Rightarrow> None)"
    if "dict_ok d" for Q and d :: "(string, (int \<times> int) \<times> payload) dict"
    using that by (induction d) (auto simp: map_of_eq_None_iff split: option.splits)
  from this [OF assms, of "\<lambda>v. \<not> tagged_from p r (fst v)"] show ?thesis
    by (auto simp: is_closed_def split: option.splits)
qed

section \<open>What a batch adds\<close>

lemma fold_insert_new:
  "\<exists>new. fold (\<lambda>(k, v). insert_or_ignore k v) kvs d = d @ new \<and> set new \<subseteq> set kvs"
proof (induction kvs arbitrary: d)
  case (Cons kv kvs)
  obtain k v where kv: "kv = (k, v)" by fastforce
  from Cons [of "insert_or_ignore k v d"] show ?case
    by (cases "map_of d k") (auto simp: kv insert_or_ignore_def)
qed simp

lemma update_append: "k \<notin> fst ` set d \<Longrightarrow> AList.update k v (d @ e) = d @ AList.update k v e"
  by (induction d) auto

lemma set_update_subset: "set (AList.update k v e) \<subseteq> insert (k, v) (set e)"
  by (induction e) auto

lemma fold_update_new:
  assumes "fst ` set kvs \<inter> fst ` set d = {}"
  shows "\<exists>new. fold (\<lambda>(k, v). AList.update k v) kvs (d @ e) = d @ new \<and> set new \<subseteq> set e \<union> set kvs"
  using assms
proof (induction kvs arbitrary: e)
  case (Cons kv kvs)
  obtain k v where kv: "kv = (k, v)" by fastforce
  with Cons.prems have "k \<notin> fst ` set d" "fst ` set kvs \<inter> fst ` set d = {}" by auto
  with Cons.IH [of "AList.update k v e"] obtain new where
    "fold (\<lambda>(k, v). AList.update k v) (kv # kvs) (d @ e) = d @ new"
    "set new \<subseteq> set (AList.update k v e) \<union> set kvs"
    by (auto simp: kv update_append)
  with set_update_subset [of k v e] show ?case by (intro exI [of _ new]) (auto simp: kv)
qed simp

lemma rmap_set: "rmap f xs = Inr ys \<Longrightarrow> y \<in> set ys \<Longrightarrow> \<exists>x \<in> set xs. f x = Inr y"
  by (auto simp: rmap_eq_Inr list_all2_conv_all_nth set_conv_nth)

lemma append_batch_new:
  assumes "append_batch st j c = Inr st'"
    and "\<forall>r \<in> set c. \<not> is_closed st (cr_ride_id r)"
  obtains jnew cnew where
    "journal_tbl st' = journal_tbl st @ jnew" "closes_tbl st' = closes_tbl st @ cnew"
    "\<forall>x \<in> set jnew. \<exists>r \<in> set j. x = ((jr_partition r, jr_offset r), (jr_ride_id r, jr_value r))"
    "\<forall>x \<in> set cnew. \<exists>r \<in> set c. x = (cr_ride_id r, ((cr_partition r, cr_offset r), cr_session r))"
proof -
  from assms(1) obtain js cs where js: "rmap journal_params j = Inr js" and cs: "rmap close_params c = Inr cs"
    and st': "st' = \<lparr>journal_tbl = fold (\<lambda>(k, v). insert_or_ignore k v) js (journal_tbl st),
              closes_tbl = fold (\<lambda>(k, v). AList.update k v) cs (closes_tbl st)\<rparr>"
    by (auto simp: append_batch_eq_Inr)
  from fold_insert_new [of js "journal_tbl st"] st'
  obtain jnew where jnew: "journal_tbl st' = journal_tbl st @ jnew" "set jnew \<subseteq> set js" by auto
  have "fst ` set cs \<inter> fst ` set (closes_tbl st) = {}"
  proof -
    have "fst x \<notin> fst ` set (closes_tbl st)" if x: "x \<in> set cs" for x
    proof -
      from rmap_set [OF cs x] obtain r where "r \<in> set c" "fst x = cr_ride_id r"
        by (auto simp: close_params_def rbind_eq_Inr)
      with assms(2) show ?thesis by (simp add: is_closed_def map_of_eq_None_iff)
    qed
    then show ?thesis by blast
  qed
  from fold_update_new [OF this, of "[]"] st'
  obtain cnew where cnew: "closes_tbl st' = closes_tbl st @ cnew" "set cnew \<subseteq> set cs" by auto
  show thesis
  proof (rule that [OF jnew(1) cnew(1)])
    show "\<forall>x \<in> set jnew. \<exists>r \<in> set j. x = ((jr_partition r, jr_offset r), (jr_ride_id r, jr_value r))"
      using rmap_set [OF js] jnew(2)
      by (fastforce simp: journal_params_def rbind_eq_Inr json_dumps_eq_Inr)
    show "\<forall>x \<in> set cnew. \<exists>r \<in> set c. x = (cr_ride_id r, ((cr_partition r, cr_offset r), cr_session r))"
      using rmap_set [OF cs] cnew(2)
      by (fastforce simp: close_params_def rbind_eq_Inr json_dumps_eq_Inr)
  qed
qed

section \<open>Properties\<close>

text \<open>When the batch brings new keys only, it appends exactly its rows.\<close>

definition journal_entry :: "JournalRow \<Rightarrow> (int \<times> int) \<times> string \<times> payload" where
  "journal_entry r = ((jr_partition r, jr_offset r), (jr_ride_id r, jr_value r))"

definition close_entry :: "CloseRow \<Rightarrow> string \<times> (int \<times> int) \<times> payload" where
  "close_entry c = (cr_ride_id c, ((cr_partition c, cr_offset c), cr_session c))"

lemma rmap_params:
  "rmap journal_params j = Inr js \<Longrightarrow> js = map journal_entry j"
  "rmap close_params c = Inr cs \<Longrightarrow> cs = map close_entry c"
  by (auto simp: rmap_eq_Inr journal_params_def close_params_def journal_entry_def close_entry_def
      rbind_eq_Inr json_dumps_eq_Inr list_all2_conv_all_nth intro!: nth_equalityI)

lemma fold_insert_exact:
  "dict_ok (d @ kvs) \<Longrightarrow> fold (\<lambda>(k, v). insert_or_ignore k v) kvs d = d @ kvs"
proof (induction kvs arbitrary: d)
  case (Cons kv kvs)
  obtain k v where kv: "kv = (k, v)" by fastforce
  with Cons.prems have "map_of d k = None" by (auto simp: map_of_eq_None_iff)
  with Cons show ?case by (simp add: kv insert_or_ignore_def)
qed simp

lemma append_batch_exact:
  assumes "append_batch st j c = Inr st'"
    and "dict_ok (journal_tbl st @ map journal_entry j)" "dict_ok (closes_tbl st @ map close_entry c)"
  shows "journal_tbl st' = journal_tbl st @ map journal_entry j"
    "closes_tbl st' = closes_tbl st @ map close_entry c"
  using assms
  by (auto simp: append_batch_eq_Inr dest!: rmap_params) (simp_all add: fold_insert_exact dict_rebuild)

lemma append_undone:
  assumes "append_batch st j c = Inr st'"
    and fresh: "\<forall>r \<in> set c. \<not> is_closed st (cr_ride_id r)"
    and old: "\<forall>x \<in> set (journal_tbl st). snd (fst x) < resume (fst (fst x))"
      "\<forall>x \<in> set (closes_tbl st). snd (fst (snd x)) < resume (fst (fst (snd x)))"
    and new: "\<forall>r \<in> set j. jr_partition r \<in> set ps \<and> resume (jr_partition r) \<le> jr_offset r"
      "\<forall>r \<in> set c. cr_partition r \<in> set ps \<and> resume (cr_partition r) \<le> cr_offset r"
  shows "fold (\<lambda>p s. rollback_store p (resume p) s) ps st' = st"
proof -
  obtain jnew cnew where eq:
    "journal_tbl st' = journal_tbl st @ jnew" "closes_tbl st' = closes_tbl st @ cnew"
    and from_j: "\<forall>x \<in> set jnew. \<exists>r \<in> set j. x = ((jr_partition r, jr_offset r), (jr_ride_id r, jr_value r))"
    and from_c: "\<forall>x \<in> set cnew. \<exists>r \<in> set c. x = (cr_ride_id r, ((cr_partition r, cr_offset r), cr_session r))"
    by (rule append_batch_new [OF assms(1) fresh])
  have "fst (fst x) \<in> set ps \<and> resume (fst (fst x)) \<le> snd (fst x)" if "x \<in> set jnew" for x
    using from_j that new(1) by auto
  then have "journal_tbl (fold (\<lambda>p. rollback_store p (resume p)) ps st') = journal_tbl st"
    using journal_table.rollback_undoes [OF eq(1), of resume ps] old(1) by simp
  moreover have "fst (fst (snd x)) \<in> set ps \<and> resume (fst (fst (snd x))) \<le> snd (fst (snd x))"
    if "x \<in> set cnew" for x
    using from_c that new(2) by auto
  then have "closes_tbl (fold (\<lambda>p. rollback_store p (resume p)) ps st') = closes_tbl st"
    using closes_table.rollback_undoes [OF eq(2), of resume ps] old(2) by simp
  ultimately show ?thesis by simp
qed

text \<open>Rollback erases a half-applied batch as if it never happened. When every row the
  store held is tagged below its partition's resume position and every row of the batch at or
  beyond it (and the batch closes no ride twice), rolling back the batch's partitions after
  \<open>append_batch\<close> restores the very same store.\<close>

theorem rollback_undoes_append:
  assumes "append_batch st j c = Inr st'"
    and "list_all (\<lambda>r. \<not> is_closed st (cr_ride_id r)) c"
    and "list_all (\<lambda>x. snd (fst x) < resume (fst (fst x))) (journal_tbl st)"
    and "list_all (\<lambda>x. snd (fst (snd x)) < resume (fst (fst (snd x)))) (closes_tbl st)"
    and "list_all (\<lambda>r. jr_partition r \<in> set ps \<and> resume (jr_partition r) \<le> jr_offset r) j"
    and "list_all (\<lambda>r. cr_partition r \<in> set ps \<and> resume (cr_partition r) \<le> cr_offset r) c"
  shows "fold (\<lambda>p s. fst (rollback_from s p (resume p))) ps st' = st"
  unfolding rollback_store_def [symmetric]
  using assms(2-6) by (intro append_undone [OF assms(1)]) (simp_all add: list_all_iff)

theorem rollback_undoes_append_witness:
  "\<exists>st st'. append_batch empty_store [JournalRow.make 0 4 ''r'' []] [] = Inr st
    \<and> append_batch st [JournalRow.make 0 5 ''r'' []] [CloseRow.make ''r'' 0 5 []] = Inr st'
    \<and> st' \<noteq> st \<and> fold (\<lambda>p s. fst (rollback_from s p 5)) [0] st' = st"
proof -
  obtain st where st: "append_batch empty_store [JournalRow.make 0 4 ''r'' []] [] = Inr st"
    and v: "st = \<lparr>journal_tbl = [((0, 4), (''r'', []))], closes_tbl = []\<rparr>"
    by (simp add: append_batch_def empty_store_def journal_params_def json_dumps_def
        JournalRow.make_def insert_or_ignore_def)
  obtain st' where st': "append_batch st [JournalRow.make 0 5 ''r'' []] [CloseRow.make ''r'' 0 5 []] = Inr st'"
    and v': "closes_tbl st' \<noteq> []"
    by (simp add: append_batch_def journal_params_def close_params_def json_dumps_def
        JournalRow.make_def CloseRow.make_def v)
  have "fold (\<lambda>p s. fst (rollback_from s p 5)) [0] st' = st"
    by (rule rollback_undoes_append [OF st'])
      (simp_all add: v is_closed_def JournalRow.make_def CloseRow.make_def)
  with st st' v v' show ?thesis by auto
qed

lemma group_append_fold:
  "map_of (foldl group_append d kvs) k =
     (let vs = map snd (filter (\<lambda>kv. fst kv = k) kvs)
      in case map_of d k of Some ws \<Rightarrow> Some (ws @ vs)
         | None \<Rightarrow> if vs = [] then None else Some vs)"
  by (induction kvs arbitrary: d) (auto simp: group_append_def Let_def split: option.splits)

lemma group_append_ok: "dict_ok d \<Longrightarrow> dict_ok (foldl group_append d kvs)"
  by (induction kvs arbitrary: d) (auto simp: group_append_def dict_update_ok)

lemma open_rides_ok: "dict_ok (open_rides st p)"
  by (simp add: open_rides_def group_append_ok)

lemma filter_sort_key: "filter P (sort_key f xs) = sort_key f (filter P xs)"
  by (rule filter_sort)

text \<open>The events of a ride on a partition, in offset order.\<close>

definition ride_rows :: "StateStore \<Rightarrow> int \<Rightarrow> string \<Rightarrow> payload list" where
  "ride_rows st part ride_id =
     map (snd \<circ> snd) (sort_key (snd \<circ> fst)
       (filter (\<lambda>((p, _), ride, _). p = part \<and> ride = ride_id) (journal_tbl st)))"

lemma open_rides_lookup:
  "map_of (open_rides st p) r =
     (if is_closed st r \<or> ride_rows st p r = [] then None else Some (ride_rows st p r))"
proof -
  have "map snd (filter (\<lambda>kv. fst kv = r) (open_rows st p)) =
      (if is_closed st r then [] else ride_rows st p r)"
    by (auto simp: open_rows_def ride_rows_def filter_map filter_sort_key o_def case_prod_unfold
        conj_commute conj_left_commute filter_empty_conv intro!: arg_cong [where f = "map _"]
        arg_cong [where f = "sort_key _"] filter_cong)
  then show ?thesis
    by (simp add: open_rides_def group_append_fold Let_def)
qed

lemma purge_closes [simp]: "closes_tbl (fst (purge_confirmed st p b)) = closes_tbl st"
  by (simp add: purge_confirmed_def Let_def)

lemma purge_is_closed [simp]: "is_closed (fst (purge_confirmed st p b)) r = is_closed st r"
  by (simp add: is_closed_def)

lemma purge_open_rows: "open_rows (fst (purge_confirmed st p b)) q = open_rows st q"
proof -
  have "ride \<notin> fst ` set (closes_tbl st)" if "\<not> is_closed st ride" for ride
    using that by (simp add: is_closed_def map_of_eq_None_iff)
  then show ?thesis
    unfolding open_rows_def purge_is_closed
    by (intro arg_cong [where f = "map _"] arg_cong [where f = "sort_key _"])
      (auto simp: purge_confirmed_def Let_def intro!: filter_cong)
qed

text \<open>The fold input of startup recovery. \<open>open_rides\<close> groups the journal of a partition
  by ride, leaving out the rides with a recorded close, and gives each ride its events in
  offset order; purging the journal of confirmed closes does not change the answer, on any
  partition and below any offset.\<close>

theorem open_rides_for_recovery:
  "map_of (open_rides (fst (purge_confirmed st p b)) q) r =
     (if is_closed st r \<or> ride_rows st q r = [] then None else Some (ride_rows st q r))
   \<and> dict_ok (open_rides st q)"
  using open_rides_lookup [of st q r] by (simp add: open_rides_def purge_open_rows open_rides_ok group_append_ok)

end
