(* ===== verification/Topics.thy ===== *)
theory Topics
  imports Py_Values
begin

text \<open>
  \<open>common/topics.py\<close> and \<open>common/kafka.py\<close>: the topic names, the dead-letter naming
  rule, the topics the platform creates with their partition counts, the idempotent
  creation at startup and the producer and consumer configurations.

  The broker's answers are parameters of \<open>ensure_topics\<close>: \<open>existing\<close> is what
  \<open>list_topics\<close> lists, \<open>outcome t\<close> is the text of the exception the creation future
  of \<open>t\<close> raises, \<open>None\<close> when it succeeds. The function returns the creation request
  it sent beside its result, because the request is its effect.
\<close>

definition RIDES_EVENTS :: string where "RIDES_EVENTS = ''rides.events''"
definition DRIVERS_LOCATIONS :: string where "DRIVERS_LOCATIONS = ''drivers.locations''"
definition PAYMENTS_TRANSACTIONS :: string where "PAYMENTS_TRANSACTIONS = ''payments.transactions''"
definition RIDES_SESSIONS :: string where "RIDES_SESSIONS = ''rides.sessions''"
definition LATE_EVENTS :: string where "LATE_EVENTS = ''late.events''"
definition RIDES_EVENTS_CLEAN :: string where "RIDES_EVENTS_CLEAN = ''rides.events.clean''"

definition SOURCE_TOPICS :: "string list" where
  "SOURCE_TOPICS = [RIDES_EVENTS, DRIVERS_LOCATIONS, PAYMENTS_TRANSACTIONS]"

definition dlq_topic :: "string \<Rightarrow> string" where
  "dlq_topic topic = topic @ ''.dlq''"

lemmas topic_defs = RIDES_EVENTS_def DRIVERS_LOCATIONS_def PAYMENTS_TRANSACTIONS_def
  RIDES_SESSIONS_def LATE_EVENTS_def RIDES_EVENTS_CLEAN_def

definition TOPIC_PARTITIONS :: "(string, int) dict" where
  "TOPIC_PARTITIONS =
     [(RIDES_EVENTS, 6), (RIDES_EVENTS_CLEAN, 6), (DRIVERS_LOCATIONS, 6),
      (PAYMENTS_TRANSACTIONS, 3), (RIDES_SESSIONS, 3), (LATE_EVENTS, 1),
      (dlq_topic RIDES_EVENTS, 1), (dlq_topic PAYMENTS_TRANSACTIONS, 1),
      (dlq_topic RIDES_SESSIONS, 1)]"

lemma dlq_topic_inj [simp]: "dlq_topic a = dlq_topic b \<longleftrightarrow> a = b"
  by (simp add: dlq_topic_def)

lemma dlq_topic_neq: "dlq_topic a \<noteq> RIDES_SESSIONS" "dlq_topic a \<noteq> RIDES_EVENTS_CLEAN"
proof -
  have "last (dlq_topic a) = CHR ''q''" by (simp add: dlq_topic_def)
  then show "dlq_topic a \<noteq> RIDES_SESSIONS" "dlq_topic a \<noteq> RIDES_EVENTS_CLEAN"
    by (auto simp: RIDES_SESSIONS_def RIDES_EVENTS_CLEAN_def)
qed

lemma sessions_neq_clean: "RIDES_SESSIONS \<noteq> RIDES_EVENTS_CLEAN"
  by (simp add: topic_defs)

lemmas topic_distinct [simp] = dlq_topic_neq dlq_topic_neq [symmetric]
  sessions_neq_clean sessions_neq_clean [symmetric]

section \<open>Topic creation\<close>

definition contains_text :: "string \<Rightarrow> string \<Rightarrow> bool" where
  "contains_text sub s = list_ex (\<lambda>i. take (length sub) (drop i s) = sub) [0..<Suc (length s)]"

definition missing_topics :: "(string, int) dict \<Rightarrow> string list \<Rightarrow> (string, int) dict" where
  "missing_topics wanted existing = filter (\<lambda>(name, count). name \<notin> set existing) wanted"

fun await_topics :: "(string \<Rightarrow> string option) \<Rightarrow> (string, int) dict \<Rightarrow> exn + unit" where
  "await_topics outcome [] = Inr ()"
| "await_topics outcome ((name, count) # rest) =
     (case outcome name of
        None \<Rightarrow> await_topics outcome rest
      | Some exc \<Rightarrow>
          if contains_text ''TOPIC_ALREADY_EXISTS'' exc then await_topics outcome rest
          else Inl (RuntimeError (''failed to create topic '' @ name @ '': '' @ exc)))"

definition ensure_topics ::
  "(string, int) dict option \<Rightarrow> string list \<Rightarrow> (string \<Rightarrow> string option)
   \<Rightarrow> (string, int) dict \<times> (exn + unit)" where
  "ensure_topics partitions existing outcome =
     (let wanted = (case partitions of Some (p # ps) \<Rightarrow> p # ps | _ \<Rightarrow> TOPIC_PARTITIONS);
          missing = missing_topics wanted existing
      in if missing = [] then ([], Inr ()) else (missing, await_topics outcome missing))"

lemma await_topics_Inl:
  "await_topics outcome ts = Inl x \<Longrightarrow>
     \<exists>t exc. t \<in> fst ` set ts \<and> outcome t = Some exc \<and> \<not> contains_text ''TOPIC_ALREADY_EXISTS'' exc
       \<and> x = RuntimeError (''failed to create topic '' @ t @ '': '' @ exc)"
  by (induction outcome ts rule: await_topics.induct)
    (auto split: option.splits if_splits)

lemma await_topics_Inr:
  "await_topics outcome ts = Inr () \<longleftrightarrow>
     (\<forall>t \<in> fst ` set ts. \<forall>exc. outcome t = Some exc \<longrightarrow> contains_text ''TOPIC_ALREADY_EXISTS'' exc)"
  by (induction outcome ts rule: await_topics.induct) (auto split: option.splits)

lemma ensure_topics_None:
  "ensure_topics None existing outcome =
     (missing_topics TOPIC_PARTITIONS existing,
      await_topics outcome (missing_topics TOPIC_PARTITIONS existing))"
  by (simp add: ensure_topics_def Let_def)

section \<open>Client configurations\<close>

definition producer_config :: "string \<Rightarrow> string option \<Rightarrow> payload" where
  "producer_config bootstrap transactional_id =
     (let conf = [(''bootstrap.servers'', PStr bootstrap), (''enable.idempotence'', PBool True),
                  (''acks'', PStr ''all''), (''linger.ms'', PInt 5),
                  (''compression.type'', PStr ''lz4'')]
      in case transactional_id of
           None \<Rightarrow> conf
         | Some t \<Rightarrow> AList.update ''transactional.id'' (PStr t) conf)"

definition consumer_config :: "string \<Rightarrow> string \<Rightarrow> bool \<Rightarrow> string \<Rightarrow> bool \<Rightarrow> payload" where
  "consumer_config bootstrap group_id read_committed auto_offset_reset enable_auto_commit =
     [(''bootstrap.servers'', PStr bootstrap), (''group.id'', PStr group_id),
      (''auto.offset.reset'', PStr auto_offset_reset),
      (''enable.auto.commit'', PBool enable_auto_commit),
      (''isolation.level'', PStr (if read_committed then ''read_committed'' else ''read_uncommitted''))]"

section \<open>Properties\<close>

text \<open>Startup creates exactly the platform topics the broker does not have, each with its
  partition count; it succeeds exactly when every creation error it is told of says
  \<open>TOPIC_ALREADY_EXISTS\<close>.\<close>

theorem ensure_topics_complete:
  "set (fst (ensure_topics None existing outcome)) =
     {(t, n). map_of TOPIC_PARTITIONS t = Some n \<and> t \<notin> set existing}
   \<and> (snd (ensure_topics None existing outcome) = Inr () \<longleftrightarrow>
        {exc. \<exists>t \<in> fst ` set TOPIC_PARTITIONS - set existing. outcome t = Some exc}
          \<subseteq> {exc. contains_text ''TOPIC_ALREADY_EXISTS'' exc})"
proof -
  have "dict_ok TOPIC_PARTITIONS"
    by (simp add: TOPIC_PARTITIONS_def topic_defs dlq_topic_def)
  then have "set (missing_topics TOPIC_PARTITIONS existing) =
      {(t, n). map_of TOPIC_PARTITIONS t = Some n \<and> t \<notin> set existing}"
    by (auto simp: missing_topics_def)
  moreover have "fst ` set (missing_topics TOPIC_PARTITIONS existing) =
      fst ` set TOPIC_PARTITIONS - set existing"
    by (force simp: missing_topics_def)
  moreover have "await_topics outcome (missing_topics TOPIC_PARTITIONS existing) = Inr () \<longleftrightarrow>
      {exc. \<exists>t \<in> fst ` set (missing_topics TOPIC_PARTITIONS existing). outcome t = Some exc}
        \<subseteq> {exc. contains_text ''TOPIC_ALREADY_EXISTS'' exc}"
    unfolding await_topics_Inr by blast
  ultimately show ?thesis
    by (simp only: ensure_topics_None fst_conv snd_conv)
qed

end
