(* ===== verification/State_Machine.thy ===== *)
theory State_Machine
  imports Py_Values
begin

text \<open>
  \<open>generator/state_machine.py\<close>: the ride lifecycle. \<open>RideStateMachine\<close> keeps one field,
  the last event (\<open>None\<close> before the first), and \<open>advance\<close> either moves or raises
  \<open>IllegalTransitionError\<close> leaving the state as it was.

  The lemmas say which event sequences the machine accepts, that the lifecycle ordinal
  strictly increases along any of them (it orders the event types: the \<open>linorder\<close>
  instance), and that nothing is accepted after a terminal state.
\<close>

datatype ride_event_type = REQUESTED | MATCHED | DRIVER_ARRIVED | STARTED | COMPLETED | CANCELLED

fun ev_value :: "ride_event_type \<Rightarrow> string" where
  "ev_value REQUESTED = ''requested''"
| "ev_value MATCHED = ''matched''"
| "ev_value DRIVER_ARRIVED = ''driver_arrived''"
| "ev_value STARTED = ''started''"
| "ev_value COMPLETED = ''completed''"
| "ev_value CANCELLED = ''cancelled''"

definition all_event_types :: "ride_event_type list" where
  "all_event_types = [REQUESTED, MATCHED, DRIVER_ARRIVED, STARTED, COMPLETED, CANCELLED]"

text \<open>\<open>RideEventType(s)\<close>: lookup by value, a ValueError for anything else.\<close>

fun ride_event_type_of :: "pyval \<Rightarrow> exn + ride_event_type" where
  "ride_event_type_of (PStr s) =
     (case find (\<lambda>e. ev_value e = s) all_event_types of
        Some e \<Rightarrow> Inr e
      | None \<Rightarrow> Inl (ValueError (s @ '' is not a valid RideEventType'')))"
| "ride_event_type_of _ = Inl (ValueError ''not a valid RideEventType'')"

definition TERMINAL_STATES :: "ride_event_type list" where
  "TERMINAL_STATES = [COMPLETED, CANCELLED]"

fun LEGAL_TRANSITIONS :: "ride_event_type \<Rightarrow> ride_event_type list" where
  "LEGAL_TRANSITIONS REQUESTED = [MATCHED, CANCELLED]"
| "LEGAL_TRANSITIONS MATCHED = [DRIVER_ARRIVED, CANCELLED]"
| "LEGAL_TRANSITIONS DRIVER_ARRIVED = [STARTED, CANCELLED]"
| "LEGAL_TRANSITIONS STARTED = [COMPLETED, CANCELLED]"
| "LEGAL_TRANSITIONS COMPLETED = []"
| "LEGAL_TRANSITIONS CANCELLED = []"

fun EVENT_SEQ :: "ride_event_type \<Rightarrow> int" where
  "EVENT_SEQ REQUESTED = 1"
| "EVENT_SEQ MATCHED = 2"
| "EVENT_SEQ DRIVER_ARRIVED = 3"
| "EVENT_SEQ STARTED = 4"
| "EVENT_SEQ COMPLETED = 5"
| "EVENT_SEQ CANCELLED = 6"

type_synonym machine = "ride_event_type option"

definition machine_init :: machine where
  "machine_init = None"

abbreviation IllegalTransitionError :: "string \<Rightarrow> exn" where
  "IllegalTransitionError \<equiv> Exn ''IllegalTransitionError''"

definition advance :: "machine \<Rightarrow> ride_event_type \<Rightarrow> exn + machine" where
  "advance m event =
     (case m of
        None \<Rightarrow>
          if event \<noteq> REQUESTED
          then Inl (IllegalTransitionError (''first event must be requested, got '' @ ev_value event))
          else Inr (Some event)
      | Some s \<Rightarrow>
          if event \<notin> set (LEGAL_TRANSITIONS s)
          then Inl (IllegalTransitionError
                     (ev_value s @ '' -> '' @ ev_value event @ '' is not a legal edge''))
          else Inr (Some event))"

definition is_terminal :: "machine \<Rightarrow> bool" where
  "is_terminal m = (case m of None \<Rightarrow> False | Some s \<Rightarrow> s \<in> set TERMINAL_STATES)"

definition legal_next :: "machine \<Rightarrow> ride_event_type list" where
  "legal_next m = (case m of None \<Rightarrow> [REQUESTED] | Some s \<Rightarrow> LEGAL_TRANSITIONS s)"

text \<open>A ride driven through the machine: the first illegal event stops it.\<close>

fun drive :: "machine \<Rightarrow> ride_event_type list \<Rightarrow> exn + machine" where
  "drive m [] = Inr m"
| "drive m (e # es) = rbind (advance m e) (\<lambda>m'. drive m' es)"

section \<open>The type of events\<close>

lemma ride_event_type_roundtrip [simp]: "ride_event_type_of (PStr (ev_value e)) = Inr e"
  by (cases e) (simp_all add: all_event_types_def)

lemma ride_event_type_of_Inr:
  "ride_event_type_of v = Inr e \<longleftrightarrow> v = PStr (ev_value e)"
proof
  assume "ride_event_type_of v = Inr e"
  then show "v = PStr (ev_value e)"
    by (cases v rule: ride_event_type_of.cases)
      (auto simp: find_Some_iff split: option.splits)
qed (simp only: ride_event_type_roundtrip)

lemma ride_event_type_literals [simp]:
  "ride_event_type_of (PStr ''requested'') = Inr REQUESTED"
  "ride_event_type_of (PStr ''matched'') = Inr MATCHED"
  "ride_event_type_of (PStr ''driver_arrived'') = Inr DRIVER_ARRIVED"
  "ride_event_type_of (PStr ''started'') = Inr STARTED"
  "ride_event_type_of (PStr ''completed'') = Inr COMPLETED"
  "ride_event_type_of (PStr ''cancelled'') = Inr CANCELLED"
  by (simp_all add: all_event_types_def)

declare ride_event_type_of.simps(1) [simp del]

lemma EVENT_SEQ_inj [simp]: "EVENT_SEQ a = EVENT_SEQ b \<longleftrightarrow> a = b"
  by (cases a; cases b) simp_all

lemma EVENT_SEQ_range: "1 \<le> EVENT_SEQ e" "EVENT_SEQ e \<le> 6"
  by (cases e; simp)+

instantiation ride_event_type :: linorder
begin

definition less_eq_ride_event_type :: "ride_event_type \<Rightarrow> ride_event_type \<Rightarrow> bool" where
  "less_eq_ride_event_type a b \<longleftrightarrow> EVENT_SEQ a \<le> EVENT_SEQ b"

definition less_ride_event_type :: "ride_event_type \<Rightarrow> ride_event_type \<Rightarrow> bool" where
  "less_ride_event_type a b \<longleftrightarrow> EVENT_SEQ a < EVENT_SEQ b"

instance
  by standard (auto simp: less_eq_ride_event_type_def less_ride_event_type_def)

end

section \<open>Transitions\<close>

lemma advance_Inr: "advance m e = Inr m' \<longleftrightarrow> e \<in> set (legal_next m) \<and> m' = Some e"
  by (auto simp: advance_def legal_next_def split: option.splits)

lemma advance_Inl: "(\<exists>x. advance m e = Inl x) \<longleftrightarrow> e \<notin> set (legal_next m)"
  by (auto simp: advance_def legal_next_def split: option.splits)

lemma legal_next_empty: "legal_next m = [] \<longleftrightarrow> is_terminal m"
proof (cases m)
  case (Some s)
  then show ?thesis
    by (cases s) (simp_all add: legal_next_def is_terminal_def TERMINAL_STATES_def)
qed (simp add: legal_next_def is_terminal_def)

lemma legal_next_greater: "e \<in> set (legal_next (Some s)) \<Longrightarrow> s < e"
  by (cases s) (auto simp: legal_next_def less_ride_event_type_def)

lemma drive_Cons_Inr:
  "drive m (e # es) = Inr m' \<longleftrightarrow> e \<in> set (legal_next m) \<and> drive (Some e) es = Inr m'"
  by (auto simp: rbind_eq_Inr advance_Inr)

lemma drive_increases:
  "drive (Some s) es = Inr m' \<Longrightarrow> sorted_wrt (<) (s # es)"
proof (induction es arbitrary: s)
  case (Cons e es)
  then have "s < e" "drive (Some e) es = Inr m'"
    using legal_next_greater by (simp_all only: drive_Cons_Inr)
  with Cons.IH show ?case by force
qed simp

lemma drive_append:
  "drive m (es @ fs) = rbind (drive m es) (\<lambda>m'. drive m' fs)"
proof (induction es arbitrary: m)
  case (Cons e es)
  then show ?case by (cases "advance m e") auto
qed simp

lemma drive_final: "e \<in> {COMPLETED, CANCELLED} \<Longrightarrow> drive (Some e) es = Inr m \<longleftrightarrow> es = [] \<and> m = Some e"
  by (cases es) (auto simp: legal_next_def drive_Cons_Inr simp del: drive.simps(2))

lemma drive_started:
  "drive (Some STARTED) es = Inr m \<longleftrightarrow>
     (es, m) \<in> {([], Some STARTED), ([COMPLETED], Some COMPLETED), ([CANCELLED], Some CANCELLED)}"
  by (cases es) (auto simp: legal_next_def drive_Cons_Inr drive_final simp del: drive.simps(2))

lemma drive_arrived:
  "drive (Some DRIVER_ARRIVED) es = Inr m \<longleftrightarrow>
     (es, m) \<in> {([], Some DRIVER_ARRIVED), ([CANCELLED], Some CANCELLED)}
     \<or> (\<exists>r. es = STARTED # r \<and> drive (Some STARTED) r = Inr m)"
  by (cases es) (auto simp: legal_next_def drive_Cons_Inr drive_final simp del: drive.simps(2))

lemma drive_matched:
  "drive (Some MATCHED) es = Inr m \<longleftrightarrow>
     (es, m) \<in> {([], Some MATCHED), ([CANCELLED], Some CANCELLED)}
     \<or> (\<exists>r. es = DRIVER_ARRIVED # r \<and> drive (Some DRIVER_ARRIVED) r = Inr m)"
  by (cases es) (auto simp: legal_next_def drive_Cons_Inr drive_final simp del: drive.simps(2))

lemma drive_requested:
  "drive (Some REQUESTED) es = Inr m \<longleftrightarrow>
     (es, m) \<in> {([], Some REQUESTED), ([CANCELLED], Some CANCELLED)}
     \<or> (\<exists>r. es = MATCHED # r \<and> drive (Some MATCHED) r = Inr m)"
  by (cases es) (auto simp: legal_next_def drive_Cons_Inr drive_final simp del: drive.simps(2))

lemma drive_init:
  "drive machine_init es = Inr m \<longleftrightarrow>
     es = [] \<and> m = None \<or> (\<exists>r. es = REQUESTED # r \<and> drive (Some REQUESTED) r = Inr m)"
  by (cases es) (auto simp: machine_init_def legal_next_def drive_Cons_Inr simp del: drive.simps(2))

lemmas drive_language =
  drive_init drive_requested drive_matched drive_arrived drive_started

section \<open>Properties\<close>

definition full_ride :: "ride_event_type list" where
  "full_ride = [REQUESTED, MATCHED, DRIVER_ARRIVED, STARTED, COMPLETED]"

text \<open>The machine accepts exactly the prefixes of a full ride, and the non-empty
  prefixes short of completion followed by one cancellation; every other sequence of events
  raises \<open>IllegalTransitionError\<close>.\<close>

theorem lifecycle_language:
  "(\<exists>m. drive machine_init es = Inr m) \<longleftrightarrow>
     es \<in> (\<lambda>n. take n full_ride) ` {0..5} \<union> (\<lambda>n. take n full_ride @ [CANCELLED]) ` {1..4}"
proof -
  have "{0..5} = {0, 1, 2, 3, 4, 5 :: nat}" "{1..4} = {1, 2, 3, 4 :: nat}"
    by auto
  then show ?thesis
    unfolding drive_language full_ride_def by (simp add: take_Cons') blast
qed

text \<open>Along any accepted ride the lifecycle ordinal strictly increases, so a ride never
  repeats an event and \<open>(ride_id, event_seq)\<close> identifies it; and once the machine is in a
  terminal state every further event is refused.\<close>

theorem lifecycle_ordinals_increase:
  assumes "drive machine_init es = Inr m"
  shows "sorted_wrt (<) (map EVENT_SEQ es) \<and> distinct es
    \<and> (is_terminal m \<longrightarrow> (\<forall>e. \<exists>x. advance m e = Inl x))"
proof (cases es)
  case Nil
  with assms show ?thesis by (auto simp: machine_init_def is_terminal_def)
next
  case (Cons e r)
  with assms have "drive (Some e) r = Inr m"
    by (simp only: drive_Cons_Inr)
  from drive_increases [OF this] Cons have "sorted_wrt (<) es" by simp
  moreover from this have "sorted_wrt (<) (map EVENT_SEQ es)"
    unfolding sorted_wrt_map by (rule sorted_wrt_mono_rel [rotated]) (simp add: less_ride_event_type_def)
  ultimately have "sorted_wrt (<) (map EVENT_SEQ es)" "distinct es"
    by (simp_all add: strict_sorted_iff)
  moreover have "is_terminal m \<Longrightarrow> \<exists>x. advance m e' = Inl x" for e'
    using legal_next_empty [of m] by (simp add: advance_Inl)
  ultimately show ?thesis by blast
qed

theorem lifecycle_ordinals_increase_witness:
  "sorted_wrt (<) (map EVENT_SEQ full_ride) \<and> distinct full_ride
    \<and> (\<forall>e. \<exists>x. advance (Some COMPLETED) e = Inl x)"
proof -
  have "drive machine_init full_ride = Inr (Some COMPLETED)" "is_terminal (Some COMPLETED)"
    by (simp_all add: machine_init_def full_ride_def advance_def is_terminal_def TERMINAL_STATES_def)
  with lifecycle_ordinals_increase [OF this(1)] show ?thesis by blast
qed

end
