(* ===== verification/Events.thy ===== *)
theory Events
  imports Topics State_Machine
begin

text \<open>
  \<open>generator/events.py\<close>: the envelope the simulator yields and the three builders that
  shape payloads. Coordinates are \<open>(lat, lon)\<close> pairs of floats; the payload dictionaries
  keep the key order of the source.
\<close>

record source_event =
  se_topic :: string
  se_key :: string
  se_value :: payload
  se_ts :: int
  se_corrupt :: bool

definition event_id :: "string \<Rightarrow> ride_event_type \<Rightarrow> string" where
  "event_id ride_id event_type = ride_id @ ''.'' @ int_digits (EVENT_SEQ event_type)"

definition ride_event ::
  "string \<Rightarrow> ride_event_type \<Rightarrow> int \<Rightarrow> string \<Rightarrow> int \<Rightarrow> real \<times> real \<Rightarrow> real \<Rightarrow> string option
   \<Rightarrow> (real \<times> real) option \<Rightarrow> int option \<Rightarrow> int \<Rightarrow> string option \<Rightarrow> source_event" where
  "ride_event ride_id event_type event_ts_ms rider_id city_id pickup surge_multiplier driver_id
     dropoff fare_cents payload_version promo_code =
     (let value =
        [(''event_id'', PStr (event_id ride_id event_type)),
         (''ride_id'', PStr ride_id),
         (''event_type'', PStr (ev_value event_type)),
         (''event_ts'', PInt event_ts_ms),
         (''rider_id'', PStr rider_id),
         (''driver_id'', of_opt_str driver_id),
         (''city_id'', PInt city_id),
         (''pickup_lat'', PFloat (fst pickup)),
         (''pickup_lon'', PFloat (snd pickup)),
         (''dropoff_lat'', of_opt_float (map_option fst dropoff)),
         (''dropoff_lon'', of_opt_float (map_option snd dropoff)),
         (''fare_cents'', of_opt_int fare_cents),
         (''surge_multiplier'', PFloat surge_multiplier),
         (''payload_version'', PInt payload_version)];
        value = (if payload_version \<ge> 2
                 then AList.update ''promo_code'' (of_opt_str promo_code) value else value)
      in \<lparr>se_topic = RIDES_EVENTS, se_key = ride_id, se_value = value, se_ts = event_ts_ms,
          se_corrupt = False\<rparr>)"

definition payment_event ::
  "string \<Rightarrow> string \<Rightarrow> int \<Rightarrow> string \<Rightarrow> string \<Rightarrow> int \<Rightarrow> source_event" where
  "payment_event txn_id ride_id amount_cents status payment_method ts_ms =
     \<lparr>se_topic = PAYMENTS_TRANSACTIONS, se_key = ride_id,
      se_value =
        [(''txn_id'', PStr txn_id), (''ride_id'', PStr ride_id),
         (''amount_cents'', PInt amount_cents), (''status'', PStr status),
         (''method'', PStr payment_method), (''ts'', PInt ts_ms)],
      se_ts = ts_ms, se_corrupt = False\<rparr>"

definition driver_location_event ::
  "string \<Rightarrow> int \<Rightarrow> real \<Rightarrow> real \<Rightarrow> real \<Rightarrow> real \<Rightarrow> string \<Rightarrow> int \<Rightarrow> source_event" where
  "driver_location_event driver_id ts_ms lat lon speed_kmh heading status city_id =
     \<lparr>se_topic = DRIVERS_LOCATIONS, se_key = driver_id,
      se_value =
        [(''driver_id'', PStr driver_id), (''ts'', PInt ts_ms), (''lat'', PFloat lat),
         (''lon'', PFloat lon), (''speed_kmh'', PFloat speed_kmh),
         (''heading'', PFloat heading), (''status'', PStr status), (''city_id'', PInt city_id)],
      se_ts = ts_ms, se_corrupt = False\<rparr>"

lemma int_digits_seq: "int_digits (EVENT_SEQ e) = [char_of (48 + nat (EVENT_SEQ e))]"
  by (cases e) (simp_all add: int_digits_def nat_digits.simps)

lemma event_id_inj: "event_id r e = event_id r' e' \<longleftrightarrow> r = r' \<and> e = e'"
proof
  assume "event_id r e = event_id r' e'"
  then have "r = r'" and "(char_of (48 + nat (EVENT_SEQ e)) :: char) = char_of (48 + nat (EVENT_SEQ e'))"
    by (simp_all add: event_id_def int_digits_seq)
  then have "(of_char (char_of (48 + nat (EVENT_SEQ e)) :: char) :: nat)
      = of_char (char_of (48 + nat (EVENT_SEQ e')) :: char)"
    by simp
  with \<open>r = r'\<close> show "r = r' \<and> e = e'"
    by (cases e; cases e') simp_all
qed simp

text \<open>A concrete event, for closed instances of the theorems.\<close>

definition sample_event :: "string \<Rightarrow> ride_event_type \<Rightarrow> int \<Rightarrow> payload" where
  "sample_event ride e ts =
     se_value (ride_event ride e ts ''u-1'' 1 (12, 77) 1 None None None 1 None)"

lemma sample_event_fields [simp]:
  "d_item (sample_event r e ts) ''event_type'' = Inr (PStr (ev_value e))"
  "d_item (sample_event r e ts) ''event_ts'' = Inr (PInt ts)"
  "d_item (sample_event r e ts) ''ride_id'' = Inr (PStr r)"
  "d_get (sample_event r e ts) ''event_type'' = PStr (ev_value e)"
  "d_get (sample_event r e ts) ''event_ts'' = PInt ts"
  by (simp_all add: sample_event_def ride_event_def Let_def d_item_def d_get_def)

lemma sample_event_update [simp]:
  "AList.update ''event_ts'' (PInt ts) (sample_event r e ts) = sample_event r e ts"
  by (simp add: sample_event_def ride_event_def Let_def)

section \<open>Properties\<close>

text \<open>What a consumer reads back from a generated ride event: it is keyed by its ride,
  its type parses to the lifecycle event it was built for, and its \<open>event_id\<close> identifies the
  pair of ride and lifecycle event, so \<open>(ride_id, event_seq)\<close> and \<open>event_id\<close> are the same
  idempotency key.\<close>

theorem ride_event_identity:
  "se_key (ride_event r e ts rider city pickup surge drv dest fare ver promo) = r
    \<and> d_item (se_value (ride_event r e ts rider city pickup surge drv dest fare ver promo)) ''ride_id''
        = Inr (PStr r)
    \<and> rbind (d_item (se_value (ride_event r e ts rider city pickup surge drv dest fare ver promo))
              ''event_type'') ride_event_type_of = Inr e
    \<and> (d_item (se_value (ride_event r e ts rider city pickup surge drv dest fare ver promo)) ''event_id''
        = d_item (se_value (ride_event r' e' ts' rider' city' pickup' surge' drv' dest' fare' ver' promo'))
            ''event_id''
        \<longleftrightarrow> (r, EVENT_SEQ e) = (r', EVENT_SEQ e'))"
  by (simp add: ride_event_def Let_def d_item_def event_id_inj)

end
