(* ===== verification/Geo.thy ===== *)
theory Geo
  imports Complex_Main Prelude
begin

text \<open>
  \<open>common/geo.py\<close>: great-circle distance, initial bearing and forward projection, in
  exact real arithmetic (the libm functions \<open>sin\<close>, \<open>asin\<close>, \<open>atan2\<close> are the real ones).
  The lemmas show that the argument of the arcsine is always in its domain, that the
  distance is a symmetric non-negative quantity bounded by half the circumference, and
  the ranges of the angles.
\<close>

definition EARTH_RADIUS_KM :: real where "EARTH_RADIUS_KM = 6371.0088"

definition radians :: "real \<Rightarrow> real" where "radians x = x * pi / 180"

definition degrees :: "real \<Rightarrow> real" where "degrees x = x * 180 / pi"

definition float_mod :: "real \<Rightarrow> real \<Rightarrow> real" where
  "float_mod x m = x - m * of_int \<lfloor>x / m\<rfloor>"

definition atan2 :: "real \<Rightarrow> real \<Rightarrow> real" where
  "atan2 y x = Arg (Complex x y)"

definition haversine_a :: "real \<Rightarrow> real \<Rightarrow> real \<Rightarrow> real \<Rightarrow> real" where
  "haversine_a lat1 lon1 lat2 lon2 =
     (let phi1 = radians lat1; phi2 = radians lat2;
          dphi = radians (lat2 - lat1); dlam = radians (lon2 - lon1)
      in sin (dphi / 2) ^ 2 + cos phi1 * cos phi2 * sin (dlam / 2) ^ 2)"

definition haversine_km :: "real \<Rightarrow> real \<Rightarrow> real \<Rightarrow> real \<Rightarrow> real" where
  "haversine_km lat1 lon1 lat2 lon2 =
     2 * EARTH_RADIUS_KM * arcsin (sqrt (haversine_a lat1 lon1 lat2 lon2))"

definition initial_bearing_deg :: "real \<Rightarrow> real \<Rightarrow> real \<Rightarrow> real \<Rightarrow> real" where
  "initial_bearing_deg lat1 lon1 lat2 lon2 =
     (let phi1 = radians lat1; phi2 = radians lat2; dlam = radians (lon2 - lon1);
          y = sin dlam * cos phi2;
          x = cos phi1 * sin phi2 - sin phi1 * cos phi2 * cos dlam
      in float_mod (degrees (atan2 y x) + 360) 360)"

definition destination_point :: "real \<Rightarrow> real \<Rightarrow> real \<Rightarrow> real \<Rightarrow> real \<times> real" where
  "destination_point lat lon bearing_deg distance_km =
     (let delta = distance_km / EARTH_RADIUS_KM;
          theta = radians bearing_deg; phi1 = radians lat; lam1 = radians lon;
          phi2 = arcsin (sin phi1 * cos delta + cos phi1 * sin delta * cos theta);
          lam2 = lam1 + atan2 (sin theta * sin delta * cos phi1)
                              (cos delta - sin phi1 * sin phi2)
      in (degrees phi2, float_mod (degrees lam2 + 540) 360 - 180))"

lemma float_mod_range: "0 < m \<Longrightarrow> 0 \<le> float_mod x m \<and> float_mod x m < m"
  using floor_divide_lower [of m x] floor_divide_upper [of m x]
  by (simp add: float_mod_def algebra_simps)

text \<open>The haversine is half of one minus the cosine of the central angle.\<close>

lemma haversine_a_cos:
  "haversine_a lat1 lon1 lat2 lon2 =
     (1 - (sin (radians lat1) * sin (radians lat2)
           + cos (radians lat1) * cos (radians lat2) * cos (radians (lon2 - lon1)))) / 2"
proof -
  have half: "sin (x / 2) ^ 2 = (1 - cos x) / 2" for x :: real
    using cos_double_sin [of "x / 2"] by simp
  have "radians (lat2 - lat1) = radians lat2 - radians lat1"
    by (simp add: radians_def field_simps)
  then have "cos (radians (lat2 - lat1)) =
      cos (radians lat1) * cos (radians lat2) + sin (radians lat1) * sin (radians lat2)"
    by (simp add: cos_diff mult.commute)
  then show ?thesis
    by (simp add: haversine_a_def Let_def half) (simp add: field_simps)
qed

lemma haversine_a_range: "0 \<le> haversine_a lat1 lon1 lat2 lon2" "haversine_a lat1 lon1 lat2 lon2 \<le> 1"
proof -
  define u v w where "u = sin (radians lat1) * sin (radians lat2)"
    and "v = cos (radians lat1) * cos (radians lat2)" and "w = cos (radians (lon2 - lon1))"
  have "\<bar>v * w\<bar> \<le> \<bar>v\<bar> * 1"
    unfolding abs_mult w_def by (intro mult_left_mono) auto
  moreover have "\<bar>v - u\<bar> \<le> 1" "\<bar>v + u\<bar> \<le> 1"
    using abs_cos_le_one [of "radians lat1 + radians lat2"]
      abs_cos_le_one [of "radians lat1 - radians lat2"]
    by (simp_all add: u_def v_def cos_add cos_diff)
  ultimately have "\<bar>u + v * w\<bar> \<le> 1" by linarith
  then show "0 \<le> haversine_a lat1 lon1 lat2 lon2" "haversine_a lat1 lon1 lat2 lon2 \<le> 1"
    unfolding haversine_a_cos u_def v_def w_def by (simp_all add: abs_le_iff)
qed

lemma haversine_km_commute: "haversine_km a b c d = haversine_km c d a b"
proof -
  have "cos (radians (b - d)) = cos (radians (d - b))"
    by (metis cos_minus radians_def minus_diff_eq mult_minus_left minus_divide_left)
  then have "haversine_a a b c d = haversine_a c d a b"
    by (simp add: haversine_a_cos mult.commute)
  then show ?thesis by (simp add: haversine_km_def)
qed

lemma haversine_km_same [simp]: "haversine_km a b a b = 0"
  by (simp add: haversine_km_def haversine_a_def radians_def)

lemma haversine_km_nonneg: "0 \<le> haversine_km a b c d"
proof -
  have "0 \<le> arcsin (sqrt (haversine_a a b c d))"
    using haversine_a_range [of a b c d] by (intro arcsin_nonneg) simp
  then show ?thesis by (simp add: haversine_km_def EARTH_RADIUS_KM_def)
qed

section \<open>Properties\<close>

text \<open>The distance is defined for every pair of points (the arcsine's argument is in
  \<open>[0, 1]\<close>), symmetric, zero from a point to itself, and between zero and half the
  circumference of the Earth.\<close>

theorem haversine_km_metric:
  "haversine_km a b c d = haversine_km c d a b \<and> haversine_km a b a b = 0
   \<and> sqrt (haversine_a a b c d) \<in> {0..1}
   \<and> haversine_km a b c d \<in> {0..pi * EARTH_RADIUS_KM}"
proof -
  have "sqrt (haversine_a a b c d) \<in> {0..1}"
    using haversine_a_range [of a b c d] by simp
  moreover from this have "arcsin (sqrt (haversine_a a b c d)) \<le> pi / 2"
    by (intro arcsin_ubound) (auto intro: order_trans [of _ 0])
  then have "2 * EARTH_RADIUS_KM * arcsin (sqrt (haversine_a a b c d))
      \<le> 2 * EARTH_RADIUS_KM * (pi / 2)"
    by (intro mult_left_mono) (auto simp: EARTH_RADIUS_KM_def)
  ultimately show ?thesis
    using haversine_km_commute haversine_km_nonneg [of a b c d]
    by (simp add: haversine_km_def mult.commute)
qed

end
