(* ===== verification/Session_Builder.thy ===== *)
theory Session_Builder
  imports Events Times Geo
begin

text \<open>
  \<open>processors/session_builder.py\<close>: the pure fold of ride events into one session. An
  accumulator holds the last event seen for each lifecycle ordinal; \<open>build_session\<close> derives
  the session from whatever slots are filled.

  \<open>slots_ok\<close> is the invariant of an accumulator (each slot holds an event of its ordinal,
  with an integer time stamp). The main lemma, \<open>build_session_eqI\<close>, is that the session
  depends only on the slots as a map; order and duplicates of the events then do not matter,
  as long as at most one terminal event is among them.
\<close>

definition LATE_ARRIVAL_THRESHOLD_SEC :: real where
  "LATE_ARRIVAL_THRESHOLD_SEC = 600"

definition SESSION_TIMEOUT_MS_DEFAULT :: int where
  "SESSION_TIMEOUT_MS_DEFAULT = 2 * 3600 * 1000"

record acc =
  acc_ride_id :: string
  acc_slots :: "(int, payload) dict"

definition new_acc :: "string \<Rightarrow> acc" where
  "new_acc ride_id = \<lparr>acc_ride_id = ride_id, acc_slots = []\<rparr>"

definition add_event :: "acc \<Rightarrow> payload \<Rightarrow> exn + acc" where
  "add_event a value =
     rbind (d_item value ''event_type'') (\<lambda>t.
     rbind (ride_event_type_of t) (\<lambda>event_type.
     rbind (d_item value ''event_ts'') (\<lambda>ts.
     rbind (to_epoch_ms ts) (\<lambda>ms.
       Inr (a\<lparr>acc_slots :=
         AList.update (EVENT_SEQ event_type) (AList.update ''event_ts'' (PInt ms) value)
           (acc_slots a)\<rparr>)))))"

text \<open>\<open>terminal\<close>: the first slot, in insertion order, that holds a terminal event.\<close>

fun first_terminal :: "(int, payload) dict \<Rightarrow> ride_event_type option" where
  "first_terminal [] = None"
| "first_terminal ((_, value) # rest) =
     (case ride_event_type_of (d_get value ''event_type'') of
        Inr kind \<Rightarrow> if kind \<in> set TERMINAL_STATES then Some kind else first_terminal rest
      | Inl _ \<Rightarrow> first_terminal rest)"

definition terminal :: "acc \<Rightarrow> ride_event_type option" where
  "terminal a = first_terminal (acc_slots a)"

definition slot_ts :: "payload \<Rightarrow> int" where
  "slot_ts v = (case d_get v ''event_ts'' of PInt i \<Rightarrow> i | _ \<Rightarrow> 0)"

definition last_event_ts :: "acc \<Rightarrow> int" where
  "last_event_ts a =
     (if acc_slots a = [] then 0 else Max (set (map (slot_ts \<circ> snd) (acc_slots a))))"

definition acc_events :: "acc \<Rightarrow> payload list" where
  "acc_events a = map snd (sort_key fst (acc_slots a))"

definition slot_get :: "(int, payload) dict \<Rightarrow> ride_event_type \<Rightarrow> string \<Rightarrow> pyval" where
  "slot_get slots event field =
     (case map_of slots (EVENT_SEQ event) of None \<Rightarrow> PNone | Some value \<Rightarrow> d_get value field)"

fun first_present :: "(int, payload) dict \<Rightarrow> string \<Rightarrow> pyval" where
  "first_present [] field = PNone"
| "first_present ((_, value) # rest) field =
     (if d_get value field \<noteq> PNone then d_get value field else first_present rest field)"

definition first_of :: "(int, payload) dict \<Rightarrow> string \<Rightarrow> pyval" where
  "first_of slots field = first_present (sort_key fst slots) field"

definition diff_sec :: "pyval \<Rightarrow> pyval \<Rightarrow> real option" where
  "diff_sec a b =
     (case (opt_int a, opt_int b) of
        (Some x, Some y) \<Rightarrow> Some (max (of_int (x - y) / 1000) 0)
      | _ \<Rightarrow> None)"

definition trip_distance :: "pyval \<Rightarrow> pyval \<Rightarrow> pyval \<Rightarrow> pyval \<Rightarrow> exn + real option" where
  "trip_distance plat plon dlat dlon =
     (if PNone \<in> set [plat, plon, dlat, dlon] then Inr None
      else rbind (as_num plat) (\<lambda>a. rbind (as_num plon) (\<lambda>b.
           rbind (as_num dlat) (\<lambda>c. rbind (as_num dlon) (\<lambda>d.
             Inr (Some (haversine_km a b c d)))))))"

definition build_session :: "acc \<Rightarrow> bool \<Rightarrow> exn + payload" where
  "build_session a closed_by_timeout =
     (let slots = acc_slots a; term = terminal a in
      if term = None \<and> \<not> closed_by_timeout
      then Inl (ValueError (''ride '' @ acc_ride_id a @ '' is not closable yet''))
      else
      let requested_ts = slot_get slots REQUESTED ''event_ts'';
          matched_ts = slot_get slots MATCHED ''event_ts'';
          arrived_ts = slot_get slots DRIVER_ARRIVED ''event_ts'';
          started_ts = slot_get slots STARTED ''event_ts'';
          ended_ts = (if term = Some COMPLETED then slot_get slots COMPLETED ''event_ts''
                      else if term = Some CANCELLED then slot_get slots CANCELLED ''event_ts''
                      else PNone);
          time_to_match = diff_sec matched_ts requested_ts;
          time_to_pickup = diff_sec arrived_ts matched_ts;
          ride_duration = (if term = Some COMPLETED then diff_sec ended_ts started_ts else None);
          pickup_lat = first_of slots ''pickup_lat'';
          pickup_lon = first_of slots ''pickup_lon'';
          dropoff_lat = first_of slots ''dropoff_lat'';
          dropoff_lon = first_of slots ''dropoff_lon'';
          surge = first_of slots ''surge_multiplier''
      in rbind (trip_distance pickup_lat pickup_lon dropoff_lat dropoff_lon) (\<lambda>distance_km.
         let avg_speed = (case (distance_km, ride_duration) of
               (Some d, Some t) \<Rightarrow> if t > 0 then Some (d / (t / 3600)) else None
             | _ \<Rightarrow> None)
         in Inr
          [(''ride_id'', PStr (acc_ride_id a)),
           (''rider_id'', first_of slots ''rider_id''),
           (''driver_id'', first_of slots ''driver_id''),
           (''city_id'', first_of slots ''city_id''),
           (''terminal_state'',
              PStr (case term of Some k \<Rightarrow> ev_value k | None \<Rightarrow> ''abandoned'')),
           (''event_seq'', PInt (int (length slots))),
           (''requested_ts'',
              if requested_ts \<noteq> PNone then requested_ts else PInt (last_event_ts a)),
           (''matched_ts'', matched_ts),
           (''driver_arrived_ts'', arrived_ts),
           (''started_ts'', started_ts),
           (''ended_ts'', ended_ts),
           (''time_to_match_sec'', of_opt_float time_to_match),
           (''time_to_pickup_sec'', of_opt_float time_to_pickup),
           (''ride_duration_sec'', of_opt_float ride_duration),
           (''haversine_distance_km'', of_opt_float distance_km),
           (''avg_speed_kmh'', of_opt_float avg_speed),
           (''is_late_arrival'',
              PBool (case time_to_pickup of Some t \<Rightarrow> t > LATE_ARRIVAL_THRESHOLD_SEC
                     | None \<Rightarrow> False)),
           (''fare_cents'', slot_get slots COMPLETED ''fare_cents''),
           (''surge_multiplier'', if truthy surge then surge else PFloat 1),
           (''promo_code'', first_of slots ''promo_code''),
           (''pickup_lat'', if pickup_lat \<noteq> PNone then pickup_lat else PFloat 0),
           (''pickup_lon'', if pickup_lon \<noteq> PNone then pickup_lon else PFloat 0),
           (''dropoff_lat'', dropoff_lat),
           (''dropoff_lon'', dropoff_lon)]))"

definition timed_out :: "acc \<Rightarrow> int \<Rightarrow> int \<Rightarrow> bool" where
  "timed_out a watermark_ms timeout_ms \<longleftrightarrow>
     acc_slots a \<noteq> [] \<and> watermark_ms - last_event_ts a > timeout_ms"

text \<open>Feeding a list of events, as live processing and recovery both do.\<close>

fun add_events :: "acc \<Rightarrow> payload list \<Rightarrow> exn + acc" where
  "add_events a [] = Inr a"
| "add_events a (v # vs) = rbind (add_event a v) (\<lambda>a'. add_events a' vs)"

section \<open>The accumulator invariant\<close>

definition slot_ok :: "int \<Rightarrow> payload \<Rightarrow> bool" where
  "slot_ok s v \<longleftrightarrow>
     (case (ride_event_type_of (d_get v ''event_type''), d_get v ''event_ts'') of
        (Inr et, PInt ts) \<Rightarrow> s = EVENT_SEQ et
      | _ \<Rightarrow> False)"

definition slots_ok :: "acc \<Rightarrow> bool" where
  "slots_ok a \<longleftrightarrow> dict_ok (acc_slots a) \<and> list_all (\<lambda>(s, v). slot_ok s v) (acc_slots a)"

text \<open>An event as it is stored: its ordinal and the payload with an integer time stamp.\<close>

definition norm_event :: "payload \<Rightarrow> exn + int \<times> payload" where
  "norm_event v =
     rbind (d_item v ''event_type'') (\<lambda>t. rbind (ride_event_type_of t) (\<lambda>et.
     rbind (d_item v ''event_ts'') (\<lambda>ts. rbind (to_epoch_ms ts) (\<lambda>ms.
       Inr (EVENT_SEQ et, AList.update ''event_ts'' (PInt ms) v)))))"

lemma add_event_norm:
  "add_event a v = rbind (norm_event v)
     (\<lambda>(s, v'). Inr (a\<lparr>acc_slots := AList.update s v' (acc_slots a)\<rparr>))"
  by (simp add: add_event_def norm_event_def rbind_assoc)

lemma norm_event_ok: "norm_event v = Inr (s, v') \<Longrightarrow> slot_ok s v'"
  by (auto simp: norm_event_def slot_ok_def rbind_eq_Inr d_item_eq_Inr d_get_def)

lemma norm_event_idem:
  "norm_event v = Inr (s, v') \<Longrightarrow> norm_event v' = Inr (s, v')"
  by (auto simp: norm_event_def rbind_eq_Inr d_item_eq_Inr)

lemma slots_ok_new [simp]: "slots_ok (new_acc r)"
  by (simp add: slots_ok_def new_acc_def)

lemma list_all_update:
  "list_all (\<lambda>(k, v). P k v) d \<Longrightarrow> P k v \<Longrightarrow> list_all (\<lambda>(k, v). P k v) (AList.update k v d)"
  by (induction d) auto

lemma slots_ok_add: "slots_ok a \<Longrightarrow> add_event a v = Inr a' \<Longrightarrow> slots_ok a'"
  by (auto simp: add_event_norm rbind_eq_Inr slots_ok_def dict_update_ok
      intro!: list_all_update norm_event_ok)

lemma add_event_id: "add_event a v = Inr a' \<Longrightarrow> acc_ride_id a' = acc_ride_id a"
  by (auto simp: add_event_norm rbind_eq_Inr)

lemma slots_ok_adds: "slots_ok a \<Longrightarrow> add_events a vs = Inr a' \<Longrightarrow> slots_ok a'"
  by (induction vs arbitrary: a) (auto simp: rbind_eq_Inr dest: slots_ok_add)

lemma add_events_id: "add_events a vs = Inr a' \<Longrightarrow> acc_ride_id a' = acc_ride_id a"
  by (induction vs arbitrary: a) (auto simp: rbind_eq_Inr dest: add_event_id)

lemma add_events_append:
  "add_events a (vs @ ws) = rbind (add_events a vs) (\<lambda>b. add_events b ws)"
  by (induction vs arbitrary: a) (simp_all add: rbind_assoc)

section \<open>A session depends on the slots as a map\<close>

lemma slot_kind:
  assumes "slots_ok a" "(s, v) \<in> set (acc_slots a)"
  obtains et ts where "d_get v ''event_type'' = PStr (ev_value et)" "s = EVENT_SEQ et"
    "d_get v ''event_ts'' = PInt ts"
proof -
  have "slot_ok s v" using assms by (auto simp: slots_ok_def list_all_iff)
  then show thesis
    by (auto simp: slot_ok_def ride_event_type_of_Inr split: sum.splits pyval.splits intro: that)
qed

lemma first_terminal_Some:
  assumes "slots_ok a" "terminal a = Some k"
  shows "k \<in> set TERMINAL_STATES \<and> map_of (acc_slots a) (EVENT_SEQ k) \<noteq> None"
proof -
  have "first_terminal d = Some k \<Longrightarrow> list_all (\<lambda>(s, v). slot_ok s v) d \<Longrightarrow>
      k \<in> set TERMINAL_STATES \<and> EVENT_SEQ k \<in> fst ` set d" for d
    by (induction d rule: first_terminal.induct)
      (auto simp: slot_ok_def split: sum.splits if_splits pyval.splits)
  with assms show ?thesis
    by (auto simp: slots_ok_def terminal_def map_of_eq_None_iff)
qed

lemma first_terminal_None:
  assumes "slots_ok a" "terminal a = None" "k \<in> set TERMINAL_STATES"
  shows "map_of (acc_slots a) (EVENT_SEQ k) = None"
proof -
  have "first_terminal d = None \<Longrightarrow> list_all (\<lambda>(s, v). slot_ok s v) d \<Longrightarrow>
      EVENT_SEQ k \<notin> fst ` set d" for d
    using assms(3) by (induction d rule: first_terminal.induct)
      (auto simp: slot_ok_def split: sum.splits if_splits pyval.splits)
  with assms show ?thesis
    by (auto simp: slots_ok_def terminal_def map_of_eq_None_iff)
qed

definition one_terminal :: "acc \<Rightarrow> bool" where
  "one_terminal a \<longleftrightarrow> map_of (acc_slots a) (EVENT_SEQ COMPLETED) = None
     \<or> map_of (acc_slots a) (EVENT_SEQ CANCELLED) = None"

lemma terminal_iff:
  assumes "slots_ok a" "one_terminal a"
  shows "terminal a = Some k \<longleftrightarrow>
     k \<in> set TERMINAL_STATES \<and> map_of (acc_slots a) (EVENT_SEQ k) \<noteq> None"
proof
  assume k: "k \<in> set TERMINAL_STATES \<and> map_of (acc_slots a) (EVENT_SEQ k) \<noteq> None"
  with first_terminal_None [OF assms(1)] obtain j where j: "terminal a = Some j"
    by (cases "terminal a") auto
  from first_terminal_Some [OF assms(1) j] k assms(2) have "j = k"
    by (auto simp: TERMINAL_STATES_def one_terminal_def)
  with j show "terminal a = Some k" by simp
qed (use first_terminal_Some [OF assms(1)] in blast)

lemma terminal_eqI:
  assumes "slots_ok a" "slots_ok b" "one_terminal a"
    and "map_of (acc_slots a) = map_of (acc_slots b)"
  shows "terminal a = terminal b"
proof -
  have "one_terminal b" using assms(3,4) by (simp add: one_terminal_def)
  then have "terminal a = Some k \<longleftrightarrow> terminal b = Some k" for k
    using assms by (simp add: terminal_iff)
  then show ?thesis by (metis option.exhaust)
qed

lemma last_event_ts_eqI:
  assumes "slots_ok a" "slots_ok b" "map_of (acc_slots a) = map_of (acc_slots b)"
  shows "last_event_ts a = last_event_ts b"
proof -
  have "set (acc_slots a) = set (acc_slots b)"
    using assms by (intro dict_set_eq) (auto simp: slots_ok_def)
  moreover from this have "acc_slots a = [] \<longleftrightarrow> acc_slots b = []"
    by (metis set_empty)
  ultimately show ?thesis by (simp add: last_event_ts_def image_comp [symmetric] del: image_comp)
qed

lemma build_session_eqI:
  assumes "slots_ok a" "slots_ok b" "one_terminal a"
    and "map_of (acc_slots a) = map_of (acc_slots b)" "acc_ride_id a = acc_ride_id b"
  shows "build_session a t = build_session b t"
proof -
  have ok: "dict_ok (acc_slots a)" "dict_ok (acc_slots b)"
    using assms(1,2) by (simp_all add: slots_ok_def)
  have first: "first_of (acc_slots a) = first_of (acc_slots b)"
    using dict_sort_eq [OF ok assms(4)] by (simp add: first_of_def fun_eq_iff)
  have get: "slot_get (acc_slots a) = slot_get (acc_slots b)"
    using assms(4) by (simp add: slot_get_def fun_eq_iff)
  show ?thesis
    unfolding build_session_def Let_def
    by (simp only: first get terminal_eqI [OF assms(1-4)] last_event_ts_eqI [OF assms(1,2,4)]
        dict_length_eq [OF ok assms(4)] assms(5))
qed

section \<open>Arrival order and duplicates\<close>

lemma add_events_from:
  assumes "add_events a vs = Inr b" "map_of (acc_slots b) s = Some v"
  shows "map_of (acc_slots a) s = Some v \<or> (\<exists>w \<in> set vs. norm_event w = Inr (s, v))"
  using assms
  by (induction vs arbitrary: a) (force simp: rbind_eq_Inr add_event_norm split: if_splits)+

lemma add_events_dom:
  assumes "add_events a vs = Inr b" "map_of (acc_slots a) s \<noteq> None"
  shows "map_of (acc_slots b) s \<noteq> None"
  using assms
  by (induction vs arbitrary: a) (force simp: rbind_eq_Inr add_event_norm split: if_splits)+

lemma add_events_reach:
  assumes "add_events a vs = Inr b" "w \<in> set vs"
  shows "\<exists>s v. norm_event w = Inr (s, v) \<and> map_of (acc_slots b) s \<noteq> None"
  using assms
proof (induction vs arbitrary: a)
  case (Cons x xs)
  from Cons.prems(1) obtain a' where a': "add_event a x = Inr a'" "add_events a' xs = Inr b"
    by (auto simp: rbind_eq_Inr)
  show ?case
  proof (cases "w = x")
    case True
    with a'(1) obtain s v where "norm_event w = Inr (s, v)" "map_of (acc_slots a') s \<noteq> None"
      by (auto simp: add_event_norm rbind_eq_Inr)
    with add_events_dom [OF a'(2)] show ?thesis by blast
  next
    case False
    with Cons.prems(2) Cons.IH [OF a'(2)] show ?thesis by simp
  qed
qed simp

text \<open>The same lifecycle event is always the same payload, as duplicates are.\<close>

definition consistent_events :: "payload list \<Rightarrow> bool" where
  "consistent_events vs \<longleftrightarrow>
     list_all (\<lambda>v. list_all (\<lambda>w. d_get v ''event_type'' = d_get w ''event_type'' \<longrightarrow> v = w) vs) vs"

definition has_type :: "payload list \<Rightarrow> ride_event_type \<Rightarrow> bool" where
  "has_type vs e \<longleftrightarrow> list_ex (\<lambda>v. d_get v ''event_type'' = PStr (ev_value e)) vs"

lemma norm_event_type:
  "norm_event v = Inr (s, v') \<Longrightarrow> \<exists>et. s = EVENT_SEQ et \<and> d_get v ''event_type'' = PStr (ev_value et)"
  by (auto simp: norm_event_def rbind_eq_Inr d_item_eq_Inr ride_event_type_of_Inr d_get_def)

lemma norm_event_consistent:
  assumes "consistent_events vs" "v \<in> set vs" "w \<in> set vs"
    and "norm_event v = Inr (s, x)" "norm_event w = Inr (s, y)"
  shows "x = y"
proof -
  have "d_get v ''event_type'' = d_get w ''event_type''"
    using norm_event_type [OF assms(4)] norm_event_type [OF assms(5)] by auto
  with assms(1-3) have "v = w" by (auto simp: consistent_events_def list_all_iff)
  with assms(4,5) show ?thesis by simp
qed

lemma fold_slots:
  assumes "add_events (new_acc r) vs = Inr a" "consistent_events vs"
  shows "map_of (acc_slots a) s = Some v \<longleftrightarrow> (\<exists>w \<in> set vs. norm_event w = Inr (s, v))"
proof
  assume "map_of (acc_slots a) s = Some v"
  from add_events_from [OF assms(1) this] show "\<exists>w \<in> set vs. norm_event w = Inr (s, v)"
    by (simp add: new_acc_def)
next
  assume "\<exists>w \<in> set vs. norm_event w = Inr (s, v)"
  then obtain w where w: "w \<in> set vs" "norm_event w = Inr (s, v)" by blast
  from add_events_reach [OF assms(1) w(1)] w(2)
  obtain v' where v': "map_of (acc_slots a) s = Some v'" by auto
  from add_events_from [OF assms(1) v'] obtain w' where "w' \<in> set vs" "norm_event w' = Inr (s, v')"
    by (auto simp: new_acc_def)
  from norm_event_consistent [OF assms(2) w(1) this(1) w(2) this(2)] v'
  show "map_of (acc_slots a) s = Some v" by simp
qed

lemma fold_slots_eq:
  assumes "add_events (new_acc r) vs = Inr a" "add_events (new_acc r) ws = Inr b"
    and "set ws = set vs" "consistent_events vs"
  shows "map_of (acc_slots a) = map_of (acc_slots b)"
proof
  fix s
  have "consistent_events ws"
    using assms(3,4) by (simp add: consistent_events_def list_all_iff)
  then have "map_of (acc_slots a) s = Some v \<longleftrightarrow> map_of (acc_slots b) s = Some v" for v
    using fold_slots [OF assms(1,4)] fold_slots [OF assms(2)] assms(3) by simp
  then show "map_of (acc_slots a) s = map_of (acc_slots b) s" by (metis option.exhaust)
qed

lemma fold_one_terminal:
  assumes "add_events (new_acc r) vs = Inr a"
    and "\<not> (has_type vs COMPLETED \<and> has_type vs CANCELLED)"
  shows "one_terminal a"
proof -
  have "has_type vs k" if "map_of (acc_slots a) (EVENT_SEQ k) \<noteq> None" for k
  proof -
    from that obtain v where "map_of (acc_slots a) (EVENT_SEQ k) = Some v" by blast
    from add_events_from [OF assms(1) this] show ?thesis
      by (fastforce simp: new_acc_def has_type_def list_ex_iff dest: norm_event_type)
  qed
  with assms(2) show ?thesis unfolding one_terminal_def by blast
qed

section \<open>Properties\<close>

text \<open>C36: the fold is insensitive to arrival order and to duplicates. Two arrivals of the same
  set of events of a ride (in any order, each any number of times) give the same session, and
  the same answer to the timeout test, provided a repeated event has the same content and a
  ride is not both completed and cancelled.\<close>

theorem session_order_insensitive:
  assumes "add_events (new_acc r) vs = Inr a" "add_events (new_acc r) ws = Inr b"
    and "set ws = set vs" "consistent_events vs"
    and "\<not> (has_type vs COMPLETED \<and> has_type vs CANCELLED)"
  shows "build_session a t = build_session b t
    \<and> timed_out a watermark timeout = timed_out b watermark timeout"
proof -
  have ok: "slots_ok a" "slots_ok b"
    using slots_ok_adds [OF slots_ok_new assms(1)] slots_ok_adds [OF slots_ok_new assms(2)] by auto
  have id: "acc_ride_id a = acc_ride_id b"
    using add_events_id [OF assms(1)] add_events_id [OF assms(2)] by simp
  have m: "map_of (acc_slots a) = map_of (acc_slots b)"
    by (rule fold_slots_eq [OF assms(1-4)])
  have "acc_slots a = [] \<longleftrightarrow> acc_slots b = []"
    using dict_length_eq [OF _ _ m] ok by (simp add: slots_ok_def) (metis length_0_conv)
  then show ?thesis
    using build_session_eqI [OF ok fold_one_terminal [OF assms(1,5)] m id]
      last_event_ts_eqI [OF ok m]
    by (simp add: timed_out_def)
qed

lemma sample_add [simp]:
  "add_event a (sample_event r e ts) =
     Inr (a\<lparr>acc_slots := AList.update (EVENT_SEQ e) (sample_event r e ts) (acc_slots a)\<rparr>)"
  by (simp add: add_event_def)

theorem session_order_insensitive_witness:
  "\<exists>a b. add_events (new_acc ''r'') [sample_event ''r'' REQUESTED 0, sample_event ''r'' COMPLETED 5] = Inr a
    \<and> add_events (new_acc ''r'') [sample_event ''r'' COMPLETED 5, sample_event ''r'' REQUESTED 0,
         sample_event ''r'' COMPLETED 5] = Inr b
    \<and> build_session a False = build_session b False
    \<and> timed_out a 9 3 = timed_out b 9 3"
proof -
  let ?v = "sample_event ''r'' REQUESTED 0" and ?w = "sample_event ''r'' COMPLETED 5"
  obtain a where a: "add_events (new_acc ''r'') [?v, ?w] = Inr a" by simp
  obtain b where b: "add_events (new_acc ''r'') [?w, ?v, ?w] = Inr b" by simp
  have "consistent_events [?v, ?w]" "\<not> (has_type [?v, ?w] COMPLETED \<and> has_type [?v, ?w] CANCELLED)"
    by (simp_all add: consistent_events_def has_type_def)
  with session_order_insensitive [OF a b, of False 9 3] a b show ?thesis by auto
qed

text \<open>Without that proviso arrival order does matter: a ride with both terminal events is
  reported with the one that arrived first, so the two orders give different sessions.\<close>

theorem session_order_matters_for_two_terminals:
  "\<exists>a b s s'.
     add_events (new_acc ''r'') [sample_event ''r'' COMPLETED 5, sample_event ''r'' CANCELLED 7] = Inr a
   \<and> add_events (new_acc ''r'') [sample_event ''r'' CANCELLED 7, sample_event ''r'' COMPLETED 5] = Inr b
   \<and> build_session a False = Inr s \<and> build_session b False = Inr s'
   \<and> d_get s ''terminal_state'' = PStr ''completed'' \<and> d_get s' ''terminal_state'' = PStr ''cancelled''"
proof -
  have drop: "d_get (sample_event r e ts) ''dropoff_lat'' = PNone" for r e ts
    by (simp add: sample_event_def ride_event_def Let_def d_get_def)
  show ?thesis
    by (auto simp: new_acc_def build_session_def terminal_def TERMINAL_STATES_def Let_def
        trip_distance_def first_of_def drop d_get_def [of _ "''terminal_state''"] split: option.splits)
qed

section \<open>The session record\<close>

lemma rbind_Inr_exists: "rbind m k = Inr s \<Longrightarrow> \<exists>x. m = Inr x \<and> k x = Inr s"
  by (simp add: rbind_eq_Inr)

text \<open>Every slot's coordinates are missing or numbers, as the schema has it.\<close>

definition coords_ok :: "acc \<Rightarrow> bool" where
  "coords_ok a \<longleftrightarrow>
     list_all (\<lambda>(s, v). list_all (\<lambda>f. case d_get v f of PStr _ \<Rightarrow> False | PDatetime _ \<Rightarrow> False | _ \<Rightarrow> True)
       [''pickup_lat'', ''pickup_lon'', ''dropoff_lat'', ''dropoff_lon'']) (acc_slots a)"

lemma first_present_in:
  "first_present d f = PNone \<or> (\<exists>(s, v) \<in> set d. first_present d f = d_get v f)"
  by (induction d f rule: first_present.induct) auto

lemma coord_number:
  assumes "coords_ok a" "f \<in> {''pickup_lat'', ''pickup_lon'', ''dropoff_lat'', ''dropoff_lon''}"
    and "first_of (acc_slots a) f \<noteq> PNone"
  shows "\<exists>r. as_num (first_of (acc_slots a) f) = Inr r"
proof -
  obtain s v where "(s, v) \<in> set (acc_slots a)" "first_of (acc_slots a) f = d_get v f"
    using first_present_in [of "sort_key fst (acc_slots a)" f] assms(3)
    by (auto simp: first_of_def)
  with assms(1,2,3) show ?thesis
    by (cases "d_get v f") (auto simp: coords_ok_def list_all_iff)
qed

lemma trip_distance_total:
  assumes "coords_ok a"
  shows "\<exists>d. trip_distance (first_of (acc_slots a) ''pickup_lat'') (first_of (acc_slots a) ''pickup_lon'')
      (first_of (acc_slots a) ''dropoff_lat'') (first_of (acc_slots a) ''dropoff_lon'') = Inr d"
  using coord_number [OF assms, of "''pickup_lat''"] coord_number [OF assms, of "''pickup_lon''"]
    coord_number [OF assms, of "''dropoff_lat''"] coord_number [OF assms, of "''dropoff_lon''"]
  by (auto simp: trip_distance_def)

lemma not_closable:
  "terminal a = None \<Longrightarrow> build_session a False =
     Inl (ValueError (''ride '' @ acc_ride_id a @ '' is not closable yet''))"
  by (simp add: build_session_def)

lemma build_session_closable:
  assumes "terminal a \<noteq> None \<or> t" "coords_ok a"
  shows "\<exists>s. build_session a t = Inr s"
  using trip_distance_total [OF assms(2)] assms(1)
  by (auto simp: build_session_def Let_def)

text \<open>The builder is tolerant by construction. Whatever subset of lifecycle events filled
  the slots, a closable ride (terminal event seen, or closed by the timeout) yields a session;
  the only failure is the ValueError for a ride that is not closable yet.\<close>

theorem build_session_tolerant:
  assumes "coords_ok a"
  shows "(\<exists>s. build_session a t = Inr s) = (terminal a \<noteq> None \<or> t)
    \<and> (build_session a False = Inl x) =
        (terminal a = None \<and> x = ValueError (''ride '' @ acc_ride_id a @ '' is not closable yet''))"
proof (cases "terminal a = None")
  case True
  then show ?thesis
    using not_closable [OF True] build_session_closable [of a True] assms True by (cases t) auto
next
  case False
  then show ?thesis
    using build_session_closable [OF _ assms] by (metis Inl_Inr_False)
qed

theorem build_session_tolerant_witness:
  "(\<exists>s. build_session (new_acc ''r'') True = Inr s) = (terminal (new_acc ''r'') \<noteq> None \<or> True)
    \<and> (build_session (new_acc ''r'') False = Inl (TypeError [])) =
        (terminal (new_acc ''r'') = None
         \<and> TypeError [] = ValueError (''ride '' @ acc_ride_id (new_acc ''r'') @ '' is not closable yet''))"
  by (rule build_session_tolerant) (simp add: coords_ok_def new_acc_def)

lemma late_in_ms:
  fixes x y :: int
  shows "600 < max ((of_int x - of_int y) / 1000) (0 :: real) \<longleftrightarrow> 600000 < x - y"
proof -
  have "600 < (of_int x - of_int y) / (1000 :: real) \<longleftrightarrow> 600000 < (of_int (x - y) :: real)"
    by (simp add: field_simps)
  also have "\<dots> \<longleftrightarrow> 600000 < x - y" by linarith
  finally show ?thesis by (auto simp: max_def)
qed

text \<open>The fields of the record that the properties speak of.\<close>

definition slot_diff :: "acc \<Rightarrow> ride_event_type \<Rightarrow> ride_event_type \<Rightarrow> real option" where
  "slot_diff a e e' = diff_sec (slot_get (acc_slots a) e ''event_ts'') (slot_get (acc_slots a) e' ''event_ts'')"

lemma build_session_Inr:
  assumes "build_session a t = Inr s"
  shows "d_get s ''ride_id'' = PStr (acc_ride_id a)"
    and "d_get s ''terminal_state'' =
      PStr (case terminal a of Some k \<Rightarrow> ev_value k | None \<Rightarrow> ''abandoned'')"
    and "d_get s ''event_seq'' = PInt (int (length (acc_slots a)))"
    and "d_get s ''time_to_match_sec'' = of_opt_float (slot_diff a MATCHED REQUESTED)"
    and "d_get s ''time_to_pickup_sec'' = of_opt_float (slot_diff a DRIVER_ARRIVED MATCHED)"
    and "d_get s ''is_late_arrival'' = PBool (case slot_diff a DRIVER_ARRIVED MATCHED of
        Some t \<Rightarrow> t > LATE_ARRIVAL_THRESHOLD_SEC | None \<Rightarrow> False)"
    and "d_get s ''ride_duration_sec'' = of_opt_float
      (if terminal a = Some COMPLETED then slot_diff a COMPLETED STARTED else None)"
proof -
  have closable: "\<not> (terminal a = None \<and> \<not> t)"
    using assms not_closable [of a] by (cases t) auto
  note s = assms [unfolded build_session_def Let_def if_not_P [OF closable] rbind_eq_Inr sum.inject]
  from s show "d_get s ''ride_id'' = PStr (acc_ride_id a)"
    by (elim exE conjE) (hypsubst, simp add: d_get_def)
  from s show "d_get s ''terminal_state'' =
      PStr (case terminal a of Some k \<Rightarrow> ev_value k | None \<Rightarrow> ''abandoned'')"
    by (elim exE conjE) (hypsubst, simp add: d_get_def)
  from s show "d_get s ''event_seq'' = PInt (int (length (acc_slots a)))"
    by (elim exE conjE) (hypsubst, simp add: d_get_def)
  from s show "d_get s ''time_to_match_sec'' = of_opt_float (slot_diff a MATCHED REQUESTED)"
    by (elim exE conjE) (hypsubst, simp add: d_get_def slot_diff_def)
  from s show "d_get s ''time_to_pickup_sec'' = of_opt_float (slot_diff a DRIVER_ARRIVED MATCHED)"
    by (elim exE conjE) (hypsubst, simp add: d_get_def slot_diff_def)
  from s show "d_get s ''is_late_arrival'' = PBool (case slot_diff a DRIVER_ARRIVED MATCHED of
        Some t \<Rightarrow> t > LATE_ARRIVAL_THRESHOLD_SEC | None \<Rightarrow> False)"
    by (elim exE conjE) (hypsubst, simp add: d_get_def slot_diff_def)
  from s show "d_get s ''ride_duration_sec'' = of_opt_float
      (if terminal a = Some COMPLETED then slot_diff a COMPLETED STARTED else None)"
    by (elim exE conjE) (hypsubst, simp add: d_get_def slot_diff_def)
qed

lemma diff_sec_nonneg: "diff_sec x y = Some r \<Longrightarrow> 0 \<le> r"
  by (auto simp: diff_sec_def split: option.splits)

definition ts_of :: "acc \<Rightarrow> ride_event_type \<Rightarrow> int option" where
  "ts_of a e = opt_int (slot_get (acc_slots a) e ''event_ts'')"

lemma late_slot_diff:
  "(case slot_diff a e e' of Some t \<Rightarrow> t > LATE_ARRIVAL_THRESHOLD_SEC | None \<Rightarrow> False) \<longleftrightarrow>
     (case (ts_of a e, ts_of a e') of (Some x, Some y) \<Rightarrow> x - y > 600000 | _ \<Rightarrow> False)"
  by (simp add: slot_diff_def diff_sec_def ts_of_def LATE_ARRIVAL_THRESHOLD_SEC_def late_in_ms
      split: option.splits)

text \<open>What a session says of its ride: its terminal state is that of the terminal event
  seen, or \<open>abandoned\<close> when there is none; \<open>event_seq\<close> counts the distinct lifecycle
  events; durations are never negative, whatever the time stamps; and the late-arrival flag is
  set exactly when the driver arrived more than 600000 milliseconds after the match.\<close>

theorem session_record:
  assumes "build_session a t = Inr s"
  shows "(terminal a = None \<and> d_get s ''terminal_state'' = PStr ''abandoned''
       \<or> (\<exists>k. terminal a = Some k \<and> d_get s ''terminal_state'' = PStr (ev_value k)))
    \<and> d_get s ''event_seq'' = PInt (int (length (acc_slots a)))
    \<and> {d_get s ''time_to_match_sec'', d_get s ''time_to_pickup_sec'', d_get s ''ride_duration_sec''}
        \<subseteq> insert PNone (PFloat ` {0..})
    \<and> d_get s ''is_late_arrival'' = PBool
        (case (ts_of a DRIVER_ARRIVED, ts_of a MATCHED) of
           (Some arrived, Some matched) \<Rightarrow> arrived - matched > 600000 | _ \<Rightarrow> False)"
proof -
  have num: "of_opt_float (slot_diff a e e') \<in> insert PNone (PFloat ` {0..})" for e e'
    by (cases "slot_diff a e e'") (auto simp: slot_diff_def dest: diff_sec_nonneg)
  show ?thesis
    using build_session_Inr [OF assms] num late_slot_diff [of a DRIVER_ARRIVED MATCHED]
    by (cases "terminal a") auto
qed

theorem session_record_witness:
  "\<exists>a s. add_events (new_acc ''r'') [sample_event ''r'' COMPLETED 5] = Inr a
    \<and> build_session a False = Inr s
    \<and> d_get s ''terminal_state'' = PStr ''completed'' \<and> d_get s ''event_seq'' = PInt 1"
proof -
  obtain a where a: "add_events (new_acc ''r'') [sample_event ''r'' COMPLETED 5] = Inr a"
    and sl: "acc_slots a = [(5, sample_event ''r'' COMPLETED 5)]"
    by (simp add: new_acc_def)
  have t: "terminal a = Some COMPLETED" by (simp add: terminal_def sl TERMINAL_STATES_def)
  have "coords_ok a"
    by (simp add: coords_ok_def sl sample_event_def ride_event_def Let_def d_get_def)
  then obtain s where s: "build_session a False = Inr s"
    using build_session_closable [of a False] t by auto
  from session_record [OF s] a s t sl show ?thesis by auto
qed

end
