(* ===== verification/Base64.thy ===== *)
theory Base64
  imports Py_Values
begin

text \<open>
  \<open>base64.b64encode\<close> and \<open>base64.b64decode\<close> of the standard library, which the dead-letter
  envelope applies to raw message bytes. A byte string is a \<open>string\<close> (each \<open>char\<close> is one
  byte). The decoder is the state machine of \<open>binascii.a2b_base64\<close> in its default,
  non-strict mode: bytes outside the alphabet are skipped and a complete padding ends the
  input.
\<close>

definition b64_alphabet :: string where
  "b64_alphabet = ''ABCDEFGHIJKLMNOPQRSTUVWXYZabcdefghijklmnopqrstuvwxyz0123456789+/''"

definition b64_char :: "nat \<Rightarrow> char" where
  "b64_char n = b64_alphabet ! n"

definition b64_index :: "char \<Rightarrow> nat option" where
  "b64_index c = find (\<lambda>i. b64_char i = c) [0..<64]"

abbreviation byte_of :: "char \<Rightarrow> nat" where "byte_of \<equiv> of_char"
abbreviation byte :: "nat \<Rightarrow> char" where "byte \<equiv> char_of"

fun b64encode :: "string \<Rightarrow> string" where
  "b64encode [] = []"
| "b64encode [a] =
     [b64_char (byte_of a div 4), b64_char (byte_of a mod 4 * 16), CHR ''='', CHR ''='']"
| "b64encode [a, b] =
     [b64_char (byte_of a div 4), b64_char (byte_of a mod 4 * 16 + byte_of b div 16),
      b64_char (byte_of b mod 16 * 4), CHR ''='']"
| "b64encode (a # b # c # rest) =
     [b64_char (byte_of a div 4), b64_char (byte_of a mod 4 * 16 + byte_of b div 16),
      b64_char (byte_of b mod 16 * 4 + byte_of c div 64), b64_char (byte_of c mod 64)]
     @ b64encode rest"

abbreviation Binascii_Error :: "string \<Rightarrow> exn" where "Binascii_Error \<equiv> Exn ''Error''"

definition a2b_end :: "nat \<Rightarrow> exn + string" where
  "a2b_end quad_pos =
     (if quad_pos = 0 then Inr []
      else if quad_pos = 1 then Inl (Binascii_Error
        ''Invalid base64-encoded string: number of data characters cannot be 1 more than a multiple of 4'')
      else Inl (Binascii_Error ''Incorrect padding''))"

definition cons_byte :: "nat \<Rightarrow> exn + string \<Rightarrow> exn + string" where
  "cons_byte n r = rbind r (\<lambda>s. Inr (byte n # s))"

fun a2b :: "nat \<Rightarrow> nat \<Rightarrow> nat \<Rightarrow> string \<Rightarrow> exn + string" where
  "a2b quad_pos leftchar pads [] = a2b_end quad_pos"
| "a2b quad_pos leftchar pads (ch # rest) =
     (if ch = CHR ''=''
      then if quad_pos \<ge> 2 \<and> quad_pos + pads + 1 \<ge> 4 then Inr []
           else a2b quad_pos leftchar (if quad_pos \<ge> 2 then pads + 1 else pads) rest
      else case b64_index ch of
        None \<Rightarrow> a2b quad_pos leftchar pads rest
      | Some this \<Rightarrow>
          if quad_pos = 0 then a2b 1 this 0 rest
          else if quad_pos = 1
            then cons_byte (leftchar * 4 + this div 16) (a2b 2 (this mod 16) 0 rest)
          else if quad_pos = 2
            then cons_byte (leftchar * 16 + this div 4) (a2b 3 (this mod 4) 0 rest)
          else cons_byte (leftchar * 64 + this) (a2b 0 0 0 rest))"

definition b64decode :: "string \<Rightarrow> exn + string" where
  "b64decode s = a2b 0 0 0 s"

section \<open>The round trip\<close>

lemma b64_alphabet_distinct: "distinct b64_alphabet"
  by (simp add: b64_alphabet_def)

lemma b64_alphabet_length: "length b64_alphabet = 64"
  by (simp add: b64_alphabet_def)

lemma b64_index_char [simp]: "n < 64 \<Longrightarrow> b64_index (b64_char n) = Some n"
proof -
  assume n: "n < 64"
  have "b64_char i = b64_char n \<longleftrightarrow> i = n" if "i < 64" for i
    using that n b64_alphabet_distinct
    by (simp add: b64_char_def nth_eq_iff_index_eq b64_alphabet_length)
  then show ?thesis
    using n by (auto simp: b64_index_def find_Some_iff intro!: exI [of _ n])
qed

lemma b64_char_pad [simp]: "n < 64 \<Longrightarrow> b64_char n \<noteq> CHR ''=''"
proof -
  assume "n < 64"
  then have "b64_char n \<in> set b64_alphabet"
    by (simp add: b64_char_def b64_alphabet_length)
  then show ?thesis by (auto simp: b64_alphabet_def)
qed

lemma byte_bound: "byte_of c < (256 :: nat)"
proof -
  have "byte_of c = (byte_of c :: nat) mod 256" by simp
  then show ?thesis by simp
qed

lemma byte_parts:
  "byte_of b div 16 < (16 :: nat)" "byte_of c div 64 < (4 :: nat)" "byte_of a div 4 < (64 :: nat)"
  using byte_bound [of a] byte_bound [of b] byte_bound [of c] by (simp_all add: div_less_iff_less_mult)

lemma shift_join:
  fixes x y k :: nat
  assumes "y < k"
  shows "(x * k + y) div k = x" "(x * k + y) mod k = y"
  using assms by simp_all

lemma sextet_bounds:
  "byte_of a mod 4 * 16 < (64 :: nat)" "byte_of b mod 16 * 4 < (64 :: nat)"
  "byte_of a mod 4 * 16 + byte_of b div 16 < (64 :: nat)"
  "byte_of b mod 16 * 4 + byte_of c div 64 < (64 :: nat)"
proof -
  have "byte_of a mod 4 < (4 :: nat)" "byte_of b mod 16 < (16 :: nat)" by simp_all
  with byte_parts(1) [of b] byte_parts(2) [of c] show
    "byte_of a mod 4 * 16 < (64 :: nat)" "byte_of b mod 16 * 4 < (64 :: nat)"
    "byte_of a mod 4 * 16 + byte_of b div 16 < (64 :: nat)"
    "byte_of b mod 16 * 4 + byte_of c div 64 < (64 :: nat)"
    by linarith+
qed

lemma sextet_join:
  "(byte_of a mod 4 * 16 + byte_of b div 16) div 16 = (byte_of a mod 4 :: nat)"
  "(byte_of a mod 4 * 16 + byte_of b div 16) mod 16 = (byte_of b div 16 :: nat)"
  "(byte_of b mod 16 * 4 + byte_of c div 64) div 4 = (byte_of b mod 16 :: nat)"
  "(byte_of b mod 16 * 4 + byte_of c div 64) mod 4 = (byte_of c div 64 :: nat)"
  by (rule shift_join [OF byte_parts(1)] shift_join [OF byte_parts(2)])+

lemmas b64_steps = b64decode_def cons_byte_def a2b_end_def byte_parts sextet_bounds

lemma b64_roundtrip: "b64decode (b64encode s) = Inr s"
proof (induction s rule: b64encode.induct)
  case (4 a b c rest)
  then show ?case
    by (simp add: b64_steps sextet_join del: div_mult_self3 div_mult_self1 mod_mult_self3)
qed (simp_all add: b64_steps)

end
