(* ===== verification/Json.thy ===== *)
theory Json
  imports Py_Values
begin

text \<open>
  The JSON texts of flat objects, as \<open>json.dumps\<close> writes them (\<open>ensure_ascii\<close> escapes,
  separators as given) and \<open>json.loads\<close> reads them. Dead letters and payments travel as
  such texts. Characters are the code points below 256; the texts written are ASCII.
  The decimal form of floats is a parameter (\<open>render\<close>, \<open>parse_float\<close>); objects and arrays
  nested in an object are outside the payload type and are rejected by the reader.
\<close>

abbreviation JSONDecodeError :: "string \<Rightarrow> exn" where "JSONDecodeError \<equiv> Exn ''JSONDecodeError''"

datatype json = JObj payload | JScalar pyval

section \<open>Writing\<close>

definition hex_digit :: "nat \<Rightarrow> char" where
  "hex_digit n = (if n < 10 then char_of (48 + n) else char_of (87 + n))"

definition esc_char :: "char \<Rightarrow> string" where
  "esc_char c =
     (if c = CHR 0x22 then [CHR 0x5C, CHR 0x22]
      else if c = CHR 0x5C then [CHR 0x5C, CHR 0x5C]
      else if c = CHR 0x0A then [CHR 0x5C, CHR ''n'']
      else if c = CHR 0x0D then [CHR 0x5C, CHR ''r'']
      else if c = CHR 0x09 then [CHR 0x5C, CHR ''t'']
      else if c = CHR 0x0C then [CHR 0x5C, CHR ''f'']
      else if c = CHR 0x08 then [CHR 0x5C, CHR ''b'']
      else if 32 \<le> (of_char c :: nat) \<and> (of_char c :: nat) \<le> 126 then [c]
      else [CHR 0x5C, CHR ''u'', CHR ''0'', CHR ''0'',
            hex_digit (of_char c div 16), hex_digit (of_char c mod 16)])"

definition json_string :: "string \<Rightarrow> string" where
  "json_string s = CHR 0x22 # concat (map esc_char s) @ [CHR 0x22]"

fun json_value :: "(pyval \<Rightarrow> string) \<Rightarrow> pyval \<Rightarrow> string" where
  "json_value render PNone = ''null''"
| "json_value render (PBool b) = (if b then ''true'' else ''false'')"
| "json_value render (PInt i) = int_digits i"
| "json_value render (PStr s) = json_string s"
| "json_value render v = render v"

fun json_members :: "(pyval \<Rightarrow> string) \<Rightarrow> string \<Rightarrow> string \<Rightarrow> payload \<Rightarrow> string" where
  "json_members render isep ksep [] = []"
| "json_members render isep ksep [(k, v)] = json_string k @ ksep @ json_value render v"
| "json_members render isep ksep ((k, v) # rest) =
     json_string k @ ksep @ json_value render v @ isep @ json_members render isep ksep rest"

definition json_object :: "(pyval \<Rightarrow> string) \<Rightarrow> string \<Rightarrow> string \<Rightarrow> payload \<Rightarrow> string" where
  "json_object render isep ksep d = CHR ''{'' # json_members render isep ksep d @ ''}''"

section \<open>Reading\<close>

definition is_ws :: "char \<Rightarrow> bool" where
  "is_ws c \<longleftrightarrow> c \<in> {CHR '' '', CHR 0x09, CHR 0x0A, CHR 0x0D}"



definition hex_value :: "char \<Rightarrow> nat option" where
  "hex_value c =
     (let n = of_char c :: nat in
      if 48 \<le> n \<and> n \<le> 57 then Some (n - 48)
      else if 97 \<le> n \<and> n \<le> 102 then Some (n - 87)
      else if 65 \<le> n \<and> n \<le> 70 then Some (n - 55) else None)"

definition hex4 :: "char \<Rightarrow> char \<Rightarrow> char \<Rightarrow> char \<Rightarrow> exn + char" where
  "hex4 a b c d =
     (case (hex_value a, hex_value b, hex_value c, hex_value d) of
        (Some w, Some x, Some y, Some z) \<Rightarrow>
          if w = 0 \<and> x = 0 then Inr (char_of (16 * y + z))
          else Inl (JSONDecodeError ''code point outside the model'')
      | _ \<Rightarrow> Inl (JSONDecodeError ''Invalid escape''))"

definition short_escape :: "char \<Rightarrow> char option" where
  "short_escape c =
     map_of [(CHR 0x22, CHR 0x22), (CHR 0x5C, CHR 0x5C), (CHR ''/'', CHR ''/''),
             (CHR ''b'', CHR 0x08), (CHR ''f'', CHR 0x0C), (CHR ''n'', CHR 0x0A),
             (CHR ''r'', CHR 0x0D), (CHR ''t'', CHR 0x09)] c"

definition push_char :: "char \<Rightarrow> exn + string \<times> string \<Rightarrow> exn + string \<times> string" where
  "push_char c r = rbind r (\<lambda>(s, rest). Inr (c # s, rest))"

text \<open>From just after the opening quote: the string and the text behind its closing quote.\<close>

fun scan_string :: "string \<Rightarrow> exn + string \<times> string" where
  "scan_string [] = Inl (JSONDecodeError ''Unterminated string starting at'')"
| "scan_string (c # s) =
     (if c = CHR 0x22 then Inr ([], s)
      else if c = CHR 0x5C then
        (case s of
           [] \<Rightarrow> Inl (JSONDecodeError ''Unterminated string starting at'')
         | e # s' \<Rightarrow>
             if e = CHR ''u'' then
               (case s' of
                  w # x # y # z # s'' \<Rightarrow> rbind (hex4 w x y z) (\<lambda>d. push_char d (scan_string s''))
                | _ \<Rightarrow> Inl (JSONDecodeError ''Invalid escape''))
             else (case short_escape e of
                     Some d \<Rightarrow> push_char d (scan_string s')
                   | None \<Rightarrow> Inl (JSONDecodeError ''Invalid escape'')))
      else if (of_char c :: nat) < 32
        then Inl (JSONDecodeError ''Invalid control character at'')
      else push_char c (scan_string s))"

definition nat_value :: "string \<Rightarrow> nat" where
  "nat_value = foldl (\<lambda>n c. n * 10 + (of_char c - 48)) 0"

text \<open>An unsigned number token: its integer digits (a leading zero stands alone) and, if a
  fraction or an exponent follows, the float the whole token denotes.\<close>

definition scan_number :: "(string \<Rightarrow> real) \<Rightarrow> bool \<Rightarrow> string \<Rightarrow> exn + pyval \<times> string" where
  "scan_number parse_float neg s =
     (let ds = takeWhile is_digit s;
          ds = (if ds \<noteq> [] \<and> hd ds = CHR ''0'' then [CHR ''0''] else ds);
          rest = drop (length ds) s
      in if ds = [] then Inl (JSONDecodeError ''Expecting value'')
         else if rest \<noteq> [] \<and> hd rest \<in> set ''.eE'' then
           (let tok = takeWhile (\<lambda>c. is_digit c \<or> c \<in> set ''+-.eE'') s
            in Inr (PFloat ((if neg then - 1 else 1) * parse_float tok), drop (length tok) s))
         else Inr (PInt ((if neg then - 1 else 1) * int (nat_value ds)), rest))"

definition scan_value :: "(string \<Rightarrow> real) \<Rightarrow> string \<Rightarrow> exn + pyval \<times> string" where
  "scan_value parse_float s =
     (if take 4 s = ''null'' then Inr (PNone, drop 4 s)
      else if take 4 s = ''true'' then Inr (PBool True, drop 4 s)
      else if take 5 s = ''false'' then Inr (PBool False, drop 5 s)
      else case s of
        [] \<Rightarrow> Inl (JSONDecodeError ''Expecting value'')
      | c # s' \<Rightarrow>
          if c = CHR 0x22 then rbind (scan_string s') (\<lambda>(t, rest). Inr (PStr t, rest))
          else if c = CHR ''-'' then scan_number parse_float True s'
          else scan_number parse_float False s)"

text \<open>The members of an object, from the first key on; each round of the loop consumes text,
  so the length of the text bounds the rounds.\<close>

fun scan_members :: "(string \<Rightarrow> real) \<Rightarrow> nat \<Rightarrow> string \<Rightarrow> exn + payload \<times> string" where
  "scan_members parse_float 0 s = Inl (JSONDecodeError ''Expecting property name'')"
| "scan_members parse_float (Suc n) s =
     (case dropWhile is_ws s of
        [] \<Rightarrow> Inl (JSONDecodeError ''Expecting property name'')
      | q # s1 \<Rightarrow>
          if q \<noteq> CHR 0x22 then Inl (JSONDecodeError ''Expecting property name'')
          else rbind (scan_string s1) (\<lambda>(k, s2).
            case dropWhile is_ws s2 of
              [] \<Rightarrow> Inl (JSONDecodeError ''Expecting : delimiter'')
            | c # s3 \<Rightarrow>
                if c \<noteq> CHR '':'' then Inl (JSONDecodeError ''Expecting : delimiter'')
                else rbind (scan_value parse_float (dropWhile is_ws s3)) (\<lambda>(v, s4).
                  case dropWhile is_ws s4 of
                    [] \<Rightarrow> Inl (JSONDecodeError ''Expecting , delimiter'')
                  | d # s5 \<Rightarrow>
                      if d = CHR ''}'' then Inr ([(k, v)], s5)
                      else if d = CHR '','' then
                        rbind (scan_members parse_float n s5) (\<lambda>(rest, s6). Inr ((k, v) # rest, s6))
                      else Inl (JSONDecodeError ''Expecting , delimiter''))))"

definition scan_end :: "'a \<Rightarrow> string \<Rightarrow> exn + 'a" where
  "scan_end x s = (if dropWhile is_ws s = [] then Inr x else Inl (JSONDecodeError ''Extra data''))"

definition json_loads :: "(string \<Rightarrow> real) \<Rightarrow> string \<Rightarrow> exn + json" where
  "json_loads parse_float s =
     (case dropWhile is_ws s of
        [] \<Rightarrow> Inl (JSONDecodeError ''Expecting value'')
      | c # s1 \<Rightarrow>
          if c = CHR ''{'' then
            (case dropWhile is_ws s1 of
               [] \<Rightarrow> Inl (JSONDecodeError ''Expecting property name'')
             | d # s2 \<Rightarrow>
                 if d = CHR ''}'' then scan_end (JObj []) s2
                 else rbind (scan_members parse_float (length s1) s1) (\<lambda>(kvs, s3).
                   scan_end (JObj (fold (\<lambda>(k, v). AList.update k v) kvs [])) s3))
          else rbind (scan_value parse_float (c # s1)) (\<lambda>(v, s2). scan_end (JScalar v) s2))"

section \<open>Strings\<close>

lemma hex_value_digit [simp]: "n < 16 \<Longrightarrow> hex_value (hex_digit n) = Some n"
  by (auto simp: hex_value_def hex_digit_def Let_def)

lemma of_char_lt: "(of_char c :: nat) < 256"
proof -
  have "of_char c = (of_char c :: nat) mod 256" by simp
  then show ?thesis by simp
qed

lemma hex4_byte: "hex4 (CHR ''0'') (CHR ''0'') (hex_digit (of_char c div 16)) (hex_digit (of_char c mod 16)) = Inr c"
proof -
  have "of_char c div 16 < (16 :: nat)" using of_char_lt [of c] by (simp add: div_less_iff_less_mult)
  moreover have "hex_value (CHR ''0'') = Some 0" by (simp add: hex_value_def)
  ultimately show ?thesis by (simp add: hex4_def)
qed

lemma scan_string_esc: "scan_string (esc_char c @ t) = push_char c (scan_string t)"
proof -
  have short: "short_escape (CHR 0x22) = Some (CHR 0x22)" "short_escape (CHR 0x5C) = Some (CHR 0x5C)"
    "short_escape (CHR ''n'') = Some (CHR 0x0A)" "short_escape (CHR ''r'') = Some (CHR 0x0D)"
    "short_escape (CHR ''t'') = Some (CHR 0x09)" "short_escape (CHR ''f'') = Some (CHR 0x0C)"
    "short_escape (CHR ''b'') = Some (CHR 0x08)"
    by (simp_all add: short_escape_def)
  show ?thesis
    by (simp add: esc_char_def short hex4_byte)
qed

lemma scan_json_string: "scan_string (concat (map esc_char s) @ CHR 0x22 # rest) = Inr (s, rest)"
  by (induction s) (simp_all add: scan_string_esc push_char_def del: scan_string.simps(2),
    simp)

section \<open>Numbers\<close>

lemma nat_digits_digit: "c \<in> set (nat_digits n) \<Longrightarrow> is_digit c"
  by (induction n rule: nat_digits.induct)
    (subst (asm) (2) nat_digits.simps, auto simp: is_digit_def split: if_splits)

lemma nat_digits_nonempty [simp]: "nat_digits n \<noteq> []"
  by (subst nat_digits.simps) simp

lemma nat_digits_0: "nat_digits 0 = ''0''"
proof -
  have "(char_of (48 :: nat) :: char) = CHR ''0''"
    by (subst of_char_eq_iff [where 'a = nat, symmetric]) simp
  then show ?thesis by (simp add: nat_digits.simps [of 0])
qed

lemma nat_value_digits: "nat_value (nat_digits n) = n"
proof (induction n rule: nat_digits.induct)
  case (1 n)
  show ?case
  proof (cases "n < 10")
    case True
    then show ?thesis by (subst nat_digits.simps) (simp add: nat_value_def)
  next
    case False
    then have "nat_value (nat_digits n) = nat_value (nat_digits (n div 10)) * 10 + n mod 10"
      by (subst nat_digits.simps) (simp add: nat_value_def)
    with 1 False show ?thesis by simp
  qed
qed

lemma nat_digits_zero: "hd (nat_digits n) = CHR ''0'' \<Longrightarrow> n = 0"
proof (induction n rule: nat_digits.induct)
  case (1 n)
  show ?case
  proof (cases "n < 10")
    case True
    with "1.prems" have "(char_of (48 + n) :: char) = CHR ''0''"
      by (subst (asm) nat_digits.simps) simp
    then have "(of_char (char_of (48 + n) :: char) :: nat) = of_char (CHR ''0'')" by simp
    with True show ?thesis by simp
  next
    case False
    with "1.prems" have "hd (nat_digits (n div 10)) = CHR ''0''"
      by (subst (asm) nat_digits.simps) (simp add: hd_append)
    with "1.IH" False show ?thesis by simp
  qed
qed

text \<open>What may follow a value: nothing that could extend a number.\<close>

definition delimited :: "string \<Rightarrow> bool" where
  "delimited s \<longleftrightarrow> (s = [] \<or> \<not> is_digit (hd s) \<and> hd s \<notin> set ''.eE'')"

lemma takeWhile_digits:
  assumes "delimited rest"
  shows "takeWhile is_digit (nat_digits n @ rest) = nat_digits n"
proof -
  have "takeWhile is_digit rest = []" using assms by (cases rest) (auto simp: delimited_def)
  then show ?thesis using nat_digits_digit by (simp add: takeWhile_append2)
qed

lemma scan_number_digits:
  assumes "delimited rest"
  shows "scan_number pf neg (nat_digits n @ rest) = Inr (PInt ((if neg then - 1 else 1) * int n), rest)"
proof -
  have "(if hd (nat_digits n) = CHR ''0'' then [CHR ''0''] else nat_digits n) = nat_digits n"
    using nat_digits_zero [of n] nat_digits_0 by auto
  with assms show ?thesis
    by (auto simp: scan_number_def takeWhile_digits [OF assms] nat_value_digits Let_def delimited_def)
qed

section \<open>Objects\<close>

fun plain :: "pyval \<Rightarrow> bool" where
  "plain (PFloat _) = False"
| "plain (PDatetime _) = False"
| "plain _ = True"

lemma digit_not_letter:
  "is_digit c \<Longrightarrow> c \<noteq> CHR ''n'' \<and> c \<noteq> CHR ''t'' \<and> c \<noteq> CHR ''f'' \<and> c \<noteq> CHR ''-'' \<and> c \<noteq> CHR 0x22 \<and> \<not> is_ws c"
  by (auto simp: is_digit_def is_ws_def)

lemma nat_digits_cons: obtains c ds where "nat_digits n = c # ds" "is_digit c"
  using nat_digits_digit [of _ n] nat_digits_nonempty [of n] by (cases "nat_digits n") auto

lemma scan_value_digits:
  assumes "delimited rest"
  shows "scan_value pf (nat_digits n @ rest) = Inr (PInt (int n), rest)"
proof -
  obtain c ds where c: "nat_digits n = c # ds" "is_digit c" by (rule nat_digits_cons)
  from digit_not_letter [OF c(2)] scan_number_digits [OF assms, of pf False n] c(1)
  show ?thesis by (auto simp: scan_value_def)
qed

lemma scan_json_value:
  assumes "plain v" "delimited rest"
  shows "scan_value pf (json_value render v @ rest) = Inr (v, rest)"
proof (cases v)
  case (PInt i)
  show ?thesis
  proof (cases "i < 0")
    case True
    then show ?thesis
      using scan_number_digits [OF assms(2), of pf True "nat (- i)"]
      by (simp add: PInt int_digits_def scan_value_def)
  next
    case False
    then show ?thesis
      using scan_value_digits [OF assms(2), of pf "nat i"] by (simp add: PInt int_digits_def)
  qed
next
  case (PStr s)
  then show ?thesis by (simp add: scan_value_def json_string_def scan_json_string)
qed (use assms in \<open>simp_all add: scan_value_def\<close>)

lemma json_value_start:
  assumes "plain v"
  shows "dropWhile is_ws (json_value render v @ t) = json_value render v @ t"
proof -
  have nat: "dropWhile is_ws (nat_digits n @ t) = nat_digits n @ t" for n
  proof -
    obtain c ds where c: "nat_digits n = c # ds" "is_digit c" by (rule nat_digits_cons)
    with digit_not_letter [OF c(2)] show ?thesis by simp
  qed
  with assms show ?thesis
    by (cases v) (simp_all add: int_digits_def json_string_def, simp_all add: is_ws_def)
qed

lemma dropWhile_ws: "list_all is_ws w \<Longrightarrow> dropWhile is_ws (w @ t) = dropWhile is_ws t"
  by (induction w) simp_all

lemma json_string_start: "dropWhile is_ws (json_string k @ t) = json_string k @ t"
  by (simp add: json_string_def is_ws_def)

text \<open>One round of the reader's loop over a member the writer wrote.\<close>

lemma scan_member:
  assumes "plain v" "delimited (d # t)" "\<not> is_ws d" "list_all is_ws w" "list_all is_ws wk"
  shows "scan_members pf (Suc n) (w @ json_string k @ CHR '':'' # wk @ json_value render v @ d # t) =
     (if d = CHR ''}'' then Inr ([(k, v)], t)
      else if d = CHR '','' then
        rbind (scan_members pf n t) (\<lambda>(rest, s6). Inr ((k, v) # rest, s6))
      else Inl (JSONDecodeError ''Expecting , delimiter''))"
proof -
  have colon: "\<not> is_ws (CHR '':'')" by (simp add: is_ws_def)
  have start: "dropWhile is_ws (w @ json_string k @ u) = CHR 0x22 # concat (map esc_char k) @ CHR 0x22 # u" for u
    using assms(4) by (simp add: dropWhile_ws json_string_start) (simp add: json_string_def)
  have val: "scan_value pf (dropWhile is_ws (wk @ json_value render v @ d # t)) = Inr (v, d # t)"
    using assms by (simp add: dropWhile_ws json_value_start scan_json_value)
  show ?thesis
    using assms(3) by (simp add: start scan_json_string colon val)
qed

lemma scan_members_text:
  assumes "d \<noteq> []" "length d \<le> n" "list_all (\<lambda>(k, v). plain v) d"
    and ws: "list_all is_ws w" "list_all is_ws wi" "list_all is_ws wk"
  shows "scan_members pf n (w @ json_members render (CHR '','' # wi) (CHR '':'' # wk) d @ CHR ''}'' # rest) =
     Inr (d, rest)"
  using assms(1-4)
proof (induction d arbitrary: n w)
  case (Cons kv d)
  obtain k v where kv: "kv = (k, v)" by fastforce
  obtain m where n: "n = Suc m" using Cons.prems(2) by (cases n) auto
  have pl: "plain v" using Cons.prems(3) kv by simp
  have close: "delimited (CHR ''}'' # t)" "\<not> is_ws (CHR ''}'')"
    and comma: "delimited (CHR '','' # t)" "\<not> is_ws (CHR '','')" for t
    by (simp_all add: delimited_def is_digit_def is_ws_def)
  show ?case
  proof (cases "d = []")
    case True
    with scan_member [OF pl close Cons.prems(4) ws(3)] show ?thesis by (simp add: kv n)
  next
    case False
    then have "json_members render (CHR '','' # wi) (CHR '':'' # wk) (kv # d) =
        json_string k @ CHR '':'' # wk @ json_value render v @ CHR '','' #
        wi @ json_members render (CHR '','' # wi) (CHR '':'' # wk) d"
      by (cases d) (simp_all add: kv)
    with scan_member [OF pl comma Cons.prems(4) ws(3)] Cons.IH [OF False _ _ ws(2), of m] Cons.prems
    show ?thesis by (simp add: kv n)
  qed
qed simp

lemma json_members_length: "length d \<le> length (json_members render isep ksep d)"
  by (induction render isep ksep d rule: json_members.induct) (simp_all add: json_string_def)

theorem json_roundtrip:
  assumes "dict_ok d" "list_all (\<lambda>(k, v). plain v) d" "list_all is_ws wi" "list_all is_ws wk"
  shows "json_loads pf (json_object render (CHR '','' # wi) (CHR '':'' # wk) d) = Inr (JObj d)"
proof (cases "d = []")
  case True
  then show ?thesis by (simp add: json_loads_def json_object_def is_ws_def scan_end_def)
next
  case False
  let ?t = "json_members render (CHR '','' # wi) (CHR '':'' # wk) d"
  have "length d \<le> length (?t @ ''}'')" using json_members_length [of d] by (simp add: le_SucI)
  from scan_members_text [OF False this assms(2) _ assms(3,4), of "[]" pf render "[]"]
  have scan: "scan_members pf (length (?t @ ''}'')) (?t @ ''}'') = Inr (d, [])" by simp
  have start: "\<exists>u. ?t = CHR 0x22 # u"
    using False by (cases "(render, CHR '','' # wi, CHR '':'' # wk, d)" rule: json_members.cases)
      (auto simp: json_string_def)
  then obtain u where u: "?t = CHR 0x22 # u" ..
  have "fold (\<lambda>(k, v). AList.update k v) d [] = d"
    using dict_rebuild [of "[]" d] assms(1) by simp
  with scan show ?thesis
    by (simp add: json_loads_def json_object_def u scan_end_def is_ws_def)
qed

end
