(* ===== verification/Kafka_Log.thy ===== *)
theory Kafka_Log
  imports Topics
begin

text \<open>
  The Kafka client calls of the processors, as the operations a transactional producer
  performs in order, and what a \<open>read_committed\<close> consumer sees of them. The reading is
  that of the in-memory double the processor tests use (\<open>FakeTransactionalProducer\<close> in
  \<open>tests/kafka_fakes.py\<close>), which keeps the same lg: records are visible once their
  transaction commits, and so are the offsets sent to it.

  The locale \<open>transactional_log\<close> states the broker's promise for any reading of the log:
  a committed transaction appears as a whole, everything else has no effect.
\<close>

datatype kop =
    KInit
  | KBegin
  | KProduce string "string option" string
  | KSendOffsets "((string \<times> int) \<times> int) list"
  | KCommit
  | KCommitFailed
  | KAbort

type_synonym klog = "kop list"

section \<open>Committed records\<close>

text \<open>\<open>committed_records(topic)\<close>: one pass with the records committed so far and the
  pending ones.\<close>

fun records_step :: "string \<Rightarrow> (string option \<times> string) list \<times> (string option \<times> string) list
    \<Rightarrow> kop \<Rightarrow> (string option \<times> string) list \<times> (string option \<times> string) list" where
  "records_step topic (records, pending) KBegin = (records, [])"
| "records_step topic (records, pending) (KProduce t key value) =
     (records, if t = topic then pending @ [(key, value)] else pending)"
| "records_step topic (records, pending) KCommit = (records @ pending, [])"
| "records_step topic (records, pending) KAbort = (records, [])"
| "records_step topic (records, pending) KCommitFailed = (records, [])"
| "records_step topic (records, pending) op = (records, pending)"

definition committed_records :: "klog \<Rightarrow> string \<Rightarrow> (string option \<times> string) list" where
  "committed_records lg topic = fst (foldl (records_step topic) ([], []) lg)"

section \<open>Committed offsets\<close>

text \<open>The offsets a group commits through \<open>send_offsets_to_transaction\<close>, visible with the
  transaction; \<open>committed()\<close> answers -1001 (\<open>OFFSET_INVALID\<close>) when there is none.\<close>

fun offsets_step :: "(string \<times> int, int) dict \<times> (string \<times> int, int) dict
    \<Rightarrow> kop \<Rightarrow> (string \<times> int, int) dict \<times> (string \<times> int, int) dict" where
  "offsets_step (offs, pending) KBegin = (offs, [])"
| "offsets_step (offs, pending) (KSendOffsets os) =
     (offs, fold (\<lambda>(tp, off). AList.update tp off) os pending)"
| "offsets_step (offs, pending) KCommit =
     (fold (\<lambda>(tp, off). AList.update tp off) pending offs, [])"
| "offsets_step (offs, pending) KAbort = (offs, [])"
| "offsets_step (offs, pending) KCommitFailed = (offs, [])"
| "offsets_step (offs, pending) op = (offs, pending)"

definition committed_offset :: "klog \<Rightarrow> string \<Rightarrow> int \<Rightarrow> int" where
  "committed_offset lg topic part =
     (case map_of (fst (foldl offsets_step ([], []) lg)) (topic, part) of
        None \<Rightarrow> -1001 | Some off \<Rightarrow> off)"

text \<open>\<open>tp.offset if tp.offset >= 0 else 0\<close>\<close>

definition resume_offset :: "klog \<Rightarrow> string \<Rightarrow> int \<Rightarrow> int" where
  "resume_offset lg topic part =
     (let off = committed_offset lg topic part in if off \<ge> 0 then off else 0)"

section \<open>The contract of a transactional log\<close>

text \<open>The body of a transaction, and what it would make visible.\<close>

fun tx_body_op :: "kop \<Rightarrow> bool" where
  "tx_body_op (KProduce _ _ _) = True"
| "tx_body_op (KSendOffsets _) = True"
| "tx_body_op _ = False"

fun op_records :: "string \<Rightarrow> kop \<Rightarrow> (string option \<times> string) list" where
  "op_records topic (KProduce t key value) = (if t = topic then [(key, value)] else [])"
| "op_records topic _ = []"

fun op_offsets :: "kop \<Rightarrow> ((string \<times> int) \<times> int) list" where
  "op_offsets (KSendOffsets os) = os"
| "op_offsets _ = []"

locale transactional_log =
  fixes visible :: "klog \<Rightarrow> 'v"
    and absorb :: "'v \<Rightarrow> kop list \<Rightarrow> 'v"
  assumes visible_commit:
      "list_all tx_body_op body \<Longrightarrow> visible (lg @ KBegin # body @ [KCommit]) = absorb (visible lg) body"
    and visible_other: "op \<noteq> KCommit \<Longrightarrow> visible (lg @ [op]) = visible lg"
begin

lemma visible_uncommitted: "KCommit \<notin> set ops \<Longrightarrow> visible (lg @ ops) = visible lg"
proof (induction ops rule: rev_induct)
  case (snoc op ops)
  then show ?case using visible_other [of op "lg @ ops"] by auto
qed simp

text \<open>A transaction that stops anywhere before its commit, aborted or not, leaves no trace.\<close>

lemma visible_cut:
  assumes "list_all tx_body_op body" "KCommit \<notin> set rest"
  shows "visible (lg @ take n (KBegin # body) @ rest) = visible lg"
proof (rule visible_uncommitted)
  have "KCommit \<notin> set (KBegin # body)" using assms(1) by (auto simp: list_all_iff)
  with assms(2) show "KCommit \<notin> set (take n (KBegin # body) @ rest)"
    by (auto dest: in_set_takeD)
qed

end

lemma records_body:
  "list_all tx_body_op body \<Longrightarrow> foldl (records_step topic) (r, p) body =
     (r, p @ concat (map (op_records topic) body))"
proof (induction body arbitrary: p)
  case (Cons op body)
  then show ?case by (cases op) auto
qed simp

lemma offsets_body:
  "list_all tx_body_op body \<Longrightarrow> foldl offsets_step (r, p) body =
     (r, fold (\<lambda>(tp, off). AList.update tp off) (concat (map op_offsets body)) p)"
proof (induction body arbitrary: p)
  case (Cons op body)
  then show ?case by (cases op) auto
qed simp

definition offsets_visible :: "klog \<Rightarrow> (string \<times> int) \<Rightarrow> int option" where
  "offsets_visible lg = map_of (fst (foldl offsets_step ([], []) lg))"

lemma map_of_fold_update:
  "map_of (fold (\<lambda>(k, v). AList.update k v) kvs d) = map_of d ++ map_of (rev kvs)"
  by (induction kvs arbitrary: d) (auto simp: fun_eq_iff map_add_def split: option.splits)

lemma fold_update_self:
  "map_of (fold (\<lambda>(k, v). AList.update k v) (fold (\<lambda>(k, v). AList.update k v) kvs []) d) =
     map_of d ++ map_of (rev kvs)"
proof -
  have ok: "dict_ok (fold (\<lambda>(k, v). AList.update k v) kvs e)" if "dict_ok e" for e :: "('a, 'b) dict"
    using that by (induction kvs arbitrary: e) (auto simp: dict_update_ok)
  have rev: "map_of (rev e) = map_of e" if "dict_ok e" for e :: "('a, 'b) dict"
    using that by (intro map_of_inject_set [THEN iffD2]) (auto simp: rev_map [symmetric])
  show ?thesis by (simp add: map_of_fold_update rev ok)
qed

interpretation records_log: transactional_log "\<lambda>lg. committed_records lg topic"
  "\<lambda>rs body. rs @ concat (map (op_records topic) body)" for topic
proof
  fix body lg assume "list_all tx_body_op body"
  then show "committed_records (lg @ KBegin # body @ [KCommit]) topic =
      committed_records lg topic @ concat (map (op_records topic) body)"
    by (cases "foldl (records_step topic) ([], []) lg") (simp add: committed_records_def records_body)
next
  fix op :: kop and lg assume "op \<noteq> KCommit"
  then show "committed_records (lg @ [op]) topic = committed_records lg topic"
    by (cases "foldl (records_step topic) ([], []) lg"; cases op) (simp_all add: committed_records_def)
qed

interpretation offsets_log: transactional_log offsets_visible
  "\<lambda>offs body. offs ++ map_of (rev (concat (map op_offsets body)))"
proof
  fix body lg assume "list_all tx_body_op body"
  then show "offsets_visible (lg @ KBegin # body @ [KCommit]) =
      offsets_visible lg ++ map_of (rev (concat (map op_offsets body)))"
    by (cases "foldl offsets_step ([], []) lg")
      (simp add: offsets_visible_def offsets_body fold_update_self)
next
  fix op :: kop and lg assume "op \<noteq> KCommit"
  then show "offsets_visible (lg @ [op]) = offsets_visible lg"
    by (cases "foldl offsets_step ([], []) lg"; cases op) (simp_all add: offsets_visible_def)
qed

lemma committed_offset_visible:
  "committed_offset lg topic part =
     (case offsets_visible lg (topic, part) of None \<Rightarrow> -1001 | Some off \<Rightarrow> off)"
  by (simp add: committed_offset_def offsets_visible_def)

end
