(* ===== verification/Dlq_Envelope.thy ===== *)
theory Dlq_Envelope
  imports Base64 Json Kafka_Log
begin

text \<open>
  \<open>dlq/envelope.py\<close>: the dead-letter envelope, its JSON text and the producer of the
  consumers that run outside Kafka transactions. A consumed message is the record \<open>msg\<close>;
  its error, key and value are what the client's accessors return. The time of failure is an
  argument (\<open>now\<close>, the text \<open>isoformat\<close> gives).

  \<open>parse_envelope\<close> builds the dataclass from the keyword arguments of the JSON object: a
  missing or unexpected key is a TypeError. The fields are typed here, so a value of another
  type, which Python would only notice when the field is used, is a TypeError at once.
\<close>

datatype kafka_error = PARTITION_EOF | Kafka_Error string

record msg =
  m_topic :: string
  m_partition :: int
  m_offset :: int
  m_key :: "string option"
  m_value :: "string option"
  m_error :: "kafka_error option"

record Envelope =
  source_topic :: string
  env_partition :: int
  env_offset :: int
  key_b64 :: "string option"
  payload_b64 :: string
  env_error :: string
  consumer_group :: string
  failed_at :: string

definition envelope_payload :: "Envelope \<Rightarrow> exn + string" where
  "envelope_payload e = b64decode (payload_b64 e)"

definition envelope_key :: "Envelope \<Rightarrow> exn + string option" where
  "envelope_key e =
     (case key_b64 e of None \<Rightarrow> Inr None | Some k \<Rightarrow> rbind (b64decode k) (\<lambda>b. Inr (Some b)))"

definition build_envelope :: "string \<Rightarrow> msg \<Rightarrow> exn \<Rightarrow> string \<Rightarrow> Envelope" where
  "build_envelope now m error grp =
     \<lparr>source_topic = m_topic m, env_partition = m_partition m, env_offset = m_offset m,
      key_b64 = map_option b64encode (m_key m),
      payload_b64 = b64encode (case m_value m of None \<Rightarrow> [] | Some v \<Rightarrow> v),
      env_error = exn_type error @ '': '' @ exn_text error,
      consumer_group = grp, failed_at = now\<rparr>"

section \<open>The JSON text\<close>

definition asdict :: "Envelope \<Rightarrow> payload" where
  "asdict e =
     [(''source_topic'', PStr (source_topic e)), (''partition'', PInt (env_partition e)),
      (''offset'', PInt (env_offset e)), (''key_b64'', of_opt_str (key_b64 e)),
      (''payload_b64'', PStr (payload_b64 e)), (''error'', PStr (env_error e)),
      (''consumer_group'', PStr (consumer_group e)), (''failed_at'', PStr (failed_at e))]"

definition envelope_fields :: "string list" where
  "envelope_fields = [''source_topic'', ''partition'', ''offset'', ''key_b64'', ''payload_b64'',
     ''error'', ''consumer_group'', ''failed_at'']"

definition envelope_bytes :: "Envelope \<Rightarrow> string" where
  "envelope_bytes e = json_object (\<lambda>_. []) '','' '':'' (asdict e)"

fun as_str :: "pyval \<Rightarrow> exn + string" where
  "as_str (PStr s) = Inr s"
| "as_str _ = Inl (TypeError ''expected str'')"

fun as_int :: "pyval \<Rightarrow> exn + int" where
  "as_int (PInt i) = Inr i"
| "as_int _ = Inl (TypeError ''expected int'')"

fun as_opt_str :: "pyval \<Rightarrow> exn + string option" where
  "as_opt_str PNone = Inr None"
| "as_opt_str (PStr s) = Inr (Some s)"
| "as_opt_str _ = Inl (TypeError ''expected str or None'')"

definition make_envelope :: "payload \<Rightarrow> exn + Envelope" where
  "make_envelope d =
     (if list_ex (\<lambda>(k, _). k \<notin> set envelope_fields) d
      then Inl (TypeError ''Envelope.__init__() got an unexpected keyword argument'')
      else if list_ex (\<lambda>k. map_of d k = None) envelope_fields
      then Inl (TypeError ''Envelope.__init__() missing required positional arguments'')
      else
        rbind (as_str (d_get d ''source_topic'')) (\<lambda>topic.
        rbind (as_int (d_get d ''partition'')) (\<lambda>part.
        rbind (as_int (d_get d ''offset'')) (\<lambda>off.
        rbind (as_opt_str (d_get d ''key_b64'')) (\<lambda>key.
        rbind (as_str (d_get d ''payload_b64'')) (\<lambda>payload.
        rbind (as_str (d_get d ''error'')) (\<lambda>error.
        rbind (as_str (d_get d ''consumer_group'')) (\<lambda>grp.
        rbind (as_str (d_get d ''failed_at'')) (\<lambda>failed.
          Inr \<lparr>source_topic = topic, env_partition = part, env_offset = off, key_b64 = key,
               payload_b64 = payload, env_error = error, consumer_group = grp,
               failed_at = failed\<rparr>)))))))))"

definition parse_envelope :: "(string \<Rightarrow> real) \<Rightarrow> string \<Rightarrow> exn + Envelope" where
  "parse_envelope parse_float data =
     rbind (json_loads parse_float data) (\<lambda>j.
       case j of
         JObj d \<Rightarrow> make_envelope d
       | JScalar _ \<Rightarrow> Inl (TypeError ''argument after ** must be a mapping''))"

section \<open>The dead-letter producer\<close>

text \<open>\<open>dp_out\<close> is what has been handed to the client's queue (topic, key, value), in order;
  \<open>dp_flushed\<close> how much of it \<open>flush\<close> is known to have delivered.\<close>

record DlqProducer =
  dp_group :: string
  dp_out :: "(string \<times> string option \<times> string) list"
  dp_flushed :: nat
  dp_sent :: nat

definition dlq_producer_init :: "string \<Rightarrow> DlqProducer" where
  "dlq_producer_init grp = \<lparr>dp_group = grp, dp_out = [], dp_flushed = 0, dp_sent = 0\<rparr>"

definition dlq_handle :: "string \<Rightarrow> DlqProducer \<Rightarrow> msg \<Rightarrow> exn \<Rightarrow> exn + DlqProducer" where
  "dlq_handle now dp m error =
     (let envelope = build_envelope now m error (dp_group dp)
      in rbind (envelope_key envelope) (\<lambda>key.
         Inr (dp\<lparr>dp_out := dp_out dp @ [(dlq_topic (source_topic envelope), key, envelope_bytes envelope)],
                 dp_sent := dp_sent dp + 1\<rparr>)))"

definition dlq_flush :: "DlqProducer \<Rightarrow> DlqProducer" where
  "dlq_flush dp = dp\<lparr>dp_flushed := length (dp_out dp)\<rparr>"

section \<open>Properties\<close>

lemma asdict_plain: "list_all (\<lambda>(k, v). plain v) (asdict e)"
  by (cases "key_b64 e") (simp_all add: asdict_def)

lemma asdict_ok: "dict_ok (asdict e)"
  by (simp add: asdict_def)

lemma make_envelope_asdict: "make_envelope (asdict e) = Inr e"
proof -
  have key: "as_opt_str (of_opt_str k) = Inr k" for k by (cases k) simp_all
  show ?thesis
    by (simp add: make_envelope_def asdict_def envelope_fields_def d_get_def key)
qed

lemma parse_envelope_bytes: "parse_envelope pf (envelope_bytes e) = Inr e"
  using json_roundtrip [OF asdict_ok asdict_plain, of "[]" "[]" pf "\<lambda>_. []" e]
  by (simp add: parse_envelope_def envelope_bytes_def make_envelope_asdict)

lemma envelope_key_build [simp]: "envelope_key (build_envelope now m err g) = Inr (m_key m)"
  by (cases "m_key m") (simp_all add: envelope_key_def build_envelope_def b64_roundtrip)

lemma envelope_payload_build [simp]:
  "envelope_payload (build_envelope now m err g) = Inr (case m_value m of None \<Rightarrow> [] | Some v \<Rightarrow> v)"
  by (simp add: envelope_payload_def build_envelope_def b64_roundtrip)

text \<open>Nothing of a poison message is lost in its envelope. The JSON text the producer
  writes parses back to the very envelope that was built, and that envelope gives back the raw
  key and payload bytes, whatever they are, and the coordinates of the message.\<close>

theorem envelope_lossless:
  "parse_envelope parse_float (envelope_bytes (build_envelope now m err grp)) = Inr (build_envelope now m err grp)
   \<and> envelope_key (build_envelope now m err grp) = Inr (m_key m)
   \<and> envelope_payload (build_envelope now m err grp) = Inr (case m_value m of None \<Rightarrow> [] | Some v \<Rightarrow> v)
   \<and> (source_topic (build_envelope now m err grp), env_partition (build_envelope now m err grp),
       env_offset (build_envelope now m err grp)) = (m_topic m, m_partition m, m_offset m)"
  by (simp add: parse_envelope_bytes) (simp add: build_envelope_def)

lemma dlq_handle_eq:
  "dlq_handle now dp m err =
     Inr (dp\<lparr>dp_out := dp_out dp @ [(dlq_topic (m_topic m), m_key m,
                envelope_bytes (build_envelope now m err (dp_group dp)))],
             dp_sent := dp_sent dp + 1\<rparr>)"
  by (simp add: dlq_handle_def Let_def) (simp add: build_envelope_def)

end
