(* ===== verification/Outcomes.thy ===== *)
theory Outcomes
  imports Py_Values
begin

text \<open>
  How a handler of a long-running service ends, and how a call to an external service can
  fail. \<open>Ret\<close> a value, \<open>Raise\<close> an exception, \<open>Die\<close> when the process is killed at that point:
  the state beside it is then what it had become, of which only the durable part survives.
\<close>

datatype 'a out = Ret 'a | Raise exn | Die

datatype fault = FRaise exn | FDie

fun fault_out :: "fault \<Rightarrow> 'a out" where
  "fault_out (FRaise e) = Raise e"
| "fault_out FDie = Die"

text \<open>
  A call that may fail: \<open>None\<close> when it succeeds, and otherwise whether its effect took place
  before the failure was noticed. \<open>obind\<close> goes on after a call that returned.
\<close>

fun attempt :: "(bool \<times> fault) option \<Rightarrow> ('s \<Rightarrow> 's) \<Rightarrow> 's \<Rightarrow> unit out \<times> 's" where
  "attempt None g s = (Ret (), g s)"
| "attempt (Some (effective, f)) g s = (fault_out f, if effective then g s else s)"

fun obind :: "'a out \<times> 's \<Rightarrow> ('a \<Rightarrow> 's \<Rightarrow> 'b out \<times> 's) \<Rightarrow> 'b out \<times> 's" where
  "obind (Ret a, s) k = k a s"
| "obind (Raise e, s) k = (Raise e, s)"
| "obind (Die, s) k = (Die, s)"

lemma fault_out_neq_Ret [simp]: "fault_out f \<noteq> Ret a"
  by (cases f) simp_all

lemma obind_fault [simp]: "obind (fault_out f, s) k = (fault_out f, s)"
  by (cases f) simp_all

lemma obind_cases:
  assumes "obind m k = (r, s')"
  obtains (stop) r' where "m = (r', s')" "\<And>a. r' \<noteq> Ret a" "\<And>a. r \<noteq> Ret a"
    | (go) a s where "m = (Ret a, s)" "k a s = (r, s')"
  using assms by (cases m; cases "fst m") auto

lemma attempt_cases:
  assumes "attempt f g s = (r, s')"
  obtains (effect) "s' = g s" | (none) "s' = s" "\<And>a. r \<noteq> Ret a"
proof (cases f)
  case (Some x)
  then show ?thesis
    using assms that by (cases x) (auto split: if_splits)
qed (use assms that in auto)

end
