(* ===== verification/Sessionizer.thy ===== *)
theory Sessionizer
  imports State_Store Session_Builder Dlq_Envelope Outcomes
begin

text \<open>
  \<open>processors/ride_sessionizer.py\<close>: rides.events to rides.sessions, exactly once. The state
  \<open>szr\<close> is the object's: the SQLite store, the accumulators and their partitions, the
  per-partition watermarks, the two counters; \<open>sz_log\<close> is the log of the producer's Kafka
  calls, which is also where the consumer's committed offsets are read.

  \<^item> Every handler returns an outcome (\<open>Outcomes\<close>) beside the new state; after \<open>Die\<close> only
    the store and the log survive.
  \<^item> \<open>codec\<close> is what the code is configured with: the registry (de)serializers, which may
    raise, \<open>str()\<close> of floats, and the clock of the envelopes.
  \<^item> \<open>fault\<close> decides for each Kafka call whether it succeeds, raises, or is the point where
    the process dies. A commit that raises did not commit.
  The Prometheus counters and the log lines have no effect on the state and are left out.
\<close>

record codec =
  deserialize :: "string \<Rightarrow> string option \<Rightarrow> exn + payload"
  serialize_session :: "string \<Rightarrow> payload \<Rightarrow> exn + string"
  serialize_event :: "string \<Rightarrow> payload \<Rightarrow> exn + string"
  render :: "pyval \<Rightarrow> string"
  clock :: "msg \<Rightarrow> string"

record SessionizerConfig =
  cfg_group_id :: string
  cfg_session_timeout_ms :: int
  cfg_crash_after_state_commit :: bool

record PartitionState =
  watermark_ms :: int
  max_offset_in_batch :: int

record szr =
  sz_store :: StateStore
  sz_accs :: "(string, acc) dict"
  sz_acc_partition :: "(string, int) dict"
  sz_partitions :: "(int, PartitionState) dict"
  sz_emitted :: nat
  sz_poison :: nat
  sz_log :: klog

record batch =
  b_consumed :: nat
  b_journal :: "JournalRow list"
  b_state :: "(int, PartitionState) dict"
  b_poisons :: "Envelope list"
  b_clean :: "payload list"

datatype kcall = CBegin | CProduce nat | CSendOffsets | CCommit | CAbort | CCommitted int

definition new_pstate :: PartitionState where
  "new_pstate = \<lparr>watermark_ms = 0, max_offset_in_batch = -1\<rparr>"

definition new_batch :: batch where
  "new_batch = \<lparr>b_consumed = 0, b_journal = [], b_state = [], b_poisons = [], b_clean = []\<rparr>"

definition new_szr :: "StateStore \<Rightarrow> klog \<Rightarrow> szr" where
  "new_szr st lg = \<lparr>sz_store = st, sz_accs = [], sz_acc_partition = [], sz_partitions = [],
     sz_emitted = 0, sz_poison = 0, sz_log = lg\<rparr>"

section \<open>One message\<close>

text \<open>\<open>d.setdefault(k, v)\<close> followed by an update of the value.\<close>

definition upd_default :: "'k \<Rightarrow> 'v \<Rightarrow> ('v \<Rightarrow> 'v) \<Rightarrow> ('k, 'v) dict \<Rightarrow> ('k, 'v) dict" where
  "upd_default k v f d = AList.update k (f (case map_of d k of None \<Rightarrow> v | Some w \<Rightarrow> w)) d"

text \<open>The deserialised value with its normalised time stamp, and the ride it belongs to.\<close>

definition normalise :: "codec \<Rightarrow> payload \<Rightarrow> exn + (payload \<times> int \<times> string)" where
  "normalise cd value =
     rbind (d_item value ''event_ts'') (\<lambda>ts. rbind (to_epoch_ms ts) (\<lambda>ms.
       let value = AList.update ''event_ts'' (PInt ms) value in
       rbind (d_item value ''ride_id'') (\<lambda>r. Inr (value, ms, py_str (render cd) r))))"

definition track_offset :: "msg \<Rightarrow> batch \<Rightarrow> batch" where
  "track_offset m b =
     b\<lparr>b_consumed := b_consumed b + 1,
       b_state := upd_default (m_partition m) new_pstate
         (\<lambda>p. p\<lparr>max_offset_in_batch := max (max_offset_in_batch p) (m_offset m)\<rparr>) (b_state b)\<rparr>"

definition touch_partition :: "(PartitionState \<Rightarrow> PartitionState) \<Rightarrow> int \<Rightarrow> szr \<Rightarrow> szr" where
  "touch_partition f p s = s\<lparr>sz_partitions := upd_default p new_pstate f (sz_partitions s)\<rparr>"

definition open_acc :: "string \<Rightarrow> int \<Rightarrow> szr \<Rightarrow> acc \<times> szr" where
  "open_acc ride_id part s =
     (case map_of (sz_accs s) ride_id of
        Some a \<Rightarrow> (a, s)
      | None \<Rightarrow> (new_acc ride_id,
          s\<lparr>sz_accs := AList.update ride_id (new_acc ride_id) (sz_accs s),
            sz_acc_partition := AList.update ride_id part (sz_acc_partition s)\<rparr>))"

definition handle_event :: "int \<Rightarrow> int \<Rightarrow> payload \<times> int \<times> string \<Rightarrow> batch \<times> szr \<Rightarrow> unit out \<times> batch \<times> szr" where
  "handle_event part off ev bs =
     (let (value, ms, ride_id) = ev; (b, s) = bs;
          b = b\<lparr>b_clean := b_clean b @ [value]\<rparr>;
          s = touch_partition (\<lambda>p. p\<lparr>watermark_ms := max (watermark_ms p) ms\<rparr>) part s
      in if is_closed (sz_store s) ride_id then (Ret (), b, s)
         else
           let b = b\<lparr>b_journal := b_journal b @ [\<lparr>jr_partition = part, jr_offset = off,
                       jr_ride_id = ride_id, jr_value = value\<rparr>]\<rparr>;
               (a, s) = open_acc ride_id part s
           in case add_event a value of
                Inl e \<Rightarrow> (Raise e, b, s)
              | Inr a' \<Rightarrow> (Ret (), b, s\<lparr>sz_accs := AList.update ride_id a' (sz_accs s)\<rparr>))"

definition handle_msg :: "codec \<Rightarrow> SessionizerConfig \<Rightarrow> msg \<Rightarrow> batch \<times> szr \<Rightarrow> unit out \<times> batch \<times> szr" where
  "handle_msg cd cfg m bs =
     (case m_error m of
        Some PARTITION_EOF \<Rightarrow> (Ret (), bs)
      | Some (Kafka_Error e) \<Rightarrow> (Raise (RuntimeError (''consumer error: '' @ e)), bs)
      | None \<Rightarrow>
          let b = track_offset m (fst bs); s = touch_partition id (m_partition m) (snd bs) in
          case deserialize cd (m_topic m) (m_value m) of
            Inl e \<Rightarrow>
              (Ret (), b\<lparr>b_poisons := b_poisons b @ [build_envelope (clock cd m) m e (cfg_group_id cfg)]\<rparr>,
               s\<lparr>sz_poison := sz_poison s + 1\<rparr>)
          | Inr value \<Rightarrow>
              (case normalise cd value of
                 Inl e \<Rightarrow> (Raise e, b, s)
               | Inr ev \<Rightarrow> handle_event (m_partition m) (m_offset m) ev (b, s)))"

fun handle_msgs :: "codec \<Rightarrow> SessionizerConfig \<Rightarrow> msg list \<Rightarrow> batch \<times> szr \<Rightarrow> unit out \<times> batch \<times> szr" where
  "handle_msgs cd cfg [] bs = (Ret (), bs)"
| "handle_msgs cd cfg (m # ms) bs =
     (case handle_msg cd cfg m bs of
        (Ret _, bs') \<Rightarrow> handle_msgs cd cfg ms bs'
      | r \<Rightarrow> r)"

section \<open>Closing rides\<close>

fun collect_closes :: "SessionizerConfig \<Rightarrow> (int, PartitionState) dict \<Rightarrow> szr \<Rightarrow> (string, acc) dict
    \<Rightarrow> exn + CloseRow list" where
  "collect_closes cfg batch_state s [] = Inr []"
| "collect_closes cfg batch_state s ((ride_id, a) # rest) =
     (case map_of (sz_acc_partition s) ride_id of
        None \<Rightarrow> Inl (KeyError ride_id)
      | Some part \<Rightarrow>
        (case map_of batch_state part of
           None \<Rightarrow> collect_closes cfg batch_state s rest
         | Some bst \<Rightarrow>
           (case map_of (sz_partitions s) part of
              None \<Rightarrow> Inl (KeyError (int_digits part))
            | Some pst \<Rightarrow>
              if terminal a \<noteq> None \<or> timed_out a (watermark_ms pst) (cfg_session_timeout_ms cfg)
              then rbind (build_session a (terminal a = None)) (\<lambda>session.
                   rbind (collect_closes cfg batch_state s rest) (\<lambda>closes.
                     Inr (\<lparr>cr_ride_id = ride_id, cr_partition = part,
                           cr_offset = max_offset_in_batch bst, cr_session = session\<rparr> # closes)))
              else collect_closes cfg batch_state s rest)))"

section \<open>The Kafka transaction\<close>

definition kdo :: "(kcall \<Rightarrow> fault option) \<Rightarrow> kcall \<Rightarrow> kop \<Rightarrow> szr \<Rightarrow> unit out \<times> szr" where
  "kdo fault call op s =
     (case fault call of
        None \<Rightarrow> (Ret (), s\<lparr>sz_log := sz_log s @ [op]\<rparr>)
      | Some (FRaise e) \<Rightarrow>
          (Raise e, if op = KCommit then s\<lparr>sz_log := sz_log s @ [KCommitFailed]\<rparr> else s)
      | Some FDie \<Rightarrow> (Die, s))"

definition and_then :: "unit out \<times> szr \<Rightarrow> (szr \<Rightarrow> unit out \<times> szr) \<Rightarrow> unit out \<times> szr" where
  "and_then r k = (case r of (Ret _, s) \<Rightarrow> k s | _ \<Rightarrow> r)"

type_synonym krecord = "string \<times> string option \<times> string"

definition session_record_of :: "codec \<Rightarrow> payload \<Rightarrow> exn + krecord" where
  "session_record_of cd session =
     rbind (serialize_session cd RIDES_SESSIONS session) (\<lambda>payload.
     rbind (d_item session ''ride_id'') (\<lambda>r.
       Inr (RIDES_SESSIONS, Some (py_str (render cd) r), payload)))"

definition clean_record_of :: "codec \<Rightarrow> payload \<Rightarrow> exn + krecord" where
  "clean_record_of cd value =
     rbind (d_item value ''ride_id'') (\<lambda>r.
     rbind (serialize_event cd RIDES_EVENTS_CLEAN value) (\<lambda>payload.
       Inr (RIDES_EVENTS_CLEAN, Some (py_str (render cd) r), payload)))"

definition dlq_record_of :: "Envelope \<Rightarrow> exn + krecord" where
  "dlq_record_of e =
     rbind (envelope_key e) (\<lambda>k. Inr (dlq_topic (source_topic e), k, envelope_bytes e))"

definition tx_records :: "codec \<Rightarrow> payload list \<Rightarrow> batch \<Rightarrow> (exn + krecord) list" where
  "tx_records cd sessions b =
     map (session_record_of cd) sessions @ map (clean_record_of cd) (b_clean b)
     @ map dlq_record_of (b_poisons b)"

fun produce_all :: "(kcall \<Rightarrow> fault option) \<Rightarrow> nat \<Rightarrow> (exn + krecord) list \<Rightarrow> szr \<Rightarrow> unit out \<times> szr" where
  "produce_all fault n [] s = (Ret (), s)"
| "produce_all fault n (Inl e # rs) s = (Raise e, s)"
| "produce_all fault n (Inr (t, k, v) # rs) s =
     and_then (kdo fault (CProduce n) (KProduce t k v) s) (produce_all fault (n + 1) rs)"

definition tx_offsets :: "(int, PartitionState) dict \<Rightarrow> ((string \<times> int) \<times> int) list" where
  "tx_offsets batch_state =
     map (\<lambda>(p, st). ((RIDES_EVENTS, p), max_offset_in_batch st + 1))
       (filter (\<lambda>(_, st). max_offset_in_batch st \<ge> 0) batch_state)"

fun rollback_batch :: "(kcall \<Rightarrow> fault option) \<Rightarrow> (int, PartitionState) dict \<Rightarrow> szr \<Rightarrow> unit out \<times> szr" where
  "rollback_batch fault [] s = (Ret (), s)"
| "rollback_batch fault ((p, st) # rest) s =
     (if max_offset_in_batch st \<ge> 0 then
        (case fault (CCommitted p) of
           Some (FRaise e) \<Rightarrow> (Raise e, s)
         | Some FDie \<Rightarrow> (Die, s)
         | None \<Rightarrow>
             rollback_batch fault rest
               (s\<lparr>sz_store := fst (rollback_from (sz_store s) p (resume_offset (sz_log s) RIDES_EVENTS p))\<rparr>))
      else rollback_batch fault rest s)"

definition transact :: "(kcall \<Rightarrow> fault option) \<Rightarrow> codec \<Rightarrow> payload list \<Rightarrow> batch \<Rightarrow> szr \<Rightarrow> unit out \<times> szr" where
  "transact fault cd sessions b s =
     (case and_then (kdo fault CBegin KBegin s) (\<lambda>s.
           and_then (produce_all fault 0 (tx_records cd sessions b) s) (\<lambda>s.
           and_then (kdo fault CSendOffsets (KSendOffsets (tx_offsets (b_state b))) s) (\<lambda>s.
             kdo fault CCommit KCommit s))) of
        (Ret _, s) \<Rightarrow> (Ret (), s\<lparr>sz_emitted := sz_emitted s + length sessions\<rparr>)
      | (Die, s) \<Rightarrow> (Die, s)
      | (Raise e, s) \<Rightarrow>
          and_then (kdo fault CAbort KAbort s) (\<lambda>s.
          and_then (rollback_batch fault (b_state b) s) (\<lambda>s. (Raise e, s))))"

section \<open>A batch\<close>

definition forget_closed :: "CloseRow list \<Rightarrow> szr \<Rightarrow> szr" where
  "forget_closed closes s =
     s\<lparr>sz_accs := fold (\<lambda>c. AList.delete (cr_ride_id c)) closes (sz_accs s),
       sz_acc_partition := fold (\<lambda>c. AList.delete (cr_ride_id c)) closes (sz_acc_partition s)\<rparr>"

definition process_batch :: "(kcall \<Rightarrow> fault option) \<Rightarrow> codec \<Rightarrow> SessionizerConfig \<Rightarrow> msg list \<Rightarrow> szr
    \<Rightarrow> payload list out \<times> szr" where
  "process_batch fault cd cfg msgs s =
     (case handle_msgs cd cfg msgs (new_batch, s) of
        (Raise e, _, s) \<Rightarrow> (Raise e, s)
      | (Die, _, s) \<Rightarrow> (Die, s)
      | (Ret _, b, s) \<Rightarrow>
        (case collect_closes cfg (b_state b) s (sz_accs s) of
           Inl e \<Rightarrow> (Raise e, s)
         | Inr closes \<Rightarrow>
           (case append_batch (sz_store s) (b_journal b) closes of
              Inl e \<Rightarrow> (Raise e, s)
            | Inr st \<Rightarrow>
              let s = s\<lparr>sz_store := st\<rparr>; sessions = map cr_session closes in
              if cfg_crash_after_state_commit cfg \<and> closes \<noteq> [] then (Die, s)
              else case transact fault cd sessions b s of
                     (Ret _, s) \<Rightarrow> (Ret sessions, forget_closed closes s)
                   | (Raise e, s) \<Rightarrow> (Raise e, s)
                   | (Die, s) \<Rightarrow> (Die, s))))"

section \<open>Assignment and revocation\<close>

fun load_rides :: "int \<Rightarrow> (string, payload list) dict \<Rightarrow> szr \<Rightarrow> unit out \<times> szr" where
  "load_rides part [] s = (Ret (), s)"
| "load_rides part ((ride_id, events) # rest) s =
     (case add_events (new_acc ride_id) events of
        Inl e \<Rightarrow> (Raise e, s)
      | Inr a \<Rightarrow> load_rides part rest
          (s\<lparr>sz_accs := AList.update ride_id a (sz_accs s),
             sz_acc_partition := AList.update ride_id part (sz_acc_partition s)\<rparr>))"

definition assign_partition :: "int \<Rightarrow> szr \<Rightarrow> unit out \<times> szr" where
  "assign_partition p s =
     (let resume = resume_offset (sz_log s) RIDES_EVENTS p;
          st = fst (rollback_from (sz_store s) p resume);
          st = fst (purge_confirmed st p resume);
          s = s\<lparr>sz_store := st\<rparr>
      in and_then (load_rides p (open_rides st p) s) (\<lambda>s.
         (Ret (), s\<lparr>sz_partitions := AList.update p
            \<lparr>watermark_ms = (case max_journal_ts st p of None \<Rightarrow> 0 | Some ts \<Rightarrow> ts),
             max_offset_in_batch = -1\<rparr> (sz_partitions s)\<rparr>)))"

fun on_assign :: "int list \<Rightarrow> szr \<Rightarrow> unit out \<times> szr" where
  "on_assign [] s = (Ret (), s)"
| "on_assign (p # ps) s = and_then (assign_partition p s) (on_assign ps)"

definition revoke_partition :: "int \<Rightarrow> szr \<Rightarrow> szr" where
  "revoke_partition p s =
     (let rides = map fst (filter (\<lambda>(_, q). q = p) (sz_acc_partition s))
      in s\<lparr>sz_accs := fold AList.delete rides (sz_accs s),
           sz_acc_partition := fold AList.delete rides (sz_acc_partition s),
           sz_partitions := AList.delete p (sz_partitions s)\<rparr>)"

definition on_revoke :: "int list \<Rightarrow> szr \<Rightarrow> szr" where
  "on_revoke ps s = fold revoke_partition ps s"

section \<open>The loop\<close>

text \<open>
  \<open>run\<close> over the successive polls, each with the messages \<open>consume\<close> returned, the clock
  reading after it, and the faults met while its batch is processed. \<open>None\<close> in the first
  component: the loop is still polling after the given ones. The initial assignment is the
  client's callback during the first poll.
\<close>

fun run_loop :: "codec \<Rightarrow> SessionizerConfig \<Rightarrow> nat option \<Rightarrow> real option \<Rightarrow> nat \<Rightarrow> real
    \<Rightarrow> (msg list \<times> real \<times> (kcall \<Rightarrow> fault option)) list \<Rightarrow> szr \<Rightarrow> unit out option \<times> szr" where
  "run_loop cd cfg max_batches idle batches last_data polls s =
     (if (case max_batches of None \<Rightarrow> False | Some n \<Rightarrow> \<not> batches < n) then (Some (Ret ()), s)
      else case polls of
        [] \<Rightarrow> (None, s)
      | (msgs, now, fault) # polls' \<Rightarrow>
          if msgs = [] then
            if (case idle of None \<Rightarrow> False | Some t \<Rightarrow> now - last_data > t) then (Some (Ret ()), s)
            else run_loop cd cfg max_batches idle batches last_data polls' s
          else (case process_batch fault cd cfg msgs s of
                  (Ret _, s) \<Rightarrow> run_loop cd cfg max_batches idle (batches + 1) now polls' s
                | (Raise e, s) \<Rightarrow> (Some (Raise e), s)
                | (Die, s) \<Rightarrow> (Some Die, s)))"

definition run :: "codec \<Rightarrow> SessionizerConfig \<Rightarrow> nat option \<Rightarrow> real option \<Rightarrow> int list \<Rightarrow> real
    \<Rightarrow> (msg list \<times> real \<times> (kcall \<Rightarrow> fault option)) list \<Rightarrow> szr \<Rightarrow> unit out option \<times> szr" where
  "run cd cfg max_batches idle partitions now polls s =
     (case on_assign partitions (s\<lparr>sz_log := sz_log s @ [KInit]\<rparr>) of
        (Ret _, s) \<Rightarrow> run_loop cd cfg max_batches idle 0 now polls s
      | (r, s) \<Rightarrow> (Some r, s))"

declare run_loop.simps [simp del]

end
