(* ===== verification/Partition_Log.thy ===== *)
theory Partition_Log
  imports Dlq_Envelope
begin

text \<open>
  The content of a Kafka partition as a list of messages with increasing offsets, split at a
  consumer position: what has been consumed and what is still to come. Shared by the system
  models of the sessionizer and of the Postgres sink.
\<close>

definition is_record :: "msg \<Rightarrow> bool" where
  "is_record m \<longleftrightarrow> m_error m = None"

definition from_offset :: "int \<Rightarrow> msg list \<Rightarrow> msg list" where
  "from_offset off ms = filter (\<lambda>m. off \<le> m_offset m) ms"

definition before_offset :: "int \<Rightarrow> msg list \<Rightarrow> msg list" where
  "before_offset off ms = filter (\<lambda>m. m_offset m < off) ms"

lemma filter_sorted_take:
  assumes "sorted_wrt (<) (map m_offset ms)"
  shows "before_offset off ms @ from_offset off ms = ms"
  using assms
proof (induction ms)
  case (Cons m ms)
  show ?case
  proof (cases "m_offset m < off")
    case True
    with Cons show ?thesis by (simp add: before_offset_def from_offset_def)
  next
    case False
    with Cons.prems have "\<forall>x \<in> set (m # ms). off \<le> m_offset x" by force
    then have "before_offset off (m # ms) = []" "from_offset off (m # ms) = m # ms"
      by (simp_all add: before_offset_def from_offset_def filter_empty_conv filter_id_conv not_less)
    then show ?thesis by simp
  qed
qed (simp add: before_offset_def from_offset_def)

lemma sorted_less: "sorted_wrt (<) (xs :: int list) \<Longrightarrow> sorted xs \<and> distinct xs"
  by (simp add: strict_sorted_iff)

text \<open>Consuming a run of records from a position moves the position past their last offset.\<close>

lemma before_after_run:
  assumes "sorted_wrt (<) (map m_offset ms)" "xs = take n (from_offset off ms)"
    and "off' = (if xs = [] then off else m_offset (last xs) + 1)"
  shows "before_offset off' ms = before_offset off ms @ xs"
proof (cases "xs = []")
  case True
  with assms(3) show ?thesis by simp
next
  case False
  let ?A = "before_offset off ms" and ?R = "drop n (from_offset off ms)"
  have ms: "ms = ?A @ xs @ ?R"
    using filter_sorted_take [OF assms(1), of off] assms(2) by simp
  then have sorted: "sorted_wrt (<) (map m_offset (?A @ xs @ ?R))" using assms(1) by simp
  have l: "m_offset m \<le> m_offset (last xs)" if "m \<in> set xs" for m
  proof -
    have "sorted (map m_offset xs)"
      using sorted by (simp add: sorted_wrt_append sorted_less)
    then have "sorted (map m_offset (butlast xs) @ [m_offset (last xs)])"
      using False by (metis append_butlast_last_id list.simps(8,9) map_append)
    moreover have "m = last xs \<or> m \<in> set (butlast xs)"
      using that False by (metis append_butlast_last_id in_set_conv_decomp rotate1.simps(2) set_ConsD set_rotate1)
    ultimately show ?thesis by (auto simp: sorted_append)
  qed
  have off': "off' = m_offset (last xs) + 1" using assms(3) False by simp
  have last: "last xs \<in> set xs" using False by simp
  have "m_offset m < m_offset (last xs)" if "m \<in> set ?A" for m
    using sorted that last by (simp add: sorted_wrt_append)
  then have "\<forall>m \<in> set ?A. m_offset m < off'" using off' by force
  moreover have "\<forall>m \<in> set xs. m_offset m < off'" using l off' by force
  moreover have "m_offset (last xs) < m_offset m" if "m \<in> set ?R" for m
    using sorted that last by (simp add: sorted_wrt_append)
  then have "\<forall>m \<in> set ?R. \<not> m_offset m < off'" using off' by force
  ultimately have "filter (\<lambda>m. m_offset m < off') ?A = ?A" "filter (\<lambda>m. m_offset m < off') xs = xs"
    "filter (\<lambda>m. m_offset m < off') ?R = []"
    by (auto intro!: filter_True filter_False)
  then have "before_offset off' (?A @ xs @ ?R) = ?A @ xs"
    unfolding before_offset_def [of off'] by (simp only: filter_append append_Nil2)
  with ms show ?thesis by simp
qed

lemma fold_max_last:
  assumes "sorted_wrt (<) (xs :: int list)" "xs \<noteq> []" "\<forall>x \<in> set xs. a \<le> x"
  shows "fold max xs a = last xs"
  using assms
proof (induction xs arbitrary: a)
  case (Cons x xs)
  then have "max x a = x" by simp
  with Cons show ?case by (cases "xs = []") (auto simp: less_imp_le)
qed simp

lemma sorted_take_from:
  assumes "sorted_wrt (<) (map m_offset ms)"
  shows "sorted_wrt (<) (map m_offset (take n (from_offset off ms)))"
  using assms by (simp add: from_offset_def take_map [symmetric] sorted_wrt_map sorted_wrt_filter sorted_wrt_take)

section \<open>Several partitions\<close>

text \<open>The records of a partition among the messages of a batch.\<close>

definition tp_records :: "string \<times> int \<Rightarrow> msg list \<Rightarrow> msg list" where
  "tp_records tp ms = filter (\<lambda>m. is_record m \<and> (m_topic m, m_partition m) = tp) ms"

lemma tp_records_simps [simp]:
  "tp_records tp [] = []"
  "tp_records tp (m # ms) =
     (if is_record m \<and> (m_topic m, m_partition m) = tp then m # tp_records tp ms else tp_records tp ms)"
  by (simp_all add: tp_records_def)

lemma tp_records_append: "tp_records tp (xs @ ys) = tp_records tp xs @ tp_records tp ys"
  by (simp add: tp_records_def)

text \<open>
  What a poll can hand over: of each assigned partition the next records from its position, in
  order, beside messages that carry an error; and the position after it.
\<close>

definition deliverable :: "(string \<times> int \<Rightarrow> msg list) \<Rightarrow> (string \<times> int) list
    \<Rightarrow> (string \<times> int \<Rightarrow> int) \<Rightarrow> msg list \<Rightarrow> bool" where
  "deliverable input parts pos msgs \<longleftrightarrow>
     list_all (\<lambda>m. is_record m \<longrightarrow> (m_topic m, m_partition m) \<in> set parts) msgs
     \<and> list_all (\<lambda>tp. tp_records tp msgs =
         take (length (tp_records tp msgs)) (from_offset (pos tp) (input tp))) parts"

definition advance_pos :: "(string \<times> int \<Rightarrow> int) \<Rightarrow> msg list \<Rightarrow> string \<times> int \<Rightarrow> int" where
  "advance_pos pos msgs tp =
     (if tp_records tp msgs = [] then pos tp else m_offset (last (tp_records tp msgs)) + 1)"

text \<open>What Kafka guarantees of the content of the partitions.\<close>

definition partitions_ok :: "(string \<times> int \<Rightarrow> msg list) \<Rightarrow> (string \<times> int) list \<Rightarrow> bool" where
  "partitions_ok input parts \<longleftrightarrow>
     distinct parts
     \<and> list_all (\<lambda>tp. sorted_wrt (<) (map m_offset (input tp))
         \<and> list_all (\<lambda>m. is_record m \<and> (m_topic m, m_partition m) = tp \<and> 0 \<le> m_offset m) (input tp)) parts"

lemma partitions_okD:
  assumes "partitions_ok input parts" "tp \<in> set parts"
  shows "sorted_wrt (<) (map m_offset (input tp))"
    "m \<in> set (input tp) \<Longrightarrow> is_record m \<and> (m_topic m, m_partition m) = tp \<and> 0 \<le> m_offset m"
  using assms by (auto simp: partitions_ok_def list_all_iff)

lemma nothing_before:
  assumes "partitions_ok input parts" "tp \<in> set parts" "off \<le> 0"
  shows "before_offset off (input tp) = []"
  using assms(3) partitions_okD(2) [OF assms(1,2)] by (force simp: before_offset_def filter_empty_conv)

text \<open>A delivered run, its last offset and the stored offset after it.\<close>

lemma run_of_partition:
  assumes "partitions_ok input parts" "tp \<in> set parts" "deliverable input parts pos msgs"
    and "before_offset (pos tp) (input tp) = before_offset (off + 1) (input tp)"
  defines "xs \<equiv> tp_records tp msgs"
  shows "before_offset (advance_pos pos msgs tp) (input tp) = before_offset (off + 1) (input tp) @ xs"
    and "xs \<noteq> [] \<Longrightarrow> fold max (map m_offset xs) (-1) = m_offset (last xs)"
    and "xs \<noteq> [] \<Longrightarrow> off < m_offset (last xs)"
proof -
  note sorted = partitions_okD(1) [OF assms(1,2)]
  have xs: "xs = take (length xs) (from_offset (pos tp) (input tp))"
    using assms(2,3) unfolding xs_def deliverable_def list_all_iff by blast
  show "before_offset (advance_pos pos msgs tp) (input tp) = before_offset (off + 1) (input tp) @ xs"
    unfolding advance_pos_def xs_def [symmetric] using before_after_run [OF sorted xs refl] assms(4) by simp
  have mem: "m \<in> set (input tp) \<and> pos tp \<le> m_offset m" if "m \<in> set xs" for m
    using that xs in_set_takeD [of m "length xs" "from_offset (pos tp) (input tp)"]
    by (simp add: from_offset_def)
  {
    assume ne: "xs \<noteq> []"
    have "sorted_wrt (<) (map m_offset xs)"
      using sorted_take_from [OF sorted, of "length xs" "pos tp"] xs by simp
    moreover have "\<forall>x \<in> set (map m_offset xs). -1 \<le> x"
      using mem partitions_okD(2) [OF assms(1,2)] by force
    ultimately show "fold max (map m_offset xs) (-1) = m_offset (last xs)"
      using ne fold_max_last [of "map m_offset xs" "-1"] by (simp add: last_map)
    from mem [OF last_in_set [OF ne]] have "last xs \<notin> set (before_offset (pos tp) (input tp))"
      "last xs \<in> set (input tp)"
      by (auto simp: before_offset_def)
    with assms(4) show "off < m_offset (last xs)"
      by (auto simp: before_offset_def)
  }
qed

end
