(* ===== verification/Sessionizer_Batch.thy ===== *)
theory Sessionizer_Batch
  imports Sessionizer Partition_Log
begin

text \<open>
  What one batch of the sessionizer does. The denotation of a message is
  \<open>clean_of\<close> (the ride and normalised event it carries) or \<open>poison_of\<close> (the
  deserialisation error); the lemmas describe the message loop, the closes and the
  transaction by these, and the abort path by what it leaves of the durable state.
\<close>

section \<open>The denotation of messages\<close>

definition clean_of :: "codec \<Rightarrow> msg \<Rightarrow> (string \<times> payload) option" where
  "clean_of cd m =
     (if m_error m \<noteq> None then None
      else case rbind (deserialize cd (m_topic m) (m_value m)) (normalise cd) of
        Inr (v, _, r) \<Rightarrow> Some (r, v) | Inl _ \<Rightarrow> None)"

definition poison_of :: "codec \<Rightarrow> msg \<Rightarrow> exn option" where
  "poison_of cd m =
     (if m_error m \<noteq> None then None
      else case deserialize cd (m_topic m) (m_value m) of Inl e \<Rightarrow> Some e | Inr _ \<Rightarrow> None)"

definition clean_events :: "codec \<Rightarrow> msg list \<Rightarrow> (string \<times> payload) list" where
  "clean_events cd ms = List.map_filter (clean_of cd) ms"

definition ride_events :: "codec \<Rightarrow> string \<Rightarrow> msg list \<Rightarrow> payload list" where
  "ride_events cd r ms = map snd (filter (\<lambda>x. fst x = r) (clean_events cd ms))"

definition dead_letters :: "codec \<Rightarrow> SessionizerConfig \<Rightarrow> msg list \<Rightarrow> Envelope list" where
  "dead_letters cd cfg ms = List.map_filter (\<lambda>m.
     map_option (\<lambda>e. build_envelope (clock cd m) m e (cfg_group_id cfg)) (poison_of cd m)) ms"

definition part_offsets :: "msg list \<Rightarrow> int \<Rightarrow> int list" where
  "part_offsets ms p = map m_offset (filter (\<lambda>m. is_record m \<and> m_partition m = p) ms)"

definition acc_of :: "szr \<Rightarrow> string \<Rightarrow> acc" where
  "acc_of s r = (case map_of (sz_accs s) r of None \<Rightarrow> new_acc r | Some a \<Rightarrow> a)"

lemma map_filter_simps' [simp]:
  "List.map_filter f [] = []"
  "List.map_filter f (x # xs) = (case f x of None \<Rightarrow> List.map_filter f xs | Some y \<Rightarrow> y # List.map_filter f xs)"
  "List.map_filter f (xs @ ys) = List.map_filter f xs @ List.map_filter f ys"
  by (simp_all add: List.map_filter_def split: option.split)

lemma clean_events_append [simp]: "clean_events cd (xs @ ys) = clean_events cd xs @ clean_events cd ys"
  by (simp add: clean_events_def)

lemma ride_events_append: "ride_events cd r (xs @ ys) = ride_events cd r xs @ ride_events cd r ys"
  by (simp add: ride_events_def)

lemma part_offsets_append: "part_offsets (xs @ ys) p = part_offsets xs p @ part_offsets ys p"
  by (simp add: part_offsets_def)

lemma part_offsets_snoc:
  "part_offsets (xs @ [m]) p =
     part_offsets xs p @ (if is_record m \<and> m_partition m = p then [m_offset m] else [])"
  by (simp add: part_offsets_def)

section \<open>One message\<close>

lemma track_offset_simps [simp]:
  "b_journal (track_offset m b) = b_journal b" "b_clean (track_offset m b) = b_clean b"
  "b_poisons (track_offset m b) = b_poisons b"
  by (simp_all add: track_offset_def)

lemma touch_partition_simps [simp]:
  "sz_store (touch_partition f p s) = sz_store s" "sz_log (touch_partition f p s) = sz_log s"
  "sz_accs (touch_partition f p s) = sz_accs s"
  "sz_acc_partition (touch_partition f p s) = sz_acc_partition s"
  "sz_emitted (touch_partition f p s) = sz_emitted s"
  by (simp_all add: touch_partition_def)

lemma open_acc_eq:
  "fst (open_acc r p s) = acc_of s r"
  "sz_store (snd (open_acc r p s)) = sz_store s" "sz_log (snd (open_acc r p s)) = sz_log s"
  "map_of (sz_accs (snd (open_acc r p s))) = (map_of (sz_accs s))(r \<mapsto> acc_of s r)"
  "map_of (sz_acc_partition (snd (open_acc r p s))) =
     (if map_of (sz_accs s) r = None then (map_of (sz_acc_partition s))(r \<mapsto> p)
      else map_of (sz_acc_partition s))"
  "dict_ok (sz_accs s) \<Longrightarrow> dict_ok (sz_accs (snd (open_acc r p s)))"
  "sz_partitions (snd (open_acc r p s)) = sz_partitions s"
  by (auto simp: open_acc_def acc_of_def fun_eq_iff dict_update_ok split: option.splits)

text \<open>The ways a message can be handled without an exception.\<close>

lemma handle_msg_Ret:
  assumes "handle_msg cd cfg m (b, s) = (Ret (), b', s')"
  obtains
    (skip) "m_error m = Some PARTITION_EOF" "clean_of cd m = None" "poison_of cd m = None"
      "b' = b" "s' = s"
  | (poison) e where "is_record m" "clean_of cd m = None" "poison_of cd m = Some e"
      "b' = (track_offset m b)\<lparr>b_poisons := b_poisons b @ [build_envelope (clock cd m) m e (cfg_group_id cfg)]\<rparr>"
      "s' = (touch_partition id (m_partition m) s)\<lparr>sz_poison := sz_poison s + 1\<rparr>"
  | (closed) r v where "is_record m" "clean_of cd m = Some (r, v)" "poison_of cd m = None"
      "is_closed (sz_store s) r" "b' = (track_offset m b)\<lparr>b_clean := b_clean b @ [v]\<rparr>"
      "sz_accs s' = sz_accs s" "sz_acc_partition s' = sz_acc_partition s" "sz_store s' = sz_store s"
      "sz_log s' = sz_log s" "insert (m_partition m) (fst ` set (sz_partitions s)) \<subseteq> fst ` set (sz_partitions s')"
  | (event) r v a where "is_record m" "clean_of cd m = Some (r, v)" "poison_of cd m = None"
      "\<not> is_closed (sz_store s) r" "add_event (acc_of s r) v = Inr a"
      "b' = (track_offset m b)\<lparr>b_clean := b_clean b @ [v], b_journal := b_journal b @
         [\<lparr>jr_partition = m_partition m, jr_offset = m_offset m, jr_ride_id = r, jr_value = v\<rparr>]\<rparr>"
      "map_of (sz_accs s') = (map_of (sz_accs s))(r \<mapsto> a)"
      "map_of (sz_acc_partition s') = (if map_of (sz_accs s) r = None
         then (map_of (sz_acc_partition s))(r \<mapsto> m_partition m) else map_of (sz_acc_partition s))"
      "dict_ok (sz_accs s) \<Longrightarrow> dict_ok (sz_accs s')" "sz_store s' = sz_store s" "sz_log s' = sz_log s"
      "insert (m_partition m) (fst ` set (sz_partitions s)) \<subseteq> fst ` set (sz_partitions s')"
proof (cases "m_error m")
  case None
  then have rec: "is_record m" by (simp add: is_record_def)
  let ?s = "touch_partition id (m_partition m) s"
  show thesis
  proof (cases "deserialize cd (m_topic m) (m_value m)")
    case (Inl e)
    show thesis
      by (rule poison [OF rec]) (use assms None Inl in \<open>auto simp: handle_msg_def clean_of_def poison_of_def Let_def touch_partition_def\<close>)
  next
    case (Inr raw)
    then obtain v ms r where n: "normalise cd raw = Inr (v, ms, r)"
      using assms None by (auto simp: handle_msg_def Let_def split: sum.splits)
    have c: "clean_of cd m = Some (r, v)" and p: "poison_of cd m = None"
      using None Inr n by (simp_all add: clean_of_def poison_of_def)
    let ?t = "touch_partition (\<lambda>p. p\<lparr>watermark_ms := max (watermark_ms p) ms\<rparr>) (m_partition m) ?s"
    have acc: "acc_of ?t r = acc_of s r" by (simp add: acc_of_def)
    have parts: "insert (m_partition m) (fst ` set (sz_partitions s)) \<subseteq> fst ` set (sz_partitions ?t)"
      by (auto simp: touch_partition_def upd_default_def dict_keys_update)
    show thesis
    proof (cases "is_closed (sz_store s) r")
      case True
      with assms None Inr n have "b' = (track_offset m b)\<lparr>b_clean := b_clean b @ [v]\<rparr>" "s' = ?t"
        by (auto simp: handle_msg_def Let_def handle_event_def)
      with closed [OF rec c p True] parts show thesis by simp
    next
      case False
      let ?o = "open_acc r (m_partition m) ?t"
      from assms None Inr n False obtain a where
        a: "add_event (fst ?o) v = Inr a"
        and b': "b' = (track_offset m b)\<lparr>b_clean := b_clean b @ [v], b_journal := b_journal b @
         [\<lparr>jr_partition = m_partition m, jr_offset = m_offset m, jr_ride_id = r, jr_value = v\<rparr>]\<rparr>"
        and s': "s' = (snd ?o)\<lparr>sz_accs := AList.update r a (sz_accs (snd ?o))\<rparr>"
        by (auto simp: handle_msg_def Let_def handle_event_def case_prod_unfold split: sum.splits)
      show thesis
        by (rule event [OF rec c p False _ b'])
          (use a parts in \<open>auto simp: s' open_acc_eq acc fun_eq_iff dict_update_ok\<close>)
    qed
  qed
next
  case (Some e)
  with assms have "e = PARTITION_EOF" by (cases e) (simp_all add: handle_msg_def)
  with Some assms show thesis
    by (intro skip) (auto simp: handle_msg_def clean_of_def poison_of_def)
qed

lemma handle_msgs_snoc:
  "handle_msgs cd cfg (ms @ [m]) bs =
     (case handle_msgs cd cfg ms bs of (Ret _, bs') \<Rightarrow> handle_msg cd cfg m bs' | r \<Rightarrow> r)"
proof (induction ms arbitrary: bs)
  case Nil
  then show ?case by (auto split: prod.split out.split)
next
  case (Cons x xs)
  then show ?case by (auto split: prod.split out.split)
qed

section \<open>The message loop\<close>

lemma handle_msgs_induct [consumes 1, case_names start step]:
  assumes "handle_msgs cd cfg ms bs = (Ret (), b, s)"
    and "P [] (fst bs) (snd bs)"
    and "\<And>ms m b s b' s'. handle_msgs cd cfg ms bs = (Ret (), b, s) \<Longrightarrow> P ms b s
      \<Longrightarrow> handle_msg cd cfg m (b, s) = (Ret (), b', s') \<Longrightarrow> P (ms @ [m]) b' s'"
  shows "P ms b s"
  using assms(1)
proof (induction ms arbitrary: b s rule: rev_induct)
  case Nil
  with assms(2) show ?case by auto
next
  case (snoc m ms)
  from snoc.prems obtain b1 s1 where "handle_msgs cd cfg ms bs = (Ret (), b1, s1)"
    "handle_msg cd cfg m (b1, s1) = (Ret (), b, s)"
    by (auto simp: handle_msgs_snoc split: prod.splits out.splits)
  with snoc.IH assms(3) show ?case by blast
qed

definition journal_rows :: "codec \<Rightarrow> StateStore \<Rightarrow> msg list \<Rightarrow> JournalRow list" where
  "journal_rows cd st ms = List.map_filter (\<lambda>m.
     case clean_of cd m of
       Some (r, v) \<Rightarrow> if is_closed st r then None
         else Some \<lparr>jr_partition = m_partition m, jr_offset = m_offset m, jr_ride_id = r, jr_value = v\<rparr>
     | None \<Rightarrow> None) ms"

lemma loop_durable:
  assumes "handle_msgs cd cfg ms (new_batch, s0) = (Ret (), b, s)"
  shows "sz_store s = sz_store s0 \<and> sz_log s = sz_log s0"
  using assms
proof (induction rule: handle_msgs_induct)
  case (step ms m b s b' s')
  from step(2) show ?case by (cases rule: handle_msg_Ret) (use step(3) in auto)
qed simp

lemma loop_lists:
  assumes "handle_msgs cd cfg ms (new_batch, s0) = (Ret (), b, s)"
  shows "b_clean b = map snd (clean_events cd ms) \<and> b_poisons b = dead_letters cd cfg ms
    \<and> b_journal b = journal_rows cd (sz_store s0) ms"
  using assms
proof (induction rule: handle_msgs_induct)
  case start
  show ?case by (simp add: new_batch_def clean_events_def dead_letters_def journal_rows_def)
next
  case (step ms m b s b' s')
  have st: "sz_store s = sz_store s0" using loop_durable [OF step(1)] ..
  note defs = clean_events_def dead_letters_def journal_rows_def
  from step(2) show ?case
  proof (cases rule: handle_msg_Ret)
    case skip with step(3) show ?thesis by (simp add: defs)
  next
    case (poison e) with step(3) show ?thesis by (simp add: defs)
  next
    case (closed r v) with step(3) st show ?thesis by (simp add: defs)
  next
    case (event r v a) with step(3) st show ?thesis by (simp add: defs)
  qed
qed

definition top_offset :: "msg list \<Rightarrow> int \<Rightarrow> int" where
  "top_offset ms p = fold max (part_offsets ms p) (-1)"

lemma track_offset_state:
  "map_of (b_state (track_offset m b)) p =
     (if p = m_partition m then
        Some (let q = (case map_of (b_state b) p of None \<Rightarrow> new_pstate | Some w \<Rightarrow> w)
              in q\<lparr>max_offset_in_batch := max (max_offset_in_batch q) (m_offset m)\<rparr>)
      else map_of (b_state b) p)"
  "dict_ok (b_state b) \<Longrightarrow> dict_ok (b_state (track_offset m b))"
  by (auto simp: track_offset_def upd_default_def dict_update_ok Let_def)

lemma loop_state:
  assumes "handle_msgs cd cfg ms (new_batch, s0) = (Ret (), b, s)"
  shows "dict_ok (b_state b) \<and> (\<forall>p. map_of (b_state b) p =
    (if part_offsets ms p = [] then None
     else Some \<lparr>watermark_ms = 0, max_offset_in_batch = top_offset ms p\<rparr>))"
  using assms
proof (induction rule: handle_msgs_induct)
  case start
  show ?case by (simp add: new_batch_def part_offsets_def)
next
  case (step ms m b s b' s')
  have rec: "?case" if r: "is_record m" and b': "b_state b' = b_state (track_offset m b)"
  proof -
    have "map_of (b_state (track_offset m b)) p =
      (if part_offsets (ms @ [m]) p = [] then None
       else Some \<lparr>watermark_ms = 0, max_offset_in_batch = top_offset (ms @ [m]) p\<rparr>)" for p
      unfolding track_offset_state(1) part_offsets_snoc top_offset_def using step(3) r
      by (auto simp: new_pstate_def Let_def top_offset_def max.commute split: if_splits option.splits)
    with step(3) b' track_offset_state(2) show ?thesis by simp
  qed
  from step(2) show ?case
  proof (cases rule: handle_msg_Ret)
    case skip
    then have "\<not> is_record m" by (simp add: is_record_def)
    with skip step(3) show ?thesis by (simp add: part_offsets_snoc top_offset_def)
  qed (use rec in simp_all)
qed

lemma add_events_snoc:
  "add_events a vs = Inr a1 \<Longrightarrow> add_event a1 v = Inr a2 \<Longrightarrow> add_events a (vs @ [v]) = Inr a2"
  by (simp add: add_events_append)

lemma ride_events_snoc:
  "ride_events cd r (ms @ [m]) = ride_events cd r ms @
     (case clean_of cd m of Some (r', v) \<Rightarrow> if r' = r then [v] else [] | None \<Rightarrow> [])"
  by (simp add: ride_events_def clean_events_def split: option.split)

lemma loop_accs_ok:
  assumes "handle_msgs cd cfg ms (new_batch, s0) = (Ret (), b, s)" "dict_ok (sz_accs s0)"
  shows "dict_ok (sz_accs s)"
  using assms(1)
proof (induction rule: handle_msgs_induct)
  case (step ms m b s b' s')
  from step(2) show ?case by (cases rule: handle_msg_Ret) (use step(3) in auto)
qed (use assms(2) in simp)

lemma loop_accs:
  assumes "handle_msgs cd cfg ms (new_batch, s0) = (Ret (), b, s)"
  shows "(\<forall>r.
    if is_closed (sz_store s0) r \<or> ride_events cd r ms = [] then map_of (sz_accs s) r = map_of (sz_accs s0) r
    else \<exists>a. map_of (sz_accs s) r = Some a \<and> add_events (acc_of s0 r) (ride_events cd r ms) = Inr a)"
  using assms
proof (induction rule: handle_msgs_induct)
  case start
  show ?case by (simp add: ride_events_def clean_events_def)
next
  case (step ms m b s b' s')
  have st: "sz_store s = sz_store s0" using loop_durable [OF step(1)] ..
  from step(2) show ?case
  proof (cases rule: handle_msg_Ret)
    case skip with step(3) show ?thesis by (simp add: ride_events_snoc)
  next
    case (poison e) with step(3) show ?thesis by (simp add: ride_events_snoc)
  next
    case (closed r v)
    with step(3) st show ?thesis by (auto simp: ride_events_snoc)
  next
    case (event r v a)
    have "add_events (acc_of s0 r) (ride_events cd r ms @ [v]) = Inr a"
    proof (cases "ride_events cd r ms = []")
      case True
      with step(3) have "map_of (sz_accs s) r = map_of (sz_accs s0) r" by presburger
      with True event(5) show ?thesis by (simp add: acc_of_def)
    next
      case False
      with step(3) event(4) st obtain a1 where "map_of (sz_accs s) r = Some a1"
        "add_events (acc_of s0 r) (ride_events cd r ms) = Inr a1" by metis
      with event(5) show ?thesis by (intro add_events_snoc) (simp_all add: acc_of_def)
    qed
    with event step(3) st show ?thesis by (auto simp: ride_events_snoc)
  qed
qed

lemma loop_parts:
  assumes "handle_msgs cd cfg ms (new_batch, s0) = (Ret (), b, s)"
    and "\<forall>m \<in> set ms. \<forall>r v. clean_of cd m = Some (r, v) \<longrightarrow> m_partition m = ride_part r"
  shows "map_of (sz_acc_partition s) r =
    (if map_of (sz_accs s0) r = None \<and> map_of (sz_accs s) r \<noteq> None then Some (ride_part r)
     else map_of (sz_acc_partition s0) r)
    \<and> (map_of (sz_accs s0) r \<noteq> None \<longrightarrow> map_of (sz_accs s) r \<noteq> None)"
  using assms
proof (induction arbitrary: r rule: handle_msgs_induct)
  case (step ms m b s b' s')
  from step(2) show ?case
  proof (cases rule: handle_msg_Ret)
    case skip with step show ?thesis by simp
  next
    case (poison e) with step show ?thesis by simp
  next
    case (closed r' v)
    with step show ?thesis by simp
  next
    case (event r' v a)
    from step(4) event(2) have "m_partition m = ride_part r'" by simp
    with event step(3) [of r] step(4) show ?thesis by auto
  qed
next
  case (start r)
  show ?case by (cases "map_of (sz_accs s0) r") simp_all
qed

lemma loop_partitions:
  assumes "handle_msgs cd cfg ms (new_batch, s0) = (Ret (), b, s)"
  shows "fst ` set (sz_partitions s0) \<union> {p. part_offsets ms p \<noteq> []} \<subseteq> fst ` set (sz_partitions s)"
  using assms
proof (induction rule: handle_msgs_induct)
  case start
  show ?case by (simp add: part_offsets_def)
next
  case (step ms m b s b' s')
  have rec: "?case" if "is_record m"
    "insert (m_partition m) (fst ` set (sz_partitions s)) \<subseteq> fst ` set (sz_partitions s')"
  proof -
    have "{p. part_offsets (ms @ [m]) p \<noteq> []} = insert (m_partition m) {p. part_offsets ms p \<noteq> []}"
      using that(1) by (auto simp: part_offsets_snoc)
    with that(2) step(3) show ?thesis by (simp only:) blast
  qed
  from step(2) show ?case
  proof (cases rule: handle_msg_Ret)
    case skip
    then have "\<not> is_record m" by (simp add: is_record_def)
    with skip step(3) show ?thesis by (simp add: part_offsets_snoc)
  next
    case (poison e)
    then show ?thesis
      by (intro rec) (auto simp: touch_partition_def upd_default_def dict_keys_update)
  qed (use rec in simp_all)
qed

end
