(* ===== verification/Sessionizer_Tx.thy ===== *)
theory Sessionizer_Tx
  imports Sessionizer_Batch
begin

text \<open>
  The closes of a batch, its Kafka transaction and its abort path: what a batch that returns
  has appended to the store and to the log, and what is left of one that raises or dies.
\<close>

section \<open>Closes\<close>

lemma collect_closes_Cons:
  assumes "collect_closes cfg bst s ((r, a) # rest) = Inr cs"
  obtains (elsewhere) p where "map_of (sz_acc_partition s) r = Some p" "map_of bst p = None"
      "collect_closes cfg bst s rest = Inr cs"
  | (stays) "terminal a = None" "collect_closes cfg bst s rest = Inr cs"
  | (closes) p st pst session cs' where "map_of (sz_acc_partition s) r = Some p" "map_of bst p = Some st"
      "map_of (sz_partitions s) p = Some pst"
      "terminal a \<noteq> None \<or> timed_out a (watermark_ms pst) (cfg_session_timeout_ms cfg)"
      "build_session a (terminal a = None) = Inr session" "collect_closes cfg bst s rest = Inr cs'"
      "cs = \<lparr>cr_ride_id = r, cr_partition = p, cr_offset = max_offset_in_batch st,
             cr_session = session\<rparr> # cs'"
  using assms by (auto simp: rbind_eq_Inr split: option.splits if_splits)

lemma collect_closes_from:
  assumes "collect_closes cfg bst s accs = Inr cs" "c \<in> set cs"
  shows "\<exists>a st pst. (cr_ride_id c, a) \<in> set accs
    \<and> map_of (sz_acc_partition s) (cr_ride_id c) = Some (cr_partition c)
    \<and> map_of bst (cr_partition c) = Some st \<and> cr_offset c = max_offset_in_batch st
    \<and> map_of (sz_partitions s) (cr_partition c) = Some pst
    \<and> (terminal a \<noteq> None \<or> timed_out a (watermark_ms pst) (cfg_session_timeout_ms cfg))
    \<and> build_session a (terminal a = None) = Inr (cr_session c)"
  using assms
proof (induction accs arbitrary: cs)
  case (Cons x accs)
  obtain r a where x: "x = (r, a)" by fastforce
  from Cons.prems(1) [unfolded x] show ?case
  proof (cases rule: collect_closes_Cons)
    case (elsewhere p)
    with Cons.IH [OF elsewhere(3) Cons.prems(2)] show ?thesis by (meson list.set_intros(2))
  next
    case stays
    with Cons.IH [OF stays(2) Cons.prems(2)] show ?thesis by (meson list.set_intros(2))
  next
    case (closes p st pst session cs')
    show ?thesis
    proof (cases "c \<in> set cs'")
      case True
      from Cons.IH [OF closes(6) True] show ?thesis by (meson list.set_intros(2))
    next
      case False
      with closes(7) Cons.prems(2)
      have c: "c = \<lparr>cr_ride_id = r, cr_partition = p, cr_offset = max_offset_in_batch st,
             cr_session = session\<rparr>" by simp
      show ?thesis
        by (rule exI [of _ a], rule exI [of _ st], rule exI [of _ pst]) (use closes c x in simp)
    qed
  qed
qed simp

lemma collect_closes_rides:
  assumes "collect_closes cfg bst s accs = Inr cs"
  shows "cr_ride_id ` set cs \<subseteq> fst ` set accs"
proof
  fix r assume "r \<in> cr_ride_id ` set cs"
  then obtain c where "c \<in> set cs" "r = cr_ride_id c" by blast
  with collect_closes_from [OF assms] show "r \<in> fst ` set accs" by force
qed

lemma collect_closes_distinct:
  assumes "collect_closes cfg bst s accs = Inr cs" "dict_ok accs"
  shows "distinct (map cr_ride_id cs)"
  using assms
proof (induction accs arbitrary: cs)
  case (Cons x accs)
  obtain r a where x: "x = (r, a)" by fastforce
  from Cons.prems(1) [unfolded x] show ?case
  proof (cases rule: collect_closes_Cons)
    case (closes p st pst session cs')
    with Cons.IH [OF closes(6)] Cons.prems(2) collect_closes_rides [OF closes(6)] x show ?thesis by auto
  qed (use Cons in auto)
qed simp

text \<open>Every terminal ride of a partition with new input is closed.\<close>

lemma collect_closes_all:
  assumes "collect_closes cfg bst s accs = Inr cs" "(r, a) \<in> set accs" "terminal a \<noteq> None"
    and "map_of (sz_acc_partition s) r = Some p" "map_of bst p \<noteq> None"
  shows "r \<in> cr_ride_id ` set cs"
  using assms(1,2)
proof (induction accs arbitrary: cs)
  case (Cons x accs)
  obtain r' a' where x: "x = (r', a')" by fastforce
  from Cons.prems(1) [unfolded x] show ?case
  proof (cases rule: collect_closes_Cons)
    case (elsewhere p')
    with Cons.prems(2) assms(4,5) x have "(r, a) \<in> set accs" by auto
    with Cons.IH elsewhere(3) show ?thesis by blast
  next
    case stays
    with Cons.prems(2) assms(3) x have "(r, a) \<in> set accs" by auto
    with Cons.IH stays(2) show ?thesis by blast
  next
    case (closes p' st pst session cs')
    with Cons.IH [OF closes(6)] Cons.prems(2) x show ?thesis by auto
  qed
qed simp

section \<open>The transaction\<close>

definition tx_ops :: "krecord list \<Rightarrow> batch \<Rightarrow> kop list" where
  "tx_ops recs b = map (\<lambda>(t, k, v). KProduce t k v) recs @ [KSendOffsets (tx_offsets (b_state b))]"

lemma tx_ops_body: "list_all tx_body_op (tx_ops recs b)"
  by (auto simp: tx_ops_def list_all_iff)

lemma and_then_simps [simp]: "and_then (Ret (), s) k = k s"
  by (simp add: and_then_def)

lemma and_then_stop: "r \<noteq> Ret () \<Longrightarrow> and_then (r, s) k = (r, s)"
  by (auto simp: and_then_def split: out.splits)

lemma kdo_cases:
  assumes "kdo fault call op s = (r, s')"
  obtains (ok) "r = Ret ()" "s' = s\<lparr>sz_log := sz_log s @ [op]\<rparr>"
  | (fail) ops where "r \<noteq> Ret ()" "s' = s\<lparr>sz_log := sz_log s @ ops\<rparr>" "KCommit \<notin> set ops"
proof (cases "fault call")
  case None
  with assms have "r = Ret () \<and> s' = s\<lparr>sz_log := sz_log s @ [op]\<rparr>" by (simp add: kdo_def)
  then show thesis by (intro ok) simp_all
next
  case (Some f)
  show thesis
  proof (cases f)
    case (FRaise e)
    with Some assms have r: "r = Raise e"
      and s': "s' = (if op = KCommit then s\<lparr>sz_log := sz_log s @ [KCommitFailed]\<rparr> else s)"
      by (simp_all add: kdo_def)
    show thesis
      by (rule fail [of "if op = KCommit then [KCommitFailed] else []"]) (simp_all add: r s')
  next
    case FDie
    with Some assms have "r = Die" "s' = s" by (simp_all add: kdo_def)
    then show thesis by (intro fail [of "[]"]) simp_all
  qed
qed

lemma produce_all_cases:
  assumes "produce_all fault n rs s = (r, s')"
  shows "(\<exists>recs. r = Ret () \<and> rs = map Inr recs
      \<and> s' = s\<lparr>sz_log := sz_log s @ map (\<lambda>(t, k, v). KProduce t k v) recs\<rparr>)
    \<or> (\<exists>ops. r \<noteq> Ret () \<and> s' = s\<lparr>sz_log := sz_log s @ ops\<rparr> \<and> KCommit \<notin> set ops)"
  using assms
proof (induction fault n rs s arbitrary: r s' rule: produce_all.induct)
  case (1 fault n s)
  then show ?case by auto
next
  case (2 fault n e rs s)
  then have "r \<noteq> Ret () \<and> s' = s\<lparr>sz_log := sz_log s @ []\<rparr>" by auto
  then show ?case by (metis empty_iff empty_set)
next
  case (3 fault n t k v rs s)
  obtain r1 s1 where k1: "kdo fault (CProduce n) (KProduce t k v) s = (r1, s1)" by fastforce
  from k1 show ?case
  proof (cases rule: kdo_cases)
    case ok
    with "3.prems" k1 have rest: "produce_all fault (n + 1) rs s1 = (r, s')"
      by (simp add: and_then_def)
    from "3.IH" [OF rest] show ?thesis
    proof (elim disjE exE conjE)
      fix recs
      assume "r = Ret ()" "rs = map Inr recs"
        "s' = s1\<lparr>sz_log := sz_log s1 @ map (\<lambda>(t, k, v). KProduce t k v) recs\<rparr>"
      with ok show ?thesis by (intro disjI1 exI [of _ "(t, k, v) # recs"]) auto
    next
      fix ops
      assume "r \<noteq> Ret ()" "s' = s1\<lparr>sz_log := sz_log s1 @ ops\<rparr>" "KCommit \<notin> set ops"
      with ok show ?thesis by (intro disjI2 exI [of _ "KProduce t k v # ops"]) auto
    qed
  next
    case (fail ops)
    with "3.prems" k1 have "r = r1" "s' = s1" by (simp_all add: and_then_stop)
    with fail show ?thesis by blast
  qed
qed

lemma and_then_Ret:
  "and_then x k = (Ret (), s') \<longleftrightarrow> (\<exists>s1. x = (Ret (), s1) \<and> k s1 = (Ret (), s'))"
  by (auto simp: and_then_def split: prod.splits out.splits)

text \<open>Either the whole transaction, or something uncommitted.\<close>

lemma tx_try_cases:
  assumes "and_then (kdo fault CBegin KBegin s) (\<lambda>s.
       and_then (produce_all fault 0 (tx_records cd sessions b) s) (\<lambda>s.
       and_then (kdo fault CSendOffsets (KSendOffsets (tx_offsets (b_state b))) s) (\<lambda>s.
         kdo fault CCommit KCommit s))) = (r, s')"
  shows "(\<exists>recs. r = Ret () \<and> tx_records cd sessions b = map Inr recs
      \<and> s' = s\<lparr>sz_log := sz_log s @ KBegin # tx_ops recs b @ [KCommit]\<rparr>)
    \<or> (\<exists>ops. r \<noteq> Ret () \<and> s' = s\<lparr>sz_log := sz_log s @ ops\<rparr> \<and> KCommit \<notin> set ops)"
proof -
  let ?fail = "\<exists>ops. r \<noteq> Ret () \<and> s' = s\<lparr>sz_log := sz_log s @ ops\<rparr> \<and> KCommit \<notin> set ops"
  obtain r1 s1 where k1: "kdo fault CBegin KBegin s = (r1, s1)" by fastforce
  from k1 show ?thesis
  proof (cases rule: kdo_cases)
    case (fail ops)
    with assms k1 have "r = r1" "s' = s1" by (simp_all add: and_then_stop)
    with fail show ?thesis by blast
  next
    case ok
    obtain r2 s2 where k2: "produce_all fault 0 (tx_records cd sessions b) s1 = (r2, s2)" by fastforce
    from produce_all_cases [OF k2] show ?thesis
    proof (elim disjE exE conjE)
      fix ops assume f: "r2 \<noteq> Ret ()" "s2 = s1\<lparr>sz_log := sz_log s1 @ ops\<rparr>" "KCommit \<notin> set ops"
      with assms k1 k2 ok have "r = r2" "s' = s2" by (simp_all add: and_then_stop)
      with f ok have ?fail by (intro exI [of _ "KBegin # ops"]) auto
      then show ?thesis ..
    next
      fix recs assume p: "r2 = Ret ()" "tx_records cd sessions b = map Inr recs"
        "s2 = s1\<lparr>sz_log := sz_log s1 @ map (\<lambda>(t, k, v). KProduce t k v) recs\<rparr>"
      let ?ps = "map (\<lambda>(t, k, v). KProduce t k v) recs"
      have ps: "KCommit \<notin> set ?ps" by auto
      obtain r3 s3 where k3: "kdo fault CSendOffsets (KSendOffsets (tx_offsets (b_state b))) s2 = (r3, s3)"
        by fastforce
      from k3 show ?thesis
      proof (cases rule: kdo_cases)
        case (fail ops)
        with assms k1 k2 k3 ok p have "r = r3" "s' = s3" by (simp_all add: and_then_stop)
        with fail ok p ps have ?fail by (intro exI [of _ "KBegin # ?ps @ ops"]) auto
        then show ?thesis ..
      next
        case ok3: ok
        from assms k1 k2 k3 ok ok3 p have k4: "kdo fault CCommit KCommit s3 = (r, s')"
          by (simp add: and_then_def)
        then show ?thesis
        proof (cases rule: kdo_cases)
          case (fail ops)
          with ok ok3 p ps have ?fail
            by (intro exI [of _ "KBegin # ?ps @ KSendOffsets (tx_offsets (b_state b)) # ops"]) auto
          then show ?thesis ..
        next
          case ok4: ok
          with ok ok3 p show ?thesis
            by (intro disjI1 exI [of _ recs]) (auto simp: tx_ops_def)
        qed
      qed
    qed
  qed
qed

section \<open>The abort path\<close>

lemma resume_uncommitted:
  "KCommit \<notin> set ops \<Longrightarrow> resume_offset (lg @ ops) t p = resume_offset lg t p"
  by (simp add: resume_offset_def committed_offset_visible offsets_log.visible_uncommitted)

definition rolled :: "klog \<Rightarrow> int list \<Rightarrow> StateStore \<Rightarrow> StateStore" where
  "rolled lg ps st = fold (\<lambda>p st. rollback_store p (resume_offset lg RIDES_EVENTS p) st) ps st"

lemma rolled_uncommitted: "KCommit \<notin> set ops \<Longrightarrow> rolled (lg @ ops) ps st = rolled lg ps st"
  by (simp add: rolled_def resume_uncommitted)

lemma rollback_batch_cases:
  assumes "rollback_batch fault bst s = (r, s')"
  shows "\<exists>ps. set ps \<subseteq> fst ` set bst \<and> s' = s\<lparr>sz_store := rolled (sz_log s) ps (sz_store s)\<rparr>
    \<and> (r = Ret () \<longrightarrow> ps = map fst (filter (\<lambda>(_, st). max_offset_in_batch st \<ge> 0) bst))"
  using assms
proof (induction bst arbitrary: s)
  case Nil
  then show ?case by (auto simp: rolled_def)
next
  case (Cons x bst)
  obtain p st where x: "x = (p, st)" by fastforce
  have stop: ?case if "r \<noteq> Ret ()" "s' = s"
    by (rule exI [of _ "[]"]) (use that in \<open>simp add: rolled_def\<close>)
  show ?case
  proof (cases "max_offset_in_batch st \<ge> 0")
    case False
    with Cons.prems x have "rollback_batch fault bst s = (r, s')" by simp
    from Cons.IH [OF this] False x show ?thesis by auto
  next
    case True
    show ?thesis
    proof (cases "fault (CCommitted p)")
      case (Some f)
      with True Cons.prems x have "r \<noteq> Ret () \<and> s' = s" by (cases f) auto
      then show ?thesis by (intro stop) simp_all
    next
      case None
      let ?s = "s\<lparr>sz_store := rollback_store p (resume_offset (sz_log s) RIDES_EVENTS p) (sz_store s)\<rparr>"
      from None True Cons.prems x have "rollback_batch fault bst ?s = (r, s')"
        by (simp add: rollback_store_def)
      from Cons.IH [OF this] obtain ps where "set ps \<subseteq> fst ` set bst"
        "s' = s\<lparr>sz_store := rolled (sz_log s) (p # ps) (sz_store s)\<rparr>"
        "r = Ret () \<longrightarrow> ps = map fst (filter (\<lambda>(_, st). max_offset_in_batch st \<ge> 0) bst)"
        by (auto simp: rolled_def)
      with True x show ?thesis by (intro exI [of _ "p # ps"]) auto
    qed
  qed
qed

lemma transact_cases:
  assumes "transact fault cd sessions b s = (r, s')"
  shows "(\<exists>recs. r = Ret () \<and> tx_records cd sessions b = map Inr recs
      \<and> s' = s\<lparr>sz_log := sz_log s @ KBegin # tx_ops recs b @ [KCommit],
               sz_emitted := sz_emitted s + length sessions\<rparr>)
    \<or> (\<exists>ops ps. r \<noteq> Ret () \<and> KCommit \<notin> set ops \<and> set ps \<subseteq> fst ` set (b_state b)
      \<and> s' = s\<lparr>sz_log := sz_log s @ ops, sz_store := rolled (sz_log s) ps (sz_store s)\<rparr>)"
proof -
  let ?body = "and_then (kdo fault CBegin KBegin s) (\<lambda>s.
       and_then (produce_all fault 0 (tx_records cd sessions b) s) (\<lambda>s.
       and_then (kdo fault CSendOffsets (KSendOffsets (tx_offsets (b_state b))) s) (\<lambda>s.
         kdo fault CCommit KCommit s)))"
  have stop: ?thesis if "r \<noteq> Ret ()" "s' = s\<lparr>sz_log := sz_log s @ ops\<rparr>" "KCommit \<notin> set ops" for ops
    by (intro disjI2 exI [of _ ops] exI [of _ "[]"]) (use that in \<open>simp add: rolled_def\<close>)
  obtain r1 s1 where tried: "?body = (r1, s1)" by fastforce
  from tx_try_cases [OF this] show ?thesis
  proof (elim disjE exE conjE)
    fix recs assume ok: "r1 = Ret ()" "tx_records cd sessions b = map Inr recs"
      "s1 = s\<lparr>sz_log := sz_log s @ KBegin # tx_ops recs b @ [KCommit]\<rparr>"
    with assms tried show ?thesis by (intro disjI1 exI [of _ recs]) (simp add: transact_def)
  next
    fix ops assume f: "r1 \<noteq> Ret ()" "s1 = s\<lparr>sz_log := sz_log s @ ops\<rparr>" "KCommit \<notin> set ops"
    show ?thesis
    proof (cases r1)
      case Ret
      with f show ?thesis by simp
    next
      case Die
      with assms tried have "r = Die" "s' = s1" by (simp_all add: transact_def)
      with f show ?thesis by (intro stop) simp_all
    next
      case (Raise e)
      with assms tried have abort: "and_then (kdo fault CAbort KAbort s1) (\<lambda>s.
          and_then (rollback_batch fault (b_state b) s) (\<lambda>s. (Raise e, s))) = (r, s')"
        by (simp add: transact_def)
      obtain r2 s2 where k2: "kdo fault CAbort KAbort s1 = (r2, s2)" by fastforce
      from k2 show ?thesis
      proof (cases rule: kdo_cases)
        case (fail ops2)
        with abort k2 have "r = r2" "s' = s2" by (simp_all add: and_then_stop)
        with fail f show ?thesis by (intro stop [of "ops @ ops2"]) simp_all
      next
        case ok
        obtain r3 s3 where k3: "rollback_batch fault (b_state b) s2 = (r3, s3)" by fastforce
        from rollback_batch_cases [OF k3] obtain ps where ps: "set ps \<subseteq> fst ` set (b_state b)"
          "s3 = s2\<lparr>sz_store := rolled (sz_log s2) ps (sz_store s2)\<rparr>" by blast
        have "r \<noteq> Ret () \<and> s' = s3"
          using abort k2 k3 ok by (cases "r3 = Ret ()") (auto simp: and_then_stop)
        moreover have "sz_log s2 = sz_log s @ ops @ [KAbort]" using f ok by simp
        moreover have "rolled (sz_log s @ ops @ [KAbort]) ps st = rolled (sz_log s) ps st" for st
          by (rule rolled_uncommitted) (use f in simp)
        ultimately show ?thesis
          using ps f ok by (intro disjI2 exI [of _ "ops @ [KAbort]"] exI [of _ ps]) simp
      qed
    qed
  qed
qed

section \<open>The batch\<close>

lemma handle_event_durable:
  "sz_store (snd (snd (handle_event p off ev bs))) = sz_store (snd bs)
   \<and> sz_log (snd (snd (handle_event p off ev bs))) = sz_log (snd bs)"
  by (auto simp: handle_event_def case_prod_unfold Let_def open_acc_eq split: sum.split)

lemma handle_msg_durable:
  "sz_store (snd (snd (handle_msg cd cfg m bs))) = sz_store (snd bs)
   \<and> sz_log (snd (snd (handle_msg cd cfg m bs))) = sz_log (snd bs)"
  using handle_event_durable
  by (auto simp: handle_msg_def Let_def split: option.split kafka_error.split sum.split)

lemma handle_msgs_durable:
  "handle_msgs cd cfg ms bs = (r, b, s) \<Longrightarrow> sz_store s = sz_store (snd bs) \<and> sz_log s = sz_log (snd bs)"
proof (induction ms arbitrary: bs)
  case (Cons m ms)
  obtain r1 b1 s1 where h: "handle_msg cd cfg m bs = (r1, b1, s1)" by (metis prod.exhaust)
  with Cons handle_msg_durable [of cd cfg m bs] show ?case by (cases r1) auto
qed auto

lemma process_batch_cases:
  assumes "process_batch fault cd cfg msgs s = (r, s')"
  shows "(\<exists>b s1 closes st recs.
      handle_msgs cd cfg msgs (new_batch, s) = (Ret (), b, s1)
      \<and> collect_closes cfg (b_state b) s1 (sz_accs s1) = Inr closes
      \<and> append_batch (sz_store s) (b_journal b) closes = Inr st
      \<and> tx_records cd (map cr_session closes) b = map Inr recs
      \<and> r = Ret (map cr_session closes)
      \<and> s' = forget_closed closes (s1\<lparr>sz_store := st, sz_log := sz_log s @ KBegin # tx_ops recs b @ [KCommit],
            sz_emitted := sz_emitted s1 + length closes\<rparr>))
    \<or> (\<forall>x. r \<noteq> Ret x) \<and> (\<exists>ops. KCommit \<notin> set ops \<and> sz_log s' = sz_log s @ ops
      \<and> (sz_store s' = sz_store s
         \<or> (\<exists>b s1 closes st ps. handle_msgs cd cfg msgs (new_batch, s) = (Ret (), b, s1)
            \<and> collect_closes cfg (b_state b) s1 (sz_accs s1) = Inr closes
            \<and> append_batch (sz_store s) (b_journal b) closes = Inr st
            \<and> set ps \<subseteq> fst ` set (b_state b) \<and> sz_store s' = rolled (sz_log s) ps st)))"
    (is "?good \<or> ?bad")
proof -
  obtain r1 b s1 where h: "handle_msgs cd cfg msgs (new_batch, s) = (r1, b, s1)" by (metis prod.exhaust)
  have dur: "sz_store s1 = sz_store s" "sz_log s1 = sz_log s"
    using handle_msgs_durable [OF h] by simp_all
  have early: ?bad if "\<forall>x. r \<noteq> Ret x" "sz_store s' = sz_store s" "sz_log s' = sz_log s"
    using that by (intro conjI exI [of _ "[]"]) simp_all
  show ?thesis
  proof (cases r1)
    case (Raise e)
    with assms h dur show ?thesis by (intro disjI2 early) (auto simp: process_batch_def)
  next
    case Die
    with assms h dur show ?thesis by (intro disjI2 early) (auto simp: process_batch_def)
  next
    case (Ret u)
    show ?thesis
    proof (cases "collect_closes cfg (b_state b) s1 (sz_accs s1)")
      case (Inl e)
      with assms h Ret dur show ?thesis by (intro disjI2 early) (auto simp: process_batch_def)
    next
      case closes: (Inr closes)
      show ?thesis
      proof (cases "append_batch (sz_store s) (b_journal b) closes")
        case (Inl e)
        with assms h Ret dur closes show ?thesis by (intro disjI2 early) (auto simp: process_batch_def)
      next
        case st: (Inr st)
        let ?s = "s1\<lparr>sz_store := st\<rparr>"
        have bad: ?bad if "\<forall>x. r \<noteq> Ret x" "KCommit \<notin> set ops" "sz_log s' = sz_log s @ ops"
          "set ps \<subseteq> fst ` set (b_state b)" "sz_store s' = rolled (sz_log s) ps st" for ops ps
        proof -
          have "handle_msgs cd cfg msgs (new_batch, s) = (Ret (), b, s1)" using h Ret by simp
          with that closes st show ?thesis
            by (intro conjI exI [of _ ops] disjI2 exI [of _ b] exI [of _ s1] exI [of _ closes]
                exI [of _ st] exI [of _ ps])
        qed
        show ?thesis
        proof (cases "cfg_crash_after_state_commit cfg \<and> closes \<noteq> []")
          case True
          with assms h Ret dur closes st have "r = Die" "s' = ?s"
            by (simp_all add: process_batch_def Let_def)
          with dur show ?thesis by (intro disjI2 bad [of "[]" "[]"]) (simp_all add: rolled_def)
        next
          case False
          obtain r2 s2 where t: "transact fault cd (map cr_session closes) b ?s = (r2, s2)" by fastforce
          with assms h Ret dur closes st
          have pb: "(case (r2, s2) of (Ret _, s) \<Rightarrow> (Ret (map cr_session closes), forget_closed closes s)
              | (Raise e, s) \<Rightarrow> (Raise e, s) | (Die, s) \<Rightarrow> (Die, s)) = (r, s')"
            by (simp add: process_batch_def Let_def if_not_P [OF False])
          from transact_cases [OF t] show ?thesis
          proof (elim disjE exE conjE)
            fix recs
            assume "r2 = Ret ()" "tx_records cd (map cr_session closes) b = map Inr recs"
              "s2 = ?s\<lparr>sz_log := sz_log ?s @ KBegin # tx_ops recs b @ [KCommit],
                 sz_emitted := sz_emitted ?s + length (map cr_session closes)\<rparr>"
            with h Ret dur closes st pb have ?good
              by (intro exI [of _ b] exI [of _ s1] exI [of _ closes] exI [of _ st] exI [of _ recs]) simp
            then show ?thesis ..
          next
            fix ops ps
            assume f: "r2 \<noteq> Ret ()" "KCommit \<notin> set ops" "set ps \<subseteq> fst ` set (b_state b)"
              "s2 = ?s\<lparr>sz_log := sz_log ?s @ ops, sz_store := rolled (sz_log ?s) ps (sz_store ?s)\<rparr>"
            have "(\<forall>x. r \<noteq> Ret x) \<and> s' = s2"
              using pb f(1) by (cases r2) auto
            with f dur show ?thesis by (intro disjI2 bad [of ops ps]) simp_all
          qed
        qed
      qed
    qed
  qed
qed

end
