(* ===== verification/Sessionizer_System.thy ===== *)
theory Sessionizer_System
  imports Sessionizer_Tx
begin

text \<open>
  The sessionizer as a process that crashes and restarts. A system state is the object's
  state, whether the process is up, and (as a ghost) the records of the committed batches in
  the order they were processed. When the process is down only the store and the Kafka log
  of \<open>sys_szr\<close> mean anything.

  The input is the content of the partitions of rides.events; a batch is what the client may
  deliver next: for each partition a run of records from the committed position on, in any
  interleaving, with end-of-partition events anywhere.
\<close>

record sys =
  sys_szr :: szr
  sys_up :: bool
  sys_hist :: "msg list"

abbreviation position :: "klog \<Rightarrow> int \<Rightarrow> int" where
  "position lg p \<equiv> resume_offset lg RIDES_EVENTS p"

definition part_records :: "int \<Rightarrow> msg list \<Rightarrow> msg list" where
  "part_records p ms = filter (\<lambda>m. is_record m \<and> m_partition m = p) ms"

definition next_batch :: "(int \<Rightarrow> msg list) \<Rightarrow> int list \<Rightarrow> klog \<Rightarrow> msg list \<Rightarrow> bool" where
  "next_batch input parts lg msgs \<longleftrightarrow>
     list_all (\<lambda>m. is_record m \<longrightarrow> m_partition m \<in> set parts) msgs
     \<and> list_all (\<lambda>p. part_records p msgs =
         take (length (part_records p msgs)) (from_offset (position lg p) (input p))) parts"

inductive sstep :: "codec \<Rightarrow> SessionizerConfig \<Rightarrow> (int \<Rightarrow> msg list) \<Rightarrow> int list \<Rightarrow> sys \<Rightarrow> sys \<Rightarrow> bool"
  for cd cfg input parts where
  batch_ok: "next_batch input parts (sz_log s) msgs \<Longrightarrow>
     process_batch fault cd cfg msgs s = (Ret sessions, s') \<Longrightarrow>
     sstep cd cfg input parts \<lparr>sys_szr = s, sys_up = True, sys_hist = h\<rparr>
       \<lparr>sys_szr = s', sys_up = True, sys_hist = h @ filter is_record msgs\<rparr>"
| batch_fails: "next_batch input parts (sz_log s) msgs \<Longrightarrow>
     process_batch fault cd cfg msgs s = (r, s') \<Longrightarrow> r = Die \<or> r = Raise e \<Longrightarrow>
     sstep cd cfg input parts \<lparr>sys_szr = s, sys_up = True, sys_hist = h\<rparr>
       \<lparr>sys_szr = s', sys_up = False, sys_hist = h\<rparr>"
| kill: "sstep cd cfg input parts \<lparr>sys_szr = s, sys_up = True, sys_hist = h\<rparr>
       \<lparr>sys_szr = s, sys_up = False, sys_hist = h\<rparr>"
| restart: "on_assign parts (new_szr (sz_store s) (sz_log s @ [KInit])) = (Ret u, s') \<Longrightarrow>
     sstep cd cfg input parts \<lparr>sys_szr = s, sys_up = False, sys_hist = h\<rparr>
       \<lparr>sys_szr = s', sys_up = True, sys_hist = h\<rparr>"
| restart_cut: "on_assign (take n parts) (new_szr (sz_store s) (sz_log s @ [KInit])) = (r, s') \<Longrightarrow>
     sstep cd cfg input parts \<lparr>sys_szr = s, sys_up = False, sys_hist = h\<rparr>
       \<lparr>sys_szr = s', sys_up = False, sys_hist = h\<rparr>"
| rollback_cut: "p \<in> set parts \<Longrightarrow>
     s' = s\<lparr>sz_store := fst (rollback_from (sz_store s) p (position (sz_log s) p))\<rparr> \<Longrightarrow>
     sstep cd cfg input parts \<lparr>sys_szr = s, sys_up = False, sys_hist = h\<rparr>
       \<lparr>sys_szr = s', sys_up = False, sys_hist = h\<rparr>"

inductive_cases sstep_upE: "sstep cd cfg input parts \<lparr>sys_szr = s, sys_up = True, sys_hist = h\<rparr> y"
inductive_cases sstep_downE: "sstep cd cfg input parts \<lparr>sys_szr = s, sys_up = False, sys_hist = h\<rparr> y"

definition sys_init :: sys where
  "sys_init = \<lparr>sys_szr = new_szr empty_store [], sys_up = False, sys_hist = []\<rparr>"

inductive reachable :: "codec \<Rightarrow> SessionizerConfig \<Rightarrow> (int \<Rightarrow> msg list) \<Rightarrow> int list \<Rightarrow> sys \<Rightarrow> bool"
  for cd cfg input parts where
  reach_init: "reachable cd cfg input parts sys_init"
| reach_step: "reachable cd cfg input parts x \<Longrightarrow> sstep cd cfg input parts x y \<Longrightarrow>
     reachable cd cfg input parts y"

text \<open>
  What Kafka and the generator guarantee of the input: offsets of a partition are not negative
  and increase, every record is one of rides.events and of its partition, and the events of a
  ride share a partition because the generator keys them by ride.
\<close>

definition input_ok :: "codec \<Rightarrow> (int \<Rightarrow> msg list) \<Rightarrow> int list \<Rightarrow> (string \<Rightarrow> int) \<Rightarrow> bool" where
  "input_ok cd input parts ride_part \<longleftrightarrow>
     distinct parts
     \<and> list_all (\<lambda>p. sorted_wrt (<) (map m_offset (input p))
         \<and> list_all (\<lambda>m. is_record m \<and> m_topic m = RIDES_EVENTS \<and> m_partition m = p \<and> 0 \<le> m_offset m
             \<and> (case clean_of cd m of None \<Rightarrow> True | Some (r, v) \<Rightarrow> ride_part r = p)) (input p)) parts"

section \<open>Batches of the input\<close>

lemma input_okD:
  assumes "input_ok cd input parts ride_part" "p \<in> set parts"
  shows "sorted_wrt (<) (map m_offset (input p))"
    "m \<in> set (input p) \<Longrightarrow> is_record m \<and> m_topic m = RIDES_EVENTS \<and> m_partition m = p \<and> 0 \<le> m_offset m"
    "m \<in> set (input p) \<Longrightarrow> clean_of cd m = Some (r, v) \<Longrightarrow> ride_part r = p"
  using assms by (auto simp: input_ok_def list_all_iff split: option.splits)

lemma next_batchD:
  assumes "next_batch input parts lg msgs" "p \<in> set parts"
  obtains n where "part_records p msgs = take n (from_offset (position lg p) (input p))"
  using assms by (auto simp: next_batch_def list_all_iff)

lemma batch_record:
  assumes "input_ok cd input parts ride_part" "next_batch input parts lg msgs"
    and "m \<in> set msgs" "is_record m"
  shows "m_partition m \<in> set parts" "m \<in> set (input (m_partition m))"
    "position lg (m_partition m) \<le> m_offset m" "m_topic m = RIDES_EVENTS" "0 \<le> m_offset m"
    "clean_of cd m = Some (r, v) \<Longrightarrow> ride_part r = m_partition m"
proof -
  show p: "m_partition m \<in> set parts"
    using assms(2-4) by (auto simp: next_batch_def list_all_iff)
  obtain n where "part_records (m_partition m) msgs =
      take n (from_offset (position lg (m_partition m)) (input (m_partition m)))"
    using next_batchD [OF assms(2) p] .
  moreover have "m \<in> set (part_records (m_partition m) msgs)"
    using assms(3,4) by (simp add: part_records_def)
  ultimately have f: "m \<in> set (from_offset (position lg (m_partition m)) (input (m_partition m)))"
    by (metis in_set_takeD)
  then show i: "m \<in> set (input (m_partition m))" "position lg (m_partition m) \<le> m_offset m"
    by (simp_all add: from_offset_def)
  show "m_topic m = RIDES_EVENTS" "0 \<le> m_offset m"
    "clean_of cd m = Some (r, v) \<Longrightarrow> ride_part r = m_partition m"
    using input_okD [OF assms(1) p] i by blast+
qed

lemma clean_record: "clean_of cd m = Some x \<Longrightarrow> is_record m"
  by (auto simp: clean_of_def is_record_def split: if_splits)

lemma batch_keyed:
  assumes "input_ok cd input parts ride_part" "next_batch input parts lg msgs"
  shows "\<forall>m \<in> set msgs. \<forall>r v. clean_of cd m = Some (r, v) \<longrightarrow> m_partition m = ride_part r"
  using batch_record(6) [OF assms] clean_record by (metis (no_types))

text \<open>The events of a ride are among the records of its partition.\<close>

lemma ride_events_part:
  assumes "\<forall>m \<in> set ms. \<forall>r v. clean_of cd m = Some (r, v) \<longrightarrow> m_partition m = ride_part r"
  shows "ride_events cd r (part_records (ride_part r) ms) = ride_events cd r ms"
  using assms
proof (induction ms)
  case (Cons m ms)
  then show ?case
    by (cases "clean_of cd m")
      (auto simp: part_records_def ride_events_def clean_events_def dest: clean_record)
qed (simp add: part_records_def)

lemma part_offsets_eq: "part_offsets ms p = map m_offset (part_records p ms)"
  by (simp add: part_offsets_def part_records_def)

lemma batch_top_offset:
  assumes "input_ok cd input parts ride_part" "next_batch input parts lg msgs" "p \<in> set parts"
    and "part_records p msgs \<noteq> []"
  shows "top_offset msgs p = m_offset (last (part_records p msgs))" "0 \<le> top_offset msgs p"
proof -
  obtain n where n: "part_records p msgs = take n (from_offset (position lg p) (input p))"
    using next_batchD [OF assms(2,3)] .
  have sorted: "sorted_wrt (<) (map m_offset (part_records p msgs))"
    unfolding n by (rule sorted_take_from [OF input_okD(1) [OF assms(1,3)]])
  have nonneg: "0 \<le> m_offset m" if "m \<in> set (part_records p msgs)" for m
    using that batch_record(5) [OF assms(1,2)] by (auto simp: part_records_def)
  have "fold max (map m_offset (part_records p msgs)) (-1) = last (map m_offset (part_records p msgs))"
    by (rule fold_max_last [OF sorted]) (use assms(4) nonneg in fastforce)+
  then show "top_offset msgs p = m_offset (last (part_records p msgs))"
    using assms(4) by (simp add: top_offset_def part_offsets_eq last_map)
  with nonneg [OF last_in_set [OF assms(4)]] show "0 \<le> top_offset msgs p" by simp
qed

section \<open>What a committed transaction makes visible\<close>

lemma op_records_tx:
  "concat (map (op_records T) (tx_ops recs b)) = map snd (filter (\<lambda>x. fst x = T) recs)"
  by (induction recs) (auto simp: tx_ops_def)

lemma op_offsets_tx: "concat (map op_offsets (tx_ops recs b)) = tx_offsets (b_state b)"
  by (induction recs) (auto simp: tx_ops_def)

lemma records_after:
  "committed_records (lg @ KBegin # tx_ops recs b @ [KCommit]) T =
     committed_records lg T @ map snd (filter (\<lambda>x. fst x = T) recs)"
  by (simp add: records_log.visible_commit tx_ops_body op_records_tx)

lemma dict_rev: "dict_ok d \<Longrightarrow> map_of (rev d) = map_of d"
  by (intro map_of_inject_set [THEN iffD2]) (auto simp: rev_map [symmetric])

lemma tx_offsets_ok:
  assumes "dict_ok d"
  shows "dict_ok (tx_offsets d)"
proof -
  have "map fst (tx_offsets d) =
      map (Pair RIDES_EVENTS) (map fst (filter (\<lambda>(_, st). max_offset_in_batch st \<ge> 0) d))"
    by (induction d) (auto simp: tx_offsets_def)
  moreover have "inj (Pair RIDES_EVENTS)" by (simp add: inj_on_def)
  ultimately show ?thesis
    using assms by (simp add: distinct_map inj_on_subset) (auto simp: inj_on_def)
qed

lemma tx_offsets_lookup:
  assumes "dict_ok d"
  shows "map_of (rev (tx_offsets d)) (RIDES_EVENTS, p) =
    (case map_of d p of
       Some st \<Rightarrow> if max_offset_in_batch st \<ge> 0 then Some (max_offset_in_batch st + 1) else None
     | None \<Rightarrow> None)"
proof -
  have "map_of (tx_offsets d) (RIDES_EVENTS, p) =
    (case map_of d p of
       Some st \<Rightarrow> if max_offset_in_batch st \<ge> 0 then Some (max_offset_in_batch st + 1) else None
     | None \<Rightarrow> None)"
    using assms
  proof (induction d)
    case (Cons x d)
    obtain q st where x: "x = (q, st)" by fastforce
    have "map_of d p = None" if "q = p" using Cons.prems that x by (simp add: map_of_eq_None_iff)
    with Cons x show ?case by (cases "q = p") (simp_all add: tx_offsets_def)
  qed (simp add: tx_offsets_def)
  then show ?thesis by (simp add: dict_rev tx_offsets_ok assms)
qed

lemma position_after:
  assumes "handle_msgs cd cfg msgs (new_batch, s) = (Ret (), b, s1)"
    and "input_ok cd input parts ride_part" "next_batch input parts lg msgs"
  shows "position (lg @ KBegin # tx_ops recs b @ [KCommit]) p =
    (if part_records p msgs = [] then position lg p else m_offset (last (part_records p msgs)) + 1)"
proof -
  from loop_state [OF assms(1)] have ok: "dict_ok (b_state b)"
    and bst: "map_of (b_state b) p = (if part_records p msgs = [] then None
      else Some \<lparr>watermark_ms = 0, max_offset_in_batch = top_offset msgs p\<rparr>)"
    by (simp_all add: part_offsets_eq)
  note inj = tx_offsets_lookup
  have vis: "offsets_visible (lg @ KBegin # tx_ops recs b @ [KCommit]) (RIDES_EVENTS, p) =
      (case map_of (rev (tx_offsets (b_state b))) (RIDES_EVENTS, p) of
         None \<Rightarrow> offsets_visible lg (RIDES_EVENTS, p) | Some off \<Rightarrow> Some off)"
    by (simp add: offsets_log.visible_commit tx_ops_body op_offsets_tx map_add_def)
  show ?thesis
  proof (cases "part_records p msgs = []")
    case True
    with bst inj [OF ok] vis show ?thesis
      by (simp add: resume_offset_def committed_offset_visible)
  next
    case False
    then obtain m where m: "m \<in> set msgs" "is_record m" "m_partition m = p"
      by (auto simp: part_records_def filter_empty_conv)
    then have "p \<in> set parts" using batch_record(1) [OF assms(2,3)] by auto
    from batch_top_offset [OF assms(2,3) this False] bst inj [OF ok] vis False show ?thesis
      by (simp add: resume_offset_def committed_offset_visible)
  qed
qed

end
