(* ===== verification/Sessionizer_Invariant.thy ===== *)
theory Sessionizer_Invariant
  imports Sessionizer_System
begin

text \<open>
  The invariant of the crashing sessionizer. \<open>below c st\<close> is the store as a restart sees it,
  without the rows tagged at or beyond the committed positions. \<open>durable_ok\<close> speaks of that
  store, the Kafka log and the committed history and holds whether the process is up or
  down; \<open>memory_ok\<close> adds, for a running process, that the accumulators are the fold of the
  journal.
\<close>

definition below :: "(int \<Rightarrow> int) \<Rightarrow> StateStore \<Rightarrow> StateStore" where
  "below c st =
     \<lparr>journal_tbl = filter (\<lambda>x. snd (fst x) < c (fst (fst x))) (journal_tbl st),
      closes_tbl = filter (\<lambda>x. snd (fst (snd x)) < c (fst (fst (snd x)))) (closes_tbl st)\<rparr>"

definition located :: "(string \<Rightarrow> int) \<Rightarrow> int list \<Rightarrow> StateStore \<Rightarrow> bool" where
  "located ride_part parts st \<longleftrightarrow>
     list_all (\<lambda>x. fst (fst x) \<in> set parts \<and> ride_part (fst (snd x)) = fst (fst x)) (journal_tbl st)
     \<and> list_all (\<lambda>x. fst (fst (snd x)) \<in> set parts \<and> ride_part (fst x) = fst (fst (snd x))) (closes_tbl st)"

definition hist_ok :: "(int \<Rightarrow> msg list) \<Rightarrow> int list \<Rightarrow> klog \<Rightarrow> msg list \<Rightarrow> bool" where
  "hist_ok input parts lg h \<longleftrightarrow>
     list_all (\<lambda>m. is_record m \<and> m_partition m \<in> set parts) h
     \<and> list_all (\<lambda>p. part_records p h = before_offset (position lg p) (input p)) parts"

definition published :: "klog \<Rightarrow> string \<Rightarrow> (exn + krecord) list" where
  "published lg T = map (\<lambda>(k, v). Inr (T, k, v)) (committed_records lg T)"

definition outputs_ok :: "codec \<Rightarrow> SessionizerConfig \<Rightarrow> klog \<Rightarrow> StateStore \<Rightarrow> msg list \<Rightarrow> bool" where
  "outputs_ok cd cfg lg st h \<longleftrightarrow>
     published lg RIDES_SESSIONS = map (session_record_of cd \<circ> snd \<circ> snd) (closes_tbl st)
     \<and> published lg RIDES_EVENTS_CLEAN = map (clean_record_of cd \<circ> snd) (clean_events cd h)
     \<and> published lg (dlq_topic RIDES_EVENTS) = map dlq_record_of (dead_letters cd cfg h)"

text \<open>The events of a ride in the input up to an offset of its partition.\<close>

definition events_before :: "codec \<Rightarrow> (int \<Rightarrow> msg list) \<Rightarrow> (string \<Rightarrow> int) \<Rightarrow> string \<Rightarrow> int \<Rightarrow> payload list" where
  "events_before cd input ride_part r off = ride_events cd r (before_offset off (input (ride_part r)))"

definition close_ok :: "codec \<Rightarrow> (int \<Rightarrow> msg list) \<Rightarrow> (string \<Rightarrow> int) \<Rightarrow> string \<times> (int \<times> int) \<times> payload \<Rightarrow> bool" where
  "close_ok cd input ride_part x \<longleftrightarrow>
     (\<exists>a t. add_events (new_acc (fst x)) (events_before cd input ride_part (fst x) (snd (fst (snd x)) + 1)) = Inr a
        \<and> build_session a t = Inr (snd (snd x)))"

definition closes_ok :: "codec \<Rightarrow> (int \<Rightarrow> msg list) \<Rightarrow> (string \<Rightarrow> int) \<Rightarrow> StateStore \<Rightarrow> bool" where
  "closes_ok cd input ride_part st \<longleftrightarrow> list_all (close_ok cd input ride_part) (closes_tbl st)"

definition open_ok :: "codec \<Rightarrow> (int \<Rightarrow> msg list) \<Rightarrow> int list \<Rightarrow> (string \<Rightarrow> int) \<Rightarrow> klog \<Rightarrow> StateStore \<Rightarrow> bool" where
  "open_ok cd input parts ride_part lg st \<longleftrightarrow>
     (\<forall>r. ride_part r \<in> set parts \<and> \<not> is_closed st r \<longrightarrow>
        ride_rows st (ride_part r) r = events_before cd input ride_part r (position lg (ride_part r))
        \<and> (\<forall>a. add_events (new_acc r) (ride_rows st (ride_part r) r) = Inr a \<longrightarrow> terminal a = None))"

definition durable_ok :: "codec \<Rightarrow> SessionizerConfig \<Rightarrow> (int \<Rightarrow> msg list) \<Rightarrow> int list \<Rightarrow> (string \<Rightarrow> int)
    \<Rightarrow> klog \<Rightarrow> StateStore \<Rightarrow> msg list \<Rightarrow> bool" where
  "durable_ok cd cfg input parts ride_part lg st h \<longleftrightarrow>
     store_ok st \<and> located ride_part parts st \<and> hist_ok input parts lg h
     \<and> outputs_ok cd cfg lg (below (position lg) st) h
     \<and> closes_ok cd input ride_part (below (position lg) st)
     \<and> open_ok cd input parts ride_part lg (below (position lg) st)"

definition memory_ok :: "(string \<Rightarrow> int) \<Rightarrow> szr \<Rightarrow> bool" where
  "memory_ok ride_part s \<longleftrightarrow>
     below (position (sz_log s)) (sz_store s) = sz_store s \<and> dict_ok (sz_accs s)
     \<and> (\<forall>r. case map_of (sz_accs s) r of
          None \<Rightarrow> is_closed (sz_store s) r \<or> ride_rows (sz_store s) (ride_part r) r = []
        | Some a \<Rightarrow> \<not> is_closed (sz_store s) r \<and> ride_rows (sz_store s) (ride_part r) r \<noteq> []
            \<and> add_events (new_acc r) (ride_rows (sz_store s) (ride_part r) r) = Inr a
            \<and> map_of (sz_acc_partition s) r = Some (ride_part r))"

section \<open>The store as a restart sees it\<close>

lemma below_rollback:
  assumes "c p \<le> r"
  shows "below c (rollback_store p r st) = below c st"
  using assms by (auto simp: below_def tagged_from_def intro!: filter_cong)

lemma below_rolled: "below (position lg) (rolled lg ps st) = below (position lg) st"
  by (induction ps arbitrary: st) (simp_all add: rolled_def below_rollback)

lemma rolled_ok: "store_ok st \<Longrightarrow> store_ok (rolled lg ps st)"
  by (induction ps arbitrary: st) (simp_all add: rolled_def store_ok_rollback)

lemma located_filter:
  assumes "located ride_part parts st" "set (journal_tbl st') \<subseteq> set (journal_tbl st)"
    "set (closes_tbl st') \<subseteq> set (closes_tbl st)"
  shows "located ride_part parts st'"
  using assms by (auto simp: located_def list_all_iff)

lemma located_rolled: "located ride_part parts st \<Longrightarrow> located ride_part parts (rolled lg ps st)"
proof (induction ps arbitrary: st)
  case (Cons p ps)
  have "located ride_part parts (rollback_store p (position lg p) st)"
    by (rule located_filter [OF Cons.prems]) auto
  from Cons.IH [OF this] show ?case by (simp add: rolled_def)
qed (simp add: rolled_def)

lemma durable_rolled:
  assumes "durable_ok cd cfg input parts ride_part lg st h"
  shows "durable_ok cd cfg input parts ride_part lg (rolled lg ps st) h"
  using assms by (simp add: durable_ok_def rolled_ok located_rolled below_rolled)

text \<open>Nothing a client call appends matters until a commit.\<close>

lemma position_uncommitted: "KCommit \<notin> set ops \<Longrightarrow> position (lg @ ops) = position lg"
  by (rule ext) (simp add: resume_uncommitted)

lemma published_uncommitted: "KCommit \<notin> set ops \<Longrightarrow> published (lg @ ops) T = published lg T"
  by (simp add: published_def records_log.visible_uncommitted)

lemma durable_uncommitted:
  assumes "KCommit \<notin> set ops" "durable_ok cd cfg input parts ride_part lg st h"
  shows "durable_ok cd cfg input parts ride_part (lg @ ops) st h"
  using assms
  by (simp add: durable_ok_def hist_ok_def outputs_ok_def open_ok_def position_uncommitted
      published_uncommitted)

text \<open>A store that agrees below the committed positions is as good.\<close>

lemma durable_cong:
  assumes "durable_ok cd cfg input parts ride_part lg st h"
    and "store_ok st'" "located ride_part parts st'" "below (position lg) st' = below (position lg) st"
  shows "durable_ok cd cfg input parts ride_part lg st' h"
  using assms by (simp add: durable_ok_def)

section \<open>A batch in progress\<close>

lemma batch_accs:
  assumes "input_ok cd input parts ride_part" "next_batch input parts (sz_log s) msgs"
    and mem: "memory_ok ride_part s"
    and h: "handle_msgs cd cfg msgs (new_batch, s) = (Ret (), b, s1)"
  defines "rows r \<equiv> ride_rows (sz_store s) (ride_part r) r @ ride_events cd r msgs"
  shows "case map_of (sz_accs s1) r of
      None \<Rightarrow> is_closed (sz_store s) r \<or> rows r = []
    | Some a \<Rightarrow> \<not> is_closed (sz_store s) r \<and> rows r \<noteq> [] \<and> add_events (new_acc r) (rows r) = Inr a
        \<and> map_of (sz_acc_partition s1) r = Some (ride_part r)"
proof -
  let ?old = "ride_rows (sz_store s) (ride_part r) r" and ?new = "ride_events cd r msgs"
  have parts: "map_of (sz_acc_partition s1) r =
    (if map_of (sz_accs s) r = None \<and> map_of (sz_accs s1) r \<noteq> None then Some (ride_part r)
     else map_of (sz_acc_partition s) r)"
    using loop_parts [OF h batch_keyed [OF assms(1,2)]] by blast
  from mem have m: "case map_of (sz_accs s) r of
          None \<Rightarrow> is_closed (sz_store s) r \<or> ?old = []
        | Some a \<Rightarrow> \<not> is_closed (sz_store s) r \<and> ?old \<noteq> []
            \<and> add_events (new_acc r) ?old = Inr a \<and> map_of (sz_acc_partition s) r = Some (ride_part r)"
    by (simp add: memory_ok_def)
  from loop_accs [OF h] have l: "if is_closed (sz_store s) r \<or> ?new = []
      then map_of (sz_accs s1) r = map_of (sz_accs s) r
      else \<exists>a. map_of (sz_accs s1) r = Some a \<and> add_events (acc_of s r) ?new = Inr a" by blast
  show ?thesis
  proof (cases "is_closed (sz_store s) r \<or> ?new = []")
    case True
    with l have "map_of (sz_accs s1) r = map_of (sz_accs s) r" by presburger
    with m parts True show ?thesis by (auto simp: rows_def split: option.splits)
  next
    case False
    from l [unfolded if_not_P [OF False]]
    obtain a where a: "map_of (sz_accs s1) r = Some a" "add_events (acc_of s r) ?new = Inr a" by blast
    have "add_events (new_acc r) (?old @ ?new) = Inr a"
      using m a(2) False by (auto simp: acc_of_def add_events_append split: option.splits)
    moreover have "map_of (sz_acc_partition s1) r = Some (ride_part r)"
      using m parts a(1) by (auto split: option.splits)
    ultimately show ?thesis using a(1) False by (simp add: rows_def)
  qed
qed

lemma journal_rows_in:
  assumes "x \<in> set (journal_rows cd st ms)"
  shows "\<exists>m \<in> set ms. clean_of cd m = Some (jr_ride_id x, jr_value x)
    \<and> jr_partition x = m_partition m \<and> jr_offset x = m_offset m \<and> \<not> is_closed st (jr_ride_id x)"
  using assms
proof (induction ms)
  case (Cons m ms)
  then show ?case by (auto simp: journal_rows_def split: option.splits if_splits)
qed (simp add: journal_rows_def)

lemma batch_journal_new:
  assumes "input_ok cd input parts ride_part" "next_batch input parts lg msgs"
    and "x \<in> set (journal_rows cd st msgs)"
  shows "jr_partition x \<in> set parts" "ride_part (jr_ride_id x) = jr_partition x"
    "position lg (jr_partition x) \<le> jr_offset x" "\<not> is_closed st (jr_ride_id x)"
proof -
  from journal_rows_in [OF assms(3)] obtain m where m: "m \<in> set msgs"
    "clean_of cd m = Some (jr_ride_id x, jr_value x)" "jr_partition x = m_partition m"
    "jr_offset x = m_offset m" "\<not> is_closed st (jr_ride_id x)" by blast
  note r = batch_record [OF assms(1,2) m(1) clean_record [OF m(2)]]
  show "jr_partition x \<in> set parts" "ride_part (jr_ride_id x) = jr_partition x"
    "position lg (jr_partition x) \<le> jr_offset x" "\<not> is_closed st (jr_ride_id x)"
    using r(1,3) r(6) [OF m(2)] m by simp_all
qed

lemma batch_close:
  assumes "input_ok cd input parts ride_part" "next_batch input parts (sz_log s) msgs"
    and "memory_ok ride_part s"
    and h: "handle_msgs cd cfg msgs (new_batch, s) = (Ret (), b, s1)"
    and cl: "collect_closes cfg (b_state b) s1 (sz_accs s1) = Inr closes" "c \<in> set closes"
  obtains a t where "map_of (sz_accs s1) (cr_ride_id c) = Some a"
    "build_session a t = Inr (cr_session c)" "\<not> is_closed (sz_store s) (cr_ride_id c)"
    "ride_part (cr_ride_id c) = cr_partition c" "cr_partition c \<in> set parts"
    "part_records (cr_partition c) msgs \<noteq> []"
    "cr_offset c = m_offset (last (part_records (cr_partition c) msgs))"
    "position (sz_log s) (cr_partition c) \<le> cr_offset c"
proof -
  let ?p = "cr_partition c"
  from collect_closes_from [OF cl] obtain a st where a: "(cr_ride_id c, a) \<in> set (sz_accs s1)"
    "map_of (sz_acc_partition s1) (cr_ride_id c) = Some ?p" "map_of (b_state b) ?p = Some st"
    "cr_offset c = max_offset_in_batch st" "build_session a (terminal a = None) = Inr (cr_session c)"
    by blast
  have "dict_ok (sz_accs s1)"
    using loop_accs_ok [OF h] assms(3) by (simp add: memory_ok_def)
  with a(1) have acc: "map_of (sz_accs s1) (cr_ride_id c) = Some a" by simp
  with batch_accs [OF assms(1-3) h, of "cr_ride_id c"] a(2)
  have open0: "\<not> is_closed (sz_store s) (cr_ride_id c)" "ride_part (cr_ride_id c) = ?p" by simp_all
  from loop_state [OF h] a(3) have ne: "part_records ?p msgs \<noteq> []"
    and top: "cr_offset c = top_offset msgs ?p"
    using a(4) by (auto simp: part_offsets_eq split: if_splits)
  have last: "last (part_records ?p msgs) \<in> set msgs" "is_record (last (part_records ?p msgs))"
    "m_partition (last (part_records ?p msgs)) = ?p"
    using last_in_set [OF ne] by (simp_all add: part_records_def)
  note r = batch_record [OF assms(1,2) last(1,2)]
  from r(1) last(3) have p: "?p \<in> set parts" by simp
  note t = batch_top_offset [OF assms(1,2) p ne]
  show thesis
    by (rule that [OF acc a(5) open0 p ne]) (use r(3) last(3) top t(1) in simp_all)
qed

section \<open>A batch that does not return\<close>

lemma below_fresh:
  assumes "journal_tbl st' = journal_tbl st @ jnew" "closes_tbl st' = closes_tbl st @ cnew"
    and "\<forall>x \<in> set jnew. c (fst (fst x)) \<le> snd (fst x)"
    and "\<forall>x \<in> set cnew. c (fst (fst (snd x))) \<le> snd (fst (snd x))"
  shows "below c st' = below c st"
proof -
  have "filter (\<lambda>x. snd (fst x) < c (fst (fst x))) jnew = []"
    "filter (\<lambda>x. snd (fst (snd x)) < c (fst (fst (snd x)))) cnew = []"
    using assms(3,4) by (force simp: filter_empty_conv)+
  with assms(1,2) show ?thesis by (simp add: below_def)
qed

lemma appended_durable:
  assumes "input_ok cd input parts ride_part" "next_batch input parts (sz_log s) msgs"
    and "memory_ok ride_part s"
    and h: "handle_msgs cd cfg msgs (new_batch, s) = (Ret (), b, s1)"
    and cl: "collect_closes cfg (b_state b) s1 (sz_accs s1) = Inr closes"
    and st: "append_batch (sz_store s) (b_journal b) closes = Inr st"
    and d: "durable_ok cd cfg input parts ride_part (sz_log s) (sz_store s) hist"
  shows "durable_ok cd cfg input parts ride_part (sz_log s) st hist" "located ride_part parts st"
    "below (position (sz_log s)) st = below (position (sz_log s)) (sz_store s)"
proof -
  have jr: "b_journal b = journal_rows cd (sz_store s) msgs" using loop_lists [OF h] by simp
  note close = batch_close [OF assms(1-3) h cl]
  have fresh: "\<forall>c \<in> set closes. \<not> is_closed (sz_store s) (cr_ride_id c)"
    using close by metis
  obtain jnew cnew where eq: "journal_tbl st = journal_tbl (sz_store s) @ jnew"
    "closes_tbl st = closes_tbl (sz_store s) @ cnew"
    and j: "\<forall>x \<in> set jnew. \<exists>r \<in> set (b_journal b). x = ((jr_partition r, jr_offset r), (jr_ride_id r, jr_value r))"
    and c: "\<forall>x \<in> set cnew. \<exists>r \<in> set closes. x = (cr_ride_id r, ((cr_partition r, cr_offset r), cr_session r))"
    by (rule append_batch_new [OF st fresh])
  note new = batch_journal_new [OF assms(1,2)]
  have jn: "fst (fst x) \<in> set parts \<and> ride_part (fst (snd x)) = fst (fst x)
      \<and> position (sz_log s) (fst (fst x)) \<le> snd (fst x)" if "x \<in> set jnew" for x
    using j that new jr by fastforce
  have cn: "fst (fst (snd x)) \<in> set parts \<and> ride_part (fst x) = fst (fst (snd x))
      \<and> position (sz_log s) (fst (fst (snd x))) \<le> snd (fst (snd x))" if x: "x \<in> set cnew" for x
  proof -
    from c x obtain k where k: "k \<in> set closes"
      "x = (cr_ride_id k, ((cr_partition k, cr_offset k), cr_session k))" by blast
    from k(1) show ?thesis by (rule close) (simp add: k(2))
  qed
  have "located ride_part parts (sz_store s)" using d by (simp add: durable_ok_def)
  with jn cn show loc: "located ride_part parts st"
    unfolding located_def eq list_all_iff set_append by blast
  show "below (position (sz_log s)) st = below (position (sz_log s)) (sz_store s)"
    by (rule below_fresh [OF eq]) (use jn cn in blast)+
  moreover have "store_ok st" using store_ok_append [OF _ st] d by (simp add: durable_ok_def)
  ultimately show "durable_ok cd cfg input parts ride_part (sz_log s) st hist"
    using durable_cong [OF d _ loc] by simp
qed

text \<open>A batch that raises or dies, wherever, leaves what a restart sees unchanged.\<close>

lemma batch_fails_cases:
  assumes "input_ok cd input parts ride_part" "next_batch input parts (sz_log s) msgs"
    and "memory_ok ride_part s"
    and "process_batch fault cd cfg msgs s = (r, s')" "\<forall>x. r \<noteq> Ret x"
    and d: "durable_ok cd cfg input parts ride_part (sz_log s) (sz_store s) hist"
  obtains ops where "KCommit \<notin> set ops" "sz_log s' = sz_log s @ ops"
    "durable_ok cd cfg input parts ride_part (sz_log s) (sz_store s') hist"
    "below (position (sz_log s)) (sz_store s') = below (position (sz_log s)) (sz_store s)"
proof -
  let ?c = "position (sz_log s)"
  from process_batch_cases [OF assms(4)] assms(5) obtain ops where
    ops: "KCommit \<notin> set ops" "sz_log s' = sz_log s @ ops"
    and st: "sz_store s' = sz_store s \<or> (\<exists>b s1 closes st ps.
        handle_msgs cd cfg msgs (new_batch, s) = (Ret (), b, s1)
        \<and> collect_closes cfg (b_state b) s1 (sz_accs s1) = Inr closes
        \<and> append_batch (sz_store s) (b_journal b) closes = Inr st
        \<and> set ps \<subseteq> fst ` set (b_state b) \<and> sz_store s' = rolled (sz_log s) ps st)"
    by blast
  from st have "durable_ok cd cfg input parts ride_part (sz_log s) (sz_store s') hist
      \<and> below ?c (sz_store s') = below ?c (sz_store s)"
  proof (elim disjE exE conjE)
    fix b s1 closes st ps
    assume "handle_msgs cd cfg msgs (new_batch, s) = (Ret (), b, s1)"
      "collect_closes cfg (b_state b) s1 (sz_accs s1) = Inr closes"
      "append_batch (sz_store s) (b_journal b) closes = Inr st"
      and s': "sz_store s' = rolled (sz_log s) ps st"
    from appended_durable(1,3) [OF assms(1-3) this(1-3) d]
    show ?thesis unfolding s' below_rolled by (simp add: durable_rolled)
  qed (use d in simp)
  with ops that show thesis by blast
qed

lemma batch_fails_durable:
  assumes "input_ok cd input parts ride_part" "next_batch input parts (sz_log s) msgs"
    and "memory_ok ride_part s"
    and "process_batch fault cd cfg msgs s = (r, s')" "\<forall>x. r \<noteq> Ret x"
    and d: "durable_ok cd cfg input parts ride_part (sz_log s) (sz_store s) hist"
  shows "durable_ok cd cfg input parts ride_part (sz_log s') (sz_store s') hist"
proof -
  from batch_fails_cases [OF assms] obtain ops where "KCommit \<notin> set ops" "sz_log s' = sz_log s @ ops"
    "durable_ok cd cfg input parts ride_part (sz_log s) (sz_store s') hist" by blast
  with durable_uncommitted [OF this(1,3)] show ?thesis by simp
qed

end
