(* ===== verification/Sessionizer_Step.thy ===== *)
theory Sessionizer_Step
  imports Sessionizer_Invariant
begin

text \<open>
  A batch that returns preserves the invariant: what it appends to the store, what its
  transaction makes visible and the new committed positions fit together.
\<close>

section \<open>The rows of the batch\<close>

lemma distinct_tags:
  assumes "\<And>p. distinct (map m_offset (part_records p ms))"
  shows "distinct (map (\<lambda>m. (m_partition m, m_offset m)) (filter is_record ms))"
  using assms
proof (induction ms)
  case (Cons m ms)
  have "distinct (map m_offset (part_records p ms))" for p
    using Cons.prems [of p] by (auto simp: part_records_def split: if_splits)
  with Cons.IH have IH: "distinct (map (\<lambda>m. (m_partition m, m_offset m)) (filter is_record ms))" .
  have "m_offset m \<notin> m_offset ` set (part_records (m_partition m) ms)" if "is_record m"
    using Cons.prems [of "m_partition m"] that by (simp add: part_records_def)
  then have "(m_partition m, m_offset m) \<notin> (\<lambda>m. (m_partition m, m_offset m)) ` set (filter is_record ms)"
    if "is_record m" using that by (force simp: part_records_def)
  with IH show ?case by simp
qed simp

lemma journal_rows_Cons:
  "journal_rows cd st (m # ms) =
     (case clean_of cd m of
        Some (r, v) \<Rightarrow> if is_closed st r then journal_rows cd st ms
          else \<lparr>jr_partition = m_partition m, jr_offset = m_offset m, jr_ride_id = r, jr_value = v\<rparr>
            # journal_rows cd st ms
      | None \<Rightarrow> journal_rows cd st ms)"
  by (auto simp: journal_rows_def split: option.split)

lemma fst_journal_entry: "fst (journal_entry x) = (jr_partition x, jr_offset x)"
  by (simp add: journal_entry_def)

lemma journal_rows_distinct:
  assumes "distinct (map (\<lambda>m. (m_partition m, m_offset m)) (filter is_record ms))"
  shows "dict_ok (map journal_entry (journal_rows cd st ms))"
  using assms
proof (induction ms)
  case (Cons m ms)
  have IH: "dict_ok (map journal_entry (journal_rows cd st ms))"
    using Cons by (auto split: if_splits)
  show ?case
  proof (cases "clean_of cd m")
    case None
    with IH show ?thesis by (simp add: journal_rows_Cons)
  next
    case (Some rv)
    have "(m_partition m, m_offset m) \<notin> (\<lambda>x. (jr_partition x, jr_offset x)) ` set (journal_rows cd st ms)"
    proof
      assume "(m_partition m, m_offset m) \<in> (\<lambda>x. (jr_partition x, jr_offset x)) ` set (journal_rows cd st ms)"
      then obtain x where x: "x \<in> set (journal_rows cd st ms)"
        "(jr_partition x, jr_offset x) = (m_partition m, m_offset m)"
        by auto
      from journal_rows_in [OF x(1)] obtain m' where "m' \<in> set ms" "is_record m'"
        "(m_partition m', m_offset m') = (m_partition m, m_offset m)"
        using x(2) clean_record by fastforce
      then have "(m_partition m, m_offset m) \<in> (\<lambda>m. (m_partition m, m_offset m)) ` set (filter is_record ms)"
        by (intro image_eqI [of _ _ m']) simp_all
      with Cons.prems clean_record [OF Some] show False by simp
    qed
    with IH Some show ?thesis
      by (cases rv) (simp add: journal_rows_Cons fst_journal_entry)
  qed
qed (simp add: journal_rows_def)

lemma batch_tags_distinct:
  assumes "input_ok cd input parts ride_part" "next_batch input parts lg msgs"
  shows "distinct (map (\<lambda>m. (m_partition m, m_offset m)) (filter is_record msgs))"
proof (rule distinct_tags)
  fix p
  show "distinct (map m_offset (part_records p msgs))"
  proof (cases "part_records p msgs = []")
    case False
    then obtain m where "m \<in> set msgs" "is_record m" "m_partition m = p"
      by (auto simp: part_records_def filter_empty_conv)
    with batch_record(1) [OF assms] have p: "p \<in> set parts" by auto
    obtain n where "part_records p msgs = take n (from_offset (position lg p) (input p))"
      using next_batchD [OF assms(2) p] .
    with sorted_take_from [OF input_okD(1) [OF assms(1) p]] show ?thesis
      by (simp add: sorted_less)
  qed simp
qed

lemma sorted_last_max: "x \<in> set xs \<Longrightarrow> sorted (map f xs) \<Longrightarrow> f x \<le> f (last xs)"
  by (induction xs) auto

lemma batch_below_last:
  assumes "input_ok cd input parts ride_part" "next_batch input parts lg msgs"
    and "m \<in> set (part_records p msgs)"
  shows "m_offset m \<le> m_offset (last (part_records p msgs))"
proof -
  have "m \<in> set msgs" "is_record m" "m_partition m = p" using assms(3) by (simp_all add: part_records_def)
  with batch_record(1) [OF assms(1,2)] have p: "p \<in> set parts" by auto
  obtain n where n: "part_records p msgs = take n (from_offset (position lg p) (input p))"
    using next_batchD [OF assms(2) p] .
  have "sorted (map m_offset (part_records p msgs))"
    unfolding n using sorted_take_from [OF input_okD(1) [OF assms(1) p]] by (simp add: sorted_less)
  with assms(3) show ?thesis by (rule sorted_last_max)
qed

text \<open>The rows a ride gains.\<close>

lemma new_ride_rows:
  assumes "\<forall>m \<in> set ms. \<forall>r v. clean_of cd m = Some (r, v) \<longrightarrow> m_partition m = ride_part r"
    and "\<not> is_closed st r"
  shows "map (snd \<circ> snd) (filter (\<lambda>((p, _), ride, _). p = ride_part r \<and> ride = r)
      (map journal_entry (journal_rows cd st ms))) = ride_events cd r ms"
  using assms(1)
proof (induction ms)
  case (Cons m ms)
  then show ?case
    using assms(2)
    by (cases "clean_of cd m")
      (auto simp: journal_rows_Cons journal_entry_def ride_events_def clean_events_def)
qed (simp add: journal_rows_def ride_events_def clean_events_def)

lemma insort_key_left:
  "\<forall>y \<in> set ys. f x \<le> f y \<Longrightarrow> insort_key f x (xs @ ys) = insort_key f x xs @ ys"
  by (induction xs) (simp_all add: insort_is_Cons)

lemma sort_key_append:
  assumes "\<forall>x \<in> set xs. \<forall>y \<in> set ys. f x \<le> f y" "sorted (map f ys)"
  shows "sort_key f (xs @ ys) = sort_key f xs @ ys"
  using assms by (induction xs) (simp_all add: sort_key_id_if_sorted insort_key_left)

section \<open>The store and the positions after the batch\<close>

lemma dict_append:
  "dict_ok (d @ e) \<longleftrightarrow> dict_ok d \<and> dict_ok e \<and> fst ` set d \<inter> fst ` set e = {}"
  by simp

lemma memory_below:
  assumes "memory_ok ride_part s"
  shows "x \<in> set (journal_tbl (sz_store s)) \<Longrightarrow> snd (fst x) < position (sz_log s) (fst (fst x))"
    and "y \<in> set (closes_tbl (sz_store s)) \<Longrightarrow> snd (fst (snd y)) < position (sz_log s) (fst (fst (snd y)))"
proof -
  have eq: "filter (\<lambda>x. snd (fst x) < position (sz_log s) (fst (fst x))) (journal_tbl (sz_store s)) = journal_tbl (sz_store s)"
    "filter (\<lambda>x. snd (fst (snd x)) < position (sz_log s) (fst (fst (snd x)))) (closes_tbl (sz_store s)) = closes_tbl (sz_store s)"
  proof -
    have "below (position (sz_log s)) (sz_store s) = sz_store s"
      using assms by (simp add: memory_ok_def)
    from arg_cong [OF this, of journal_tbl] arg_cong [OF this, of closes_tbl] show
      "filter (\<lambda>x. snd (fst x) < position (sz_log s) (fst (fst x))) (journal_tbl (sz_store s)) = journal_tbl (sz_store s)"
      "filter (\<lambda>x. snd (fst (snd x)) < position (sz_log s) (fst (fst (snd x)))) (closes_tbl (sz_store s)) = closes_tbl (sz_store s)"
      by (simp_all only: below_def StateStore.select_convs)
  qed
  show "x \<in> set (journal_tbl (sz_store s)) \<Longrightarrow> snd (fst x) < position (sz_log s) (fst (fst x))"
    using eq(1) by (simp only: filter_id_conv)
  show "y \<in> set (closes_tbl (sz_store s)) \<Longrightarrow> snd (fst (snd y)) < position (sz_log s) (fst (fst (snd y)))"
    using eq(2) by (simp only: filter_id_conv)
qed

lemma image_disjoint: "(\<And>c. c \<in> C \<Longrightarrow> f c \<notin> A) \<Longrightarrow> A \<inter> f ` C = {}"
  by blast

lemma appended_exact:
  assumes "input_ok cd input parts ride_part" "next_batch input parts (sz_log s) msgs"
    and mem: "memory_ok ride_part s" and ok: "store_ok (sz_store s)"
    and h: "handle_msgs cd cfg msgs (new_batch, s) = (Ret (), b, s1)"
    and cl: "collect_closes cfg (b_state b) s1 (sz_accs s1) = Inr closes"
    and st: "append_batch (sz_store s) (b_journal b) closes = Inr st"
  shows "journal_tbl st = journal_tbl (sz_store s) @ map journal_entry (journal_rows cd (sz_store s) msgs)"
    and "closes_tbl st = closes_tbl (sz_store s) @ map close_entry closes"
proof -
  let ?j = "journal_rows cd (sz_store s) msgs"
  have jr: "b_journal b = ?j" using loop_lists [OF h] by simp
  have "fst x \<noteq> fst (journal_entry y)" if x: "x \<in> set (journal_tbl (sz_store s))" and y: "y \<in> set ?j" for x y
    using memory_below(1) [OF mem x] batch_journal_new(3) [OF assms(1,2) y]
    by (auto simp: fst_journal_entry)
  moreover have disj: "fst ` A \<inter> fst ` B = {}" if "\<And>x y. x \<in> A \<Longrightarrow> y \<in> B \<Longrightarrow> fst x \<noteq> fst y"
    for A B :: "((int \<times> int) \<times> string \<times> payload) set"
    using that by blast
  ultimately have "fst ` set (journal_tbl (sz_store s)) \<inter> fst ` set (map journal_entry ?j) = {}"
    by (intro disj) auto
  then have dj: "dict_ok (journal_tbl (sz_store s) @ map journal_entry (b_journal b))"
    using ok journal_rows_distinct [OF batch_tags_distinct [OF assms(1,2)]]
    unfolding dict_append jr store_ok_def by blast
  have ids: "map fst (map close_entry closes) = map cr_ride_id closes"
    by (simp add: close_entry_def)
  have dist: "distinct (map fst (map close_entry closes))"
    unfolding ids by (rule collect_closes_distinct [OF cl])
      (use loop_accs_ok [OF h] mem in \<open>simp add: memory_ok_def\<close>)
  have "cr_ride_id c \<notin> fst ` set (closes_tbl (sz_store s))" if c: "c \<in> set closes" for c
  proof -
    have "\<not> is_closed (sz_store s) (cr_ride_id c)"
      by (rule batch_close [OF assms(1-3) h cl c])
    then show ?thesis by (simp add: is_closed_def map_of_eq_None_iff)
  qed
  then have "fst ` set (closes_tbl (sz_store s)) \<inter> cr_ride_id ` set closes = {}"
    by (rule image_disjoint)
  moreover have "fst ` set (map close_entry closes) = cr_ride_id ` set closes"
    by (simp add: image_comp o_def close_entry_def)
  ultimately have "fst ` set (closes_tbl (sz_store s)) \<inter> fst ` set (map close_entry closes) = {}"
    by (simp only:)
  with dist have dc: "dict_ok (closes_tbl (sz_store s) @ map close_entry closes)"
    using ok unfolding dict_append store_ok_def by blast
  from append_batch_exact [OF st dj dc] jr show
    "journal_tbl st = journal_tbl (sz_store s) @ map journal_entry ?j"
    "closes_tbl st = closes_tbl (sz_store s) @ map close_entry closes" by simp_all
qed

text \<open>The input consumed after the batch.\<close>

lemma consumed_after:
  assumes "input_ok cd input parts ride_part" "next_batch input parts lg msgs" "p \<in> set parts"
    and "off' = (if part_records p msgs = [] then position lg p
                 else m_offset (last (part_records p msgs)) + 1)"
  shows "before_offset off' (input p) = before_offset (position lg p) (input p) @ part_records p msgs"
proof -
  obtain n where "part_records p msgs = take n (from_offset (position lg p) (input p))"
    using next_batchD [OF assms(2,3)] .
  from before_after_run [OF input_okD(1) [OF assms(1,3)] this assms(4)] show ?thesis .
qed

lemma events_after:
  assumes "input_ok cd input parts ride_part" "next_batch input parts lg msgs" "ride_part r \<in> set parts"
    and "off' = (if part_records (ride_part r) msgs = [] then position lg (ride_part r)
                 else m_offset (last (part_records (ride_part r) msgs)) + 1)"
  shows "events_before cd input ride_part r off' =
     events_before cd input ride_part r (position lg (ride_part r)) @ ride_events cd r msgs"
  using consumed_after [OF assms] ride_events_part [OF batch_keyed [OF assms(1,2)], of r]
  by (simp add: events_before_def ride_events_append)

lemma part_sorted:
  assumes "input_ok cd input parts ride_part" "next_batch input parts lg msgs"
  shows "sorted (map m_offset (part_records p msgs))"
proof (cases "part_records p msgs = []")
  case False
  then obtain m where "m \<in> set msgs" "is_record m" "m_partition m = p"
    by (auto simp: part_records_def filter_empty_conv)
  with batch_record(1) [OF assms(1,2)] have p: "p \<in> set parts" by force
  obtain n where "part_records p msgs = take n (from_offset (position lg p) (input p))"
    using next_batchD [OF assms(2) p] .
  with sorted_take_from [OF input_okD(1) [OF assms(1) p]] show ?thesis by (simp add: sorted_less)
qed simp

definition row_of :: "int \<Rightarrow> string \<Rightarrow> (int \<times> int) \<times> string \<times> payload \<Rightarrow> bool" where
  "row_of q r x \<longleftrightarrow> fst (fst x) = q \<and> fst (snd x) = r"

lemma row_of_eq: "(\<lambda>((p, _), ride, _). p = q \<and> ride = r) = row_of q r"
  by (auto simp: row_of_def fun_eq_iff)

lemma row_of_entry: "row_of q r (journal_entry x) \<longleftrightarrow> jr_partition x = q \<and> jr_ride_id x = r"
  by (simp add: row_of_def journal_entry_def)

lemma new_rows_sorted:
  assumes "sorted (map m_offset (part_records q ms))"
  shows "sorted (map (\<lambda>x. snd (fst x)) (filter (row_of q r) (map journal_entry (journal_rows cd st ms))))"
  using assms
proof (induction ms)
  case (Cons m ms)
  have tl: "sorted (map m_offset (part_records q ms))"
    using Cons.prems by (auto simp: part_records_def split: if_splits)
  note IH = Cons.IH [OF tl]
  show ?case
  proof (cases "clean_of cd m")
    case None
    with IH show ?thesis by (simp add: journal_rows_Cons)
  next
    case (Some rv)
    let ?x = "\<lparr>jr_partition = m_partition m, jr_offset = m_offset m, jr_ride_id = fst rv, jr_value = snd rv\<rparr>"
    have le: "m_offset m \<le> jr_offset y"
      if mq: "m_partition m = q" and y: "y \<in> set (journal_rows cd st ms)" and yq: "jr_partition y = q" for y
    proof -
      from journal_rows_in [OF y] obtain m' where m': "m' \<in> set ms" "is_record m'"
        "m_partition m' = q" "m_offset m' = jr_offset y"
        using yq clean_record by fastforce
      then have "m' \<in> set (part_records q ms)" by (simp add: part_records_def)
      with Cons.prems mq clean_record [OF Some] m'(4) show ?thesis
        by (auto simp: part_records_def)
    qed
    have eq: "journal_rows cd st (m # ms) =
        (if is_closed st (fst rv) then journal_rows cd st ms else ?x # journal_rows cd st ms)"
      by (cases rv) (simp add: journal_rows_Cons Some)
    have "sorted (map (\<lambda>x. snd (fst x)) (filter (row_of q r) (map journal_entry (?x # journal_rows cd st ms))))"
    proof (cases "row_of q r (journal_entry ?x)")
      case True
      then have "m_partition m = q" by (simp add: row_of_entry)
      from le [OF this] have "snd (fst (journal_entry ?x)) \<le> snd (fst y)"
        if "y \<in> set (filter (row_of q r) (map journal_entry (journal_rows cd st ms)))" for y
        using that by (auto simp: row_of_entry fst_journal_entry)
      with IH True show ?thesis by simp
    next
      case False
      with IH show ?thesis by simp
    qed
    with IH show ?thesis unfolding eq by presburger
  qed
qed (simp add: journal_rows_def)

lemma ride_rows_after:
  assumes "input_ok cd input parts ride_part" "next_batch input parts (sz_log s) msgs"
    and mem: "memory_ok ride_part s" and "\<not> is_closed (sz_store s) r"
    and j: "journal_tbl st = journal_tbl (sz_store s) @ map journal_entry (journal_rows cd (sz_store s) msgs)"
  shows "ride_rows st (ride_part r) r = ride_rows (sz_store s) (ride_part r) r @ ride_events cd r msgs"
proof -
  let ?old = "filter (row_of (ride_part r) r) (journal_tbl (sz_store s))"
  let ?new = "filter (row_of (ride_part r) r) (map journal_entry (journal_rows cd (sz_store s) msgs))"
  have le: "\<forall>x \<in> set ?old. \<forall>y \<in> set ?new. (snd \<circ> fst) x \<le> (snd \<circ> fst) y"
  proof (intro ballI)
    fix x y assume x: "x \<in> set ?old" and y: "y \<in> set ?new"
    from y obtain jr where jr: "jr \<in> set (journal_rows cd (sz_store s) msgs)" "y = journal_entry jr" by auto
    have "snd (fst x) < position (sz_log s) (ride_part r)"
      using memory_below(1) [OF mem, of x] x by (auto simp: row_of_def)
    moreover have "position (sz_log s) (ride_part r) \<le> snd (fst y)"
      using batch_journal_new(3) [OF assms(1,2) jr(1)] y jr(2) by (auto simp: row_of_def fst_journal_entry)
    ultimately show "(snd \<circ> fst) x \<le> (snd \<circ> fst) y" by simp
  qed
  have sorted: "sorted (map (snd \<circ> fst) ?new)"
    using new_rows_sorted [OF part_sorted [OF assms(1,2)], of "ride_part r" r cd "sz_store s"]
    by (simp add: o_def)
  show ?thesis
    unfolding ride_rows_def j row_of_eq filter_append sort_key_append [OF le sorted] map_append
      new_ride_rows [OF batch_keyed [OF assms(1,2)] assms(4), unfolded row_of_eq] ..
qed

section \<open>What the batch publishes\<close>

lemma filter_topic:
  assumes "map Inr recs = map f xs" "\<forall>x \<in> set xs. \<forall>y. f x = Inr y \<longrightarrow> fst y = T'"
  shows "map Inr (filter (\<lambda>y. fst y = T) recs) = (if T = T' then map f xs else [])"
  using assms
proof (induction recs arbitrary: xs)
  case (Cons y recs)
  then obtain x xs' where xs: "xs = x # xs'" by (cases xs) auto
  with Cons.prems(1) have f: "f x = Inr y" and r: "map Inr recs = map f xs'" by simp_all
  have "fst y = T'" using Cons.prems(2) f xs by (cases y) simp
  moreover have "\<forall>x \<in> set xs'. \<forall>y. f x = Inr y \<longrightarrow> fst y = T'" using Cons.prems(2) xs by simp
  ultimately show ?case using Cons.IH [OF r] f xs by (cases "T = T'") simp_all
qed simp

lemma published_after:
  "published (lg @ KBegin # tx_ops recs b @ [KCommit]) T =
     published lg T @ map Inr (filter (\<lambda>x. fst x = T) recs)"
proof -
  have "map (\<lambda>(k, v). Inr (T, k, v) :: exn + krecord) (map snd (filter (\<lambda>x. fst x = T) recs)) =
      map Inr (filter (\<lambda>x. fst x = T) recs)"
    by (induction recs) auto
  then show ?thesis by (simp only: published_def records_after map_append)
qed

lemma tx_records_split:
  assumes "tx_records cd sessions b = map Inr recs"
  obtains r1 r2 r3 where "recs = r1 @ r2 @ r3" "map Inr r1 = map (session_record_of cd) sessions"
    "map Inr r2 = map (clean_record_of cd) (b_clean b)" "map Inr r3 = map dlq_record_of (b_poisons b)"
  using assms unfolding tx_records_def
  by (auto simp: append_eq_map_conv intro: that)

lemma record_topics:
  "session_record_of cd x = Inr y \<Longrightarrow> fst y = RIDES_SESSIONS"
  "clean_record_of cd x = Inr y \<Longrightarrow> fst y = RIDES_EVENTS_CLEAN"
  "dlq_record_of e = Inr y \<Longrightarrow> fst y = dlq_topic (source_topic e)"
  by (auto simp: session_record_of_def clean_record_of_def dlq_record_of_def rbind_eq_Inr)

lemma published_batch:
  assumes "tx_records cd sessions b = map Inr recs"
    and "\<forall>e \<in> set (b_poisons b). source_topic e = RIDES_EVENTS"
  shows "map Inr (filter (\<lambda>x. fst x = RIDES_SESSIONS) recs) = map (session_record_of cd) sessions"
    and "map Inr (filter (\<lambda>x. fst x = RIDES_EVENTS_CLEAN) recs) = map (clean_record_of cd) (b_clean b)"
    and "map Inr (filter (\<lambda>x. fst x = dlq_topic RIDES_EVENTS) recs) = map dlq_record_of (b_poisons b)"
proof -
  obtain r1 r2 r3 where r: "recs = r1 @ r2 @ r3"
    "map Inr r1 = map (session_record_of cd) sessions"
    "map Inr r2 = map (clean_record_of cd) (b_clean b)" "map Inr r3 = map dlq_record_of (b_poisons b)"
    by (rule tx_records_split [OF assms(1)])
  have "\<forall>x \<in> set (b_poisons b). \<forall>y. dlq_record_of x = Inr y \<longrightarrow> fst y = dlq_topic RIDES_EVENTS"
    using record_topics(3) assms(2) by metis
  note f = filter_topic [OF r(4) this]
  have "\<forall>x \<in> set sessions. \<forall>y. session_record_of cd x = Inr y \<longrightarrow> fst y = RIDES_SESSIONS"
    using record_topics(1) by metis
  note f = f filter_topic [OF r(2) this]
  have "\<forall>x \<in> set (b_clean b). \<forall>y. clean_record_of cd x = Inr y \<longrightarrow> fst y = RIDES_EVENTS_CLEAN"
    using record_topics(2) by metis
  note f = f filter_topic [OF r(3) this]
  show "map Inr (filter (\<lambda>x. fst x = RIDES_SESSIONS) recs) = map (session_record_of cd) sessions"
    "map Inr (filter (\<lambda>x. fst x = RIDES_EVENTS_CLEAN) recs) = map (clean_record_of cd) (b_clean b)"
    "map Inr (filter (\<lambda>x. fst x = dlq_topic RIDES_EVENTS) recs) = map dlq_record_of (b_poisons b)"
    by (simp_all add: r(1) f)
qed

lemma clean_events_records: "clean_events cd (filter is_record ms) = clean_events cd ms"
  by (induction ms) (auto simp: clean_events_def dest: clean_record split: option.split)

lemma poison_record: "poison_of cd m = Some e \<Longrightarrow> is_record m"
  by (auto simp: poison_of_def is_record_def split: if_splits)

lemma dead_letters_records: "dead_letters cd cfg (filter is_record ms) = dead_letters cd cfg ms"
  by (induction ms) (auto simp: dead_letters_def dest: poison_record split: option.split)

lemma dead_letters_topic:
  assumes "\<And>m. m \<in> set ms \<Longrightarrow> is_record m \<Longrightarrow> m_topic m = T"
  shows "\<forall>e \<in> set (dead_letters cd cfg ms). source_topic e = T"
  using assms
proof (induction ms)
  case (Cons m ms)
  have "source_topic (build_envelope (clock cd m) m e (cfg_group_id cfg)) = T" if "poison_of cd m = Some e" for e
    using Cons.prems [of m] poison_record [OF that] by (simp add: build_envelope_def)
  with Cons show ?case by (auto simp: dead_letters_def split: option.split)
qed (simp add: dead_letters_def)

lemma dead_letters_append [simp]:
  "dead_letters cd cfg (xs @ ys) = dead_letters cd cfg xs @ dead_letters cd cfg ys"
  by (simp add: dead_letters_def)

section \<open>Preservation\<close>

lemma hist_after:
  assumes "input_ok cd input parts ride_part" "next_batch input parts lg msgs" "hist_ok input parts lg h"
    and pos: "\<And>p. position lg' p = (if part_records p msgs = [] then position lg p
                 else m_offset (last (part_records p msgs)) + 1)"
  shows "hist_ok input parts lg' (h @ filter is_record msgs)"
proof -
  have "part_records p (h @ filter is_record msgs) = before_offset (position lg' p) (input p)"
    if "p \<in> set parts" for p
  proof -
    have "part_records p (h @ filter is_record msgs) = part_records p h @ part_records p msgs"
      by (simp add: part_records_def conj_commute)
    moreover have "part_records p h = before_offset (position lg p) (input p)"
      using assms(3) that by (simp add: hist_ok_def list_all_iff)
    ultimately show ?thesis using consumed_after [OF assms(1,2) that pos] by simp
  qed
  then show ?thesis
    using assms(3) batch_record(1) [OF assms(1,2)] by (auto simp: hist_ok_def list_all_iff)
qed

lemma map_of_fold_delete:
  "map_of (fold (\<lambda>c. AList.delete (f c)) cs d) k = (if k \<in> f ` set cs then None else map_of d k)"
  by (induction cs arbitrary: d) auto

lemma dict_fold_delete_ok: "dict_ok d \<Longrightarrow> dict_ok (fold (\<lambda>c. AList.delete (f c)) cs d)"
  by (induction cs arbitrary: d) (simp_all add: dict_delete_ok)

text \<open>The parts of a batch that returned, started in a state that satisfies the invariant.\<close>

definition batch_done :: "codec \<Rightarrow> SessionizerConfig \<Rightarrow> (int \<Rightarrow> msg list) \<Rightarrow> int list \<Rightarrow> (string \<Rightarrow> int)
    \<Rightarrow> szr \<Rightarrow> msg list \<Rightarrow> msg list \<Rightarrow> batch \<Rightarrow> szr \<Rightarrow> CloseRow list \<Rightarrow> StateStore \<Rightarrow> krecord list \<Rightarrow> bool" where
  "batch_done cd cfg input parts ride_part s hist msgs b s1 closes st recs \<longleftrightarrow>
     input_ok cd input parts ride_part \<and> next_batch input parts (sz_log s) msgs
     \<and> memory_ok ride_part s
     \<and> durable_ok cd cfg input parts ride_part (sz_log s) (sz_store s) hist
     \<and> handle_msgs cd cfg msgs (new_batch, s) = (Ret (), b, s1)
     \<and> collect_closes cfg (b_state b) s1 (sz_accs s1) = Inr closes
     \<and> append_batch (sz_store s) (b_journal b) closes = Inr st
     \<and> tx_records cd (map cr_session closes) b = map Inr recs"

abbreviation log_after :: "szr \<Rightarrow> krecord list \<Rightarrow> batch \<Rightarrow> klog" where
  "log_after s recs b \<equiv> sz_log s @ KBegin # tx_ops recs b @ [KCommit]"

lemma batch_doneD:
  assumes "batch_done cd cfg input parts ride_part s hist msgs b s1 closes st recs"
  shows "input_ok cd input parts ride_part" "next_batch input parts (sz_log s) msgs"
    "memory_ok ride_part s" "store_ok (sz_store s)"
    "handle_msgs cd cfg msgs (new_batch, s) = (Ret (), b, s1)"
    "collect_closes cfg (b_state b) s1 (sz_accs s1) = Inr closes"
    "append_batch (sz_store s) (b_journal b) closes = Inr st"
    "tx_records cd (map cr_session closes) b = map Inr recs"
    "hist_ok input parts (sz_log s) hist"
    "outputs_ok cd cfg (sz_log s) (sz_store s) hist"
    "closes_ok cd input ride_part (sz_store s)"
    "open_ok cd input parts ride_part (sz_log s) (sz_store s)"
    "located ride_part parts st"
  using assms appended_durable(2) by (auto simp: batch_done_def durable_ok_def memory_ok_def)

lemma batch_position:
  assumes "batch_done cd cfg input parts ride_part s hist msgs b s1 closes st recs"
  shows "position (log_after s recs b) p =
    (if part_records p msgs = [] then position (sz_log s) p
     else m_offset (last (part_records p msgs)) + 1)"
  by (rule position_after [OF batch_doneD(5,1,2) [OF assms]])

lemma batch_position_le:
  assumes "batch_done cd cfg input parts ride_part s hist msgs b s1 closes st recs"
  shows "position (sz_log s) p \<le> position (log_after s recs b) p"
proof (cases "part_records p msgs = []")
  case False
  have "position (sz_log s) p \<le> m_offset m" if "m \<in> set (part_records p msgs)" for m
    using batch_record(3) [OF batch_doneD(1,2) [OF assms], of m] that by (auto simp: part_records_def)
  from this [OF last_in_set [OF False]]
  have "position (sz_log s) p \<le> m_offset (last (part_records p msgs))" .
  with batch_position [OF assms, of p] False show ?thesis by simp
qed (simp add: batch_position [OF assms])

lemma batch_position_gt:
  assumes "batch_done cd cfg input parts ride_part s hist msgs b s1 closes st recs"
    and "m \<in> set msgs" "is_record m"
  shows "m_offset m < position (log_after s recs b) (m_partition m)"
proof -
  have m: "m \<in> set (part_records (m_partition m) msgs)" using assms(2,3) by (simp add: part_records_def)
  then have "part_records (m_partition m) msgs \<noteq> []" by auto
  with batch_position [OF assms(1), of "m_partition m"]
    batch_below_last [OF batch_doneD(1,2) [OF assms(1)] m] show ?thesis by simp
qed

lemma batch_close_done:
  assumes "batch_done cd cfg input parts ride_part s hist msgs b s1 closes st recs"
    and "c \<in> set closes"
  obtains a t where "map_of (sz_accs s1) (cr_ride_id c) = Some a"
    "build_session a t = Inr (cr_session c)" "\<not> is_closed (sz_store s) (cr_ride_id c)"
    "ride_part (cr_ride_id c) = cr_partition c" "cr_partition c \<in> set parts"
    "cr_offset c + 1 = position (log_after s recs b) (cr_partition c)"
proof (rule batch_close [OF batch_doneD(1,2,3,5,6) [OF assms(1)] assms(2)])
  fix a t assume "map_of (sz_accs s1) (cr_ride_id c) = Some a"
    "build_session a t = Inr (cr_session c)" "\<not> is_closed (sz_store s) (cr_ride_id c)"
    "ride_part (cr_ride_id c) = cr_partition c" "cr_partition c \<in> set parts"
    "part_records (cr_partition c) msgs \<noteq> []"
    "cr_offset c = m_offset (last (part_records (cr_partition c) msgs))"
  with batch_position [OF assms(1), of "cr_partition c"] show thesis
    by (intro that [of a t]) simp_all
qed

lemma batch_store:
  assumes "batch_done cd cfg input parts ride_part s hist msgs b s1 closes st recs"
  shows "journal_tbl st = journal_tbl (sz_store s) @ map journal_entry (journal_rows cd (sz_store s) msgs)"
    "closes_tbl st = closes_tbl (sz_store s) @ map close_entry closes" "store_ok st"
  using appended_exact [OF batch_doneD(1,2,3,4,5,6,7) [OF assms]]
    store_ok_append [OF batch_doneD(4,7) [OF assms]] by simp_all

lemma batch_below:
  assumes bd: "batch_done cd cfg input parts ride_part s hist msgs b s1 closes st recs"
  shows "below (position (log_after s recs b)) st = st"
proof -
  let ?c = "position (sz_log s)" and ?c' = "position (log_after s recs b)"
  note below = memory_below [OF batch_doneD(3) [OF bd]] and le = batch_position_le [OF bd]
  have j: "snd (fst x) < ?c' (fst (fst x))" if "x \<in> set (journal_tbl st)" for x
  proof (cases "x \<in> set (journal_tbl (sz_store s))")
    case True
    from below(1) [OF this] le [of "fst (fst x)"] show ?thesis by simp
  next
    case False
    with that batch_store(1) [OF bd] obtain y where
      y: "y \<in> set (journal_rows cd (sz_store s) msgs)" "x = journal_entry y" by auto
    from journal_rows_in [OF y(1)] obtain m where "m \<in> set msgs" "is_record m"
      "jr_partition y = m_partition m" "jr_offset y = m_offset m" using clean_record by blast
    with batch_position_gt [OF bd] y(2) show ?thesis by (simp add: fst_journal_entry)
  qed
  have c: "snd (fst (snd x)) < ?c' (fst (fst (snd x)))" if "x \<in> set (closes_tbl st)" for x
  proof (cases "x \<in> set (closes_tbl (sz_store s))")
    case True
    from below(2) [OF this] le [of "fst (fst (snd x))"] show ?thesis by simp
  next
    case False
    with that batch_store(2) [OF bd] obtain k where k: "k \<in> set closes" "x = close_entry k" by auto
    from k(1) have "cr_offset k + 1 = ?c' (cr_partition k)" by (rule batch_close_done [OF bd])
    with k(2) show ?thesis by (simp add: close_entry_def)
  qed
  from j c show ?thesis by (simp add: below_def)
qed

lemma batch_outputs:
  assumes bd: "batch_done cd cfg input parts ride_part s hist msgs b s1 closes st recs"
  shows "outputs_ok cd cfg (log_after s recs b) st (hist @ filter is_record msgs)"
proof -
  note lists = loop_lists [OF batch_doneD(5) [OF bd]]
  have "\<forall>e \<in> set (b_poisons b). source_topic e = RIDES_EVENTS"
    using lists dead_letters_topic [of msgs RIDES_EVENTS cd cfg]
      batch_record(4) [OF batch_doneD(1,2) [OF bd]] by simp
  note pub = published_batch [OF batch_doneD(8) [OF bd] this]
  from batch_doneD(10) [OF bd] show ?thesis
    unfolding outputs_ok_def published_after pub batch_store(2) [OF bd]
    by (simp add: lists clean_events_records dead_letters_records close_entry_def o_def)
qed

lemma batch_events:
  assumes bd: "batch_done cd cfg input parts ride_part s hist msgs b s1 closes st recs"
    and "ride_part r \<in> set parts"
  shows "events_before cd input ride_part r (position (log_after s recs b) (ride_part r)) =
    events_before cd input ride_part r (position (sz_log s) (ride_part r)) @ ride_events cd r msgs"
  by (rule events_after [OF batch_doneD(1,2) [OF bd] assms(2) batch_position [OF bd]])

lemma open_okD:
  assumes "open_ok cd input parts ride_part lg st" "ride_part r \<in> set parts" "\<not> is_closed st r"
  shows "ride_rows st (ride_part r) r = events_before cd input ride_part r (position lg (ride_part r))"
    and "add_events (new_acc r) (ride_rows st (ride_part r) r) = Inr a \<Longrightarrow> terminal a = None"
  using assms unfolding open_ok_def by blast+

lemma batch_closes_ok:
  assumes bd: "batch_done cd cfg input parts ride_part s hist msgs b s1 closes st recs"
  shows "closes_ok cd input ride_part st"
proof -
  have "\<exists>a t. add_events (new_acc (cr_ride_id c)) (events_before cd input ride_part (cr_ride_id c) (cr_offset c + 1)) = Inr a
      \<and> build_session a t = Inr (cr_session c)" if c: "c \<in> set closes" for c
  proof (rule batch_close_done [OF bd c])
    fix a t
    assume a: "map_of (sz_accs s1) (cr_ride_id c) = Some a" "build_session a t = Inr (cr_session c)"
      and op: "\<not> is_closed (sz_store s) (cr_ride_id c)"
      and p: "ride_part (cr_ride_id c) = cr_partition c" "cr_partition c \<in> set parts"
      and off: "cr_offset c + 1 = position (log_after s recs b) (cr_partition c)"
    have "ride_rows (sz_store s) (cr_partition c) (cr_ride_id c) =
        events_before cd input ride_part (cr_ride_id c) (position (sz_log s) (cr_partition c))"
      using open_okD(1) [OF batch_doneD(12) [OF bd] _ op] p by simp
    moreover have "add_events (new_acc (cr_ride_id c))
        (ride_rows (sz_store s) (cr_partition c) (cr_ride_id c) @ ride_events cd (cr_ride_id c) msgs) = Inr a"
      using batch_accs [OF batch_doneD(1,2,3,5) [OF bd], of "cr_ride_id c"] a(1) p(1) by simp
    moreover have "events_before cd input ride_part (cr_ride_id c) (cr_offset c + 1) =
        events_before cd input ride_part (cr_ride_id c) (position (sz_log s) (cr_partition c))
        @ ride_events cd (cr_ride_id c) msgs"
      using batch_events [OF bd, of "cr_ride_id c"] p off by simp
    ultimately show ?thesis using a(2) by auto
  qed
  then have "list_all (close_ok cd input ride_part) (map close_entry closes)"
    by (simp add: close_ok_def close_entry_def list_all_iff)
  with batch_doneD(11) [OF bd] show ?thesis
    by (simp add: closes_ok_def batch_store(2) [OF bd])
qed

lemma batch_is_closed:
  assumes bd: "batch_done cd cfg input parts ride_part s hist msgs b s1 closes st recs"
  shows "is_closed st r \<longleftrightarrow> is_closed (sz_store s) r \<or> r \<in> cr_ride_id ` set closes"
  by (force simp: is_closed_def batch_store(2) [OF bd] map_of_eq_None_iff close_entry_def)

lemma batch_open_ok:
  assumes bd: "batch_done cd cfg input parts ride_part s hist msgs b s1 closes st recs"
  shows "open_ok cd input parts ride_part (log_after s recs b) st"
  unfolding open_ok_def
proof (intro allI impI)
  fix r assume "ride_part r \<in> set parts \<and> \<not> is_closed st r"
  then have p: "ride_part r \<in> set parts" and op: "\<not> is_closed (sz_store s) r" and nc: "r \<notin> cr_ride_id ` set closes"
    using batch_is_closed [OF bd] by auto
  let ?p = "ride_part r"
  have old: "ride_rows (sz_store s) ?p r = events_before cd input ride_part r (position (sz_log s) ?p)"
    "\<And>a. add_events (new_acc r) (ride_rows (sz_store s) ?p r) = Inr a \<Longrightarrow> terminal a = None"
    using open_okD [OF batch_doneD(12) [OF bd] p op] by auto
  have rows: "ride_rows st ?p r = ride_rows (sz_store s) ?p r @ ride_events cd r msgs"
    by (rule ride_rows_after [OF batch_doneD(1,2,3) [OF bd] op batch_store(1) [OF bd]])
  have eq: "ride_rows st ?p r = events_before cd input ride_part r (position (log_after s recs b) ?p)"
    using batch_events [OF bd p] rows old(1) by simp
  have "terminal a = None" if a: "add_events (new_acc r) (ride_rows st ?p r) = Inr a" for a
  proof (cases "ride_events cd r msgs = []")
    case True
    with old(2) a rows show ?thesis by simp
  next
    case False
    with batch_accs [OF batch_doneD(1,2,3,5) [OF bd], of r] a rows op
    have acc: "map_of (sz_accs s1) r = Some a" "map_of (sz_acc_partition s1) r = Some ?p"
      by (auto split: option.splits)
    have "map_of (b_state b) ?p \<noteq> None"
    proof -
      have "part_records ?p msgs \<noteq> []"
        using False ride_events_part [OF batch_keyed [OF batch_doneD(1,2) [OF bd]], of r]
        by (auto simp: ride_events_def clean_events_def)
      with loop_state [OF batch_doneD(5) [OF bd]] show ?thesis by (simp add: part_offsets_eq)
    qed
    from collect_closes_all [OF batch_doneD(6) [OF bd] map_of_SomeD [OF acc(1)] _ acc(2) this] nc
    show ?thesis by blast
  qed
  with eq show "ride_rows st ?p r = events_before cd input ride_part r (position (log_after s recs b) ?p) \<and>
      (\<forall>a. add_events (new_acc r) (ride_rows st ?p r) = Inr a \<longrightarrow> terminal a = None)" by blast
qed

lemma batch_memory:
  assumes bd: "batch_done cd cfg input parts ride_part s hist msgs b s1 closes st recs"
    and s': "sz_log s' = log_after s recs b" "sz_store s' = st"
      "sz_accs s' = fold (\<lambda>c. AList.delete (cr_ride_id c)) closes (sz_accs s1)"
      "sz_acc_partition s' = fold (\<lambda>c. AList.delete (cr_ride_id c)) closes (sz_acc_partition s1)"
  shows "memory_ok ride_part s'"
  unfolding memory_ok_def s' map_of_fold_delete
proof (intro conjI allI)
  show "below (position (log_after s recs b)) st = st" by (rule batch_below [OF bd])
  show "dict_ok (fold (\<lambda>c. AList.delete (cr_ride_id c)) closes (sz_accs s1))"
    using loop_accs_ok [OF batch_doneD(5) [OF bd]] batch_doneD(3) [OF bd]
    by (simp add: dict_fold_delete_ok memory_ok_def)
  fix r
  have rows: "ride_rows st (ride_part r) r = ride_rows (sz_store s) (ride_part r) r @ ride_events cd r msgs"
    if "\<not> is_closed (sz_store s) r"
    by (rule ride_rows_after [OF batch_doneD(1,2,3) [OF bd] that batch_store(1) [OF bd]])
  show "case if r \<in> cr_ride_id ` set closes then None else map_of (sz_accs s1) r of
      None \<Rightarrow> is_closed st r \<or> ride_rows st (ride_part r) r = []
    | Some a \<Rightarrow> \<not> is_closed st r \<and> ride_rows st (ride_part r) r \<noteq> []
        \<and> add_events (new_acc r) (ride_rows st (ride_part r) r) = Inr a
        \<and> (if r \<in> cr_ride_id ` set closes then None else map_of (sz_acc_partition s1) r) = Some (ride_part r)"
    using batch_accs [OF batch_doneD(1,2,3,5) [OF bd], of r] rows batch_is_closed [OF bd, of r]
    by (cases "is_closed (sz_store s) r") (auto split: option.splits)
qed

theorem batch_ok_preserves:
  assumes "input_ok cd input parts ride_part" "next_batch input parts (sz_log s) msgs"
    and "memory_ok ride_part s"
    and "durable_ok cd cfg input parts ride_part (sz_log s) (sz_store s) hist"
    and "process_batch fault cd cfg msgs s = (Ret sessions, s')"
  shows "durable_ok cd cfg input parts ride_part (sz_log s') (sz_store s') (hist @ filter is_record msgs)"
    and "memory_ok ride_part s'"
proof -
  from process_batch_cases [OF assms(5)] obtain b s1 closes st recs where
    h: "handle_msgs cd cfg msgs (new_batch, s) = (Ret (), b, s1)"
    "collect_closes cfg (b_state b) s1 (sz_accs s1) = Inr closes"
    "append_batch (sz_store s) (b_journal b) closes = Inr st"
    "tx_records cd (map cr_session closes) b = map Inr recs"
    and s': "s' = forget_closed closes (s1\<lparr>sz_store := st, sz_log := log_after s recs b,
            sz_emitted := sz_emitted s1 + length closes\<rparr>)"
    by auto
  have bd: "batch_done cd cfg input parts ride_part s hist msgs b s1 closes st recs"
    using assms(1-4) h by (simp add: batch_done_def)
  have "hist_ok input parts (log_after s recs b) (hist @ filter is_record msgs)"
    by (rule hist_after [OF assms(1,2) batch_doneD(9) [OF bd]]) (rule batch_position [OF bd])
  then show "durable_ok cd cfg input parts ride_part (sz_log s') (sz_store s') (hist @ filter is_record msgs)"
    using batch_outputs [OF bd] batch_closes_ok [OF bd] batch_open_ok [OF bd] batch_store(3) [OF bd]
      batch_doneD(13) [OF bd] batch_below [OF bd]
    by (simp add: durable_ok_def s' forget_closed_def)
  show "memory_ok ride_part s'"
    by (rule batch_memory [OF bd]) (simp_all add: s' forget_closed_def)
qed

end
