(* ===== verification/Sessionizer_Recovery.thy ===== *)
theory Sessionizer_Recovery
  imports Sessionizer_Step
begin

text \<open>
  Restart: rolling back, purging and refolding on assignment re-establishes the invariant of
  a running process; and the end-to-end properties of the sessionizer, for every sequence of
  batches, failures, crashes and restarts.
\<close>

section \<open>Loading the open rides\<close>

lemma load_rides_durable:
  "load_rides p d s = (r, s') \<Longrightarrow> sz_store s' = sz_store s \<and> sz_log s' = sz_log s"
proof (induction p d s rule: load_rides.induct)
  case (2 p ride events rest s)
  then show ?case by (auto split: sum.splits)
qed simp

lemma load_rides_Ret:
  assumes "load_rides p d s = (Ret (), s')" "dict_ok d"
  shows "case map_of d r of
      None \<Rightarrow> map_of (sz_accs s') r = map_of (sz_accs s) r
        \<and> map_of (sz_acc_partition s') r = map_of (sz_acc_partition s) r
    | Some events \<Rightarrow> \<exists>a. add_events (new_acc r) events = Inr a \<and> map_of (sz_accs s') r = Some a
        \<and> map_of (sz_acc_partition s') r = Some p"
  using assms
proof (induction p d s rule: load_rides.induct)
  case (2 p ride events rest s)
  then obtain a where a: "add_events (new_acc ride) events = Inr a" by (auto split: sum.splits)
  let ?s = "s\<lparr>sz_accs := AList.update ride a (sz_accs s),
             sz_acc_partition := AList.update ride p (sz_acc_partition s)\<rparr>"
  from "2.prems"(2) have new: "map_of rest ride = None" and ok: "dict_ok rest"
    by (simp_all add: map_of_eq_None_iff)
  from "2.prems"(1) a have "load_rides p rest ?s = (Ret (), s')" by simp
  note ih = "2.IH" [OF a this ok]
  show ?case
  proof (cases "r = ride")
    case True
    with ih new a show ?thesis by simp
  next
    case False
    with ih show ?thesis by (cases "map_of rest r") simp_all
  qed
qed simp

lemma load_rides_ok:
  "load_rides p d s = (Ret (), s') \<Longrightarrow> dict_ok (sz_accs s) \<Longrightarrow> dict_ok (sz_accs s')"
proof (induction p d s rule: load_rides.induct)
  case (2 p ride events rest s)
  then show ?case by (auto split: sum.splits simp: dict_update_ok)
qed simp

section \<open>Purging\<close>

definition confirmed_rides :: "StateStore \<Rightarrow> int \<Rightarrow> int \<Rightarrow> string set" where
  "confirmed_rides st p off =
     set (map fst (filter (\<lambda>(_, (q, o'), _). q = p \<and> o' < off) (closes_tbl st)))"

lemma purge_journal:
  "journal_tbl (fst (purge_confirmed st p off)) =
     filter (\<lambda>x. fst (snd x) \<notin> confirmed_rides st p off) (journal_tbl st)"
  by (simp add: purge_confirmed_def Let_def confirmed_rides_def case_prod_unfold)

lemma ride_rows_row_of:
  "ride_rows st p r = map (snd \<circ> snd) (sort_key (snd \<circ> fst) (filter (row_of p r) (journal_tbl st)))"
  unfolding ride_rows_def row_of_eq ..

lemma ride_rows_cong:
  "filter (row_of p r) (journal_tbl st') = filter (row_of p r) (journal_tbl st) \<Longrightarrow>
     ride_rows st' p r = ride_rows st p r"
  by (simp add: ride_rows_row_of)

lemma purge_rows:
  assumes "r \<notin> confirmed_rides st p off"
  shows "ride_rows (fst (purge_confirmed st p off)) q r = ride_rows st q r"
    and "ride_rows (below c (fst (purge_confirmed st p off))) q r = ride_rows (below c st) q r"
proof -
  have "filter (row_of q r) (filter P (filter (\<lambda>x. fst (snd x) \<notin> confirmed_rides st p off) (journal_tbl st)))
      = filter (row_of q r) (filter P (journal_tbl st))" for P
    using assms by (auto simp: row_of_def intro!: filter_cong)
  from this [of "\<lambda>_. True"] this [of "\<lambda>x. snd (fst x) < c (fst (fst x))"]
  show "ride_rows (fst (purge_confirmed st p off)) q r = ride_rows st q r"
    "ride_rows (below c (fst (purge_confirmed st p off))) q r = ride_rows (below c st) q r"
    by (auto simp: below_def purge_journal intro!: ride_rows_cong)
qed

lemma confirmed_closed:
  assumes "r \<in> confirmed_rides st p (c p)"
  shows "is_closed (below c st) r"
  using assms by (auto simp: confirmed_rides_def is_closed_def below_def map_of_eq_None_iff image_iff)

lemma durable_purge:
  assumes "durable_ok cd cfg input parts ride_part lg st h"
  shows "durable_ok cd cfg input parts ride_part lg (fst (purge_confirmed st p (position lg p))) h"
proof -
  let ?st = "fst (purge_confirmed st p (position lg p))" and ?c = "position lg"
  have closes: "closes_tbl (below ?c ?st) = closes_tbl (below ?c st)" by (simp add: below_def)
  have closed: "is_closed (below ?c ?st) r = is_closed (below ?c st) r" for r
    by (simp add: is_closed_def closes)
  have "ride_rows (below ?c ?st) q r = ride_rows (below ?c st) q r" if "\<not> is_closed (below ?c st) r" for q r
    using purge_rows(2) confirmed_closed that by metis
  with assms have "open_ok cd input parts ride_part lg (below ?c ?st)"
    by (simp add: durable_ok_def open_ok_def closed)
  moreover have "located ride_part parts ?st"
    by (rule located_filter [of _ _ st]) (use assms in \<open>auto simp: durable_ok_def purge_journal\<close>)
  ultimately show ?thesis
    using assms by (simp add: durable_ok_def store_ok_purge outputs_ok_def closes_ok_def closes)
qed

section \<open>Assigning one partition\<close>

definition assigned_store :: "klog \<Rightarrow> int \<Rightarrow> StateStore \<Rightarrow> StateStore" where
  "assigned_store lg p st = fst (purge_confirmed (rollback_store p (position lg p) st) p (position lg p))"

lemma assign_partition_eq:
  "assign_partition p s =
     (let st = assigned_store (sz_log s) p (sz_store s) in
      and_then (load_rides p (open_rides st p) (s\<lparr>sz_store := st\<rparr>)) (\<lambda>s.
         (Ret (), s\<lparr>sz_partitions := AList.update p
            \<lparr>watermark_ms = (case max_journal_ts st p of None \<Rightarrow> 0 | Some ts \<Rightarrow> ts),
             max_offset_in_batch = -1\<rparr> (sz_partitions s)\<rparr>)))"
  by (simp add: assign_partition_def assigned_store_def rollback_store_def Let_def)

lemma assign_partition_durable:
  assumes "assign_partition p s = (r, s')"
  shows "sz_store s' = assigned_store (sz_log s) p (sz_store s) \<and> sz_log s' = sz_log s"
proof -
  let ?st = "assigned_store (sz_log s) p (sz_store s)"
  obtain r1 s1 where l: "load_rides p (open_rides ?st p) (s\<lparr>sz_store := ?st\<rparr>) = (r1, s1)" by fastforce
  with load_rides_durable [OF l] assms show ?thesis
    by (cases r1) (auto simp: assign_partition_eq Let_def and_then_def)
qed

lemma durable_assigned:
  assumes "durable_ok cd cfg input parts ride_part lg st h"
  shows "durable_ok cd cfg input parts ride_part lg (assigned_store lg p st) h"
  using durable_purge [OF durable_rolled [OF assms, of "[p]"]]
  by (simp add: assigned_store_def rolled_def)

lemma on_assign_durable:
  assumes "on_assign ps s = (r, s')"
    and "durable_ok cd cfg input parts ride_part (sz_log s) (sz_store s) h"
  shows "durable_ok cd cfg input parts ride_part (sz_log s') (sz_store s') h \<and> sz_log s' = sz_log s"
  using assms
proof (induction ps arbitrary: s)
  case (Cons p ps)
  obtain r1 s1 where a: "assign_partition p s = (r1, s1)" by fastforce
  note d = assign_partition_durable [OF a]
  with durable_assigned [OF Cons.prems(2)]
  have d1: "durable_ok cd cfg input parts ride_part (sz_log s1) (sz_store s1) h" by simp
  show ?case
  proof (cases "r1 = Ret ()")
    case True
    with a Cons.prems(1) have "on_assign ps s1 = (r, s')" by simp
    from Cons.IH [OF this d1] d show ?thesis by metis
  next
    case False
    with a Cons.prems(1) have "s' = s1" by (simp add: and_then_stop)
    with d1 d show ?thesis by simp
  qed
qed simp

section \<open>The accumulators after assignment\<close>

definition ride_ok :: "(string \<Rightarrow> int) \<Rightarrow> szr \<Rightarrow> string \<Rightarrow> bool" where
  "ride_ok ride_part s r \<longleftrightarrow>
     (case map_of (sz_accs s) r of
        None \<Rightarrow> is_closed (sz_store s) r \<or> ride_rows (sz_store s) (ride_part r) r = []
      | Some a \<Rightarrow> \<not> is_closed (sz_store s) r \<and> ride_rows (sz_store s) (ride_part r) r \<noteq> []
          \<and> add_events (new_acc r) (ride_rows (sz_store s) (ride_part r) r) = Inr a
          \<and> map_of (sz_acc_partition s) r = Some (ride_part r))"

text \<open>Memory as it is once the partitions \<open>done\<close> have been assigned.\<close>

definition assigned :: "(string \<Rightarrow> int) \<Rightarrow> int set \<Rightarrow> szr \<Rightarrow> bool" where
  "assigned ride_part dn s \<longleftrightarrow>
     dict_ok (sz_accs s)
     \<and> (\<forall>x \<in> set (journal_tbl (sz_store s)).
          fst (fst x) \<in> dn \<longrightarrow> snd (fst x) < position (sz_log s) (fst (fst x)))
     \<and> (\<forall>x \<in> set (closes_tbl (sz_store s)).
          fst (fst (snd x)) \<in> dn \<longrightarrow> snd (fst (snd x)) < position (sz_log s) (fst (fst (snd x))))
     \<and> (\<forall>r. if ride_part r \<in> dn then ride_ok ride_part s r else map_of (sz_accs s) r = None)"

lemma assigned_tables:
  "set (journal_tbl (assigned_store lg p st)) \<subseteq> {x \<in> set (journal_tbl st). \<not> tagged_from p (position lg p) (fst x)}"
  "set (closes_tbl (assigned_store lg p st)) = {x \<in> set (closes_tbl st). \<not> tagged_from p (position lg p) (fst (snd x))}"
  by (auto simp: assigned_store_def purge_journal)

lemma is_closed_iff: "is_closed st r \<longleftrightarrow> r \<in> fst ` set (closes_tbl st)"
  by (auto simp: is_closed_def map_of_eq_None_iff)

lemma assigned_other:
  assumes "located ride_part parts st" "ride_part r \<noteq> p"
  shows "is_closed (assigned_store lg p st) r = is_closed st r"
    and "ride_rows (assigned_store lg p st) (ride_part r) r = ride_rows st (ride_part r) r"
proof -
  have c: "fst (fst (snd x)) = ride_part (fst x)" if "x \<in> set (closes_tbl st)" for x
    using assms(1) that by (auto simp: located_def list_all_iff)
  show "is_closed (assigned_store lg p st) r = is_closed st r"
  proof -
    have "fst x = r \<longrightarrow> \<not> tagged_from p (position lg p) (fst (snd x))" if "x \<in> set (closes_tbl st)" for x
      using c [OF that] assms(2) by (auto simp: tagged_from_def)
    then show ?thesis unfolding is_closed_iff assigned_tables(2) by (auto simp only: image_iff)
  qed
  let ?rb = "rollback_store p (position lg p) st"
  have "r \<notin> confirmed_rides ?rb p (position lg p)"
    using c assms(2) by (auto simp: confirmed_rides_def)
  from purge_rows(1) [OF this]
  have "ride_rows (assigned_store lg p st) (ride_part r) r = ride_rows ?rb (ride_part r) r"
    by (simp add: assigned_store_def)
  also have "\<dots> = ride_rows st (ride_part r) r"
    using assms(2) by (intro ride_rows_cong) (auto simp: row_of_def tagged_from_def intro!: filter_cong)
  finally show "ride_rows (assigned_store lg p st) (ride_part r) r = ride_rows st (ride_part r) r" .
qed

lemma no_rows_elsewhere:
  assumes "located ride_part parts st" "ride_part r \<noteq> p"
  shows "ride_rows st p r = []"
proof -
  have "filter (row_of p r) (journal_tbl st) = []"
    using assms by (auto simp: located_def list_all_iff filter_empty_conv row_of_def)
  then show ?thesis by (simp add: ride_rows_row_of)
qed

lemma assign_partition_memory:
  assumes a: "assign_partition p s = (Ret (), s')" and mem: "assigned ride_part dn s"
    and loc: "located ride_part parts (sz_store s)" and p: "p \<notin> dn"
  shows "assigned ride_part (insert p dn) s'"
proof -
  let ?st = "assigned_store (sz_log s) p (sz_store s)"
  have loc': "located ride_part parts ?st"
    by (rule located_filter [OF loc]) (use assigned_tables [of "sz_log s" p "sz_store s"] in auto)
  from a obtain s1 where l: "load_rides p (open_rides ?st p) (s\<lparr>sz_store := ?st\<rparr>) = (Ret (), s1)"
    and s': "sz_store s' = sz_store s1" "sz_log s' = sz_log s1" "sz_accs s' = sz_accs s1"
      "sz_acc_partition s' = sz_acc_partition s1"
    by (auto simp: assign_partition_eq Let_def and_then_Ret)
  have st: "sz_store s1 = ?st" "sz_log s1 = sz_log s" using load_rides_durable [OF l] by simp_all
  note load = load_rides_Ret [OF l open_rides_ok]
  have look: "map_of (open_rides ?st p) r =
      (if is_closed ?st r \<or> ride_rows ?st p r = [] then None else Some (ride_rows ?st p r))" for r
    by (rule open_rides_lookup)
  have ride: "if ride_part r \<in> insert p dn then ride_ok ride_part s' r else map_of (sz_accs s') r = None" for r
  proof (cases "ride_part r = p")
    case True
    then have "map_of (sz_accs s) r = None" using mem p unfolding assigned_def by metis
    with load [of r] look [of r] True show ?thesis
      by (auto simp: ride_ok_def s' st split: if_splits)
  next
    case False
    with look [of r] no_rows_elsewhere [OF loc' False] load [of r]
    have eq: "map_of (sz_accs s1) r = map_of (sz_accs s) r"
      "map_of (sz_acc_partition s1) r = map_of (sz_acc_partition s) r" by simp_all
    have "if ride_part r \<in> dn then ride_ok ride_part s r else map_of (sz_accs s) r = None"
      using mem unfolding assigned_def by blast
    then show ?thesis
      using False unfolding ride_ok_def s' st assigned_other [OF loc False] eq by simp
  qed
  have ok: "dict_ok (sz_accs s')"
    using load_rides_ok [OF l] mem by (simp add: assigned_def s')
  have "snd (fst x) < position (sz_log s) (fst (fst x))"
    if "x \<in> set (journal_tbl ?st)" "fst (fst x) \<in> insert p dn" for x
    using that mem assigned_tables(1) [of "sz_log s" p "sz_store s"]
    by (auto simp: assigned_def tagged_from_def)
  moreover have "snd (fst (snd x)) < position (sz_log s) (fst (fst (snd x)))"
    if "x \<in> set (closes_tbl ?st)" "fst (fst (snd x)) \<in> insert p dn" for x
    using that mem assigned_tables(2) [of "sz_log s" p "sz_store s"]
    by (auto simp: assigned_def tagged_from_def)
  ultimately show ?thesis using ok ride unfolding assigned_def s' st by blast
qed

lemma on_assign_memory:
  assumes "on_assign ps s = (Ret (), s')" "assigned ride_part dn s"
    and "located ride_part parts (sz_store s)" "distinct ps" "set ps \<inter> dn = {}"
  shows "assigned ride_part (dn \<union> set ps) s'"
  using assms
proof (induction ps arbitrary: s dn)
  case (Cons p ps)
  from Cons.prems(1) obtain s1 where a: "assign_partition p s = (Ret (), s1)" "on_assign ps s1 = (Ret (), s')"
    by (auto simp: and_then_Ret)
  have "located ride_part parts (sz_store s1)"
    using assign_partition_durable [OF a(1)] assigned_tables [of "sz_log s" p "sz_store s"]
    by (auto intro!: located_filter [OF Cons.prems(3)])
  moreover have "assigned ride_part (insert p dn) s1"
    using assign_partition_memory [OF a(1) Cons.prems(2,3)] Cons.prems(5) by simp
  ultimately have "assigned ride_part (insert p dn \<union> set ps) s'"
    using Cons.prems(4,5) by (intro Cons.IH [OF a(2)]) auto
  then show ?case by simp
qed simp

lemma restart_memory:
  assumes "on_assign parts (new_szr st lg) = (Ret (), s')" "distinct parts"
    and d: "durable_ok cd cfg input parts ride_part lg st h"
  shows "memory_ok ride_part s'"
proof -
  have d': "durable_ok cd cfg input parts ride_part (sz_log s') (sz_store s') h" "sz_log s' = lg"
    using on_assign_durable [OF assms(1), of cd cfg input parts ride_part h] d by (auto simp: new_szr_def)
  have "assigned ride_part {} (new_szr st lg)"
    by (simp add: assigned_def new_szr_def)
  from on_assign_memory [OF assms(1) this, of parts] assms(2) d
  have a: "assigned ride_part (set parts) s'"
    by (simp add: durable_ok_def new_szr_def)
  have loc: "located ride_part parts (sz_store s')" using d'(1) by (simp add: durable_ok_def)
  have "below (position (sz_log s')) (sz_store s') = sz_store s'"
    using a loc by (auto simp: below_def assigned_def located_def list_all_iff)
  moreover have "ride_ok ride_part s' r" for r
  proof (cases "ride_part r \<in> set parts")
    case True
    with a show ?thesis unfolding assigned_def by metis
  next
    case False
    then have "filter (row_of (ride_part r) r) (journal_tbl (sz_store s')) = []"
      using loc by (auto simp: located_def list_all_iff filter_empty_conv row_of_def)
    moreover have "map_of (sz_accs s') r = None" using a False unfolding assigned_def by metis
    ultimately show ?thesis by (simp add: ride_ok_def ride_rows_row_of)
  qed
  ultimately show ?thesis using a by (simp add: memory_ok_def assigned_def ride_ok_def)
qed

section \<open>The invariant holds in every reachable state\<close>

definition sys_ok :: "codec \<Rightarrow> SessionizerConfig \<Rightarrow> (int \<Rightarrow> msg list) \<Rightarrow> int list \<Rightarrow> (string \<Rightarrow> int) \<Rightarrow> sys \<Rightarrow> bool" where
  "sys_ok cd cfg input parts ride_part x \<longleftrightarrow>
     durable_ok cd cfg input parts ride_part (sz_log (sys_szr x)) (sz_store (sys_szr x)) (sys_hist x)
     \<and> (sys_up x \<longrightarrow> memory_ok ride_part (sys_szr x))"

lemma sys_ok_init:
  assumes "input_ok cd input parts ride_part"
  shows "sys_ok cd cfg input parts ride_part sys_init"
proof -
  have "position [] p = 0" for p by (simp add: resume_offset_def committed_offset_def)
  moreover have "before_offset 0 (input p) = []" if "p \<in> set parts" for p
    using input_okD(2) [OF assms that] by (fastforce simp: before_offset_def filter_empty_conv)
  ultimately show ?thesis
    by (simp add: sys_ok_def sys_init_def new_szr_def durable_ok_def store_ok_def located_def empty_store_def
        hist_ok_def outputs_ok_def closes_ok_def open_ok_def below_def published_def committed_records_def
        part_records_def clean_events_def dead_letters_def list_all_iff events_before_def ride_events_def
        ride_rows_def terminal_def new_acc_def)
qed

lemma restart_log:
  assumes "durable_ok cd cfg input parts ride_part (sz_log s) (sz_store s) h"
  shows "durable_ok cd cfg input parts ride_part
    (sz_log (new_szr (sz_store s) (sz_log s @ [KInit]))) (sz_store (new_szr (sz_store s) (sz_log s @ [KInit]))) h"
  using durable_uncommitted [OF _ assms, of "[KInit]"] by (simp add: new_szr_def)

lemma sys_ok_step:
  assumes inp: "input_ok cd input parts ride_part"
    and "sstep cd cfg input parts x y" "sys_ok cd cfg input parts ride_part x"
  shows "sys_ok cd cfg input parts ride_part y"
  using assms(2,3)
proof (induction rule: sstep.induct)
  case (batch_ok s msgs fault sessions s' h)
  then show ?case
    using batch_ok_preserves [OF inp batch_ok(1) _ _ batch_ok(2), of h] by (simp add: sys_ok_def)
next
  case (batch_fails s msgs fault r s' e h)
  then have "\<forall>z. r \<noteq> Ret z" by auto
  with batch_fails show ?case
    using batch_fails_durable [OF inp batch_fails(1) _ batch_fails(2), of h] by (simp add: sys_ok_def)
next
  case (kill s h)
  then show ?case by (simp add: sys_ok_def)
next
  case (restart s u s' h)
  then have d: "durable_ok cd cfg input parts ride_part (sz_log s) (sz_store s) h" by (simp add: sys_ok_def)
  have "distinct parts" using inp by (simp add: input_ok_def)
  moreover have "on_assign parts (new_szr (sz_store s) (sz_log s @ [KInit])) = (Ret (), s')"
    using restart by simp
  moreover have "durable_ok cd cfg input parts ride_part (sz_log s @ [KInit]) (sz_store s) h"
    by (rule durable_uncommitted [OF _ d]) simp
  ultimately have "memory_ok ride_part s'" by (intro restart_memory)
  moreover have "durable_ok cd cfg input parts ride_part (sz_log s') (sz_store s') h"
    using on_assign_durable [OF restart(1) restart_log [OF d]] by blast
  ultimately show ?case by (simp add: sys_ok_def)
next
  case (restart_cut n s r s' h)
  then have d: "durable_ok cd cfg input parts ride_part (sz_log s) (sz_store s) h" by (simp add: sys_ok_def)
  have "durable_ok cd cfg input parts ride_part (sz_log s') (sz_store s') h"
    using on_assign_durable [OF restart_cut(1) restart_log [OF d]] by blast
  then show ?case by (simp add: sys_ok_def)
next
  case (rollback_cut p s' s h)
  then have d: "durable_ok cd cfg input parts ride_part (sz_log s) (sz_store s) h" by (simp add: sys_ok_def)
  from durable_rolled [OF d, of "[p]"] rollback_cut(2) show ?case
    by (simp add: sys_ok_def rolled_def rollback_store_def)
qed

lemma reachable_ok:
  assumes "input_ok cd input parts ride_part" "reachable cd cfg input parts x"
  shows "sys_ok cd cfg input parts ride_part x"
  using assms(2)
proof (induction rule: reachable.induct)
  case reach_init
  show ?case by (rule sys_ok_init [OF assms(1)])
next
  case (reach_step x y)
  then show ?case using sys_ok_step [OF assms(1)] by blast
qed

lemma reachable_durable:
  assumes "input_ok cd input parts ride_part" "reachable cd cfg input parts x"
  shows "durable_ok cd cfg input parts ride_part (sz_log (sys_szr x)) (sz_store (sys_szr x)) (sys_hist x)"
  using reachable_ok [OF assms] by (simp add: sys_ok_def)

end
