(* ===== verification/Sessionizer_Demo.thy ===== *)
theory Sessionizer_Demo
  imports Sessionizer_Recovery
begin

text \<open>
  A concrete run, for closed instances of the sessionizer's properties: one partition with a
  poison message, the request and the cancellation of a ride, a codec that only knows these and the
  session they give, and the state after their batch has committed.
\<close>

definition demo_session :: payload where
  "demo_session =
     [(''ride_id'', PStr ''r''), (''rider_id'', PStr ''u-1''), (''driver_id'', PNone),
      (''city_id'', PInt 1), (''terminal_state'', PStr ''cancelled''), (''event_seq'', PInt 2),
      (''requested_ts'', PInt 5), (''matched_ts'', PNone), (''driver_arrived_ts'', PNone),
      (''started_ts'', PNone), (''ended_ts'', PInt 5), (''time_to_match_sec'', PNone),
      (''time_to_pickup_sec'', PNone), (''ride_duration_sec'', PNone),
      (''haversine_distance_km'', PNone), (''avg_speed_kmh'', PNone), (''is_late_arrival'', PBool False),
      (''fare_cents'', PNone), (''surge_multiplier'', PFloat 1), (''promo_code'', PNone),
      (''pickup_lat'', PFloat 12), (''pickup_lon'', PFloat 77), (''dropoff_lat'', PNone),
      (''dropoff_lon'', PNone)]"

definition demo_codec :: codec where
  "demo_codec = \<lparr>deserialize = (\<lambda>_ v. if v = Some ''POISON'' then Inl (ValueError ''unparseable payload'')
       else Inr (sample_event ''r'' (if v = Some ''requested'' then REQUESTED else CANCELLED) 5)),
     serialize_session = (\<lambda>_ s. if s = demo_session then Inr ''S''
       else Inl (ValueError ''unexpected session'')),
     serialize_event = (\<lambda>_ _. Inr ''E''), render = (\<lambda>_. []), clock = (\<lambda>_. ''now'')\<rparr>"

definition demo_cfg :: SessionizerConfig where
  "demo_cfg = \<lparr>cfg_group_id = ''sessionizer'', cfg_session_timeout_ms = SESSION_TIMEOUT_MS_DEFAULT,
     cfg_crash_after_state_commit = False\<rparr>"

definition demo_msg :: "int \<Rightarrow> string \<Rightarrow> msg" where
  "demo_msg off v = \<lparr>m_topic = RIDES_EVENTS, m_partition = 0, m_offset = off, m_key = Some ''r'',
     m_value = Some v, m_error = None\<rparr>"

definition demo_batch :: "msg list" where
  "demo_batch = [demo_msg 0 ''POISON'', demo_msg 1 ''requested'', demo_msg 2 ''cancelled'']"

definition demo_input :: "int \<Rightarrow> msg list" where
  "demo_input p = (if p = 0 then demo_batch else [])"

definition demo_acc :: acc where
  "demo_acc = \<lparr>acc_ride_id = ''r'', acc_slots = [(1, sample_event ''r'' REQUESTED 5), (6, sample_event ''r'' CANCELLED 5)]\<rparr>"

lemma demo_build: "build_session demo_acc False = Inr demo_session"
proof -
  have get: "d_get (sample_event ''r'' e 5) ''rider_id'' = PStr ''u-1''"
    "d_get (sample_event ''r'' e 5) ''driver_id'' = PNone"
    "d_get (sample_event ''r'' e 5) ''city_id'' = PInt 1"
    "d_get (sample_event ''r'' e 5) ''pickup_lat'' = PFloat 12"
    "d_get (sample_event ''r'' e 5) ''pickup_lon'' = PFloat 77"
    "d_get (sample_event ''r'' e 5) ''dropoff_lat'' = PNone"
    "d_get (sample_event ''r'' e 5) ''dropoff_lon'' = PNone"
    "d_get (sample_event ''r'' e 5) ''fare_cents'' = PNone"
    "d_get (sample_event ''r'' e 5) ''surge_multiplier'' = PFloat 1"
    "d_get (sample_event ''r'' e 5) ''promo_code'' = PNone" for e
    by (simp_all add: sample_event_def ride_event_def Let_def d_get_def)
  show ?thesis
    by (simp add: build_session_def demo_acc_def demo_session_def terminal_def TERMINAL_STATES_def Let_def
        trip_distance_def first_of_def slot_get_def diff_sec_def last_event_ts_def slot_ts_def get)
qed

text \<open>The state after recovery from nothing, and after the batch.\<close>

definition demo_start :: szr where
  "demo_start = (new_szr empty_store [KInit])\<lparr>sz_partitions := [(0, new_pstate)]\<rparr>"

lemma demo_assign: "on_assign [0] (new_szr empty_store [KInit]) = (Ret (), demo_start)"
  by (simp add: assign_partition_def demo_start_def new_szr_def empty_store_def rollback_from_def
      purge_confirmed_def Let_def open_rides_def open_rows_def max_journal_ts_def new_pstate_def
      and_then_def List.map_filter_def)

definition demo_ops :: "kop list" where
  "demo_ops =
     [KProduce RIDES_SESSIONS (Some ''r'') ''S'', KProduce RIDES_EVENTS_CLEAN (Some ''r'') ''E'',
      KProduce RIDES_EVENTS_CLEAN (Some ''r'') ''E'',
      KProduce (dlq_topic RIDES_EVENTS) (Some ''r'')
        (envelope_bytes (build_envelope ''now'' (demo_msg 0 ''POISON'') (ValueError ''unparseable payload'') ''sessionizer'')),
      KSendOffsets [((RIDES_EVENTS, 0), 3)]]"

definition demo_end :: szr where
  "demo_end = \<lparr>sz_store = \<lparr>journal_tbl = [((0, 1), (''r'', sample_event ''r'' REQUESTED 5)), ((0, 2), (''r'', sample_event ''r'' CANCELLED 5))],
       closes_tbl = [(''r'', ((0, 2), demo_session))]\<rparr>,
     sz_accs = [], sz_acc_partition = [],
     sz_partitions = [(0, \<lparr>watermark_ms = 5, max_offset_in_batch = -1\<rparr>)],
     sz_emitted = 1, sz_poison = 1, sz_log = KInit # KBegin # demo_ops @ [KCommit]\<rparr>"

lemma sample_event_json: "json_dumps (sample_event ''r'' e 5) = Inr (sample_event ''r'' e 5)"
  by (simp add: json_dumps_def sample_event_def ride_event_def Let_def)

lemma demo_session_json: "json_dumps demo_session = Inr demo_session"
  by (simp add: json_dumps_def demo_session_def)

lemma demo_loop:
  "\<exists>b s. handle_msgs demo_codec demo_cfg demo_batch (new_batch, demo_start) = (Ret (), b, s)
     \<and> b_state b = [(0, \<lparr>watermark_ms = 0, max_offset_in_batch = 2\<rparr>)]
     \<and> b_journal b = [\<lparr>jr_partition = 0, jr_offset = 1, jr_ride_id = ''r'', jr_value = sample_event ''r'' REQUESTED 5\<rparr>,
         \<lparr>jr_partition = 0, jr_offset = 2, jr_ride_id = ''r'', jr_value = sample_event ''r'' CANCELLED 5\<rparr>]
     \<and> b_poisons b = [build_envelope ''now'' (demo_msg 0 ''POISON'') (ValueError ''unparseable payload'') ''sessionizer'']
     \<and> b_clean b = [sample_event ''r'' REQUESTED 5, sample_event ''r'' CANCELLED 5]
     \<and> s = \<lparr>sz_store = empty_store, sz_accs = [(''r'', demo_acc)], sz_acc_partition = [(''r'', 0)],
             sz_partitions = [(0, \<lparr>watermark_ms = 5, max_offset_in_batch = -1\<rparr>)],
             sz_emitted = 0, sz_poison = 1, sz_log = [KInit]\<rparr>"
  by (simp add: demo_batch_def handle_msg_def demo_msg_def Let_def demo_codec_def normalise_def
      handle_event_def demo_start_def new_szr_def empty_store_def is_closed_def open_acc_def touch_partition_def
      track_offset_def upd_default_def new_batch_def new_pstate_def demo_cfg_def new_acc_def demo_acc_def)

definition demo_close :: CloseRow where
  "demo_close = \<lparr>cr_ride_id = ''r'', cr_partition = 0, cr_offset = 2, cr_session = demo_session\<rparr>"

lemma demo_before_tx:
  "\<exists>b s. (\<forall>fault. process_batch fault demo_codec demo_cfg demo_batch demo_start =
       (case transact fault demo_codec [demo_session] b s of
          (Ret _, s) \<Rightarrow> (Ret [demo_session], forget_closed [demo_close] s)
        | (Raise e, s) \<Rightarrow> (Raise e, s) | (Die, s) \<Rightarrow> (Die, s)))
     \<and> b_state b = [(0, \<lparr>watermark_ms = 0, max_offset_in_batch = 2\<rparr>)]
     \<and> b_poisons b = [build_envelope ''now'' (demo_msg 0 ''POISON'') (ValueError ''unparseable payload'') ''sessionizer''] \<and> b_clean b = [sample_event ''r'' REQUESTED 5, sample_event ''r'' CANCELLED 5]
     \<and> s = \<lparr>sz_store = sz_store demo_end, sz_accs = [(''r'', demo_acc)], sz_acc_partition = [(''r'', 0)],
             sz_partitions = [(0, \<lparr>watermark_ms = 5, max_offset_in_batch = -1\<rparr>)],
             sz_emitted = 0, sz_poison = 1, sz_log = [KInit]\<rparr>"
proof -
  obtain b s where h: "handle_msgs demo_codec demo_cfg demo_batch (new_batch, demo_start) = (Ret (), b, s)"
    and b: "b_state b = [(0, \<lparr>watermark_ms = 0, max_offset_in_batch = 2\<rparr>)]"
      "b_journal b = [\<lparr>jr_partition = 0, jr_offset = 1, jr_ride_id = ''r'', jr_value = sample_event ''r'' REQUESTED 5\<rparr>,
         \<lparr>jr_partition = 0, jr_offset = 2, jr_ride_id = ''r'', jr_value = sample_event ''r'' CANCELLED 5\<rparr>]"
      "b_poisons b = [build_envelope ''now'' (demo_msg 0 ''POISON'') (ValueError ''unparseable payload'') ''sessionizer'']"
      "b_clean b = [sample_event ''r'' REQUESTED 5, sample_event ''r'' CANCELLED 5]"
    and s: "s = \<lparr>sz_store = empty_store, sz_accs = [(''r'', demo_acc)], sz_acc_partition = [(''r'', 0)],
             sz_partitions = [(0, \<lparr>watermark_ms = 5, max_offset_in_batch = -1\<rparr>)],
             sz_emitted = 0, sz_poison = 1, sz_log = [KInit]\<rparr>"
    using demo_loop by blast
  have trm: "terminal demo_acc = Some CANCELLED"
    by (simp add: terminal_def demo_acc_def TERMINAL_STATES_def)
  have cl: "collect_closes demo_cfg (b_state b) s (sz_accs s) = Inr [demo_close]"
    by (simp add: b s trm demo_build demo_close_def)
  have ap: "append_batch (sz_store s) (b_journal b) [demo_close] = Inr (sz_store demo_end)"
    by (simp add: append_batch_def b s journal_params_def close_params_def sample_event_json demo_session_json
        insert_or_ignore_def empty_store_def demo_end_def demo_close_def)
  have "process_batch fault demo_codec demo_cfg demo_batch demo_start =
       (case transact fault demo_codec [demo_session] b (s\<lparr>sz_store := sz_store demo_end\<rparr>) of
          (Ret _, s) \<Rightarrow> (Ret [demo_session], forget_closed [demo_close] s)
        | (Raise e, s) \<Rightarrow> (Raise e, s) | (Die, s) \<Rightarrow> (Die, s))" for fault
  proof -
    have "map cr_session [demo_close] = [demo_session]" "\<not> cfg_crash_after_state_commit demo_cfg"
      by (simp_all add: demo_close_def demo_cfg_def)
    then show ?thesis
      by (simp only: process_batch_def h cl ap prod.case out.case sum.case Let_def simp_thms if_False)
  qed
  with b(1,3,4) s show ?thesis
    by (intro exI [of _ b] exI [of _ "s\<lparr>sz_store := sz_store demo_end\<rparr>"]) simp
qed

lemma demo_id: "d_item demo_session ''ride_id'' = Inr (PStr ''r'')"
  by (simp add: d_item_def demo_session_def)

lemma demo_envelope: "source_topic (build_envelope ''now'' (demo_msg 0 ''POISON'') (ValueError ''unparseable payload'') ''sessionizer'') = RIDES_EVENTS" "m_key (demo_msg 0 ''POISON'') = Some ''r''"
  by (simp_all add: build_envelope_def demo_msg_def)

lemmas demo_tx_simps = transact_def tx_records_def session_record_of_def clean_record_of_def
  dlq_record_of_def demo_codec_def demo_id kdo_def tx_offsets_def demo_envelope

lemma demo_process: "process_batch (\<lambda>_. None) demo_codec demo_cfg demo_batch demo_start = (Ret [demo_session], demo_end)"
proof -
  from demo_before_tx obtain b s where p: "process_batch (\<lambda>_. None) demo_codec demo_cfg demo_batch demo_start =
       (case transact (\<lambda>_. None) demo_codec [demo_session] b s of
          (Ret _, s) \<Rightarrow> (Ret [demo_session], forget_closed [demo_close] s)
        | (Raise e, s) \<Rightarrow> (Raise e, s) | (Die, s) \<Rightarrow> (Die, s))"
    and b: "b_state b = [(0, \<lparr>watermark_ms = 0, max_offset_in_batch = 2\<rparr>)]"
      "b_poisons b = [build_envelope ''now'' (demo_msg 0 ''POISON'') (ValueError ''unparseable payload'') ''sessionizer'']" "b_clean b = [sample_event ''r'' REQUESTED 5, sample_event ''r'' CANCELLED 5]"
    and s: "s = \<lparr>sz_store = sz_store demo_end, sz_accs = [(''r'', demo_acc)], sz_acc_partition = [(''r'', 0)],
             sz_partitions = [(0, \<lparr>watermark_ms = 5, max_offset_in_batch = -1\<rparr>)],
             sz_emitted = 0, sz_poison = 1, sz_log = [KInit]\<rparr>" by blast
  show ?thesis
    unfolding p by (simp add: demo_tx_simps b s forget_closed_def demo_close_def)
      (simp add: demo_end_def demo_ops_def demo_codec_def)
qed

text \<open>The same batch when the process dies at the commit.\<close>

definition demo_dies :: "kcall \<Rightarrow> fault option" where
  "demo_dies c = (if c = CCommit then Some FDie else None)"

lemma demo_crash: "\<exists>s'. process_batch demo_dies demo_codec demo_cfg demo_batch demo_start = (Die, s')
    \<and> sz_store s' = sz_store demo_end \<and> sz_log s' = KInit # KBegin # demo_ops"
proof -
  from demo_before_tx obtain b s where p: "process_batch demo_dies demo_codec demo_cfg demo_batch demo_start =
       (case transact demo_dies demo_codec [demo_session] b s of
          (Ret _, s) \<Rightarrow> (Ret [demo_session], forget_closed [demo_close] s)
        | (Raise e, s) \<Rightarrow> (Raise e, s) | (Die, s) \<Rightarrow> (Die, s))"
    and b: "b_state b = [(0, \<lparr>watermark_ms = 0, max_offset_in_batch = 2\<rparr>)]"
      "b_poisons b = [build_envelope ''now'' (demo_msg 0 ''POISON'') (ValueError ''unparseable payload'') ''sessionizer'']" "b_clean b = [sample_event ''r'' REQUESTED 5, sample_event ''r'' CANCELLED 5]"
    and s: "s = \<lparr>sz_store = sz_store demo_end, sz_accs = [(''r'', demo_acc)], sz_acc_partition = [(''r'', 0)],
             sz_partitions = [(0, \<lparr>watermark_ms = 5, max_offset_in_batch = -1\<rparr>)],
             sz_emitted = 0, sz_poison = 1, sz_log = [KInit]\<rparr>" by blast
  show ?thesis
    unfolding p by (simp add: demo_tx_simps b s demo_dies_def demo_ops_def)
qed

lemma demo_input_ok: "input_ok demo_codec demo_input [0] (\<lambda>_. 0)"
  by (simp add: input_ok_def demo_input_def demo_batch_def demo_msg_def is_record_def split: option.split)

lemma demo_position: "position [KInit] 0 = 0"
  by (simp add: resume_offset_def committed_offset_def)

lemma demo_next: "next_batch demo_input [0] (sz_log demo_start) demo_batch"
proof -
  have "position (sz_log demo_start) 0 = 0"
    using demo_position by (simp add: demo_start_def new_szr_def)
  then show ?thesis
    by (simp add: next_batch_def demo_batch_def demo_input_def part_records_def from_offset_def demo_msg_def
        is_record_def)
qed

lemma started: "reachable cd cfg input [0] \<lparr>sys_szr = demo_start, sys_up = True, sys_hist = []\<rparr>"
proof (rule reach_step [OF reach_init])
  have "on_assign [0] (new_szr (sz_store (new_szr empty_store [])) (sz_log (new_szr empty_store []) @ [KInit]))
      = (Ret (), demo_start)"
    using demo_assign by (simp add: new_szr_def)
  from restart [OF this] show "sstep cd cfg input [0] sys_init
      \<lparr>sys_szr = demo_start, sys_up = True, sys_hist = []\<rparr>"
    unfolding sys_init_def .
qed

lemmas demo_up = started [of demo_codec demo_cfg demo_input]

lemma demo_reachable: "reachable demo_codec demo_cfg demo_input [0]
    \<lparr>sys_szr = demo_end, sys_up = True, sys_hist = demo_batch\<rparr>"
proof (rule reach_step [OF demo_up])
  have "filter is_record demo_batch = demo_batch"
    by (simp add: demo_batch_def demo_msg_def is_record_def)
  with batch_ok [OF demo_next demo_process, of "[]"]
  show "sstep demo_codec demo_cfg demo_input [0] \<lparr>sys_szr = demo_start, sys_up = True, sys_hist = []\<rparr>
      \<lparr>sys_szr = demo_end, sys_up = True, sys_hist = demo_batch\<rparr>" by simp
qed

text \<open>A codec that reads every message as an event of a type the code does not know.\<close>

definition odd_codec :: codec where
  "odd_codec = demo_codec\<lparr>deserialize := (\<lambda>_ _. Inr
     [(''event_type'', PStr ''teleported''), (''event_ts'', PInt 5), (''ride_id'', PStr ''r'')])\<rparr>"

lemma odd_clean: "clean_of odd_codec (demo_msg n v)
    = Some (''r'', [(''event_type'', PStr ''teleported''), (''event_ts'', PInt 5), (''ride_id'', PStr ''r'')])"
  by (simp add: clean_of_def demo_msg_def odd_codec_def normalise_def d_item_def)

lemma odd_input_ok: "input_ok odd_codec demo_input [0] (\<lambda>_. 0)"
  by (simp add: input_ok_def demo_input_def demo_batch_def odd_clean)
    (simp add: demo_msg_def is_record_def)

end
