(* ===== verification/Sessionizer_Properties.thy ===== *)
theory Sessionizer_Properties
  imports Sessionizer_Demo
begin

text \<open>
  The end-to-end properties of the sessionizer, over every run of the system: any batches, any
  Kafka call failing or being the last thing the process does, any number of restarts, cut
  short or not.
\<close>

section \<open>Supporting facts\<close>

lemma rolled_all:
  assumes "located ride_part parts st"
  shows "rolled lg parts st = below (position lg) st"
proof -
  let ?r = "fold (\<lambda>p. rollback_store p (position lg p)) parts st"
  have "journal_tbl ?r = filter (\<lambda>x. snd (fst x) < position lg (fst (fst x))) (journal_tbl st)"
    using assms unfolding journal_table.rollback_all
    by (intro filter_cong) (auto simp: located_def list_all_iff)
  moreover have "closes_tbl ?r = filter (\<lambda>x. snd (fst (snd x)) < position lg (fst (fst (snd x)))) (closes_tbl st)"
    using assms unfolding closes_table.rollback_all
    by (intro filter_cong) (auto simp: located_def list_all_iff)
  ultimately show ?thesis by (simp add: rolled_def below_def)
qed

lemma reachable_memory:
  assumes "input_ok cd input parts ride_part"
    and "reachable cd cfg input parts \<lparr>sys_szr = s, sys_up = True, sys_hist = h\<rparr>"
  shows "durable_ok cd cfg input parts ride_part (sz_log s) (sz_store s) h" "memory_ok ride_part s"
    "below (position (sz_log s)) (sz_store s) = sz_store s"
  using reachable_ok [OF assms] by (simp_all add: sys_ok_def memory_ok_def)

text \<open>The sessions that are committed, as the store has them: of which rides and from which events.\<close>

abbreviation committed_closes :: "sys \<Rightarrow> (string, (int \<times> int) \<times> payload) dict" where
  "committed_closes x \<equiv> closes_tbl (below (position (sz_log (sys_szr x))) (sz_store (sys_szr x)))"

definition close_true :: "codec \<Rightarrow> (int \<Rightarrow> msg list) \<Rightarrow> (string \<Rightarrow> int) \<Rightarrow> klog
    \<Rightarrow> string \<times> (int \<times> int) \<times> payload \<Rightarrow> bool" where
  "close_true cd input ride_part lg c \<longleftrightarrow> (case c of (r, (p, off), session) \<Rightarrow>
     p = ride_part r \<and> off < position lg p \<and> d_get session ''ride_id'' = PStr r
     \<and> (\<exists>a t. add_events (new_acc r) (events_before cd input ride_part r (off + 1)) = Inr a
          \<and> build_session a t = Inr session))"

lemma reachable_closes:
  assumes "input_ok cd input parts ride_part" "reachable cd cfg input parts x"
  shows "published (sz_log (sys_szr x)) RIDES_SESSIONS = map (session_record_of cd \<circ> snd \<circ> snd) (committed_closes x)"
    and "distinct (map fst (committed_closes x))"
    and "list_all (close_true cd input ride_part (sz_log (sys_szr x))) (committed_closes x)"
    and "list_all (\<lambda>c. ride_part (fst c) \<in> set parts) (committed_closes x)"
proof -
  let ?lg = "sz_log (sys_szr x)" and ?st = "below (position (sz_log (sys_szr x))) (sz_store (sys_szr x))"
  note d = reachable_durable [OF assms]
  have ride: "d_get session ''ride_id'' = PStr r"
    if "add_events (new_acc r) vs = Inr a" "build_session a t = Inr session" for r vs a t session
    using build_session_Inr(1) [OF that(2)] add_events_id [OF that(1)] by (simp add: new_acc_def)
  have tbl: "list_all (\<lambda>x. fst (fst (snd x)) \<in> set parts \<and> ride_part (fst x) = fst (fst (snd x))) (closes_tbl ?st)"
    "list_all (close_ok cd input ride_part) (closes_tbl ?st)"
    "list_all (\<lambda>x. snd (fst (snd x)) < position ?lg (fst (fst (snd x)))) (closes_tbl ?st)"
    using d by (auto simp: durable_ok_def located_def closes_ok_def below_def list_all_iff)
  then show "list_all (\<lambda>c. ride_part (fst c) \<in> set parts) (committed_closes x)"
    by (auto simp: list_all_iff)
  have "close_true cd input ride_part ?lg c" if c: "c \<in> set (closes_tbl ?st)" for c
  proof -
    obtain a t where "add_events (new_acc (fst c)) (events_before cd input ride_part (fst c) (snd (fst (snd c)) + 1)) = Inr a"
      "build_session a t = Inr (snd (snd c))"
      using tbl(2) c by (auto simp: list_all_iff close_ok_def)
    with ride [OF this] tbl(1,3) c show ?thesis
      by (auto simp: close_true_def list_all_iff split_def)
  qed
  then show "list_all (close_true cd input ride_part ?lg) (committed_closes x)" by (simp add: list_all_iff)
  show "distinct (map fst (committed_closes x))"
    using d by (simp add: durable_ok_def store_ok_def below_def dict_filter_ok)
  show "published ?lg RIDES_SESSIONS = map (session_record_of cd \<circ> snd \<circ> snd) (committed_closes x)"
    using d by (simp add: durable_ok_def outputs_ok_def)
qed

lemma terminal_closed:
  assumes "input_ok cd input parts ride_part" "reachable cd cfg input parts x"
    and "ride_part r \<in> set parts"
    and "add_events (new_acc r)
          (events_before cd input ride_part r (position (sz_log (sys_szr x)) (ride_part r))) = Inr a"
    and "terminal a \<noteq> None"
  shows "r \<in> fst ` set (committed_closes x)"
proof -
  let ?st = "below (position (sz_log (sys_szr x))) (sz_store (sys_szr x))"
  have op: "open_ok cd input parts ride_part (sz_log (sys_szr x)) ?st"
    using reachable_durable [OF assms(1,2)] by (simp add: durable_ok_def)
  have "is_closed ?st r" using open_okD [OF op assms(3)] assms(4,5) by metis
  then obtain v where "(r, v) \<in> set (closes_tbl ?st)" by (auto simp: is_closed_def dest: map_of_SomeD)
  then show ?thesis by force
qed

section \<open>Exactly-once outputs\<close>

text \<open>C1: the clean mirror and the dead letters are exactly once. In every reachable state, the
  records committed so far are, for each partition, precisely those before the committed offset;
  what read-committed consumers see on rides.events.clean is one re-publication of each of them
  that deserialises, in order, and what they see on the dead-letter topic is one envelope of each
  that does not: nothing lost, nothing twice, nothing of an uncommitted batch.\<close>

theorem sessionizer_outputs_exactly_once:
  assumes "input_ok cd input parts ride_part" "reachable cd cfg input parts x"
  shows "list_all (\<lambda>p. part_records p (sys_hist x) =
      before_offset (position (sz_log (sys_szr x)) p) (input p)) parts
    \<and> published (sz_log (sys_szr x)) RIDES_EVENTS_CLEAN =
        map (clean_record_of cd \<circ> snd) (clean_events cd (sys_hist x))
    \<and> published (sz_log (sys_szr x)) (dlq_topic RIDES_EVENTS) =
        map dlq_record_of (dead_letters cd cfg (sys_hist x))"
  using reachable_durable [OF assms] by (simp add: durable_ok_def hist_ok_def outputs_ok_def)

theorem sessionizer_outputs_exactly_once_witness:
  "length (published (sz_log demo_end) RIDES_EVENTS_CLEAN) = 2
    \<and> length (published (sz_log demo_end) (dlq_topic RIDES_EVENTS)) = 1"
proof -
  have "clean_events demo_codec demo_batch = [(''r'', sample_event ''r'' REQUESTED 5), (''r'', sample_event ''r'' CANCELLED 5)]"
    "length (dead_letters demo_codec demo_cfg demo_batch) = 1"
    by (simp_all add: clean_events_def dead_letters_def demo_batch_def clean_of_def poison_of_def demo_msg_def
        demo_codec_def normalise_def)
  with sessionizer_outputs_exactly_once [OF demo_input_ok demo_reachable] show ?thesis by simp
qed

text \<open>C2: sessions are exactly once. In every reachable state the session records visible to
  read-committed consumers belong to pairwise different rides, and each is what
  \<open>build_session\<close> derives from the fold of all input events of its ride up to an offset that is
  committed.\<close>

theorem sessions_exactly_once:
  assumes "input_ok cd input parts ride_part" "reachable cd cfg input parts x"
  shows "\<exists>closes. published (sz_log (sys_szr x)) RIDES_SESSIONS = map (session_record_of cd \<circ> snd \<circ> snd) closes
    \<and> distinct (map fst closes)
    \<and> list_all (\<lambda>(r, (p, off), session). p = ride_part r \<and> off < position (sz_log (sys_szr x)) p
        \<and> d_get session ''ride_id'' = PStr r
        \<and> (\<exists>a t. add_events (new_acc r) (events_before cd input ride_part r (off + 1)) = Inr a
             \<and> build_session a t = Inr session)) closes"
  using reachable_closes(1-3) [OF assms]
  by (intro exI [of _ "committed_closes x"]) (auto simp: close_true_def list_all_iff split_def)

theorem sessions_exactly_once_witness:
  "\<exists>closes :: (string \<times> (int \<times> int) \<times> payload) list. published (sz_log demo_end) RIDES_SESSIONS = map (session_record_of demo_codec \<circ> snd \<circ> snd) closes
    \<and> distinct (map fst closes) \<and> length closes = 1"
proof -
  have "published (sz_log demo_end) RIDES_SESSIONS = [Inr (RIDES_SESSIONS, Some ''r'', ''S'')]"
    by (simp add: published_def demo_end_def demo_ops_def committed_records_def)
  moreover obtain closes :: "(string \<times> (int \<times> int) \<times> payload) list" where "published (sz_log demo_end) RIDES_SESSIONS
      = map (session_record_of demo_codec \<circ> snd \<circ> snd) closes" "distinct (map fst closes)"
    using sessions_exactly_once [OF demo_input_ok demo_reachable] unfolding sys.simps by blast
  ultimately show ?thesis
    by (metis length_map length_Cons list.size(3) One_nat_def)
qed

text \<open>C3: no finished ride is lost. Once the committed input of a ride folds to an accumulator
  that has seen a terminal event, a session of the ride has been published.\<close>

theorem no_terminal_ride_lost:
  assumes "input_ok cd input parts ride_part" "reachable cd cfg input parts x"
    and "ride_part r \<in> set parts"
    and "add_events (new_acc r)
          (events_before cd input ride_part r (position (sz_log (sys_szr x)) (ride_part r))) = Inr a"
    and "terminal a \<noteq> None"
  shows "\<exists>session. d_get session ''ride_id'' = PStr r
    \<and> session_record_of cd session \<in> set (published (sz_log (sys_szr x)) RIDES_SESSIONS)"
proof -
  note cl = reachable_closes [OF assms(1,2)]
  obtain tag session where m: "(r, tag, session) \<in> set (committed_closes x)"
    using terminal_closed [OF assms] by force
  with cl(3) have "d_get session ''ride_id'' = PStr r"
    by (auto simp: list_all_iff close_true_def)
  with m cl(1) show ?thesis by (force intro!: exI [of _ session])
qed

theorem no_terminal_ride_lost_witness:
  "\<exists>session. d_get session ''ride_id'' = PStr ''r''
    \<and> session_record_of demo_codec session \<in> set (published (sz_log demo_end) RIDES_SESSIONS)"
proof -
  have "position (sz_log demo_end) 0 = 3"
    by (simp add: resume_offset_def committed_offset_def demo_end_def demo_ops_def)
  moreover have "events_before demo_codec demo_input (\<lambda>_. 0) ''r'' 3 = [sample_event ''r'' REQUESTED 5, sample_event ''r'' CANCELLED 5]"
    by (simp add: events_before_def before_offset_def demo_input_def demo_batch_def demo_msg_def
        ride_events_def clean_events_def List.map_filter_def
        clean_of_def demo_codec_def normalise_def)
  moreover have "add_events (new_acc ''r'') [sample_event ''r'' REQUESTED 5, sample_event ''r'' CANCELLED 5] = Inr demo_acc"
    by (simp add: new_acc_def demo_acc_def)
  moreover have "terminal demo_acc \<noteq> None"
    by (simp add: terminal_def demo_acc_def TERMINAL_STATES_def)
  ultimately show ?thesis
    using no_terminal_ride_lost [OF demo_input_ok demo_reachable, of "''r''" demo_acc] by simp
qed

section \<open>Failed batches\<close>



section \<open>The accumulators\<close>

lemma reachable_accs:
  assumes "input_ok cd input parts ride_part"
    and "reachable cd cfg input parts \<lparr>sys_szr = s, sys_up = True, sys_hist = h\<rparr>"
    and "ride_part r \<in> set parts"
  shows "case map_of (sz_accs s) r of
      None \<Rightarrow> is_closed (sz_store s) r
        \<or> events_before cd input ride_part r (position (sz_log s) (ride_part r)) = []
    | Some a \<Rightarrow> \<not> is_closed (sz_store s) r \<and> terminal a = None
        \<and> events_before cd input ride_part r (position (sz_log s) (ride_part r)) \<noteq> []
        \<and> add_events (new_acc r) (events_before cd input ride_part r (position (sz_log s) (ride_part r))) = Inr a"
proof -
  note m = reachable_memory [OF assms(1,2)]
  from m(1,3) have op: "open_ok cd input parts ride_part (sz_log s) (sz_store s)"
    by (simp add: durable_ok_def)
  have mem: "case map_of (sz_accs s) r of
          None \<Rightarrow> is_closed (sz_store s) r \<or> ride_rows (sz_store s) (ride_part r) r = []
        | Some a \<Rightarrow> \<not> is_closed (sz_store s) r \<and> ride_rows (sz_store s) (ride_part r) r \<noteq> []
            \<and> add_events (new_acc r) (ride_rows (sz_store s) (ride_part r) r) = Inr a
            \<and> map_of (sz_acc_partition s) r = Some (ride_part r)"
    using m(2) by (simp add: memory_ok_def)
  show ?thesis
  proof (cases "is_closed (sz_store s) r")
    case True with mem show ?thesis by (simp split: option.splits)
  next
    case False
    note o = open_okD [OF op assms(3) this]
    from mem o(2) False show ?thesis unfolding o(1) by (auto split: option.splits)
  qed
qed

text \<open>C5: recovery is exact. In every reachable running state, after any crashes and restarts,
  the accumulator held in memory for a ride is the fold of exactly the ride's committed events
  and is not terminal, and a ride without one has no committed events or is closed.\<close>

theorem accumulators_are_fold:
  assumes "input_ok cd input parts ride_part"
    and "reachable cd cfg input parts \<lparr>sys_szr = s, sys_up = True, sys_hist = h\<rparr>"
    and "ride_part r \<in> set parts"
  shows "case map_of (sz_accs s) r of
      None \<Rightarrow> is_closed (sz_store s) r
        \<or> events_before cd input ride_part r (position (sz_log s) (ride_part r)) = []
    | Some a \<Rightarrow> \<not> is_closed (sz_store s) r \<and> terminal a = None
        \<and> events_before cd input ride_part r (position (sz_log s) (ride_part r)) \<noteq> []
        \<and> add_events (new_acc r) (events_before cd input ride_part r (position (sz_log s) (ride_part r))) = Inr a"
  by (rule reachable_accs [OF assms])

theorem accumulators_are_fold_witness:
  "map_of (sz_accs demo_end) ''r'' = None \<and> is_closed (sz_store demo_end) ''r''"
proof -
  have "map_of (sz_accs demo_end) ''r'' = None" "is_closed (sz_store demo_end) ''r''"
    by (simp_all add: demo_end_def is_closed_def)
  with accumulators_are_fold [OF demo_input_ok demo_reachable, of "''r''"] show ?thesis by simp
qed

section \<open>An event the accumulator rejects\<close>

text \<open>C6: an event the accumulator rejects (an \<open>event_type\<close> it does not know), of a ride that is
  not closed, stops its partition for good: in no reachable running state, whatever was retried
  or restarted, has the committed position passed it.\<close>

theorem rejected_event_blocks_partition:
  assumes "input_ok cd input parts ride_part"
    and "reachable cd cfg input parts \<lparr>sys_szr = s, sys_up = True, sys_hist = h\<rparr>"
    and "p \<in> set parts" "m \<in> set (input p)" "clean_of cd m = Some (r, v)"
    and "add_event (new_acc r) v = Inl e"
    and "\<not> is_closed (sz_store s) r"
  shows "position (sz_log s) p \<le> m_offset m"
proof (rule ccontr)
  assume "\<not> position (sz_log s) p \<le> m_offset m"
  then have "m \<in> set (before_offset (position (sz_log s) p) (input p))"
    using assms(4) by (simp add: before_offset_def)
  then have v: "v \<in> set (ride_events cd r (before_offset (position (sz_log s) p) (input p)))"
    using assms(5) by (force simp: ride_events_def clean_events_def List.map_filter_def)
  have p: "ride_part r = p" using input_okD(3) [OF assms(1,3,4,5)] .
  let ?evs = "events_before cd input ride_part r (position (sz_log s) p)"
  from v have "v \<in> set ?evs" by (simp add: events_before_def p)
  moreover from this have "?evs \<noteq> []" by auto
  then obtain a where "add_events (new_acc r) ?evs = Inr a"
    using reachable_accs [OF assms(1,2), of r] assms(3,7) p by (auto split: option.splits)
  ultimately obtain k w where "norm_event v = Inr (k, w)"
    using add_events_reach by blast
  with assms(6) show False by (simp add: add_event_norm)
qed

theorem rejected_event_blocks_partition_witness:
  "reachable odd_codec demo_cfg demo_input [0] \<lparr>sys_szr = demo_start, sys_up = True, sys_hist = []\<rparr>
    \<and> position (sz_log demo_start) 0 \<le> 0"
proof -
  have "demo_msg 0 ''POISON'' \<in> set (demo_input 0)" "\<not> is_closed (sz_store demo_start) ''r''"
    by (simp_all add: demo_input_def demo_batch_def demo_start_def new_szr_def empty_store_def is_closed_def)
  moreover obtain e where "add_event (new_acc ''r'')
      [(''event_type'', PStr ''teleported''), (''event_ts'', PInt 5), (''ride_id'', PStr ''r'')] = Inl e"
    by (simp add: add_event_def d_item_def all_event_types_def ride_event_type_of.simps)
  ultimately have "position (sz_log demo_start) 0 \<le> m_offset (demo_msg 0 ''POISON'')"
    using rejected_event_blocks_partition [OF odd_input_ok started _ _ odd_clean, of 0] by simp
  with started show ?thesis by (simp add: demo_msg_def)
qed

end
