(* ===== verification/Dlq_Replay.thy ===== *)
theory Dlq_Replay
  imports Dlq_Envelope
begin

text \<open>
  \<open>scripts/replay_dlq.py\<close>, and the corruption of \<open>generator/producer.py\<close> that it repairs.
  The operator's filter and transform are functions that may raise; what \<open>produce\<close> is
  called with is the list of records \<open>(topic, key, payload)\<close> returned beside the result,
  which an exception does not undo.
\<close>

definition CORRUPT_FIRST_BYTE :: nat where
  "CORRUPT_FIRST_BYTE = 255"

definition corrupt_payload :: "string \<Rightarrow> string" where
  "corrupt_payload payload = char_of CORRUPT_FIRST_BYTE # tl payload"

definition repair_magic_byte :: "string \<Rightarrow> string" where
  "repair_magic_byte payload = (if payload \<noteq> [] then CHR 0x00 # tl payload else payload)"

record ReplayStats =
  st_seen :: nat
  st_filtered_out :: nat
  st_replayed :: nat
  st_dry_run :: bool

definition stats_json :: "ReplayStats \<Rightarrow> string" where
  "stats_json st = json_object (\<lambda>_. []) '', '' '': ''
     [(''seen'', PInt (int (st_seen st))), (''filtered_out'', PInt (int (st_filtered_out st))),
      (''replayed'', PInt (int (st_replayed st))), (''dry_run'', PBool (st_dry_run st))]"

type_synonym produced = "(string \<times> string option \<times> string) list"

fun replay_loop :: "(Envelope \<Rightarrow> exn + bool) option \<Rightarrow> (string \<Rightarrow> exn + string) option \<Rightarrow> bool
    \<Rightarrow> Envelope list \<Rightarrow> ReplayStats \<Rightarrow> produced \<times> (exn + ReplayStats)" where
  "replay_loop pred transform dry_run [] stats = ([], Inr stats)"
| "replay_loop pred transform dry_run (e # es) stats =
     (let stats = stats\<lparr>st_seen := st_seen stats + 1\<rparr> in
      case (case pred of None \<Rightarrow> Inr True | Some p \<Rightarrow> p e) of
        Inl x \<Rightarrow> ([], Inl x)
      | Inr False \<Rightarrow>
          replay_loop pred transform dry_run es (stats\<lparr>st_filtered_out := st_filtered_out stats + 1\<rparr>)
      | Inr True \<Rightarrow>
          (case rbind (envelope_payload e) (case transform of None \<Rightarrow> Inr | Some f \<Rightarrow> f) of
             Inl x \<Rightarrow> ([], Inl x)
           | Inr payload \<Rightarrow>
               (case (if dry_run then Inr [] else
                        rbind (envelope_key e) (\<lambda>k. Inr [(source_topic e, k, payload)])) of
                  Inl x \<Rightarrow> ([], Inl x)
                | Inr out \<Rightarrow>
                    (let (rest, r) = replay_loop pred transform dry_run es
                           (stats\<lparr>st_replayed := st_replayed stats + 1\<rparr>)
                     in (out @ rest, r)))))"

definition replay :: "Envelope list \<Rightarrow> (Envelope \<Rightarrow> exn + bool) option
    \<Rightarrow> (string \<Rightarrow> exn + string) option \<Rightarrow> bool \<Rightarrow> produced \<times> (exn + ReplayStats)" where
  "replay envelopes pred transform dry_run =
     replay_loop pred transform dry_run envelopes
       \<lparr>st_seen = 0, st_filtered_out = 0, st_replayed = 0, st_dry_run = dry_run\<rparr>"

text \<open>
  \<open>drain_dlq\<close> over the successive results of \<open>consumer.consume\<close>: \<open>None\<close> while the loop
  is still polling after the given results. A message without a value makes
  \<open>json.loads(None)\<close> raise.
\<close>

fun drain_batch :: "(string \<Rightarrow> real) \<Rightarrow> msg list \<Rightarrow> exn + Envelope list" where
  "drain_batch parse_float [] = Inr []"
| "drain_batch parse_float (m # ms) =
     (if m_error m \<noteq> None then drain_batch parse_float ms
      else rbind (case m_value m of
                    None \<Rightarrow> Inl (TypeError ''the JSON object must be str, bytes or bytearray'')
                  | Some v \<Rightarrow> parse_envelope parse_float v) (\<lambda>e.
           rbind (drain_batch parse_float ms) (\<lambda>es. Inr (e # es))))"

fun drain_loop :: "(string \<Rightarrow> real) \<Rightarrow> nat \<Rightarrow> nat \<Rightarrow> Envelope list \<Rightarrow> msg list list
    \<Rightarrow> (exn + Envelope list) option" where
  "drain_loop parse_float idle_polls quiet envelopes polls =
     (if quiet \<ge> idle_polls then Some (Inr envelopes)
      else case polls of
        [] \<Rightarrow> None
      | msgs # polls' \<Rightarrow>
          if msgs = [] then drain_loop parse_float idle_polls (quiet + 1) envelopes polls'
          else (case drain_batch parse_float msgs of
                  Inl x \<Rightarrow> Some (Inl x)
                | Inr es \<Rightarrow> drain_loop parse_float idle_polls 0 (envelopes @ es) polls'))"

declare drain_loop.simps [simp del]

definition drain_dlq :: "(string \<Rightarrow> real) \<Rightarrow> nat \<Rightarrow> msg list list \<Rightarrow> (exn + Envelope list) option" where
  "drain_dlq parse_float idle_polls polls = drain_loop parse_float idle_polls 0 [] polls"

section \<open>Draining\<close>

text \<open>A dead letter of \<open>m\<close> as it lies on the DLQ topic.\<close>

definition dead_letter :: "string \<Rightarrow> exn \<Rightarrow> string \<Rightarrow> msg \<Rightarrow> msg" where
  "dead_letter now err grp m =
     \<lparr>m_topic = dlq_topic (m_topic m), m_partition = 0, m_offset = 0, m_key = m_key m,
      m_value = Some (envelope_bytes (build_envelope now m err grp)), m_error = None\<rparr>"

lemma drain_batch_letters:
  "drain_batch pf (map (dead_letter now err g) ms) = Inr (map (\<lambda>m. build_envelope now m err g) ms)"
  by (induction ms) (simp_all add: dead_letter_def parse_envelope_bytes)

lemma drain_idle: "drain_loop pf n q es (replicate (n - q) [] @ rest) = Some (Inr es)"
proof (induction "n - q" arbitrary: q)
  case 0
  then show ?case by (simp add: drain_loop.simps)
next
  case (Suc k)
  then have "n - q = Suc (n - Suc q)" "q < n" by auto
  with Suc show ?case by (subst drain_loop.simps) auto
qed

lemma drain_polls:
  assumes "0 < n" "list_all (\<lambda>b. b \<noteq> []) batches"
  shows "drain_loop pf n 0 es (map (map (dead_letter now err g)) batches @ replicate n [])
    = Some (Inr (es @ map (\<lambda>m. build_envelope now m err g) (concat batches)))"
  using assms(2)
proof (induction batches arbitrary: es)
  case Nil
  then show ?case using drain_idle [of pf n 0 es "[]"] by simp
next
  case (Cons b bs)
  then show ?case using assms(1) by (subst drain_loop.simps) (simp add: drain_batch_letters)
qed

section \<open>Replaying\<close>

lemma replay_loop_all:
  assumes "\<And>m. m \<in> set ms \<Longrightarrow> m_value m = Some (raw m)" "\<And>s. f s = Inr (g s)"
  shows "replay_loop None (Some f) dry (map (\<lambda>m. build_envelope now m err grp) ms) st =
    (if dry then [] else map (\<lambda>m. (m_topic m, m_key m, g (raw m))) ms,
     Inr (st\<lparr>st_seen := st_seen st + length ms, st_replayed := st_replayed st + length ms\<rparr>))"
  using assms(1)
proof (induction ms arbitrary: st)
  case (Cons m ms)
  have "source_topic (build_envelope now m err grp) = m_topic m" by (simp add: build_envelope_def)
  with Cons show ?case by (auto simp: assms(2) Let_def)
qed simp

lemma replay_loop_none:
  "replay_loop pred None dry es st = replay_loop pred (Some Inr) dry es st"
  by (induction es arbitrary: st) (simp_all only: replay_loop.simps option.case)


definition sample_msg :: "string \<Rightarrow> msg" where
  "sample_msg v = \<lparr>m_topic = RIDES_EVENTS, m_partition = 0, m_offset = 7, m_key = Some ''r'',
     m_value = Some v, m_error = None\<rparr>"


text \<open>\<open>--repair-magic-byte\<close> undoes exactly the generator's corruption of a registry
  framed payload, one that starts with the magic byte 0x00: replaying the dead letter of the
  corrupted message re-produces the bytes the serializer gave. For any other first byte (the
  plain JSON of payments starts with an opening brace) the repair gives different bytes.\<close>

theorem repair_restores_magic_byte:
  "fst (replay [build_envelope now (m\<lparr>m_value := Some (corrupt_payload (b # bytes))\<rparr>) err g]
          None (Some (\<lambda>p. Inr (repair_magic_byte p))) False)
     = [(m_topic m, m_key m, b # bytes)] \<longleftrightarrow> b = CHR 0x00"
  using replay_loop_all [of "[m\<lparr>m_value := Some (corrupt_payload (b # bytes))\<rparr>]"
      "\<lambda>_. corrupt_payload (b # bytes)" "\<lambda>p. Inr (repair_magic_byte p)" repair_magic_byte False now err g]
  by (auto simp: replay_def corrupt_payload_def repair_magic_byte_def)

end
