(* ===== verification/Pg_Sink.thy ===== *)
theory Pg_Sink
  imports Outcomes Dlq_Envelope State_Machine Times
begin

text \<open>
  \<open>processors/pg_sink.py\<close>: the Postgres sink. Data rows and the consumed offsets are written
  in one Postgres transaction; on assignment the consumer seeks to the stored offset + 1.

  \<^item> The SQL of the module is modelled from its text: a table is a dictionary over its
    primary key (\<open>PRIMARY_KEY\<close>), a row the list of the column values of the INSERT;
    \<open>UPSERTS\<close> gives each topic its table and conflict action, \<open>TABLE_COLUMNS\<close> the columns
    with their NOT NULL constraints, \<open>UNIQUE_INDEX\<close> the unique index on \<open>event_id\<close>.
    The \<open>DEFAULT now()\<close> columns are left out.
  \<^item> \<open>pg_env\<close> holds what the code is given: the deserialisers by topic, Postgres's verdict on
    the column types of a row, and the clock of the envelopes.
  \<^item> \<open>pg_faults\<close> says how the database calls of a batch end. A commit may fail, may take
    effect although it raises, and the process may be killed on either side of it.
\<close>

definition SINK_TOPICS :: "string list" where
  "SINK_TOPICS = [RIDES_EVENTS, RIDES_SESSIONS, PAYMENTS_TRANSACTIONS, DRIVERS_LOCATIONS]"

definition SINK_TABLES :: "(string, string) dict" where
  "SINK_TABLES =
     [(RIDES_EVENTS, ''raw.rides_events''), (RIDES_SESSIONS, ''raw.ride_sessions''),
      (PAYMENTS_TRANSACTIONS, ''raw.payments_transactions''),
      (DRIVERS_LOCATIONS, ''raw.driver_locations'')]"

section \<open>The tables\<close>

text \<open>Column names in the order of the INSERT, each with its NOT NULL constraint.\<close>

definition TABLE_COLUMNS :: "(string, (string \<times> bool) list) dict" where
  "TABLE_COLUMNS =
     [(''raw.rides_events'',
        [(''ride_id'', True), (''event_seq'', True), (''event_id'', True), (''event_type'', True),
         (''event_ts'', True), (''rider_id'', True), (''driver_id'', False), (''city_id'', True),
         (''pickup_lat'', True), (''pickup_lon'', True), (''dropoff_lat'', False),
         (''dropoff_lon'', False), (''fare_cents'', False), (''surge_multiplier'', True),
         (''payload_version'', True), (''promo_code'', False), (''kafka_partition'', True),
         (''kafka_offset'', True)]),
      (''raw.ride_sessions'',
        [(''ride_id'', True), (''rider_id'', True), (''driver_id'', False), (''city_id'', True),
         (''terminal_state'', True), (''event_seq'', True), (''requested_ts'', True),
         (''matched_ts'', False), (''driver_arrived_ts'', False), (''started_ts'', False),
         (''ended_ts'', False), (''time_to_match_sec'', False), (''time_to_pickup_sec'', False),
         (''ride_duration_sec'', False), (''haversine_distance_km'', False),
         (''avg_speed_kmh'', False), (''is_late_arrival'', True), (''fare_cents'', False),
         (''surge_multiplier'', True), (''promo_code'', False), (''pickup_lat'', True),
         (''pickup_lon'', True), (''dropoff_lat'', False), (''dropoff_lon'', False)]),
      (''raw.payments_transactions'',
        [(''txn_id'', True), (''ride_id'', True), (''amount_cents'', True), (''status'', True),
         (''method'', True), (''ts'', True)]),
      (''raw.driver_locations'',
        [(''driver_id'', True), (''ts'', True), (''lat'', True), (''lon'', True),
         (''speed_kmh'', True), (''heading'', True), (''status'', True), (''city_id'', True)])]"

definition PRIMARY_KEY :: "(string, string list) dict" where
  "PRIMARY_KEY =
     [(''raw.rides_events'', [''ride_id'', ''event_seq'']), (''raw.ride_sessions'', [''ride_id'']),
      (''raw.payments_transactions'', [''txn_id'']),
      (''raw.driver_locations'', [''driver_id'', ''ts''])]"

definition UNIQUE_INDEX :: "(string, string) dict" where
  "UNIQUE_INDEX = [(''raw.rides_events'', ''event_id'')]"

type_synonym pg_row = "pyval list"
type_synonym pg_table = "(pyval list, pg_row) dict"

record pgdb =
  pg_rows :: "string \<Rightarrow> pg_table"
  pg_offsets :: "(string \<times> string \<times> int, int) dict"

definition empty_db :: pgdb where
  "empty_db = \<lparr>pg_rows = (\<lambda>_. []), pg_offsets = []\<rparr>"

definition columns :: "string \<Rightarrow> (string \<times> bool) list" where
  "columns table = (case map_of TABLE_COLUMNS table of None \<Rightarrow> [] | Some cs \<Rightarrow> cs)"

definition column :: "string \<Rightarrow> pg_row \<Rightarrow> string \<Rightarrow> pyval" where
  "column table row c = d_get (zip (map fst (columns table)) row) c"

definition key_of :: "string \<Rightarrow> pg_row \<Rightarrow> pyval list" where
  "key_of table row =
     map (column table row) (case map_of PRIMARY_KEY table of None \<Rightarrow> [] | Some ks \<Rightarrow> ks)"

section \<open>Row builders\<close>

fun dt_param :: "pyval \<Rightarrow> exn + pyval" where
  "dt_param PNone = Inr PNone"
| "dt_param v = rbind (to_epoch_ms v) (\<lambda>ms. Inr (PDatetime (dt_of_ms ms)))"

text \<open>One element of a row tuple: \<open>value[k]\<close>, \<open>value.get(k)\<close>, and the same through \<open>_dt\<close>.\<close>

datatype field = Item string | Get string | DtItem string | DtGet string

fun field_value :: "payload \<Rightarrow> field \<Rightarrow> exn + pyval" where
  "field_value v (Item k) = d_item v k"
| "field_value v (Get k) = Inr (d_get v k)"
| "field_value v (DtItem k) = rbind (d_item v k) dt_param"
| "field_value v (DtGet k) = dt_param (d_get v k)"

definition rides_event_row :: "payload \<Rightarrow> int \<Rightarrow> int \<Rightarrow> exn + pg_row" where
  "rides_event_row value part off =
     rbind (d_item value ''event_type'') (\<lambda>t. rbind (ride_event_type_of t) (\<lambda>et.
     rbind (d_item value ''ride_id'') (\<lambda>ride_id.
     rbind (rmap (field_value value)
       [Item ''event_id'', Item ''event_type'', DtItem ''event_ts'', Item ''rider_id'',
        Get ''driver_id'', Item ''city_id'', Item ''pickup_lat'', Item ''pickup_lon'',
        Get ''dropoff_lat'', Get ''dropoff_lon'', Get ''fare_cents'', Item ''surge_multiplier'']) (\<lambda>r.
       Inr ([ride_id, PInt (EVENT_SEQ et)] @ r @
            [(case map_of value ''payload_version'' of None \<Rightarrow> PInt 1 | Some v \<Rightarrow> v),
             d_get value ''promo_code'', PInt part, PInt off])))))"

definition session_row :: "payload \<Rightarrow> exn + pg_row" where
  "session_row value = rmap (field_value value)
     [Item ''ride_id'', Item ''rider_id'', Get ''driver_id'', Item ''city_id'',
      Item ''terminal_state'', Item ''event_seq'', DtItem ''requested_ts'', DtGet ''matched_ts'',
      DtGet ''driver_arrived_ts'', DtGet ''started_ts'', DtGet ''ended_ts'',
      Get ''time_to_match_sec'', Get ''time_to_pickup_sec'', Get ''ride_duration_sec'',
      Get ''haversine_distance_km'', Get ''avg_speed_kmh'', Item ''is_late_arrival'',
      Get ''fare_cents'', Item ''surge_multiplier'', Get ''promo_code'', Item ''pickup_lat'',
      Item ''pickup_lon'', Get ''dropoff_lat'', Get ''dropoff_lon'']"

definition payment_row :: "payload \<Rightarrow> exn + pg_row" where
  "payment_row value = rmap (field_value value)
     [Item ''txn_id'', Item ''ride_id'', Item ''amount_cents'', Item ''status'', Item ''method'',
      DtItem ''ts'']"

definition location_row :: "payload \<Rightarrow> exn + pg_row" where
  "location_row value = rmap (field_value value)
     [Item ''driver_id'', DtItem ''ts'', Item ''lat'', Item ''lon'', Item ''speed_kmh'',
      Item ''heading'', Item ''status'', Item ''city_id'']"

definition ROW_BUILDERS :: "(string, payload \<Rightarrow> int \<Rightarrow> int \<Rightarrow> exn + pg_row) dict" where
  "ROW_BUILDERS =
     [(RIDES_EVENTS, rides_event_row), (RIDES_SESSIONS, \<lambda>value part off. session_row value),
      (PAYMENTS_TRANSACTIONS, \<lambda>value part off. payment_row value),
      (DRIVERS_LOCATIONS, \<lambda>value part off. location_row value)]"

section \<open>The upserts\<close>

text \<open>\<open>DO_UPDATE cs w\<close>: set the columns \<open>cs\<close> from EXCLUDED where EXCLUDED.w > the stored w.\<close>

datatype on_conflict = DO_NOTHING | DO_UPDATE "string list" string

definition UPSERTS :: "(string, string \<times> on_conflict) dict" where
  "UPSERTS =
     [(RIDES_EVENTS, (''raw.rides_events'', DO_NOTHING)),
      (RIDES_SESSIONS, (''raw.ride_sessions'',
         DO_UPDATE [''terminal_state'', ''event_seq'', ''ended_ts'', ''time_to_match_sec'',
           ''time_to_pickup_sec'', ''ride_duration_sec'', ''haversine_distance_km'',
           ''avg_speed_kmh'', ''is_late_arrival'', ''fare_cents'', ''promo_code''] ''event_seq'')),
      (PAYMENTS_TRANSACTIONS, (''raw.payments_transactions'', DO_NOTHING)),
      (DRIVERS_LOCATIONS, (''raw.driver_locations'', DO_NOTHING))]"

text \<open>\<open>a > b\<close> in a WHERE clause; a NULL makes it not true.\<close>

fun sql_gt :: "pyval \<Rightarrow> pyval \<Rightarrow> bool" where
  "sql_gt (PInt a) (PInt b) = (a > b)"
| "sql_gt _ _ = False"

fun resolve :: "string \<Rightarrow> on_conflict \<Rightarrow> pg_row \<Rightarrow> pg_row \<Rightarrow> pg_row" where
  "resolve table DO_NOTHING old new = old"
| "resolve table (DO_UPDATE cs w) old new =
     (if sql_gt (column table new w) (column table old w)
      then map (\<lambda>(c, o', n). if c \<in> set cs then n else o') (zip (map fst (columns table)) (zip old new))
      else old)"

definition not_null_ok :: "string \<Rightarrow> pg_row \<Rightarrow> bool" where
  "not_null_ok table row = list_all (\<lambda>(c, nn). nn \<longrightarrow> column table row c \<noteq> PNone) (columns table)"

definition unique_ok :: "string \<Rightarrow> pg_table \<Rightarrow> pg_row \<Rightarrow> bool" where
  "unique_ok table tbl row =
     (case map_of UNIQUE_INDEX table of
        None \<Rightarrow> True
      | Some c \<Rightarrow> list_all (\<lambda>(_, r). column table r c \<noteq> column table row c) tbl)"

record pg_env =
  deserializers :: "(string, string \<Rightarrow> string option \<Rightarrow> exn + payload) dict"
  accepts :: "string \<Rightarrow> pg_row \<Rightarrow> exn option"
  pg_clock :: "msg \<Rightarrow> string"

definition upsert_row :: "pg_env \<Rightarrow> string \<Rightarrow> on_conflict \<Rightarrow> pg_row \<Rightarrow> pg_table \<Rightarrow> exn + pg_table" where
  "upsert_row env table action row tbl =
     (case accepts env table row of
        Some e \<Rightarrow> Inl e
      | None \<Rightarrow>
          if \<not> not_null_ok table row then Inl (Exn ''NotNullViolation'' table)
          else let key = key_of table row in
            case map_of tbl key of
              Some old \<Rightarrow> Inr (AList.update key (resolve table action old row) tbl)
            | None \<Rightarrow> if unique_ok table tbl row then Inr (tbl @ [(key, row)])
                      else Inl (Exn ''UniqueViolation'' table))"

definition upsert_rows :: "pg_env \<Rightarrow> string \<Rightarrow> on_conflict \<Rightarrow> pg_row list \<Rightarrow> pg_table \<Rightarrow> exn + pg_table" where
  "upsert_rows env table action = rfold (upsert_row env table action)"

text \<open>\<open>GREATEST(EXCLUDED.kafka_offset, consumer_offsets.kafka_offset)\<close>\<close>

definition upsert_offset :: "string \<Rightarrow> (string \<times> int) \<times> int
    \<Rightarrow> (string \<times> string \<times> int, int) dict \<Rightarrow> (string \<times> string \<times> int, int) dict" where
  "upsert_offset grp e offs =
     (let ((topic, part), off) = e; k = (grp, topic, part)
      in AList.update k (case map_of offs k of None \<Rightarrow> off | Some old \<Rightarrow> max off old) offs)"

section \<open>A batch\<close>

record pg_sink =
  pg_group :: string
  pg_db :: pgdb
  pg_dlq :: DlqProducer
  pg_positions :: "(string \<times> int, int) dict"
  pg_rows_written :: nat
  pg_poison_seen :: nat

record pg_batch =
  pb_consumed :: "(string, nat) dict"
  pb_rows :: "(string, pg_row list) dict"
  pb_max_offsets :: "(string \<times> int, int) dict"

definition new_pg_batch :: pg_batch where
  "new_pg_batch = \<lparr>pb_consumed = [], pb_rows = map (\<lambda>t. (t, [])) SINK_TOPICS, pb_max_offsets = []\<rparr>"

definition new_pg_sink :: "string \<Rightarrow> pgdb \<Rightarrow> pg_sink" where
  "new_pg_sink grp db = \<lparr>pg_group = grp, pg_db = db, pg_dlq = dlq_producer_init grp,
     pg_positions = [], pg_rows_written = 0, pg_poison_seen = 0\<rparr>"

definition lookup_key :: "(string, 'a) dict \<Rightarrow> string \<Rightarrow> exn + 'a" where
  "lookup_key d k = (case map_of d k of None \<Rightarrow> Inl (KeyError k) | Some v \<Rightarrow> Inr v)"

text \<open>The guarded part of the loop: deserialise and build the row, or an exception.\<close>

definition row_of_msg :: "pg_env \<Rightarrow> msg \<Rightarrow> exn + pg_row" where
  "row_of_msg env m =
     rbind (lookup_key (deserializers env) (m_topic m)) (\<lambda>f.
     rbind (f (m_topic m) (m_value m)) (\<lambda>value.
     rbind (lookup_key ROW_BUILDERS (m_topic m)) (\<lambda>g. g value (m_partition m) (m_offset m))))"

definition count_msg :: "msg \<Rightarrow> pg_batch \<Rightarrow> pg_batch" where
  "count_msg m b =
     (let topic = m_topic m; key = (topic, m_partition m)
      in b\<lparr>pb_consumed := AList.update topic
             ((case map_of (pb_consumed b) topic of None \<Rightarrow> 0 | Some n \<Rightarrow> n) + 1) (pb_consumed b),
           pb_max_offsets := AList.update key
             (max (case map_of (pb_max_offsets b) key of None \<Rightarrow> -1 | Some n \<Rightarrow> n) (m_offset m))
             (pb_max_offsets b)\<rparr>)"

definition add_row :: "string \<Rightarrow> pg_row \<Rightarrow> pg_batch \<Rightarrow> pg_batch" where
  "add_row topic row b =
     b\<lparr>pb_rows := AList.update topic
         ((case map_of (pb_rows b) topic of None \<Rightarrow> [] | Some rs \<Rightarrow> rs) @ [row]) (pb_rows b)\<rparr>"

definition sink_msg :: "pg_env \<Rightarrow> msg \<Rightarrow> pg_batch \<times> pg_sink \<Rightarrow> unit out \<times> pg_batch \<times> pg_sink" where
  "sink_msg env m bs =
     (case m_error m of
        Some _ \<Rightarrow> (Raise (RuntimeError ''consumer error''), bs)
      | None \<Rightarrow>
          (let b = count_msg m (fst bs); s = snd bs in
           case row_of_msg env m of
             Inr row \<Rightarrow> (Ret (), add_row (m_topic m) row b, s)
           | Inl e \<Rightarrow>
               (case dlq_handle (pg_clock env m) (pg_dlq s) m e of
                  Inl e' \<Rightarrow> (Raise e', b, s\<lparr>pg_poison_seen := pg_poison_seen s + 1\<rparr>)
                | Inr dlq \<Rightarrow> (Ret (), b,
                    s\<lparr>pg_poison_seen := pg_poison_seen s + 1, pg_dlq := dlq\<rparr>))))"

fun sink_msgs :: "pg_env \<Rightarrow> msg list \<Rightarrow> pg_batch \<times> pg_sink \<Rightarrow> unit out \<times> pg_batch \<times> pg_sink" where
  "sink_msgs env [] bs = (Ret (), bs)"
| "sink_msgs env (m # ms) bs =
     (case sink_msg env m bs of
        (Ret _, bs') \<Rightarrow> sink_msgs env ms bs'
      | r \<Rightarrow> r)"

section \<open>The Postgres transaction\<close>

datatype commit_outcome = Committed | NotCommitted exn | CommittedButRaises exn | KilledBefore | KilledAfter

record pg_faults =
  pf_exec :: "string \<Rightarrow> fault option"
  pf_offsets :: "fault option"
  pf_commit :: commit_outcome

fun exec_rows :: "pg_env \<Rightarrow> (string \<Rightarrow> fault option) \<Rightarrow> (string, pg_row list) dict \<Rightarrow> pgdb \<Rightarrow> pgdb out" where
  "exec_rows env fault [] db = Ret db"
| "exec_rows env fault ((topic, batch) # rest) db =
     (if batch = [] then exec_rows env fault rest db
      else case fault topic of
        Some f \<Rightarrow> fault_out f
      | None \<Rightarrow>
          (case map_of UPSERTS topic of
             None \<Rightarrow> Raise (KeyError topic)
           | Some (table, action) \<Rightarrow>
               (case upsert_rows env table action batch (pg_rows db table) of
                  Inl e \<Rightarrow> Raise e
                | Inr tbl \<Rightarrow> exec_rows env fault rest (db\<lparr>pg_rows := (pg_rows db)(table := tbl)\<rparr>))))"

definition exec_offsets :: "fault option \<Rightarrow> string \<Rightarrow> (string \<times> int, int) dict \<Rightarrow> pgdb \<Rightarrow> pgdb out" where
  "exec_offsets fault grp max_offsets db =
     (case fault of
        Some f \<Rightarrow> fault_out f
      | None \<Rightarrow> Ret (db\<lparr>pg_offsets := fold (upsert_offset grp) max_offsets (pg_offsets db)\<rparr>))"

text \<open>The transaction: what the database holds afterwards, and how it ended for the process.\<close>

definition pg_transact :: "pg_env \<Rightarrow> pg_faults \<Rightarrow> string \<Rightarrow> pg_batch \<Rightarrow> pgdb \<Rightarrow> unit out \<times> pgdb" where
  "pg_transact env faults grp b db =
     (case exec_rows env (pf_exec faults) (pb_rows b) db of
        Raise e \<Rightarrow> (Raise e, db)
      | Die \<Rightarrow> (Die, db)
      | Ret db1 \<Rightarrow>
          (case exec_offsets (pf_offsets faults) grp (pb_max_offsets b) db1 of
             Raise e \<Rightarrow> (Raise e, db)
           | Die \<Rightarrow> (Die, db)
           | Ret db2 \<Rightarrow>
               (case pf_commit faults of
                  Committed \<Rightarrow> (Ret (), db2)
                | NotCommitted e \<Rightarrow> (Raise e, db)
                | CommittedButRaises e \<Rightarrow> (Raise e, db2)
                | KilledBefore \<Rightarrow> (Die, db)
                | KilledAfter \<Rightarrow> (Die, db2))))"

definition written :: "pg_batch \<Rightarrow> (string, nat) dict" where
  "written b = map (\<lambda>(t, rs). (t, length rs)) (filter (\<lambda>(_, rs). rs \<noteq> []) (pb_rows b))"

definition pg_process_batch :: "pg_env \<Rightarrow> pg_faults \<Rightarrow> msg list \<Rightarrow> pg_sink
    \<Rightarrow> (string, nat) dict out \<times> pg_sink" where
  "pg_process_batch env faults msgs s =
     (case sink_msgs env msgs (new_pg_batch, s) of
        (Raise e, _, s) \<Rightarrow> (Raise e, s)
      | (Die, _, s) \<Rightarrow> (Die, s)
      | (Ret _, b, s) \<Rightarrow>
          (case pg_transact env faults (pg_group s) b (pg_db s) of
             (Raise e, db) \<Rightarrow> (Raise e, s\<lparr>pg_db := db\<rparr>)
           | (Die, db) \<Rightarrow> (Die, s\<lparr>pg_db := db\<rparr>)
           | (Ret _, db) \<Rightarrow> (Ret (written b),
               s\<lparr>pg_db := db, pg_rows_written := pg_rows_written s + sum_list (map snd (written b))\<rparr>)))"

section \<open>Assignment and the loop\<close>

definition stored_offset :: "string \<Rightarrow> pgdb \<Rightarrow> string \<times> int \<Rightarrow> int" where
  "stored_offset grp db tp =
     (case map_of (pg_offsets db) (grp, fst tp, snd tp) of None \<Rightarrow> -1 | Some off \<Rightarrow> off)"

definition stored_offsets :: "pg_sink \<Rightarrow> (string \<times> int) list \<Rightarrow> (string \<times> int, int) dict" where
  "stored_offsets s parts = map (\<lambda>tp. (tp, stored_offset (pg_group s) (pg_db s) tp)) parts"

definition OFFSET_BEGINNING :: int where
  "OFFSET_BEGINNING = -2"

definition pg_on_assign :: "(string \<times> int) list \<Rightarrow> pg_sink \<Rightarrow> pg_sink" where
  "pg_on_assign parts s =
     s\<lparr>pg_positions := map (\<lambda>(tp, last). (tp, if last \<ge> 0 then last + 1 else OFFSET_BEGINNING))
         (stored_offsets s parts)\<rparr>"

text \<open>
  \<open>run\<close> over the successive polls, as for the sessionizer; leaving the loop by a return or an
  exception runs the \<open>finally\<close> block, which flushes the dead-letter producer.
\<close>

definition pg_finally :: "pg_sink \<Rightarrow> pg_sink" where
  "pg_finally s = s\<lparr>pg_dlq := dlq_flush (pg_dlq s)\<rparr>"

fun pg_run_loop :: "pg_env \<Rightarrow> nat option \<Rightarrow> real option \<Rightarrow> nat \<Rightarrow> real
    \<Rightarrow> (msg list \<times> real \<times> pg_faults) list \<Rightarrow> pg_sink \<Rightarrow> unit out option \<times> pg_sink" where
  "pg_run_loop env max_batches idle batches last_data polls s =
     (if (case max_batches of None \<Rightarrow> False | Some n \<Rightarrow> \<not> batches < n) then (Some (Ret ()), pg_finally s)
      else case polls of
        [] \<Rightarrow> (None, s)
      | (msgs, now, faults) # polls' \<Rightarrow>
          if msgs = [] then
            if (case idle of None \<Rightarrow> False | Some t \<Rightarrow> now - last_data > t) then (Some (Ret ()), pg_finally s)
            else pg_run_loop env max_batches idle batches last_data polls' s
          else (case pg_process_batch env faults msgs s of
                  (Ret _, s) \<Rightarrow> pg_run_loop env max_batches idle (batches + 1) now polls' s
                | (Raise e, s) \<Rightarrow> (Some (Raise e), pg_finally s)
                | (Die, s) \<Rightarrow> (Some Die, s)))"

declare pg_run_loop.simps [simp del]

definition pg_run :: "pg_env \<Rightarrow> nat option \<Rightarrow> real option \<Rightarrow> (string \<times> int) list \<Rightarrow> real
    \<Rightarrow> (msg list \<times> real \<times> pg_faults) list \<Rightarrow> pg_sink \<Rightarrow> unit out option \<times> pg_sink" where
  "pg_run env max_batches idle parts now polls s =
     pg_run_loop env max_batches idle 0 now polls (pg_on_assign parts s)"

end
