(* ===== verification/Pg_Tables.thy ===== *)
theory Pg_Tables
  imports Pg_Sink
begin

text \<open>
  What the upserts of the sink promise of a table. The locale \<open>replayable\<close> is the contract
  the exactly-once argument rests on: a row that has been applied is absorbed for ever after,
  so replaying any part of what a table has seen leaves it as it is. The four tables of the
  sink are interpretations of it.
\<close>

locale replayable =
  fixes apply_row :: "'r \<Rightarrow> 't \<Rightarrow> 'e + 't"
    and good :: "'r \<Rightarrow> bool"
    and inv :: "'t \<Rightarrow> bool"
  assumes inv_step: "inv t \<Longrightarrow> good r \<Longrightarrow> apply_row r t = Inr t' \<Longrightarrow> inv t'"
    and absorb_self: "inv t \<Longrightarrow> good r \<Longrightarrow> apply_row r t = Inr t' \<Longrightarrow> apply_row r t' = Inr t'"
    and absorb_keep: "inv t \<Longrightarrow> good r \<Longrightarrow> good r' \<Longrightarrow> apply_row r t = Inr t
      \<Longrightarrow> apply_row r' t = Inr t' \<Longrightarrow> apply_row r t' = Inr t'"
begin

lemma inv_all: "inv t \<Longrightarrow> list_all good rs \<Longrightarrow> rfold apply_row rs t = Inr t' \<Longrightarrow> inv t'"
  by (induction rs arbitrary: t) (auto simp: rbind_eq_Inr intro: inv_step)

lemma absorbed_stays:
  assumes "inv t" "good r" "apply_row r t = Inr t" "list_all good rs" "rfold apply_row rs t = Inr t'"
  shows "apply_row r t' = Inr t'"
  using assms
proof (induction rs arbitrary: t)
  case (Cons x xs)
  then obtain u where u: "apply_row x t = Inr u" "rfold apply_row xs u = Inr t'"
    by (auto simp: rbind_eq_Inr)
  have x: "good x" "list_all good xs" using Cons.prems(4) by simp_all
  show ?case
    by (rule Cons.IH [OF inv_step [OF Cons.prems(1) x(1) u(1)] Cons.prems(2)
          absorb_keep [OF Cons.prems(1,2) x(1) Cons.prems(3) u(1)] x(2) u(2)])
qed simp

lemma absorbed:
  assumes "inv t" "list_all good rs" "rfold apply_row rs t = Inr t'" "r \<in> set rs"
  shows "apply_row r t' = Inr t'"
proof -
  from assms(4) obtain xs ys where rs: "rs = xs @ r # ys" by (meson split_list)
  from assms(3) obtain u v where u: "rfold apply_row xs t = Inr u" "apply_row r u = Inr v"
    "rfold apply_row ys v = Inr t'"
    by (auto simp: rs rfold_append rbind_eq_Inr)
  have g: "list_all good xs" "good r" "list_all good ys" using assms(2) by (simp_all add: rs)
  have "inv u" by (rule inv_all [OF assms(1) g(1) u(1)])
  then show ?thesis
    using absorbed_stays [OF inv_step g(2) absorb_self g(3) u(3)] g(2) u(2) by blast
qed

lemma replay_is_invisible:
  assumes "inv t" "list_all good rs" "rfold apply_row rs t = Inr t'" "set replayed \<subseteq> set rs"
  shows "rfold apply_row replayed t' = Inr t'"
  using assms by (intro rfold_fixed absorbed [OF assms(1-3)]) blast

end

section \<open>Rows and columns\<close>

definition row_ok :: "string \<Rightarrow> pg_row \<Rightarrow> bool" where
  "row_ok table row \<longleftrightarrow> length row = length (columns table)"

definition table_ok :: "string \<Rightarrow> pg_table \<Rightarrow> bool" where
  "table_ok table tbl \<longleftrightarrow> dict_ok tbl \<and> list_all (\<lambda>(k, r). row_ok table r \<and> key_of table r = k) tbl"

definition pk :: "string \<Rightarrow> string list" where
  "pk table = (case map_of PRIMARY_KEY table of None \<Rightarrow> [] | Some ks \<Rightarrow> ks)"

text \<open>A conflict action that only rewrites columns outside the key, the compared one among them.\<close>

fun action_ok :: "string \<Rightarrow> on_conflict \<Rightarrow> bool" where
  "action_ok table DO_NOTHING = True"
| "action_ok table (DO_UPDATE cs w) \<longleftrightarrow>
     distinct (map fst (columns table)) \<and> w \<in> set cs \<and> w \<in> fst ` set (columns table)
     \<and> set cs \<inter> set (pk table) = {}"

lemma key_of_pk: "key_of table row = map (column table row) (pk table)"
  by (simp add: key_of_def pk_def)

lemma map_of_zip_merge:
  assumes "length ks = length old" "length ks = length new" "distinct ks"
  shows "map_of (zip ks (map (\<lambda>(c, o', n). if c \<in> S then n else o') (zip ks (zip old new)))) k
    = (if k \<in> S then map_of (zip ks new) k else map_of (zip ks old) k)"
  using assms
proof (induction ks arbitrary: old new)
  case (Cons c ks)
  then show ?case by (cases old; cases new) auto
qed simp

lemma column_resolve:
  assumes "row_ok table old" "row_ok table new" "distinct (map fst (columns table))"
    and "sql_gt (column table new w) (column table old w)"
  shows "column table (resolve table (DO_UPDATE cs w) old new) c
    = (if c \<in> set cs then column table new c else column table old c)"
  using assms(4) map_of_zip_merge [of "map fst (columns table)" old new "set cs"] assms(1-3)
  by (simp add: row_ok_def column_def d_get_def)

lemma resolve_ok:
  assumes "row_ok table old" "row_ok table new"
  shows "row_ok table (resolve table a old new)"
  using assms by (cases a) (auto simp: row_ok_def)

lemma resolve_key:
  assumes "action_ok table a" "row_ok table old" "row_ok table new"
  shows "key_of table (resolve table a old new) = key_of table old"
proof (cases a)
  case (DO_UPDATE cs w)
  show ?thesis
  proof (cases "sql_gt (column table new w) (column table old w)")
    case True
    have "c \<notin> set cs" if "c \<in> set (pk table)" for c
      using assms(1) that by (auto simp: DO_UPDATE)
    moreover have "distinct (map fst (columns table))" using assms(1) by (simp add: DO_UPDATE)
    ultimately show ?thesis
      using column_resolve [OF assms(2,3) _ True] by (simp add: key_of_pk DO_UPDATE)
  qed (simp add: DO_UPDATE)
qed simp

lemma sql_gt_irrefl [simp]: "\<not> sql_gt v v"
  by (cases v) simp_all

lemma sql_gt_trans: "sql_gt a b \<Longrightarrow> sql_gt b c \<Longrightarrow> sql_gt a c"
  by (cases a; cases b; cases c) simp_all

lemma not_sql_gt_below: "\<not> sql_gt a b \<Longrightarrow> sql_gt c b \<Longrightarrow> \<not> sql_gt a c"
  by (cases a; cases b; cases c) simp_all

text \<open>A stored row keeps its content against a new one exactly when that one is not greater.\<close>

lemma resolve_fixed_iff:
  assumes "action_ok table (DO_UPDATE cs w)" "row_ok table old" "row_ok table new"
  shows "resolve table (DO_UPDATE cs w) old new = old
    \<longleftrightarrow> \<not> sql_gt (column table new w) (column table old w)"
proof
  assume same: "resolve table (DO_UPDATE cs w) old new = old"
  show "\<not> sql_gt (column table new w) (column table old w)"
  proof
    assume gt: "sql_gt (column table new w) (column table old w)"
    from column_resolve [OF assms(2,3) _ gt, of cs w] assms(1) same
    have "column table old w = column table new w" by (simp del: resolve.simps)
    with gt show False by simp
  qed
qed simp

lemma resolve_twice:
  assumes "action_ok table a" "row_ok table old" "row_ok table r" "row_ok table r'"
  shows "resolve table a (resolve table a old r) r = resolve table a old r"
    and "resolve table a old r = old \<Longrightarrow>
      resolve table a (resolve table a old r') r = resolve table a old r'"
proof -
  have "resolve table a (resolve table a old r) r = resolve table a old r
    \<and> (resolve table a old r = old \<longrightarrow>
        resolve table a (resolve table a old r') r = resolve table a old r')"
  proof (cases a)
    case (DO_UPDATE cs w)
    let ?g = "\<lambda>x y. sql_gt (column table x w) (column table y w)"
    let ?R = "resolve table (DO_UPDATE cs w)"
    have ok: "action_ok table (DO_UPDATE cs w)" using assms(1) by (simp only: DO_UPDATE)
    then have dw: "distinct (map fst (columns table))" "w \<in> set cs" by simp_all
    have w: "column table (?R old x) w = (if ?g x old then column table x w else column table old w)"
      if "row_ok table x" for x
      using column_resolve [OF assms(2) that dw(1), of w cs w] dw(2) by (cases "?g x old") simp_all
    note fixed = resolve_fixed_iff [OF ok resolve_ok [OF assms(2)]]
    have "?R (?R old r) r = ?R old r"
      unfolding fixed [OF assms(3) assms(3)] w [OF assms(3)] by simp
    moreover have "?R (?R old r') r = ?R old r'" if same: "?R old r = old"
    proof -
      from same have "\<not> ?g r old" unfolding resolve_fixed_iff [OF ok assms(2,3)] .
      from not_sql_gt_below [OF this] this show ?thesis
        unfolding fixed [OF assms(4) assms(3)] w [OF assms(4)] by (simp split: if_split)
    qed
    ultimately show ?thesis unfolding DO_UPDATE by blast
  qed simp
  then show "resolve table a (resolve table a old r) r = resolve table a old r"
    and "resolve table a old r = old \<Longrightarrow>
      resolve table a (resolve table a old r') r = resolve table a old r'" by blast+
qed

section \<open>The contract\<close>

lemma dict_update_same: "dict_ok d \<Longrightarrow> map_of d k = Some v \<Longrightarrow> AList.update k v d = d"
  by (induction d) auto

lemma dict_update_list_all:
  "list_all P d \<Longrightarrow> P (k, v) \<Longrightarrow> list_all P (AList.update k v d)"
  by (induction d) auto

lemma upsert_row_cases:
  assumes "upsert_row env table a r t = Inr t'"
  obtains (fresh) "accepts env table r = None" "not_null_ok table r" "map_of t (key_of table r) = None"
      "unique_ok table t r" "t' = t @ [(key_of table r, r)]"
    | (conflict) old where "accepts env table r = None" "not_null_ok table r"
      "map_of t (key_of table r) = Some old"
      "t' = AList.update (key_of table r) (resolve table a old r) t"
  using assms by (auto simp: upsert_row_def Let_def split: option.splits if_splits)

lemma upsert_row_inv:
  assumes "action_ok table a" "table_ok table t" "row_ok table r" "upsert_row env table a r t = Inr t'"
  shows "table_ok table t'"
  using assms(4)
proof (cases rule: upsert_row_cases)
  case fresh
  then have "key_of table r \<notin> fst ` set t" by (simp add: map_of_eq_None_iff)
  then show ?thesis using assms(2,3) unfolding fresh(5) table_ok_def by simp
next
  case (conflict old)
  then have "row_ok table old" "key_of table old = key_of table r"
    using assms(2) by (auto simp: table_ok_def list_all_iff dest: map_of_SomeD)
  then show ?thesis
    using conflict(4) assms(2) resolve_key [OF assms(1) _ assms(3)] resolve_ok [OF _ assms(3)]
    by (simp add: table_ok_def dict_update_ok dict_update_list_all del: dict_keys_update)
qed

lemma stored_ok: "table_ok table t \<Longrightarrow> map_of t k = Some old \<Longrightarrow> row_ok table old"
  by (auto simp: table_ok_def list_all_iff dest: map_of_SomeD)

lemma upsert_absorbed_iff:
  assumes "table_ok table t"
  shows "upsert_row env table a r t = Inr t \<longleftrightarrow>
    accepts env table r = None \<and> not_null_ok table r
    \<and> (\<exists>old. map_of t (key_of table r) = Some old \<and> resolve table a old r = old)"
proof
  assume "upsert_row env table a r t = Inr t"
  then show "accepts env table r = None \<and> not_null_ok table r
    \<and> (\<exists>old. map_of t (key_of table r) = Some old \<and> resolve table a old r = old)"
  proof (cases rule: upsert_row_cases)
    case (conflict old)
    from arg_cong [OF conflict(4), of "\<lambda>t. map_of t (key_of table r)"]
    show ?thesis using conflict(1-3) by simp
  qed simp
next
  assume "accepts env table r = None \<and> not_null_ok table r
    \<and> (\<exists>old. map_of t (key_of table r) = Some old \<and> resolve table a old r = old)"
  then obtain old where o: "accepts env table r = None" "not_null_ok table r"
    "map_of t (key_of table r) = Some old" "resolve table a old r = old" by blast
  have "dict_ok t" using assms by (simp add: table_ok_def)
  from dict_update_same [OF this o(3)] show "upsert_row env table a r t = Inr t"
    by (simp only: upsert_row_def o Let_def option.case simp_thms if_False)
qed

lemma upsert_replayable:
  assumes "action_ok table a"
  shows "replayable (upsert_row env table a) (row_ok table) (table_ok table)"
proof
  fix t r t'
  assume t: "table_ok table t" and r: "row_ok table r" and u: "upsert_row env table a r t = Inr t'"
  show t': "table_ok table t'" by (rule upsert_row_inv [OF assms t r u])
  from u show "upsert_row env table a r t' = Inr t'"
  proof (cases rule: upsert_row_cases)
    case fresh
    have "resolve table a r r = r" by (cases a) simp_all
    with fresh show ?thesis unfolding upsert_absorbed_iff [OF t'] by (simp add: map_add_def)
  next
    case (conflict old)
    with resolve_twice(1) [OF assms stored_ok [OF t conflict(3)] r r] show ?thesis
      unfolding upsert_absorbed_iff [OF t'] by simp
  qed
next
  fix t r r' t'
  assume t: "table_ok table t" and r: "row_ok table r" "row_ok table r'"
    and a: "upsert_row env table a r t = Inr t" and u: "upsert_row env table a r' t = Inr t'"
  have t': "table_ok table t'" by (rule upsert_row_inv [OF assms t r(2) u])
  from a [unfolded upsert_absorbed_iff [OF t]] obtain old where
    old: "accepts env table r = None" "not_null_ok table r" "map_of t (key_of table r) = Some old"
      "resolve table a old r = old" by blast
  from u show "upsert_row env table a r t' = Inr t'"
  proof (cases rule: upsert_row_cases)
    case fresh
    with old show ?thesis unfolding upsert_absorbed_iff [OF t'] by (simp add: map_add_def)
  next
    case (conflict old')
    with old resolve_twice(2) [OF assms stored_ok [OF t old(3)] r old(4)] show ?thesis
      unfolding upsert_absorbed_iff [OF t'] by (cases "key_of table r' = key_of table r") simp_all
  qed
qed

lemma action_ok_sessions:
  "action_ok ''raw.ride_sessions'' (snd (the (map_of UPSERTS RIDES_SESSIONS)))"
  by (simp add: UPSERTS_def topic_defs columns_def TABLE_COLUMNS_def pk_def PRIMARY_KEY_def)

interpretation rides_tbl: replayable "upsert_row env ''raw.rides_events'' DO_NOTHING"
    "row_ok ''raw.rides_events''" "table_ok ''raw.rides_events''" for env
  by (rule upsert_replayable) simp

interpretation sessions_tbl: replayable
    "upsert_row env ''raw.ride_sessions'' (snd (the (map_of UPSERTS RIDES_SESSIONS)))"
    "row_ok ''raw.ride_sessions''" "table_ok ''raw.ride_sessions''" for env
  by (rule upsert_replayable [OF action_ok_sessions])

interpretation payments_tbl: replayable "upsert_row env ''raw.payments_transactions'' DO_NOTHING"
    "row_ok ''raw.payments_transactions''" "table_ok ''raw.payments_transactions''" for env
  by (rule upsert_replayable) simp

interpretation locations_tbl: replayable "upsert_row env ''raw.driver_locations'' DO_NOTHING"
    "row_ok ''raw.driver_locations''" "table_ok ''raw.driver_locations''" for env
  by (rule upsert_replayable) simp

end
