(* ===== verification/Pg_Batch.thy ===== *)
theory Pg_Batch
  imports Pg_Tables Partition_Log
begin

text \<open>
  What one batch of the Postgres sink does: the message loop sorts the rows by topic and
  keeps the highest offset of each partition, the transaction applies each topic's rows to
  its own table. \<open>process_batch_cases\<close> is the outcome of a batch for every fault.
\<close>

section \<open>The denotation of messages\<close>

definition good_row :: "pg_env \<Rightarrow> string \<Rightarrow> msg \<Rightarrow> pg_row option" where
  "good_row env t m =
     (if m_error m = None \<and> m_topic m = t
      then case row_of_msg env m of Inl _ \<Rightarrow> None | Inr r \<Rightarrow> Some r else None)"

definition good_rows :: "pg_env \<Rightarrow> string \<Rightarrow> msg list \<Rightarrow> pg_row list" where
  "good_rows env t ms = List.map_filter (good_row env t) ms"

lemma good_rows_simps [simp]:
  "good_rows env t [] = []"
  "good_rows env t (m # ms) =
     (case good_row env t m of None \<Rightarrow> good_rows env t ms | Some r \<Rightarrow> r # good_rows env t ms)"
  by (simp_all add: good_rows_def split: option.split)

lemma good_rows_append: "good_rows env t (xs @ ys) = good_rows env t xs @ good_rows env t ys"
  by (induction xs) (auto split: option.split)

lemma row_of_msg_topic: "row_of_msg env m = Inr r \<Longrightarrow> m_topic m \<in> set SINK_TOPICS"
  by (auto simp: row_of_msg_def rbind_eq_Inr lookup_key_def ROW_BUILDERS_def SINK_TOPICS_def
      split: option.splits if_splits)

section \<open>The message loop\<close>

lemma sink_msg_Ret:
  assumes "sink_msg env m bs = (Ret u, bs')"
  obtains (row) r where "m_error m = None" "row_of_msg env m = Inr r"
      "bs' = (add_row (m_topic m) r (count_msg m (fst bs)), snd bs)"
    | (poison) e where "m_error m = None" "row_of_msg env m = Inl e" "fst bs' = count_msg m (fst bs)"
      "pg_db (snd bs') = pg_db (snd bs)" "pg_group (snd bs') = pg_group (snd bs)"
      "dlq_handle (pg_clock env m) (pg_dlq (snd bs)) m e = Inr (pg_dlq (snd bs'))"
  using assms by (auto simp: sink_msg_def Let_def split: option.splits sum.splits)

lemma sink_msg_durable: "sink_msg env m bs = (r, bs') \<Longrightarrow>
    pg_db (snd bs') = pg_db (snd bs) \<and> pg_group (snd bs') = pg_group (snd bs)"
  by (auto simp: sink_msg_def Let_def split: option.splits sum.splits)

lemma sink_msgs_durable: "sink_msgs env ms bs = (r, bs') \<Longrightarrow>
    pg_db (snd bs') = pg_db (snd bs) \<and> pg_group (snd bs') = pg_group (snd bs)"
proof (induction ms arbitrary: bs)
  case (Cons m ms)
  obtain r1 bs1 where 1: "sink_msg env m bs = (r1, bs1)" by (metis surj_pair)
  show ?case
  proof (cases r1)
    case (Ret u)
    then show ?thesis
      using Cons.IH [of bs1] Cons.prems 1 sink_msg_durable [OF 1] by (cases bs1) simp
  next
    case (Raise e)
    then show ?thesis using Cons.prems 1 sink_msg_durable [OF 1] by (cases bs1) simp
  next
    case Die
    then show ?thesis using Cons.prems 1 sink_msg_durable [OF 1] by (cases bs1) simp
  qed
qed simp

text \<open>The rows collected for a topic, and the offset noted for a partition.\<close>

definition rows_for :: "pg_batch \<Rightarrow> string \<Rightarrow> pg_row list" where
  "rows_for b t = (case map_of (pb_rows b) t of None \<Rightarrow> [] | Some rs \<Rightarrow> rs)"

definition noted :: "pg_batch \<Rightarrow> string \<times> int \<Rightarrow> int" where
  "noted b tp = (case map_of (pb_max_offsets b) tp of None \<Rightarrow> -1 | Some n \<Rightarrow> n)"

lemma count_msg_simps [simp]:
  "pb_rows (count_msg m b) = pb_rows b"
  "rows_for (count_msg m b) t = rows_for b t"
  "map_of (pb_max_offsets (count_msg m b)) tp =
     (if tp = (m_topic m, m_partition m) then Some (max (noted b tp) (m_offset m))
      else map_of (pb_max_offsets b) tp)"
  "noted (count_msg m b) tp =
     (if tp = (m_topic m, m_partition m) then max (noted b tp) (m_offset m) else noted b tp)"
  by (auto simp: count_msg_def rows_for_def noted_def Let_def)

lemma add_row_simps [simp]:
  "pb_max_offsets (add_row t r b) = pb_max_offsets b"
  "noted (add_row t r b) tp = noted b tp"
  "rows_for (add_row t r b) t' = rows_for b t' @ (if t' = t then [r] else [])"
  by (auto simp: add_row_def rows_for_def noted_def split: option.split)

lemma dict_keys_update_same: "k \<in> fst ` set d \<Longrightarrow> map fst (AList.update k v d) = map fst d"
  by (induction d) auto

lemma add_row_keys:
  "map fst (pb_rows b) = SINK_TOPICS \<Longrightarrow> t \<in> set SINK_TOPICS \<Longrightarrow> map fst (pb_rows (add_row t r b)) = SINK_TOPICS"
  unfolding add_row_def using dict_keys_update_same [of t "pb_rows b"]
  by (simp add: list.set_map [symmetric] del: list.set_map)

definition loop_inv :: "pg_env \<Rightarrow> msg list \<Rightarrow> pg_batch \<Rightarrow> bool" where
  "loop_inv env ms b \<longleftrightarrow>
     map fst (pb_rows b) = SINK_TOPICS \<and> (\<forall>t. rows_for b t = good_rows env t ms)
     \<and> dict_ok (pb_max_offsets b) \<and> list_all is_record ms
     \<and> (\<forall>tp. map_of (pb_max_offsets b) tp =
           (if tp_records tp ms = [] then None else Some (fold max (map m_offset (tp_records tp ms)) (-1))))"

lemma loop_inv_noted:
  assumes "loop_inv env ms b"
  shows "noted b tp = fold max (map m_offset (tp_records tp ms)) (-1)"
proof -
  from assms have "map_of (pb_max_offsets b) tp =
      (if tp_records tp ms = [] then None else Some (fold max (map m_offset (tp_records tp ms)) (-1)))"
    unfolding loop_inv_def by blast
  then show ?thesis by (simp add: noted_def)
qed

lemma loop_inv_step:
  assumes "loop_inv env ms b" "sink_msg env m (b, s) = (Ret u, b', s')"
  shows "loop_inv env (ms @ [m]) b'"
proof -
  note noted = loop_inv_noted [OF assms(1)]
  have counted: "dict_ok (pb_max_offsets (count_msg m b))"
    using assms(1) by (simp add: loop_inv_def count_msg_def Let_def dict_update_ok)
  from assms(2) show ?thesis
  proof (cases rule: sink_msg_Ret)
    case (row r)
    then show ?thesis
      using assms(1) counted noted row_of_msg_topic [OF row(2)]
      by (auto simp: loop_inv_def good_rows_append tp_records_append good_row_def is_record_def
          add_row_keys max.commute)
  next
    case (poison e)
    then show ?thesis
      using assms(1) counted noted
      by (auto simp: loop_inv_def good_rows_append tp_records_append good_row_def is_record_def max.commute)
  qed
qed

lemma sink_msgs_inv:
  "sink_msgs env ms (b, s) = (Ret u, b', s') \<Longrightarrow> loop_inv env ms0 b \<Longrightarrow> loop_inv env (ms0 @ ms) b'"
proof (induction ms arbitrary: b s ms0)
  case (Cons m ms)
  obtain r1 b1 s1 where 1: "sink_msg env m (b, s) = (r1, b1, s1)" by (metis prod_cases3)
  with Cons.prems(1) obtain u1 where "r1 = Ret u1" by (cases r1) simp_all
  with 1 have m: "sink_msg env m (b, s) = (Ret u1, b1, s1)" by simp
  with Cons.prems(1) have "sink_msgs env ms (b1, s1) = (Ret u, b', s')" by simp
  from Cons.IH [OF this loop_inv_step [OF Cons.prems(2) m]] show ?case by simp
qed simp

lemma loop_inv_new: "loop_inv env [] new_pg_batch"
  by (simp add: loop_inv_def new_pg_batch_def rows_for_def o_def map_of_map_keys SINK_TOPICS_def)

section \<open>The transaction\<close>

lemma UPSERTS_inj:
  "map_of UPSERTS t = Some (tbl, a) \<Longrightarrow> map_of UPSERTS t' = Some (tbl, a') \<Longrightarrow> t = t'"
  by (auto simp: UPSERTS_def split: if_splits)

lemma exec_rows_Ret:
  assumes "exec_rows env f bs db = Ret db'" "distinct (map fst bs)"
  shows "pg_offsets db' = pg_offsets db \<and> (\<forall>t table a. map_of UPSERTS t = Some (table, a) \<longrightarrow>
    upsert_rows env table a (case map_of bs t of None \<Rightarrow> [] | Some rs \<Rightarrow> rs) (pg_rows db table)
      = Inr (pg_rows db' table))"
  using assms
proof (induction bs arbitrary: db)
  case Nil
  then show ?case by (simp add: upsert_rows_def)
next
  case (Cons x bs)
  obtain t0 batch where x: "x = (t0, batch)" by fastforce
  have fresh: "map_of bs t0 = None" using Cons.prems(2) by (simp add: x map_of_eq_None_iff)
  show ?case
  proof (cases "batch = []")
    case True
    with Cons.prems(1) x have rest: "exec_rows env f bs db = Ret db'" by simp
    from True x fresh have "(case map_of (x # bs) t of None \<Rightarrow> [] | Some rs \<Rightarrow> rs)
        = (case map_of bs t of None \<Rightarrow> [] | Some rs \<Rightarrow> rs)" for t by simp
    with Cons.IH [OF rest] Cons.prems(2) show ?thesis by simp
  next
    case False
    with Cons.prems(1) obtain table0 a0 tbl where up: "map_of UPSERTS t0 = Some (table0, a0)"
      "upsert_rows env table0 a0 batch (pg_rows db table0) = Inr tbl"
      and rest: "exec_rows env f bs (db\<lparr>pg_rows := (pg_rows db)(table0 := tbl)\<rparr>) = Ret db'"
      by (cases "f t0") (auto simp: x split: option.splits sum.splits elim: fault_out.elims)
    from Cons.IH [OF rest] Cons.prems(2)
    have ih: "pg_offsets db' = pg_offsets db"
      "\<And>t table a. map_of UPSERTS t = Some (table, a) \<Longrightarrow>
        upsert_rows env table a (case map_of bs t of None \<Rightarrow> [] | Some rs \<Rightarrow> rs)
          (if table = table0 then tbl else pg_rows db table) = Inr (pg_rows db' table)"
      by simp_all
    have "upsert_rows env table a (case map_of (x # bs) t of None \<Rightarrow> [] | Some rs \<Rightarrow> rs) (pg_rows db table)
        = Inr (pg_rows db' table)" if t: "map_of UPSERTS t = Some (table, a)" for t table a
    proof (cases "t = t0")
      case True
      with t up(1) have "table = table0" "a = a0" by simp_all
      with ih(2) [OF t] fresh True have "Inr tbl = (Inr (pg_rows db' table0) :: exn + pg_table)"
        by (simp add: upsert_rows_def)
      with True x up(2) \<open>table = table0\<close> \<open>a = a0\<close> show ?thesis by simp
    next
      case False
      with t up(1) UPSERTS_inj have "table \<noteq> table0" by metis
      with ih(2) [OF t] False x show ?thesis by simp
    qed
    with ih(1) show ?thesis by blast
  qed
qed

lemma exec_offsets_Ret:
  assumes "exec_offsets f grp d db = Ret db'"
  shows "db' = db\<lparr>pg_offsets := fold (upsert_offset grp) d (pg_offsets db)\<rparr>"
  using assms by (cases f) (auto simp: exec_offsets_def elim: fault_out.elims)

lemma stored_offset_upsert:
  assumes "dict_ok d"
  shows "stored_offset grp (db\<lparr>pg_offsets := fold (upsert_offset grp) d offs\<rparr>) tp =
    (case map_of d tp of
       None \<Rightarrow> stored_offset grp (db\<lparr>pg_offsets := offs\<rparr>) tp
     | Some off \<Rightarrow> (case map_of offs (grp, fst tp, snd tp) of None \<Rightarrow> off | Some old \<Rightarrow> max off old))"
  using assms
proof (induction d arbitrary: offs)
  case (Cons x d)
  obtain t p off where x: "x = ((t, p), off)" by (metis surj_pair)
  have "map_of d (t, p) = None" using Cons.prems by (simp add: x map_of_eq_None_iff)
  with Cons x show ?case
    by (cases tp) (auto simp: upsert_offset_def Let_def stored_offset_def split: option.splits)
qed (simp add: stored_offset_def)

text \<open>Every end of a batch: it took effect as a whole, or the database is what it was.\<close>

lemma pg_transact_cases:
  assumes "pg_transact env faults grp b db = (r, db')"
  obtains (none) "db' = db" "r \<noteq> Ret ()"
    | (all) db1 where "exec_rows env (pf_exec faults) (pb_rows b) db = Ret db1"
        "db' = db1\<lparr>pg_offsets := fold (upsert_offset grp) (pb_max_offsets b) (pg_offsets db1)\<rparr>"
  using assms
  by (auto simp: pg_transact_def dest!: exec_offsets_Ret split: out.splits commit_outcome.splits)

lemma pg_process_batch_cases:
  assumes "pg_process_batch env faults msgs s = (r, s')"
  obtains (none) "pg_db s' = pg_db s" "pg_group s' = pg_group s" "\<forall>w. r \<noteq> Ret w"
    | (all) b db1 where "loop_inv env msgs b" "pg_group s' = pg_group s"
        "exec_rows env (pf_exec faults) (pb_rows b) (pg_db s) = Ret db1"
        "pg_db s' = db1\<lparr>pg_offsets := fold (upsert_offset (pg_group s)) (pb_max_offsets b) (pg_offsets db1)\<rparr>"
proof -
  obtain r1 b s1 where l: "sink_msgs env msgs (new_pg_batch, s) = (r1, b, s1)" by (metis prod_cases3)
  from sink_msgs_durable [OF l] have d: "pg_db s1 = pg_db s" "pg_group s1 = pg_group s" by simp_all
  show thesis
  proof (cases r1)
    case (Ret u)
    obtain r2 db2 where t: "pg_transact env faults (pg_group s1) b (pg_db s1) = (r2, db2)" by fastforce
    have r: "pg_group s' = pg_group s" "pg_db s' = db2" "(\<exists>w. r = Ret w) = (r2 = Ret ())"
      using assms l Ret t d by (auto simp: pg_process_batch_def split: out.splits)
    from l Ret have i: "loop_inv env msgs b"
      using sink_msgs_inv [of env msgs new_pg_batch s u b s1, OF _ loop_inv_new] by simp
    from t show ?thesis
    proof (cases rule: pg_transact_cases)
      case none
      with r d show ?thesis by (intro that(1)) auto
    next
      case (all db1)
      with r d show ?thesis by (intro that(2) [OF i]) simp_all
    qed
  next
    case (Raise e)
    with assms l d show ?thesis by (intro that(1)) (auto simp: pg_process_batch_def)
  next
    case Die
    with assms l d show ?thesis by (intro that(1)) (auto simp: pg_process_batch_def)
  qed
qed

end
