(* ===== verification/Pg_System.thy ===== *)
theory Pg_System
  imports Pg_Batch
begin

text \<open>
  The Postgres sink as a process that crashes and restarts. A state is the sink, the
  consumer's positions, whether the process is up, and as a ghost the messages of the
  batches whose transaction took effect. When the process is down only the database of the
  sink means anything; a restart builds a new sink on it and seeks to the stored offsets.
\<close>

record psys =
  ps_sink :: pg_sink
  ps_pos :: "string \<times> int \<Rightarrow> int"
  ps_up :: bool
  ps_hist :: "msg list"

definition assigned_pos :: "pg_sink \<Rightarrow> string \<times> int \<Rightarrow> int" where
  "assigned_pos s tp = (case map_of (pg_positions s) tp of None \<Rightarrow> OFFSET_BEGINNING | Some off \<Rightarrow> off)"

inductive pstep :: "pg_env \<Rightarrow> string \<Rightarrow> (string \<times> int \<Rightarrow> msg list) \<Rightarrow> (string \<times> int) list
    \<Rightarrow> psys \<Rightarrow> psys \<Rightarrow> bool"
  for env grp input parts where
  p_batch: "deliverable input parts pos msgs \<Longrightarrow>
     pg_process_batch env faults msgs s = (Ret w, s') \<Longrightarrow>
     pstep env grp input parts \<lparr>ps_sink = s, ps_pos = pos, ps_up = True, ps_hist = h\<rparr>
       \<lparr>ps_sink = s', ps_pos = advance_pos pos msgs, ps_up = True, ps_hist = h @ msgs\<rparr>"
| p_fail: "deliverable input parts pos msgs \<Longrightarrow>
     pg_process_batch env faults msgs s = (r, s') \<Longrightarrow> r = Die \<or> r = Raise e \<Longrightarrow>
     pstep env grp input parts \<lparr>ps_sink = s, ps_pos = pos, ps_up = True, ps_hist = h\<rparr>
       \<lparr>ps_sink = s', ps_pos = pos, ps_up = False,
        ps_hist = (if pg_db s' = pg_db s then h else h @ msgs)\<rparr>"
| p_kill: "pstep env grp input parts \<lparr>ps_sink = s, ps_pos = pos, ps_up = True, ps_hist = h\<rparr>
       \<lparr>ps_sink = s, ps_pos = pos, ps_up = False, ps_hist = h\<rparr>"
| p_restart: "s' = pg_on_assign parts (new_pg_sink grp (pg_db s)) \<Longrightarrow>
     pstep env grp input parts \<lparr>ps_sink = s, ps_pos = pos, ps_up = False, ps_hist = h\<rparr>
       \<lparr>ps_sink = s', ps_pos = assigned_pos s', ps_up = True, ps_hist = h\<rparr>"

definition psys_init :: "string \<Rightarrow> psys" where
  "psys_init grp =
     \<lparr>ps_sink = new_pg_sink grp empty_db, ps_pos = (\<lambda>_. 0), ps_up = False, ps_hist = []\<rparr>"

inductive preachable :: "pg_env \<Rightarrow> string \<Rightarrow> (string \<times> int \<Rightarrow> msg list) \<Rightarrow> (string \<times> int) list
    \<Rightarrow> psys \<Rightarrow> bool"
  for env grp input parts where
  preach_init: "preachable env grp input parts (psys_init grp)"
| preach_step: "preachable env grp input parts x \<Longrightarrow> pstep env grp input parts x y \<Longrightarrow>
     preachable env grp input parts y"

definition pg_no_faults :: pg_faults where
  "pg_no_faults = \<lparr>pf_exec = (\<lambda>_. None), pf_offsets = None, pf_commit = Committed\<rparr>"

section \<open>The invariant\<close>

abbreviation stored :: "psys \<Rightarrow> string \<times> int \<Rightarrow> int" where
  "stored x tp \<equiv> stored_offset (pg_group (ps_sink x)) (pg_db (ps_sink x)) tp"

definition tables_of :: "pg_env \<Rightarrow> msg list \<Rightarrow> pgdb \<Rightarrow> bool" where
  "tables_of env h db \<longleftrightarrow> (\<forall>t table a. map_of UPSERTS t = Some (table, a) \<longrightarrow>
     upsert_rows env table a (good_rows env t h) [] = Inr (pg_rows db table))"

definition offsets_of :: "string \<Rightarrow> (string \<times> int \<Rightarrow> msg list) \<Rightarrow> (string \<times> int) list \<Rightarrow> msg list
    \<Rightarrow> pgdb \<Rightarrow> bool" where
  "offsets_of grp input parts h db \<longleftrightarrow>
     dict_ok (pg_offsets db)
     \<and> list_all (\<lambda>m. is_record m \<and> (m_topic m, m_partition m) \<in> set parts) h
     \<and> list_all (\<lambda>tp. tp_records tp h = before_offset (stored_offset grp db tp + 1) (input tp)) parts"

definition pinv :: "pg_env \<Rightarrow> string \<Rightarrow> (string \<times> int \<Rightarrow> msg list) \<Rightarrow> (string \<times> int) list \<Rightarrow> psys \<Rightarrow> bool" where
  "pinv env grp input parts x \<longleftrightarrow>
     pg_group (ps_sink x) = grp
     \<and> tables_of env (ps_hist x) (pg_db (ps_sink x))
     \<and> offsets_of grp input parts (ps_hist x) (pg_db (ps_sink x))
     \<and> (ps_up x \<longrightarrow> list_all (\<lambda>tp. before_offset (ps_pos x tp) (input tp)
           = before_offset (stored_offset grp (pg_db (ps_sink x)) tp + 1) (input tp)) parts)"

lemma map_of_self: "x \<in> set xs \<Longrightarrow> map_of (map (\<lambda>x. (x, f x)) xs) x = Some (f x)"
  by (induction xs) auto

lemma pinv_init: "partitions_ok input parts \<Longrightarrow> pinv env grp input parts (psys_init grp)"
  using nothing_before [of input parts _ 0]
  by (simp add: pinv_def psys_init_def new_pg_sink_def empty_db_def tables_of_def upsert_rows_def
      offsets_of_def stored_offset_def list_all_iff)

lemma dict_ok_upsert_offsets: "dict_ok offs \<Longrightarrow> dict_ok (fold (upsert_offset grp) d offs)"
  by (induction d arbitrary: offs) (auto simp: upsert_offset_def Let_def dict_update_ok split: prod.split)

text \<open>A batch whose transaction took effect.\<close>

lemma batch_takes_effect:
  assumes ok: "partitions_ok input parts" and d: "deliverable input parts pos msgs"
    and b: "loop_inv env msgs b"
    and ex: "exec_rows env f (pb_rows b) db = Ret db1"
    and db': "db' = db1\<lparr>pg_offsets := fold (upsert_offset grp) (pb_max_offsets b) (pg_offsets db1)\<rparr>"
    and t: "tables_of env h db" and o: "offsets_of grp input parts h db"
    and pos: "list_all (\<lambda>tp. before_offset (pos tp) (input tp)
        = before_offset (stored_offset grp db tp + 1) (input tp)) parts"
  shows "tables_of env (h @ msgs) db'" "offsets_of grp input parts (h @ msgs) db'"
    "list_all (\<lambda>tp. before_offset (advance_pos pos msgs tp) (input tp)
        = before_offset (stored_offset grp db' tp + 1) (input tp)) parts"
proof -
  from b have rows: "rows_for b t = good_rows env t msgs" and keys: "map fst (pb_rows b) = SINK_TOPICS" for t
    by (simp_all add: loop_inv_def)
  have "distinct SINK_TOPICS" by (simp add: SINK_TOPICS_def topic_defs)
  with exec_rows_Ret [OF ex] keys have db1: "pg_offsets db1 = pg_offsets db"
    "\<And>t table a. map_of UPSERTS t = Some (table, a) \<Longrightarrow>
      upsert_rows env table a (good_rows env t msgs) (pg_rows db table) = Inr (pg_rows db1 table)"
    using rows by (simp_all add: rows_for_def)
  show "tables_of env (h @ msgs) db'"
    using t db1(2) by (simp add: tables_of_def db' good_rows_append upsert_rows_def rfold_append)
  have mo: "dict_ok (pb_max_offsets b)"
    "map_of (pb_max_offsets b) tp = (if tp_records tp msgs = [] then None
       else Some (fold max (map m_offset (tp_records tp msgs)) (-1)))" for tp
    using b unfolding loop_inv_def by blast+
  have so: "stored_offset grp db' tp = (if tp_records tp msgs = [] then stored_offset grp db tp
      else m_offset (last (tp_records tp msgs)))"
    and run: "before_offset (advance_pos pos msgs tp) (input tp)
      = before_offset (stored_offset grp db tp + 1) (input tp) @ tp_records tp msgs"
    if tp: "tp \<in> set parts" for tp
  proof -
    have "before_offset (pos tp) (input tp) = before_offset (stored_offset grp db tp + 1) (input tp)"
      using pos tp by (simp add: list_all_iff)
    note r = run_of_partition [OF ok tp d this]
    show "before_offset (advance_pos pos msgs tp) (input tp)
      = before_offset (stored_offset grp db tp + 1) (input tp) @ tp_records tp msgs" by (rule r(1))
    show "stored_offset grp db' tp = (if tp_records tp msgs = [] then stored_offset grp db tp
      else m_offset (last (tp_records tp msgs)))"
      using r(2,3) unfolding db' stored_offset_upsert [OF mo(1)] mo(2) db1(1)
      by (auto simp: stored_offset_def split: option.splits)
  qed
  show adv: "list_all (\<lambda>tp. before_offset (advance_pos pos msgs tp) (input tp)
        = before_offset (stored_offset grp db' tp + 1) (input tp)) parts"
    using pos by (auto simp: list_all_iff so advance_pos_def)
  have "is_record m \<and> (m_topic m, m_partition m) \<in> set parts" if "m \<in> set msgs" for m
    using that b d by (auto simp: loop_inv_def deliverable_def list_all_iff)
  moreover have "tp_records tp (h @ msgs) = before_offset (stored_offset grp db' tp + 1) (input tp)"
    if tp: "tp \<in> set parts" for tp
    using o adv run [OF tp] tp by (simp add: offsets_of_def list_all_iff tp_records_append)
  ultimately show "offsets_of grp input parts (h @ msgs) db'"
    using o db1(1) by (auto simp: offsets_of_def list_all_iff db' dict_ok_upsert_offsets)
qed

lemma pinv_step:
  assumes "partitions_ok input parts" "pstep env grp input parts x y" "pinv env grp input parts x"
  shows "pinv env grp input parts y"
  using assms(2,3)
proof (cases rule: pstep.cases)
  case (p_batch pos msgs faults s w s' h)
  from assms(3) have i: "pg_group s = grp" "tables_of env h (pg_db s)" "offsets_of grp input parts h (pg_db s)"
    "list_all (\<lambda>tp. before_offset (pos tp) (input tp)
        = before_offset (stored_offset grp (pg_db s) tp + 1) (input tp)) parts"
    by (simp_all add: pinv_def p_batch(1))
  from p_batch(4) show ?thesis
  proof (cases rule: pg_process_batch_cases)
    case (all b db1)
    from batch_takes_effect [OF assms(1) p_batch(3) all(1,3) all(4) [unfolded i(1)] i(2-4)] all(2) i(1)
    show ?thesis by (simp add: pinv_def p_batch(2))
  qed blast
next
  case (p_fail pos msgs faults s r s' e h)
  from assms(3) have i: "pg_group s = grp" "tables_of env h (pg_db s)" "offsets_of grp input parts h (pg_db s)"
    "list_all (\<lambda>tp. before_offset (pos tp) (input tp)
        = before_offset (stored_offset grp (pg_db s) tp + 1) (input tp)) parts"
    by (simp_all add: pinv_def p_fail(1))
  from p_fail(4) show ?thesis
  proof (cases rule: pg_process_batch_cases)
    case (all b db1)
    from batch_takes_effect [OF assms(1) p_fail(3) all(1,3) all(4) [unfolded i(1)] i(2-4)] all(2) i
    show ?thesis by (simp add: pinv_def p_fail(2))
  next
    case none
    with i show ?thesis by (simp add: pinv_def p_fail(2))
  qed
next
  case (p_kill s pos h)
  with assms(3) show ?thesis by (simp add: pinv_def)
next
  case (p_restart s' s pos h)
  have pos: "assigned_pos s' tp = (let off = stored_offset grp (pg_db s) tp
      in if off \<ge> 0 then off + 1 else OFFSET_BEGINNING)" if "tp \<in> set parts" for tp
    using that unfolding assigned_pos_def p_restart(3) pg_on_assign_def stored_offsets_def
    by (simp add: new_pg_sink_def map_of_self Let_def o_def)
  with nothing_before [OF assms(1)] have "before_offset (assigned_pos s' tp) (input tp)
      = before_offset (stored_offset grp (pg_db s) tp + 1) (input tp)" if "tp \<in> set parts" for tp
    using that by (simp add: Let_def OFFSET_BEGINNING_def)
  moreover have "pg_group s' = grp" "pg_db s' = pg_db s"
    by (simp_all add: p_restart(3) pg_on_assign_def new_pg_sink_def)
  ultimately show ?thesis
    using assms(3) by (simp add: pinv_def p_restart(1,2) list_all_iff)
qed

lemma preachable_pinv:
  assumes "preachable env grp input parts x" "partitions_ok input parts"
  shows "pinv env grp input parts x"
  using assms(1) by (induction rule: preachable.induct) (use assms(2) in \<open>auto intro: pinv_init pinv_step\<close>)

end
