(* ===== verification/Pg_Demo.thy ===== *)
theory Pg_Demo
  imports Pg_System Events
begin

text \<open>
  A concrete run of the Postgres sink, for closed instances of its properties: two copies of
  one ride event, an unparseable message, and two closes of the same ride, the richer one
  later, consumed as one batch.
\<close>

definition pg_close :: "string \<Rightarrow> int \<Rightarrow> pyval \<Rightarrow> payload" where
  "pg_close state seq started =
     [(''ride_id'', PStr ''r''), (''rider_id'', PStr ''u''), (''city_id'', PInt 1),
      (''terminal_state'', PStr state), (''event_seq'', PInt seq), (''requested_ts'', PInt 0),
      (''started_ts'', started), (''is_late_arrival'', PBool False),
      (''surge_multiplier'', PFloat 1), (''pickup_lat'', PFloat 12), (''pickup_lon'', PFloat 77)]"

definition pg_demo_env :: pg_env where
  "pg_demo_env =
     \<lparr>deserializers =
        [(RIDES_EVENTS, \<lambda>_ v. if v = Some ''POISON'' then Inl (ValueError ''unparseable payload'')
            else Inr (sample_event ''r'' REQUESTED 0)),
         (RIDES_SESSIONS, \<lambda>_ v. Inr (if v = Some ''A'' then pg_close ''abandoned'' 2 PNone
            else pg_close ''completed'' 5 (PInt 0)))],
      accepts = (\<lambda>_ _. None), pg_clock = (\<lambda>_. ''now'')\<rparr>"

definition pg_demo_msg :: "string \<Rightarrow> int \<Rightarrow> string \<Rightarrow> msg" where
  "pg_demo_msg topic off v = \<lparr>m_topic = topic, m_partition = 0, m_offset = off, m_key = Some ''r'',
     m_value = Some v, m_error = None\<rparr>"

definition pg_demo_batch :: "msg list" where
  "pg_demo_batch =
     [pg_demo_msg RIDES_EVENTS 0 ''E'', pg_demo_msg RIDES_EVENTS 1 ''POISON'',
      pg_demo_msg RIDES_SESSIONS 0 ''A'', pg_demo_msg RIDES_EVENTS 2 ''E'',
      pg_demo_msg RIDES_SESSIONS 1 ''B'']"

definition pg_demo_parts :: "(string \<times> int) list" where
  "pg_demo_parts = [(RIDES_EVENTS, 0), (RIDES_SESSIONS, 0)]"

definition pg_demo_input :: "string \<times> int \<Rightarrow> msg list" where
  "pg_demo_input tp = tp_records tp pg_demo_batch"

abbreviation pg_demo_reaches :: "psys \<Rightarrow> bool" where
  "pg_demo_reaches \<equiv> preachable pg_demo_env ''pg-sink'' pg_demo_input pg_demo_parts"

text \<open>The sink after its start on an empty database.\<close>

definition pg_demo_start :: pg_sink where
  "pg_demo_start = (new_pg_sink ''pg-sink'' empty_db)
     \<lparr>pg_positions := [((RIDES_EVENTS, 0), -2), ((RIDES_SESSIONS, 0), -2)]\<rparr>"

definition pg_demo_up :: psys where
  "pg_demo_up = \<lparr>ps_sink = pg_demo_start, ps_pos = assigned_pos pg_demo_start, ps_up = True, ps_hist = []\<rparr>"

lemma topics_neq [simp]: "RIDES_EVENTS \<noteq> RIDES_SESSIONS" "RIDES_SESSIONS \<noteq> RIDES_EVENTS"
  "PAYMENTS_TRANSACTIONS \<noteq> RIDES_EVENTS" "PAYMENTS_TRANSACTIONS \<noteq> RIDES_SESSIONS"
  "DRIVERS_LOCATIONS \<noteq> RIDES_EVENTS" "DRIVERS_LOCATIONS \<noteq> RIDES_SESSIONS"
  "DRIVERS_LOCATIONS \<noteq> PAYMENTS_TRANSACTIONS" "RIDES_EVENTS \<noteq> PAYMENTS_TRANSACTIONS"
  "RIDES_SESSIONS \<noteq> PAYMENTS_TRANSACTIONS" "RIDES_EVENTS \<noteq> DRIVERS_LOCATIONS"
  "RIDES_SESSIONS \<noteq> DRIVERS_LOCATIONS" "PAYMENTS_TRANSACTIONS \<noteq> DRIVERS_LOCATIONS"
  by (simp_all add: topic_defs)

lemma pg_demo_msg_simps [simp]:
  "m_topic (pg_demo_msg t off v) = t" "m_partition (pg_demo_msg t off v) = 0"
  "m_offset (pg_demo_msg t off v) = off" "m_value (pg_demo_msg t off v) = Some v"
  "m_error (pg_demo_msg t off v) = None" "is_record (pg_demo_msg t off v)"
  by (simp_all add: pg_demo_msg_def is_record_def)

lemma pg_demo_input_ok: "partitions_ok pg_demo_input pg_demo_parts"
  by (simp add: partitions_ok_def pg_demo_parts_def pg_demo_input_def pg_demo_batch_def)

lemma pg_demo_started: "preachable env ''pg-sink'' pg_demo_input pg_demo_parts pg_demo_up"
proof (rule preach_step [OF preach_init])
  have "pg_demo_start = pg_on_assign pg_demo_parts (new_pg_sink ''pg-sink'' (pg_db (new_pg_sink ''pg-sink'' empty_db)))"
    by (simp add: pg_demo_start_def pg_on_assign_def pg_demo_parts_def stored_offsets_def new_pg_sink_def
        empty_db_def stored_offset_def OFFSET_BEGINNING_def)
  from p_restart [OF this] show "pstep env ''pg-sink'' pg_demo_input pg_demo_parts
      (psys_init ''pg-sink'') pg_demo_up"
    unfolding psys_init_def pg_demo_up_def .
qed

lemma pg_demo_deliverable: "deliverable pg_demo_input pg_demo_parts (assigned_pos pg_demo_start) pg_demo_batch"
  by (simp add: deliverable_def pg_demo_parts_def pg_demo_input_def pg_demo_batch_def from_offset_def
      assigned_pos_def pg_demo_start_def new_pg_sink_def)

section \<open>The rows\<close>

definition pg_demo_event_row :: "int \<Rightarrow> pg_row" where
  "pg_demo_event_row off =
     [PStr ''r'', PInt 1, PStr (event_id ''r'' REQUESTED), PStr ''requested'', PDatetime (dt_of_ms 0),
      PStr ''u-1'', PNone, PInt 1, PFloat 12, PFloat 77, PNone, PNone, PNone, PFloat 1, PInt 1, PNone,
      PInt 0, PInt off]"

definition pg_close_row :: "string \<Rightarrow> int \<Rightarrow> pyval \<Rightarrow> pg_row" where
  "pg_close_row state seq started =
     [PStr ''r'', PStr ''u'', PNone, PInt 1, PStr state, PInt seq, PDatetime (dt_of_ms 0), PNone, PNone,
      started, PNone, PNone, PNone, PNone, PNone, PNone, PBool False, PNone, PFloat 1, PNone,
      PFloat 12, PFloat 77, PNone, PNone]"

lemma pg_demo_builders: "map_of ROW_BUILDERS RIDES_EVENTS = Some rides_event_row"
  "map_of ROW_BUILDERS RIDES_SESSIONS = Some (\<lambda>value part off. session_row value)"
  by (simp_all add: ROW_BUILDERS_def)

lemma rides_event_row_sample: "rides_event_row (sample_event ''r'' REQUESTED 0) 0 off = Inr (pg_demo_event_row off)"
  by (simp add: rides_event_row_def pg_demo_event_row_def)
    (simp add: sample_event_def ride_event_def Let_def d_item_def d_get_def)

lemma session_row_close:
  "session_row (pg_close state seq PNone) = Inr (pg_close_row state seq PNone)"
  "session_row (pg_close state seq (PInt 0)) = Inr (pg_close_row state seq (PDatetime (dt_of_ms 0)))"
  by (simp_all add: session_row_def pg_close_def pg_close_row_def d_item_def d_get_def)

lemma pg_demo_rows:
  "row_of_msg pg_demo_env (pg_demo_msg RIDES_EVENTS off ''E'') = Inr (pg_demo_event_row off)"
  "row_of_msg pg_demo_env (pg_demo_msg RIDES_EVENTS off ''POISON'') = Inl (ValueError ''unparseable payload'')"
  "row_of_msg pg_demo_env (pg_demo_msg RIDES_SESSIONS off ''A'') = Inr (pg_close_row ''abandoned'' 2 PNone)"
  "row_of_msg pg_demo_env (pg_demo_msg RIDES_SESSIONS off ''B'')
     = Inr (pg_close_row ''completed'' 5 (PDatetime (dt_of_ms 0)))"
  by (simp_all add: row_of_msg_def lookup_key_def pg_demo_env_def pg_demo_builders
      rides_event_row_sample session_row_close)

section \<open>The batch\<close>

lemma pg_demo_cols:
  "map fst (columns ''raw.rides_events'') = [''ride_id'', ''event_seq'', ''event_id'', ''event_type'',
     ''event_ts'', ''rider_id'', ''driver_id'', ''city_id'', ''pickup_lat'', ''pickup_lon'', ''dropoff_lat'',
     ''dropoff_lon'', ''fare_cents'', ''surge_multiplier'', ''payload_version'', ''promo_code'',
     ''kafka_partition'', ''kafka_offset'']"
  "map fst (columns ''raw.ride_sessions'') = [''ride_id'', ''rider_id'', ''driver_id'', ''city_id'',
     ''terminal_state'', ''event_seq'', ''requested_ts'', ''matched_ts'', ''driver_arrived_ts'', ''started_ts'',
     ''ended_ts'', ''time_to_match_sec'', ''time_to_pickup_sec'', ''ride_duration_sec'',
     ''haversine_distance_km'', ''avg_speed_kmh'', ''is_late_arrival'', ''fare_cents'', ''surge_multiplier'',
     ''promo_code'', ''pickup_lat'', ''pickup_lon'', ''dropoff_lat'', ''dropoff_lon'']"
  by (simp_all add: columns_def TABLE_COLUMNS_def)

lemma pg_demo_columns:
  "key_of ''raw.rides_events'' (pg_demo_event_row off) = [PStr ''r'', PInt 1]"
  "key_of ''raw.ride_sessions'' (pg_close_row state seq x) = [PStr ''r'']"
  "column ''raw.ride_sessions'' (pg_close_row state seq x) ''event_seq'' = PInt seq"
  by (simp_all add: key_of_def column_def pg_demo_cols PRIMARY_KEY_def pg_demo_event_row_def
      pg_close_row_def d_get_def)

lemma pg_demo_not_null:
  "not_null_ok ''raw.rides_events'' (pg_demo_event_row off)"
  "not_null_ok ''raw.ride_sessions'' (pg_close_row state seq x)"
  by (simp_all add: not_null_ok_def column_def pg_demo_cols)
    (simp_all add: columns_def TABLE_COLUMNS_def pg_demo_event_row_def pg_close_row_def d_get_def)

text \<open>The session row the two closes leave: the state of the richer one, but its
  \<open>started_ts\<close> is not among the updated columns.\<close>

definition pg_demo_session :: pg_row where
  "pg_demo_session = pg_close_row ''completed'' 5 PNone"

lemma pg_demo_resolve:
  "resolve ''raw.ride_sessions'' (snd (the (map_of UPSERTS RIDES_SESSIONS)))
     (pg_close_row ''abandoned'' 2 PNone) (pg_close_row ''completed'' 5 started) = pg_demo_session"
  by (simp add: UPSERTS_def pg_demo_columns pg_demo_cols)
    (simp add: pg_close_row_def pg_demo_session_def)

lemma pg_demo_upserts:
  "upsert_rows pg_demo_env ''raw.rides_events'' DO_NOTHING [pg_demo_event_row 0, pg_demo_event_row 2] []
     = Inr [([PStr ''r'', PInt 1], pg_demo_event_row 0)]"
  "upsert_rows pg_demo_env ''raw.ride_sessions'' (snd (the (map_of UPSERTS RIDES_SESSIONS)))
     [pg_close_row ''abandoned'' 2 PNone, pg_close_row ''completed'' 5 started] []
     = Inr [([PStr ''r''], pg_demo_session)]"
proof -
  have acc: "accepts pg_demo_env t r = None" for t r by (simp add: pg_demo_env_def)
  show "upsert_rows pg_demo_env ''raw.rides_events'' DO_NOTHING [pg_demo_event_row 0, pg_demo_event_row 2] []
     = Inr [([PStr ''r'', PInt 1], pg_demo_event_row 0)]"
    by (simp add: upsert_rows_def upsert_row_def acc pg_demo_not_null pg_demo_columns unique_ok_def
        UNIQUE_INDEX_def)
  show "upsert_rows pg_demo_env ''raw.ride_sessions'' (snd (the (map_of UPSERTS RIDES_SESSIONS)))
     [pg_close_row ''abandoned'' 2 PNone, pg_close_row ''completed'' 5 started] []
     = Inr [([PStr ''r''], pg_demo_session)]"
    by (simp add: upsert_rows_def upsert_row_def acc pg_demo_not_null pg_demo_columns unique_ok_def
        UNIQUE_INDEX_def pg_demo_resolve)
qed

definition pg_demo_db :: pgdb where
  "pg_demo_db =
     \<lparr>pg_rows = (\<lambda>_. [])(''raw.rides_events'' := [([PStr ''r'', PInt 1], pg_demo_event_row 0)],
        ''raw.ride_sessions'' := [([PStr ''r''], pg_demo_session)]),
      pg_offsets = [((''pg-sink'', RIDES_EVENTS, 0), 2), ((''pg-sink'', RIDES_SESSIONS, 0), 1)]\<rparr>"

lemma pg_demo_process:
  "\<exists>s'. pg_process_batch pg_demo_env pg_no_faults pg_demo_batch pg_demo_start
       = (Ret [(RIDES_EVENTS, 2), (RIDES_SESSIONS, 2)], s')
     \<and> pg_db s' = pg_demo_db \<and> pg_group s' = ''pg-sink'' \<and> length (dp_out (pg_dlq s')) = 1
     \<and> dp_flushed (pg_dlq s') = 0"
proof -
  let ?b = "\<lparr>pb_consumed = [(RIDES_EVENTS, 3), (RIDES_SESSIONS, 2)],
      pb_rows = [(RIDES_EVENTS, [pg_demo_event_row 0, pg_demo_event_row 2]),
        (RIDES_SESSIONS, [pg_close_row ''abandoned'' 2 PNone, pg_close_row ''completed'' 5 (PDatetime (dt_of_ms 0))]),
        (PAYMENTS_TRANSACTIONS, []), (DRIVERS_LOCATIONS, [])],
      pb_max_offsets = [((RIDES_EVENTS, 0), 2), ((RIDES_SESSIONS, 0), 1)]\<rparr>"
  obtain s1 where s1: "sink_msgs pg_demo_env pg_demo_batch (new_pg_batch, pg_demo_start) = (Ret (), ?b, s1)"
    and s1': "pg_db s1 = empty_db" "pg_group s1 = ''pg-sink''" "length (dp_out (pg_dlq s1)) = 1"
      "dp_flushed (pg_dlq s1) = 0"
  proof -
    have "\<exists>s1. sink_msgs pg_demo_env pg_demo_batch (new_pg_batch, pg_demo_start) = (Ret (), ?b, s1)
        \<and> pg_db s1 = empty_db \<and> pg_group s1 = ''pg-sink'' \<and> length (dp_out (pg_dlq s1)) = 1
        \<and> dp_flushed (pg_dlq s1) = 0"
      by (simp add: pg_demo_batch_def sink_msg_def pg_demo_rows dlq_handle_eq count_msg_def add_row_def
          new_pg_batch_def SINK_TOPICS_def pg_demo_start_def new_pg_sink_def dlq_producer_init_def Let_def)
    with that show ?thesis by blast
  qed
  have up: "map_of UPSERTS RIDES_EVENTS = Some (''raw.rides_events'', DO_NOTHING)"
    "\<exists>a. map_of UPSERTS RIDES_SESSIONS = Some (''raw.ride_sessions'', a)"
    by (simp_all add: UPSERTS_def)
  then obtain a where a: "map_of UPSERTS RIDES_SESSIONS = Some (''raw.ride_sessions'', a)" by blast
  note rows = pg_demo_upserts(1) pg_demo_upserts(2) [unfolded a option.sel snd_conv]
  have "exec_rows pg_demo_env (pf_exec pg_no_faults) (pb_rows ?b) empty_db
      = Ret \<lparr>pg_rows = pg_rows pg_demo_db, pg_offsets = []\<rparr>"
    by (simp add: pg_no_faults_def up(1) a rows empty_db_def pg_demo_db_def)
  then have "pg_transact pg_demo_env pg_no_faults ''pg-sink'' ?b empty_db = (Ret (), pg_demo_db)"
    by (simp add: pg_transact_def exec_offsets_def pg_no_faults_def upsert_offset_def pg_demo_db_def)
  then show ?thesis
    by (simp add: pg_process_batch_def s1 s1' written_def)
qed

definition pg_demo_done :: "pg_sink \<Rightarrow> psys" where
  "pg_demo_done s = \<lparr>ps_sink = s, ps_pos = advance_pos (assigned_pos pg_demo_start) pg_demo_batch,
     ps_up = True, ps_hist = pg_demo_batch\<rparr>"

lemma pg_demo_reachable:
  obtains s where "pg_demo_reaches (pg_demo_done s)" "pg_db s = pg_demo_db" "pg_group s = ''pg-sink''"
    "length (dp_out (pg_dlq s)) = 1" "dp_flushed (pg_dlq s) = 0"
proof -
  from pg_demo_process obtain s where s: "pg_process_batch pg_demo_env pg_no_faults pg_demo_batch pg_demo_start
       = (Ret [(RIDES_EVENTS, 2), (RIDES_SESSIONS, 2)], s)"
    and rest: "pg_db s = pg_demo_db" "pg_group s = ''pg-sink''" "length (dp_out (pg_dlq s)) = 1"
      "dp_flushed (pg_dlq s) = 0" by blast
  from p_batch [OF pg_demo_deliverable s, of "''pg-sink''" "[]"]
  have "pstep pg_demo_env ''pg-sink'' pg_demo_input pg_demo_parts pg_demo_up (pg_demo_done s)"
    by (simp add: pg_demo_up_def pg_demo_done_def)
  from preach_step [OF pg_demo_started this] rest that show thesis by blast
qed

end
