(* ===== verification/Pg_Properties.thy ===== *)
theory Pg_Properties
  imports Pg_Demo
begin

text \<open>
  The properties of the Postgres sink, over every run of the system: any batches, any
  database call failing, a commit that takes effect although it raises, the process killed
  anywhere, any number of restarts.
\<close>

section \<open>What a table holds after a sequence of upserts\<close>

lemma upsert_row_keys:
  assumes "upsert_row env table a r t = Inr t'"
  shows "fst ` set t' = insert (key_of table r) (fst ` set t)"
  using assms
proof (cases rule: upsert_row_cases)
  case (conflict old)
  then show ?thesis by (simp add: dom_update)
qed simp

lemma upsert_rows_keys:
  "upsert_rows env table a rs t = Inr t' \<Longrightarrow> fst ` set t' = fst ` set t \<union> key_of table ` set rs"
  unfolding upsert_rows_def
proof (induction rs arbitrary: t)
  case (Cons x xs)
  then obtain u where "upsert_row env table a x t = Inr u" "rfold (upsert_row env table a) xs u = Inr t'"
    by (auto simp: rbind_eq_Inr)
  from upsert_row_keys [OF this(1)] Cons.IH [OF this(2)] show ?case by simp
qed simp

lemma upsert_rows_accepted:
  assumes "upsert_rows env table a rs t = Inr t'" "r \<in> set rs"
  shows "accepts env table r = None \<and> not_null_ok table r"
  using assms unfolding upsert_rows_def
proof (induction rs arbitrary: t)
  case (Cons x xs)
  then obtain u where "upsert_row env table a x t = Inr u" "rfold (upsert_row env table a) xs u = Inr t'"
    by (auto simp: rbind_eq_Inr)
  with Cons show ?case by (auto elim!: upsert_row_cases)
qed simp

text \<open>With DO NOTHING the first row of a key stays.\<close>

lemma upsert_rows_first:
  assumes "upsert_rows env table DO_NOTHING rs t = Inr t'" "dict_ok t"
  shows "map_of t' k = (case map_of t k of Some r \<Rightarrow> Some r | None \<Rightarrow> find (\<lambda>r. key_of table r = k) rs)"
  using assms unfolding upsert_rows_def
proof (induction rs arbitrary: t)
  case (Cons x xs)
  then obtain u where u: "upsert_row env table DO_NOTHING x t = Inr u"
    "rfold (upsert_row env table DO_NOTHING) xs u = Inr t'"
    by (auto simp: rbind_eq_Inr)
  from u(1) have "dict_ok u \<and> map_of u k = (case map_of t k of Some r \<Rightarrow> Some r
      | None \<Rightarrow> if key_of table x = k then Some x else None)"
  proof (cases rule: upsert_row_cases)
    case fresh
    moreover have "dict_ok u" using fresh(3,5) Cons.prems(2) by (simp add: map_of_eq_None_iff)
    ultimately show ?thesis
      by (auto simp: map_add_def simp del: map_of_eq_Some_iff split: option.split)
  next
    case (conflict old)
    then have "u = t" using Cons.prems(2) dict_update_same [of t "key_of table x" old] by simp
    with conflict(3) Cons.prems(2) show ?thesis
      by (auto simp del: map_of_eq_Some_iff split: option.split)
  qed
  with Cons.IH [OF u(2)] show ?case by (auto split: option.splits)
qed (simp split: option.split)

text \<open>With DO UPDATE the rewritten columns of a stored row come together from one of its rows.\<close>

lemma upsert_rows_from:
  assumes "upsert_rows env table (DO_UPDATE cs w) rs t = Inr t'" "action_ok table (DO_UPDATE cs w)"
    and "table_ok table t" "list_all (row_ok table) rs" "map_of t' k = Some s"
  shows "(\<exists>s0. map_of t k = Some s0 \<and> (\<forall>c \<in> set cs. column table s c = column table s0 c))
    \<or> (\<exists>r \<in> set rs. key_of table r = k \<and> (\<forall>c \<in> set cs. column table s c = column table r c))"
  using assms unfolding upsert_rows_def
proof (induction rs arbitrary: t)
  case (Cons x xs)
  then obtain u where u: "upsert_row env table (DO_UPDATE cs w) x t = Inr u"
    "rfold (upsert_row env table (DO_UPDATE cs w)) xs u = Inr t'"
    by (auto simp: rbind_eq_Inr)
  have x: "row_ok table x" "list_all (row_ok table) xs" using Cons.prems(4) by simp_all
  have uok: "table_ok table u" by (rule upsert_row_inv [OF Cons.prems(2,3) x(1) u(1)])
  have step: "\<exists>r. (map_of t k = Some r \<or> r = x \<and> key_of table x = k)
      \<and> (\<forall>c \<in> set cs. column table s0 c = column table r c)" if s0: "map_of u k = Some s0" for s0
    using u(1)
  proof (cases rule: upsert_row_cases)
    case fresh
    with s0 show ?thesis by (auto simp: map_add_def split: if_splits option.splits)
  next
    case (conflict old)
    show ?thesis
    proof (cases "k = key_of table x")
      case True
      with s0 conflict have s0': "s0 = resolve table (DO_UPDATE cs w) old x" by simp
      have d: "distinct (map fst (columns table))" using Cons.prems(2) by simp
      show ?thesis
      proof (cases "sql_gt (column table x w) (column table old w)")
        case gt: True
        show ?thesis
          using column_resolve [OF stored_ok [OF Cons.prems(3) conflict(3)] x(1) d gt, of cs] True
          by (intro exI [of _ x]) (simp add: s0' del: resolve.simps)
      next
        case False
        then show ?thesis using conflict(3) True by (intro exI [of _ old]) (simp add: s0')
      qed
    next
      case False
      with s0 conflict(4) show ?thesis by (intro exI [of _ s0]) simp
    qed
  qed
  from Cons.IH [OF u(2) Cons.prems(2) uok x(2) Cons.prems(5)] show ?case
  proof (elim disjE exE conjE bexE)
    fix s0
    assume s0: "map_of u k = Some s0" and eq: "\<forall>c \<in> set cs. column table s c = column table s0 c"
    from step [OF s0] obtain r where r: "map_of t k = Some r \<or> r = x \<and> key_of table x = k"
      "\<forall>c \<in> set cs. column table s0 c = column table r c" by blast
    with eq have "\<forall>c \<in> set cs. column table s c = column table r c" by simp
    with r(1) show ?thesis by auto
  qed auto
qed auto

section \<open>The rows the builders make\<close>

lemma built_lengths:
  "rides_event_row v p off = Inr r \<Longrightarrow> length r = 18"
  "session_row v = Inr r \<Longrightarrow> length r = 24"
  "payment_row v = Inr r \<Longrightarrow> length r = 6"
  "location_row v = Inr r \<Longrightarrow> length r = 8"
  by (auto simp: rides_event_row_def session_row_def payment_row_def location_row_def rbind_eq_Inr
      simp del: rmap.simps dest!: rmap_length)

lemma column_counts:
  "length (columns ''raw.rides_events'') = 18" "length (columns ''raw.ride_sessions'') = 24"
  "length (columns ''raw.payments_transactions'') = 6" "length (columns ''raw.driver_locations'') = 8"
  by (simp_all add: columns_def TABLE_COLUMNS_def)

lemma built_row_ok:
  assumes "row_of_msg env m = Inr r" "map_of UPSERTS (m_topic m) = Some (table, a)"
  shows "row_ok table r"
proof -
  from assms(1) obtain v g where g: "map_of ROW_BUILDERS (m_topic m) = Some g"
    "g v (m_partition m) (m_offset m) = Inr r"
    by (auto simp: row_of_msg_def lookup_key_def rbind_eq_Inr split: option.splits)
  then show ?thesis
    using assms(2) by (auto simp: ROW_BUILDERS_def UPSERTS_def topic_defs row_ok_def column_counts
        dest: built_lengths split: if_splits)
qed

lemma good_rows_ok:
  assumes "map_of UPSERTS t = Some (table, a)"
  shows "list_all (row_ok table) (good_rows env t ms)"
  using assms
  by (induction ms) (auto simp: good_row_def split: option.split if_splits sum.splits intro: built_row_ok)

lemma in_good_rows:
  "r \<in> set (good_rows env t ms) \<longleftrightarrow>
     (\<exists>m \<in> set ms. m_error m = None \<and> m_topic m = t \<and> row_of_msg env m = Inr r)"
  by (induction ms) (auto simp: good_row_def split: option.splits if_splits sum.splits)

lemma good_rows_mono: "set xs \<subseteq> set ys \<Longrightarrow> set (good_rows env t xs) \<subseteq> set (good_rows env t ys)"
  unfolding subset_iff in_good_rows by blast

lemma UPSERTS_ok: "map_of UPSERTS t = Some (table, a) \<Longrightarrow> action_ok table a"
  by (auto simp: UPSERTS_def columns_def TABLE_COLUMNS_def pk_def PRIMARY_KEY_def split: if_splits)

lemma table_ok_empty: "table_ok table []"
  by (simp add: table_ok_def)

section \<open>The tables of a reachable state\<close>

lemma reachable_table:
  assumes "partitions_ok input parts" "preachable env grp input parts x" "map_of UPSERTS t = Some (table, a)"
  defines "tbl \<equiv> pg_rows (pg_db (ps_sink x)) table" and "rows \<equiv> good_rows env t (ps_hist x)"
  shows "table_ok table tbl" "fst ` set tbl = key_of table ` set rows"
    and "length tbl = card (key_of table ` set rows)"
    and "\<And>r. r \<in> set rows \<Longrightarrow> not_null_ok table r"
proof -
  have all: "upsert_rows env table a rows [] = Inr tbl"
    using preachable_pinv [OF assms(2,1)] assms(3) by (simp add: pinv_def tables_of_def rows_def tbl_def)
  have rep: "replayable (upsert_row env table a) (row_ok table) (table_ok table)"
    by (rule upsert_replayable [OF UPSERTS_ok [OF assms(3)]])
  show ok: "table_ok table tbl"
    using replayable.inv_all [OF rep table_ok_empty good_rows_ok [OF assms(3)]] all
    by (simp add: upsert_rows_def rows_def)
  show keys: "fst ` set tbl = key_of table ` set rows" using upsert_rows_keys [OF all] by simp
  have "length tbl = card (fst ` set tbl)" using ok distinct_card [of "map fst tbl"] by (simp add: table_ok_def)
  then show "length tbl = card (key_of table ` set rows)" unfolding keys .
  show "not_null_ok table r" if "r \<in> set rows" for r using upsert_rows_accepted [OF all that] by simp
qed

section \<open>Properties\<close>

text \<open>C7: the Postgres sink is effectively exactly once. In every reachable state the messages
  whose batch took effect are, for each partition, precisely those up to the offset stored in
  Postgres, and every table is what applying each of their good rows once, in order, to an empty
  table gives: data and position move together or not at all.\<close>

theorem pg_sink_exactly_once:
  assumes "partitions_ok input parts" "preachable env grp input parts x"
  shows "list_all (\<lambda>tp. tp_records tp (ps_hist x) =
      before_offset (stored_offset grp (pg_db (ps_sink x)) tp + 1) (input tp)) parts
    \<and> list_all (\<lambda>(topic, table, action). upsert_rows env table action (good_rows env topic (ps_hist x)) []
        = Inr (pg_rows (pg_db (ps_sink x)) table)) UPSERTS"
proof -
  have "dict_ok UPSERTS" by (simp add: UPSERTS_def topic_defs)
  then show ?thesis
    using preachable_pinv [OF assms(2,1)]
    by (auto simp: pinv_def offsets_of_def tables_of_def list_all_iff)
qed

theorem pg_sink_exactly_once_witness:
  "\<exists>s. pg_demo_reaches (pg_demo_done s) \<and> stored_offset ''pg-sink'' (pg_db s) (RIDES_EVENTS, 0) = 2
    \<and> tp_records (RIDES_EVENTS, 0) pg_demo_batch = before_offset 3 (pg_demo_input (RIDES_EVENTS, 0))"
proof -
  obtain s where s: "pg_demo_reaches (pg_demo_done s)" "pg_db s = pg_demo_db"
    using pg_demo_reachable by blast
  have "stored_offset ''pg-sink'' pg_demo_db (RIDES_EVENTS, 0) = 2"
    by (simp add: stored_offset_def pg_demo_db_def)
  with pg_sink_exactly_once [OF pg_demo_input_ok s(1)] s show ?thesis
    by (auto simp: pg_demo_done_def pg_demo_parts_def)
qed

lemma sink_msgs_total:
  "list_all is_record ms \<Longrightarrow> \<exists>b' s'. sink_msgs env ms bs = (Ret (), b', s')"
proof (induction ms arbitrary: bs)
  case (Cons m ms)
  then have "m_error m = None" by (simp add: is_record_def)
  then obtain bs' where "sink_msg env m bs = (Ret (), bs')"
    by (cases "row_of_msg env m") (auto simp: sink_msg_def Let_def dlq_handle_eq)
  with Cons.IH [of bs'] Cons.prems show ?case by simp
qed (cases bs, simp)

lemma exec_rows_same:
  assumes "list_all (\<lambda>(t, rs). rs \<noteq> [] \<longrightarrow> (\<exists>table a. map_of UPSERTS t = Some (table, a)
      \<and> upsert_rows env table a rs (pg_rows db table) = Inr (pg_rows db table))) bs"
  shows "exec_rows env (\<lambda>_. None) bs db = Ret db"
  using assms by (induction bs) auto

lemma upsert_offsets_same:
  assumes "dict_ok offs"
    and "list_all (\<lambda>((t, p), off). \<exists>old \<ge> off. map_of offs (grp, t, p) = Some old) d"
  shows "fold (upsert_offset grp) d offs = offs"
  using assms(2)
proof (induction d)
  case (Cons x d)
  obtain t p off where x: "x = ((t, p), off)" by (metis surj_pair)
  with Cons.prems obtain old where old: "off \<le> old" "map_of offs (grp, t, p) = Some old" by auto
  then have "upsert_offset grp x offs = offs"
    using dict_update_same [OF assms(1) old(2)] by (simp add: x upsert_offset_def max_def)
  with Cons show ?case by simp
qed simp

lemma replay_same_rows:
  assumes "pinv env grp input parts x" "set msgs \<subseteq> set (ps_hist x)" "loop_inv env msgs b"
  shows "exec_rows env (\<lambda>_. None) (pb_rows b) (pg_db (ps_sink x)) = Ret (pg_db (ps_sink x))"
proof (rule exec_rows_same, unfold list_all_iff, clarify)
  fix t rs assume m: "(t, rs) \<in> set (pb_rows b)" "rs \<noteq> []"
  have k: "map fst (pb_rows b) = SINK_TOPICS" using assms(3) by (simp add: loop_inv_def)
  then have "t \<in> set SINK_TOPICS" using m(1) by (metis fst_conv imageI list.set_map)
  then obtain table a where ta: "map_of UPSERTS t = Some (table, a)"
    by (auto simp: SINK_TOPICS_def UPSERTS_def)
  have "dict_ok (pb_rows b)" using k by (simp add: SINK_TOPICS_def)
  with m(1) have "rs = good_rows env t msgs"
    using assms(3) by (auto simp: loop_inv_def rows_for_def split: option.splits)
  then have sub: "set rs \<subseteq> set (good_rows env t (ps_hist x))"
    using good_rows_mono [OF assms(2)] by simp
  have all: "rfold (upsert_row env table a) (good_rows env t (ps_hist x)) []
      = Inr (pg_rows (pg_db (ps_sink x)) table)"
    using assms(1) ta by (simp add: pinv_def tables_of_def upsert_rows_def)
  have "upsert_rows env table a rs (pg_rows (pg_db (ps_sink x)) table)
      = Inr (pg_rows (pg_db (ps_sink x)) table)"
    unfolding upsert_rows_def
    by (rule replayable.replay_is_invisible [OF upsert_replayable [OF UPSERTS_ok [OF ta]]
        table_ok_empty good_rows_ok [OF ta] all sub])
  with ta show "\<exists>table a. map_of UPSERTS t = Some (table, a) \<and> upsert_rows env table a rs
      (pg_rows (pg_db (ps_sink x)) table) = Inr (pg_rows (pg_db (ps_sink x)) table)" by blast
qed

lemma replay_same_offsets:
  assumes "pinv env grp input parts x" "set msgs \<subseteq> set (ps_hist x)" "loop_inv env msgs b"
    and "partitions_ok input parts"
  shows "fold (upsert_offset grp) (pb_max_offsets b) (pg_offsets (pg_db (ps_sink x)))
      = pg_offsets (pg_db (ps_sink x))"
proof (rule upsert_offsets_same)
  let ?db = "pg_db (ps_sink x)"
  from assms(1) have o: "offsets_of grp input parts (ps_hist x) ?db" by (simp add: pinv_def)
  then show "dict_ok (pg_offsets ?db)" by (simp add: offsets_of_def)
  show "list_all (\<lambda>((t, p), off). \<exists>old \<ge> off. map_of (pg_offsets ?db) (grp, t, p) = Some old)
      (pb_max_offsets b)"
  proof (unfold list_all_iff, clarify)
    fix t p off assume "((t, p), off) \<in> set (pb_max_offsets b)"
    moreover have "dict_ok (pb_max_offsets b)"
      "map_of (pb_max_offsets b) (t, p) = (if tp_records (t, p) msgs = [] then None
         else Some (fold max (map m_offset (tp_records (t, p) msgs)) (-1)))"
      using assms(3) unfolding loop_inv_def by blast+
    ultimately have ne: "tp_records (t, p) msgs \<noteq> []"
      and off: "off = fold max (map m_offset (tp_records (t, p) msgs)) (-1)"
      by (auto split: if_splits)
    have mem: "m \<in> set (before_offset (stored_offset grp ?db (t, p) + 1) (input (t, p))) \<and> (t, p) \<in> set parts"
      if "m \<in> set (tp_records (t, p) msgs)" for m
    proof -
      from that assms(2) have h: "m \<in> set (tp_records (t, p) (ps_hist x))" by (auto simp: tp_records_def)
      then have "(t, p) \<in> set parts"
        using o by (auto simp: offsets_of_def list_all_iff tp_records_def)
      with h o show ?thesis by (simp add: offsets_of_def list_all_iff)
    qed
    have le: "m_offset m \<le> stored_offset grp ?db (t, p) \<and> 0 \<le> m_offset m"
      if "m \<in> set (tp_records (t, p) msgs)" for m
      using mem [OF that] partitions_okD(2) [OF assms(4)] by (fastforce simp: before_offset_def)
    from ne obtain m where "m \<in> set (tp_records (t, p) msgs)" by (cases "tp_records (t, p) msgs") auto
    from le [OF this] have st: "0 \<le> stored_offset grp ?db (t, p)" by linarith
    have "fold max xs (-1) \<le> stored_offset grp ?db (t, p)"
      if "\<forall>y \<in> set xs. y \<le> stored_offset grp ?db (t, p)" for xs
      using that st by (induction xs rule: rev_induct) auto
    then have "off \<le> stored_offset grp ?db (t, p)" unfolding off using le by simp
    with st show "\<exists>old \<ge> off. map_of (pg_offsets ?db) (grp, t, p) = Some old"
      by (auto simp: stored_offset_def split: option.splits)
  qed
qed

text \<open>C8: a replay is invisible. Delivering again any messages whose batch already took effect, in
  any order and any number of times, succeeds and leaves the database exactly as it is, rows
  and offsets.\<close>

theorem pg_replay_invisible:
  assumes "partitions_ok input parts" "preachable env grp input parts x"
    and "list_all (\<lambda>m. m \<in> set (ps_hist x)) msgs"
  shows "\<exists>w s'. pg_process_batch env pg_no_faults msgs (ps_sink x) = (Ret w, s')
    \<and> pg_db s' = pg_db (ps_sink x)"
proof -
  note i = preachable_pinv [OF assms(2,1)]
  have sub: "set msgs \<subseteq> set (ps_hist x)" using assms(3) by (auto simp: list_all_iff)
  have grp: "pg_group (ps_sink x) = grp" using i by (simp add: pinv_def)
  have "list_all is_record msgs" using i sub by (auto simp: pinv_def offsets_of_def list_all_iff)
  then obtain b s1 where l: "sink_msgs env msgs (new_pg_batch, ps_sink x) = (Ret (), b, s1)"
    using sink_msgs_total by blast
  from sink_msgs_inv [OF l loop_inv_new] have b: "loop_inv env msgs b" by simp
  from sink_msgs_durable [OF l] grp have d: "pg_db s1 = pg_db (ps_sink x)" "pg_group s1 = grp" by simp_all
  have "pg_transact env pg_no_faults grp b (pg_db (ps_sink x)) = (Ret (), pg_db (ps_sink x))"
    using replay_same_rows [OF i sub b] replay_same_offsets [OF i sub b assms(1)]
    by (simp add: pg_transact_def exec_offsets_def pg_no_faults_def)
  then show ?thesis by (simp add: pg_process_batch_def l d)
qed

theorem pg_replay_invisible_witness:
  "\<exists>s w s'. pg_demo_reaches (pg_demo_done s) \<and> pg_db s \<noteq> empty_db
    \<and> pg_process_batch pg_demo_env pg_no_faults (rev pg_demo_batch) s = (Ret w, s') \<and> pg_db s' = pg_db s"
proof -
  obtain s where s: "pg_demo_reaches (pg_demo_done s)" "pg_db s = pg_demo_db"
    using pg_demo_reachable by blast
  have "pg_demo_db \<noteq> empty_db" by (simp add: pg_demo_db_def empty_db_def)
  moreover have "list_all (\<lambda>m. m \<in> set (ps_hist (pg_demo_done s))) (rev pg_demo_batch)"
    by (simp add: list_all_iff pg_demo_done_def)
  ultimately show ?thesis
    using pg_replay_invisible [OF pg_demo_input_ok s(1), of "rev pg_demo_batch"] s
    by (auto simp: pg_demo_done_def)
qed

text \<open>C9: duplicates collapse. raw.rides_events has exactly one row for each
  (ride_id, event_seq) among the good events consumed up to the stored offsets, and it is the
  first that arrived, however often the broker or the generator delivered the event again.\<close>

theorem pg_rides_events_rows:
  assumes "partitions_ok input parts" "preachable env grp input parts x"
  defines "rows \<equiv> good_rows env RIDES_EVENTS (ps_hist x)"
    and "table \<equiv> pg_rows (pg_db (ps_sink x)) ''raw.rides_events''"
  shows "distinct (map fst table) \<and> fst ` set table = key_of ''raw.rides_events'' ` set rows
    \<and> map_of table k = find (\<lambda>r. key_of ''raw.rides_events'' r = k) rows"
proof -
  have up: "map_of UPSERTS RIDES_EVENTS = Some (''raw.rides_events'', DO_NOTHING)"
    by (simp add: UPSERTS_def)
  have all: "upsert_rows env ''raw.rides_events'' DO_NOTHING rows [] = Inr table"
    using preachable_pinv [OF assms(2,1)] up by (simp add: pinv_def tables_of_def rows_def table_def)
  then have "table_ok ''raw.rides_events'' table"
    using rides_tbl.inv_all [OF table_ok_empty, of rows env table] good_rows_ok [OF up]
    by (simp add: upsert_rows_def rows_def)
  then show ?thesis
    using upsert_rows_keys [OF all] upsert_rows_first [OF all, of k] by (simp add: table_ok_def)
qed

theorem pg_rides_events_rows_witness:
  "\<exists>s. pg_demo_reaches (pg_demo_done s)
    \<and> length (good_rows pg_demo_env RIDES_EVENTS pg_demo_batch) = 2
    \<and> map_of (pg_rows (pg_db s) ''raw.rides_events'') [PStr ''r'', PInt 1] = Some (pg_demo_event_row 0)"
proof -
  obtain s where s: "pg_demo_reaches (pg_demo_done s)" using pg_demo_reachable by blast
  have "good_rows pg_demo_env RIDES_EVENTS pg_demo_batch = [pg_demo_event_row 0, pg_demo_event_row 2]"
    by (simp add: pg_demo_batch_def good_row_def pg_demo_rows)
  then show ?thesis
    using pg_rides_events_rows [OF pg_demo_input_ok s, of "[PStr ''r'', PInt 1]"] s
    by (auto simp: pg_demo_done_def pg_demo_columns)
qed



text \<open>But the upsert mixes two closes. When a ride first closed without a \<open>started_ts\<close> is
  closed again with one, the stored row takes the new terminal state and event_seq and keeps
  the old, null \<open>started_ts\<close>, which is not among the updated columns.\<close>

theorem pg_session_upsert_mixes_closes:
  "\<exists>s row. pg_demo_reaches (pg_demo_done s)
    \<and> map_of (pg_rows (pg_db s) ''raw.ride_sessions'') [PStr ''r''] = Some row
    \<and> column ''raw.ride_sessions'' row ''terminal_state'' = PStr ''completed''
    \<and> column ''raw.ride_sessions'' row ''event_seq'' = PInt 5
    \<and> column ''raw.ride_sessions'' row ''started_ts'' = PNone
    \<and> d_get (pg_close ''completed'' 5 (PInt 0)) ''started_ts'' = PInt 0"
proof -
  obtain s where s: "pg_demo_reaches (pg_demo_done s)" "pg_db s = pg_demo_db" using pg_demo_reachable by blast
  have "column ''raw.ride_sessions'' pg_demo_session ''terminal_state'' = PStr ''completed''"
    "column ''raw.ride_sessions'' pg_demo_session ''event_seq'' = PInt 5"
    "column ''raw.ride_sessions'' pg_demo_session ''started_ts'' = PNone"
    "d_get (pg_close ''completed'' 5 (PInt 0)) ''started_ts'' = PInt 0"
    by (simp_all add: column_def pg_demo_cols pg_demo_session_def pg_close_row_def pg_close_def d_get_def)
  with s show ?thesis by (auto simp: pg_demo_db_def)
qed

text \<open>C14: a row Postgres rejects stops its partition. The insert is outside the poison guard, so
  once a message deserialises but its row violates a NOT NULL constraint or a column type, no
  reachable state, after any retries and restarts, has stored its offset.\<close>

theorem pg_rejected_row_blocks_partition:
  assumes "partitions_ok input parts" "preachable env grp input parts x"
    and "(t, p) \<in> set parts" "m \<in> set (input (t, p))" "row_of_msg env m = Inr r"
    and "map_of UPSERTS t = Some (table, action)"
    and "accepts env table r \<noteq> None \<or> \<not> not_null_ok table r"
  shows "stored_offset grp (pg_db (ps_sink x)) (t, p) < m_offset m"
proof (rule ccontr)
  assume "\<not> ?thesis"
  note i = preachable_pinv [OF assms(2,1)]
  from \<open>\<not> ?thesis\<close> have "m \<in> set (before_offset (stored_offset grp (pg_db (ps_sink x)) (t, p) + 1) (input (t, p)))"
    using assms(4) by (simp add: before_offset_def)
  then have "m \<in> set (tp_records (t, p) (ps_hist x))"
    using i assms(3) by (auto simp: pinv_def offsets_of_def list_all_iff)
  then have "m \<in> set (ps_hist x)" "m_error m = None" "m_topic m = t"
    by (auto simp: tp_records_def is_record_def)
  then have "r \<in> set (good_rows env t (ps_hist x))" using assms(5) by (auto simp: in_good_rows)
  then have "accepts env table r = None \<and> not_null_ok table r"
    using i assms(6) by (intro upsert_rows_accepted) (auto simp: pinv_def tables_of_def)
  with assms(7) show False by simp
qed

theorem pg_rejected_row_blocks_partition_witness:
  "\<exists>env. preachable env ''pg-sink'' pg_demo_input pg_demo_parts pg_demo_up
    \<and> stored_offset ''pg-sink'' (pg_db (ps_sink pg_demo_up)) (RIDES_EVENTS, 0) < 0"
proof -
  let ?env = "pg_demo_env\<lparr>accepts := \<lambda>_ _. Some (ValueError ''type'')\<rparr>"
  have r: "row_of_msg ?env (pg_demo_msg RIDES_EVENTS 0 ''E'') = Inr (pg_demo_event_row 0)"
    using pg_demo_rows(1) [of 0] by (simp add: row_of_msg_def)
  have reach: "preachable ?env ''pg-sink'' pg_demo_input pg_demo_parts pg_demo_up"
    by (rule pg_demo_started)
  have m: "pg_demo_msg RIDES_EVENTS 0 ''E'' \<in> set (pg_demo_input (RIDES_EVENTS, 0))"
    "(RIDES_EVENTS, 0) \<in> set pg_demo_parts" "map_of UPSERTS RIDES_EVENTS = Some (''raw.rides_events'', DO_NOTHING)"
    by (simp_all add: pg_demo_input_def pg_demo_batch_def pg_demo_parts_def UPSERTS_def)
  from pg_rejected_row_blocks_partition [OF pg_demo_input_ok reach m(2,1) r m(3)] reach
  show ?thesis by auto
qed

text \<open>The sink's dead letters are not exactly once. There is a run in which the offset of a
  poison message is stored while its envelope is only queued in the producer, the process is
  killed, and the restarted sink neither has the envelope nor will read the message again.\<close>

theorem pg_dead_letter_may_be_lost:
  "\<exists>x y z. pg_demo_reaches x
    \<and> row_of_msg pg_demo_env (pg_demo_msg RIDES_EVENTS 1 ''POISON'') = Inl (ValueError ''unparseable payload'')
    \<and> pg_demo_msg RIDES_EVENTS 1 ''POISON'' \<in> set (pg_demo_input (RIDES_EVENTS, 0))
    \<and> dp_flushed (pg_dlq (ps_sink x)) = 0
    \<and> pstep pg_demo_env ''pg-sink'' pg_demo_input pg_demo_parts x y
    \<and> pstep pg_demo_env ''pg-sink'' pg_demo_input pg_demo_parts y z
    \<and> ps_up z \<and> dp_out (pg_dlq (ps_sink z)) = [] \<and> ps_pos z (RIDES_EVENTS, 0) = 3"
proof -
  obtain s where s: "pg_demo_reaches (pg_demo_done s)" "pg_db s = pg_demo_db" "dp_flushed (pg_dlq s) = 0"
    using pg_demo_reachable by blast
  let ?y = "(pg_demo_done s)\<lparr>ps_up := False\<rparr>"
  let ?s = "pg_on_assign pg_demo_parts (new_pg_sink ''pg-sink'' (pg_db s))"
  let ?z = "\<lparr>ps_sink = ?s, ps_pos = assigned_pos ?s, ps_up = True, ps_hist = pg_demo_batch\<rparr>"
  have 1: "pstep pg_demo_env ''pg-sink'' pg_demo_input pg_demo_parts (pg_demo_done s) ?y"
    unfolding pg_demo_done_def using p_kill by simp
  have 2: "pstep pg_demo_env ''pg-sink'' pg_demo_input pg_demo_parts ?y ?z"
    unfolding pg_demo_done_def using p_restart [OF refl] by simp
  have 3: "pg_demo_msg RIDES_EVENTS 1 ''POISON'' \<in> set (pg_demo_input (RIDES_EVENTS, 0))"
    by (simp add: pg_demo_input_def pg_demo_batch_def)
  have 4: "assigned_pos ?s (RIDES_EVENTS, 0) = 3" "dp_out (pg_dlq ?s) = []"
    by (simp_all add: s(2) assigned_pos_def pg_on_assign_def new_pg_sink_def stored_offsets_def
        pg_demo_parts_def stored_offset_def pg_demo_db_def dlq_producer_init_def)
  show ?thesis
    by (intro exI [of _ "pg_demo_done s"] exI [of _ ?y] exI [of _ ?z] conjI)
      (use s 1 2 3 4 pg_demo_rows(2) in \<open>simp_all add: pg_demo_done_def\<close>)
qed

end
