(* ===== verification/Lag_Exporter.thy ===== *)
theory Lag_Exporter
  imports Pg_Demo "HOL-Library.List_Lexorder" "HOL-Library.Char_ord" "HOL-Library.Product_Lexorder"
begin

text \<open>
  \<open>observability/lag_exporter.py\<close>: the consumer-lag exporter. The broker and Postgres are the
  record \<open>lag_probe\<close>: what the metadata query lists, the high watermark of a partition, the
  committed offsets of each broker group, the rows of serving.consumer_offsets; every answer
  may be an exception. The gauge is a dictionary over its labels.
\<close>

definition BROKER_GROUPS :: "string list" where
  "BROKER_GROUPS = [''sessionizer'', ''iceberg-sink'']"

definition PG_GROUP :: string where
  "PG_GROUP = ''pg-sink''"

record LagSample =
  ls_group :: string
  ls_topic :: string
  ls_partition :: int
  ls_lag :: int

section \<open>Shaping\<close>

text \<open>\<open>{k: v for ...}\<close>: a later item overwrites an earlier one with its key.\<close>

definition dict_of :: "('k \<times> 'v) list \<Rightarrow> ('k, 'v) dict" where
  "dict_of kvs = fold (\<lambda>(k, v). AList.update k v) kvs []"

definition committed_next_from_broker :: "((string \<times> int) \<times> int) list \<Rightarrow> (string \<times> int, int option) dict" where
  "committed_next_from_broker offsets =
     dict_of (map (\<lambda>(tp, off). (tp, if off \<ge> 0 then Some off else None)) offsets)"

definition committed_next_from_pg :: "(string \<times> int \<times> int) list \<Rightarrow> (string \<times> int, int option) dict" where
  "committed_next_from_pg rows = dict_of (map (\<lambda>(topic, part, st). ((topic, part), Some (st + 1))) rows)"

fun lag_samples :: "string \<Rightarrow> (string \<times> int, int option) dict \<Rightarrow> ((string \<times> int) \<times> int) list \<Rightarrow> LagSample list" where
  "lag_samples grp committed_next [] = []"
| "lag_samples grp committed_next (((topic, part), end_offset) # rest) =
     (case map_of committed_next (topic, part) of
        Some (Some next_offset) \<Rightarrow>
          \<lparr>ls_group = grp, ls_topic = topic, ls_partition = part,
           ls_lag = max (end_offset - next_offset) 0\<rparr> # lag_samples grp committed_next rest
      | _ \<Rightarrow> lag_samples grp committed_next rest)"

definition compute_lags :: "string \<Rightarrow> (string \<times> int, int) dict \<Rightarrow> (string \<times> int, int option) dict \<Rightarrow> LagSample list" where
  "compute_lags grp end_offs committed_next = lag_samples grp committed_next (sort_key fst end_offs)"

type_synonym lag_gauge = "(string \<times> string \<times> string, int) dict"

definition publish :: "LagSample list \<Rightarrow> lag_gauge \<Rightarrow> lag_gauge" where
  "publish samples g =
     fold (\<lambda>s. AList.update (ls_group s, ls_topic s, int_digits (ls_partition s)) (ls_lag s)) samples g"

section \<open>A cycle\<close>

record lag_probe =
  lp_topics :: "exn + (string, int list) dict"
  lp_high :: "string \<times> int \<Rightarrow> exn + int"
  lp_committed :: "(string, (string \<times> int) list \<Rightarrow> exn + ((string \<times> int) \<times> int) list) dict"
  lp_pg_rows :: "exn + (string \<times> int \<times> int) list"

definition watched_partitions :: "lag_probe \<Rightarrow> exn + (string \<times> int) list" where
  "watched_partitions pr =
     rbind (lp_topics pr) (\<lambda>metadata.
       Inr (concat (map (\<lambda>(topic, _). case map_of metadata topic of
              None \<Rightarrow> [] | Some ps \<Rightarrow> map (Pair topic) (sort ps)) TOPIC_PARTITIONS)))"

definition end_offsets :: "lag_probe \<Rightarrow> (string \<times> int) list \<Rightarrow> exn + (string \<times> int, int) dict" where
  "end_offsets pr parts =
     rbind (rmap (\<lambda>tp. rbind (lp_high pr tp) (\<lambda>high. Inr (tp, high))) parts) (\<lambda>ends. Inr (dict_of ends))"

definition collect :: "lag_probe \<Rightarrow> exn + LagSample list" where
  "collect pr =
     rbind (watched_partitions pr) (\<lambda>parts.
     rbind (end_offsets pr parts) (\<lambda>ends.
     rbind (rmap (\<lambda>(grp, committed). rbind (committed parts) (\<lambda>offs.
         Inr (compute_lags grp ends (committed_next_from_broker offs)))) (lp_committed pr)) (\<lambda>broker.
     rbind (lp_pg_rows pr) (\<lambda>rows.
       Inr (concat broker @ compute_lags PG_GROUP ends (committed_next_from_pg rows))))))"

text \<open>\<open>run_forever\<close>: the gauge after the cycles so far, each with what it met. A cycle that fails
  leaves the gauge as it is.\<close>

definition lag_cycle :: "lag_probe \<Rightarrow> lag_gauge \<Rightarrow> lag_gauge" where
  "lag_cycle pr g = (case collect pr of Inl e \<Rightarrow> g | Inr samples \<Rightarrow> publish samples g)"

definition run_forever :: "lag_probe list \<Rightarrow> lag_gauge \<Rightarrow> lag_gauge" where
  "run_forever cycles g = fold lag_cycle cycles g"

section \<open>The offsets of the Postgres sink as rows\<close>

text \<open>\<open>PG_OFFSETS_QUERY\<close> on the database of the sink.\<close>

definition pg_rows_from_db :: "pgdb \<Rightarrow> (string \<times> int \<times> int) list" where
  "pg_rows_from_db db =
     List.map_filter (\<lambda>((grp, topic, part), off). if grp = PG_GROUP then Some (topic, part, off) else None)
       (pg_offsets db)"

lemma dict_of_append: "map_of (fold (\<lambda>(k, v). AList.update k v) kvs d) = map_of d ++ map_of (rev kvs)"
proof (induction kvs arbitrary: d)
  case (Cons kv kvs)
  then show ?case by (cases kv) (auto simp: map_add_def fun_eq_iff split: option.split)
qed simp

lemma map_of_dict_of: "map_of (dict_of kvs) = map_of (rev kvs)"
  by (simp add: dict_of_def dict_of_append)

lemma map_of_rev_unique: "dict_ok d \<Longrightarrow> map_of (rev d) = map_of d"
  by (intro map_of_inject_set [THEN iffD2]) (auto simp: rev_map [symmetric])

lemma dict_of_ok: "dict_ok (dict_of kvs)"
proof -
  have "dict_ok d \<Longrightarrow> dict_ok (fold (\<lambda>(k, v). AList.update k v) kvs d)" for d :: "('a, 'b) dict"
    by (induction kvs arbitrary: d) (auto simp: dict_update_ok)
  then show ?thesis by (simp add: dict_of_def)
qed

lemma lag_samples_filter:
  "lag_samples grp cn ends = List.map_filter (\<lambda>((t, p), e). case map_of cn (t, p) of
      Some (Some n) \<Rightarrow> Some \<lparr>ls_group = grp, ls_topic = t, ls_partition = p, ls_lag = max (e - n) 0\<rparr>
    | _ \<Rightarrow> None) ends"
  by (induction grp cn ends rule: lag_samples.induct) (auto split: option.splits)

lemma in_compute_lags:
  assumes "dict_ok ends"
  shows "s \<in> set (compute_lags grp ends cn) \<longleftrightarrow>
    (\<exists>e n. map_of ends (ls_topic s, ls_partition s) = Some e
       \<and> map_of cn (ls_topic s, ls_partition s) = Some (Some n)
       \<and> ls_group s = grp \<and> ls_lag s = max (e - n) 0)"
proof -
  have "set (sort_key fst ends) = set ends" by simp
  with assms show ?thesis
    unfolding compute_lags_def lag_samples_filter
    by (cases s) (force simp: List.map_filter_def split: option.splits)
qed

text \<open>The offsets of a group are the restriction of the table to its keys.\<close>

lemma pg_rows_keys:
  "map (\<lambda>(topic, part, st). (topic, part)) (List.map_filter (\<lambda>((grp, topic, part), off).
       if grp = PG_GROUP then Some (topic, part, off) else None) xs) =
   map snd (filter (\<lambda>k. fst k = PG_GROUP) (map fst xs))"
  by (induction xs) (auto simp: List.map_filter_simps)

lemma pg_rows_list_lookup:
  "map_of (map (\<lambda>(topic, part, st). ((topic, part), Some (st + 1))) (List.map_filter (\<lambda>((grp, topic, part), off).
       if grp = PG_GROUP then Some (topic, part, off) else None) xs)) (t, p) =
   (case map_of xs (PG_GROUP, t, p) of None \<Rightarrow> None | Some off \<Rightarrow> Some (Some (off + 1 :: int)))"
  by (induction xs) (auto simp: List.map_filter_simps)

lemma distinct_snd_filter:
  "distinct ks \<Longrightarrow> distinct (map snd (filter (\<lambda>k. fst k = g) ks))"
  by (auto simp: distinct_map inj_on_def prod_eq_iff)

lemma pg_rows_lookup:
  assumes "dict_ok (pg_offsets db)"
  shows "map_of (committed_next_from_pg (pg_rows_from_db db)) (t, p) =
    (case map_of (pg_offsets db) (PG_GROUP, t, p) of None \<Rightarrow> None | Some off \<Rightarrow> Some (Some (off + 1)))"
proof -
  let ?l = "map (\<lambda>(topic, part, st). ((topic, part), Some (st + 1))) (pg_rows_from_db db)"
  have "map fst ?l = map (\<lambda>(topic, part, st). (topic, part)) (pg_rows_from_db db)"
    by (simp add: case_prod_unfold)
  also have "distinct \<dots>"
    using assms unfolding pg_rows_from_db_def pg_rows_keys by (intro distinct_snd_filter) simp
  finally have "dict_ok ?l" by simp
  from map_of_rev_unique [OF this] show ?thesis
    unfolding committed_next_from_pg_def map_of_dict_of
    by (simp only: pg_rows_from_db_def pg_rows_list_lookup)
qed

section \<open>The lag of the Postgres sink is its backlog\<close>

lemma collect_cases:
  assumes "collect pr = Inr samples"
  obtains parts ends rows broker where "watched_partitions pr = Inr parts" "end_offsets pr parts = Inr ends"
    "lp_pg_rows pr = Inr rows" "samples = broker @ compute_lags PG_GROUP ends (committed_next_from_pg rows)"
    "\<forall>s \<in> set broker. ls_group s \<in> fst ` set (lp_committed pr)"
proof -
  let ?g = "\<lambda>parts ends (grp, committed). rbind (committed parts) (\<lambda>offs.
      Inr (compute_lags grp ends (committed_next_from_broker offs)))"
  from assms obtain parts ends rows bs where c: "watched_partitions pr = Inr parts" "end_offsets pr parts = Inr ends"
    "rmap (?g parts ends) (lp_committed pr) = Inr bs" "lp_pg_rows pr = Inr rows"
    "samples = concat bs @ compute_lags PG_GROUP ends (committed_next_from_pg rows)"
    unfolding collect_def by (auto simp: rbind_eq_Inr)
  have ok: "dict_ok ends" using c(2) by (auto simp: end_offsets_def rbind_eq_Inr dict_of_ok)
  have "ls_group s \<in> fst ` set (lp_committed pr)" if s: "s \<in> set l" "l \<in> set bs" for s l
  proof -
    from rmap_in_set [OF c(3) s(2)] obtain g f where x: "(g, f) \<in> set (lp_committed pr)"
      "?g parts ends (g, f) = Inr l" by auto
    then obtain cn where "l = compute_lags g ends cn" by (auto simp: rbind_eq_Inr)
    with s(1) have "ls_group s = g" by (auto simp: in_compute_lags [OF ok])
    with x(1) show ?thesis by force
  qed
  with c show thesis by (intro that [of parts ends rows "concat bs"]) auto
qed

lemma end_offsets_lookup:
  assumes "end_offsets pr parts = Inr ends" "tp \<in> set parts" "lp_high pr tp = Inr h"
  shows "map_of ends tp = Some h"
proof -
  from assms(1) obtain kvs where r: "rmap (\<lambda>tp. rbind (lp_high pr tp) (\<lambda>high. Inr (tp, high))) parts = Inr kvs"
    and ends: "ends = dict_of kvs"
    by (auto simp: end_offsets_def rbind_eq_Inr)
  have "map fst kvs = parts"
    using r by (induction parts arbitrary: kvs) (auto simp: rbind_eq_Inr)
  then have keys: "fst ` set kvs = set parts" by (metis list.set_map)
  obtain v where v: "map_of (rev kvs) tp = Some v"
    using keys assms(2) by (cases "map_of (rev kvs) tp") (auto simp: map_of_eq_None_iff)
  then have "(tp, v) \<in> set kvs" by (auto dest: map_of_SomeD)
  from rmap_in_set [OF r this] have "lp_high pr tp = Inr v" by (auto simp: rbind_eq_Inr)
  with assms(3) have "v = h" by simp
  with v show ?thesis by (simp add: ends map_of_dict_of)
qed

lemma before_offset_contiguous:
  assumes "map m_offset ms = map int [0..<length ms]"
  shows "length (before_offset off ms) = nat (min off (int (length ms)))"
proof -
  have "length (before_offset off ms) = length (filter (\<lambda>i. i < off) (map m_offset ms))"
    by (simp add: before_offset_def filter_map o_def)
  also have "\<dots> = length (filter (\<lambda>n. int n < off) [0..<length ms])"
    by (simp add: assms filter_map o_def)
  also have "\<dots> = card {n. n < length ms \<and> int n < off}"
    by (subst distinct_card [symmetric]) (auto intro!: arg_cong [where f = card])
  also have "{n. n < length ms \<and> int n < off} = {..<nat (min off (int (length ms)))}"
    by auto
  finally show ?thesis by simp
qed


text \<open>The probe of the concrete run, after one more close has been published.\<close>

definition lag_demo_probe :: lag_probe where
  "lag_demo_probe =
     \<lparr>lp_topics = Inr [(RIDES_EVENTS, [0])], lp_high = (\<lambda>_. Inr 3),
      lp_committed = map (\<lambda>grp. (grp, \<lambda>ps. Inr (map (\<lambda>tp. (tp, -1001)) ps))) BROKER_GROUPS,
      lp_pg_rows = Inr (pg_rows_from_db pg_demo_db)\<rparr>"


end
