(* ===== verification/Lakehouse.thy ===== *)
theory Lakehouse
  imports Py_Values "HOL-Library.Multiset"
begin

text \<open>
  The Iceberg table as the code sees it through PyIceberg. The library is not part of the
  repository: \<open>table_api\<close> is the record of the operations the code calls, over any type \<open>'t\<close> of
  table states, and \<open>table_laws\<close> is the documented behaviour the properties rely on. A row is a
  dictionary from column names to values; a column a row does not have reads as null.
\<close>

record data_file =
  df_event_day :: string
  df_city_id_part :: int
  df_file_size_in_bytes :: int
  df_record_count :: int

record 't table_api =
  ta_create :: "string list \<Rightarrow> 't"
  ta_columns :: "'t \<Rightarrow> string list"
  ta_add_column :: "string \<Rightarrow> 't \<Rightarrow> exn + 't"
  ta_append :: "payload list \<Rightarrow> 't \<Rightarrow> 't"
  ta_scan :: "(payload \<Rightarrow> bool) \<Rightarrow> 't \<Rightarrow> payload list"
  ta_overwrite :: "payload list \<Rightarrow> (payload \<Rightarrow> bool) \<Rightarrow> 't \<Rightarrow> 't"
  ta_files :: "'t \<Rightarrow> data_file list"

definition table_rows :: "'t table_api \<Rightarrow> 't \<Rightarrow> payload multiset" where
  "table_rows api t = mset (ta_scan api (\<lambda>_. True) t)"

definition table_laws :: "'t table_api \<Rightarrow> bool" where
  "table_laws api \<longleftrightarrow>
     (\<forall>cs. table_rows api (ta_create api cs) = {#} \<and> ta_columns api (ta_create api cs) = cs)
     \<and> (\<forall>c t t'. ta_add_column api c t = Inr t' \<longrightarrow>
          ta_columns api t' = ta_columns api t @ [c]
          \<and> table_rows api t' = image_mset (\<lambda>r. r @ [(c, PNone)]) (table_rows api t))
     \<and> (\<forall>c t. c \<notin> set (ta_columns api t) \<longrightarrow> \<not> (\<exists>e. ta_add_column api c t = Inl e))
     \<and> (\<forall>b t. table_rows api (ta_append api b t) = table_rows api t + mset b
          \<and> ta_columns api (ta_append api b t) = ta_columns api t)
     \<and> (\<forall>P t. mset (ta_scan api P t) = filter_mset P (table_rows api t))
     \<and> (\<forall>b P t. table_rows api (ta_overwrite api b P t) = filter_mset (\<lambda>r. \<not> P r) (table_rows api t) + mset b)"

lemma table_lawsD:
  assumes "table_laws api"
  shows "table_rows api (ta_create api cs) = {#}" "ta_columns api (ta_create api cs) = cs"
    "ta_add_column api c t = Inr t' \<Longrightarrow> ta_columns api t' = ta_columns api t @ [c]"
    "ta_add_column api c t = Inr t' \<Longrightarrow>
       table_rows api t' = image_mset (\<lambda>r. r @ [(c, PNone)]) (table_rows api t)"
    "c \<notin> set (ta_columns api t) \<Longrightarrow> \<exists>t'. ta_add_column api c t = Inr t'"
    "table_rows api (ta_append api b t) = table_rows api t + mset b"
    "ta_columns api (ta_append api b t) = ta_columns api t"
    "mset (ta_scan api P t) = filter_mset P (table_rows api t)"
    "table_rows api (ta_overwrite api b P t) = filter_mset (\<lambda>r. \<not> P r) (table_rows api t) + mset b"
  using assms unfolding table_laws_def by (metis sumE)+

text \<open>Adding a column does not change what any column reads.\<close>

lemma d_get_null_column: "d_get (r @ [(c, PNone)]) k = d_get r k"
  by (auto simp: d_get_def map_add_def split: option.splits)

section \<open>A concrete table\<close>

text \<open>
  A table as its columns and its data files, each the list of the rows written together, with
  every partition (the day and the city of the first row) in the metadata: the instance the
  closed examples use.
\<close>

type_synonym file_table = "string list \<times> payload list list"

definition row_day :: "payload \<Rightarrow> int" where
  "row_day r = (case d_get r ''event_ts'' of PDatetime us \<Rightarrow> us div (86400 * 10 ^ 6) | _ \<Rightarrow> 0)"

definition row_city :: "payload \<Rightarrow> int" where
  "row_city r = (case d_get r ''city_id'' of PInt c \<Rightarrow> c | _ \<Rightarrow> 0)"

definition file_table_api :: "(int \<Rightarrow> string) \<Rightarrow> file_table table_api" where
  "file_table_api day_text =
     \<lparr>ta_create = (\<lambda>cs. (cs, [])),
      ta_columns = fst,
      ta_add_column = (\<lambda>c (cs, fs). if c \<in> set cs then Inl (ValueError c)
         else Inr (cs @ [c], map (map (\<lambda>r. r @ [(c, PNone)])) fs)),
      ta_append = (\<lambda>b (cs, fs). (cs, fs @ [b])),
      ta_scan = (\<lambda>P (cs, fs). filter P (concat fs)),
      ta_overwrite = (\<lambda>b P (cs, fs). (cs, filter (\<lambda>f. f \<noteq> []) (map (filter (\<lambda>r. \<not> P r)) fs) @ [b])),
      ta_files = (\<lambda>(cs, fs). map (\<lambda>f. \<lparr>df_event_day = day_text (row_day (hd f)),
         df_city_id_part = row_city (hd f), df_file_size_in_bytes = 100 + 10 * int (length f),
         df_record_count = int (length f)\<rparr>) fs)\<rparr>"

lemma concat_nonempty: "concat (filter (\<lambda>f. f \<noteq> []) fs) = concat fs"
  by (induction fs) auto

lemma file_table_laws: "table_laws (file_table_api day_text)"
  by (auto simp: table_laws_def table_rows_def file_table_api_def concat_nonempty filter_concat [symmetric]
      map_concat [symmetric] mset_filter split: if_splits)

end
