(* ===== verification/Iceberg_Sink.thy ===== *)
theory Iceberg_Sink
  imports Lakehouse Times Dlq_Envelope Outcomes Partition_Log
begin

text \<open>
  \<open>sinks/iceberg_sink.py\<close>: the lakehouse sink. \<open>ice_sink\<close> is the object with what lives outside
  it: the table its handle points to and the position and committed offsets of its consumer.
  Every call of an iteration that changes external state (evolving the schema, appending,
  committing the offsets) may fail before or after its effect, or the process die there
  (\<open>ice_faults\<close>). Parameters: the deserialiser, PyArrow's refusal of a batch, the decimal
  rendering and parsing of floats, the clocks. Metrics and logging are left out.
\<close>

definition TABLE_NAME :: string where
  "TABLE_NAME = ''lakehouse.rides_events''"

definition ICEBERG_SCHEMA_V1 :: "(string \<times> string) list" where
  "ICEBERG_SCHEMA_V1 =
     [(''event_id'', ''string''), (''ride_id'', ''string''), (''event_type'', ''string''),
      (''event_ts'', ''timestamptz''), (''rider_id'', ''string''), (''driver_id'', ''string''),
      (''city_id'', ''int''), (''pickup_lat'', ''double''), (''pickup_lon'', ''double''),
      (''dropoff_lat'', ''double''), (''dropoff_lon'', ''double''), (''fare_cents'', ''long''),
      (''surge_multiplier'', ''double''), (''payload_version'', ''int''), (''is_synthetic'', ''boolean'')]"

definition BASE_COLUMNS :: "(string \<times> string) list" where
  "BASE_COLUMNS =
     [(''event_id'', ''string''), (''ride_id'', ''string''), (''event_type'', ''string''),
      (''event_ts'', ''timestamp[us, tz=UTC]''), (''rider_id'', ''string''), (''driver_id'', ''string''),
      (''city_id'', ''int32''), (''pickup_lat'', ''float64''), (''pickup_lon'', ''float64''),
      (''dropoff_lat'', ''float64''), (''dropoff_lon'', ''float64''), (''fare_cents'', ''int64''),
      (''surge_multiplier'', ''float64''), (''payload_version'', ''int32''), (''is_synthetic'', ''bool'')]"

definition arrow_schema :: "bool \<Rightarrow> (string \<times> string) list" where
  "arrow_schema with_promo =
     BASE_COLUMNS @ (if with_promo then [(''promo_code'', ''string'')] else [])"

record ice_env =
  ie_deserialize :: "string \<Rightarrow> string option \<Rightarrow> exn + payload"
  ie_arrow_error :: "(string \<times> string) list \<Rightarrow> payload list \<Rightarrow> exn option"
  ie_render :: "pyval \<Rightarrow> string"
  ie_parse_float :: "string \<Rightarrow> real option"
  ie_clock :: "msg \<Rightarrow> string"

section \<open>Shaping\<close>

definition payload_version_of :: "payload \<Rightarrow> exn + int" where
  "payload_version_of value =
     py_int (case map_of value ''payload_version'' of None \<Rightarrow> PInt 1 | Some v \<Rightarrow> v)"

text \<open>\<open>any(...)\<close> looks at the values in order and stops at the first hit.\<close>

primrec any_v2 :: "payload list \<Rightarrow> exn + bool" where
  "any_v2 [] = Inr False"
| "any_v2 (v # vs) = rbind (payload_version_of v) (\<lambda>n. if n \<ge> 2 then Inr True else any_v2 vs)"

definition should_evolve :: "payload list \<Rightarrow> bool \<Rightarrow> exn + bool" where
  "should_evolve values already_evolved = (if already_evolved then Inr False else any_v2 values)"

text \<open>One appended row: the conversions in the order of the code, the first that fails raises.\<close>

definition str_item :: "ice_env \<Rightarrow> payload \<Rightarrow> string \<Rightarrow> exn + pyval" where
  "str_item env value k = rbind (d_item value k) (\<lambda>v. Inr (PStr (py_str (ie_render env) v)))"

definition float_item :: "ice_env \<Rightarrow> payload \<Rightarrow> string \<Rightarrow> exn + pyval" where
  "float_item env value k =
     rbind (d_item value k) (\<lambda>v. rbind (py_float (ie_parse_float env) v) (\<lambda>r. Inr (PFloat r)))"

definition ts_item :: "payload \<Rightarrow> string \<Rightarrow> exn + pyval" where
  "ts_item value k =
     rbind (d_item value k) (\<lambda>v. rbind (to_epoch_ms v) (\<lambda>ms. Inr (PDatetime (dt_of_ms ms))))"

definition arrow_row :: "ice_env \<Rightarrow> bool \<Rightarrow> payload \<Rightarrow> exn + payload" where
  "arrow_row env with_promo value =
     rmap (\<lambda>(name, cell). rbind cell (\<lambda>x. Inr (name, x)))
      ([(''event_id'', str_item env value ''event_id''),
        (''ride_id'', str_item env value ''ride_id''),
        (''event_type'', str_item env value ''event_type''),
        (''event_ts'', ts_item value ''event_ts''),
        (''rider_id'', str_item env value ''rider_id''),
        (''driver_id'', Inr (d_get value ''driver_id'')),
        (''city_id'', rbind (d_item value ''city_id'') (\<lambda>v. rbind (py_int v) (\<lambda>n. Inr (PInt n)))),
        (''pickup_lat'', float_item env value ''pickup_lat''),
        (''pickup_lon'', float_item env value ''pickup_lon''),
        (''dropoff_lat'', Inr (d_get value ''dropoff_lat'')),
        (''dropoff_lon'', Inr (d_get value ''dropoff_lon'')),
        (''fare_cents'', Inr (d_get value ''fare_cents'')),
        (''surge_multiplier'', float_item env value ''surge_multiplier''),
        (''payload_version'', rbind (payload_version_of value) (\<lambda>n. Inr (PInt n))),
        (''is_synthetic'', Inr (PBool True))]
       @ (if with_promo then [(''promo_code'', Inr (d_get value ''promo_code''))] else []))"

definition to_arrow :: "ice_env \<Rightarrow> payload list \<Rightarrow> bool \<Rightarrow> exn + payload list" where
  "to_arrow env values with_promo =
     rbind (rmap (arrow_row env with_promo) values) (\<lambda>rows.
       case ie_arrow_error env (arrow_schema with_promo) rows of Some e \<Rightarrow> Inl e | None \<Rightarrow> Inr rows)"

section \<open>The sink\<close>

record IcebergSinkConfig =
  batch_max_records :: nat
  flush_interval_sec :: real

definition default_IcebergSinkConfig :: IcebergSinkConfig where
  "default_IcebergSinkConfig = \<lparr>batch_max_records = 2000, flush_interval_sec = 10\<rparr>"

datatype ice_call = UpdateSchema | Append | CommitOffsets

type_synonym ice_faults = "ice_call \<Rightarrow> (bool \<times> fault) option"

record 't ice_sink =
  ik_table :: 't
  ik_has_promo :: bool
  ik_position :: "string \<times> int \<Rightarrow> int"
  ik_committed :: "string \<times> int \<Rightarrow> int"
  ik_dlq :: DlqProducer
  ik_buffer :: "payload list"
  ik_last_flush :: real
  ik_rows_appended :: nat
  ik_poison_seen :: nat
  ik_evolutions :: nat

definition ensure_table :: "'t table_api \<Rightarrow> 't option \<Rightarrow> 't" where
  "ensure_table api catalog =
     (case catalog of Some t \<Rightarrow> t | None \<Rightarrow> ta_create api (map fst ICEBERG_SCHEMA_V1))"

text \<open>The constructor; the consumer is assigned at its committed offsets.\<close>

definition new_ice_sink :: "'t table_api \<Rightarrow> string \<Rightarrow> 't option \<Rightarrow> (string \<times> int \<Rightarrow> int) \<Rightarrow> real \<Rightarrow> 't ice_sink" where
  "new_ice_sink api grp catalog committed now =
     (let t = ensure_table api catalog in
      \<lparr>ik_table = t, ik_has_promo = list_ex (\<lambda>c. c = ''promo_code'') (ta_columns api t),
       ik_position = committed, ik_committed = committed, ik_dlq = dlq_producer_init grp,
       ik_buffer = [], ik_last_flush = now, ik_rows_appended = 0, ik_poison_seen = 0, ik_evolutions = 0\<rparr>)"

definition ingest_msg :: "ice_env \<Rightarrow> msg \<Rightarrow> 't ice_sink \<Rightarrow> unit out \<times> 't ice_sink" where
  "ingest_msg env m s =
     (case m_error m of
        Some _ \<Rightarrow> (Raise (RuntimeError ''consumer error''), s)
      | None \<Rightarrow>
          (case ie_deserialize env (m_topic m) (m_value m) of
             Inr v \<Rightarrow> (Ret (), s\<lparr>ik_buffer := ik_buffer s @ [v]\<rparr>)
           | Inl error \<Rightarrow>
               (let s = s\<lparr>ik_poison_seen := ik_poison_seen s + 1\<rparr> in
                case dlq_handle (ie_clock env m) (ik_dlq s) m error of
                  Inl e \<Rightarrow> (Raise e, s)
                | Inr d \<Rightarrow> (Ret (), s\<lparr>ik_dlq := d\<rparr>))))"

primrec ice_ingest :: "ice_env \<Rightarrow> msg list \<Rightarrow> 't ice_sink \<Rightarrow> unit out \<times> 't ice_sink" where
  "ice_ingest env [] s = (Ret (), s)"
| "ice_ingest env (m # ms) s = obind (ingest_msg env m s) (\<lambda>_. ice_ingest env ms)"

definition should_flush :: "IcebergSinkConfig \<Rightarrow> real \<Rightarrow> 't ice_sink \<Rightarrow> bool" where
  "should_flush cfg now s \<longleftrightarrow>
     length (ik_buffer s) \<ge> batch_max_records cfg
     \<or> ik_buffer s \<noteq> [] \<and> now - ik_last_flush s > flush_interval_sec cfg"

definition ice_evolve :: "'t table_api \<Rightarrow> ice_faults \<Rightarrow> 't ice_sink \<Rightarrow> unit out \<times> 't ice_sink" where
  "ice_evolve api faults s =
     (case ta_add_column api ''promo_code'' (ik_table s) of
        Inl e \<Rightarrow> (Raise e, s)
      | Inr t \<Rightarrow> obind (attempt (faults UpdateSchema) (\<lambda>s. s\<lparr>ik_table := t\<rparr>) s)
          (\<lambda>_ s. (Ret (), s\<lparr>ik_has_promo := True, ik_evolutions := ik_evolutions s + 1\<rparr>)))"

text \<open>Offsets commit only after the append.\<close>

definition append_then_commit :: "'t table_api \<Rightarrow> ice_faults \<Rightarrow> real \<Rightarrow> payload list \<Rightarrow> 't ice_sink
    \<Rightarrow> unit out \<times> 't ice_sink" where
  "append_then_commit api faults now rows s =
     obind (attempt (faults Append) (\<lambda>s. s\<lparr>ik_table := ta_append api rows (ik_table s)\<rparr>) s) (\<lambda>_ s.
     obind (attempt (faults CommitOffsets) (\<lambda>s. s\<lparr>ik_committed := ik_position s\<rparr>) s) (\<lambda>_ s.
       (Ret (), s\<lparr>ik_rows_appended := ik_rows_appended s + length rows, ik_buffer := [],
                 ik_last_flush := now\<rparr>)))"

definition ice_flush :: "'t table_api \<Rightarrow> ice_env \<Rightarrow> ice_faults \<Rightarrow> real \<Rightarrow> 't ice_sink
    \<Rightarrow> unit out \<times> 't ice_sink" where
  "ice_flush api env faults now s =
     (if ik_buffer s = [] then (Ret (), s)
      else case should_evolve (ik_buffer s) (ik_has_promo s) of
        Inl e \<Rightarrow> (Raise e, s)
      | Inr evolve \<Rightarrow>
          obind (if evolve then ice_evolve api faults s else (Ret (), s)) (\<lambda>_ s.
            case to_arrow env (ik_buffer s) (ik_has_promo s) of
              Inl e \<Rightarrow> (Raise e, s)
            | Inr rows \<Rightarrow> append_then_commit api faults now rows s))"

section \<open>The loop\<close>

text \<open>One iteration: what was consumed, the readings of the clock, what its calls met.\<close>

record ice_poll =
  ip_msgs :: "msg list"
  ip_now :: real
  ip_check :: real
  ip_flushed :: real
  ip_faults :: ice_faults

definition ice_cycle :: "'t table_api \<Rightarrow> ice_env \<Rightarrow> IcebergSinkConfig \<Rightarrow> ice_poll \<Rightarrow> 't ice_sink
    \<Rightarrow> unit out \<times> 't ice_sink" where
  "ice_cycle api env cfg p s =
     obind (ice_ingest env (ip_msgs p) (s\<lparr>ik_position := advance_pos (ik_position s) (ip_msgs p)\<rparr>)) (\<lambda>_ s.
       if should_flush cfg (ip_check p) s then ice_flush api env (ip_faults p) (ip_flushed p) s
       else (Ret (), s))"

definition ice_finally :: "'t ice_sink \<Rightarrow> 't ice_sink" where
  "ice_finally s = s\<lparr>ik_dlq := dlq_flush (ik_dlq s)\<rparr>"

fun ice_exit :: "unit out \<times> 't ice_sink \<Rightarrow> unit out option \<times> 't ice_sink" where
  "ice_exit (Ret u, s) = (Some (Ret u), ice_finally s)"
| "ice_exit (Raise e, s) = (Some (Raise e), ice_finally s)"
| "ice_exit (Die, s) = (Some Die, s)"

text \<open>The last flush is given by its clock reading and faults, \<open>None\<close> as the outcome says that the
  loop is still running when the polls are used up.\<close>

fun ice_run_loop :: "'t table_api \<Rightarrow> ice_env \<Rightarrow> IcebergSinkConfig \<Rightarrow> nat option \<Rightarrow> real option
    \<Rightarrow> real \<times> ice_faults \<Rightarrow> nat \<Rightarrow> real \<Rightarrow> ice_poll list \<Rightarrow> 't ice_sink \<Rightarrow> unit out option \<times> 't ice_sink" where
  "ice_run_loop api env cfg max_batches idle final batches last_data polls s =
     (if (case max_batches of None \<Rightarrow> False | Some n \<Rightarrow> \<not> batches < n)
      then ice_exit (ice_flush api env (snd final) (fst final) s)
      else case polls of
        [] \<Rightarrow> (None, s)
      | p # polls' \<Rightarrow>
          if ip_msgs p = [] \<and> (case idle of None \<Rightarrow> False | Some t \<Rightarrow> ip_now p - last_data > t)
          then ice_exit (ice_flush api env (snd final) (fst final) s)
          else (case ice_cycle api env cfg p s of
                  (Ret _, s) \<Rightarrow> ice_run_loop api env cfg max_batches idle final
                    (if ip_msgs p = [] then batches else batches + 1)
                    (if ip_msgs p = [] then last_data else ip_now p) polls' s
                | r \<Rightarrow> ice_exit r))"

declare ice_run_loop.simps [simp del]

definition ice_run :: "'t table_api \<Rightarrow> ice_env \<Rightarrow> IcebergSinkConfig \<Rightarrow> nat option \<Rightarrow> real option
    \<Rightarrow> real \<times> ice_faults \<Rightarrow> real \<Rightarrow> ice_poll list \<Rightarrow> 't ice_sink \<Rightarrow> unit out option \<times> 't ice_sink" where
  "ice_run api env cfg max_batches idle final now polls s =
     ice_run_loop api env cfg max_batches idle final 0 now polls s"

end
