(* ===== verification/Iceberg_System.thy ===== *)
theory Iceberg_System
  imports Iceberg_Sink
begin

text \<open>
  The lakehouse sink as a process that crashes and restarts, on the partitions of a log. While
  the process is down only the table and the committed offsets mean anything; a restart builds
  a new sink on them. The invariant relates the rows of the table to the committed part of the
  log; it needs no history in the state.
\<close>

record 't isys =
  is_sink :: "'t ice_sink"
  is_up :: bool

inductive istep :: "'t table_api \<Rightarrow> ice_env \<Rightarrow> IcebergSinkConfig \<Rightarrow> string
    \<Rightarrow> (string \<times> int \<Rightarrow> msg list) \<Rightarrow> (string \<times> int) list \<Rightarrow> 't isys \<Rightarrow> 't isys \<Rightarrow> bool"
  for api env cfg grp input parts where
  i_cycle: "deliverable input parts (ik_position s) (ip_msgs p) \<Longrightarrow>
     ice_cycle api env cfg p s = (Ret u, s') \<Longrightarrow>
     istep api env cfg grp input parts \<lparr>is_sink = s, is_up = True\<rparr> \<lparr>is_sink = s', is_up = True\<rparr>"
| i_fail: "deliverable input parts (ik_position s) (ip_msgs p) \<Longrightarrow>
     ice_cycle api env cfg p s = (r, s') \<Longrightarrow> r = Die \<or> r = Raise e \<Longrightarrow>
     istep api env cfg grp input parts \<lparr>is_sink = s, is_up = True\<rparr> \<lparr>is_sink = s', is_up = False\<rparr>"
| i_stop: "ice_flush api env faults now s = (r, s') \<Longrightarrow>
     istep api env cfg grp input parts \<lparr>is_sink = s, is_up = True\<rparr> \<lparr>is_sink = s', is_up = False\<rparr>"
| i_kill: "istep api env cfg grp input parts \<lparr>is_sink = s, is_up = True\<rparr> \<lparr>is_sink = s, is_up = False\<rparr>"
| i_restart: "istep api env cfg grp input parts \<lparr>is_sink = s, is_up = False\<rparr>
     \<lparr>is_sink = new_ice_sink api grp (Some (ik_table s)) (ik_committed s) now, is_up = True\<rparr>"

text \<open>The first start creates the table; a group without committed offsets starts at the beginning
  of each partition (\<open>auto.offset.reset\<close> is earliest).\<close>

definition isys_init :: "'t table_api \<Rightarrow> string \<Rightarrow> real \<Rightarrow> 't isys" where
  "isys_init api grp now = \<lparr>is_sink = new_ice_sink api grp None (\<lambda>_. 0) now, is_up = True\<rparr>"

inductive ireachable :: "'t table_api \<Rightarrow> ice_env \<Rightarrow> IcebergSinkConfig \<Rightarrow> string
    \<Rightarrow> (string \<times> int \<Rightarrow> msg list) \<Rightarrow> (string \<times> int) list \<Rightarrow> 't isys \<Rightarrow> bool"
  for api env cfg grp input parts where
  ireach_init: "ireachable api env cfg grp input parts (isys_init api grp now)"
| ireach_step: "ireachable api env cfg grp input parts x \<Longrightarrow> istep api env cfg grp input parts x y \<Longrightarrow>
     ireachable api env cfg grp input parts y"

section \<open>What the messages mean\<close>

definition good_value :: "ice_env \<Rightarrow> msg \<Rightarrow> payload option" where
  "good_value env m =
     (if m_error m = None
      then case ie_deserialize env (m_topic m) (m_value m) of Inl _ \<Rightarrow> None | Inr v \<Rightarrow> Some v else None)"

definition good_values :: "ice_env \<Rightarrow> msg list \<Rightarrow> payload list" where
  "good_values env ms = List.map_filter (good_value env) ms"

lemma good_values_simps [simp]:
  "good_values env [] = []"
  "good_values env (m # ms) =
     (case good_value env m of None \<Rightarrow> good_values env ms | Some v \<Rightarrow> v # good_values env ms)"
  by (simp_all add: good_values_def split: option.split)

lemma good_values_append: "good_values env (xs @ ys) = good_values env xs @ good_values env ys"
  by (induction xs) (auto split: option.split)

text \<open>
  A row as its readers see it: the value of every column of the evolved schema. The row of an
  event is what the conversions give with the new column; of an event whose row is written
  without it, the promo code reads as null, which is only so for an event of version 1.
\<close>

definition ROW_COLUMNS :: "string list" where
  "ROW_COLUMNS = map fst (arrow_schema True)"

definition row_view :: "payload \<Rightarrow> pyval list" where
  "row_view r = map (d_get r) ROW_COLUMNS"

definition base_view :: "payload \<Rightarrow> pyval list" where
  "base_view r = map (d_get r) (map fst BASE_COLUMNS)"

definition event_row :: "ice_env \<Rightarrow> payload \<Rightarrow> payload" where
  "event_row env v = (case arrow_row env True v of Inr r \<Rightarrow> r | Inl _ \<Rightarrow> [])"

lemma row_view_null_column [simp]: "row_view (r @ [(c, PNone)]) = row_view r"
  by (simp add: row_view_def d_get_null_column)

lemma base_view_of_row: "base_view r = butlast (row_view r)"
  by (simp add: base_view_def row_view_def ROW_COLUMNS_def arrow_schema_def)

definition is_v2 :: "payload \<Rightarrow> bool" where
  "is_v2 v \<longleftrightarrow> (\<exists>n \<ge> 2. payload_version_of v = Inr n)"

text \<open>The rows a batch of events may be written as.\<close>

definition written_as :: "ice_env \<Rightarrow> payload \<Rightarrow> payload \<Rightarrow> bool" where
  "written_as env v r \<longleftrightarrow> base_view r = base_view (event_row env v)
     \<and> (is_v2 v \<longrightarrow> row_view r = row_view (event_row env v))"

lemma rmap_append: "rmap f (xs @ ys) = rbind (rmap f xs) (\<lambda>as. rbind (rmap f ys) (\<lambda>bs. Inr (as @ bs)))"
proof (induction xs)
  case Nil
  show ?case by (cases "rmap f ys") simp_all
qed (simp add: rbind_assoc)

lemma arrow_row_True:
  "arrow_row env True v =
     rbind (arrow_row env False v) (\<lambda>r. Inr (r @ [(''promo_code'', d_get v ''promo_code'')]))"
  unfolding arrow_row_def if_True if_False append_Nil2 by (subst rmap_append) simp

lemma arrow_row_keys:
  assumes "arrow_row env False v = Inr r"
  shows "map fst r = map fst BASE_COLUMNS"
  using assms by (auto simp: arrow_row_def rbind_eq_Inr BASE_COLUMNS_def)

lemma arrow_row_written:
  assumes "arrow_row env promo v = Inr r" "promo \<or> \<not> is_v2 v"
  shows "written_as env v r"
proof (cases promo)
  case True
  with assms(1) show ?thesis by (simp add: written_as_def event_row_def)
next
  case False
  with assms(1) have r: "arrow_row env False v = Inr r" by simp
  then have e: "event_row env v = r @ [(''promo_code'', d_get v ''promo_code'')]"
    by (simp add: event_row_def arrow_row_True)
  have "d_get (r @ [(''promo_code'', x)]) k = d_get r k" if "k \<in> set (map fst r)" for k x
    using that by (auto simp: d_get_def map_add_def map_of_eq_None_iff simp del: map_of_eq_Some_iff split: option.splits)
  then have "base_view (event_row env v) = base_view r"
    unfolding e base_view_def using arrow_row_keys [OF r] by (intro map_cong) auto
  with False assms(2) show ?thesis by (simp add: written_as_def)
qed

section \<open>The outcome of a flush\<close>

lemma should_evolve_False:
  assumes "should_evolve vs False = Inr False" "v \<in> set vs"
  shows "\<not> is_v2 v"
  using assms by (induction vs) (auto simp: should_evolve_def rbind_eq_Inr is_v2_def split: if_splits)

lemma to_arrow_rows:
  assumes "to_arrow env vs promo = Inr rows" "promo \<or> (\<forall>v \<in> set vs. \<not> is_v2 v)"
  shows "list_all2 (written_as env) vs rows"
  using assms arrow_row_written
  by (fastforce simp: to_arrow_def rbind_eq_Inr rmap_eq_Inr list_all2_conv_all_nth split: option.splits)

text \<open>\<open>holds_events api env vs t\<close>: the rows of the table are the events \<open>vs\<close>, one row each.\<close>

definition holds_events :: "'t table_api \<Rightarrow> ice_env \<Rightarrow> payload list \<Rightarrow> 't \<Rightarrow> bool" where
  "holds_events api env vs t \<longleftrightarrow> (\<exists>rows. list_all2 (written_as env) vs rows \<and> mset rows = table_rows api t)"

lemma holds_append:
  assumes "table_laws api" "holds_events api env vs t" "list_all2 (written_as env) us rows"
  shows "holds_events api env (vs @ us) (ta_append api rows t)"
proof -
  from assms(2) obtain rs where "list_all2 (written_as env) vs rs" "mset rs = table_rows api t"
    by (auto simp: holds_events_def)
  with assms(3) table_lawsD(6) [OF assms(1), of rows t] show ?thesis
    unfolding holds_events_def by (intro exI [of _ "rs @ rows"]) (simp add: list_all2_appendI)
qed

lemma written_as_null_column: "written_as env v r \<Longrightarrow> written_as env v (r @ [(c, PNone)])"
  by (simp add: written_as_def base_view_of_row)

lemma holds_add_column:
  assumes "table_laws api" "holds_events api env vs t" "ta_add_column api c t = Inr t'"
  shows "holds_events api env vs t'"
proof -
  from assms(2) obtain rs where rs: "list_all2 (written_as env) vs rs" "mset rs = table_rows api t"
    by (auto simp: holds_events_def)
  have "list_all2 (written_as env) vs (map (\<lambda>r. r @ [(c, PNone)]) rs)"
    using rs(1) by (simp add: list_all2_conv_all_nth written_as_null_column)
  moreover have "mset (map (\<lambda>r. r @ [(c, PNone)]) rs) = table_rows api t'"
    using table_lawsD(4) [OF assms(1,3)] rs(2) by simp
  ultimately show ?thesis unfolding holds_events_def by blast
qed

text \<open>The columns and what the sink believes of them.\<close>

definition columns_ok :: "'t table_api \<Rightarrow> 't ice_sink \<Rightarrow> bool" where
  "columns_ok api s \<longleftrightarrow> ta_columns api (ik_table s) = map fst (arrow_schema (ik_has_promo s))"

definition evolved_or_not :: "'t table_api \<Rightarrow> 't \<Rightarrow> bool" where
  "evolved_or_not api t \<longleftrightarrow> (\<exists>promo. ta_columns api t = map fst (arrow_schema promo))"

lemma columns_ok_evolved: "columns_ok api s \<Longrightarrow> evolved_or_not api (ik_table s)"
  by (auto simp: columns_ok_def evolved_or_not_def)

lemma evolved_or_notI: "ta_columns api t = map fst (arrow_schema promo) \<Longrightarrow> evolved_or_not api t"
  by (auto simp: evolved_or_not_def)

lemma promo_in_schema: "''promo_code'' \<in> set (map fst (arrow_schema promo)) \<longleftrightarrow> promo"
  by (cases promo) (simp_all add: arrow_schema_def BASE_COLUMNS_def)

lemma ice_evolve_outcome:
  assumes "table_laws api" "columns_ok api s" "\<not> ik_has_promo s" "holds_events api env vs (ik_table s)"
    and "ice_evolve api faults s = (r, s')"
  shows "holds_events api env vs (ik_table s')" "evolved_or_not api (ik_table s')"
    "ik_committed s' = ik_committed s" "ik_position s' = ik_position s" "ik_buffer s' = ik_buffer s"
    "r = Ret u \<Longrightarrow> columns_ok api s' \<and> ik_has_promo s'"
proof -
  have cols: "ta_columns api (ik_table s) = map fst (arrow_schema False)"
    using assms(2,3) by (simp add: columns_ok_def)
  then obtain t where t: "ta_add_column api ''promo_code'' (ik_table s) = Inr t"
    using table_lawsD(5) [OF assms(1)] promo_in_schema [of False] by metis
  have new: "ta_columns api t = map fst (arrow_schema True)"
    using table_lawsD(3) [OF assms(1) t] cols by (simp add: arrow_schema_def)
  note h = holds_add_column [OF assms(1,4) t]
  from assms(5) have "obind (attempt (faults UpdateSchema) (\<lambda>s. s\<lparr>ik_table := t\<rparr>) s)
      (\<lambda>_ s. (Ret (), s\<lparr>ik_has_promo := True, ik_evolutions := ik_evolutions s + 1\<rparr>)) = (r, s')"
    by (simp add: ice_evolve_def t)
  then have "holds_events api env vs (ik_table s') \<and> evolved_or_not api (ik_table s')
      \<and> ik_committed s' = ik_committed s \<and> ik_position s' = ik_position s \<and> ik_buffer s' = ik_buffer s
      \<and> (r = Ret u \<longrightarrow> columns_ok api s' \<and> ik_has_promo s')"
    using h new assms(2-4) columns_ok_evolved [OF assms(2)] evolved_or_notI [OF new]
    by (cases "faults UpdateSchema") (auto simp: columns_ok_def)
  then show "holds_events api env vs (ik_table s')" "evolved_or_not api (ik_table s')"
    "ik_committed s' = ik_committed s" "ik_position s' = ik_position s" "ik_buffer s' = ik_buffer s"
    "r = Ret u \<Longrightarrow> columns_ok api s' \<and> ik_has_promo s'" by simp_all
qed

text \<open>Where an iteration leaves the table and the offsets: \<open>new\<close> says whether the buffer was appended.\<close>

definition flushed :: "'t table_api \<Rightarrow> ice_env \<Rightarrow> payload list \<Rightarrow> 't ice_sink \<Rightarrow> unit out \<times> 't ice_sink \<Rightarrow> bool" where
  "flushed api env vs s rs' \<longleftrightarrow> (case rs' of (r, s') \<Rightarrow>
     evolved_or_not api (ik_table s') \<and> ik_position s' = ik_position s
     \<and> (r = Ret () \<longrightarrow> columns_ok api s' \<and> ik_buffer s' = [])
     \<and> (holds_events api env vs (ik_table s') \<and> ik_committed s' = ik_committed s
           \<and> (r = Ret () \<longrightarrow> ik_buffer s = [])
        \<or> holds_events api env (vs @ ik_buffer s) (ik_table s')
           \<and> (ik_committed s' = ik_position s \<or> ik_committed s' = ik_committed s \<and> r \<noteq> Ret ())))"

lemma append_then_commit_outcome:
  assumes "table_laws api" "columns_ok api s" "holds_events api env vs (ik_table s)"
    and "list_all2 (written_as env) (ik_buffer s) rows"
  shows "flushed api env vs s (append_then_commit api faults now rows s)"
proof -
  have "holds_events api env (vs @ ik_buffer s) (ta_append api rows (ik_table s))"
    by (rule holds_append [OF assms(1,3,4)])
  moreover have cols: "ta_columns api (ta_append api rows (ik_table s)) = map fst (arrow_schema (ik_has_promo s))"
    using assms(2) table_lawsD(7) [OF assms(1)] by (simp add: columns_ok_def)
  ultimately show ?thesis
    using assms(3) columns_ok_evolved [OF assms(2)] evolved_or_notI [OF cols]
    unfolding append_then_commit_def flushed_def
    by (cases "faults Append"; cases "faults CommitOffsets") (auto simp: columns_ok_def cols split: if_splits)
qed

lemma ice_flush_outcome:
  assumes "table_laws api" "columns_ok api s" "holds_events api env vs (ik_table s)"
  shows "flushed api env vs s (ice_flush api env faults now s)"
proof (cases "ik_buffer s = []")
  case True
  with assms columns_ok_evolved [OF assms(2)] show ?thesis by (simp add: ice_flush_def flushed_def)
next
  case ne: False
  note stay = columns_ok_evolved [OF assms(2)] assms(3) ne
  have put: "flushed api env vs s (case to_arrow env (ik_buffer s1) (ik_has_promo s1) of Inl e \<Rightarrow> (Raise e, s1)
      | Inr rows \<Rightarrow> append_then_commit api faults now rows s1)"
    if s1: "columns_ok api s1" "holds_events api env vs (ik_table s1)" "ik_committed s1 = ik_committed s"
      "ik_position s1 = ik_position s" "ik_buffer s1 = ik_buffer s"
      "ik_has_promo s1 \<or> (\<forall>v \<in> set (ik_buffer s1). \<not> is_v2 v)" for s1
  proof (cases "to_arrow env (ik_buffer s1) (ik_has_promo s1)")
    case (Inl e)
    with s1 ne columns_ok_evolved [OF s1(1)] show ?thesis by (simp add: flushed_def)
  next
    case (Inr rows)
    from append_then_commit_outcome [OF assms(1) s1(1,2) to_arrow_rows [OF Inr s1(6)]]
    show ?thesis unfolding Inr sum.case using s1(3-5) by (simp add: flushed_def)
  qed
  show ?thesis
  proof (cases "should_evolve (ik_buffer s) (ik_has_promo s)")
    case (Inl e)
    with stay show ?thesis by (simp add: ice_flush_def flushed_def)
  next
    case (Inr evolve)
    show ?thesis
    proof (cases evolve)
      case True
      then have np: "\<not> ik_has_promo s" using Inr by (auto simp: should_evolve_def split: if_splits)
      obtain r s1 where e: "ice_evolve api faults s = (r, s1)" by (metis surj_pair)
      note o = ice_evolve_outcome [OF assms(1,2) np assms(3) e]
      show ?thesis
      proof (cases r)
        case (Ret u)
        from o(6) [OF Ret] o(1,3-5) put [of s1] ne show ?thesis
          by (simp add: ice_flush_def Inr True e Ret)
      qed (use o ne in \<open>simp_all add: ice_flush_def Inr True e flushed_def\<close>)
    next
      case False
      then have "ik_has_promo s \<or> (\<forall>v \<in> set (ik_buffer s). \<not> is_v2 v)"
        using Inr should_evolve_False by (cases "ik_has_promo s") auto
      with assms(2,3) put [of s] ne False show ?thesis by (simp add: ice_flush_def Inr)
    qed
  qed
qed

section \<open>The outcome of consuming\<close>

lemma ingest_msg_outcome:
  assumes "ingest_msg env m s = (r, s')"
  shows "ik_table s' = ik_table s" "ik_has_promo s' = ik_has_promo s" "ik_committed s' = ik_committed s"
    "ik_position s' = ik_position s" "r \<noteq> Die"
    "r = Ret u \<Longrightarrow> is_record m \<and> ik_buffer s' = ik_buffer s @ good_values env [m]"
  using assms
  by (auto simp: ingest_msg_def Let_def dlq_handle_eq is_record_def good_value_def split: option.splits sum.splits)

lemma ice_ingest_outcome:
  assumes "ice_ingest env ms s = (r, s')"
  shows "ik_table s' = ik_table s" "ik_has_promo s' = ik_has_promo s" "ik_committed s' = ik_committed s"
    "ik_position s' = ik_position s"
    "r = Ret u \<Longrightarrow> list_all is_record ms \<and> ik_buffer s' = ik_buffer s @ good_values env ms"
proof -
  have "ik_table s' = ik_table s \<and> ik_has_promo s' = ik_has_promo s \<and> ik_committed s' = ik_committed s
    \<and> ik_position s' = ik_position s
    \<and> (r = Ret u \<longrightarrow> list_all is_record ms \<and> ik_buffer s' = ik_buffer s @ good_values env ms)"
    using assms
  proof (induction ms arbitrary: s)
    case (Cons m ms)
    from Cons.prems [unfolded ice_ingest.simps] show ?case
    proof (cases rule: obind_cases)
      case (stop r')
      with ingest_msg_outcome [OF stop(1)] show ?thesis by auto
    next
      case (go a s1)
      with ingest_msg_outcome [OF go(1)] Cons.IH [OF go(2)] show ?thesis
        by (auto split: option.split)
    qed
  qed auto
  then show "ik_table s' = ik_table s" "ik_has_promo s' = ik_has_promo s" "ik_committed s' = ik_committed s"
    "ik_position s' = ik_position s"
    "r = Ret u \<Longrightarrow> list_all is_record ms \<and> ik_buffer s' = ik_buffer s @ good_values env ms"
    by simp_all
qed

section \<open>The invariant\<close>

text \<open>The messages \<open>h\<close> are those of the log before the offsets.\<close>

definition log_before :: "(string \<times> int \<Rightarrow> msg list) \<Rightarrow> (string \<times> int) list \<Rightarrow> (string \<times> int \<Rightarrow> int)
    \<Rightarrow> msg list \<Rightarrow> bool" where
  "log_before input parts offs h \<longleftrightarrow>
     list_all (\<lambda>m. is_record m \<and> (m_topic m, m_partition m) \<in> set parts) h
     \<and> list_all (\<lambda>tp. tp_records tp h = before_offset (offs tp) (input tp)) parts"

definition log_values :: "ice_env \<Rightarrow> (string \<times> int \<Rightarrow> msg list) \<Rightarrow> (string \<times> int) list \<Rightarrow> payload list" where
  "log_values env input parts = concat (map (\<lambda>tp. good_values env (input tp)) parts)"

definition table_covers :: "'t table_api \<Rightarrow> ice_env \<Rightarrow> (string \<times> int \<Rightarrow> msg list) \<Rightarrow> (string \<times> int) list
    \<Rightarrow> msg list \<Rightarrow> 't \<Rightarrow> bool" where
  "table_covers api env input parts h t \<longleftrightarrow> evolved_or_not api t
     \<and> (\<exists>vs. holds_events api env vs t \<and> mset (good_values env h) \<subseteq># mset vs
          \<and> set vs \<subseteq> set (log_values env input parts))"

definition ice_inv :: "'t table_api \<Rightarrow> ice_env \<Rightarrow> (string \<times> int \<Rightarrow> msg list) \<Rightarrow> (string \<times> int) list
    \<Rightarrow> 't isys \<Rightarrow> bool" where
  "ice_inv api env input parts x \<longleftrightarrow> (\<exists>h. log_before input parts (ik_committed (is_sink x)) h
     \<and> table_covers api env input parts h (ik_table (is_sink x))
     \<and> (is_up x \<longrightarrow> columns_ok api (is_sink x) \<and> (\<exists>pend.
          log_before input parts (ik_position (is_sink x)) (h @ pend)
          \<and> ik_buffer (is_sink x) = good_values env pend)))"

lemma good_values_in: "v \<in> set (good_values env ms) \<longleftrightarrow> (\<exists>m \<in> set ms. good_value env m = Some v)"
  by (auto simp: good_values_def List.map_filter_def) force+

lemma log_before_values:
  assumes "log_before input parts offs h"
  shows "set (good_values env h) \<subseteq> set (log_values env input parts)"
proof
  fix v assume "v \<in> set (good_values env h)"
  then obtain m where m: "m \<in> set h" "good_value env m = Some v" by (auto simp: good_values_in)
  let ?tp = "(m_topic m, m_partition m)"
  from assms m(1) have tp: "?tp \<in> set parts" "is_record m"
    and "tp_records ?tp h = before_offset (offs ?tp) (input ?tp)"
    by (auto simp: log_before_def list_all_iff)
  moreover from m(1) tp have "m \<in> set (tp_records ?tp h)" by (simp add: tp_records_def)
  ultimately have "m \<in> set (input ?tp)" by (simp add: before_offset_def)
  with m(2) tp(1) show "v \<in> set (log_values env input parts)"
    by (auto simp: log_values_def good_values_in)
qed

lemma table_coversI:
  "evolved_or_not api t \<Longrightarrow> holds_events api env vs t \<Longrightarrow> mset (good_values env h) \<subseteq># mset vs \<Longrightarrow>
   set vs \<subseteq> set (log_values env input parts) \<Longrightarrow> table_covers api env input parts h t"
  by (auto simp: table_covers_def)

lemma flush_inv:
  assumes log: "log_before input parts (ik_committed s) h" "log_before input parts (ik_position s) (h @ pend)"
    and vs: "mset (good_values env h) \<subseteq># mset vs" "set vs \<subseteq> set (log_values env input parts)"
    and buf: "ik_buffer s = good_values env pend"
    and fl: "flushed api env vs s (r, s')"
  shows "ice_inv api env input parts \<lparr>is_sink = s', is_up = (r = Ret ())\<rparr>"
proof -
  from fl have f: "evolved_or_not api (ik_table s')" "ik_position s' = ik_position s"
    "r = Ret () \<longrightarrow> columns_ok api s' \<and> ik_buffer s' = []"
    by (simp_all add: flushed_def)
  have more: "mset (good_values env h) \<subseteq># mset (vs @ ik_buffer s)"
    "mset (good_values env (h @ pend)) \<subseteq># mset (vs @ ik_buffer s)"
    "set (vs @ ik_buffer s) \<subseteq> set (log_values env input parts)"
    using vs log_before_values [OF log(2), of env] subset_mset.add_increasing2 [OF _ vs(1)]
    by (auto simp: buf good_values_append subset_mset.add_right_mono)
  consider (keep) "holds_events api env vs (ik_table s')" "ik_committed s' = ik_committed s"
      "r = Ret () \<longrightarrow> ik_buffer s = []"
    | (all) "holds_events api env (vs @ ik_buffer s) (ik_table s')" "ik_committed s' = ik_position s"
    | (half) "holds_events api env (vs @ ik_buffer s) (ik_table s')" "ik_committed s' = ik_committed s" "r \<noteq> Ret ()"
    using fl by (auto simp: flushed_def)
  then show ?thesis
  proof cases
    case keep
    from table_coversI [OF f(1) keep(1) vs] f log buf keep(2,3) show ?thesis
      unfolding ice_inv_def by (intro exI [of _ h]) auto
  next
    case all
    from table_coversI [OF f(1) all(1) more(2,3)] f log(2) all(2) show ?thesis
      unfolding ice_inv_def by (intro exI [of _ "h @ pend"]) (auto intro: exI [of _ "[]"])
  next
    case half
    from table_coversI [OF f(1) half(1) more(1,3)] f log half(2,3) show ?thesis
      unfolding ice_inv_def by (intro exI [of _ h]) auto
  qed
qed

lemma log_before_advance:
  assumes "partitions_ok input parts" "deliverable input parts pos msgs" "list_all is_record msgs"
    and "log_before input parts pos h"
  shows "log_before input parts (advance_pos pos msgs) (h @ msgs)"
proof -
  have "tp_records tp (h @ msgs) = before_offset (advance_pos pos msgs tp) (input tp)" if tp: "tp \<in> set parts" for tp
  proof -
    have "tp_records tp msgs = take (length (tp_records tp msgs)) (from_offset (pos tp) (input tp))"
      using assms(2) tp by (simp add: deliverable_def list_all_iff)
    from before_after_run [OF partitions_okD(1) [OF assms(1) tp] this refl]
    show ?thesis
      using assms(4) tp by (simp add: tp_records_append advance_pos_def log_before_def list_all_iff)
  qed
  with assms(2-4) show ?thesis by (auto simp: log_before_def deliverable_def list_all_iff)
qed

lemma ice_inv_up:
  assumes "ice_inv api env input parts \<lparr>is_sink = s, is_up = True\<rparr>"
  obtains h pend vs where "log_before input parts (ik_committed s) h"
    "log_before input parts (ik_position s) (h @ pend)" "columns_ok api s"
    "holds_events api env vs (ik_table s)" "mset (good_values env h) \<subseteq># mset vs"
    "set vs \<subseteq> set (log_values env input parts)" "ik_buffer s = good_values env pend"
  using assms unfolding ice_inv_def table_covers_def by auto

lemma ice_inv_down:
  "ice_inv api env input parts \<lparr>is_sink = s, is_up = True\<rparr> \<Longrightarrow> ice_inv api env input parts \<lparr>is_sink = s, is_up = False\<rparr>"
  unfolding ice_inv_def by auto

lemma ice_cycle_inv:
  assumes laws: "table_laws api" and ok: "partitions_ok input parts"
    and d: "deliverable input parts (ik_position s) (ip_msgs p)"
    and inv: "ice_inv api env input parts \<lparr>is_sink = s, is_up = True\<rparr>"
    and c: "ice_cycle api env cfg p s = (r, s')"
  shows "ice_inv api env input parts \<lparr>is_sink = s', is_up = (r = Ret ())\<rparr>"
proof -
  obtain h pend vs where i: "log_before input parts (ik_committed s) h"
    "log_before input parts (ik_position s) (h @ pend)" "columns_ok api s"
    "holds_events api env vs (ik_table s)" "mset (good_values env h) \<subseteq># mset vs"
    "set vs \<subseteq> set (log_values env input parts)" "ik_buffer s = good_values env pend"
    using inv by (rule ice_inv_up)
  let ?s = "s\<lparr>ik_position := advance_pos (ik_position s) (ip_msgs p)\<rparr>"
  from c [unfolded ice_cycle_def] show ?thesis
  proof (cases rule: obind_cases)
    case (stop r')
    note o = ice_ingest_outcome [OF stop(1)]
    have "ice_inv api env input parts \<lparr>is_sink = s', is_up = False\<rparr>"
      using inv o(1,3) by (auto simp: ice_inv_def)
    with stop(3) show ?thesis by auto
  next
    case (go a s1)
    note o = ice_ingest_outcome [OF go(1)]
    have rec: "list_all is_record (ip_msgs p)" and buf: "ik_buffer s1 = good_values env (pend @ ip_msgs p)"
      using o(5) [OF refl] i(7) by (simp_all add: good_values_append)
    have log: "log_before input parts (ik_position s1) (h @ pend @ ip_msgs p)"
      using log_before_advance [OF ok d rec i(2)] o(4) by simp
    have s1: "columns_ok api s1" "holds_events api env vs (ik_table s1)" "log_before input parts (ik_committed s1) h"
      using i(1,3,4) o(1-3) by (simp_all add: columns_ok_def)
    show ?thesis
    proof (cases "should_flush cfg (ip_check p) s1")
      case True
      with go(2) have "ice_flush api env (ip_faults p) (ip_flushed p) s1 = (r, s')" by simp
      with ice_flush_outcome [OF laws s1(1,2), of "ip_faults p" "ip_flushed p"] show ?thesis
        by (intro flush_inv [OF s1(3) log i(5,6) buf]) simp
    next
      case False
      with go(2) have "r = Ret ()" "s' = s1" by simp_all
      with s1 log buf table_coversI [OF columns_ok_evolved [OF s1(1)] s1(2) i(5,6)] show ?thesis
        unfolding ice_inv_def by (intro exI [of _ h]) auto
    qed
  qed
qed

end
