(* ===== verification/Iceberg_Properties.thy ===== *)
theory Iceberg_Properties
  imports Iceberg_System Events
begin

text \<open>
  The properties of the lakehouse sink over every run of the system, and a concrete run in
  which the process dies between the append and the commit.
\<close>

lemma isys_init_inv:
  assumes "table_laws api" "partitions_ok input parts"
  shows "ice_inv api env input parts (isys_init api grp now)"
proof -
  let ?s = "is_sink (isys_init api grp now)"
  have cols: "ta_columns api (ik_table ?s) = map fst (arrow_schema False)"
    using table_lawsD(2) [OF assms(1)]
    by (simp add: isys_init_def new_ice_sink_def ensure_table_def Let_def arrow_schema_def
        ICEBERG_SCHEMA_V1_def BASE_COLUMNS_def)
  have "holds_events api env [] (ik_table ?s)"
    using table_lawsD(1) [OF assms(1)]
    by (simp add: holds_events_def isys_init_def new_ice_sink_def ensure_table_def Let_def)
  from table_coversI [OF evolved_or_notI [OF cols] this, of "[]" input parts]
  have "table_covers api env input parts [] (ik_table ?s)" by simp
  moreover have "log_before input parts (ik_committed ?s) []" "log_before input parts (ik_position ?s) []"
    using nothing_before [OF assms(2)]
    by (simp_all add: log_before_def list_all_iff isys_init_def new_ice_sink_def Let_def)
  moreover have "ik_has_promo ?s \<longleftrightarrow> ''promo_code'' \<in> set (ta_columns api (ik_table ?s))" "ik_buffer ?s = []"
    by (auto simp: isys_init_def new_ice_sink_def Let_def list_ex_iff)
  then have "columns_ok api ?s" "ik_buffer ?s = []"
    using cols promo_in_schema by (auto simp: columns_ok_def)
  ultimately show ?thesis
    unfolding ice_inv_def by (intro exI [of _ "[]"]) (auto intro: exI [of _ "[]"])
qed

lemma istep_inv:
  assumes "table_laws api" "partitions_ok input parts"
    and "istep api env cfg grp input parts x y" "ice_inv api env input parts x"
  shows "ice_inv api env input parts y"
  using assms(3,4)
proof (cases rule: istep.cases)
  case (i_cycle s p u s')
  from ice_cycle_inv [OF assms(1,2) i_cycle(3) assms(4) [unfolded i_cycle(1)] i_cycle(4)]
  show ?thesis by (simp add: i_cycle(2))
next
  case (i_fail s p r s' e)
  from ice_cycle_inv [OF assms(1,2) i_fail(3) assms(4) [unfolded i_fail(1)] i_fail(4)] i_fail(5)
  show ?thesis by (auto simp: i_fail(2))
next
  case (i_stop faults now s r s')
  obtain h pend vs where i: "log_before input parts (ik_committed s) h"
    "log_before input parts (ik_position s) (h @ pend)" "columns_ok api s"
    "holds_events api env vs (ik_table s)" "mset (good_values env h) \<subseteq># mset vs"
    "set vs \<subseteq> set (log_values env input parts)" "ik_buffer s = good_values env pend"
    using assms(4) unfolding i_stop(1) by (rule ice_inv_up)
  from ice_flush_outcome [OF assms(1) i(3,4), of faults now] i_stop(3)
  have "flushed api env vs s (r, s')" by simp
  from flush_inv [OF i(1,2,5,6,7) this] show ?thesis
    unfolding i_stop(2) by (cases "r = Ret ()") (auto intro: ice_inv_down)
next
  case (i_kill s)
  with assms(4) show ?thesis by (auto intro: ice_inv_down)
next
  case (i_restart s now)
  let ?s = "new_ice_sink api grp (Some (ik_table s)) (ik_committed s) now"
  have f: "ik_table ?s = ik_table s" "ik_committed ?s = ik_committed s" "ik_position ?s = ik_committed s"
    "ik_buffer ?s = []" "ik_has_promo ?s \<longleftrightarrow> ''promo_code'' \<in> set (ta_columns api (ik_table s))"
    by (auto simp: new_ice_sink_def ensure_table_def Let_def list_ex_iff)
  from assms(4) obtain h where h: "log_before input parts (ik_committed s) h"
    "table_covers api env input parts h (ik_table s)"
    by (auto simp: ice_inv_def i_restart(1))
  then obtain promo where "ta_columns api (ik_table s) = map fst (arrow_schema promo)"
    by (auto simp: table_covers_def evolved_or_not_def)
  with f(1,5) promo_in_schema [of promo] have "columns_ok api ?s" by (simp add: columns_ok_def)
  with h f show ?thesis
    unfolding ice_inv_def i_restart(2) by (intro exI [of _ h]) (auto intro: exI [of _ "[]"])
qed

lemma ireachable_inv:
  assumes "ireachable api env cfg grp input parts x" "table_laws api" "partitions_ok input parts"
  shows "ice_inv api env input parts x"
  using assms(1)
  by (induction rule: ireachable.induct) (use assms(2,3) in \<open>auto intro: isys_init_inv istep_inv\<close>)

section \<open>Delivery\<close>

text \<open>The events of the log before the committed offsets, partition by partition.\<close>

definition committed_values :: "ice_env \<Rightarrow> (string \<times> int \<Rightarrow> msg list) \<Rightarrow> (string \<times> int) list
    \<Rightarrow> (string \<times> int \<Rightarrow> int) \<Rightarrow> payload list" where
  "committed_values env input parts offs =
     concat (map (\<lambda>tp. good_values env (before_offset (offs tp) (input tp))) parts)"

lemma mset_concat_if:
  "distinct parts \<Longrightarrow> a \<in> set parts \<Longrightarrow>
   mset (concat (map (\<lambda>tp. (if tp = a then [v] else []) @ f tp) parts)) = add_mset v (mset (concat (map f parts)))"
  by (induction parts) (auto simp: image_Un intro: arg_cong [where f = "\<lambda>x. add_mset v (_ + x)"]
      intro!: arg_cong [where f = mset] arg_cong [where f = concat] map_cong)

lemma values_by_partition:
  assumes "distinct parts" "list_all (\<lambda>m. is_record m \<and> (m_topic m, m_partition m) \<in> set parts) h"
  shows "mset (good_values env h) = mset (concat (map (\<lambda>tp. good_values env (tp_records tp h)) parts))"
  using assms(2)
proof (induction h)
  case Nil
  show ?case by (induction parts) simp_all
next
  case (Cons m h)
  let ?a = "(m_topic m, m_partition m)"
  have rec: "is_record m" "?a \<in> set parts" using Cons.prems by simp_all
  show ?case
  proof (cases "good_value env m")
    case None
    then have "good_values env (tp_records tp (m # h)) = good_values env (tp_records tp h)" for tp by simp
    with Cons None show ?thesis by simp
  next
    case (Some v)
    have "(\<lambda>tp. good_values env (tp_records tp (m # h)))
        = (\<lambda>tp. (if tp = ?a then [v] else []) @ good_values env (tp_records tp h))"
      using Some rec(1) by auto
    moreover have "mset (good_values env h) = mset (concat (map (\<lambda>tp. good_values env (tp_records tp h)) parts))"
      using Cons by simp
    ultimately show ?thesis
      using mset_concat_if [OF assms(1) rec(2), of v "\<lambda>tp. good_values env (tp_records tp h)"] Some
      by (simp only: good_values_simps option.case mset.simps)
  qed
qed

text \<open>C24: At-least-once delivery into the lakehouse. In every reachable state of the crashing,
  restarting sink, whatever call failed before or after its effect, the rows of the table are one
  row each of a collection of events of the log that holds every event before the committed
  offsets at least once: its columns are the event's, and of an event of payload version 2 the
  promo code too. The schema is the original one or has the promo column, once.\<close>

theorem iceberg_at_least_once:
  assumes "table_laws api" "partitions_ok input parts" "ireachable api env cfg grp input parts x"
  shows "evolved_or_not api (ik_table (is_sink x))
    \<and> (\<exists>vs rows. mset rows = table_rows api (ik_table (is_sink x)) \<and> list_all2 (written_as env) vs rows
      \<and> mset (committed_values env input parts (ik_committed (is_sink x))) \<subseteq># mset vs
      \<and> set vs \<subseteq> set (log_values env input parts))"
proof -
  from ireachable_inv [OF assms(3,1,2)] obtain h vs rows where
    i: "log_before input parts (ik_committed (is_sink x)) h" "evolved_or_not api (ik_table (is_sink x))"
    "list_all2 (written_as env) vs rows" "mset rows = table_rows api (ik_table (is_sink x))"
    "mset (good_values env h) \<subseteq># mset vs" "set vs \<subseteq> set (log_values env input parts)"
    unfolding ice_inv_def table_covers_def holds_events_def by auto
  have d: "distinct parts" using assms(2) by (simp add: partitions_ok_def)
  have "mset (good_values env h) = mset (concat (map (\<lambda>tp. good_values env (tp_records tp h)) parts))"
    by (rule values_by_partition [OF d]) (use i(1) in \<open>simp add: log_before_def\<close>)
  also have "map (\<lambda>tp. good_values env (tp_records tp h)) parts
      = map (\<lambda>tp. good_values env (before_offset (ik_committed (is_sink x) tp) (input tp))) parts"
    using i(1) by (simp add: log_before_def list_all_iff)
  finally have "mset (committed_values env input parts (ik_committed (is_sink x))) = mset (good_values env h)"
    by (simp add: committed_values_def)
  with i show ?thesis by metis
qed


text \<open>Poison alone commits nothing: after an iteration of a sink with an empty buffer whose
  messages are all unparseable, the committed offsets are what they were, so a restart consumes and
  dead-letters the same messages again, although each has been dead-lettered.\<close>

theorem iceberg_poison_not_committed:
  assumes "ice_cycle api env cfg p s = (Ret u, s')" "ik_buffer s = []" "good_values env (ip_msgs p) = []"
  shows "ik_committed s' = ik_committed s \<and> ik_table s' = ik_table s
    \<and> ik_position (new_ice_sink api grp (Some (ik_table s')) (ik_committed s') now) = ik_committed s"
proof -
  from assms(1) [unfolded ice_cycle_def] have "ik_committed s' = ik_committed s \<and> ik_table s' = ik_table s"
  proof (cases rule: obind_cases)
    case (go a s1)
    note o = ice_ingest_outcome [OF go(1)]
    from o(5) [OF refl] assms(2,3) have "ik_buffer s1 = []" by simp
    with go(2) have "s' = s1" by (auto simp: ice_flush_def split: if_splits)
    with o(1,3) show ?thesis by simp
  qed simp
  then show ?thesis by (simp add: new_ice_sink_def Let_def)
qed

section \<open>A concrete run\<close>

definition ice_demo_v2 :: payload where
  "ice_demo_v2 = se_value (ride_event ''r'' COMPLETED 1 ''u-1'' 1 (12, 77) 1 None (Some (13, 78)) (Some 500) 2 (Some ''SAVE10''))"

definition ice_demo_env :: ice_env where
  "ice_demo_env =
     \<lparr>ie_deserialize = (\<lambda>_ v. if v = Some ''POISON'' then Inl (ValueError ''unparseable payload'')
        else Inr (if v = Some ''V2'' then ice_demo_v2 else sample_event ''r'' REQUESTED 0)),
      ie_arrow_error = (\<lambda>_ _. None), ie_render = (\<lambda>_. []), ie_parse_float = (\<lambda>_. None),
      ie_clock = (\<lambda>_. ''now'')\<rparr>"

definition ice_demo_msg :: "int \<Rightarrow> string \<Rightarrow> msg" where
  "ice_demo_msg off v = \<lparr>m_topic = RIDES_EVENTS, m_partition = 0, m_offset = off, m_key = Some ''r'',
     m_value = Some v, m_error = None\<rparr>"

definition ice_demo_log :: "msg list" where
  "ice_demo_log = [ice_demo_msg 0 ''E'', ice_demo_msg 1 ''POISON'', ice_demo_msg 2 ''V2'']"

definition ice_demo_input :: "string \<times> int \<Rightarrow> msg list" where
  "ice_demo_input tp = tp_records tp ice_demo_log"

definition ice_demo_parts :: "(string \<times> int) list" where
  "ice_demo_parts = [(RIDES_EVENTS, 0)]"

definition ice_demo_api :: "file_table table_api" where
  "ice_demo_api = file_table_api int_digits"

definition ice_demo_cfg :: IcebergSinkConfig where
  "ice_demo_cfg = \<lparr>batch_max_records = 1, flush_interval_sec = 10\<rparr>"

definition ice_demo_poll :: "msg list \<Rightarrow> ice_faults \<Rightarrow> ice_poll" where
  "ice_demo_poll ms f = \<lparr>ip_msgs = ms, ip_now = 0, ip_check = 0, ip_flushed = 0, ip_faults = f\<rparr>"

abbreviation ice_demo_reaches :: "file_table isys \<Rightarrow> bool" where
  "ice_demo_reaches \<equiv> ireachable ice_demo_api ice_demo_env ice_demo_cfg ''iceberg-sink'' ice_demo_input ice_demo_parts"

lemma ice_demo_msg_simps [simp]:
  "m_topic (ice_demo_msg off v) = RIDES_EVENTS" "m_partition (ice_demo_msg off v) = 0"
  "m_offset (ice_demo_msg off v) = off" "m_value (ice_demo_msg off v) = Some v"
  "m_error (ice_demo_msg off v) = None" "is_record (ice_demo_msg off v)"
  by (simp_all add: ice_demo_msg_def is_record_def)

lemma ice_demo_partitions: "partitions_ok ice_demo_input ice_demo_parts"
  by (simp add: partitions_ok_def ice_demo_parts_def ice_demo_input_def ice_demo_log_def)

lemma ice_demo_laws: "table_laws ice_demo_api"
  by (simp add: ice_demo_api_def file_table_laws)

definition ice_demo_row :: payload where
  "ice_demo_row =
     [(''event_id'', PStr (event_id ''r'' REQUESTED)), (''ride_id'', PStr ''r''), (''event_type'', PStr ''requested''),
      (''event_ts'', PDatetime (dt_of_ms 0)), (''rider_id'', PStr ''u-1''), (''driver_id'', PNone),
      (''city_id'', PInt 1), (''pickup_lat'', PFloat 12), (''pickup_lon'', PFloat 77),
      (''dropoff_lat'', PNone), (''dropoff_lon'', PNone), (''fare_cents'', PNone),
      (''surge_multiplier'', PFloat 1), (''payload_version'', PInt 1), (''is_synthetic'', PBool True)]"

definition ice_demo_row_v2 :: payload where
  "ice_demo_row_v2 =
     [(''event_id'', PStr (event_id ''r'' COMPLETED)), (''ride_id'', PStr ''r''), (''event_type'', PStr ''completed''),
      (''event_ts'', PDatetime (dt_of_ms 1)), (''rider_id'', PStr ''u-1''), (''driver_id'', PNone),
      (''city_id'', PInt 1), (''pickup_lat'', PFloat 12), (''pickup_lon'', PFloat 77),
      (''dropoff_lat'', PFloat 13), (''dropoff_lon'', PFloat 78), (''fare_cents'', PInt 500),
      (''surge_multiplier'', PFloat 1), (''payload_version'', PInt 2), (''is_synthetic'', PBool True)]"

lemma ice_demo_rows:
  "arrow_row ice_demo_env False (sample_event ''r'' REQUESTED 0) = Inr ice_demo_row"
  "arrow_row ice_demo_env False ice_demo_v2 = Inr ice_demo_row_v2"
  by (simp_all add: ice_demo_row_def ice_demo_row_v2_def arrow_row_def str_item_def ts_item_def float_item_def
      payload_version_of_def sample_event_def ice_demo_v2_def ride_event_def Let_def d_item_def d_get_def)

lemma ice_demo_versions:
  "payload_version_of (sample_event ''r'' REQUESTED 0) = Inr 1" "payload_version_of ice_demo_v2 = Inr 2"
  "d_get (sample_event ''r'' REQUESTED 0) ''promo_code'' = PNone" "d_get ice_demo_v2 ''promo_code'' = PStr ''SAVE10''"
  by (simp_all add: payload_version_of_def sample_event_def ice_demo_v2_def ride_event_def Let_def d_get_def)

definition ice_demo_start :: "file_table ice_sink" where
  "ice_demo_start = new_ice_sink ice_demo_api ''iceberg-sink'' None (\<lambda>_. 0) 0"

text \<open>The process dies after the append of the first event, before the commit.\<close>

definition ice_demo_crash :: "ice_faults" where
  "ice_demo_crash c = (if c = CommitOffsets then Some (False, FDie) else None)"

lemma ice_demo_first:
  "\<exists>s. ice_cycle ice_demo_api ice_demo_env ice_demo_cfg (ice_demo_poll [ice_demo_msg 0 ''E''] ice_demo_crash)
      ice_demo_start = (Die, s)
    \<and> ik_table s = (map fst (arrow_schema False), [[ice_demo_row]]) \<and> ik_committed s = (\<lambda>_. 0)"
  by (simp add: ice_cycle_def ice_demo_poll_def ice_demo_start_def new_ice_sink_def Let_def ensure_table_def
      ice_demo_api_def file_table_api_def ingest_msg_def ice_demo_env_def should_flush_def ice_demo_cfg_def
      ice_flush_def should_evolve_def ICEBERG_SCHEMA_V1_def BASE_COLUMNS_def arrow_schema_def
      ice_demo_versions to_arrow_def append_then_commit_def ice_demo_crash_def
      ice_demo_rows [unfolded ice_demo_env_def])

lemma ice_demo_second:
  "\<exists>s. ice_cycle ice_demo_api ice_demo_env ice_demo_cfg (ice_demo_poll ice_demo_log (\<lambda>_. None))
      (new_ice_sink ice_demo_api ''iceberg-sink'' (Some (map fst (arrow_schema False), [[ice_demo_row]])) (\<lambda>_. 0) 0)
      = (Ret (), s)
    \<and> ik_table s = (map fst (arrow_schema True), [[ice_demo_row @ [(''promo_code'', PNone)]],
        [ice_demo_row @ [(''promo_code'', PNone)], ice_demo_row_v2 @ [(''promo_code'', PStr ''SAVE10'')]]])
    \<and> ik_committed s (RIDES_EVENTS, 0) = 3"
  by (simp add: ice_cycle_def ice_demo_poll_def new_ice_sink_def Let_def ensure_table_def ice_demo_log_def
      ice_demo_api_def file_table_api_def ingest_msg_def ice_demo_env_def should_flush_def ice_demo_cfg_def
      ice_flush_def should_evolve_def BASE_COLUMNS_def arrow_schema_def dlq_handle_eq advance_pos_def
      ice_demo_versions to_arrow_def append_then_commit_def ice_evolve_def arrow_row_True
      ice_demo_rows [unfolded ice_demo_env_def])

lemma ice_demo_deliverable:
  "deliverable ice_demo_input ice_demo_parts (\<lambda>_. 0) [ice_demo_msg 0 ''E'']"
  "deliverable ice_demo_input ice_demo_parts (\<lambda>_. 0) ice_demo_log"
  by (simp_all add: deliverable_def ice_demo_parts_def ice_demo_input_def ice_demo_log_def from_offset_def)

lemma ice_demo_reached:
  "\<exists>s. ice_demo_reaches \<lparr>is_sink = s, is_up = True\<rparr> \<and> ik_committed s (RIDES_EVENTS, 0) = 3
    \<and> table_rows ice_demo_api (ik_table s) = mset [ice_demo_row @ [(''promo_code'', PNone)],
        ice_demo_row @ [(''promo_code'', PNone)], ice_demo_row_v2 @ [(''promo_code'', PStr ''SAVE10'')]]"
proof -
  let ?step = "istep ice_demo_api ice_demo_env ice_demo_cfg ''iceberg-sink'' ice_demo_input ice_demo_parts"
  obtain s1 where s1: "ice_cycle ice_demo_api ice_demo_env ice_demo_cfg
      (ice_demo_poll [ice_demo_msg 0 ''E''] ice_demo_crash) ice_demo_start = (Die, s1)"
    "ik_table s1 = (map fst (arrow_schema False), [[ice_demo_row]])" "ik_committed s1 = (\<lambda>_. 0)"
    using ice_demo_first by blast
  have start: "ice_demo_reaches \<lparr>is_sink = ice_demo_start, is_up = True\<rparr>"
    using ireach_init [of ice_demo_api ice_demo_env ice_demo_cfg "''iceberg-sink''" ice_demo_input ice_demo_parts 0]
    by (simp add: isys_init_def ice_demo_start_def)
  have "?step \<lparr>is_sink = ice_demo_start, is_up = True\<rparr> \<lparr>is_sink = s1, is_up = False\<rparr>"
    by (rule i_fail [OF _ s1(1)])
      (simp_all add: ice_demo_start_def new_ice_sink_def Let_def ice_demo_poll_def ice_demo_deliverable)
  with start have crashed: "ice_demo_reaches \<lparr>is_sink = s1, is_up = False\<rparr>" by (rule ireach_step)
  let ?s2 = "new_ice_sink ice_demo_api ''iceberg-sink'' (Some (map fst (arrow_schema False), [[ice_demo_row]])) (\<lambda>_. 0) 0"
  have up: "ice_demo_reaches \<lparr>is_sink = ?s2, is_up = True\<rparr>"
    using ireach_step [OF crashed i_restart [of _ _ _ _ _ _ s1 0]] by (simp add: s1)
  obtain s3 where s3: "ice_cycle ice_demo_api ice_demo_env ice_demo_cfg (ice_demo_poll ice_demo_log (\<lambda>_. None)) ?s2 = (Ret (), s3)"
    "ik_table s3 = (map fst (arrow_schema True), [[ice_demo_row @ [(''promo_code'', PNone)]],
        [ice_demo_row @ [(''promo_code'', PNone)], ice_demo_row_v2 @ [(''promo_code'', PStr ''SAVE10'')]]])"
    "ik_committed s3 (RIDES_EVENTS, 0) = 3"
    using ice_demo_second by blast
  have "?step \<lparr>is_sink = ?s2, is_up = True\<rparr> \<lparr>is_sink = s3, is_up = True\<rparr>"
    by (rule i_cycle [OF _ s3(1)]) (simp add: new_ice_sink_def Let_def ice_demo_poll_def ice_demo_deliverable)
  with up have "ice_demo_reaches \<lparr>is_sink = s3, is_up = True\<rparr>" by (rule ireach_step)
  moreover have "table_rows ice_demo_api (ik_table s3) = mset [ice_demo_row @ [(''promo_code'', PNone)],
        ice_demo_row @ [(''promo_code'', PNone)], ice_demo_row_v2 @ [(''promo_code'', PStr ''SAVE10'')]]"
    by (simp add: s3(2) table_rows_def ice_demo_api_def file_table_api_def)
  ultimately show ?thesis using s3(3) by blast
qed

theorem iceberg_at_least_once_witness:
  "\<exists>s vs rows. ice_demo_reaches \<lparr>is_sink = s, is_up = True\<rparr> \<and> ik_committed s (RIDES_EVENTS, 0) = 3
    \<and> mset rows = table_rows ice_demo_api (ik_table s) \<and> list_all2 (written_as ice_demo_env) vs rows
    \<and> {# sample_event ''r'' REQUESTED 0, ice_demo_v2 #} \<subseteq># mset vs"
proof -
  obtain s where s: "ice_demo_reaches \<lparr>is_sink = s, is_up = True\<rparr>" "ik_committed s (RIDES_EVENTS, 0) = 3"
    using ice_demo_reached by blast
  have "committed_values ice_demo_env ice_demo_input ice_demo_parts (ik_committed s)
      = [sample_event ''r'' REQUESTED 0, ice_demo_v2]"
    using s(2) by (simp add: committed_values_def ice_demo_parts_def ice_demo_input_def ice_demo_log_def
        before_offset_def good_value_def ice_demo_env_def)
  with iceberg_at_least_once [OF ice_demo_laws ice_demo_partitions s(1)] s show ?thesis by auto
qed

text \<open>The duplicates the contract allows do occur: in a concrete run the process dies between the
  append of an event and the commit of its offset, the restarted sink consumes the event again, and
  the table holds its row twice; the row written before the schema evolved reads null in the new
  column, and the promo code of the version 2 event is kept.\<close>

theorem iceberg_crash_duplicates:
  "\<exists>s. ice_demo_reaches \<lparr>is_sink = s, is_up = True\<rparr>
    \<and> count (image_mset row_view (table_rows ice_demo_api (ik_table s)))
        (row_view (event_row ice_demo_env (sample_event ''r'' REQUESTED 0))) = 2
    \<and> count (image_mset row_view (table_rows ice_demo_api (ik_table s))) (row_view (event_row ice_demo_env ice_demo_v2)) = 1
    \<and> length (good_values ice_demo_env ice_demo_log) = 2"
proof -
  have rows: "event_row ice_demo_env (sample_event ''r'' REQUESTED 0) = ice_demo_row @ [(''promo_code'', PNone)]"
    "event_row ice_demo_env ice_demo_v2 = ice_demo_row_v2 @ [(''promo_code'', PStr ''SAVE10'')]"
    by (simp_all add: event_row_def arrow_row_True ice_demo_rows ice_demo_versions)
  have "row_view (ice_demo_row @ [(''promo_code'', PNone)])
      \<noteq> row_view (ice_demo_row_v2 @ [(''promo_code'', PStr ''SAVE10'')])"
    by (simp add: row_view_def ROW_COLUMNS_def arrow_schema_def ice_demo_row_def ice_demo_row_v2_def
        BASE_COLUMNS_def d_get_def)
  moreover have "length (good_values ice_demo_env ice_demo_log) = 2"
    by (simp add: ice_demo_log_def good_value_def ice_demo_env_def)
  ultimately show ?thesis using ice_demo_reached by (auto simp: rows)
qed


theorem iceberg_poison_not_committed_witness:
  "\<exists>s. ice_cycle ice_demo_api ice_demo_env ice_demo_cfg
      (ice_demo_poll [ice_demo_msg 1 ''POISON''] (\<lambda>_. None)) ice_demo_start = (Ret (), s)
    \<and> ik_poison_seen s = 1 \<and> ik_committed s = (\<lambda>_. 0)"
proof -
  have "\<exists>s. ice_cycle ice_demo_api ice_demo_env ice_demo_cfg
      (ice_demo_poll [ice_demo_msg 1 ''POISON''] (\<lambda>_. None)) ice_demo_start = (Ret (), s) \<and> ik_poison_seen s = 1"
    by (simp add: ice_cycle_def ice_demo_poll_def ice_demo_start_def new_ice_sink_def Let_def ingest_msg_def
        ice_demo_env_def should_flush_def ice_demo_cfg_def ice_flush_def dlq_handle_eq)
  then obtain s where s: "ice_cycle ice_demo_api ice_demo_env ice_demo_cfg
      (ice_demo_poll [ice_demo_msg 1 ''POISON''] (\<lambda>_. None)) ice_demo_start = (Ret (), s)" "ik_poison_seen s = 1"
    by blast
  have "good_values ice_demo_env [ice_demo_msg 1 ''POISON''] = []"
    by (simp add: good_value_def ice_demo_env_def)
  with iceberg_poison_not_committed [OF s(1)] s show ?thesis
    by (simp add: ice_demo_poll_def ice_demo_start_def new_ice_sink_def Let_def)
qed

end
