(* ===== verification/Compaction.thy ===== *)
theory Compaction
  imports Lakehouse Outcomes "HOL-Library.List_Lexorder" "HOL-Library.Char_ord" "HOL-Library.Product_Lexorder"
begin

text \<open>
  \<open>scripts/compact_iceberg.py\<close>: rewriting every partition of the lakehouse table that has more
  than \<open>min_files\<close> data files. The table is the \<open>table_api\<close> of \<open>Lakehouse\<close>; the overwrite of a
  partition may fail before or after its effect (\<open>faults\<close>, by partition). The state is the
  table in the catalog. Logging and the command line are left out.
\<close>

section \<open>The inventory\<close>

record part_stats =
  st_files :: int
  st_bytes :: int
  st_rows :: int

definition no_stats :: part_stats where
  "no_stats = \<lparr>st_files = 0, st_bytes = 0, st_rows = 0\<rparr>"

type_synonym inventory = "(string \<times> int, part_stats) dict"

definition stats_of :: "inventory \<Rightarrow> string \<times> int \<Rightarrow> part_stats" where
  "stats_of iv key = (case map_of iv key of None \<Rightarrow> no_stats | Some st \<Rightarrow> st)"

definition count_file :: "data_file \<Rightarrow> inventory \<Rightarrow> inventory" where
  "count_file row iv =
     (let key = (df_event_day row, df_city_id_part row); st = stats_of iv key
      in AList.update key
           (st\<lparr>st_files := st_files st + 1, st_bytes := st_bytes st + df_file_size_in_bytes row,
               st_rows := st_rows st + df_record_count row\<rparr>) iv)"

definition partition_inventory :: "'t table_api \<Rightarrow> 't \<Rightarrow> inventory" where
  "partition_inventory api t = fold count_file (ta_files api t) []"

section \<open>The filter of a partition\<close>

text \<open>
  \<open>datetime.fromisoformat\<close> on the text of a date, \<open>YYYY-MM-DD\<close>: the number of days after
  1970-01-01, counted over the proleptic Gregorian calendar.
\<close>

definition is_leap :: "int \<Rightarrow> bool" where
  "is_leap y \<longleftrightarrow> y mod 4 = 0 \<and> (y mod 100 \<noteq> 0 \<or> y mod 400 = 0)"

definition days_in_month :: "int \<Rightarrow> int \<Rightarrow> int" where
  "days_in_month y m =
     (if m = 2 then (if is_leap y then 29 else 28) else if m \<in> {4, 6, 9, 11} then 30 else 31)"

definition days_before_year :: "int \<Rightarrow> int" where
  "days_before_year y = (y - 1) * 365 + (y - 1) div 4 - (y - 1) div 100 + (y - 1) div 400"

definition days_before_month :: "int \<Rightarrow> int \<Rightarrow> int" where
  "days_before_month y m = (\<Sum>i\<leftarrow>[1..m - 1]. days_in_month y i)"

definition day_number :: "int \<Rightarrow> int \<Rightarrow> int \<Rightarrow> int" where
  "day_number y m d = days_before_year y + days_before_month y m + d - 1 - days_before_year 1970"

definition MAX_DAY :: int where
  "MAX_DAY = day_number 9999 12 31"

fun two_digits :: "char \<Rightarrow> char \<Rightarrow> int" where
  "two_digits a b = 10 * digit_value a + digit_value b"

definition parse_date :: "string \<Rightarrow> exn + int" where
  "parse_date s =
     (case s of
        [y1, y2, y3, y4, s1, m1, m2, s2, d1, d2] \<Rightarrow>
          (let y = 100 * two_digits y1 y2 + two_digits y3 y4; m = two_digits m1 m2; d = two_digits d1 d2 in
           if list_all is_digit [y1, y2, y3, y4, m1, m2, d1, d2] \<and> s1 = CHR ''-'' \<and> s2 = CHR ''-''
              \<and> 1 \<le> y \<and> 1 \<le> m \<and> m \<le> 12 \<and> 1 \<le> d \<and> d \<le> days_in_month y m
           then Inr (day_number y m d) else Inl (ValueError ''Invalid isoformat string''))
      | _ \<Rightarrow> Inl (ValueError ''Invalid isoformat string''))"

definition DAY_US :: int where
  "DAY_US = 86400 * 10 ^ 6"

fun ts_between :: "int \<Rightarrow> int \<Rightarrow> pyval \<Rightarrow> bool" where
  "ts_between lo hi (PDatetime us) = (lo \<le> us \<and> us < hi)"
| "ts_between lo hi _ = False"

definition day_filter :: "string \<Rightarrow> int \<Rightarrow> exn + (payload \<Rightarrow> bool)" where
  "day_filter day_iso city_id =
     rbind (parse_date day_iso) (\<lambda>day.
       if day = MAX_DAY then Inl (Exn ''OverflowError'' ''date value out of range'')
       else Inr (\<lambda>r. ts_between (day * DAY_US) ((day + 1) * DAY_US) (d_get r ''event_ts'')
                   \<and> d_get r ''city_id'' = PInt city_id))"

section \<open>Compaction\<close>

datatype detail =
    WouldRewrite (dt_partition: "string \<times> int") (dt_before: part_stats)
  | Rewritten (dt_partition: "string \<times> int") (dt_before: part_stats) (dt_after: part_stats)

record compaction_summary =
  partitions_total :: nat
  partitions_compacted :: nat
  files_before_total :: int
  files_after_total :: int
  cs_dry_run :: bool
  cs_details :: "detail list"

definition candidates :: "int \<Rightarrow> inventory \<Rightarrow> inventory" where
  "candidates min_files before = filter (\<lambda>(key, stats). st_files stats > min_files) before"

definition rewrite_partition :: "'t table_api \<Rightarrow> (string \<times> int \<Rightarrow> (bool \<times> fault) option)
    \<Rightarrow> (string \<times> int) \<times> part_stats \<Rightarrow> 't \<Rightarrow> detail out \<times> 't" where
  "rewrite_partition api faults cand t =
     (let (key, stats) = cand in
      case day_filter (fst key) (snd key) of
        Inl e \<Rightarrow> (Raise e, t)
      | Inr predicate \<Rightarrow>
          (let frame = ta_scan api predicate t in
           if int (length frame) \<noteq> st_rows stats then (Raise (RuntimeError ''refusing to overwrite''), t)
           else obind (attempt (faults key) (ta_overwrite api frame predicate) t) (\<lambda>_ t.
             (let after_part = stats_of (partition_inventory api t) key in
              if st_rows after_part \<noteq> st_rows stats then (Raise (RuntimeError ''row count changed''), t)
              else (Ret (Rewritten key stats after_part), t)))))"

fun compact_loop :: "'t table_api \<Rightarrow> (string \<times> int \<Rightarrow> (bool \<times> fault) option) \<Rightarrow> bool
    \<Rightarrow> ((string \<times> int) \<times> part_stats) list \<Rightarrow> 't \<Rightarrow> detail list out \<times> 't" where
  "compact_loop api faults dry_run [] t = (Ret [], t)"
| "compact_loop api faults dry_run (cand # rest) t =
     obind (if dry_run then (Ret (WouldRewrite (fst cand) (snd cand)), t)
            else rewrite_partition api faults cand t) (\<lambda>detail t.
     obind (compact_loop api faults dry_run rest t) (\<lambda>details t. (Ret (detail # details), t)))"

definition compact :: "'t table_api \<Rightarrow> (string \<times> int \<Rightarrow> (bool \<times> fault) option) \<Rightarrow> int \<Rightarrow> bool \<Rightarrow> 't
    \<Rightarrow> compaction_summary out \<times> 't" where
  "compact api faults min_files dry_run t =
     (let before = partition_inventory api t in
      obind (compact_loop api faults dry_run (sort_key fst (candidates min_files before)) t) (\<lambda>compacted t.
        (let after = partition_inventory api t in
         (Ret \<lparr>partitions_total = length before,
               partitions_compacted = length (filter (\<lambda>c. case c of Rewritten _ _ _ \<Rightarrow> True | _ \<Rightarrow> False) compacted),
               files_before_total = sum_list (map (st_files \<circ> snd) before),
               files_after_total = sum_list (map (st_files \<circ> snd) after),
               cs_dry_run = dry_run, cs_details = compacted\<rparr>, t))))"

section \<open>Nothing is lost\<close>

lemma overwrite_own_rows:
  assumes "table_laws api"
  shows "table_rows api (ta_overwrite api (ta_scan api P t) P t) = table_rows api t"
  using table_lawsD(8,9) [OF assms] by (metis add.commute multiset_partition)

lemma rewrite_partition_rows:
  assumes "table_laws api" "rewrite_partition api faults cand t = (r, t')"
  shows "table_rows api t' = table_rows api t"
proof -
  obtain key stats where c: "cand = (key, stats)" by (cases cand)
  show ?thesis
  proof (cases "day_filter (fst key) (snd key)")
    case (Inl e)
    with assms(2) show ?thesis by (simp add: rewrite_partition_def c)
  next
    case (Inr P)
    let ?m = "attempt (faults key) (ta_overwrite api (ta_scan api P t) P) t"
    have keep: "table_rows api t1 = table_rows api t" if "?m = (r1, t1)" for r1 t1
      using that overwrite_own_rows [OF assms(1), of P t] by (auto elim!: attempt_cases)
    show ?thesis
    proof (cases "int (length (ta_scan api P t)) = st_rows stats")
      case True
      with assms(2) Inr have "obind ?m (\<lambda>_ t.
           (let after_part = stats_of (partition_inventory api t) key in
            if st_rows after_part \<noteq> st_rows stats then (Raise (RuntimeError ''row count changed''), t)
            else (Ret (Rewritten key stats after_part), t))) = (r, t')"
        by (simp add: rewrite_partition_def c)
      then show ?thesis
        using keep by (auto simp: Let_def split: if_splits elim!: obind_cases)
    next
      case False
      with assms(2) Inr show ?thesis by (simp add: rewrite_partition_def c)
    qed
  qed
qed

lemma compact_loop_rows:
  assumes "table_laws api" "compact_loop api faults dry_run cands t = (r, t')"
  shows "table_rows api t' = table_rows api t"
  using assms(2)
proof (induction cands arbitrary: t r)
  case (Cons cand cands)
  from Cons.prems [unfolded compact_loop.simps] show ?case
  proof (cases rule: obind_cases)
    case (stop r')
    then show ?thesis using rewrite_partition_rows [OF assms(1)] by (auto split: if_splits)
  next
    case (go d t1)
    have "table_rows api t1 = table_rows api t"
      using go(1) rewrite_partition_rows [OF assms(1)] by (auto split: if_splits)
    moreover from go(2) have "\<exists>r1. compact_loop api faults dry_run cands t1 = (r1, t')"
      by (cases rule: obind_cases) auto
    ultimately show ?thesis using Cons.IH by auto
  qed
qed simp

text \<open>C25: Compaction loses and duplicates nothing: whatever it does (completes, refuses a partition,
  finds a changed count, fails at or after an overwrite, dies), the table has exactly the rows it had.\<close>

theorem compaction_preserves_rows:
  assumes "table_laws api" "compact api faults min_files dry_run t = (r, t')"
  shows "table_rows api t' = table_rows api t"
  using assms(2) [unfolded compact_def Let_def]
  by (cases rule: obind_cases) (auto dest: compact_loop_rows [OF assms(1)])

text \<open>A dry run always completes, touches nothing and lists exactly the partitions a real run
  would rewrite, in order.\<close>

theorem compaction_dry_run:
  "\<exists>summary. compact api faults min_files True t = (Ret summary, t)
    \<and> cs_details summary = map (\<lambda>(key, stats). WouldRewrite key stats)
        (sort_key fst (candidates min_files (partition_inventory api t)))
    \<and> partitions_compacted summary = 0
    \<and> files_after_total summary = files_before_total summary"
proof -
  have loop: "compact_loop api faults True cands t = (Ret (map (\<lambda>(key, stats). WouldRewrite key stats) cands), t)" for cands
    by (induction cands) auto
  have none: "filter (\<lambda>c. case c of Rewritten _ _ _ \<Rightarrow> True | _ \<Rightarrow> False)
      (map (\<lambda>(key, stats). WouldRewrite key stats) cands) = []" for cands
    by (induction cands) auto
  show ?thesis by (simp add: compact_def Let_def loop none)
qed

section \<open>It completes\<close>

lemma inventory_ok: "dict_ok (partition_inventory api t)"
proof -
  have "dict_ok iv \<Longrightarrow> dict_ok (fold count_file fs iv)" for fs and iv :: inventory
    by (induction fs arbitrary: iv) (simp_all add: count_file_def Let_def dict_update_ok)
  then show ?thesis by (simp add: partition_inventory_def)
qed

text \<open>The row count of a partition in the inventory is the sum over its files.\<close>

definition file_key :: "data_file \<Rightarrow> string \<times> int" where
  "file_key f = (df_event_day f, df_city_id_part f)"

lemma inventory_rows:
  "st_rows (stats_of (partition_inventory api t) k)
     = sum_list (map df_record_count (filter (\<lambda>f. file_key f = k) (ta_files api t)))"
proof -
  have "st_rows (stats_of (fold count_file fs iv) k)
      = st_rows (stats_of iv k) + sum_list (map df_record_count (filter (\<lambda>f. file_key f = k) fs))" for fs iv
  proof (induction fs arbitrary: iv)
    case (Cons f fs)
    have "st_rows (stats_of (count_file f iv) k)
        = st_rows (stats_of iv k) + (if file_key f = k then df_record_count f else 0)"
      by (auto simp: count_file_def Let_def stats_of_def file_key_def)
    with Cons.IH show ?case by simp
  qed simp
  from this [of "ta_files api t" "[]"] show ?thesis
    by (simp add: partition_inventory_def stats_of_def no_stats_def)
qed

text \<open>
  What Iceberg's metadata promises, for the partitions \<open>K\<close> of a table and the states \<open>sound\<close> it goes
  through: the files of a partition hold exactly the rows its filter selects, also after the
  partition is overwritten with its own rows.
\<close>

definition metadata_law :: "'t table_api \<Rightarrow> (string \<times> int) set \<Rightarrow> ('t \<Rightarrow> bool) \<Rightarrow> bool" where
  "metadata_law api K sound \<longleftrightarrow>
     (\<forall>t. sound t \<longrightarrow> (\<forall>k \<in> K. \<exists>P. day_filter (fst k) (snd k) = Inr P
        \<and> sum_list (map df_record_count (filter (\<lambda>f. file_key f = k) (ta_files api t)))
            = int (size (filter_mset P (table_rows api t)))
        \<and> sound (ta_overwrite api (ta_scan api P t) P t)))"

lemma rewrite_partition_completes:
  assumes laws: "table_laws api" "metadata_law api K sound" and "sound t" "k \<in> K"
    and st: "\<And>P. day_filter (fst k) (snd k) = Inr P \<Longrightarrow> st_rows stats = int (size (filter_mset P (table_rows api t)))"
  shows "\<exists>after t'. rewrite_partition api (\<lambda>_. None) (k, stats) t = (Ret (Rewritten k stats after), t')
    \<and> st_rows after = st_rows stats \<and> sound t' \<and> table_rows api t' = table_rows api t"
proof -
  from assms(2-4) obtain P where P: "day_filter (fst k) (snd k) = Inr P"
    "sound (ta_overwrite api (ta_scan api P t) P t)"
    unfolding metadata_law_def by blast
  let ?t = "ta_overwrite api (ta_scan api P t) P t"
  from laws(2) P(2) assms(4) obtain Q where Q: "day_filter (fst k) (snd k) = Inr Q"
    "sum_list (map df_record_count (filter (\<lambda>f. file_key f = k) (ta_files api ?t)))
       = int (size (filter_mset Q (table_rows api ?t)))"
    unfolding metadata_law_def by blast
  have same: "table_rows api ?t = table_rows api t" by (rule overwrite_own_rows [OF laws(1)])
  have "size (mset (ta_scan api P t)) = size (filter_mset P (table_rows api t))"
    using table_lawsD(8) [OF laws(1)] by simp
  then have "int (length (ta_scan api P t)) = st_rows stats" using st [OF P(1)] by simp
  moreover have "st_rows (stats_of (partition_inventory api ?t) k) = st_rows stats"
    using st [OF Q(1)] Q(2) same by (simp add: inventory_rows)
  ultimately show ?thesis
    using P same by (simp add: rewrite_partition_def)
qed

lemma compact_loop_completes:
  assumes laws: "table_laws api" "metadata_law api K sound"
  shows "sound t \<Longrightarrow> fst ` set cands \<subseteq> K \<Longrightarrow>
    (\<forall>(k, stats) \<in> set cands. \<forall>P. day_filter (fst k) (snd k) = Inr P \<longrightarrow>
        st_rows stats = int (size (filter_mset P (table_rows api t)))) \<Longrightarrow>
    \<exists>ds t'. compact_loop api (\<lambda>_. None) False cands t = (Ret ds, t') \<and> map dt_partition ds = map fst cands
      \<and> map dt_before ds = map snd cands
      \<and> list_all (\<lambda>d. \<exists>k b a. d = Rewritten k b a \<and> st_rows a = st_rows b) ds"
proof (induction cands arbitrary: t)
  case (Cons cand cands)
  obtain k stats where c: "cand = (k, stats)" by (cases cand)
  obtain after t1 where o: "rewrite_partition api (\<lambda>_. None) (k, stats) t = (Ret (Rewritten k stats after), t1)"
    "st_rows after = st_rows stats" "sound t1" "table_rows api t1 = table_rows api t"
    using rewrite_partition_completes [OF laws Cons.prems(1), of k stats] Cons.prems(2,3) by (auto simp: c)
  from Cons.IH [OF o(3)] Cons.prems(2,3) o(4) obtain ds t' where
    "compact_loop api (\<lambda>_. None) False cands t1 = (Ret ds, t')" "map dt_partition ds = map fst cands"
    "map dt_before ds = map snd cands"
    "list_all (\<lambda>d. \<exists>k b a. d = Rewritten k b a \<and> st_rows a = st_rows b) ds"
    by auto
  with o(1,2) show ?case by (simp add: c)
qed simp

text \<open>C26: When the metadata describes the table and no overwrite fails, compaction completes: it
  rewrites exactly the partitions with more than \<open>min_files\<close> files, in the order of their keys, each
  with the row count it had.\<close>

theorem compaction_completes:
  assumes "table_laws api" "metadata_law api K sound" "sound t" "fst ` set (partition_inventory api t) \<subseteq> K"
  shows "\<exists>summary t'. compact api (\<lambda>_. None) min_files False t = (Ret summary, t')
    \<and> map dt_partition (cs_details summary) = sort (map fst (candidates min_files (partition_inventory api t)))
    \<and> partitions_compacted summary = length (candidates min_files (partition_inventory api t))
    \<and> list_all (\<lambda>d. st_rows (dt_after d) = st_rows (dt_before d)) (cs_details summary)"
proof -
  let ?inv = "partition_inventory api t" and ?c = "sort_key fst (candidates min_files (partition_inventory api t))"
  have set: "set ?c \<subseteq> set ?inv" by (auto simp: candidates_def)
  then have K: "fst ` set ?c \<subseteq> K" using assms(4) by blast
  have st: "\<forall>(k, stats) \<in> set ?c. \<forall>P. day_filter (fst k) (snd k) = Inr P \<longrightarrow>
      st_rows stats = int (size (filter_mset P (table_rows api t)))"
  proof (clarify)
    fix d c stats P assume in_c: "((d, c), stats) \<in> set ?c" and P: "day_filter (fst (d, c)) (snd (d, c)) = Inr P"
    from in_c have "((d, c), stats) \<in> set ?inv" using set by blast
    then have "map_of ?inv (d, c) = Some stats" using inventory_ok [of api t] by simp
    then have "stats_of ?inv (d, c) = stats" by (simp add: stats_of_def del: map_of_eq_Some_iff)
    moreover have "(d, c) \<in> K" using in_c K by force
    with assms(2,3) P have "sum_list (map df_record_count (filter (\<lambda>f. file_key f = (d, c)) (ta_files api t)))
        = int (size (filter_mset P (table_rows api t)))"
      unfolding metadata_law_def by fastforce
    ultimately show "st_rows stats = int (size (filter_mset P (table_rows api t)))"
      using inventory_rows [of api t "(d, c)"] by simp
  qed
  from compact_loop_completes [OF assms(1,2,3) K st] obtain ds t' where
    o: "compact_loop api (\<lambda>_. None) False ?c t = (Ret ds, t')" "map dt_partition ds = map fst ?c"
    "list_all (\<lambda>d. \<exists>k b a. d = Rewritten k b a \<and> st_rows a = st_rows b) ds" by blast
  have "filter (\<lambda>c. case c of Rewritten _ _ _ \<Rightarrow> True | _ \<Rightarrow> False) ds = ds"
    using o(3) by (auto simp: list_all_iff filter_id_conv split: detail.split)
  moreover have "length ds = length ?c" using arg_cong [OF o(2), of length] by simp
  moreover have "map fst ?c = sort (map fst (candidates min_files ?inv))"
    by (rule properties_for_sort [symmetric]) simp_all
  moreover have "list_all (\<lambda>d. st_rows (dt_after d) = st_rows (dt_before d)) ds"
    using o(3) by (auto simp: list_all_iff)
  ultimately show ?thesis using o(1,2) by (simp add: compact_def Let_def)
qed

section \<open>A concrete table\<close>

text \<open>Three files of one partition, of one, two and one rows.\<close>

definition comp_demo_row :: payload where
  "comp_demo_row = [(''event_ts'', PDatetime (20454 * DAY_US)), (''city_id'', PInt 3)]"

definition comp_demo_api :: "file_table table_api" where
  "comp_demo_api = file_table_api (\<lambda>_. ''2026-01-01'')"

definition comp_demo_table :: file_table where
  "comp_demo_table = ([], [[comp_demo_row], [comp_demo_row, comp_demo_row], [comp_demo_row]])"

definition comp_demo_sound :: "file_table \<Rightarrow> bool" where
  "comp_demo_sound t \<longleftrightarrow> list_all (list_all (\<lambda>r. r = comp_demo_row)) (snd t)"

lemma comp_demo_filter:
  "\<exists>P. day_filter ''2026-01-01'' 3 = Inr P \<and> P comp_demo_row"
proof -
  have "parse_date ''2026-01-01'' = Inr 20454"
    by (simp add: parse_date_def Let_def is_digit_def digit_value_def day_number_def days_before_year_def
        days_before_month_def days_in_month_def)
  then show ?thesis
    by (simp add: day_filter_def MAX_DAY_def day_number_def days_before_year_def days_before_month_def
        days_in_month_def is_leap_def upto.simps comp_demo_row_def d_get_def DAY_US_def)
qed

lemma comp_demo_metadata: "metadata_law comp_demo_api {(''2026-01-01'', 3)} comp_demo_sound"
proof -
  obtain P where P: "day_filter ''2026-01-01'' 3 = Inr P" "P comp_demo_row" using comp_demo_filter by blast
  have rows: "filter P f = f" "filter (\<lambda>r. \<not> P r) f = []" if "list_all (\<lambda>r. r = comp_demo_row) f" for f
    using that P(2) by (auto simp: list_all_iff filter_id_conv filter_empty_conv)
  have files: "sum_list (map df_record_count (filter (\<lambda>f. file_key f = (''2026-01-01'', 3)) (ta_files comp_demo_api (cs, fs))))
      = int (length (filter P (concat fs)))" if "list_all (list_all (\<lambda>r. r = comp_demo_row)) fs" for cs fs
    using that
  proof (induction fs)
    case (Cons f fs)
    then have "f \<noteq> [] \<Longrightarrow> row_city (hd f) = 3"
      by (cases f) (auto simp: row_city_def comp_demo_row_def d_get_def)
    moreover have "filter P f = f" using Cons.prems rows(1) by simp
    ultimately show ?case
      using Cons by (cases "f = []") (simp_all add: comp_demo_api_def file_table_api_def file_key_def)
  qed (simp add: comp_demo_api_def file_table_api_def)
  have scan: "size (filter_mset P (table_rows comp_demo_api t)) = length (filter P (concat (snd t)))" for t
    by (cases t) (simp add: comp_demo_api_def file_table_api_def table_rows_def flip: mset_filter)
  show ?thesis
    unfolding metadata_law_def
  proof (intro allI impI ballI)
    fix t :: file_table and k :: "string \<times> int"
    assume t: "comp_demo_sound t" and k: "k \<in> {(''2026-01-01'', 3)}"
    obtain cs fs where tt: "t = (cs, fs)" by (cases t)
    from t have fs: "list_all (list_all (\<lambda>r. r = comp_demo_row)) fs" by (simp add: comp_demo_sound_def tt)
    have "comp_demo_sound (ta_overwrite comp_demo_api (ta_scan comp_demo_api P t) P t)"
      using fs by (auto simp: comp_demo_sound_def comp_demo_api_def file_table_api_def tt list_all_iff)
    moreover have "sum_list (map df_record_count (filter (\<lambda>f. file_key f = (''2026-01-01'', 3)) (ta_files comp_demo_api t)))
        = int (size (filter_mset P (table_rows comp_demo_api t)))"
      using files [OF fs, of cs] scan [of t] by (simp add: tt)
    ultimately show "\<exists>P. day_filter (fst k) (snd k) = Inr P
        \<and> sum_list (map df_record_count (filter (\<lambda>f. file_key f = k) (ta_files comp_demo_api t)))
            = int (size (filter_mset P (table_rows comp_demo_api t)))
        \<and> comp_demo_sound (ta_overwrite comp_demo_api (ta_scan comp_demo_api P t) P t)"
      using P(1) k by auto
  qed
qed

lemma comp_demo_inventory:
  "partition_inventory comp_demo_api comp_demo_table
     = [((''2026-01-01'', 3), \<lparr>st_files = 3, st_bytes = 340, st_rows = 4\<rparr>)]"
  by (simp add: partition_inventory_def comp_demo_api_def comp_demo_table_def file_table_api_def count_file_def
      Let_def stats_of_def no_stats_def row_city_def comp_demo_row_def d_get_def)

theorem compaction_completes_witness:
  "\<exists>summary t'. compact comp_demo_api (\<lambda>_. None) 2 False comp_demo_table = (Ret summary, t')
    \<and> map dt_partition (cs_details summary) = [(''2026-01-01'', 3)] \<and> partitions_compacted summary = 1"
proof -
  have "comp_demo_sound comp_demo_table" by (simp add: comp_demo_sound_def comp_demo_table_def)
  from compaction_completes [OF _ comp_demo_metadata this, of 2] show ?thesis
    by (simp add: comp_demo_api_def [symmetric] comp_demo_inventory candidates_def)
      (auto simp: comp_demo_api_def file_table_laws)
qed

theorem compaction_preserves_rows_witness:
  "table_rows comp_demo_api (snd (compact comp_demo_api (\<lambda>_. Some (True, FDie)) 2 False comp_demo_table))
     = mset (replicate 4 comp_demo_row)"
proof -
  let ?c = "compact comp_demo_api (\<lambda>_. Some (True, FDie)) 2 False comp_demo_table"
  have "table_rows comp_demo_api (snd ?c) = table_rows comp_demo_api comp_demo_table"
    by (rule compaction_preserves_rows [OF _ prod.collapse [symmetric]]) (simp add: comp_demo_api_def file_table_laws)
  also have "\<dots> = mset (replicate 4 comp_demo_row)"
    by (simp add: table_rows_def comp_demo_api_def comp_demo_table_def file_table_api_def eval_nat_numeral)
  finally show ?thesis .
qed

end
