(* ===== verification/Quality_Gates.thy ===== *)
theory Quality_Gates
  imports Json
begin

text \<open>
  \<open>quality/suites.py\<close> and \<open>quality/runner.py\<close>: the two suites, the rolling row-count baseline
  and the runner that records every result. Great Expectations is a parameter: \<open>gx_validate\<close>
  answers a suite with its list of results. The state is \<open>serving.dq_results\<close> in insertion
  order; \<open>run_at\<close> is the start of the inserting transaction and grows with it, so
  \<open>ORDER BY run_at DESC\<close> reads the rows backwards. Gauges and logging are left out.
\<close>

section \<open>The suites\<close>

definition RIDE_EVENT_COLUMNS :: "string list" where
  "RIDE_EVENT_COLUMNS =
     [''ride_id'', ''event_seq'', ''event_id'', ''event_type'', ''event_ts'', ''rider_id'', ''driver_id'',
      ''city_id'', ''pickup_lat'', ''pickup_lon'', ''dropoff_lat'', ''dropoff_lon'', ''fare_cents'',
      ''surge_multiplier'', ''payload_version'', ''promo_code'', ''kafka_partition'', ''kafka_offset'',
      ''ingested_at'']"

definition EVENT_TYPES :: "string list" where
  "EVENT_TYPES = [''requested'', ''matched'', ''driver_arrived'', ''started'', ''completed'', ''cancelled'']"

definition CITY_IDS :: "int list" where
  "CITY_IDS = [1, 2, 3, 4, 5]"

definition LAT_BOUNDS :: "real \<times> real" where
  "LAT_BOUNDS = (8, 32)"

definition LON_BOUNDS :: "real \<times> real" where
  "LON_BOUNDS = (68, 92)"

datatype expectation =
    ColumnsMatchSet "string list" bool
  | NotBeNull string
  | BeInSet string "pyval list"
  | BeBetween string "real option" "real option"
  | BeUnique string
  | RowCountBetween int "int option"
  | ColumnMaxFrom string int

definition raw_rides_events_expectations :: "expectation list" where
  "raw_rides_events_expectations =
     [ColumnsMatchSet RIDE_EVENT_COLUMNS True,
      NotBeNull ''ride_id'', NotBeNull ''event_id'', NotBeNull ''event_type'', NotBeNull ''event_ts'',
      NotBeNull ''rider_id'', NotBeNull ''city_id'',
      BeInSet ''event_type'' (map PStr EVENT_TYPES),
      BeInSet ''city_id'' (map PInt CITY_IDS),
      BeBetween ''pickup_lat'' (Some (fst LAT_BOUNDS)) (Some (snd LAT_BOUNDS)),
      BeBetween ''pickup_lon'' (Some (fst LON_BOUNDS)) (Some (snd LON_BOUNDS)),
      BeBetween ''dropoff_lat'' (Some (fst LAT_BOUNDS)) (Some (snd LAT_BOUNDS)),
      BeBetween ''dropoff_lon'' (Some (fst LON_BOUNDS)) (Some (snd LON_BOUNDS)),
      BeBetween ''fare_cents'' (Some 0) None,
      BeBetween ''surge_multiplier'' (Some 1) (Some 3),
      BeInSet ''payload_version'' [PInt 1, PInt 2]]"

text \<open>\<open>int(median(xs))\<close>: the middle element, or the mean of the two middle ones truncated.\<close>

definition int_median :: "int list \<Rightarrow> int" where
  "int_median xs =
     (let s = sort xs; n = length xs in
      if n mod 2 = 1 then s ! (n div 2)
      else let t = s ! (n div 2 - 1) + s ! (n div 2) in if t \<ge> 0 then t div 2 else - ((- t) div 2))"

definition rowcount_bounds :: "int list \<Rightarrow> int \<times> int option" where
  "rowcount_bounds history =
     (if history = [] then (0, None)
      else let floor = Max (set history);
               recent = drop (length history - 10) history;
               ceiling = int_median recent * 4 + 1000
           in (floor, Some (max ceiling (floor + 1000))))"

definition MINUTE_US :: int where
  "MINUTE_US = 60 * 10 ^ 6"

definition fct_rides_expectations :: "int list \<Rightarrow> int \<Rightarrow> int \<Rightarrow> expectation list" where
  "fct_rides_expectations history freshness_minutes now =
     (let (floor, ceiling) = rowcount_bounds history in
      [BeUnique ''ride_id'', NotBeNull ''ride_id'', NotBeNull ''terminal_state'', NotBeNull ''requested_at'',
       BeInSet ''terminal_state'' [PStr ''completed'', PStr ''cancelled'', PStr ''abandoned''],
       RowCountBetween floor ceiling,
       ColumnMaxFrom ''ingested_at'' (now - freshness_minutes * MINUTE_US)])"

section \<open>The runner\<close>

text \<open>An observed value: a JSON scalar, or a structure by the text \<open>json.dumps\<close> gives it.\<close>

datatype observed = Scalar pyval | Structured string

record gx_result =
  gr_type :: string
  gr_column :: "string option"
  gr_success :: bool
  gr_element_count :: "int option"
  gr_unexpected_count :: "int option"
  gr_observed :: "observed option"

record gx_env =
  gx_validate :: "string \<Rightarrow> expectation list \<Rightarrow> exn + gx_result list"
  gx_render :: "pyval \<Rightarrow> string"
  gx_parse_float :: "string \<Rightarrow> real"

record dq_row =
  dq_run_id :: string
  dq_suite :: string
  dq_expectation :: string
  dq_column_name :: "string option"
  dq_success :: bool
  dq_element_count :: "int option"
  dq_unexpected_count :: "int option"
  dq_observed :: "string option"
  dq_mode :: string

record SuiteOutcome =
  so_suite :: string
  so_passed :: nat
  so_failed :: nat
  so_rows :: "dq_row list"

definition pass_rate :: "SuiteOutcome \<Rightarrow> real" where
  "pass_rate outcome =
     (let total = so_passed outcome + so_failed outcome in if total = 0 then 1 else so_passed outcome / total)"

fun dumps_observed :: "(pyval \<Rightarrow> string) \<Rightarrow> observed \<Rightarrow> string" where
  "dumps_observed render (Scalar v) = json_value render v"
| "dumps_observed render (Structured text) = text"

definition result_row :: "(pyval \<Rightarrow> string) \<Rightarrow> string \<Rightarrow> string \<Rightarrow> string \<Rightarrow> gx_result \<Rightarrow> dq_row" where
  "result_row render run_id suite_name mode r =
     \<lparr>dq_run_id = run_id, dq_suite = suite_name, dq_expectation = gr_type r, dq_column_name = gr_column r,
      dq_success = gr_success r, dq_element_count = gr_element_count r,
      dq_unexpected_count = gr_unexpected_count r,
      dq_observed = map_option (dumps_observed render) (gr_observed r), dq_mode = mode\<rparr>"

definition result_rows :: "(pyval \<Rightarrow> string) \<Rightarrow> string \<Rightarrow> string \<Rightarrow> string \<Rightarrow> gx_result list \<Rightarrow> dq_row list" where
  "result_rows render run_id suite_name mode results = map (result_row render run_id suite_name mode) results"

definition ROW_COUNT_TYPE :: string where
  "ROW_COUNT_TYPE = ''expect_table_row_count_to_be_between''"

text \<open>\<open>int(json.loads(observed))\<close>; a ValueError or TypeError skips the row.\<close>

definition int_of_observed :: "(string \<Rightarrow> real) \<Rightarrow> string \<Rightarrow> int option" where
  "int_of_observed pf s =
     (case json_loads pf s of
        Inr (JScalar v) \<Rightarrow> (case py_int v of Inr n \<Rightarrow> Some n | Inl _ \<Rightarrow> None)
      | _ \<Rightarrow> None)"

definition observed_counts :: "string \<Rightarrow> dq_row list \<Rightarrow> string list" where
  "observed_counts suite db =
     List.map_filter (\<lambda>r. if dq_suite r = suite \<and> dq_expectation r = ROW_COUNT_TYPE then dq_observed r else None) db"

definition rowcount_history :: "(string \<Rightarrow> real) \<Rightarrow> string \<Rightarrow> dq_row list \<Rightarrow> int list" where
  "rowcount_history pf suite db =
     (let fetched = take 10 (rev (observed_counts suite db))
      in rev (List.map_filter (int_of_observed pf) fetched))"

definition persist :: "SuiteOutcome \<Rightarrow> dq_row list \<Rightarrow> dq_row list" where
  "persist outcome db = db @ so_rows outcome"

definition suite_outcome :: "string \<Rightarrow> dq_row list \<Rightarrow> SuiteOutcome" where
  "suite_outcome suite_name rows =
     (let passed = length (filter dq_success rows)
      in \<lparr>so_suite = suite_name, so_passed = passed, so_failed = length rows - passed, so_rows = rows\<rparr>)"

text \<open>The loop over the suites: an outcome is persisted before the next suite is validated.\<close>

fun run_suites :: "gx_env \<Rightarrow> string \<Rightarrow> string \<Rightarrow> (string \<times> expectation list) list \<Rightarrow> dq_row list
    \<Rightarrow> (exn + SuiteOutcome list) \<times> dq_row list" where
  "run_suites env mode run_id [] db = (Inr [], db)"
| "run_suites env mode run_id ((suite_name, expectations) # specs) db =
     (case gx_validate env suite_name expectations of
        Inl e \<Rightarrow> (Inl e, db)
      | Inr results \<Rightarrow>
          (let outcome = suite_outcome suite_name (result_rows (gx_render env) run_id suite_name mode results)
           in case run_suites env mode run_id specs (persist outcome db) of
                (Inl e, db) \<Rightarrow> (Inl e, db)
              | (Inr outcomes, db) \<Rightarrow> (Inr (outcome # outcomes), db)))"

definition run_once :: "gx_env \<Rightarrow> string \<Rightarrow> int \<Rightarrow> string \<Rightarrow> int \<Rightarrow> dq_row list
    \<Rightarrow> (exn + SuiteOutcome list) \<times> dq_row list" where
  "run_once env mode freshness_minutes run_id now db =
     run_suites env mode run_id
       [(''raw_rides_events'', raw_rides_events_expectations),
        (''fct_rides'', fct_rides_expectations
           (rowcount_history (gx_parse_float env) ''fct_rides'' db) freshness_minutes now)] db"

text \<open>\<open>main\<close> over its runs, each with what the libraries answer, its id and clock; the result is the
  exit code, \<open>None\<close> while it loops.\<close>

fun dq_main :: "string \<Rightarrow> real \<Rightarrow> int \<Rightarrow> (gx_env \<times> string \<times> int) list \<Rightarrow> dq_row list
    \<Rightarrow> (exn + int) option \<times> dq_row list" where
  "dq_main mode interval freshness_minutes [] db = (None, db)"
| "dq_main mode interval freshness_minutes ((env, run_id, now) # runs) db =
     (case run_once env mode freshness_minutes run_id now db of
        (Inl e, db) \<Rightarrow> (Some (Inl e), db)
      | (Inr outcomes, db) \<Rightarrow>
          (let failed = sum_list (map so_failed outcomes) in
           if interval \<le> 0 then (Some (Inr (if failed \<noteq> 0 \<and> mode = ''fail'' then 2 else 0)), db)
           else dq_main mode interval freshness_minutes runs db))"

section \<open>The bounds\<close>

lemma int_median_nonneg:
  assumes "\<forall>x \<in> set xs. 0 \<le> x" "xs \<noteq> []"
  shows "0 \<le> int_median xs"
proof -
  have nth: "0 \<le> sort xs ! i" if "i < length xs" for i
    using assms(1) nth_mem [of i "sort xs"] that by simp
  show ?thesis
  proof (cases "length xs mod 2 = 1")
    case True
    have "length xs div 2 < length xs" using assms(2) by (cases xs) auto
    with True nth show ?thesis by (simp add: int_median_def Let_def)
  next
    case False
    then have "length xs div 2 - 1 < length xs" "length xs div 2 < length xs"
      using assms(2) by (cases xs; simp; linarith)+
    with nth have "0 \<le> sort xs ! (length xs div 2 - 1) + sort xs ! (length xs div 2)"
      by (intro add_nonneg_nonneg) simp_all
    with False show ?thesis by (simp add: int_median_def Let_def)
  qed
qed

text \<open>The row-count gate learns from its history: with none it accepts every table. With some
  it accepts a table that has kept the largest observed count or grown by up to 1000 rows, and
  rejects every table with fewer rows than some observed count.\<close>

theorem rowcount_bounds_gate:
  "rowcount_bounds [] = (0, None)
   \<and> (history \<noteq> [] \<longrightarrow> (\<exists>floor ceiling. rowcount_bounds history = (floor, Some ceiling)
        \<and> floor \<in> set history \<and> (\<forall>c \<in> set history. c \<le> floor)
        \<and> (\<forall>n. floor \<le> n \<and> n \<le> floor + 1000 \<longrightarrow> floor \<le> n \<and> n \<le> ceiling)
        \<and> (\<forall>n. (\<exists>c \<in> set history. n < c) \<longrightarrow> \<not> floor \<le> n)))"
proof (intro conjI impI)
  assume ne: "history \<noteq> []"
  let ?c = "max (int_median (drop (length history - 10) history) * 4 + 1000) (Max (set history) + 1000)"
  have "rowcount_bounds history = (Max (set history), Some ?c)"
    using ne by (simp add: rowcount_bounds_def Let_def)
  moreover have "Max (set history) \<in> set history" "\<forall>c \<in> set history. c \<le> Max (set history)"
    using ne by simp_all
  ultimately show "\<exists>floor ceiling. rowcount_bounds history = (floor, Some ceiling)
        \<and> floor \<in> set history \<and> (\<forall>c \<in> set history. c \<le> floor)
        \<and> (\<forall>n. floor \<le> n \<and> n \<le> floor + 1000 \<longrightarrow> floor \<le> n \<and> n \<le> ceiling)
        \<and> (\<forall>n. (\<exists>c \<in> set history. n < c) \<longrightarrow> \<not> floor \<le> n)"
    by (intro exI [of _ "Max (set history)"] exI [of _ ?c]) fastforce
qed (simp add: rowcount_bounds_def)

text \<open>The witness: a young table of 400 rows, then 950, 1000.\<close>

theorem rowcount_bounds_gate_witness:
  "\<exists>ceiling. rowcount_bounds [400, 950, 1000] = (1000, Some ceiling) \<and> 2000 \<le> ceiling"
proof -
  from rowcount_bounds_gate [of "[400, 950, 1000]"] obtain fl ceiling where
    g: "rowcount_bounds [400, 950, 1000] = (fl, Some ceiling)" "fl \<in> {400, 950, 1000}"
    "\<forall>c \<in> {400, 950, 1000}. c \<le> fl" "\<forall>n. fl \<le> n \<and> n \<le> fl + 1000 \<longrightarrow> fl \<le> n \<and> n \<le> ceiling"
    by auto
  from g(2,3) have "fl = 1000" by auto
  moreover have "2000 \<le> ceiling" using g(4) [rule_format, of 2000] \<open>fl = 1000\<close> by simp
  ultimately show ?thesis using g(1) by auto
qed

section \<open>Recording and the exit code\<close>

lemma suite_outcome_counts:
  "so_failed (suite_outcome name rows) = length (filter (\<lambda>r. \<not> dq_success r) rows)"
  "so_passed (suite_outcome name rows) + so_failed (suite_outcome name rows) = length rows"
  using sum_length_filter_compl [of dq_success rows] by (simp_all add: suite_outcome_def Let_def)

lemma run_suites_records:
  assumes "run_suites env mode run_id specs db = (res, db')"
  shows "\<exists>new. db' = db @ new \<and> (\<forall>outcomes. res = Inr outcomes \<longrightarrow>
      new = concat (map so_rows outcomes)
      \<and> sum_list (map so_failed outcomes) = length (filter (\<lambda>r. \<not> dq_success r) new))"
  using assms
proof (induction specs arbitrary: db res db')
  case (Cons spec specs)
  obtain name es where s: "spec = (name, es)" by (cases spec)
  show ?case
  proof (cases "gx_validate env name es")
    case (Inr results)
    let ?o = "suite_outcome name (result_rows (gx_render env) run_id name mode results)"
    obtain r d where r: "run_suites env mode run_id specs (persist ?o db) = (r, d)" by (metis surj_pair)
    have d: "d = db'" "r = Inl e \<Longrightarrow> res = Inl e" "r = Inr os \<Longrightarrow> res = Inr (?o # os)" for e os
      using Cons.prems r by (auto simp: s Inr Let_def split: sum.splits)
    from Cons.IH [OF r] obtain new where new: "d = persist ?o db @ new"
      "\<And>os. r = Inr os \<Longrightarrow> new = concat (map so_rows os)
        \<and> sum_list (map so_failed os) = length (filter (\<lambda>r. \<not> dq_success r) new)"
      by blast
    have rows: "so_rows ?o = result_rows (gx_render env) run_id name mode results"
      by (simp add: suite_outcome_def Let_def)
    show ?thesis
    proof (cases r)
      case (Inl e)
      with d(1) d(2) [OF Inl] new(1) show ?thesis
        by (intro exI [of _ "so_rows ?o @ new"]) (simp add: persist_def)
    next
      case (Inr os)
      have "sum_list (map so_failed (?o # os)) = length (filter (\<lambda>r. \<not> dq_success r) (so_rows ?o @ new))"
        using new(2) [OF Inr] by (simp add: suite_outcome_counts rows)
      with new d(1) d(3) [OF Inr] Inr show ?thesis
        by (intro exI [of _ "so_rows ?o @ new"]) (simp add: persist_def)
    qed
  qed (use Cons.prems s in auto)
qed simp

text \<open>A single run is honest: whatever the libraries answer, nothing recorded before is touched;
  when the run completes, the new rows of \<open>serving.dq_results\<close> are those of its outcomes, and the exit
  code is 2 exactly when the mode is \<open>fail\<close> and one of them is a failure, 0 otherwise.\<close>

theorem dq_exit_code:
  assumes "interval \<le> 0"
    and "dq_main mode interval freshness_minutes [(env, run_id, now)] db = (Some (Inr code), db')"
  shows "\<exists>new. db' = db @ new
    \<and> code = (if mode = ''fail'' \<and> (\<exists>r \<in> set new. \<not> dq_success r) then 2 else 0)"
proof -
  obtain res d where r: "run_once env mode freshness_minutes run_id now db = (res, d)" by (metis surj_pair)
  with assms obtain outcomes where "res = Inr outcomes" by (cases res) auto
  moreover from this assms r have "d = db'"
    "code = (if sum_list (map so_failed outcomes) \<noteq> 0 \<and> mode = ''fail'' then 2 else 0)"
    by (simp_all add: Let_def del: sum_list_eq_0_iff)
  ultimately have o: "res = Inr outcomes" "d = db'"
    "code = (if sum_list (map so_failed outcomes) \<noteq> 0 \<and> mode = ''fail'' then 2 else 0)" by simp_all
  from run_suites_records [OF r [unfolded run_once_def]] o obtain new where
    "db' = db @ new" "sum_list (map so_failed outcomes) = length (filter (\<lambda>r. \<not> dq_success r) new)" by blast
  with o(3) show ?thesis
    by (intro exI [of _ new]) (auto simp: filter_empty_conv)
qed

section \<open>The rolling baseline\<close>

text \<open>What Great Expectations answers when it works: each row-count expectation gets one result, that
  observes the count and succeeds when it is within the bounds, and no other result has that type.\<close>

definition row_count_ok :: "int \<Rightarrow> expectation \<Rightarrow> bool" where
  "row_count_ok n e = (case e of RowCountBetween lo hi \<Rightarrow> lo \<le> n \<and> (case hi of None \<Rightarrow> True | Some h \<Rightarrow> n \<le> h) | _ \<Rightarrow> True)"

definition reports_count :: "gx_env \<Rightarrow> int \<Rightarrow> bool" where
  "reports_count env n \<longleftrightarrow>
     (\<exists>raw. gx_validate env ''raw_rides_events'' raw_rides_events_expectations = Inr raw)
     \<and> (\<forall>history minutes now. \<exists>results.
          gx_validate env ''fct_rides'' (fct_rides_expectations history minutes now) = Inr results
          \<and> (\<exists>r. filter (\<lambda>r. gr_type r = ROW_COUNT_TYPE) results = [r]
               \<and> gr_observed r = Some (Scalar (PInt n))
               \<and> gr_success r = list_all (row_count_ok n) (fct_rides_expectations history minutes now)))"

text \<open>Several runs one after the other, each with its environment, id and clock.\<close>

definition dq_runs :: "string \<Rightarrow> int \<Rightarrow> (gx_env \<times> string \<times> int) list \<Rightarrow> dq_row list \<Rightarrow> dq_row list" where
  "dq_runs mode minutes runs db =
     fold (\<lambda>(env, run_id, now) db. snd (run_once env mode minutes run_id now db)) runs db"

lemma int_of_observed_int: "int_of_observed pf (json_value render (PInt n)) = Some n"
proof -
  have p: "plain (PInt n)" by simp
  obtain d ds where "nat_digits (nat n) = d # ds" "is_digit d" by (rule nat_digits_cons)
  then obtain c s where c: "json_value render (PInt n) = c # s" "is_digit c \<or> c = CHR ''-''"
    by (cases "n < 0") (auto simp: int_digits_def)
  have "scan_value pf (json_value render (PInt n)) = Inr (PInt n, [])"
    using scan_json_value [OF p, of "[]" pf render] by (simp add: delimited_def)
  moreover have "dropWhile is_ws (json_value render (PInt n)) = json_value render (PInt n)"
    using json_value_start [OF p, of render "[]"] by simp
  moreover have "c \<noteq> CHR ''{''" using c(2) by (auto simp: is_digit_def)
  ultimately show ?thesis
    using c(1) by (simp add: int_of_observed_def json_loads_def scan_end_def)
qed

lemma observed_counts_append: "observed_counts suite (xs @ ys) = observed_counts suite xs @ observed_counts suite ys"
  by (simp add: observed_counts_def List.map_filter_def)

lemma observed_counts_other:
  "suite \<noteq> name \<Longrightarrow> observed_counts suite (result_rows render run_id name mode results) = []"
  by (induction results) (simp_all add: observed_counts_def result_rows_def result_row_def List.map_filter_simps)

lemma observed_counts_results:
  "observed_counts name (result_rows render run_id name mode results)
     = map (dumps_observed render) (List.map_filter gr_observed (filter (\<lambda>r. gr_type r = ROW_COUNT_TYPE) results))"
  by (induction results)
    (auto simp: observed_counts_def result_rows_def result_row_def List.map_filter_simps split: option.split)

lemma run_once_count:
  assumes "reports_count env n"
  shows "\<exists>outcomes new. run_once env mode minutes run_id now db = (Inr outcomes, db @ new)
    \<and> observed_counts ''fct_rides'' new = [json_value (gx_render env) (PInt n)]
    \<and> (\<forall>r \<in> set new. dq_suite r = ''fct_rides'' \<and> dq_expectation r = ROW_COUNT_TYPE \<longrightarrow>
         dq_success r = list_all (row_count_ok n) (fct_rides_expectations
           (rowcount_history (gx_parse_float env) ''fct_rides'' db) minutes now))"
proof -
  let ?es = "fct_rides_expectations (rowcount_history (gx_parse_float env) ''fct_rides'' db) minutes now"
  from assms obtain raw results r where g:
    "gx_validate env ''raw_rides_events'' raw_rides_events_expectations = Inr raw"
    "gx_validate env ''fct_rides'' ?es = Inr results"
    "filter (\<lambda>r. gr_type r = ROW_COUNT_TYPE) results = [r]" "gr_observed r = Some (Scalar (PInt n))"
    "gr_success r = list_all (row_count_ok n) ?es"
    unfolding reports_count_def by blast
  let ?raw = "result_rows (gx_render env) run_id ''raw_rides_events'' mode raw"
  let ?fct = "result_rows (gx_render env) run_id ''fct_rides'' mode results"
  have "run_once env mode minutes run_id now db
      = (Inr [suite_outcome ''raw_rides_events'' ?raw, suite_outcome ''fct_rides'' ?fct], db @ ?raw @ ?fct)"
    by (simp add: run_once_def g(1,2) Let_def persist_def suite_outcome_def)
  moreover have "observed_counts ''fct_rides'' (?raw @ ?fct) = [json_value (gx_render env) (PInt n)]"
    using g(4) by (simp add: observed_counts_append observed_counts_other observed_counts_results g(3)
        List.map_filter_simps)
  moreover have "dq_success x = list_all (row_count_ok n) ?es"
    if "x \<in> set (?raw @ ?fct)" "dq_suite x = ''fct_rides''" "dq_expectation x = ROW_COUNT_TYPE" for x
  proof -
    from that obtain y where y: "y \<in> set results" "x = result_row (gx_render env) run_id ''fct_rides'' mode y"
      by (auto simp: result_rows_def result_row_def)
    with that(3) have "y \<in> set (filter (\<lambda>r. gr_type r = ROW_COUNT_TYPE) results)" by (simp add: result_row_def)
    with g(3,5) y(2) show ?thesis by (simp add: result_row_def)
  qed
  ultimately show ?thesis by blast
qed

lemma map_filter_list_all2:
  "list_all2 (\<lambda>x y. f x = Some y) xs ys \<Longrightarrow> List.map_filter f xs = ys"
  by (induction rule: list_all2_induct) (simp_all add: List.map_filter_simps)

lemma dq_runs_counts:
  assumes "list_all2 (\<lambda>(env, run_id, now). reports_count env) runs cs"
  shows "\<exists>texts. observed_counts ''fct_rides'' (dq_runs mode minutes runs db) = observed_counts ''fct_rides'' db @ texts
    \<and> list_all2 (\<lambda>s c. int_of_observed pf s = Some c) texts cs"
  using assms
proof (induction runs cs arbitrary: db rule: list_all2_induct)
  case Nil
  show ?case by (simp add: dq_runs_def)
next
  case (Cons run runs c cs)
  obtain env run_id now where r: "run = (env, run_id, now)" by (metis surj_pair)
  with Cons.hyps(1) have rc: "reports_count env c" by simp
  from run_once_count [OF rc, of mode minutes run_id now db] obtain outcomes new where
    o: "run_once env mode minutes run_id now db = (Inr outcomes, db @ new)"
    "observed_counts ''fct_rides'' new = [json_value (gx_render env) (PInt c)]" by blast
  from Cons.IH [of "db @ new"] obtain texts where t:
    "observed_counts ''fct_rides'' (dq_runs mode minutes runs (db @ new))
       = observed_counts ''fct_rides'' (db @ new) @ texts"
    "list_all2 (\<lambda>s c. int_of_observed pf s = Some c) texts cs" by blast
  have "dq_runs mode minutes (run # runs) db = dq_runs mode minutes runs (db @ new)"
    by (simp add: dq_runs_def r o(1))
  with t o(2) show ?case
    by (intro exI [of _ "json_value (gx_render env) (PInt c) # texts"])
      (simp add: observed_counts_append int_of_observed_int [simplified])
qed

lemma dq_history_window:
  assumes "list_all2 (\<lambda>(env, run_id, now). reports_count env) runs cs"
  shows "rowcount_history pf ''fct_rides'' (dq_runs mode minutes runs []) = drop (length cs - 10) cs"
proof -
  from dq_runs_counts [OF assms, of mode minutes "[]" pf] obtain texts where t:
    "observed_counts ''fct_rides'' (dq_runs mode minutes runs []) = texts"
    "list_all2 (\<lambda>s c. int_of_observed pf s = Some c) texts cs"
    by (auto simp: observed_counts_def List.map_filter_simps)
  have "list_all2 (\<lambda>s c. int_of_observed pf s = Some c) (take 10 (rev texts)) (take 10 (rev cs))"
    using t(2) by (intro list_all2_takeI) simp
  from map_filter_list_all2 [OF this] show ?thesis
    by (simp add: rowcount_history_def t(1) take_rev)
qed

text \<open>C28: The row-count baseline over any number of recorded runs: a run whose table has \<open>n\<close> rows
  passes its row-count expectation exactly when \<open>n\<close> is within the bounds of the last ten recorded
  counts, oldest first; nothing older counts.\<close>

theorem dq_rolling_gate:
  assumes "list_all2 (\<lambda>(env, run_id, now). reports_count env) runs cs" "reports_count env n"
  shows "\<exists>outcomes new. run_once env mode minutes run_id now (dq_runs mode minutes runs [])
      = (Inr outcomes, dq_runs mode minutes runs [] @ new)
    \<and> (\<exists>r \<in> set new. dq_suite r = ''fct_rides'' \<and> dq_expectation r = ROW_COUNT_TYPE)
    \<and> (\<forall>r \<in> set new. dq_suite r = ''fct_rides'' \<and> dq_expectation r = ROW_COUNT_TYPE \<longrightarrow>
         dq_success r = (case rowcount_bounds (drop (length cs - 10) cs) of (lo, hi) \<Rightarrow>
           lo \<le> n \<and> (case hi of None \<Rightarrow> True | Some h \<Rightarrow> n \<le> h)))"
proof -
  let ?db = "dq_runs mode minutes runs []"
  from run_once_count [OF assms(2), of mode minutes run_id now ?db] obtain outcomes new where
    o: "run_once env mode minutes run_id now ?db = (Inr outcomes, ?db @ new)"
    "observed_counts ''fct_rides'' new = [json_value (gx_render env) (PInt n)]"
    "\<forall>r \<in> set new. dq_suite r = ''fct_rides'' \<and> dq_expectation r = ROW_COUNT_TYPE \<longrightarrow>
         dq_success r = list_all (row_count_ok n) (fct_rides_expectations
           (rowcount_history (gx_parse_float env) ''fct_rides'' ?db) minutes now)"
    by blast
  have "\<exists>r \<in> set new. dq_suite r = ''fct_rides'' \<and> dq_expectation r = ROW_COUNT_TYPE"
  proof (rule ccontr)
    assume "\<not> ?thesis"
    then have "observed_counts ''fct_rides'' new = []"
      by (auto simp: observed_counts_def List.map_filter_def filter_empty_conv)
    with o(2) show False by simp
  qed
  moreover have "list_all (row_count_ok n) (fct_rides_expectations history minutes now)
      = (case rowcount_bounds history of (lo, hi) \<Rightarrow> lo \<le> n \<and> (case hi of None \<Rightarrow> True | Some h \<Rightarrow> n \<le> h))" for history
    by (cases "rowcount_bounds history") (simp add: fct_rides_expectations_def row_count_ok_def)
  ultimately show ?thesis
    using o(1,3) by (auto simp: dq_history_window [OF assms(1)])
qed

section \<open>Concrete runs\<close>

definition dq_demo_result :: "int \<Rightarrow> expectation \<Rightarrow> gx_result" where
  "dq_demo_result n e =
     \<lparr>gr_type = (case e of RowCountBetween _ _ \<Rightarrow> ROW_COUNT_TYPE | _ \<Rightarrow> ''expect_other''), gr_column = None,
      gr_success = row_count_ok n e, gr_element_count = Some n, gr_unexpected_count = None,
      gr_observed = Some (Scalar (PInt n))\<rparr>"

definition dq_demo_env :: "int \<Rightarrow> gx_env" where
  "dq_demo_env n =
     \<lparr>gx_validate = (\<lambda>_ es. Inr (map (dq_demo_result n) es)), gx_render = (\<lambda>_. []), gx_parse_float = (\<lambda>_. 0)\<rparr>"

lemma dq_demo_reports: "reports_count (dq_demo_env n) n"
  by (simp add: reports_count_def dq_demo_env_def fct_rides_expectations_def dq_demo_result_def
      row_count_ok_def ROW_COUNT_TYPE_def split: prod.split)

definition dq_demo_runs :: "int list \<Rightarrow> (gx_env \<times> string \<times> int) list" where
  "dq_demo_runs = map (\<lambda>n. (dq_demo_env n, ''run'', 0))"

lemma dq_demo_runs_report: "list_all2 (\<lambda>(env, run_id, now). reports_count env) (dq_demo_runs cs) cs"
  by (simp add: dq_demo_runs_def list_all2_map1 dq_demo_reports list.rel_refl)

theorem dq_rolling_gate_witness:
  "\<exists>outcomes new. run_once (dq_demo_env 400) ''fail'' 30 ''run'' 0 (dq_runs ''fail'' 30 (dq_demo_runs [1000]) [])
      = (Inr outcomes, dq_runs ''fail'' 30 (dq_demo_runs [1000]) [] @ new)
    \<and> (\<exists>r \<in> set new. dq_expectation r = ROW_COUNT_TYPE \<and> \<not> dq_success r)"
proof -
  from dq_rolling_gate [where mode = "''fail''" and minutes = 30 and run_id = "''run''" and now = 0,
      OF dq_demo_runs_report [of "[1000]"] dq_demo_reports [of 400]]
  obtain outcomes new r where o: "run_once (dq_demo_env 400) ''fail'' 30 ''run'' 0 (dq_runs ''fail'' 30 (dq_demo_runs [1000]) [])
      = (Inr outcomes, dq_runs ''fail'' 30 (dq_demo_runs [1000]) [] @ new)"
    "r \<in> set new" "dq_suite r = ''fct_rides''" "dq_expectation r = ROW_COUNT_TYPE"
    "\<forall>r \<in> set new. dq_suite r = ''fct_rides'' \<and> dq_expectation r = ROW_COUNT_TYPE \<longrightarrow>
         dq_success r = (case rowcount_bounds [1000] of (lo, hi) \<Rightarrow>
           lo \<le> 400 \<and> (case hi of None \<Rightarrow> True | Some h \<Rightarrow> 400 \<le> h))" by auto
  then have "\<not> dq_success r" by (simp add: rowcount_bounds_def Let_def)
  with o show ?thesis by blast
qed

text \<open>The baseline forgets a loss: after a recorded count of 1000, a table of 400 rows fails its
  row-count expectation in each of the next ten runs, and passes it in the eleventh, because each
  failed run recorded its own count as an observation.\<close>

theorem dq_shrink_forgotten:
  "rowcount_bounds (rowcount_history pf ''fct_rides'' (dq_runs ''fail'' 30 (dq_demo_runs (1000 # replicate 9 400)) []))
     = (1000, Some 2600)
   \<and> rowcount_bounds (rowcount_history pf ''fct_rides'' (dq_runs ''fail'' 30 (dq_demo_runs (1000 # replicate 10 400)) []))
     = (400, Some 2600)"
proof -
  have r: "replicate 9 (400 :: int) = [400, 400, 400, 400, 400, 400, 400, 400, 400]"
    "replicate 10 (400 :: int) = [400, 400, 400, 400, 400, 400, 400, 400, 400, 400]"
    by (simp_all add: eval_nat_numeral)
  show ?thesis
    by (simp add: dq_history_window [OF dq_demo_runs_report] rowcount_bounds_def int_median_def Let_def r)
qed

theorem dq_exit_code_witness:
  "\<exists>new. snd (dq_main ''fail'' 0 30 [(dq_demo_env 400, ''run'', 0)] []) = [] @ new
    \<and> (0 :: int) = (if \<exists>r \<in> set new. \<not> dq_success r then 2 else 0)"
proof -
  let ?m = "dq_main ''fail'' 0 30 [(dq_demo_env 400, ''run'', 0)] []"
  have "fst ?m = Some (Inr 0)"
    by (simp add: run_once_def dq_demo_env_def Let_def suite_outcome_def result_rows_def result_row_def
        dq_demo_result_def row_count_ok_def fct_rides_expectations_def rowcount_bounds_def
        raw_rides_events_expectations_def rowcount_history_def observed_counts_def List.map_filter_simps persist_def)
  then have "?m = (Some (Inr 0), snd ?m)" by (metis prod.collapse)
  from dq_exit_code [OF _ this] show ?thesis by auto
qed

end
