(* ===== verification/Transport.thy ===== *)
theory Transport
  imports Dlq_Replay Events "HOL-Library.Multiset"
begin

text \<open>
  \<open>KafkaTransport\<close> of \<open>generator/producer.py\<close>: sending source events and keeping the manifest
  of what the broker acknowledged. The producer client answers asynchronously: \<open>produce\<close> queues
  a message (or refuses it), and a later \<open>poll\<close> or \<open>flush\<close> runs the delivery callback of some
  queued messages, each with an error or none. \<open>tr_broker\<close> is the broker's side, the messages it
  acknowledged. Serialisers are a parameter; the metrics server, topic and schema registration
  at construction and logging are left out.
\<close>

type_synonym serializers = "(string, payload \<Rightarrow> exn + string) dict"

record queued =
  q_topic :: string
  q_key :: string
  q_value :: string
  q_stable_id :: "string option"
  q_corrupt :: bool

record transport =
  tr_queue :: "queued list"
  tr_acked :: "(string, nat) dict"
  tr_failed :: "(string, nat) dict"
  tr_corrupted :: nat
  tr_manifest :: "string option"
  tr_broker :: "queued list"

definition new_transport :: "bool \<Rightarrow> transport" where
  "new_transport manifest =
     \<lparr>tr_queue = [], tr_acked = [], tr_failed = [], tr_corrupted = 0,
      tr_manifest = (if manifest then Some [] else None), tr_broker = []\<rparr>"

definition counted :: "(string, nat) dict \<Rightarrow> string \<Rightarrow> nat" where
  "counted c k = (case map_of c k of None \<Rightarrow> 0 | Some n \<Rightarrow> n)"

definition count_up :: "string \<Rightarrow> (string, nat) dict \<Rightarrow> (string, nat) dict" where
  "count_up k c = AList.update k (counted c k + 1) c"

definition stable_id :: "(pyval \<Rightarrow> string) \<Rightarrow> source_event \<Rightarrow> exn + string option" where
  "stable_id render event =
     (if se_topic event = RIDES_EVENTS then
        rbind (d_item (se_value event) ''event_id'') (\<lambda>v. Inr (Some (py_str render v)))
      else if se_topic event = PAYMENTS_TRANSACTIONS then
        rbind (d_item (se_value event) ''txn_id'') (\<lambda>v. Inr (Some (py_str render v)))
      else Inr None)"

definition manifest_line :: "string \<Rightarrow> string \<Rightarrow> string" where
  "manifest_line topic sid =
     json_object (\<lambda>_. []) '', '' '': '' [(''topic'', PStr topic), (''id'', PStr sid)] @ [CHR 0x0A]"

text \<open>The callback of a queued message.\<close>

definition on_delivery :: "queued \<Rightarrow> exn option \<Rightarrow> transport \<Rightarrow> transport" where
  "on_delivery q err t =
     (case err of
        Some _ \<Rightarrow> t\<lparr>tr_failed := count_up (q_topic q) (tr_failed t)\<rparr>
      | None \<Rightarrow>
          (let t = t\<lparr>tr_acked := count_up (q_topic q) (tr_acked t)\<rparr> in
           case (tr_manifest t, q_stable_id q) of
             (Some text, Some sid) \<Rightarrow>
               if \<not> q_corrupt q then t\<lparr>tr_manifest := Some (text @ manifest_line (q_topic q) sid)\<rparr> else t
           | _ \<Rightarrow> t))"

text \<open>The delivery reports a call serves: which queued message, and its error; an acknowledged
  message is in the broker's log.\<close>

fun serve :: "(nat \<times> exn option) list \<Rightarrow> transport \<Rightarrow> transport" where
  "serve [] t = t"
| "serve ((i, err) # reports) t =
     (if i < length (tr_queue t) then
        let q = tr_queue t ! i;
            t = t\<lparr>tr_queue := take i (tr_queue t) @ drop (Suc i) (tr_queue t),
                  tr_broker := tr_broker t @ (if err = None then [q] else [])\<rparr>
        in serve reports (on_delivery q err t)
      else serve reports t)"

definition send :: "(pyval \<Rightarrow> string) \<Rightarrow> serializers \<Rightarrow> source_event \<Rightarrow> exn option
    \<Rightarrow> (nat \<times> exn option) list \<Rightarrow> transport \<Rightarrow> (exn + unit) \<times> transport" where
  "send render sers event refused reports t =
     (case (case map_of sers (se_topic event) of None \<Rightarrow> Inl (KeyError (se_topic event))
            | Some f \<Rightarrow> f (se_value event)) of
        Inl e \<Rightarrow> (Inl e, t)
      | Inr payload \<Rightarrow>
          (let (payload, t) =
             (if se_corrupt event then (corrupt_payload payload, t\<lparr>tr_corrupted := tr_corrupted t + 1\<rparr>)
              else (payload, t)) in
           case stable_id render event of
             Inl e \<Rightarrow> (Inl e, t)
           | Inr sid \<Rightarrow>
               (case refused of
                  Some e \<Rightarrow> (Inl e, t)
                | None \<Rightarrow>
                    (Inr (), serve reports (t\<lparr>tr_queue := tr_queue t @
                       [\<lparr>q_topic = se_topic event, q_key = se_key event, q_value = payload,
                         q_stable_id = sid, q_corrupt = se_corrupt event\<rparr>]\<rparr>)))))"

definition transport_flush :: "(nat \<times> exn option) list \<Rightarrow> transport \<Rightarrow> nat \<times> transport" where
  "transport_flush reports t = (let t = serve reports t in (length (tr_queue t), t))"

definition transport_close :: "(nat \<times> exn option) list \<Rightarrow> transport \<Rightarrow> nat \<times> transport" where
  "transport_close reports t = transport_flush reports t"

section \<open>A run\<close>

text \<open>The sends of a run, each with what the client did, and the reports of the final flush.\<close>

type_synonym sends = "(source_event \<times> exn option \<times> (nat \<times> exn option) list) list"

definition run_sends :: "(pyval \<Rightarrow> string) \<Rightarrow> serializers \<Rightarrow> sends \<Rightarrow> transport \<Rightarrow> transport" where
  "run_sends render sers sends t =
     fold (\<lambda>(event, refused, reports) t. snd (send render sers event refused reports t)) sends t"

text \<open>What a queued message must be: the bytes of an event that was sent, corrupted if flagged.\<close>

definition carries :: "(pyval \<Rightarrow> string) \<Rightarrow> serializers \<Rightarrow> source_event \<Rightarrow> queued \<Rightarrow> bool" where
  "carries render sers e q \<longleftrightarrow>
     (\<exists>f bytes. map_of sers (se_topic e) = Some f \<and> f (se_value e) = Inr bytes
        \<and> q_value q = (if se_corrupt e then corrupt_payload bytes else bytes)
        \<and> q_topic q = se_topic e \<and> q_key q = se_key e \<and> q_corrupt q = se_corrupt e
        \<and> stable_id render e = Inr (q_stable_id q))"

definition manifest_entry :: "queued \<Rightarrow> (string \<times> string) option" where
  "manifest_entry q = (if q_corrupt q then None else map_option (Pair (q_topic q)) (q_stable_id q))"

definition manifest_text :: "queued list \<Rightarrow> string" where
  "manifest_text qs = concat (map (\<lambda>(topic, sid). manifest_line topic sid) (List.map_filter manifest_entry qs))"

definition transport_inv :: "(queued \<Rightarrow> bool) \<Rightarrow> nat \<Rightarrow> transport \<Rightarrow> bool" where
  "transport_inv ok n t \<longleftrightarrow>
     (\<forall>q \<in> set (tr_queue t) \<union> set (tr_broker t). ok q)
     \<and> (\<forall>topic. counted (tr_acked t) topic = length (filter (\<lambda>q. q_topic q = topic) (tr_broker t)))
     \<and> tr_manifest t = Some (manifest_text (tr_broker t))
     \<and> (\<exists>lost. n = length (tr_queue t) + length (tr_broker t) + length lost
          \<and> (\<forall>topic. counted (tr_failed t) topic = length (filter (\<lambda>q. q_topic q = topic) lost))
          \<and> (\<forall>q \<in> set lost. ok q))"

lemma counted_up: "counted (count_up k c) k' = (if k' = k then counted c k + 1 else counted c k')"
  by (simp add: counted_def count_up_def)

lemma manifest_text_snoc:
  "manifest_text (qs @ [q]) = manifest_text qs @
     (case manifest_entry q of None \<Rightarrow> [] | Some (topic, sid) \<Rightarrow> manifest_line topic sid)"
  by (auto simp: manifest_text_def List.map_filter_def split: option.split)

lemma serve_inv:
  "transport_inv ok n t \<Longrightarrow> transport_inv ok n (serve reports t)"
proof (induction reports t rule: serve.induct)
  case (2 i err reports t)
  show ?case
  proof (cases "i < length (tr_queue t)")
    case True
    define q where "q = tr_queue t ! i"
    define t1 where "t1 = t\<lparr>tr_queue := take i (tr_queue t) @ drop (Suc i) (tr_queue t),
                  tr_broker := tr_broker t @ (if err = None then [q] else [])\<rparr>"
    from "2.prems" obtain lost where l: "n = length (tr_queue t) + length (tr_broker t) + length lost"
      "\<forall>topic. counted (tr_failed t) topic = length (filter (\<lambda>q. q_topic q = topic) lost)" "\<forall>q \<in> set lost. ok q"
      by (auto simp: transport_inv_def)
    have okq: "ok q" using "2.prems" True nth_mem by (auto simp: transport_inv_def q_def)
    have rest: "set (take i (tr_queue t) @ drop (Suc i) (tr_queue t)) \<subseteq> set (tr_queue t)"
      by (auto dest: in_set_takeD in_set_dropD)
    have "transport_inv ok n (on_delivery q err t1)"
    proof (cases err)
      case None
      with "2.prems" l okq rest True show ?thesis
        unfolding transport_inv_def
        by (intro conjI exI [of _ lost])
          (auto simp: on_delivery_def t1_def Let_def counted_up manifest_text_snoc manifest_entry_def
            split: option.split)
    next
      case (Some e)
      with "2.prems" l okq rest True show ?thesis
        unfolding transport_inv_def
        by (intro conjI exI [of _ "lost @ [q]"])
          (auto simp: on_delivery_def t1_def counted_up)
    qed
    from "2.IH"(1) [OF True refl refl, folded q_def, folded t1_def, OF this] True show ?thesis
      by (simp only: serve.simps if_True Let_def q_def t1_def)
  next
    case False
    with "2" show ?thesis by simp
  qed
qed simp

lemma transport_inv_mono:
  "transport_inv ok n t \<Longrightarrow> (\<And>q. ok q \<Longrightarrow> ok' q) \<Longrightarrow> transport_inv ok' n t"
  unfolding transport_inv_def by blast

lemma send_inv:
  assumes "transport_inv ok n t" "\<And>q. carries render sers event q \<Longrightarrow> ok q"
    and "send render sers event refused reports t = (res, t')"
  shows "transport_inv ok (if res = Inr () then n + 1 else n) t'"
proof -
  have keep: "transport_inv ok n (t\<lparr>tr_corrupted := c\<rparr>)" for c
    using assms(1) by (simp add: transport_inv_def)
  show ?thesis
  proof (cases "case map_of sers (se_topic event) of None \<Rightarrow> Inl (KeyError (se_topic event))
            | Some f \<Rightarrow> f (se_value event)")
    case (Inl e)
    with assms(1,3) show ?thesis by (auto simp: send_def)
  next
    case (Inr bytes)
    then obtain f where f: "map_of sers (se_topic event) = Some f" "f (se_value event) = Inr bytes"
      by (auto split: option.splits)
    define t1 where "t1 = (if se_corrupt event then t\<lparr>tr_corrupted := tr_corrupted t + 1\<rparr> else t)"
    define payload where "payload = (if se_corrupt event then corrupt_payload bytes else bytes)"
    have t1: "transport_inv ok n t1" using keep assms(1) by (simp add: t1_def)
    have s: "send render sers event refused reports t = (case stable_id render event of
             Inl e \<Rightarrow> (Inl e, t1)
           | Inr sid \<Rightarrow> (case refused of Some e \<Rightarrow> (Inl e, t1) | None \<Rightarrow>
                    (Inr (), serve reports (t1\<lparr>tr_queue := tr_queue t1 @
                       [\<lparr>q_topic = se_topic event, q_key = se_key event, q_value = payload,
                         q_stable_id = sid, q_corrupt = se_corrupt event\<rparr>]\<rparr>))))"
      unfolding send_def f option.case sum.case t1_def payload_def Let_def
      by (cases "se_corrupt event") (simp_all split: sum.split option.split)
    show ?thesis
    proof (cases "stable_id render event")
      case (Inl e)
      with s t1 assms(3) show ?thesis by auto
    next
      case (Inr sid)
      show ?thesis
      proof (cases refused)
        case None
        let ?q = "\<lparr>q_topic = se_topic event, q_key = se_key event, q_value = payload,
                         q_stable_id = sid, q_corrupt = se_corrupt event\<rparr>"
        have "carries render sers event ?q" using f Inr by (simp add: carries_def payload_def)
        then have "transport_inv ok (n + 1) (t1\<lparr>tr_queue := tr_queue t1 @ [?q]\<rparr>)"
          using t1 assms(2) unfolding transport_inv_def by auto
        from serve_inv [OF this] s Inr None assms(3) show ?thesis by auto
      next
        case (Some e)
        with s Inr t1 assms(3) show ?thesis by auto
      qed
    qed
  qed
qed

lemma run_sends_inv:
  assumes "transport_inv ok n t" "\<And>e r d q. (e, r, d) \<in> set sends \<Longrightarrow> carries render sers e q \<Longrightarrow> ok q"
  shows "\<exists>m. transport_inv ok m (run_sends render sers sends t)"
  using assms
proof (induction sends arbitrary: n t)
  case (Cons s sends)
  obtain e r d where s: "s = (e, r, d)" by (metis surj_pair)
  obtain res t1 where t1: "send render sers e r d t = (res, t1)" by (metis surj_pair)
  have "carries render sers e q \<Longrightarrow> ok q" for q using Cons.prems(2) [of e r d q] s by simp
  from Cons.IH [OF send_inv [OF Cons.prems(1) this t1]] Cons.prems(2) s t1 show ?case
    by (simp add: run_sends_def) blast
qed (auto simp: run_sends_def)

text \<open>The manifest is honest. After any sends, refusals and delivery reports its text is, line by
  line and in the order of the acknowledgements, the topic and id of the acknowledged messages that
  are neither corrupted nor without id; every acknowledged message has the bytes of an event that was
  sent; and the acknowledged counts are the broker's.\<close>

theorem manifest_is_acked:
  assumes "transport_flush reports (run_sends render sers sends (new_transport True)) = (remaining, t)"
  shows "tr_manifest t = Some (manifest_text (tr_broker t))
    \<and> (\<forall>q \<in> set (tr_broker t). \<exists>(e, _) \<in> set sends. carries render sers e q)
    \<and> (\<forall>topic. counted (tr_acked t) topic = length (filter (\<lambda>q. q_topic q = topic) (tr_broker t)))
    \<and> remaining = length (tr_queue t)"
proof -
  let ?ok = "\<lambda>q. \<exists>(e, _) \<in> set sends. carries render sers e q"
  have "transport_inv ?ok 0 (new_transport True)"
    by (simp add: transport_inv_def new_transport_def counted_def manifest_text_def List.map_filter_simps)
  then obtain m where "transport_inv ?ok m (run_sends render sers sends (new_transport True))"
    using run_sends_inv [of ?ok 0 "new_transport True" sends render sers] by fastforce
  from serve_inv [OF this, of reports] assms show ?thesis
    by (auto simp: transport_flush_def Let_def transport_inv_def)
qed

text \<open>A line of the manifest reads back as what was written.\<close>

lemma manifest_line_parses:
  "json_loads pf (butlast (manifest_line topic sid)) = Inr (JObj [(''topic'', PStr topic), (''id'', PStr sid)])"
  using json_roundtrip [of "[(''topic'', PStr topic), (''id'', PStr sid)]" "'' ''" "'' ''" pf "\<lambda>_. []"]
  by (simp add: manifest_line_def is_ws_def)

text \<open>A good and a corrupted event, both acknowledged, the good one first.\<close>

definition transport_demo_event :: source_event where
  "transport_demo_event = ride_event ''r'' REQUESTED 0 ''u-1'' 1 (12, 77) 1 None None None 1 None"

theorem manifest_is_acked_witness:
  "\<exists>t. transport_flush [(0, None)] (run_sends (\<lambda>_. []) [(RIDES_EVENTS, \<lambda>_. Inr ''AVRO'')]
      [(transport_demo_event, None, []), (transport_demo_event\<lparr>se_corrupt := True\<rparr>, None, [(0, None)])]
      (new_transport True)) = (0, t)
    \<and> length (tr_broker t) = 2
    \<and> tr_manifest t = Some (manifest_line RIDES_EVENTS (event_id ''r'' REQUESTED))"
proof -
  let ?sends = "[(transport_demo_event, None, []), (transport_demo_event\<lparr>se_corrupt := True\<rparr>, None, [(0, None)])]"
  have id: "stable_id (\<lambda>_. []) transport_demo_event = Inr (Some (event_id ''r'' REQUESTED))"
    "stable_id (\<lambda>_. []) (transport_demo_event\<lparr>se_corrupt := True\<rparr>) = Inr (Some (event_id ''r'' REQUESTED))"
    "se_topic transport_demo_event = RIDES_EVENTS" "\<not> se_corrupt transport_demo_event"
    by (simp_all add: stable_id_def transport_demo_event_def ride_event_def Let_def d_item_def)
  obtain t where t: "transport_flush [(0, None)] (run_sends (\<lambda>_. []) [(RIDES_EVENTS, \<lambda>_. Inr ''AVRO'')] ?sends
      (new_transport True)) = (0, t)"
    and broker: "map q_corrupt (tr_broker t) = [False, True]"
    "map q_stable_id (tr_broker t) = [Some (event_id ''r'' REQUESTED), Some (event_id ''r'' REQUESTED)]"
    "map q_topic (tr_broker t) = [RIDES_EVENTS, RIDES_EVENTS]"
    by (simp add: transport_flush_def run_sends_def send_def id new_transport_def Let_def on_delivery_def)
  then obtain a b where ab: "tr_broker t = [a, b]" "\<not> q_corrupt a" "q_corrupt b"
    "q_stable_id a = Some (event_id ''r'' REQUESTED)" "q_topic a = RIDES_EVENTS"
    by (auto simp: map_eq_Cons_conv)
  with manifest_is_acked [OF t] t show ?thesis
    by (auto simp: manifest_text_def manifest_entry_def List.map_filter_simps)
qed

end
