(* ===== verification/Gen_Config.thy ===== *)
theory Gen_Config
  imports Py_Values Py_Float Geo
begin

text \<open>
  The generator's configuration (\<open>generator/config.py\<close>), simulation clock
  (\<open>generator/clock.py\<close>), demand curve (\<open>generator/diurnal.py\<close>), and the random source. Python's
  \<open>random.Random\<close> is a record of draws over any state \<open>'g\<close>, with the constructor from a seed; \<open>rng_laws\<close> is what its documentation
  promises of their ranges. Floats are real numbers.
\<close>

section \<open>Random draws\<close>

record 'g rng =
  rn_random :: "'g \<Rightarrow> real \<times> 'g"
  rn_uniform :: "real \<Rightarrow> real \<Rightarrow> 'g \<Rightarrow> real \<times> 'g"
  rn_gauss :: "real \<Rightarrow> real \<Rightarrow> 'g \<Rightarrow> real \<times> 'g"
  rn_expovariate :: "real \<Rightarrow> 'g \<Rightarrow> real \<times> 'g"
  rn_below :: "nat \<Rightarrow> 'g \<Rightarrow> nat \<times> 'g"
  rn_getrandbits :: "nat \<Rightarrow> 'g \<Rightarrow> nat \<times> 'g"
  rn_seeded :: "int \<Rightarrow> 'g"

text \<open>\<open>randrange(n)\<close> of a non-positive bound raises; \<open>choice(xs)\<close> picks an index.\<close>

definition randrange :: "'g rng \<Rightarrow> int \<Rightarrow> 'g \<Rightarrow> exn + int \<times> 'g" where
  "randrange R n g =
     (if n \<le> 0 then Inl (ValueError ''empty range for randrange()'')
      else let (k, g) = rn_below R (nat n) g in Inr (int k, g))"

definition choice :: "'g rng \<Rightarrow> 'a list \<Rightarrow> 'g \<Rightarrow> 'a \<times> 'g" where
  "choice R xs g = (let (k, g) = rn_below R (length xs) g in (xs ! k, g))"

definition rng_laws :: "'g rng \<Rightarrow> bool" where
  "rng_laws R \<longleftrightarrow>
     (\<forall>g. 0 \<le> fst (rn_random R g) \<and> fst (rn_random R g) < 1)
     \<and> (\<forall>a b g. a \<le> b \<longrightarrow> a \<le> fst (rn_uniform R a b g) \<and> fst (rn_uniform R a b g) \<le> b)
     \<and> (\<forall>l g. 0 < l \<longrightarrow> 0 \<le> fst (rn_expovariate R l g))
     \<and> (\<forall>n g. 0 < n \<longrightarrow> fst (rn_below R n g) < n)"

lemma case_prod_eq: "(case p of (a, b) \<Rightarrow> k a b) = z \<longleftrightarrow> (\<exists>a b. p = (a, b) \<and> k a b = z)"
  by (cases p) simp

lemma rng_lawsD:
  assumes "rng_laws R"
  shows "rn_random R g = (x, g') \<Longrightarrow> 0 \<le> x \<and> x < 1"
    "rn_uniform R a b g = (x, g') \<Longrightarrow> a \<le> b \<Longrightarrow> a \<le> x \<and> x \<le> b"
    "rn_expovariate R l g = (x, g') \<Longrightarrow> 0 < l \<Longrightarrow> 0 \<le> x"
    "rn_below R n g = (k, g') \<Longrightarrow> 0 < n \<Longrightarrow> k < n"
  using assms unfolding rng_laws_def by (metis fst_conv)+

section \<open>Configuration\<close>

record GeneratorConfig =
  seed :: int
  speed :: real
  gen_duration_sec :: real
  cfg_anchor_ms :: "int option"
  tick_ms :: int
  base_rides_per_min :: real
  abandon_rate :: real
  cancel_probability :: "(string, real) dict option"
  drivers_total :: int
  ping_interval_sec :: real
  offline_prob_per_ping :: real
  diurnal_on :: bool
  dup_rate :: real
  ooo_rate :: real
  ooo_max_skew_sec :: real
  late_rate :: real
  late_max_sec :: real
  malformed_rate :: real
  null_field_rate :: real
  bad_data_rate :: real
  evolve_after_sec :: "real option"

definition default_config :: GeneratorConfig where
  "default_config =
     \<lparr>seed = 42, speed = 60, gen_duration_sec = 600, cfg_anchor_ms = None, tick_ms = 1000,
      base_rides_per_min = 40, abandon_rate = 3 / 1000, cancel_probability = None, drivers_total = 300,
      ping_interval_sec = 30, offline_prob_per_ping = 4 / 1000, diurnal_on = True, dup_rate = 5 / 1000,
      ooo_rate = 2 / 100, ooo_max_skew_sec = 30, late_rate = 1 / 100, late_max_sec = 600,
      malformed_rate = 2 / 1000, null_field_rate = 1 / 100, bad_data_rate = 0, evolve_after_sec = None\<rparr>"

definition perfect :: "GeneratorConfig \<Rightarrow> GeneratorConfig" where
  "perfect cfg = cfg\<lparr>dup_rate := 0, ooo_rate := 0, late_rate := 0, malformed_rate := 0,
     null_field_rate := 0, abandon_rate := 0, bad_data_rate := 0\<rparr>"

text \<open>\<open>self.cancel_probability or {...}\<close>: an empty table is replaced too.\<close>

definition cancel_prob :: "GeneratorConfig \<Rightarrow> string \<Rightarrow> real" where
  "cancel_prob cfg stage =
     (let table = (case cancel_probability cfg of
          Some (kv # kvs) \<Rightarrow> kv # kvs
        | _ \<Rightarrow> [(''requested'', 40 / 1000), (''matched'', 25 / 1000), (''driver_arrived'', 10 / 1000),
               (''started'', 5 / 1000)])
      in case map_of table stage of None \<Rightarrow> 0 | Some p \<Rightarrow> p)"

section \<open>The clock\<close>

record SimClock =
  ck_anchor_ms :: int
  ck_tick_ms :: int
  ck_ticks :: nat

definition now_ms :: "SimClock \<Rightarrow> int" where
  "now_ms c = ck_anchor_ms c + int (ck_ticks c) * ck_tick_ms c"

definition advance_clock :: "SimClock \<Rightarrow> SimClock" where
  "advance_clock c = c\<lparr>ck_ticks := ck_ticks c + 1\<rparr>"

definition real_seconds_per_tick :: "SimClock \<Rightarrow> real \<Rightarrow> real" where
  "real_seconds_per_tick c spd = (ck_tick_ms c / 1000) / spd"

section \<open>The demand curve\<close>

definition hour_of_day :: "int \<Rightarrow> real" where
  "hour_of_day ts_ms = float_mod (of_int ts_ms / 3600000) 24"

definition peak :: "real \<Rightarrow> real \<Rightarrow> real \<Rightarrow> real" where
  "peak hour centre width =
     (let delta = min \<bar>hour - centre\<bar> (24 - \<bar>hour - centre\<bar>) in exp (- ((delta / width) ^ 2)))"

definition demand_curve :: "int \<Rightarrow> real" where
  "demand_curve ts_ms =
     (let hour = hour_of_day ts_ms
      in 45 / 100 + 85 / 100 * peak hour (85 / 10) (18 / 10) + 105 / 100 * peak hour (185 / 10) (22 / 10))"

lemma peak_range: "0 < peak h c w \<and> peak h c w \<le> 1"
  by (simp add: peak_def Let_def)

text \<open>The curve stays between its base and the sum of its amplitudes and repeats every day.\<close>

lemma demand_curve_range: "45 / 100 < demand_curve ts \<and> demand_curve ts \<le> 235 / 100"
  using peak_range [of "hour_of_day ts" "85 / 10" "18 / 10"] peak_range [of "hour_of_day ts" "185 / 10" "22 / 10"]
  by (simp add: demand_curve_def Let_def)

lemma demand_curve_daily: "demand_curve (ts + 86400000 * k) = demand_curve ts"
proof -
  have "real_of_int (ts + 86400000 * k) / 3600000 / 24 = of_int ts / 3600000 / 24 + of_int k"
    by (simp add: field_simps)
  then have "\<lfloor>real_of_int (ts + 86400000 * k) / 3600000 / 24\<rfloor> = \<lfloor>real_of_int ts / 3600000 / 24\<rfloor> + k"
    by (simp only: floor_add_int)
  then have "hour_of_day (ts + 86400000 * k) = hour_of_day ts"
    by (simp add: hour_of_day_def float_mod_def field_simps)
  then show ?thesis by (simp add: demand_curve_def)
qed

text \<open>At the morning peak the multiplier stays below 1.4, whatever the day.\<close>

lemma morning_peak_below: "demand_curve (30600000 + 86400000 * k) < 14 / 10"
proof -
  have "exp (- ((10 / (22 / 10)) ^ 2)) \<le> 1 / (1 + (10 / (22 / 10)) ^ 2 :: real)"
    using exp_ge_add_one_self [of "(10 / (22 / 10)) ^ 2 :: real"] by (simp add: exp_minus field_simps)
  then have p: "peak (85 / 10) (185 / 10) (22 / 10) \<le> 5 / 100"
    by (simp add: peak_def Let_def power2_eq_square)
  have h: "hour_of_day 30600000 = 85 / 10" by (simp add: hour_of_day_def float_mod_def)
  have "peak (85 / 10) (85 / 10) (18 / 10) = 1" by (simp add: peak_def)
  with p have "demand_curve 30600000 < 14 / 10" unfolding demand_curve_def Let_def h by simp
  then show ?thesis by (simp only: demand_curve_daily)
qed

section \<open>Formatting\<close>

text \<open>\<open>f"{n:0kd}"\<close> and \<open>f"{n:06x}"\<close> of a non-negative number.\<close>

definition zero_pad :: "nat \<Rightarrow> string \<Rightarrow> string" where
  "zero_pad k s = replicate (k - length s) (CHR ''0'') @ s"

definition padded :: "nat \<Rightarrow> nat \<Rightarrow> string" where
  "padded k n = zero_pad k (nat_digits n)"

definition hex_char :: "nat \<Rightarrow> char" where
  "hex_char d = char_of (if d < 10 then 48 + d else 87 + d)"

fun hex_digits :: "nat \<Rightarrow> string" where
  "hex_digits n = (if n < 16 then [hex_char n] else hex_digits (n div 16) @ [hex_char (n mod 16)])"

declare hex_digits.simps [simp del]

text \<open>The value of a decimal numeral ignores its leading zeros, so padding is injective.\<close>

definition decimal :: "string \<Rightarrow> nat" where
  "decimal = foldl (\<lambda>n c. n * 10 + (of_char c - 48)) 0"

lemma decimal_digits: "decimal (nat_digits n) = n"
proof (induction n rule: nat_digits.induct)
  case (1 n)
  then show ?case
    by (subst nat_digits.simps) (auto simp: decimal_def)
qed

lemma decimal_zeros: "decimal (replicate k (CHR ''0'') @ s) = decimal s"
  by (induction k) (simp_all add: decimal_def)

lemma padded_inj: "padded k m = padded k n \<longleftrightarrow> m = n"
  by (metis decimal_digits decimal_zeros padded_def zero_pad_def)

end
