(* ===== verification/Cities.thy ===== *)
theory Cities
  imports Gen_Config
begin

text \<open>
  \<open>generator/cities.py\<close>: the five cities with their boxes and hotspot mixtures, and the sampling
  of a point. Coordinates and weights are exact decimals.
\<close>

record Hotspot =
  hs_lat :: real
  hs_lon :: real
  hs_sigma_km :: real
  hs_weight :: real

record City =
  ct_city_id :: int
  ct_name :: string
  ct_center :: "real \<times> real"
  ct_min_lat :: real
  ct_max_lat :: real
  ct_min_lon :: real
  ct_max_lon :: real
  ct_demand_weight :: real
  ct_hotspots :: "Hotspot list"

definition hotspot :: "real \<Rightarrow> real \<Rightarrow> real \<Rightarrow> real \<Rightarrow> Hotspot" where
  "hotspot lat lon sigma weight = \<lparr>hs_lat = lat, hs_lon = lon, hs_sigma_km = sigma, hs_weight = weight\<rparr>"

definition city_clamp :: "City \<Rightarrow> real \<Rightarrow> real \<Rightarrow> real \<times> real" where
  "city_clamp c lat lon =
     (min (max lat (ct_min_lat c)) (ct_max_lat c), min (max lon (ct_min_lon c)) (ct_max_lon c))"

definition CITIES :: "City list" where
  "CITIES =
     [\<lparr>ct_city_id = 1, ct_name = ''Bengaluru'', ct_center = (12.9716, 77.5946),
       ct_min_lat = 12.83, ct_max_lat = 13.14, ct_min_lon = 77.46, ct_max_lon = 77.78, ct_demand_weight = 1,
       ct_hotspots = [hotspot 12.9716 77.5946 2.5 0.35, hotspot 12.9352 77.6245 2.0 0.25,
                      hotspot 13.0359 77.5970 2.0 0.20, hotspot 12.9569 77.7011 2.5 0.20]\<rparr>,
      \<lparr>ct_city_id = 2, ct_name = ''Mumbai'', ct_center = (19.0760, 72.8777),
       ct_min_lat = 18.89, ct_max_lat = 19.28, ct_min_lon = 72.77, ct_max_lon = 73.03, ct_demand_weight = 0.95,
       ct_hotspots = [hotspot 19.0760 72.8777 2.5 0.30, hotspot 19.0176 72.8562 2.0 0.30,
                      hotspot 19.1136 72.8697 2.0 0.25, hotspot 19.2183 72.9781 3.0 0.15]\<rparr>,
      \<lparr>ct_city_id = 3, ct_name = ''Delhi'', ct_center = (28.6139, 77.2090),
       ct_min_lat = 28.40, ct_max_lat = 28.88, ct_min_lon = 76.94, ct_max_lon = 77.41, ct_demand_weight = 0.90,
       ct_hotspots = [hotspot 28.6139 77.2090 3.0 0.30, hotspot 28.5562 77.1000 2.5 0.25,
                      hotspot 28.6304 77.2177 2.0 0.25, hotspot 28.4595 77.0266 3.0 0.20]\<rparr>,
      \<lparr>ct_city_id = 4, ct_name = ''Hyderabad'', ct_center = (17.3850, 78.4867),
       ct_min_lat = 17.20, ct_max_lat = 17.60, ct_min_lon = 78.24, ct_max_lon = 78.65, ct_demand_weight = 0.60,
       ct_hotspots = [hotspot 17.3850 78.4867 2.5 0.35, hotspot 17.4435 78.3772 2.5 0.35,
                      hotspot 17.4933 78.3915 2.0 0.30]\<rparr>,
      \<lparr>ct_city_id = 5, ct_name = ''Chennai'', ct_center = (13.0827, 80.2707),
       ct_min_lat = 12.90, ct_max_lat = 13.23, ct_min_lon = 80.10, ct_max_lon = 80.32, ct_demand_weight = 0.55,
       ct_hotspots = [hotspot 13.0827 80.2707 2.5 0.40, hotspot 13.0475 80.2090 2.0 0.30,
                      hotspot 12.9791 80.2212 2.5 0.30]\<rparr>]"

definition CITY_BY_ID :: "(int, City) dict" where
  "CITY_BY_ID = map (\<lambda>c. (ct_city_id c, c)) CITIES"

definition TOTAL_DEMAND_WEIGHT :: real where
  "TOTAL_DEMAND_WEIGHT = sum_list (map ct_demand_weight CITIES)"

definition KM_PER_DEG_LAT :: real where
  "KM_PER_DEG_LAT = 111.32"

definition city_by_id :: "int \<Rightarrow> exn + City" where
  "city_by_id cid = (case map_of CITY_BY_ID cid of None \<Rightarrow> Inl (KeyError (int_digits cid)) | Some c \<Rightarrow> Inr c)"

text \<open>The first candidate at which the accumulated weight reaches the roll, or a default.\<close>

fun pick_weighted :: "('a \<Rightarrow> real) \<Rightarrow> real \<Rightarrow> real \<Rightarrow> 'a \<Rightarrow> 'a list \<Rightarrow> 'a" where
  "pick_weighted weight roll acc d [] = d"
| "pick_weighted weight roll acc d (x # xs) =
     (if roll \<le> acc + weight x then x else pick_weighted weight roll (acc + weight x) d xs)"

definition sample_hotspot_point :: "'g rng \<Rightarrow> City \<Rightarrow> 'g \<Rightarrow> (real \<times> real) \<times> 'g" where
  "sample_hotspot_point R city g =
     (let (x, g) = rn_random R g;
          roll = x * sum_list (map hs_weight (ct_hotspots city));
          spot = pick_weighted hs_weight roll 0 (last (ct_hotspots city)) (ct_hotspots city);
          sigma_deg = hs_sigma_km spot / KM_PER_DEG_LAT;
          (lat, g) = rn_gauss R (hs_lat spot) sigma_deg g;
          (lon, g) = rn_gauss R (hs_lon spot) sigma_deg g
      in (city_clamp city lat lon, g))"

section \<open>Points are where they belong\<close>

definition in_city :: "City \<Rightarrow> real \<times> real \<Rightarrow> bool" where
  "in_city c p \<longleftrightarrow> ct_min_lat c \<le> fst p \<and> fst p \<le> ct_max_lat c \<and> ct_min_lon c \<le> snd p \<and> snd p \<le> ct_max_lon c"

lemma CITIES_box: "c \<in> set CITIES \<Longrightarrow> ct_min_lat c \<le> ct_max_lat c \<and> ct_min_lon c \<le> ct_max_lon c"
  by (auto simp: CITIES_def)

lemma clamp_in_city: "c \<in> set CITIES \<Longrightarrow> in_city c (city_clamp c lat lon)"
  using CITIES_box [of c] by (auto simp: in_city_def city_clamp_def)

lemma sample_in_city:
  "c \<in> set CITIES \<Longrightarrow> sample_hotspot_point R c g = (p, g') \<Longrightarrow> in_city c p"
  using clamp_in_city by (auto simp: sample_hotspot_point_def Let_def split: prod.splits)

lemma CITIES_ids: "map ct_city_id CITIES = [1, 2, 3, 4, 5]"
  by (simp add: CITIES_def)

lemma city_by_id_ok: "c \<in> set CITIES \<Longrightarrow> city_by_id (ct_city_id c) = Inr c"
proof -
  assume c: "c \<in> set CITIES"
  have "map fst CITY_BY_ID = map ct_city_id CITIES" by (simp add: CITY_BY_ID_def)
  then have "dict_ok CITY_BY_ID" by (simp add: CITIES_ids)
  moreover have "(ct_city_id c, c) \<in> set CITY_BY_ID" using c by (auto simp: CITY_BY_ID_def)
  ultimately have "map_of CITY_BY_ID (ct_city_id c) = Some c" by simp
  then show ?thesis by (simp add: city_by_id_def del: map_of_eq_Some_iff)
qed

lemma pick_weighted_in: "d \<in> set ys \<Longrightarrow> set xs \<subseteq> set ys \<Longrightarrow> pick_weighted w r a d xs \<in> set ys"
  by (induction xs arbitrary: a) auto

lemma CITIES_nonempty [simp]: "CITIES \<noteq> []"
  by (simp add: CITIES_def)

end
