(* ===== verification/Drivers.thy ===== *)
theory Drivers
  imports Cities Events
begin

text \<open>
  \<open>generator/drivers.py\<close>: the driver fleet. \<open>_drivers\<close> is a dictionary from ids to driver objects
  and \<open>_by_city\<close> lists the same objects by city; here it lists their ids. The fleet draws from its
  own random stream. The ping loop of a tick may not end (a ping interval below a millisecond), so
  it is a partial function: \<open>None\<close> is a loop that never returns, \<open>Some (Inl e)\<close> an exception.
\<close>

definition IDLE :: string where "IDLE = ''idle''"
definition EN_ROUTE :: string where "EN_ROUTE = ''en_route_to_pickup''"
definition ON_TRIP :: string where "ON_TRIP = ''on_trip''"
definition OFFLINE :: string where "OFFLINE = ''offline''"

lemma status_distinct [simp]:
  "IDLE \<noteq> EN_ROUTE" "IDLE \<noteq> ON_TRIP" "IDLE \<noteq> OFFLINE" "EN_ROUTE \<noteq> ON_TRIP" "EN_ROUTE \<noteq> OFFLINE" "ON_TRIP \<noteq> OFFLINE"
  "EN_ROUTE \<noteq> IDLE" "ON_TRIP \<noteq> IDLE" "OFFLINE \<noteq> IDLE" "ON_TRIP \<noteq> EN_ROUTE" "OFFLINE \<noteq> EN_ROUTE" "OFFLINE \<noteq> ON_TRIP"
  by (simp_all add: IDLE_def EN_ROUTE_def ON_TRIP_def OFFLINE_def)

abbreviation AssertionError :: exn where "AssertionError \<equiv> Exn ''AssertionError'' []"

record Driver =
  dr_driver_id :: string
  dr_city_id :: int
  dr_lat :: real
  dr_lon :: real
  dr_heading :: real
  dr_speed_kmh :: real
  dr_status :: string
  dr_ride_id :: "string option"
  dr_target :: "(real \<times> real) option"
  dr_leg_start :: "(real \<times> real) option"
  dr_leg_start_ms :: int
  dr_leg_end_ms :: int
  dr_next_ping_ms :: int
  dr_back_online_ms :: int

record 'g fleet =
  fl_rng :: 'g
  fl_drivers :: "(string, Driver) dict"
  fl_by_city :: "(int, string list) dict"
  fl_overflow :: nat

text \<open>\<open>min(max(x, lo), hi)\<close> and \<open>round(x, k)\<close>.\<close>

definition clip :: "real \<Rightarrow> real \<Rightarrow> real \<Rightarrow> real" where
  "clip lo hi x = min (max x lo) hi"

definition round_to :: "nat \<Rightarrow> real \<Rightarrow> real" where
  "round_to k x = of_int (round_even (x * 10 ^ k)) / 10 ^ k"

section \<open>The fleet\<close>

definition put_driver :: "Driver \<Rightarrow> 'g fleet \<Rightarrow> 'g fleet" where
  "put_driver d ft = ft\<lparr>fl_drivers := AList.update (dr_driver_id d) d (fl_drivers ft)\<rparr>"

definition get_driver :: "'g fleet \<Rightarrow> string \<Rightarrow> exn + Driver" where
  "get_driver ft did = (case map_of (fl_drivers ft) did of None \<Rightarrow> Inl (KeyError did) | Some d \<Rightarrow> Inr d)"

definition spawn_driver :: "GeneratorConfig \<Rightarrow> 'g rng \<Rightarrow> City \<Rightarrow> string \<Rightarrow> int \<Rightarrow> 'g fleet \<Rightarrow> Driver \<times> 'g fleet" where
  "spawn_driver cfg R city did now ft =
     (let ((lat, lon), g) = sample_hotspot_point R city (fl_rng ft);
          (heading, g) = rn_uniform R 0 360 g;
          (u, g) = rn_uniform R 0 (ping_interval_sec cfg) g;
          d = \<lparr>dr_driver_id = did, dr_city_id = ct_city_id city, dr_lat = lat, dr_lon = lon,
               dr_heading = heading, dr_speed_kmh = 0, dr_status = IDLE, dr_ride_id = None,
               dr_target = None, dr_leg_start = None, dr_leg_start_ms = 0, dr_leg_end_ms = 0,
               dr_next_ping_ms = now + trunc (u * 1000), dr_back_online_ms = 0\<rparr>;
          ids = (case map_of (fl_by_city ft) (ct_city_id city) of None \<Rightarrow> [] | Some ds \<Rightarrow> ds)
      in (d, (put_driver d ft)\<lparr>fl_rng := g,
               fl_by_city := AList.update (ct_city_id city) (ids @ [did]) (fl_by_city ft)\<rparr>))"

definition city_driver_count :: "GeneratorConfig \<Rightarrow> City \<Rightarrow> nat" where
  "city_driver_count cfg city =
     nat (max (round_even (of_int (drivers_total cfg) * (ct_demand_weight city / TOTAL_DEMAND_WEIGHT))) 4)"

definition new_fleet :: "GeneratorConfig \<Rightarrow> 'g rng \<Rightarrow> 'g \<Rightarrow> int \<Rightarrow> 'g fleet" where
  "new_fleet cfg R g anchor_ms =
     fold (\<lambda>city ft. fold (\<lambda>n ft. snd (spawn_driver cfg R city
              (''d-'' @ int_digits (ct_city_id city) @ ''-'' @ padded 4 n) anchor_ms ft))
            [0..<city_driver_count cfg city] ft) CITIES
       \<lparr>fl_rng = g, fl_drivers = [], fl_by_city = map (\<lambda>c. (ct_city_id c, [])) CITIES, fl_overflow = 0\<rparr>"

section \<open>Assignment\<close>

text \<open>\<open>min(xs, key=f)\<close>: the first of the smallest.\<close>

fun first_min :: "('a \<Rightarrow> real) \<Rightarrow> 'a \<Rightarrow> 'a list \<Rightarrow> 'a" where
  "first_min f best [] = best"
| "first_min f best (x # xs) = first_min f (if f x < f best then x else best) xs"

definition begin_leg :: "string \<Rightarrow> real \<times> real \<Rightarrow> int \<Rightarrow> int \<Rightarrow> Driver \<Rightarrow> Driver" where
  "begin_leg status target now leg_ms d =
     d\<lparr>dr_status := status, dr_target := Some target, dr_leg_start := Some (dr_lat d, dr_lon d),
       dr_leg_start_ms := now, dr_leg_end_ms := now + max leg_ms 1000\<rparr>"

definition idle_drivers :: "'g fleet \<Rightarrow> int \<Rightarrow> exn + Driver list" where
  "idle_drivers ft city_id =
     (case map_of (fl_by_city ft) city_id of
        None \<Rightarrow> Inl (KeyError (int_digits city_id))
      | Some ids \<Rightarrow> Inr (filter (\<lambda>d. dr_status d = IDLE) (List.map_filter (map_of (fl_drivers ft)) ids)))"

definition assign :: "GeneratorConfig \<Rightarrow> 'g rng \<Rightarrow> int \<Rightarrow> real \<times> real \<Rightarrow> int \<Rightarrow> 'g fleet
    \<Rightarrow> exn + ((string \<times> real) \<times> 'g fleet)" where
  "assign cfg R city_id pickup now ft =
     rbind (city_by_id city_id) (\<lambda>city.
     rbind (idle_drivers ft city_id) (\<lambda>idle.
       let (d, ft) =
             (case idle of
                x # xs \<Rightarrow> (first_min (\<lambda>d. haversine_km (dr_lat d) (dr_lon d) (fst pickup) (snd pickup)) x xs, ft)
              | [] \<Rightarrow>
                  (let ft = ft\<lparr>fl_overflow := fl_overflow ft + 1\<rparr>
                   in spawn_driver cfg R city
                        (''d-'' @ int_digits city_id @ ''-x'' @ padded 4 (fl_overflow ft)) now ft));
           distance = haversine_km (dr_lat d) (dr_lon d) (fst pickup) (snd pickup);
           (x, g) = rn_gauss R 30 6 (fl_rng ft);
           spd = clip 15 50 x;
           travel_sec = max (distance / spd * 3600) 20
       in Inr ((dr_driver_id d, travel_sec),
               put_driver (begin_leg EN_ROUTE pickup now (trunc (travel_sec * 1000)) d) (ft\<lparr>fl_rng := g\<rparr>))))"

definition ride_started :: "string \<Rightarrow> real \<times> real \<Rightarrow> real \<Rightarrow> int \<Rightarrow> 'g fleet \<Rightarrow> exn + 'g fleet" where
  "ride_started did dropoff dur_sec now ft =
     rbind (get_driver ft did) (\<lambda>d.
       Inr (put_driver (begin_leg ON_TRIP dropoff now (trunc (dur_sec * 1000)) d) ft))"

definition release :: "'g rng \<Rightarrow> string \<Rightarrow> (real \<times> real) option \<Rightarrow> 'g fleet \<Rightarrow> exn + 'g fleet" where
  "release R did place ft =
     rbind (get_driver ft did) (\<lambda>d.
       let d = (case place of None \<Rightarrow> d | Some p \<Rightarrow> d\<lparr>dr_lat := fst p, dr_lon := snd p\<rparr>);
           (x, g) = rn_gauss R 12 5 (fl_rng ft)
       in Inr ((put_driver (d\<lparr>dr_status := IDLE, dr_ride_id := None, dr_target := None,
                 dr_speed_kmh := clip 0 30 x\<rparr>) ft)\<lparr>fl_rng := g\<rparr>))"

section \<open>Ticks\<close>

definition move_along_leg :: "'g rng \<Rightarrow> real \<times> real \<Rightarrow> int \<Rightarrow> Driver \<Rightarrow> 'g \<Rightarrow> exn + Driver \<times> 'g" where
  "move_along_leg R target now d g =
     (case dr_leg_start d of
        None \<Rightarrow> Inl AssertionError
      | Some start \<Rightarrow>
          rbind (city_by_id (dr_city_id d)) (\<lambda>city.
            let span = max (dr_leg_end_ms d - dr_leg_start_ms d) 1;
                progress = clip 0 1 (of_int (now - dr_leg_start_ms d) / of_int span);
                (jitter, g) = rn_gauss R 0 (3 / 10000) g;
                (lat, lon) = city_clamp city (fst start + (fst target - fst start) * progress + jitter)
                               (snd start + (snd target - snd start) * progress + jitter);
                remaining_km = haversine_km lat lon (fst target) (snd target);
                remaining_h = max (of_int (dr_leg_end_ms d - now) / 3600000) (1 / 10000);
                base = (if dr_status d = EN_ROUTE then 45 else 50)
            in Inr (d\<lparr>dr_lat := lat, dr_lon := lon, dr_speed_kmh := clip 8 (base + 10) (remaining_km / remaining_h),
                      dr_heading := initial_bearing_deg lat lon (fst target) (snd target)\<rparr>, g)))"

definition cruise :: "GeneratorConfig \<Rightarrow> 'g rng \<Rightarrow> Driver \<Rightarrow> 'g \<Rightarrow> exn + Driver \<times> 'g" where
  "cruise cfg R d g =
     rbind (city_by_id (dr_city_id d)) (\<lambda>city.
       let (turn, g) = rn_gauss R 0 30 g;
           heading = float_mod (dr_heading d + turn) 360;
           (x, g) = rn_gauss R 14 6 g;
           spd = clip 0 30 x;
           step_km = spd * ping_interval_sec cfg / 3600;
           (lat, lon) = destination_point (dr_lat d) (dr_lon d) heading step_km;
           (clat, clon) = city_clamp city lat lon;
           heading = (if clat \<noteq> lat \<or> clon \<noteq> lon then float_mod (heading + 180) 360 else heading)
       in Inr (d\<lparr>dr_heading := heading, dr_speed_kmh := spd, dr_lat := clat, dr_lon := clon\<rparr>, g))"

definition move :: "GeneratorConfig \<Rightarrow> 'g rng \<Rightarrow> int \<Rightarrow> Driver \<Rightarrow> 'g \<Rightarrow> exn + Driver \<times> 'g" where
  "move cfg R now d g =
     (case (dr_status d \<in> {EN_ROUTE, ON_TRIP}, dr_target d) of
        (True, Some target) \<Rightarrow> move_along_leg R target now d g
      | _ \<Rightarrow> if dr_status d = IDLE then cruise cfg R d g else Inr (d, g))"

definition ping :: "Driver \<Rightarrow> int \<Rightarrow> source_event" where
  "ping d ts_ms = driver_location_event (dr_driver_id d) ts_ms (dr_lat d) (dr_lon d)
     (round_to 1 (dr_speed_kmh d)) (round_to 1 (dr_heading d)) (dr_status d) (dr_city_id d)"

text \<open>The draw is made only for an idle driver.\<close>

definition maybe_go_offline :: "GeneratorConfig \<Rightarrow> 'g rng \<Rightarrow> int \<Rightarrow> Driver \<Rightarrow> 'g \<Rightarrow> bool \<times> Driver \<times> 'g" where
  "maybe_go_offline cfg R now d g =
     (if dr_status d \<noteq> IDLE then (False, d, g)
      else let (x, g) = rn_random R g in
        if x \<ge> offline_prob_per_ping cfg then (False, d, g)
        else let (e, g) = rn_expovariate R (1 / 900) g in
          (True, d\<lparr>dr_status := OFFLINE, dr_speed_kmh := 0,
                   dr_back_online_ms := now + trunc (clip 120 3600 e * 1000)\<rparr>, g))"

partial_function (option) ping_loop :: "GeneratorConfig \<Rightarrow> 'g rng \<Rightarrow> int \<Rightarrow> int \<Rightarrow> Driver \<Rightarrow> 'g
    \<Rightarrow> (exn + Driver \<times> source_event list \<times> 'g) option" where
  "ping_loop cfg R interval_ms now d g =
     (if dr_next_ping_ms d \<le> now then
        (case move cfg R (dr_next_ping_ms d) d g of
           Inl e \<Rightarrow> Some (Inl e)
         | Inr (d1, g1) \<Rightarrow>
             (case maybe_go_offline cfg R (dr_next_ping_ms d)
                     (d1\<lparr>dr_next_ping_ms := dr_next_ping_ms d + interval_ms\<rparr>) g1 of
                (offline, d2, g2) \<Rightarrow>
                  if offline then Some (Inr (d2, [ping d1 (dr_next_ping_ms d), ping d2 (dr_next_ping_ms d)], g2))
                  else Option.bind (ping_loop cfg R interval_ms now d2 g2) (\<lambda>r.
                    Some (rbind r (\<lambda>(d3, events, g3). Inr (d3, ping d1 (dr_next_ping_ms d) # events, g3))))))
      else Some (Inr (d, [], g)))"

definition driver_tick :: "GeneratorConfig \<Rightarrow> 'g rng \<Rightarrow> int \<Rightarrow> Driver \<Rightarrow> 'g
    \<Rightarrow> (exn + Driver \<times> source_event list \<times> 'g) option" where
  "driver_tick cfg R now d g =
     (let interval_ms = trunc (ping_interval_sec cfg * 1000) in
      if dr_status d = OFFLINE then
        if now \<ge> dr_back_online_ms d
        then ping_loop cfg R interval_ms now (d\<lparr>dr_status := IDLE, dr_next_ping_ms := now\<rparr>) g
        else Some (Inr (d, [], g))
      else ping_loop cfg R interval_ms now d g)"

fun drivers_tick :: "GeneratorConfig \<Rightarrow> 'g rng \<Rightarrow> int \<Rightarrow> (string, Driver) dict \<Rightarrow> 'g
    \<Rightarrow> (exn + (string, Driver) dict \<times> source_event list \<times> 'g) option" where
  "drivers_tick cfg R now [] g = Some (Inr ([], [], g))"
| "drivers_tick cfg R now ((did, d) # rest) g =
     (case driver_tick cfg R now d g of
        None \<Rightarrow> None
      | Some (Inl e) \<Rightarrow> Some (Inl e)
      | Some (Inr (d, events, g)) \<Rightarrow>
          (case drivers_tick cfg R now rest g of
             None \<Rightarrow> None
           | Some (Inl e) \<Rightarrow> Some (Inl e)
           | Some (Inr (rest, events', g)) \<Rightarrow> Some (Inr ((did, d) # rest, events @ events', g))))"

definition fleet_on_tick :: "GeneratorConfig \<Rightarrow> 'g rng \<Rightarrow> int \<Rightarrow> 'g fleet \<Rightarrow> (exn + source_event list \<times> 'g fleet) option" where
  "fleet_on_tick cfg R now ft =
     (case drivers_tick cfg R now (fl_drivers ft) (fl_rng ft) of
        None \<Rightarrow> None
      | Some (Inl e) \<Rightarrow> Some (Inl e)
      | Some (Inr (drivers, events, g)) \<Rightarrow> Some (Inr (events, ft\<lparr>fl_drivers := drivers, fl_rng := g\<rparr>)))"

end
