(* ===== verification/Rides.thy ===== *)
theory Rides
  imports Drivers
begin

text \<open>
  \<open>generator/rides.py\<close>: the ride simulator. A ride is driven through the lifecycle machine by its
  planned next event; \<open>simulator\<close> is the object, with the fleet it owns. A tick moves the fleet,
  spawns rides, fires due events and releases due payments. Every exception the code could raise is
  a branch; that none is raised is proved in \<open>Simulation\<close>. Floats are real numbers, so the spawn
  loop ends; with doubles it would not for a carry beyond \<open>2^53\<close>.
\<close>

definition BASE_FARE_CENTS :: real where "BASE_FARE_CENTS = 5000"
definition PER_KM_CENTS :: real where "PER_KM_CENTS = 1500"
definition PER_MIN_CENTS :: real where "PER_MIN_CENTS = 200"

definition PROMO_CODES :: "string list" where
  "PROMO_CODES = [''SAVE10'', ''FIRST50'', ''WKND20'', ''MONSOON15'']"

record ActiveRide =
  ar_ride_id :: string
  ar_rider_id :: string
  ar_city_id :: int
  ar_pickup :: "real \<times> real"
  ar_dropoff :: "real \<times> real"
  ar_surge :: real
  ar_machine :: machine
  ar_driver_id :: "string option"
  ar_requested_ms :: int
  ar_started_ms :: int
  ar_fare_cents :: "int option"
  ar_next_at_ms :: int
  ar_next_event :: "ride_event_type option"
  ar_stop_after :: "ride_event_type option"
  ar_distance_km :: real
  ar_duration_sec :: real
  ar_promo_code :: "string option"

record 'g simulator =
  sm_rng :: 'g
  sm_fleet :: "'g fleet"
  sm_active :: "(string, ActiveRide) dict"
  sm_payments :: "(int \<times> source_event) list"
  sm_counter :: nat
  sm_spawn_carry :: real
  sm_completed :: nat
  sm_cancelled :: nat

record 'g sim_env =
  en_cfg :: GeneratorConfig
  en_R :: "'g rng"
  en_anchor_ms :: int
  en_run_token :: string

text \<open>The run token is a checksum of the seed and the anchor; \<open>crc32\<close> is that of zlib.\<close>

definition run_token :: "(string \<Rightarrow> nat) \<Rightarrow> GeneratorConfig \<Rightarrow> int \<Rightarrow> string" where
  "run_token crc32 cfg anchor_ms =
     zero_pad 6 (hex_digits (crc32 (int_digits (seed cfg) @ '':'' @ int_digits anchor_ms) mod 2 ^ 24))"

definition new_simulator :: "'g fleet \<Rightarrow> 'g \<Rightarrow> 'g simulator" where
  "new_simulator fleet g =
     \<lparr>sm_rng = g, sm_fleet = fleet, sm_active = [], sm_payments = [], sm_counter = 0,
      sm_spawn_carry = 0, sm_completed = 0, sm_cancelled = 0\<rparr>"

section \<open>Draws on the simulator's stream\<close>

definition sim_random :: "'g sim_env \<Rightarrow> 'g simulator \<Rightarrow> real \<times> 'g simulator" where
  "sim_random env s = (let (x, g) = rn_random (en_R env) (sm_rng s) in (x, s\<lparr>sm_rng := g\<rparr>))"

definition sim_uniform :: "'g sim_env \<Rightarrow> real \<Rightarrow> real \<Rightarrow> 'g simulator \<Rightarrow> real \<times> 'g simulator" where
  "sim_uniform env a b s = (let (x, g) = rn_uniform (en_R env) a b (sm_rng s) in (x, s\<lparr>sm_rng := g\<rparr>))"

definition sim_gauss :: "'g sim_env \<Rightarrow> real \<Rightarrow> real \<Rightarrow> 'g simulator \<Rightarrow> real \<times> 'g simulator" where
  "sim_gauss env a b s = (let (x, g) = rn_gauss (en_R env) a b (sm_rng s) in (x, s\<lparr>sm_rng := g\<rparr>))"

definition sim_exp :: "'g sim_env \<Rightarrow> real \<Rightarrow> 'g simulator \<Rightarrow> real \<times> 'g simulator" where
  "sim_exp env mean s = (let (x, g) = rn_expovariate (en_R env) (1 / mean) (sm_rng s) in (x, s\<lparr>sm_rng := g\<rparr>))"

definition sim_randrange :: "'g sim_env \<Rightarrow> int \<Rightarrow> 'g simulator \<Rightarrow> exn + int \<times> 'g simulator" where
  "sim_randrange env n s =
     rbind (randrange (en_R env) n (sm_rng s)) (\<lambda>(k, g). Inr (k, s\<lparr>sm_rng := g\<rparr>))"

definition sim_choice :: "'g sim_env \<Rightarrow> 'a list \<Rightarrow> 'g simulator \<Rightarrow> 'a \<times> 'g simulator" where
  "sim_choice env xs s = (let (x, g) = choice (en_R env) xs (sm_rng s) in (x, s\<lparr>sm_rng := g\<rparr>))"

definition sim_point :: "'g sim_env \<Rightarrow> City \<Rightarrow> 'g simulator \<Rightarrow> (real \<times> real) \<times> 'g simulator" where
  "sim_point env city s =
     (let (p, g) = sample_hotspot_point (en_R env) city (sm_rng s) in (p, s\<lparr>sm_rng := g\<rparr>))"

definition demand_factor :: "GeneratorConfig \<Rightarrow> int \<Rightarrow> real" where
  "demand_factor cfg now = (if diurnal_on cfg then demand_curve now else 1)"

definition surge_for :: "'g sim_env \<Rightarrow> int \<Rightarrow> 'g simulator \<Rightarrow> real \<times> 'g simulator" where
  "surge_for env now s =
     (let (x, s) = sim_gauss env 0 (1 / 10) s;
          surge = 55 / 100 + 45 / 100 * demand_factor (en_cfg env) now + x
      in (round_to 2 (clip 1 3 surge), s))"

definition pick_city :: "'g sim_env \<Rightarrow> 'g simulator \<Rightarrow> City \<times> 'g simulator" where
  "pick_city env s =
     (let (x, s) = sim_random env s
      in (pick_weighted ct_demand_weight (x * TOTAL_DEMAND_WEIGHT) 0 (last CITIES) CITIES, s))"

definition payload_version :: "'g sim_env \<Rightarrow> int \<Rightarrow> int" where
  "payload_version env at_ms =
     (case evolve_after_sec (en_cfg env) of
        None \<Rightarrow> 1
      | Some after \<Rightarrow>
          if of_int (at_ms - en_anchor_ms env) / 1000 \<ge> after * speed (en_cfg env) then 2 else 1)"

section \<open>Spawning\<close>

definition plan :: "ride_event_type \<Rightarrow> int \<Rightarrow> ActiveRide \<Rightarrow> ActiveRide" where
  "plan event at_ms ride = ride\<lparr>ar_next_event := Some event, ar_next_at_ms := at_ms\<rparr>"

lemma plan_fields [simp]:
  "ar_ride_id (plan e t ride) = ar_ride_id ride" "ar_machine (plan e t ride) = ar_machine ride"
  "ar_stop_after (plan e t ride) = ar_stop_after ride" "ar_driver_id (plan e t ride) = ar_driver_id ride"
  "ar_next_event (plan e t ride) = Some e" "ar_next_at_ms (plan e t ride) = t"
  by (simp_all add: plan_def)

definition schedule_after_requested :: "'g sim_env \<Rightarrow> ActiveRide \<Rightarrow> 'g simulator \<Rightarrow> ActiveRide \<times> 'g simulator" where
  "schedule_after_requested env ride s =
     (let (x, s) = sim_random env s in
      if x < cancel_prob (en_cfg env) ''requested'' then
        let (e, s) = sim_exp env 90 s
        in (plan CANCELLED (ar_requested_ms ride + trunc (min e 600 * 1000)) ride, s)
      else
        let (e, s) = sim_exp env 30 s
        in (plan MATCHED (ar_requested_ms ride + trunc (clip 3 240 e * 1000)) ride, s))"

text \<open>An event of a ride as \<open>_create_ride\<close> and \<open>_fire\<close> build it.\<close>

definition emit :: "'g sim_env \<Rightarrow> ActiveRide \<Rightarrow> ride_event_type \<Rightarrow> int \<Rightarrow> source_event" where
  "emit env ride event_type at_ms =
     (let version = payload_version env at_ms in
      ride_event (ar_ride_id ride) event_type at_ms (ar_rider_id ride) (ar_city_id ride) (ar_pickup ride)
        (ar_surge ride) (ar_driver_id ride)
        (if event_type \<in> {REQUESTED, STARTED, COMPLETED} then Some (ar_dropoff ride) else None)
        (if event_type = COMPLETED then ar_fare_cents ride else None)
        version (if version \<ge> 2 then ar_promo_code ride else None))"

text \<open>The draws of \<open>_create_ride\<close>, in the order the code makes them.\<close>

definition ride_ends :: "'g sim_env \<Rightarrow> City \<Rightarrow> 'g simulator \<Rightarrow> ((real \<times> real) \<times> (real \<times> real)) \<times> 'g simulator" where
  "ride_ends env city s =
     (let (pickup, s) = sim_point env city s;
          (dropoff, s) = sim_point env city s
      in if haversine_km (fst pickup) (snd pickup) (fst dropoff) (snd dropoff) < 1 / 2
         then let (dropoff, s) = sim_point env city s in ((pickup, dropoff), s)
         else ((pickup, dropoff), s))"

definition maybe_promo :: "'g sim_env \<Rightarrow> 'g simulator \<Rightarrow> string option \<times> 'g simulator" where
  "maybe_promo env s =
     (let (x, s) = sim_random env s in
      if x < 15 / 100 then let (p, s) = sim_choice env PROMO_CODES s in (Some p, s) else (None, s))"

definition maybe_abandon :: "'g sim_env \<Rightarrow> 'g simulator \<Rightarrow> ride_event_type option \<times> 'g simulator" where
  "maybe_abandon env s =
     (let (x, s) = sim_random env s in
      if x < abandon_rate (en_cfg env)
      then let (e, s) = sim_choice env [MATCHED, DRIVER_ARRIVED] s in (Some e, s) else (None, s))"

definition create_ride :: "'g sim_env \<Rightarrow> int \<Rightarrow> 'g simulator \<Rightarrow> exn + source_event \<times> 'g simulator" where
  "create_ride env now s =
     (let s = s\<lparr>sm_counter := sm_counter s + 1\<rparr>;
          (city, s) = pick_city env s;
          ride_id = ''r-'' @ en_run_token env @ ''-'' @ padded 6 (sm_counter s);
          ((pickup, dropoff), s) = ride_ends env city s
      in rbind (sim_randrange env 200000 s) (\<lambda>(rider, s).
         let (surge, s) = surge_for env now s
         in rbind (sim_randrange env (tick_ms (en_cfg env)) s) (\<lambda>(jitter, s).
         let (promo, s) = maybe_promo env s
         in rbind (advance machine_init REQUESTED) (\<lambda>machine.
         let (stop, s) = maybe_abandon env s;
             ride = \<lparr>ar_ride_id = ride_id, ar_rider_id = ''u-'' @ padded 6 (nat rider),
                     ar_city_id = ct_city_id city, ar_pickup = pickup, ar_dropoff = dropoff,
                     ar_surge = surge, ar_machine = machine, ar_driver_id = None,
                     ar_requested_ms = now + jitter, ar_started_ms = 0, ar_fare_cents = None,
                     ar_next_at_ms = 0, ar_next_event = None, ar_stop_after = stop,
                     ar_distance_km = haversine_km (fst pickup) (snd pickup) (fst dropoff) (snd dropoff),
                     ar_duration_sec = 0, ar_promo_code = promo\<rparr>;
             (ride, s) = schedule_after_requested env ride s
         in Inr (emit env ride REQUESTED (ar_requested_ms ride),
                 s\<lparr>sm_active := AList.update ride_id ride (sm_active s)\<rparr>)))))"

text \<open>A draw changes nothing but the stream.\<close>

lemma sim_drawn:
  "sim_random env s = (x, s') \<Longrightarrow> \<exists>g. s' = s\<lparr>sm_rng := g\<rparr>"
  "sim_uniform env a b s = (x, s') \<Longrightarrow> \<exists>g. s' = s\<lparr>sm_rng := g\<rparr>"
  "sim_gauss env a b s = (x, s') \<Longrightarrow> \<exists>g. s' = s\<lparr>sm_rng := g\<rparr>"
  "sim_exp env a s = (x, s') \<Longrightarrow> \<exists>g. s' = s\<lparr>sm_rng := g\<rparr>"
  "sim_choice env xs s = (z, s') \<Longrightarrow> \<exists>g. s' = s\<lparr>sm_rng := g\<rparr>"
  "sim_point env city s = (p, s') \<Longrightarrow> \<exists>g. s' = s\<lparr>sm_rng := g\<rparr>"
  "sim_randrange env n s = Inr (k, s') \<Longrightarrow> \<exists>g. s' = s\<lparr>sm_rng := g\<rparr>"
  by (auto simp: sim_random_def sim_uniform_def sim_gauss_def sim_exp_def sim_choice_def sim_point_def
      sim_randrange_def rbind_eq_Inr Let_def split: prod.splits)

lemma sim_drawn_more:
  "pick_city env s = (c, s') \<Longrightarrow> \<exists>g. s' = s\<lparr>sm_rng := g\<rparr>"
  "surge_for env now s = (x, s') \<Longrightarrow> \<exists>g. s' = s\<lparr>sm_rng := g\<rparr>"
  "schedule_after_requested env ride s = (ride', s') \<Longrightarrow> \<exists>g. s' = s\<lparr>sm_rng := g\<rparr>"
  "ride_ends env city s = (ends, s') \<Longrightarrow> \<exists>g. s' = s\<lparr>sm_rng := g\<rparr>"
  "maybe_promo env s = (p, s') \<Longrightarrow> \<exists>g. s' = s\<lparr>sm_rng := g\<rparr>"
  "maybe_abandon env s = (e, s') \<Longrightarrow> \<exists>g. s' = s\<lparr>sm_rng := g\<rparr>"
  by (auto simp: pick_city_def surge_for_def schedule_after_requested_def ride_ends_def maybe_promo_def
      maybe_abandon_def Let_def split: prod.splits if_splits dest!: sim_drawn)

lemma create_ride_carry:
  assumes "create_ride env now s = Inr (ev, s')"
  shows "sm_spawn_carry s' = sm_spawn_carry s"
proof -
  obtain city s1 where 1: "pick_city env (s\<lparr>sm_counter := sm_counter s + 1\<rparr>) = (city, s1)" by fastforce
  obtain pickup dropoff s2 where 2: "ride_ends env city s1 = ((pickup, dropoff), s2)"
    by (metis surj_pair)
  from assms 1 2 show ?thesis
    by (auto simp: create_ride_def Let_def rbind_eq_Inr case_prod_eq
        dest!: sim_drawn sim_drawn_more)
qed

section \<open>The spawn loop\<close>

text \<open>\<open>while self._spawn_carry >= 1.0\<close>: the carry falls by one each time.\<close>

function spawn_loop :: "'g sim_env \<Rightarrow> int \<Rightarrow> 'g simulator \<Rightarrow> exn + source_event list \<times> 'g simulator" where
  "spawn_loop env now s =
     (if sm_spawn_carry s \<ge> 1 then
        (case create_ride env now (s\<lparr>sm_spawn_carry := sm_spawn_carry s - 1\<rparr>) of
           Inl e \<Rightarrow> Inl e
         | Inr (ev, s') \<Rightarrow> rbind (spawn_loop env now s') (\<lambda>(evs, s). Inr (ev # evs, s)))
      else Inr ([], s))"
  by pat_completeness auto
termination
proof (relation "measure (\<lambda>(env, now, s). nat \<lfloor>sm_spawn_carry s\<rfloor>)")
  fix env :: "'g sim_env" and now s x y s'
  assume s: "1 \<le> sm_spawn_carry s"
    and "create_ride env now (s\<lparr>sm_spawn_carry := sm_spawn_carry s - 1\<rparr>) = Inr y" "(x, s') = y"
  then have "sm_spawn_carry s' = sm_spawn_carry s - 1" by (auto dest!: create_ride_carry)
  with s show "((env, now, s'), (env, now, s)) \<in> measure (\<lambda>(env, now, s). nat \<lfloor>sm_spawn_carry s\<rfloor>)"
    by (simp add: nat_less_eq_zless)
qed simp

declare spawn_loop.simps [simp del]

definition spawn :: "'g sim_env \<Rightarrow> int \<Rightarrow> 'g simulator \<Rightarrow> exn + source_event list \<times> 'g simulator" where
  "spawn env now s =
     (let rate_per_tick = base_rides_per_min (en_cfg env) / 60 * (tick_ms (en_cfg env) / 1000)
                            * demand_factor (en_cfg env) now
      in spawn_loop env now (s\<lparr>sm_spawn_carry := sm_spawn_carry s + rate_per_tick\<rparr>))"

section \<open>Progress\<close>

definition has_due_event :: "ActiveRide \<Rightarrow> int \<Rightarrow> bool" where
  "has_due_event ride now \<longleftrightarrow> ar_next_event ride \<noteq> None \<and> ar_next_at_ms ride \<le> now"

definition release_driver :: "'g sim_env \<Rightarrow> ActiveRide \<Rightarrow> (real \<times> real) option \<Rightarrow> 'g simulator \<Rightarrow> exn + 'g simulator" where
  "release_driver env ride place s =
     (case ar_driver_id ride of
        None \<Rightarrow> Inr s
      | Some did \<Rightarrow> rbind (release (en_R env) did place (sm_fleet s)) (\<lambda>ft. Inr (s\<lparr>sm_fleet := ft\<rparr>)))"

definition after_matched :: "'g sim_env \<Rightarrow> int \<Rightarrow> ActiveRide \<Rightarrow> 'g simulator \<Rightarrow> exn + ActiveRide \<times> 'g simulator" where
  "after_matched env at_ms ride s =
     rbind (assign (en_cfg env) (en_R env) (ar_city_id ride) (ar_pickup ride) at_ms (sm_fleet s))
       (\<lambda>((did, travel_sec), ft).
         let s = s\<lparr>sm_fleet := ft\<rparr>; ride = ride\<lparr>ar_driver_id := Some did\<rparr> in
         if ar_stop_after ride = Some MATCHED then rbind (release_driver env ride None s) (\<lambda>s. Inr (ride, s))
         else let (x, s) = sim_random env s in
           if x < cancel_prob (en_cfg env) ''matched'' then
             let (e, s) = sim_exp env 60 s in Inr (plan CANCELLED (at_ms + trunc (e * 1000)) ride, s)
           else Inr (plan DRIVER_ARRIVED (at_ms + trunc (travel_sec * 1000)) ride, s))"

definition after_arrived :: "'g sim_env \<Rightarrow> int \<Rightarrow> ActiveRide \<Rightarrow> 'g simulator \<Rightarrow> ActiveRide \<times> 'g simulator" where
  "after_arrived env at_ms ride s =
     (let (x, s) = sim_random env s in
      if x < cancel_prob (en_cfg env) ''driver_arrived'' then
        let (e, s) = sim_exp env 45 s in (plan CANCELLED (at_ms + trunc (e * 1000)) ride, s)
      else
        let (u, s) = sim_uniform env 10 90 s in (plan STARTED (at_ms + trunc (u * 1000)) ride, s))"

definition after_started :: "'g sim_env \<Rightarrow> int \<Rightarrow> ActiveRide \<Rightarrow> 'g simulator \<Rightarrow> exn + ActiveRide \<times> 'g simulator" where
  "after_started env at_ms ride s =
     (let (x, s) = sim_gauss env 26 7 s;
          speed_kmh = clip 10 55 x;
          (y, s) = sim_gauss env 0 (1 / 10) s;
          dur = ar_distance_km ride / speed_kmh * 3600 * (1 + y);
          ride = ride\<lparr>ar_duration_sec := max dur 60\<rparr>
      in rbind (case ar_driver_id ride of
                  None \<Rightarrow> Inr s
                | Some did \<Rightarrow>
                    rbind (ride_started did (ar_dropoff ride) (ar_duration_sec ride) at_ms (sm_fleet s))
                      (\<lambda>ft. Inr (s\<lparr>sm_fleet := ft\<rparr>)))
           (\<lambda>s. let (z, s) = sim_random env s in
             if z < cancel_prob (en_cfg env) ''started'' then
               let (u, s) = sim_uniform env (1 / 10) (8 / 10) s
               in Inr (plan CANCELLED (at_ms + trunc (ar_duration_sec ride * u * 1000)) ride, s)
             else Inr (plan COMPLETED (at_ms + trunc (ar_duration_sec ride * 1000)) ride, s)))"

definition fare :: "ActiveRide \<Rightarrow> int" where
  "fare ride =
     (let minutes = ar_duration_sec ride / 60;
          raw = BASE_FARE_CENTS + PER_KM_CENTS * ar_distance_km ride + PER_MIN_CENTS * minutes
      in trunc (raw * ar_surge ride))"

definition queue_payment :: "'g sim_env \<Rightarrow> ActiveRide \<Rightarrow> int \<Rightarrow> 'g simulator \<Rightarrow> exn + 'g simulator" where
  "queue_payment env ride completed_ms s =
     (let (u, s) = sim_uniform env 5 90 s;
          due_ms = completed_ms + trunc (u * 1000);
          (roll, s) = sim_random env s;
          status = (if roll < 96 / 100 then ''completed'' else if roll < 99 / 100 then ''failed'' else ''refunded'');
          (method_roll, s) = sim_random env s;
          pay_method = (if method_roll < 55 / 100 then ''card'' else if method_roll < 85 / 100 then ''wallet'' else ''cash'')
      in case ar_fare_cents ride of
           None \<Rightarrow> Inl AssertionError
         | Some cents \<Rightarrow>
             Inr (s\<lparr>sm_payments := sm_payments s @
               [(due_ms, payment_event (''t-'' @ ar_ride_id ride) (ar_ride_id ride) cents status pay_method due_ms)]\<rparr>))"

end
