(* ===== verification/Ride_Ticks.thy ===== *)
theory Ride_Ticks
  imports Rides
begin

text \<open>
  \<open>generator/rides.py\<close>, continued: firing a due event, the loop over the events a ride has due, and
  the tick, which returns \<open>None\<close> when the fleet's ping loop never ends.
\<close>

text \<open>The chain of \<open>_fire\<close> over the event type.\<close>

definition fire_effect :: "'g sim_env \<Rightarrow> ride_event_type \<Rightarrow> int \<Rightarrow> ActiveRide \<Rightarrow> 'g simulator
    \<Rightarrow> exn + ActiveRide \<times> 'g simulator" where
  "fire_effect env event_type at_ms ride s =
     (case event_type of
        MATCHED \<Rightarrow> after_matched env at_ms ride s
      | DRIVER_ARRIVED \<Rightarrow>
          if ar_stop_after ride = Some DRIVER_ARRIVED
          then rbind (release_driver env ride None s) (\<lambda>s. Inr (ride, s))
          else Inr (after_arrived env at_ms ride s)
      | STARTED \<Rightarrow> after_started env at_ms (ride\<lparr>ar_started_ms := at_ms\<rparr>) s
      | COMPLETED \<Rightarrow>
          (let ride = ride\<lparr>ar_fare_cents := Some (fare ride)\<rparr>; s = s\<lparr>sm_completed := sm_completed s + 1\<rparr>
           in rbind (queue_payment env ride at_ms s) (\<lambda>s.
              rbind (release_driver env ride (Some (ar_dropoff ride)) s) (\<lambda>s. Inr (ride, s))))
      | CANCELLED \<Rightarrow>
          rbind (release_driver env ride None (s\<lparr>sm_cancelled := sm_cancelled s + 1\<rparr>)) (\<lambda>s. Inr (ride, s))
      | REQUESTED \<Rightarrow> Inr (ride, s))"

definition fire :: "'g sim_env \<Rightarrow> ActiveRide \<Rightarrow> 'g simulator \<Rightarrow> exn + source_event \<times> ActiveRide \<times> 'g simulator" where
  "fire env ride s =
     (case ar_next_event ride of
        None \<Rightarrow> Inl AssertionError
      | Some event_type \<Rightarrow>
          rbind (advance (ar_machine ride) event_type) (\<lambda>machine.
          rbind (fire_effect env event_type (ar_next_at_ms ride)
                   (ride\<lparr>ar_machine := machine, ar_next_event := None\<rparr>) s) (\<lambda>(ride', s).
            Inr (emit env ride' event_type (ar_next_at_ms ride), ride', s))))"

section \<open>The loop over a ride's due events\<close>

lemma after_machine:
  "after_matched env at_ms ride s = Inr (ride', s') \<Longrightarrow> ar_machine ride' = ar_machine ride"
  "after_arrived env at_ms ride s = (ride', s') \<Longrightarrow> ar_machine ride' = ar_machine ride"
  "after_started env at_ms ride s = Inr (ride', s') \<Longrightarrow> ar_machine ride' = ar_machine ride"
proof -
  show "after_matched env at_ms ride s = Inr (ride', s') \<Longrightarrow> ar_machine ride' = ar_machine ride"
    by (auto simp: after_matched_def rbind_eq_Inr Let_def split: prod.splits if_splits)
  show "after_arrived env at_ms ride s = (ride', s') \<Longrightarrow> ar_machine ride' = ar_machine ride"
    by (auto simp: after_arrived_def Let_def split: prod.splits if_splits)
  show "after_started env at_ms ride s = Inr (ride', s') \<Longrightarrow> ar_machine ride' = ar_machine ride"
    unfolding after_started_def Let_def case_prod_eq rbind_eq_Inr
    by (auto split: if_splits prod.splits)
qed

lemma fire_effect_machine:
  assumes "fire_effect env e at_ms ride s = Inr (ride', s')"
  shows "ar_machine ride' = ar_machine ride"
  using assms
  by (cases e) (auto simp: fire_effect_def rbind_eq_Inr Let_def dest: after_machine split: if_splits)

lemma fire_machine:
  assumes "fire env ride s = Inr (ev, ride', s')"
  shows "\<exists>e. ar_next_event ride = Some e \<and> e \<in> set (legal_next (ar_machine ride)) \<and> ar_machine ride' = Some e"
  using assms
  by (auto simp: fire_def rbind_eq_Inr case_prod_eq advance_Inr dest!: fire_effect_machine split: option.splits)

definition stages_left :: "machine \<Rightarrow> nat" where
  "stages_left m = (case m of None \<Rightarrow> 7 | Some e \<Rightarrow> nat (6 - EVENT_SEQ e))"

lemma stages_left_less: "e \<in> set (legal_next m) \<Longrightarrow> stages_left (Some e) < stages_left m"
proof (cases m)
  case (Some a)
  moreover assume "e \<in> set (legal_next m)"
  ultimately have "EVENT_SEQ a < EVENT_SEQ e"
    using legal_next_greater by (simp add: less_ride_event_type_def)
  with Some EVENT_SEQ_range [of e] show ?thesis by (simp add: stages_left_def)
qed (simp add: stages_left_def nat_diff_distrib EVENT_SEQ_range, use EVENT_SEQ_range [of e] in linarith)

function ride_loop :: "'g sim_env \<Rightarrow> int \<Rightarrow> ActiveRide \<Rightarrow> 'g simulator
    \<Rightarrow> exn + source_event list \<times> ActiveRide \<times> bool \<times> 'g simulator" where
  "ride_loop env now ride s =
     (if has_due_event ride now then
        (case fire env ride s of
           Inl e \<Rightarrow> Inl e
         | Inr (ev, ride', s') \<Rightarrow>
             if is_terminal (ar_machine ride') \<or> ar_stop_after ride' = ar_machine ride'
             then Inr ([ev], ride', True, s')
             else rbind (ride_loop env now ride' s') (\<lambda>(evs, ride, is_done, s). Inr (ev # evs, ride, is_done, s)))
      else Inr ([], ride, False, s))"
  by pat_completeness auto
termination
  by (relation "measure (\<lambda>(env, now, ride, s). stages_left (ar_machine ride))")
    (auto dest!: fire_machine stages_left_less)

declare ride_loop.simps [simp del]

section \<open>The tick\<close>

text \<open>The loop over the active rides: their events, the rides as they are left, the ids to delete.\<close>

fun progress_rides :: "'g sim_env \<Rightarrow> int \<Rightarrow> (string, ActiveRide) dict \<Rightarrow> 'g simulator
    \<Rightarrow> exn + source_event list \<times> (string, ActiveRide) dict \<times> string list \<times> 'g simulator" where
  "progress_rides env now [] s = Inr ([], [], [], s)"
| "progress_rides env now ((rid, ride) # rides) s =
     rbind (ride_loop env now ride s) (\<lambda>(evs, ride, is_done, s).
     rbind (progress_rides env now rides s) (\<lambda>(evs', rides, ended, s).
       Inr (evs @ evs', (rid, ride) # rides, (if is_done then [ar_ride_id ride] else []) @ ended, s)))"

definition del_ride :: "string \<Rightarrow> (string, ActiveRide) dict \<Rightarrow> exn + (string, ActiveRide) dict" where
  "del_ride rid rides = (case map_of rides rid of None \<Rightarrow> Inl (KeyError rid) | Some _ \<Rightarrow> Inr (AList.delete rid rides))"

definition progress :: "'g sim_env \<Rightarrow> int \<Rightarrow> 'g simulator \<Rightarrow> exn + source_event list \<times> 'g simulator" where
  "progress env now s =
     rbind (progress_rides env now (sm_active s) s) (\<lambda>(evs, rides, ended, s).
     rbind (rfold del_ride ended rides) (\<lambda>rides. Inr (evs, s\<lparr>sm_active := rides\<rparr>)))"

definition due_payments :: "int \<Rightarrow> 'g simulator \<Rightarrow> source_event list \<times> 'g simulator" where
  "due_payments now s =
     (map snd (filter (\<lambda>(due_ms, _). due_ms \<le> now) (sm_payments s)),
      s\<lparr>sm_payments := filter (\<lambda>(due_ms, _). due_ms > now) (sm_payments s)\<rparr>)"

definition ride_tick :: "'g sim_env \<Rightarrow> int \<Rightarrow> 'g simulator \<Rightarrow> exn + source_event list \<times> 'g simulator" where
  "ride_tick env now s =
     rbind (spawn env now s) (\<lambda>(spawned, s).
     rbind (progress env now s) (\<lambda>(progressed, s).
       let (due, s) = due_payments now s in Inr (spawned @ progressed @ due, s)))"

definition sim_on_tick :: "'g sim_env \<Rightarrow> int \<Rightarrow> 'g simulator \<Rightarrow> (exn + source_event list \<times> 'g simulator) option" where
  "sim_on_tick env now s =
     (case fleet_on_tick (en_cfg env) (en_R env) now (sm_fleet s) of
        None \<Rightarrow> None
      | Some r \<Rightarrow>
          Some (rbind r (\<lambda>(pings, ft).
            rbind (ride_tick env now (s\<lparr>sm_fleet := ft\<rparr>)) (\<lambda>(evs, s). Inr (pings @ evs, s)))))"

end
