(* ===== verification/Fleet_Invariant.thy ===== *)
theory Fleet_Invariant
  imports Drivers
begin

text \<open>
  The invariant of the driver fleet. \<open>pool_ok ft B\<close>: the fleet is well formed (keys are the drivers'
  ids, every driver lives in a known city, a leg with a target has a start, an overflow driver's id
  is below the counter) and the drivers of \<open>B\<close> are on a leg. Every operation of the fleet keeps it and raises
  nothing: \<open>assign\<close> takes a driver outside \<open>B\<close> into it, \<open>release\<close> takes one out, and a tick returns.
\<close>

definition gen_config_ok :: "GeneratorConfig \<Rightarrow> bool" where
  "gen_config_ok cfg \<longleftrightarrow> 0 < tick_ms cfg \<and> 0 < trunc (ping_interval_sec cfg * 1000)"

definition driver_ok :: "Driver \<Rightarrow> bool" where
  "driver_ok d \<longleftrightarrow> (\<exists>c \<in> set CITIES. ct_city_id c = dr_city_id d) \<and> (dr_target d \<noteq> None \<longrightarrow> dr_leg_start d \<noteq> None)"

definition on_leg :: "Driver \<Rightarrow> bool" where
  "on_leg d \<longleftrightarrow> dr_status d \<in> {EN_ROUTE, ON_TRIP}"

definition overflow_id :: "int \<Rightarrow> nat \<Rightarrow> string" where
  "overflow_id cid n = ''d-'' @ int_digits cid @ ''-x'' @ padded 4 n"

definition driver_id :: "int \<Rightarrow> nat \<Rightarrow> string" where
  "driver_id cid n = ''d-'' @ int_digits cid @ ''-'' @ padded 4 n"

definition known_id :: "nat \<Rightarrow> string \<Rightarrow> bool" where
  "known_id overflow did \<longleftrightarrow>
     (\<exists>c \<in> set CITIES. (\<exists>n. did = driver_id (ct_city_id c) n)
        \<or> (\<exists>n \<le> overflow. did = overflow_id (ct_city_id c) n))"

definition pool_ok :: "'g fleet \<Rightarrow> string set \<Rightarrow> bool" where
  "pool_ok ft B \<longleftrightarrow>
     dict_ok (fl_drivers ft)
     \<and> (\<forall>did d. map_of (fl_drivers ft) did = Some d \<longrightarrow>
          dr_driver_id d = did \<and> driver_ok d \<and> known_id (fl_overflow ft) did)
     \<and> (\<forall>c \<in> set CITIES. map_of (fl_by_city ft) (ct_city_id c) \<noteq> None)
     \<and> (\<forall>did \<in> B. \<exists>d. map_of (fl_drivers ft) did = Some d \<and> on_leg d)"

section \<open>Driver ids\<close>

lemma decimal_heads: "list_all is_digit (nat_digits n) \<and> nat_digits n \<noteq> []"
proof (induction n rule: nat_digits.induct)
  case (1 n)
  then show ?case
    by (subst (1 2) nat_digits.simps) (auto simp: is_digit_def [of "char_of _"])
qed

lemma padded_head: "\<exists>c cs. padded k n = c # cs \<and> is_digit c"
proof -
  have "list_all is_digit (padded k n)" "padded k n \<noteq> []"
    using decimal_heads [of n] by (auto simp: padded_def zero_pad_def list_all_iff is_digit_def)
  then show ?thesis by (cases "padded k n") auto
qed

lemma city_digit: "c \<in> set CITIES \<Longrightarrow> \<exists>x. int_digits (ct_city_id c) = [x]"
  by (auto simp: CITIES_def int_digits_def nat_digits.simps)

lemma fresh_overflow_id:
  assumes "c \<in> set CITIES" "overflow < n"
  shows "\<not> known_id overflow (overflow_id (ct_city_id c) n)"
proof -
  obtain x where x: "int_digits (ct_city_id c) = [x]" using city_digit [OF assms(1)] by blast
  have other: "\<exists>y. int_digits (ct_city_id c') = [y]" if "c' \<in> set CITIES" for c'
    using city_digit [OF that] .
  have "overflow_id (ct_city_id c) n \<noteq> driver_id (ct_city_id c') m" if "c' \<in> set CITIES" for c' m
    using other [OF that] x padded_head [of 4 m] by (auto simp: overflow_id_def driver_id_def is_digit_def)
  moreover have "overflow_id (ct_city_id c) n \<noteq> overflow_id (ct_city_id c') m"
    if "c' \<in> set CITIES" "m \<le> overflow" for c' m
    using other [OF that(1)] that(2) assms(2) x by (auto simp: overflow_id_def padded_inj)
  ultimately show ?thesis by (auto simp: known_id_def)
qed

lemma known_id_more: "known_id n did \<Longrightarrow> n \<le> m \<Longrightarrow> known_id m did"
  unfolding known_id_def by (meson order_trans)

section \<open>Operations on the pool\<close>

lemma pool_okD:
  assumes "pool_ok ft B" "map_of (fl_drivers ft) did = Some d"
  shows "dr_driver_id d = did" "driver_ok d" "known_id (fl_overflow ft) did"
  using assms by (auto simp: pool_ok_def)

lemma pool_busy:
  assumes "pool_ok ft B" "did \<in> B"
  obtains d where "map_of (fl_drivers ft) did = Some d" "on_leg d"
  using assms unfolding pool_ok_def by blast

lemma pool_ok_rng [simp]: "pool_ok (ft\<lparr>fl_rng := g\<rparr>) B = pool_ok ft B"
  by (simp add: pool_ok_def)

lemma pool_ok_by_city:
  assumes "pool_ok ft B"
  shows "pool_ok (ft\<lparr>fl_rng := g, fl_by_city := AList.update c ids (fl_by_city ft)\<rparr>) B"
  using assms by (simp add: pool_ok_def del: map_of_eq_Some_iff)

lemma put_driver_fields [simp]:
  "fl_by_city (put_driver d ft) = fl_by_city ft" "fl_overflow (put_driver d ft) = fl_overflow ft"
  "map_of (fl_drivers (put_driver d ft)) did = (if did = dr_driver_id d then Some d else map_of (fl_drivers ft) did)"
  by (simp_all add: put_driver_def)

lemma pool_ok_subset: "pool_ok ft B \<Longrightarrow> B' \<subseteq> B \<Longrightarrow> pool_ok ft B'"
  unfolding pool_ok_def by blast

lemma pool_put:
  assumes "pool_ok ft B" "driver_ok d" "known_id (fl_overflow ft) (dr_driver_id d)"
    and "dr_driver_id d \<in> B' \<Longrightarrow> on_leg d" "B' \<subseteq> insert (dr_driver_id d) B"
  shows "pool_ok (put_driver d ft) B'"
  using assms unfolding pool_ok_def put_driver_def
  by (auto simp: dict_update_ok simp del: map_of_eq_Some_iff)

lemma driver_city:
  assumes "driver_ok d"
  obtains c where "c \<in> set CITIES" "city_by_id (dr_city_id d) = Inr c"
  using assms city_by_id_ok unfolding driver_ok_def by metis

lemma spawn_driver_ok:
  assumes "pool_ok ft B" "c \<in> set CITIES" "known_id (fl_overflow ft) did" "did \<notin> B"
    and "spawn_driver cfg R c did now ft = (d, ft')"
  shows "pool_ok ft' B" "dr_driver_id d = did" "driver_ok d" "fl_overflow ft' = fl_overflow ft"
    "map_of (fl_drivers ft') did = Some d"
proof -
  obtain lat lon g1 heading g2 u g3 where draws: "sample_hotspot_point R c (fl_rng ft) = ((lat, lon), g1)"
    "rn_uniform R 0 360 g1 = (heading, g2)" "rn_uniform R 0 (ping_interval_sec cfg) g2 = (u, g3)"
    by (metis surj_pair)
  define d' where "d' = \<lparr>dr_driver_id = did, dr_city_id = ct_city_id c, dr_lat = lat, dr_lon = lon,
     dr_heading = heading, dr_speed_kmh = 0, dr_status = IDLE, dr_ride_id = None,
     dr_target = None, dr_leg_start = None, dr_leg_start_ms = 0, dr_leg_end_ms = 0,
     dr_next_ping_ms = now + trunc (u * 1000), dr_back_online_ms = 0\<rparr>"
  have d': "driver_ok d'" "dr_driver_id d' = did"
    using assms(2) by (auto simp: d'_def driver_ok_def)
  define ids where "ids = (case map_of (fl_by_city ft) (ct_city_id c) of None \<Rightarrow> [] | Some ds \<Rightarrow> ds) @ [did]"
  have eq: "d = d'" "ft' = (put_driver d' ft)\<lparr>fl_rng := g3, fl_by_city := AList.update (ct_city_id c) ids (fl_by_city ft)\<rparr>"
    using assms(5) draws by (auto simp: spawn_driver_def d'_def ids_def Let_def)
  have "pool_ok (put_driver d' ft) B"
    using assms(1,3,4) d' by (intro pool_put [of ft B]) auto
  from pool_ok_by_city [OF this, where g = g3 and c = "ct_city_id c" and ids = ids] show "pool_ok ft' B" by (simp add: eq)
  show "dr_driver_id d = did" "driver_ok d" "fl_overflow ft' = fl_overflow ft" "map_of (fl_drivers ft') did = Some d"
    using d' by (simp_all add: eq del: map_of_eq_Some_iff)
qed

lemma first_min_in: "first_min f x xs \<in> set (x # xs)"
  by (induction xs arbitrary: x) (simp, fastforce)

lemma begin_leg_ok: "driver_ok d \<Longrightarrow> driver_ok (begin_leg st target now ms d)"
  by (simp add: begin_leg_def driver_ok_def)

lemma begin_leg_id [simp]: "dr_driver_id (begin_leg st target now ms d) = dr_driver_id d"
  by (simp add: begin_leg_def)

lemma assign_ok:
  assumes "pool_ok ft B" "c \<in> set CITIES"
  obtains did travel ft' where "assign cfg R (ct_city_id c) pickup now ft = Inr ((did, travel), ft')"
    "did \<notin> B" "pool_ok ft' (insert did B)" "20 \<le> travel"
proof -
  obtain ids where ids: "map_of (fl_by_city ft) (ct_city_id c) = Some ids"
    using assms unfolding pool_ok_def by blast
  define idle where "idle = filter (\<lambda>d. dr_status d = IDLE) (List.map_filter (map_of (fl_drivers ft)) ids)"
  have idle: "idle_drivers ft (ct_city_id c) = Inr idle"
    by (simp add: idle_drivers_def ids idle_def del: map_of_eq_Some_iff)
  have "\<exists>d ft1. (case idle of
        x # xs \<Rightarrow> (first_min (\<lambda>d. haversine_km (dr_lat d) (dr_lon d) (fst pickup) (snd pickup)) x xs, ft)
      | [] \<Rightarrow> (let ft = ft\<lparr>fl_overflow := fl_overflow ft + 1\<rparr>
               in spawn_driver cfg R c (''d-'' @ int_digits (ct_city_id c) @ ''-x'' @ padded 4 (fl_overflow ft)) now ft))
      = (d, ft1) \<and> pool_ok ft1 B \<and> driver_ok d \<and> known_id (fl_overflow ft1) (dr_driver_id d) \<and> dr_driver_id d \<notin> B"
  proof (cases idle)
    case Nil
    let ?ft = "ft\<lparr>fl_overflow := fl_overflow ft + 1\<rparr>" and ?did = "overflow_id (ct_city_id c) (fl_overflow ft + 1)"
    have "pool_ok ?ft B"
      using assms(1) known_id_more [of "fl_overflow ft"] unfolding pool_ok_def by auto
    moreover have "known_id (fl_overflow ?ft) ?did" using assms(2) by (auto simp: known_id_def)
    moreover have "?did \<notin> B"
    proof
      assume "?did \<in> B"
      with pool_busy [OF assms(1)] pool_okD(3) [OF assms(1)] have "known_id (fl_overflow ft) ?did" by blast
      with fresh_overflow_id [OF assms(2)] show False by simp
    qed
    moreover obtain d ft1 where sp: "spawn_driver cfg R c ?did now ?ft = (d, ft1)" by fastforce
    ultimately have "pool_ok ft1 B \<and> driver_ok d \<and> known_id (fl_overflow ft1) (dr_driver_id d) \<and> dr_driver_id d \<notin> B"
      using spawn_driver_ok [of ?ft B c ?did cfg R now d ft1] assms(2) by metis
    moreover have "''d-'' @ int_digits (ct_city_id c) @ ''-x'' @ padded 4 (fl_overflow ?ft) = ?did"
      by (simp add: overflow_id_def)
    ultimately show ?thesis unfolding Nil list.case Let_def by (metis sp)
  next
    case (Cons x xs)
    let ?d = "first_min (\<lambda>d. haversine_km (dr_lat d) (dr_lon d) (fst pickup) (snd pickup)) x xs"
    have "?d \<in> set idle" using first_min_in Cons by metis
    then obtain did where d: "map_of (fl_drivers ft) did = Some ?d" "dr_status ?d = IDLE"
      by (auto simp: idle_def List.map_filter_def simp del: map_of_eq_Some_iff)
    moreover have "did \<notin> B"
      using pool_busy [OF assms(1)] d by (force simp: on_leg_def)
    ultimately show ?thesis using pool_okD [OF assms(1) d(1)] Cons assms(1) by auto
  qed
  then obtain d ft1 where 1: "(case idle of
        x # xs \<Rightarrow> (first_min (\<lambda>d. haversine_km (dr_lat d) (dr_lon d) (fst pickup) (snd pickup)) x xs, ft)
      | [] \<Rightarrow> (let ft = ft\<lparr>fl_overflow := fl_overflow ft + 1\<rparr>
               in spawn_driver cfg R c (''d-'' @ int_digits (ct_city_id c) @ ''-x'' @ padded 4 (fl_overflow ft)) now ft))
      = (d, ft1)" and d: "pool_ok ft1 B" "driver_ok d" "known_id (fl_overflow ft1) (dr_driver_id d)" "dr_driver_id d \<notin> B"
    by blast
  obtain x g where g: "rn_gauss R 30 6 (fl_rng ft1) = (x, g)" by fastforce
  define travel where "travel = max (haversine_km (dr_lat d) (dr_lon d) (fst pickup) (snd pickup) / clip 15 50 x * 3600) 20"
  show thesis
  proof
    show "assign cfg R (ct_city_id c) pickup now ft = Inr ((dr_driver_id d, travel),
        put_driver (begin_leg EN_ROUTE pickup now (trunc (travel * 1000)) d) (ft1\<lparr>fl_rng := g\<rparr>))"
      unfolding assign_def city_by_id_ok [OF assms(2)] idle rbind_Inr 1 by (simp add: g Let_def travel_def)
    show "pool_ok (put_driver (begin_leg EN_ROUTE pickup now (trunc (travel * 1000)) d) (ft1\<lparr>fl_rng := g\<rparr>))
        (insert (dr_driver_id d) B)"
      using d begin_leg_ok by (intro pool_put [of _ B]) (auto simp: begin_leg_def on_leg_def)
  qed (use d in \<open>simp_all add: travel_def\<close>)
qed

lemma new_fleet_ok: "pool_ok (new_fleet cfg R g anchor) {}"
proof -
  let ?empty = "\<lparr>fl_rng = g, fl_drivers = [], fl_by_city = map (\<lambda>c. (ct_city_id c, [])) CITIES, fl_overflow = 0\<rparr>"
  have "pool_ok ?empty {}"
    by (simp add: pool_ok_def CITIES_def)
  moreover have "pool_ok (snd (spawn_driver cfg R c (''d-'' @ int_digits (ct_city_id c) @ ''-'' @ padded 4 n) anchor ft)) {}"
    if "c \<in> set CITIES" "pool_ok ft {}" for c n ft
  proof -
    have "known_id (fl_overflow ft) (driver_id (ct_city_id c) n)" using that(1) by (auto simp: known_id_def)
    then show ?thesis
      using spawn_driver_ok(1) [OF that(2,1), of _ cfg R anchor] surjective_pairing
      by (metis driver_id_def empty_iff)
  qed
  ultimately show ?thesis
    unfolding new_fleet_def
    by (rule_tac fold_invariant [where Q = "\<lambda>c. c \<in> set CITIES"])
      (auto intro!: fold_invariant [where Q = "\<lambda>_. True" and P = "\<lambda>ft. pool_ok ft {}"])
qed

lemma ride_started_ok:
  assumes "pool_ok ft B" "did \<in> B"
  obtains ft' where "ride_started did dropoff dur now ft = Inr ft'" "pool_ok ft' B"
proof -
  obtain d where d: "map_of (fl_drivers ft) did = Some d" using pool_busy [OF assms] by blast
  note ok = pool_okD [OF assms(1) d]
  let ?d = "begin_leg ON_TRIP dropoff now (trunc (dur * 1000)) d"
  show thesis
  proof
    show "ride_started did dropoff dur now ft = Inr (put_driver ?d ft)"
      by (simp add: ride_started_def get_driver_def d del: map_of_eq_Some_iff)
    show "pool_ok (put_driver ?d ft) B"
      using assms ok begin_leg_ok by (intro pool_put [of _ B]) (auto simp: begin_leg_def on_leg_def)
  qed
qed

lemma release_ok:
  assumes "pool_ok ft B" "did \<in> B"
  obtains ft' where "release R did place ft = Inr ft'" "pool_ok ft' (B - {did})"
proof -
  obtain d where d: "map_of (fl_drivers ft) did = Some d" using pool_busy [OF assms] by blast
  note ok = pool_okD [OF assms(1) d]
  obtain x g where g: "rn_gauss R 12 5 (fl_rng ft) = (x, g)" by fastforce
  define d' where "d' = (case place of None \<Rightarrow> d | Some p \<Rightarrow> d\<lparr>dr_lat := fst p, dr_lon := snd p\<rparr>)
      \<lparr>dr_status := IDLE, dr_ride_id := None, dr_target := None, dr_speed_kmh := clip 0 30 x\<rparr>"
  have d': "driver_ok d'" "dr_driver_id d' = did"
    using ok by (auto simp: d'_def driver_ok_def split: option.split)
  show thesis
  proof
    show "release R did place ft = Inr ((put_driver d' ft)\<lparr>fl_rng := g\<rparr>)"
      by (simp add: release_def get_driver_def d g d'_def Let_def del: map_of_eq_Some_iff)
    have "pool_ok (put_driver d' ft) (B - {did})"
      using assms ok d' by (intro pool_put [of _ B]) auto
    then show "pool_ok ((put_driver d' ft)\<lparr>fl_rng := g\<rparr>) (B - {did})" by simp
  qed
qed

section \<open>Ticks\<close>

text \<open>What a driver keeps during a tick: its id and city, and its leg if it is on one.\<close>

definition same_driver :: "Driver \<Rightarrow> Driver \<Rightarrow> bool" where
  "same_driver d d' \<longleftrightarrow> dr_driver_id d' = dr_driver_id d \<and> driver_ok d' \<and> (on_leg d \<longrightarrow> on_leg d')"

lemma move_ok:
  assumes "driver_ok d"
  obtains d' g' where "move cfg R now d g = Inr (d', g')" "same_driver d d'" "dr_next_ping_ms d' = dr_next_ping_ms d"
proof -
  obtain c where c: "city_by_id (dr_city_id d) = Inr c" using driver_city [OF assms] by blast
  have "\<exists>d' g'. move cfg R now d g = Inr (d', g') \<and> same_driver d d' \<and> dr_next_ping_ms d' = dr_next_ping_ms d"
  proof (cases "on_leg d \<and> dr_target d \<noteq> None")
    case True
    then obtain target start where "dr_target d = Some target" "dr_leg_start d = Some start"
      using assms unfolding driver_ok_def by blast
    then show ?thesis
      using True assms c
      by (auto simp: move_def move_along_leg_def Let_def on_leg_def same_driver_def driver_ok_def split: prod.splits)
  next
    case False
    then have "move cfg R now d g = (if dr_status d = IDLE then cruise cfg R d g else Inr (d, g))"
      by (auto simp: move_def on_leg_def split: option.splits bool.splits)
    then show ?thesis
      using assms c by (auto simp: cruise_def Let_def same_driver_def driver_ok_def on_leg_def split: prod.splits)
  qed
  then show thesis using that by blast
qed

lemma maybe_go_offline_ok:
  assumes "driver_ok d" "maybe_go_offline cfg R now d g = (off, d', g')"
  shows "same_driver d d'" "dr_next_ping_ms d' = dr_next_ping_ms d"
  using assms
  by (auto simp: maybe_go_offline_def Let_def same_driver_def driver_ok_def on_leg_def split: if_splits prod.splits)

lemma same_driver_trans: "same_driver a b \<Longrightarrow> same_driver b c \<Longrightarrow> same_driver a c"
  by (simp add: same_driver_def)

lemma same_driver_refl: "driver_ok d \<Longrightarrow> same_driver d d"
  by (simp add: same_driver_def)

lemma same_driver_next_ping [simp]: "same_driver d (d'\<lparr>dr_next_ping_ms := t\<rparr>) = same_driver d d'"
  by (simp add: same_driver_def driver_ok_def on_leg_def)

definition locations :: "source_event list \<Rightarrow> bool" where
  "locations = list_all (\<lambda>e. se_topic e = DRIVERS_LOCATIONS)"

lemma locations_simps [simp]:
  "locations []" "locations (e # es) \<longleftrightarrow> se_topic e = DRIVERS_LOCATIONS \<and> locations es"
  "locations (es @ fs) \<longleftrightarrow> locations es \<and> locations fs"
  by (simp_all add: locations_def)

lemma ping_topic [simp]: "se_topic (ping d ts) = DRIVERS_LOCATIONS"
  by (simp add: ping_def driver_location_event_def)

lemma ping_loop_ok:
  assumes "0 < interval_ms" "driver_ok d"
  shows "\<exists>d' evs g'. ping_loop cfg R interval_ms now d g = Some (Inr (d', evs, g')) \<and> same_driver d d' \<and> locations evs"
  using assms(2)
proof (induction "nat (now + 1 - dr_next_ping_ms d)" arbitrary: d g rule: less_induct)
  case less
  show ?case
  proof (cases "dr_next_ping_ms d \<le> now")
    case True
    obtain d1 g1 where m: "move cfg R (dr_next_ping_ms d) d g = Inr (d1, g1)"
      "same_driver d d1" using move_ok [OF less.prems] by metis
    obtain off d2 g2 where o: "maybe_go_offline cfg R (dr_next_ping_ms d)
        (d1\<lparr>dr_next_ping_ms := dr_next_ping_ms d + interval_ms\<rparr>) g1 = (off, d2, g2)"
      using prod_cases3 by blast
    have "driver_ok (d1\<lparr>dr_next_ping_ms := dr_next_ping_ms d + interval_ms\<rparr>)"
      using m(2) by (simp add: same_driver_def driver_ok_def)
    from maybe_go_offline_ok [OF this o]
    have d2: "same_driver d1 d2" "dr_next_ping_ms d2 = dr_next_ping_ms d + interval_ms"
      by (simp_all add: same_driver_def on_leg_def)
    note step = same_driver_trans [OF m(2) d2(1)]
    show ?thesis
    proof (cases off)
      case True
      with m o \<open>dr_next_ping_ms d \<le> now\<close> step show ?thesis by (subst ping_loop.simps) simp
    next
      case False
      have "driver_ok d2" using d2(1) by (simp add: same_driver_def)
      moreover have "nat (now + 1 - dr_next_ping_ms d2) < nat (now + 1 - dr_next_ping_ms d)"
        using d2(2) True assms(1) by simp
      ultimately obtain d3 evs g3 where "ping_loop cfg R interval_ms now d2 g2 = Some (Inr (d3, evs, g3))"
        "same_driver d2 d3" "locations evs"
        using less.hyps by blast
      with m o True False same_driver_trans [OF step] show ?thesis by (subst ping_loop.simps) simp
    qed
  qed (use less.prems in \<open>subst ping_loop.simps, simp add: same_driver_refl\<close>)
qed

lemma driver_tick_ok:
  assumes "gen_config_ok cfg" "driver_ok d"
  shows "\<exists>d' evs g'. driver_tick cfg R now d g = Some (Inr (d', evs, g')) \<and> same_driver d d' \<and> locations evs"
proof (cases "dr_status d = OFFLINE \<and> now \<ge> dr_back_online_ms d")
  case True
  let ?d = "d\<lparr>dr_status := IDLE, dr_next_ping_ms := now\<rparr>"
  have "driver_ok ?d"
    using assms(2) by (simp add: driver_ok_def)
  moreover have "same_driver d d'" if "same_driver ?d d'" for d'
    using that True by (simp add: same_driver_def on_leg_def)
  ultimately show ?thesis
    using ping_loop_ok [of "trunc (ping_interval_sec cfg * 1000)" ?d cfg R now g] assms(1) True
    by (auto simp: driver_tick_def gen_config_ok_def)
next
  case False
  then have "driver_tick cfg R now d g = Some (Inr (d, [], g))
      \<or> driver_tick cfg R now d g = ping_loop cfg R (trunc (ping_interval_sec cfg * 1000)) now d g"
    by (simp add: driver_tick_def Let_def)
  with ping_loop_ok [of "trunc (ping_interval_sec cfg * 1000)" d cfg R now g] assms show ?thesis
    by (auto simp: gen_config_ok_def same_driver_refl)
qed

lemma drivers_tick_ok:
  assumes "gen_config_ok cfg" "list_all (\<lambda>(did, d). driver_ok d) ds"
  shows "\<exists>ds' evs g'. drivers_tick cfg R now ds g = Some (Inr (ds', evs, g')) \<and> locations evs
    \<and> list_all2 (\<lambda>(did, d) (did', d'). did' = did \<and> same_driver d d') ds ds'"
  using assms(2)
proof (induction ds arbitrary: g)
  case (Cons x ds)
  obtain did d where x: "x = (did, d)" by fastforce
  with Cons.prems obtain d' evs g1 where 1: "driver_tick cfg R now d g = Some (Inr (d', evs, g1))" "same_driver d d'" "locations evs"
    using driver_tick_ok [OF assms(1), of d R now g] by auto
  from Cons.prems have "list_all (\<lambda>(did, d). driver_ok d) ds" by simp
  from Cons.IH [OF this] obtain ds' evs' g2 where "drivers_tick cfg R now ds g1 = Some (Inr (ds', evs', g2))" "locations evs'"
    "list_all2 (\<lambda>(did, d) (did', d'). did' = did \<and> same_driver d d') ds ds'"
    by metis
  with 1 x show ?case by simp
qed simp

lemma drivers_keep:
  assumes "list_all2 (\<lambda>(did, d) (did', d'). did' = did \<and> same_driver d d') ds ds'"
  shows "map fst ds' = map fst ds"
    "map_of ds' k = Some d' \<Longrightarrow> \<exists>d. map_of ds k = Some d \<and> same_driver d d'"
    "map_of ds k = Some d \<Longrightarrow> \<exists>d'. map_of ds' k = Some d' \<and> same_driver d d'"
  using assms by (induction rule: list_all2_induct) (auto simp del: map_of_eq_Some_iff split: if_splits)

lemma fleet_on_tick_ok:
  assumes "gen_config_ok cfg" "pool_ok ft B"
  obtains evs ft' where "fleet_on_tick cfg R now ft = Some (Inr (evs, ft'))" "pool_ok ft' B" "locations evs"
proof -
  have "list_all (\<lambda>(did, d). driver_ok d) (fl_drivers ft)"
    using assms(2) by (auto simp: list_all_iff pool_ok_def)
  then obtain ds evs g where t: "drivers_tick cfg R now (fl_drivers ft) (fl_rng ft) = Some (Inr (ds, evs, g))" "locations evs"
    and keep: "list_all2 (\<lambda>(did, d) (did', d'). did' = did \<and> same_driver d d') (fl_drivers ft) ds"
    using drivers_tick_ok [OF assms(1)] by metis
  have "pool_ok (ft\<lparr>fl_drivers := ds, fl_rng := g\<rparr>) B"
    unfolding pool_ok_def
  proof (intro conjI allI impI ballI)
    show "dict_ok (fl_drivers (ft\<lparr>fl_drivers := ds, fl_rng := g\<rparr>))"
      using assms(2) drivers_keep(1) [OF keep] by (simp add: pool_ok_def)
  next
    fix did d' assume "map_of (fl_drivers (ft\<lparr>fl_drivers := ds, fl_rng := g\<rparr>)) did = Some d'"
    then obtain d where "map_of (fl_drivers ft) did = Some d" "same_driver d d'"
      using drivers_keep(2) [OF keep] by auto
    with pool_okD [OF assms(2)] show "dr_driver_id d' = did" "driver_ok d'"
      "known_id (fl_overflow (ft\<lparr>fl_drivers := ds, fl_rng := g\<rparr>)) did"
      by (auto simp: same_driver_def)
  next
    fix did assume "did \<in> B"
    then obtain d where "map_of (fl_drivers ft) did = Some d" "on_leg d" using pool_busy [OF assms(2)] by blast
    then show "\<exists>d'. map_of (fl_drivers (ft\<lparr>fl_drivers := ds, fl_rng := g\<rparr>)) did = Some d' \<and> on_leg d'"
      using drivers_keep(3) [OF keep] by (fastforce simp: same_driver_def)
  qed (use assms(2) in \<open>simp add: pool_ok_def\<close>)
  with t show thesis using that by (simp add: fleet_on_tick_def)
qed

section \<open>A ping interval below a millisecond\<close>

lemma never_offline:
  assumes "rng_laws R" "offline_prob_per_ping cfg \<le> 0"
  shows "\<exists>g'. maybe_go_offline cfg R now d g = (False, d, g')"
proof -
  obtain x g' where x: "rn_random R g = (x, g')" by fastforce
  with rng_lawsD(1) [OF assms(1) x] assms(2) show ?thesis by (simp add: maybe_go_offline_def)
qed

lemma ping_loop_stuck:
  assumes "ping_loop cfg R interval_ms now d g = Some r" "rng_laws R" "offline_prob_per_ping cfg \<le> 0"
    and "driver_ok d" "dr_next_ping_ms d \<le> now" "interval_ms \<le> 0"
  shows False
proof -
  have "\<not> (rng_laws R \<and> offline_prob_per_ping cfg \<le> 0 \<and> driver_ok d \<and> dr_next_ping_ms d \<le> now \<and> interval_ms \<le> 0)"
    using assms(1)
  proof (rule ping_loop.raw_induct [rotated])
    fix f :: "GeneratorConfig \<Rightarrow> 'a rng \<Rightarrow> int \<Rightarrow> int \<Rightarrow> Driver \<Rightarrow> 'a \<Rightarrow> (exn + Driver \<times> source_event list \<times> 'a) option"
    fix cfg R interval_ms now d g r
    assume IH: "\<And>cfg R interval_ms now d g r. f cfg R interval_ms now d g = Some r \<Longrightarrow>
        \<not> (rng_laws R \<and> offline_prob_per_ping cfg \<le> 0 \<and> driver_ok d \<and> dr_next_ping_ms d \<le> now \<and> interval_ms \<le> 0)"
      and step: "(if dr_next_ping_ms d \<le> now
         then case move cfg R (dr_next_ping_ms d) d g of Inl e \<Rightarrow> Some (Inl e)
            | Inr (d1, g1) \<Rightarrow>
                case maybe_go_offline cfg R (dr_next_ping_ms d) (d1\<lparr>dr_next_ping_ms := dr_next_ping_ms d + interval_ms\<rparr>) g1 of
                (offline, d2, g2) \<Rightarrow>
                  if offline then Some (Inr (d2, [ping d1 (dr_next_ping_ms d), ping d2 (dr_next_ping_ms d)], g2))
                  else Option.bind (f cfg R interval_ms now d2 g2) (\<lambda>r.
                    Some (rbind r (\<lambda>(d3, events, g3). Inr (d3, ping d1 (dr_next_ping_ms d) # events, g3))))
         else Some (Inr (d, [], g))) = Some r"
    show "\<not> (rng_laws R \<and> offline_prob_per_ping cfg \<le> 0 \<and> driver_ok d \<and> dr_next_ping_ms d \<le> now \<and> interval_ms \<le> 0)"
    proof
      assume a: "rng_laws R \<and> offline_prob_per_ping cfg \<le> 0 \<and> driver_ok d \<and> dr_next_ping_ms d \<le> now \<and> interval_ms \<le> 0"
      then obtain d1 g1 where m: "move cfg R (dr_next_ping_ms d) d g = Inr (d1, g1)" "same_driver d d1"
        using move_ok by metis
      let ?d = "d1\<lparr>dr_next_ping_ms := dr_next_ping_ms d + interval_ms\<rparr>"
      obtain g2 where o: "maybe_go_offline cfg R (dr_next_ping_ms d) ?d g1 = (False, ?d, g2)"
        using never_offline [of R cfg "dr_next_ping_ms d" ?d g1] a by auto
      obtain r' where "f cfg R interval_ms now ?d g2 = Some r'"
        using step m(1) o a by (auto simp: bind_eq_Some_conv)
      moreover have "driver_ok ?d" using m(2) by (simp add: same_driver_def driver_ok_def)
      moreover have "dr_next_ping_ms ?d \<le> now" using a by simp
      ultimately show False using IH a by blast
    qed
  qed
  with assms(2-) show False by blast
qed

section \<open>Properties\<close>


text \<open>A driver of the first city.\<close>

definition sample_driver :: Driver where
  "sample_driver = \<lparr>dr_driver_id = ''d-1-0000'', dr_city_id = 1, dr_lat = 13, dr_lon = 77.6, dr_heading = 0,
     dr_speed_kmh = 0, dr_status = IDLE, dr_ride_id = None, dr_target = None, dr_leg_start = None,
     dr_leg_start_ms = 0, dr_leg_end_ms = 0, dr_next_ping_ms = 0, dr_back_online_ms = 0\<rparr>"

definition zero_rng :: "unit rng" where
  "zero_rng = \<lparr>rn_random = \<lambda>g. (0, g), rn_uniform = \<lambda>a b g. (a, g), rn_gauss = \<lambda>mu sigma g. (mu, g),
     rn_expovariate = \<lambda>l g. (0, g), rn_below = \<lambda>n g. (0, g), rn_getrandbits = \<lambda>k g. (0, g), rn_seeded = \<lambda>n. ()\<rparr>"

lemma zero_rng_laws: "rng_laws zero_rng"
  by (simp add: rng_laws_def zero_rng_def)


end
