(* ===== verification/Ride_Invariant.thy ===== *)
theory Ride_Invariant
  imports Ride_Ticks Fleet_Invariant Quality_Gates
begin

text \<open>
  What holds of the rides of the simulator, stage by stage. The abstract side is \<open>lifecycle_step\<close>: a
  store of lifecycle machines and clocks by ride, which refuses an event that is no legal edge or is
  (by its payload's time stamp) older than the ride's last one. \<open>ride_shape\<close> is the type of a ride, \<open>ride_ready\<close> its state between
  two events, \<open>event_ok\<close> what every emitted event satisfies (the row expectations of the quality suite).
  Firing an event keeps them, and takes and gives back drivers of the pool.
\<close>

section \<open>Specification\<close>

type_synonym lifecycle = "string \<Rightarrow> machine \<times> int"

definition lifecycle_step :: "source_event \<Rightarrow> lifecycle \<Rightarrow> exn + lifecycle" where
  "lifecycle_step e \<sigma> =
     (if se_topic e \<noteq> RIDES_EVENTS then Inr \<sigma>
      else rbind (d_item (se_value e) ''event_type'') (\<lambda>v.
           rbind (ride_event_type_of v) (\<lambda>t.
           rbind (advance (fst (\<sigma> (se_key e))) t) (\<lambda>m.
             if d_item (se_value e) ''event_ts'' \<noteq> Inr (PInt (se_ts e)) \<or> se_ts e < snd (\<sigma> (se_key e))
             then Inl (ValueError ''event out of order'')
             else Inr (\<sigma>(se_key e := (m, se_ts e)))))))"

text \<open>The expectations that look at one row; a null satisfies those on values.\<close>

fun row_level :: "expectation \<Rightarrow> bool" where
  "row_level (NotBeNull c) = True"
| "row_level (BeInSet c vs) = True"
| "row_level (BeBetween c lo hi) = True"
| "row_level _ = False"

fun row_meets :: "payload \<Rightarrow> expectation \<Rightarrow> bool" where
  "row_meets row (NotBeNull c) \<longleftrightarrow> d_get row c \<noteq> PNone"
| "row_meets row (BeInSet c vs) \<longleftrightarrow> d_get row c = PNone \<or> d_get row c \<in> set vs"
| "row_meets row (BeBetween c lo hi) \<longleftrightarrow> d_get row c = PNone
     \<or> (\<exists>x. as_num (d_get row c) = Inr x \<and> (case lo of None \<Rightarrow> True | Some a \<Rightarrow> a \<le> x)
            \<and> (case hi of None \<Rightarrow> True | Some b \<Rightarrow> x \<le> b))"
| "row_meets row _ \<longleftrightarrow> True"

text \<open>A payment as the simulator builds it.\<close>

definition payment_shape :: "source_event \<Rightarrow> bool" where
  "payment_shape e \<longleftrightarrow>
     (\<exists>txn ride cents ts. \<exists>status \<in> {''completed'', ''failed'', ''refunded''}. \<exists>pay_method \<in> {''card'', ''cash'', ''wallet''}.
        0 \<le> cents \<and> e = payment_event txn ride cents status pay_method ts)"

definition event_ok :: "source_event \<Rightarrow> bool" where
  "event_ok e \<longleftrightarrow> (se_topic e = RIDES_EVENTS \<longrightarrow>
     list_all (row_meets (se_value e)) (filter row_level raw_rides_events_expectations))
   \<and> (se_topic e = PAYMENTS_TRANSACTIONS \<longrightarrow> payment_shape e)"

lemma payment_shapeI:
  "0 \<le> cents \<Longrightarrow> status \<in> {''completed'', ''failed'', ''refunded''} \<Longrightarrow> pay_method \<in> {''card'', ''cash'', ''wallet''} \<Longrightarrow>
     payment_shape (payment_event txn ride cents status pay_method ts)"
  unfolding payment_shape_def by blast

lemma payment_shape_topic: "payment_shape e \<Longrightarrow> se_topic e = PAYMENTS_TRANSACTIONS"
  by (auto simp: payment_shape_def payment_event_def)

lemma topics_distinct: "PAYMENTS_TRANSACTIONS \<noteq> RIDES_EVENTS" "DRIVERS_LOCATIONS \<noteq> RIDES_EVENTS"
    "DRIVERS_LOCATIONS \<noteq> PAYMENTS_TRANSACTIONS"
  by (simp_all add: PAYMENTS_TRANSACTIONS_def RIDES_EVENTS_def DRIVERS_LOCATIONS_def)

section \<open>The shape of a ride\<close>

definition ride_shape :: "ActiveRide \<Rightarrow> bool" where
  "ride_shape ride \<longleftrightarrow>
     (\<exists>c \<in> set CITIES. ct_city_id c = ar_city_id ride \<and> in_city c (ar_pickup ride) \<and> in_city c (ar_dropoff ride))
     \<and> 1 \<le> ar_surge ride \<and> ar_surge ride \<le> 3 \<and> 0 \<le> ar_distance_km ride \<and> 0 \<le> ar_duration_sec ride"

definition ride_drivers :: "ActiveRide \<Rightarrow> string set" where
  "ride_drivers ride = set_option (ar_driver_id ride)"

definition ride_ended :: "ActiveRide \<Rightarrow> bool" where
  "ride_ended ride \<longleftrightarrow> is_terminal (ar_machine ride) \<or> ar_stop_after ride = ar_machine ride"

definition ride_ready :: "ActiveRide \<Rightarrow> bool" where
  "ride_ready ride \<longleftrightarrow>
     (\<exists>m e. ar_machine ride = Some m \<and> ar_next_event ride = Some e \<and> e \<in> set (LEGAL_TRANSITIONS m)
        \<and> (ar_driver_id ride = None \<longleftrightarrow> m = REQUESTED))
     \<and> ar_stop_after ride \<in> {None, Some MATCHED, Some DRIVER_ARRIVED} \<and> \<not> ride_ended ride"

lemma in_city_bounds:
  assumes "c \<in> set CITIES" "in_city c p"
  shows "8 \<le> fst p" "fst p \<le> 32" "68 \<le> snd p" "snd p \<le> 92"
  using assms by (auto simp: CITIES_def in_city_def)

lemma payload_version_range: "payload_version env t \<in> {1, 2}"
  by (simp add: payload_version_def split: option.split)

lemma emit_get:
  "d_get (se_value (emit env ride e t)) ''ride_id'' = PStr (ar_ride_id ride)"
  "d_get (se_value (emit env ride e t)) ''event_id'' = PStr (event_id (ar_ride_id ride) e)"
  "d_get (se_value (emit env ride e t)) ''event_type'' = PStr (ev_value e)"
  "d_get (se_value (emit env ride e t)) ''event_ts'' = PInt t"
  "d_get (se_value (emit env ride e t)) ''rider_id'' = PStr (ar_rider_id ride)"
  "d_get (se_value (emit env ride e t)) ''city_id'' = PInt (ar_city_id ride)"
  "d_get (se_value (emit env ride e t)) ''pickup_lat'' = PFloat (fst (ar_pickup ride))"
  "d_get (se_value (emit env ride e t)) ''pickup_lon'' = PFloat (snd (ar_pickup ride))"
  "d_get (se_value (emit env ride e t)) ''dropoff_lat'' =
     (if e \<in> {REQUESTED, STARTED, COMPLETED} then PFloat (fst (ar_dropoff ride)) else PNone)"
  "d_get (se_value (emit env ride e t)) ''dropoff_lon'' =
     (if e \<in> {REQUESTED, STARTED, COMPLETED} then PFloat (snd (ar_dropoff ride)) else PNone)"
  "d_get (se_value (emit env ride e t)) ''fare_cents'' = (if e = COMPLETED then of_opt_int (ar_fare_cents ride) else PNone)"
  "d_get (se_value (emit env ride e t)) ''surge_multiplier'' = PFloat (ar_surge ride)"
  "d_get (se_value (emit env ride e t)) ''payload_version'' = PInt (payload_version env t)"
  by (simp_all add: emit_def ride_event_def Let_def d_get_def)

lemma emit_ok:
  assumes "ride_shape ride" "e = COMPLETED \<Longrightarrow> \<exists>f \<ge> 0. ar_fare_cents ride = Some f"
  shows "event_ok (emit env ride e t)"
proof -
  obtain c where c: "c \<in> set CITIES" "ct_city_id c = ar_city_id ride" "in_city c (ar_pickup ride)" "in_city c (ar_dropoff ride)"
    using assms(1) unfolding ride_shape_def by blast
  have "ar_city_id ride \<in> {1, 2, 3, 4, 5}" using c(1,2) by (auto simp: CITIES_def)
  moreover have "ev_value e \<in> set EVENT_TYPES" by (cases e) (simp_all add: EVENT_TYPES_def)
  moreover have "d_get (se_value (emit env ride e t)) ''fare_cents'' = PNone
      \<or> (\<exists>f \<ge> 0. d_get (se_value (emit env ride e t)) ''fare_cents'' = PInt f)"
    using assms(2) by (cases "e = COMPLETED") (auto simp: emit_get)
  ultimately have "list_all (row_meets (se_value (emit env ride e t))) (filter row_level raw_rides_events_expectations)"
    using in_city_bounds [OF c(1,3)] in_city_bounds [OF c(1,4)] payload_version_range [of env t] assms(1)
    unfolding raw_rides_events_expectations_def ride_shape_def
    by (auto simp: emit_get CITY_IDS_def LAT_BOUNDS_def LON_BOUNDS_def)
  moreover have "se_topic (emit env ride e t) = RIDES_EVENTS" by (simp add: emit_def ride_event_def Let_def)
  ultimately show ?thesis using topics_distinct(1) by (simp add: event_ok_def)
qed

lemma emit_key [simp]: "se_key (emit env ride e t) = ar_ride_id ride"
  and emit_topic [simp]: "se_topic (emit env ride e t) = RIDES_EVENTS"
  and emit_ts [simp]: "se_ts (emit env ride e t) = t"
  and emit_stamp [simp]: "d_item (se_value (emit env ride e t)) ''event_ts'' = Inr (PInt t)"
  and emit_type [simp]: "d_item (se_value (emit env ride e t)) ''event_type'' = Inr (PStr (ev_value e))"
  by (simp_all add: emit_def ride_event_def Let_def d_item_def)

lemma lifecycle_emit:
  assumes "fst (\<sigma> (ar_ride_id ride)) = m" "e \<in> set (legal_next m)" "snd (\<sigma> (ar_ride_id ride)) \<le> t"
  shows "lifecycle_step (emit env ride e t) \<sigma> = Inr (\<sigma>(ar_ride_id ride := (Some e, t)))"
proof -
  have "advance m e = Inr (Some e)" using assms(2) by (simp add: advance_Inr)
  with assms show ?thesis by (simp add: lifecycle_step_def)
qed

lemma lifecycle_other: "se_topic e \<noteq> RIDES_EVENTS \<Longrightarrow> lifecycle_step e \<sigma> = Inr \<sigma>"
  by (simp add: lifecycle_step_def)

section \<open>Firing an event\<close>

definition payments_ok :: "'g simulator \<Rightarrow> bool" where
  "payments_ok s \<longleftrightarrow> list_all (\<lambda>(due, e). payment_shape e) (sm_payments s)"

definition sim_frame :: "'g simulator \<Rightarrow> 'g simulator \<Rightarrow> bool" where
  "sim_frame s s' \<longleftrightarrow> sm_active s' = sm_active s \<and> sm_counter s' = sm_counter s
     \<and> (payments_ok s \<longrightarrow> payments_ok s')"

text \<open>A ride and the pool after an event at time \<open>t\<close>: ended with its driver given back, or ready
  for the next event with its driver on a leg. \<open>B\<close> are the drivers of the other rides.\<close>

definition left_ok :: "string set \<Rightarrow> int \<Rightarrow> ActiveRide \<Rightarrow> 'g simulator \<Rightarrow> bool" where
  "left_ok B t ride s \<longleftrightarrow>
     (if ride_ended ride then pool_ok (sm_fleet s) B
      else ride_ready ride \<and> t \<le> ar_next_at_ms ride \<and> pool_ok (sm_fleet s) (B \<union> ride_drivers ride)
        \<and> ride_drivers ride \<inter> B = {})"

lemma sim_frame_refl [simp]: "sim_frame s s" "sim_frame s (s\<lparr>sm_rng := g\<rparr>)" "sim_frame s (s\<lparr>sm_fleet := ft\<rparr>)"
    "sim_frame s (s\<lparr>sm_fleet := ft, sm_rng := g\<rparr>)"
  by (simp_all add: sim_frame_def payments_ok_def)

lemma sim_frame_trans: "sim_frame a b \<Longrightarrow> sim_frame b c \<Longrightarrow> sim_frame a c"
  by (simp add: sim_frame_def)

lemma trunc_nonneg [simp]: "0 \<le> x \<Longrightarrow> 0 \<le> trunc x"
  by (simp add: trunc_def)

lemma sim_draw_range:
  assumes "rng_laws (en_R env)"
  shows "sim_random env s = (x, s') \<Longrightarrow> 0 \<le> x"
    "sim_uniform env a b s = (x, s') \<Longrightarrow> a \<le> b \<Longrightarrow> a \<le> x \<and> x \<le> b"
    "sim_exp env m s = (x, s') \<Longrightarrow> 0 < m \<Longrightarrow> 0 \<le> x"
    "xs \<noteq> [] \<Longrightarrow> sim_choice env xs s = (y, s') \<Longrightarrow> y \<in> set xs"
  using rng_lawsD [OF assms]
  by (auto simp: sim_random_def sim_uniform_def sim_exp_def sim_choice_def choice_def Let_def split: prod.splits)

lemma ride_shape_fields [simp]:
  "ride_shape (ride\<lparr>ar_driver_id := d\<rparr>) = ride_shape ride" "ride_shape (plan e t ride) = ride_shape ride"
  "ride_shape (ride\<lparr>ar_machine := m, ar_next_event := n\<rparr>) = ride_shape ride"
  "ride_shape (ride\<lparr>ar_fare_cents := f\<rparr>) = ride_shape ride" "ride_shape (ride\<lparr>ar_started_ms := k\<rparr>) = ride_shape ride"
  by (simp_all add: ride_shape_def plan_def)

lemma ride_drivers_fields [simp]:
  "ride_drivers (ride\<lparr>ar_driver_id := d\<rparr>) = set_option d" "ride_drivers (plan e t ride) = ride_drivers ride"
  "ride_drivers (ride\<lparr>ar_machine := m, ar_next_event := n\<rparr>) = ride_drivers ride"
  "ride_drivers (ride\<lparr>ar_fare_cents := f\<rparr>) = ride_drivers ride"
  "ride_drivers (ride\<lparr>ar_started_ms := k\<rparr>) = ride_drivers ride"
  "ride_drivers (ride\<lparr>ar_duration_sec := r\<rparr>) = ride_drivers ride"
  by (simp_all add: ride_drivers_def plan_def)

lemma release_driver_ok:
  assumes "pool_ok (sm_fleet s) (B \<union> ride_drivers ride)" "ride_drivers ride \<inter> B = {}"
  obtains ft where "release_driver env ride place s = Inr (s\<lparr>sm_fleet := ft\<rparr>)" "pool_ok ft B"
proof (cases "ar_driver_id ride")
  case None
  then show thesis using that [of "sm_fleet s"] assms by (simp add: release_driver_def ride_drivers_def)
next
  case (Some did)
  then obtain ft where ft: "release (en_R env) did place (sm_fleet s) = Inr ft" "pool_ok ft (B \<union> ride_drivers ride - {did})"
    using release_ok [OF assms(1), of did] by (auto simp: ride_drivers_def)
  moreover have "B \<union> ride_drivers ride - {did} = B" using Some assms(2) by (auto simp: ride_drivers_def)
  ultimately show thesis using that Some by (simp add: release_driver_def)
qed

lemma left_ready:
  assumes "e \<in> set (LEGAL_TRANSITIONS m)" "ar_machine ride = Some m" "ar_driver_id ride = Some did"
    and "m \<noteq> REQUESTED" "ar_stop_after ride \<in> {None, Some MATCHED, Some DRIVER_ARRIVED}" "ar_stop_after ride \<noteq> Some m"
    and "0 \<le> delay" "pool_ok (sm_fleet s) (insert did B)" "did \<notin> B"
  shows "left_ok B t (plan e (t + delay) ride) s"
  using assms by (cases m) (auto simp: left_ok_def ride_ready_def ride_ended_def is_terminal_def TERMINAL_STATES_def ride_drivers_def)

lemma after_matched_ok:
  assumes laws: "rng_laws (en_R env)" and pool: "pool_ok (sm_fleet s) B" and "ride_shape ride"
    and m: "ar_machine ride = Some MATCHED" and stop: "ar_stop_after ride \<in> {None, Some MATCHED, Some DRIVER_ARRIVED}"
  shows "\<exists>ride' s'. after_matched env t ride s = Inr (ride', s') \<and> ar_ride_id ride' = ar_ride_id ride
    \<and> ride_shape ride' \<and> left_ok B t ride' s' \<and> sim_frame s s'"
proof -
  obtain c where c: "c \<in> set CITIES" "ct_city_id c = ar_city_id ride"
    using assms(3) unfolding ride_shape_def by blast
  obtain did travel ft where a: "assign (en_cfg env) (en_R env) (ar_city_id ride) (ar_pickup ride) t (sm_fleet s) = Inr ((did, travel), ft)"
    and did: "did \<notin> B" "pool_ok ft (insert did B)" "20 \<le> travel"
    using assign_ok [OF pool c(1), of "en_cfg env" "en_R env" "ar_pickup ride" t] unfolding c(2) by metis
  let ?ride = "ride\<lparr>ar_driver_id := Some did\<rparr>" and ?s = "s\<lparr>sm_fleet := ft\<rparr>"
  show ?thesis
  proof (cases "ar_stop_after ride = Some MATCHED")
    case True
    obtain ft' where "release_driver env ?ride None ?s = Inr (?s\<lparr>sm_fleet := ft'\<rparr>)" "pool_ok ft' B"
      using release_driver_ok [of ?s B ?ride env None] did by auto
    with a True m assms(3) show ?thesis
      by (simp add: after_matched_def left_ok_def ride_ended_def)
  next
    case False
    obtain x s1 where x: "sim_random env ?s = (x, s1)" by fastforce
    obtain e s2 where e: "sim_exp env 60 s1 = (e, s2)" by fastforce
    obtain g1 g2 where s1: "s1 = ?s\<lparr>sm_rng := g1\<rparr>" and s2: "s2 = ?s\<lparr>sm_rng := g2\<rparr>"
      using sim_drawn(1) [OF x] sim_drawn(4) [OF e] by auto
    have "0 \<le> e" using sim_draw_range(3) [OF laws e] by simp
    then have "left_ok B t (plan CANCELLED (t + trunc (e * 1000)) ?ride) s2"
      using did m stop False by (intro left_ready [where m = MATCHED and did = did]) (auto simp: s2)
    moreover have "left_ok B t (plan DRIVER_ARRIVED (t + trunc (travel * 1000)) ?ride) s1"
      using did m stop False by (intro left_ready [where m = MATCHED and did = did]) (auto simp: s1)
    ultimately show ?thesis
      using a False x e assms(3) by (auto simp: after_matched_def Let_def s1 s2)
  qed
qed

lemma after_arrived_ok:
  assumes laws: "rng_laws (en_R env)" and pool: "pool_ok (sm_fleet s) (insert did B)" "did \<notin> B" and "ride_shape ride"
    and m: "ar_machine ride = Some DRIVER_ARRIVED" "ar_driver_id ride = Some did"
    and stop: "ar_stop_after ride \<in> {None, Some MATCHED}"
  shows "\<exists>ride' s'. after_arrived env t ride s = (ride', s') \<and> ar_ride_id ride' = ar_ride_id ride
    \<and> ride_shape ride' \<and> left_ok B t ride' s' \<and> sim_frame s s'"
proof -
  obtain x s1 where x: "sim_random env s = (x, s1)" by fastforce
  obtain e s2 where e: "sim_exp env 45 s1 = (e, s2)" by fastforce
  obtain u s3 where u: "sim_uniform env 10 90 s1 = (u, s3)" by fastforce
  obtain g1 g2 g3 where s: "s1 = s\<lparr>sm_rng := g1\<rparr>" "s2 = s\<lparr>sm_rng := g2\<rparr>" "s3 = s\<lparr>sm_rng := g3\<rparr>"
    using sim_drawn(1) [OF x] sim_drawn(4) [OF e] sim_drawn(2) [OF u] by auto
  have "0 \<le> e" "10 \<le> u" using sim_draw_range [OF laws] e u by (simp, force)
  then have "left_ok B t (plan CANCELLED (t + trunc (e * 1000)) ride) s2"
      "left_ok B t (plan STARTED (t + trunc (u * 1000)) ride) s3"
    using assms by (intro left_ready [where m = DRIVER_ARRIVED and did = did]; auto simp: s)+
  then show ?thesis using assms(4) x e u by (auto simp: after_arrived_def s)
qed

lemma after_started_ok:
  assumes laws: "rng_laws (en_R env)" and pool: "pool_ok (sm_fleet s) (insert did B)" "did \<notin> B" and "ride_shape ride"
    and m: "ar_machine ride = Some STARTED" "ar_driver_id ride = Some did"
    and stop: "ar_stop_after ride \<in> {None, Some MATCHED, Some DRIVER_ARRIVED}"
  shows "\<exists>ride' s'. after_started env t ride s = Inr (ride', s') \<and> ar_ride_id ride' = ar_ride_id ride
    \<and> ride_shape ride' \<and> left_ok B t ride' s' \<and> sim_frame s s'"
proof -
  obtain x s1 where x: "sim_gauss env 26 7 s = (x, s1)" by fastforce
  obtain y s2 where y: "sim_gauss env 0 (1 / 10) s1 = (y, s2)" by fastforce
  define dur where "dur = max (ar_distance_km ride / clip 10 55 x * 3600 * (1 + y)) 60"
  let ?ride = "ride\<lparr>ar_duration_sec := dur\<rparr>"
  obtain g2 where s2: "s2 = s\<lparr>sm_rng := g2\<rparr>" using sim_drawn(3) [OF x] sim_drawn(3) [OF y] by auto
  have "sm_fleet s2 = sm_fleet s" by (simp add: s2)
  with ride_started_ok [OF pool(1) insertI1]
  obtain ft where ft: "ride_started did (ar_dropoff ride) dur t (sm_fleet s2) = Inr ft" "pool_ok ft (insert did B)"
    by metis
  obtain z s3 where z: "sim_random env (s2\<lparr>sm_fleet := ft\<rparr>) = (z, s3)" by fastforce
  obtain u s4 where u: "sim_uniform env (1 / 10) (8 / 10) s3 = (u, s4)" by fastforce
  obtain g3 g4 where s: "s3 = s\<lparr>sm_fleet := ft, sm_rng := g3\<rparr>" "s4 = s\<lparr>sm_fleet := ft, sm_rng := g4\<rparr>"
    using sim_drawn(1) [OF z] sim_drawn(2) [OF u] by (auto simp: s2)
  have "60 \<le> dur" "0 \<le> u" using sim_draw_range(2) [OF laws u] by (simp_all add: dur_def)
  then have "left_ok B t (plan CANCELLED (t + trunc (dur * u * 1000)) ?ride) s4"
      "left_ok B t (plan COMPLETED (t + trunc (dur * 1000)) ?ride) s3"
    using assms ft by (intro left_ready [where m = STARTED and did = did]; auto simp: s)+
  moreover have "ride_shape ?ride" using assms(4) \<open>60 \<le> dur\<close> by (simp add: ride_shape_def)
  moreover have "after_started env t ride s =
      (if z < cancel_prob (en_cfg env) ''started'' then Inr (plan CANCELLED (t + trunc (dur * u * 1000)) ?ride, s4)
       else Inr (plan COMPLETED (t + trunc (dur * 1000)) ?ride, s3))"
    using x y z u ft(1) m(2) by (simp add: after_started_def Let_def dur_def)
  ultimately show ?thesis by (auto simp: s)
qed

lemma queue_payment_ok:
  assumes "ar_fare_cents ride = Some f" "0 \<le> f"
  shows "\<exists>s'. queue_payment env ride t s = Inr s' \<and> sim_frame s s' \<and> sm_fleet s' = sm_fleet s"
proof -
  obtain u s1 x s2 y s3 where d: "sim_uniform env 5 90 s = (u, s1)" "sim_random env s1 = (x, s2)" "sim_random env s2 = (y, s3)"
    by (metis surj_pair)
  from sim_drawn(2) [OF d(1)] sim_drawn(1) [OF d(2)] sim_drawn(1) [OF d(3)]
  obtain g where "s3 = s\<lparr>sm_rng := g\<rparr>" by auto
  moreover have "payment_shape (payment_event txn rid f
      (if x < 96 / 100 then ''completed'' else if x < 99 / 100 then ''failed'' else ''refunded'')
      (if y < 55 / 100 then ''card'' else if y < 85 / 100 then ''wallet'' else ''cash'') due)" for txn rid due
    by (rule payment_shapeI [OF assms(2)]) simp_all
  ultimately show ?thesis
    using d assms by (simp add: queue_payment_def Let_def sim_frame_def payments_ok_def)
qed

lemma fare_nonneg: "ride_shape ride \<Longrightarrow> 0 \<le> fare ride"
  by (simp add: fare_def Let_def ride_shape_def BASE_FARE_CENTS_def PER_KM_CENTS_def PER_MIN_CENTS_def)

lemma fire_effect_ok:
  assumes laws: "rng_laws (en_R env)" and pool: "pool_ok (sm_fleet s) (B \<union> ride_drivers ride)" "ride_drivers ride \<inter> B = {}"
    and "ride_shape ride" and m: "ar_machine ride = Some e" "e \<noteq> REQUESTED"
    and stop: "ar_stop_after ride \<in> {None, Some MATCHED, Some DRIVER_ARRIVED}"
    and drv: "e = MATCHED \<Longrightarrow> ar_driver_id ride = None"
      "e \<notin> {MATCHED, CANCELLED} \<Longrightarrow> ar_driver_id ride \<noteq> None"
  shows "\<exists>ride' s'. fire_effect env e t ride s = Inr (ride', s') \<and> ar_ride_id ride' = ar_ride_id ride
    \<and> ride_shape ride' \<and> (e = COMPLETED \<longrightarrow> (\<exists>f \<ge> 0. ar_fare_cents ride' = Some f))
    \<and> left_ok B t ride' s' \<and> sim_frame s s'"
proof (cases e)
  case REQUESTED
  with m show ?thesis by simp
next
  case MATCHED
  with drv pool have "pool_ok (sm_fleet s) B" by (simp add: ride_drivers_def)
  from after_matched_ok [OF laws this assms(4)] m stop MATCHED show ?thesis by (simp add: fire_effect_def)
next
  case DRIVER_ARRIVED
  then obtain did where did: "ar_driver_id ride = Some did" using drv by auto
  show ?thesis
  proof (cases "ar_stop_after ride = Some DRIVER_ARRIVED")
    case True
    obtain ft where "release_driver env ride None s = Inr (s\<lparr>sm_fleet := ft\<rparr>)" "pool_ok ft B"
      using release_driver_ok [OF pool, of env None] by blast
    with True DRIVER_ARRIVED m assms(4) show ?thesis by (simp add: fire_effect_def left_ok_def ride_ended_def)
  next
    case False
    have "pool_ok (sm_fleet s) (insert did B)" "did \<notin> B" using pool did by (auto simp: ride_drivers_def)
    from after_arrived_ok [OF laws this assms(4), of t] False DRIVER_ARRIVED m did stop show ?thesis
      by (auto simp: fire_effect_def)
  qed
next
  case STARTED
  then obtain did where did: "ar_driver_id ride = Some did" using drv by auto
  then have "pool_ok (sm_fleet s) (insert did B)" "did \<notin> B" using pool by (auto simp: ride_drivers_def)
  from after_started_ok [OF laws this, of "ride\<lparr>ar_started_ms := t\<rparr>" t] STARTED m did stop assms(4) show ?thesis
    by (auto simp: fire_effect_def)
next
  case COMPLETED
  let ?ride = "ride\<lparr>ar_fare_cents := Some (fare ride)\<rparr>" and ?s = "s\<lparr>sm_completed := sm_completed s + 1\<rparr>"
  obtain s1 where s1: "queue_payment env ?ride t ?s = Inr s1" "sim_frame ?s s1" "sm_fleet s1 = sm_fleet s"
    using queue_payment_ok [of ?ride "fare ride" env t ?s] fare_nonneg [OF assms(4)] by auto
  obtain ft where "release_driver env ?ride (Some (ar_dropoff ride)) s1 = Inr (s1\<lparr>sm_fleet := ft\<rparr>)" "pool_ok ft B"
    using release_driver_ok [of s1 B ?ride env] pool s1(3) by auto
  with s1 COMPLETED m fare_nonneg [OF assms(4)] assms(4) show ?thesis
    by (simp add: fire_effect_def left_ok_def ride_ended_def is_terminal_def TERMINAL_STATES_def sim_frame_def payments_ok_def)
next
  case CANCELLED
  let ?s = "s\<lparr>sm_cancelled := sm_cancelled s + 1\<rparr>"
  obtain ft where "release_driver env ride None ?s = Inr (?s\<lparr>sm_fleet := ft\<rparr>)" "pool_ok ft B"
    using release_driver_ok [of ?s B ride env None] pool by auto
  with CANCELLED m assms(4) show ?thesis
    by (simp add: fire_effect_def left_ok_def ride_ended_def is_terminal_def TERMINAL_STATES_def sim_frame_def payments_ok_def)
qed

end
