(* ===== verification/Imperfections.thy ===== *)
theory Imperfections
  imports Gen_Config Events
begin

text \<open>
  \<open>generator/imperfections.py\<close>: the \<open>Imperfector\<close>, which duplicates, delays, corrupts and blanks the
  events of the ride topic. Its state is its random stream, the events it holds with the time they
  are due, and the counters.
\<close>

record 'g imperfector =
  im_rng :: 'g
  im_held :: "(int \<times> source_event) list"
  im_stats :: "(string, nat) dict"

definition new_imperfector :: "'g \<Rightarrow> 'g imperfector" where
  "new_imperfector g =
     \<lparr>im_rng = g, im_held = [],
      im_stats = map (\<lambda>k. (k, 0)) [''duplicate'', ''out_of_order'', ''late'', ''malformed'', ''null_field'',
                                   ''bad_data'', ''clean'']\<rparr>"

text \<open>\<open>self.stats[k] += 1\<close> of a key of the table.\<close>

definition bump :: "string \<Rightarrow> 'g imperfector \<Rightarrow> 'g imperfector" where
  "bump k i = i\<lparr>im_stats := map (\<lambda>(k', n). (k', if k' = k then n + 1 else n)) (im_stats i)\<rparr>"

definition im_random :: "'g rng \<Rightarrow> 'g imperfector \<Rightarrow> real \<times> 'g imperfector" where
  "im_random R i = (let (x, g) = rn_random R (im_rng i) in (x, i\<lparr>im_rng := g\<rparr>))"

definition im_uniform :: "'g rng \<Rightarrow> real \<Rightarrow> real \<Rightarrow> 'g imperfector \<Rightarrow> real \<times> 'g imperfector" where
  "im_uniform R a b i = (let (x, g) = rn_uniform R a b (im_rng i) in (x, i\<lparr>im_rng := g\<rparr>))"

definition hold :: "int \<Rightarrow> source_event \<Rightarrow> 'g imperfector \<Rightarrow> 'g imperfector" where
  "hold at_ms event i = i\<lparr>im_held := im_held i @ [(at_ms, event)]\<rparr>"

definition maybe_corrupt_only :: "GeneratorConfig \<Rightarrow> 'g rng \<Rightarrow> source_event \<Rightarrow> 'g imperfector
    \<Rightarrow> source_event \<times> 'g imperfector" where
  "maybe_corrupt_only cfg R event i =
     (let (x, i) = im_random R i in
      if x < malformed_rate cfg then (event\<lparr>se_corrupt := True\<rparr>, bump ''malformed'' i) else (event, i))"

definition maybe_bad_data :: "GeneratorConfig \<Rightarrow> 'g rng \<Rightarrow> source_event \<Rightarrow> 'g imperfector
    \<Rightarrow> exn + source_event \<times> 'g imperfector" where
  "maybe_bad_data cfg R event i =
     (let (x, i) = im_random R i in
      if x \<ge> bad_data_rate cfg then Inr (event, i)
      else
        let i = bump ''bad_data'' i;
            value = AList.update ''pickup_lon'' (PFloat 199.9) (AList.update ''pickup_lat'' (PFloat 99.9) (se_value event))
        in if d_get value ''fare_cents'' = PNone then Inr (event\<lparr>se_value := value\<rparr>, i)
           else rbind (py_int (d_get value ''fare_cents'')) (\<lambda>cents.
                  Inr (event\<lparr>se_value := AList.update ''fare_cents'' (PInt (- \<bar>cents\<bar>)) value\<rparr>, i)))"

definition maybe_null_fields :: "GeneratorConfig \<Rightarrow> 'g rng \<Rightarrow> source_event \<Rightarrow> 'g imperfector
    \<Rightarrow> source_event \<times> 'g imperfector" where
  "maybe_null_fields cfg R event i =
     (if d_get (se_value event) ''event_type'' = PStr (ev_value REQUESTED) then
        let (x, i) = im_random R i in
        if x < null_field_rate cfg
        then (event\<lparr>se_value := AList.update ''dropoff_lon'' PNone (AList.update ''dropoff_lat'' PNone (se_value event))\<rparr>,
              bump ''null_field'' i)
        else (event, i)
      else (event, i))"

text \<open>The cumulative thresholds of \<open>process\<close>.\<close>

definition process_roll :: "GeneratorConfig \<Rightarrow> 'g rng \<Rightarrow> source_event \<Rightarrow> int \<Rightarrow> 'g imperfector
    \<Rightarrow> source_event list \<times> 'g imperfector" where
  "process_roll cfg R event now i =
     (let (roll, i) = im_random R i in
      if roll < malformed_rate cfg then ([event\<lparr>se_corrupt := True\<rparr>], bump ''malformed'' i)
      else if roll < malformed_rate cfg + dup_rate cfg then
        let (u, i) = im_uniform R 1 10 (bump ''duplicate'' i)
        in ([event], hold (now + trunc (u * 1000)) event i)
      else if roll < malformed_rate cfg + dup_rate cfg + ooo_rate cfg then
        let (u, i) = im_uniform R 1 (ooo_max_skew_sec cfg) (bump ''out_of_order'' i)
        in ([], hold (now + trunc (u * 1000)) event i)
      else if roll < malformed_rate cfg + dup_rate cfg + ooo_rate cfg + late_rate cfg then
        let (u, i) = im_uniform R (ooo_max_skew_sec cfg + 1) (late_max_sec cfg) (bump ''late'' i)
        in ([], hold (now + trunc (u * 1000)) event i)
      else ([event], bump ''clean'' i))"

definition process_event :: "GeneratorConfig \<Rightarrow> 'g rng \<Rightarrow> source_event \<Rightarrow> int \<Rightarrow> 'g imperfector
    \<Rightarrow> exn + source_event list \<times> 'g imperfector" where
  "process_event cfg R event now i =
     (if se_topic event = PAYMENTS_TRANSACTIONS then
        let (event, i) = maybe_corrupt_only cfg R event i in Inr ([event], i)
      else if se_topic event \<noteq> RIDES_EVENTS then Inr ([event], i)
      else
        let (event, i) = maybe_null_fields cfg R event i
        in rbind (maybe_bad_data cfg R event i) (\<lambda>(event, i). Inr (process_roll cfg R event now i)))"

definition release_due :: "int \<Rightarrow> 'g imperfector \<Rightarrow> source_event list \<times> 'g imperfector" where
  "release_due now i =
     (map snd (filter (\<lambda>(at_ms, _). at_ms \<le> now) (im_held i)),
      i\<lparr>im_held := filter (\<lambda>(at_ms, _). at_ms > now) (im_held i)\<rparr>)"

definition pending :: "'g imperfector \<Rightarrow> nat" where
  "pending i = length (im_held i)"

fun process_events :: "GeneratorConfig \<Rightarrow> 'g rng \<Rightarrow> int \<Rightarrow> source_event list \<Rightarrow> 'g imperfector
    \<Rightarrow> exn + source_event list \<times> 'g imperfector" where
  "process_events cfg R now [] i = Inr ([], i)"
| "process_events cfg R now (e # es) i =
     rbind (process_event cfg R e now i) (\<lambda>(out, i).
     rbind (process_events cfg R now es i) (\<lambda>(outs, i). Inr (out @ outs, i)))"

end
