(* ===== verification/Simulation.thy ===== *)
theory Simulation
  imports Ride_Ticks Imperfections
begin

text \<open>
  \<open>generator/simulate.py\<close>: the streams wired from the master seed and the tick loop. A run gives the
  batches it yields with the objects as they are left; \<open>None\<close> is a tick that never returns, \<open>Inl\<close>
  the exception that ends the iteration.
\<close>

type_synonym batches = "(int \<times> source_event list) list"

text \<open>The wall clock in microseconds, cut to its minute.\<close>

definition wall_anchor_ms :: "int \<Rightarrow> int" where
  "wall_anchor_ms now_us = (now_us div 60000000) * 60000"

definition build_simulator :: "'g rng \<Rightarrow> (string \<Rightarrow> nat) \<Rightarrow> GeneratorConfig \<Rightarrow> int
    \<Rightarrow> 'g sim_env \<times> 'g simulator \<times> 'g imperfector" where
  "build_simulator R crc32 cfg anchor_ms =
     (let master = rn_seeded R (seed cfg);
          (a, master) = rn_getrandbits R 64 master;
          (b, master) = rn_getrandbits R 64 master;
          (c, master) = rn_getrandbits R 64 master;
          fleet = new_fleet cfg R (rn_seeded R (int b)) anchor_ms
      in (\<lparr>en_cfg = cfg, en_R = R, en_anchor_ms = anchor_ms, en_run_token = run_token crc32 cfg anchor_ms\<rparr>,
          new_simulator fleet (rn_seeded R (int a)), new_imperfector (rn_seeded R (int c))))"

text \<open>One iteration of the loop, and the iterations left.\<close>

definition sim_tick :: "'g sim_env \<Rightarrow> int \<Rightarrow> 'g simulator \<Rightarrow> 'g imperfector
    \<Rightarrow> (exn + source_event list \<times> 'g simulator \<times> 'g imperfector) option" where
  "sim_tick env now s i =
     (let (released, i) = release_due now i in
      case sim_on_tick env now s of
        None \<Rightarrow> None
      | Some r \<Rightarrow>
          Some (rbind r (\<lambda>(events, s).
            rbind (process_events (en_cfg env) (en_R env) now events i) (\<lambda>(out, i).
              Inr (released @ out, s, i)))))"

fun run_ticks :: "'g sim_env \<Rightarrow> nat \<Rightarrow> SimClock \<Rightarrow> 'g simulator \<Rightarrow> 'g imperfector
    \<Rightarrow> (exn + batches \<times> SimClock \<times> 'g simulator \<times> 'g imperfector) option" where
  "run_ticks env 0 clock s i = Some (Inr ([], clock, s, i))"
| "run_ticks env (Suc n) clock s i =
     (case sim_tick env (now_ms clock) s i of
        None \<Rightarrow> None
      | Some (Inl e) \<Rightarrow> Some (Inl e)
      | Some (Inr (batch, s, i)) \<Rightarrow>
          (case run_ticks env n (advance_clock clock) s i of
             None \<Rightarrow> None
           | Some r \<Rightarrow> Some (rbind r (\<lambda>(bs, rest). Inr ((now_ms clock, batch) # bs, rest)))))"

definition simulate_ticks :: "'g rng \<Rightarrow> (string \<Rightarrow> nat) \<Rightarrow> int \<Rightarrow> GeneratorConfig \<Rightarrow> nat \<Rightarrow> int option
    \<Rightarrow> (exn + batches \<times> SimClock \<times> 'g simulator \<times> 'g imperfector) option" where
  "simulate_ticks R crc32 now_us cfg ticks anchor_ms =
     (let anchor = (case anchor_ms of Some a \<Rightarrow> a
                    | None \<Rightarrow> (case cfg_anchor_ms cfg of Some a \<Rightarrow> a | None \<Rightarrow> wall_anchor_ms now_us));
          clock = \<lparr>ck_anchor_ms = anchor, ck_tick_ms = tick_ms cfg, ck_ticks = 0\<rparr>;
          (env, s, i) = build_simulator R crc32 cfg anchor
      in run_ticks env ticks clock s i)"

definition ticks_for :: "GeneratorConfig \<Rightarrow> exn + int" where
  "ticks_for cfg =
     (if tick_ms cfg = 0 then Inl (Exn ''ZeroDivisionError'' ''float division by zero'')
      else Inr (max (trunc (gen_duration_sec cfg * speed cfg * 1000 / of_int (tick_ms cfg))) 1))"

end
