(* ===== verification/Generator_Invariant.thy ===== *)
theory Generator_Invariant
  imports Ride_Invariant Simulation
begin

text \<open>
  The invariant of the ride simulator against a state \<open>\<sigma>\<close> of the lifecycle store, and that every
  tick keeps it: a tick returns, raises nothing, emits events the store accepts and the quality
  suite passes, and leaves no driver with two rides.
\<close>

section \<open>A ride's loop\<close>

lemma fire_ok:
  assumes laws: "rng_laws (en_R env)" and "ride_ready ride" "ride_shape ride"
    and pool: "pool_ok (sm_fleet s) (B \<union> ride_drivers ride)" "ride_drivers ride \<inter> B = {}"
  obtains e ride' s' where "e \<in> set (legal_next (ar_machine ride))"
    "fire env ride s = Inr (emit env ride' e (ar_next_at_ms ride), ride', s')" "ar_ride_id ride' = ar_ride_id ride"
    "ar_machine ride' = Some e" "ride_shape ride'" "event_ok (emit env ride' e (ar_next_at_ms ride))"
    "left_ok B (ar_next_at_ms ride) ride' s'" "sim_frame s s'"
proof -
  obtain m e where m: "ar_machine ride = Some m" "ar_next_event ride = Some e" "e \<in> set (LEGAL_TRANSITIONS m)"
    and drv: "ar_driver_id ride = None \<longleftrightarrow> m = REQUESTED"
    using assms(2) unfolding ride_ready_def by metis
  have stop: "ar_stop_after ride \<in> {None, Some MATCHED, Some DRIVER_ARRIVED}"
    using assms(2) unfolding ride_ready_def by blast
  let ?ride = "ride\<lparr>ar_machine := Some e, ar_next_event := None\<rparr>"
  have "e \<noteq> REQUESTED" "e = MATCHED \<Longrightarrow> ar_driver_id ?ride = None"
    "e \<notin> {MATCHED, CANCELLED} \<Longrightarrow> ar_driver_id ?ride \<noteq> None"
    using m(3) drv by (cases m; auto)+
  then obtain ride' s' where f: "fire_effect env e (ar_next_at_ms ride) ?ride s = Inr (ride', s')"
    "ar_ride_id ride' = ar_ride_id ride" "ride_shape ride'" "e = COMPLETED \<longrightarrow> (\<exists>f \<ge> 0. ar_fare_cents ride' = Some f)"
    "left_ok B (ar_next_at_ms ride) ride' s'" "sim_frame s s'"
    using fire_effect_ok [OF laws, of s B ?ride e "ar_next_at_ms ride"] pool assms(3) stop by auto
  show thesis
  proof
    show e: "e \<in> set (legal_next (ar_machine ride))" using m by (simp add: legal_next_def)
    then have "advance (ar_machine ride) e = Inr (Some e)" by (simp add: advance_Inr)
    then show "fire env ride s = Inr (emit env ride' e (ar_next_at_ms ride), ride', s')"
      using m(2) f(1) by (simp add: fire_def)
    show "ar_machine ride' = Some e" using fire_effect_machine [OF f(1)] by simp
    show "event_ok (emit env ride' e (ar_next_at_ms ride))" using emit_ok f(3,4) by blast
  qed (use f in simp_all)
qed

lemma ride_loop_ok:
  assumes laws: "rng_laws (en_R env)"
    and "ride_ready ride" "ride_shape ride" "ar_ride_id ride = rid" "\<sigma> rid = (ar_machine ride, t)" "t \<le> ar_next_at_ms ride"
    and "pool_ok (sm_fleet s) (B \<union> ride_drivers ride)" "ride_drivers ride \<inter> B = {}"
  shows "\<exists>evs ride' s' t'. ride_loop env now ride s = Inr (evs, ride', ride_ended ride', s')
    \<and> ar_ride_id ride' = rid \<and> ride_shape ride'
    \<and> rfold lifecycle_step evs \<sigma> = Inr (\<sigma>(rid := (ar_machine ride', t'))) \<and> list_all event_ok evs
    \<and> left_ok B t' ride' s' \<and> sim_frame s s'"
  using assms(2-)
proof (induction "stages_left (ar_machine ride)" arbitrary: ride s \<sigma> t rule: less_induct)
  case less
  show ?case
  proof (cases "has_due_event ride now")
    case False
    have "\<sigma> = \<sigma>(rid := (ar_machine ride, t))" using less.prems(4) by auto
    then show ?thesis
      using False less.prems by (subst ride_loop.simps) (auto simp: left_ok_def ride_ready_def)
  next
    case True
    obtain e ride' s' where f: "e \<in> set (legal_next (ar_machine ride))"
      "fire env ride s = Inr (emit env ride' e (ar_next_at_ms ride), ride', s')" "ar_ride_id ride' = ar_ride_id ride"
      "ar_machine ride' = Some e" "ride_shape ride'" "event_ok (emit env ride' e (ar_next_at_ms ride))"
      "left_ok B (ar_next_at_ms ride) ride' s'" "sim_frame s s'"
      using fire_ok [OF laws less.prems(1,2,6,7)] by metis
    let ?\<sigma> = "\<sigma>(rid := (Some e, ar_next_at_ms ride))"
    have step: "lifecycle_step (emit env ride' e (ar_next_at_ms ride)) \<sigma> = Inr ?\<sigma>"
      using lifecycle_emit [of \<sigma> ride' "ar_machine ride" e "ar_next_at_ms ride"] f(1,3) less.prems(3-5) by simp
    show ?thesis
    proof (cases "ride_ended ride'")
      case True
      with f step less.prems(3) \<open>has_due_event ride now\<close> show ?thesis
        by (subst ride_loop.simps) (auto simp: ride_ended_def intro!: exI [of _ "ar_next_at_ms ride"])
    next
      case False
      then have l: "ride_ready ride'" "ar_next_at_ms ride \<le> ar_next_at_ms ride'"
        "pool_ok (sm_fleet s') (B \<union> ride_drivers ride')" "ride_drivers ride' \<inter> B = {}"
        using f(7) by (simp_all add: left_ok_def)
      have "stages_left (ar_machine ride') < stages_left (ar_machine ride)"
        using stages_left_less [OF f(1)] f(4) by simp
      from less.hyps [OF this l(1) f(5) _ _ l(2,3,4), of ?\<sigma>] f(3,4) less.prems(3)
      obtain evs ride'' s'' t' where r: "ride_loop env now ride' s' = Inr (evs, ride'', ride_ended ride'', s'')"
        "ar_ride_id ride'' = rid" "ride_shape ride''"
        "rfold lifecycle_step evs ?\<sigma> = Inr (?\<sigma>(rid := (ar_machine ride'', t')))" "list_all event_ok evs"
        "left_ok B t' ride'' s''" "sim_frame s' s''"
        by auto
      have "ride_loop env now ride s = Inr (emit env ride' e (ar_next_at_ms ride) # evs, ride'', ride_ended ride'', s'')"
        using True False f(2) r(1) by (subst ride_loop.simps) (auto simp: ride_ended_def)
      with r step f(6) sim_frame_trans [OF f(8) r(7)] show ?thesis by fastforce
    qed
  qed
qed

section \<open>All rides\<close>

definition live :: "lifecycle \<Rightarrow> string \<times> ActiveRide \<Rightarrow> bool" where
  "live \<sigma> = (\<lambda>(rid, ride). ar_ride_id ride = rid \<and> ride_shape ride \<and> ride_ready ride
     \<and> fst (\<sigma> rid) = ar_machine ride \<and> snd (\<sigma> rid) \<le> ar_next_at_ms ride)"

definition crew :: "(string, ActiveRide) dict \<Rightarrow> string set" where
  "crew rides = (\<Union>(rid, ride) \<in> set rides. ride_drivers ride)"

fun crew_ok :: "string set \<Rightarrow> (string, ActiveRide) dict \<Rightarrow> bool" where
  "crew_ok B [] \<longleftrightarrow> True"
| "crew_ok B ((rid, ride) # rides) \<longleftrightarrow> ride_drivers ride \<inter> (B \<union> crew rides) = {} \<and> crew_ok B rides"

lemma crew_simps [simp]: "crew [] = {}" "crew ((rid, ride) # rides) = ride_drivers ride \<union> crew rides"
  "crew (rides @ rides') = crew rides \<union> crew rides'"
  by (simp_all add: crew_def)

lemma crew_ok_union: "crew_ok (B \<union> D) rides \<longleftrightarrow> crew_ok B rides \<and> crew rides \<inter> D = {}"
  by (induction rides) auto

lemma crew_ok_snoc:
  "crew_ok B (rides @ [(rid, ride)]) \<longleftrightarrow> crew_ok B rides \<and> ride_drivers ride \<inter> (B \<union> crew rides) = {}"
  by (induction rides) auto

lemma live_cong: "\<sigma> rid = \<sigma>' rid \<Longrightarrow> live \<sigma> (rid, ride) = live \<sigma>' (rid, ride)"
  by (simp add: live_def)

abbreviation kept :: "(string, ActiveRide) dict \<Rightarrow> (string, ActiveRide) dict" where
  "kept rides \<equiv> filter (\<lambda>(rid, ride). \<not> ride_ended ride) rides"

lemma progress_rides_ok:
  assumes laws: "rng_laws (en_R env)"
    and "list_all (live \<sigma>) rides" "dict_ok rides" "crew_ok B rides" "pool_ok (sm_fleet s) (B \<union> crew rides)"
  shows "\<exists>evs rides' s' \<sigma>'. progress_rides env now rides s
      = Inr (evs, rides', map fst (filter (\<lambda>(rid, ride). ride_ended ride) rides'), s')
    \<and> map fst rides' = map fst rides \<and> rfold lifecycle_step evs \<sigma> = Inr \<sigma>' \<and> list_all event_ok evs
    \<and> (\<forall>rid. rid \<notin> fst ` set rides \<longrightarrow> \<sigma>' rid = \<sigma> rid) \<and> sim_frame s s' \<and> list_all (live \<sigma>') (kept rides')
    \<and> crew_ok B (kept rides') \<and> pool_ok (sm_fleet s') (B \<union> crew (kept rides'))"
  using assms(2-)
proof (induction rides arbitrary: s \<sigma> B)
  case Nil
  then show ?case by simp
next
  case (Cons x rides)
  obtain rid ride where x: "x = (rid, ride)" by fastforce
  note prems = Cons.prems [unfolded x]
  let ?B = "B \<union> crew rides"
  have l: "live \<sigma> (rid, ride)" using prems(1) by simp
  have "pool_ok (sm_fleet s) (?B \<union> ride_drivers ride)" "ride_drivers ride \<inter> ?B = {}"
    using prems(3,4) by (auto simp: ac_simps)
  with ride_loop_ok [OF laws, where ride = ride and rid = rid and \<sigma> = \<sigma> and t = "snd (\<sigma> rid)" and s = s and B = ?B and now = now] l
  obtain evs ride' s1 t' where r: "ride_loop env now ride s = Inr (evs, ride', ride_ended ride', s1)"
    "ar_ride_id ride' = rid" "ride_shape ride'" "rfold lifecycle_step evs \<sigma> = Inr (\<sigma>(rid := (ar_machine ride', t')))"
    "list_all event_ok evs" "left_ok ?B t' ride' s1" "sim_frame s s1"
    by (auto simp: live_def prod_eq_iff)
  let ?\<sigma> = "\<sigma>(rid := (ar_machine ride', t'))" and ?D = "if ride_ended ride' then {} else ride_drivers ride'"
  have "live ?\<sigma> (k, r)" if "(k, r) \<in> set rides" for k r
  proof -
    have "k \<noteq> rid" using that prems(2) by force
    then show ?thesis using that prems(1) live_cong [of \<sigma> k ?\<sigma> r] by (auto simp: list_all_iff)
  qed
  then have "list_all (live ?\<sigma>) rides" by (auto simp: list_all_iff)
  moreover have "crew_ok (B \<union> ?D) rides"
    using prems(3) r(6) by (auto simp: crew_ok_union left_ok_def split: if_splits)
  moreover have "pool_ok (sm_fleet s1) ((B \<union> ?D) \<union> crew rides)"
    using r(6) by (auto simp: left_ok_def ac_simps)
  moreover have "dict_ok rides" "rid \<notin> fst ` set rides" using prems(2) by simp_all
  ultimately obtain evs' rides' s' \<sigma>' where p: "progress_rides env now rides s1
      = Inr (evs', rides', map fst (filter (\<lambda>(rid, ride). ride_ended ride) rides'), s')"
    "map fst rides' = map fst rides" "rfold lifecycle_step evs' ?\<sigma> = Inr \<sigma>'" "list_all event_ok evs'"
    "\<forall>rid. rid \<notin> fst ` set rides \<longrightarrow> \<sigma>' rid = ?\<sigma> rid" "sim_frame s1 s'" "list_all (live \<sigma>') (kept rides')"
    "crew_ok (B \<union> ?D) (kept rides')" "pool_ok (sm_fleet s') ((B \<union> ?D) \<union> crew (kept rides'))"
    using Cons.IH [of ?\<sigma> "B \<union> ?D" s1] by blast
  have "\<sigma>' rid = (ar_machine ride', t')" using p(5) \<open>rid \<notin> fst ` set rides\<close> by simp
  then have "\<not> ride_ended ride' \<Longrightarrow> live \<sigma>' (rid, ride')"
    using r(2,3,6) by (simp add: live_def left_ok_def)
  moreover have "crew_ok B (kept ((rid, ride') # rides'))"
    using p(8) r(6) by (auto simp: crew_ok_union left_ok_def)
  moreover have "pool_ok (sm_fleet s') (B \<union> crew (kept ((rid, ride') # rides')))"
    using p(9) by (auto simp: ac_simps)
  moreover have "progress_rides env now (x # rides) s = Inr (evs @ evs', (rid, ride') # rides',
      map fst (filter (\<lambda>(rid, ride). ride_ended ride) ((rid, ride') # rides')), s')"
    using r(1,2) p(1) by (simp add: x)
  moreover have "rfold lifecycle_step (evs @ evs') \<sigma> = Inr \<sigma>'" using r(4) p(3) by (simp add: rfold_append)
  moreover have "\<forall>k. k \<notin> fst ` set (x # rides) \<longrightarrow> \<sigma>' k = \<sigma> k" using p(5) by (auto simp: x)
  ultimately show ?case
    using p(2,4,7) r(5) sim_frame_trans [OF r(7) p(6)] by (intro exI conjI) (assumption | simp add: x)+
qed

section \<open>The simulator\<close>

definition ride_key :: "'g sim_env \<Rightarrow> nat \<Rightarrow> string" where
  "ride_key env k = ''r-'' @ en_run_token env @ ''-'' @ padded 6 k"

definition sim_ok :: "'g sim_env \<Rightarrow> lifecycle \<Rightarrow> 'g simulator \<Rightarrow> bool" where
  "sim_ok env \<sigma> s \<longleftrightarrow>
     pool_ok (sm_fleet s) (crew (sm_active s)) \<and> crew_ok {} (sm_active s) \<and> dict_ok (sm_active s)
     \<and> list_all (live \<sigma>) (sm_active s) \<and> payments_ok s
     \<and> fst ` set (sm_active s) \<subseteq> ride_key env ` {..sm_counter s}
     \<and> (\<forall>k > sm_counter s. \<sigma> (ride_key env k) = (machine_init, en_anchor_ms env))"

text \<open>An operation that emits events: it raises nothing, the store accepts the events, the suite
  passes them, and the invariant holds after it.\<close>

definition emits_ok :: "'g sim_env \<Rightarrow> lifecycle \<Rightarrow> exn + source_event list \<times> 'g simulator \<Rightarrow> bool" where
  "emits_ok env \<sigma> r \<longleftrightarrow>
     (\<exists>evs s \<sigma>'. r = Inr (evs, s) \<and> rfold lifecycle_step evs \<sigma> = Inr \<sigma>' \<and> list_all event_ok evs \<and> sim_ok env \<sigma>' s)"

lemma emits_okE:
  assumes "emits_ok env \<sigma> r"
  obtains evs s \<sigma>' where "r = Inr (evs, s)" "rfold lifecycle_step evs \<sigma> = Inr \<sigma>'" "list_all event_ok evs" "sim_ok env \<sigma>' s"
  using assms unfolding emits_ok_def by blast

lemma sim_ok_fields [simp]:
  "sim_ok env \<sigma> (s\<lparr>sm_rng := g\<rparr>) = sim_ok env \<sigma> s" "sim_ok env \<sigma> (s\<lparr>sm_spawn_carry := x\<rparr>) = sim_ok env \<sigma> s"
  by (simp_all add: sim_ok_def payments_ok_def)

lemma ride_key_inj: "ride_key env k = ride_key env k' \<longleftrightarrow> k = k'"
  by (simp add: ride_key_def padded_inj)

lemma new_simulator_ok:
  "sim_ok env (\<lambda>_. (machine_init, en_anchor_ms env)) (new_simulator (new_fleet cfg R g anchor) g')"
  by (simp add: sim_ok_def new_simulator_def new_fleet_ok payments_ok_def)

lemma sim_ok_new_ride:
  assumes "sim_ok env \<sigma> s" "ride_shape ride" "ride_ready ride" "ar_ride_id ride = ride_key env (sm_counter s + 1)"
    and "ar_driver_id ride = None" "t \<le> ar_next_at_ms ride"
  shows "sim_ok env (\<sigma>(ar_ride_id ride := (ar_machine ride, t)))
     (s\<lparr>sm_counter := sm_counter s + 1, sm_rng := g, sm_active := AList.update (ar_ride_id ride) ride (sm_active s)\<rparr>)"
proof -
  let ?\<sigma> = "\<sigma>(ar_ride_id ride := (ar_machine ride, t))"
  have new: "ar_ride_id ride \<notin> fst ` set (sm_active s)"
    using assms(1,4) by (auto simp: sim_ok_def ride_key_inj)
  have "live ?\<sigma> (k, r)" if "(k, r) \<in> set (sm_active s)" for k r
  proof -
    have "k \<noteq> ar_ride_id ride" using that new by force
    then show ?thesis using that assms(1) live_cong [of \<sigma> k ?\<sigma> r] by (auto simp: sim_ok_def list_all_iff)
  qed
  then have "list_all (live ?\<sigma>) (sm_active s @ [(ar_ride_id ride, ride)])"
    using assms(2,3,6) by (auto simp: list_all_iff live_def)
  moreover have "ride_drivers ride = {}" using assms(5) by (simp add: ride_drivers_def)
  moreover have "k > sm_counter s + 1 \<Longrightarrow> ?\<sigma> (ride_key env k) = (machine_init, en_anchor_ms env)" for k
    using assms(1,4) by (simp add: sim_ok_def ride_key_inj)
  ultimately show ?thesis
    using assms(1) new unfolding assms(4)
    by (auto simp: sim_ok_def dict_update_new crew_ok_snoc payments_ok_def)
qed

lemma clip_range: "lo \<le> hi \<Longrightarrow> lo \<le> clip lo hi x \<and> clip lo hi x \<le> hi"
  by (simp add: clip_def)

lemma round_even_bounds: "of_int a \<le> x \<Longrightarrow> x \<le> of_int b \<Longrightarrow> a \<le> round_even x \<and> round_even x \<le> b"
  using round_even_err [of x] by linarith

lemma surge_range:
  assumes "surge_for env now s = (x, s')"
  shows "1 \<le> x" "x \<le> 3"
proof -
  obtain y where x: "x = round_to 2 (clip 1 3 y)"
    using assms by (auto simp: surge_for_def Let_def split: prod.splits)
  have "real_of_int 100 \<le> clip 1 3 y * 10 ^ 2" "clip 1 3 y * 10 ^ 2 \<le> real_of_int 300"
    using clip_range [of 1 3 y] by simp_all
  then show "1 \<le> x" "x \<le> 3"
    using round_even_bounds [of 100 "clip 1 3 y * 10 ^ 2" 300] by (simp_all add: x round_to_def)
qed

lemma ride_ends_ok:
  assumes "c \<in> set CITIES" "ride_ends env c s = ((pickup, dropoff), s')"
  shows "in_city c pickup" "in_city c dropoff"
  using assms(2)
  by (auto simp: ride_ends_def sim_point_def Let_def dest: sample_in_city [OF assms(1)] split: prod.splits if_splits)

lemma pick_city_ok: "pick_city env s = (c, s') \<Longrightarrow> c \<in> set CITIES"
  by (auto simp: pick_city_def Let_def intro!: pick_weighted_in split: prod.splits)

lemma maybe_abandon_ok:
  assumes "rng_laws (en_R env)" "maybe_abandon env s = (stop, s')"
  shows "stop \<in> {None, Some MATCHED, Some DRIVER_ARRIVED}"
  using assms(2) sim_draw_range(4) [OF assms(1), of "[MATCHED, DRIVER_ARRIVED]"]
  by (auto simp: maybe_abandon_def Let_def split: prod.splits if_splits)

lemma schedule_ok:
  assumes "rng_laws (en_R env)" "schedule_after_requested env ride s = (ride', s')"
  shows "\<exists>e d. e \<in> {MATCHED, CANCELLED} \<and> 0 \<le> d \<and> ride' = plan e (ar_requested_ms ride + d) ride"
proof -
  obtain x s1 where x: "sim_random env s = (x, s1)" by fastforce
  obtain y s2 where y: "sim_exp env 90 s1 = (y, s2)" by fastforce
  obtain z s3 where z: "sim_exp env 30 s1 = (z, s3)" by fastforce
  have "0 \<le> y" using sim_draw_range(3) [OF assms(1) y] by simp
  then have "0 \<le> trunc (min y 600 * 1000)" "0 \<le> trunc (clip 3 240 z * 1000)"
    by (simp_all add: clip_def)
  with assms(2) x y z show ?thesis
    by (auto simp: schedule_after_requested_def Let_def split: if_splits)
qed

lemma sim_randrange_ok:
  assumes "rng_laws (en_R env)" "0 < n"
  obtains k g where "sim_randrange env n s = Inr (k, s\<lparr>sm_rng := g\<rparr>)" "0 \<le> k" "k < n"
proof -
  obtain k g where "rn_below (en_R env) (nat n) (sm_rng s) = (k, g)" by fastforce
  with rng_lawsD(4) [OF assms(1) this] assms(2) show thesis
    using that [of "int k" g] by (simp add: sim_randrange_def randrange_def)
qed

lemma create_ride_ok:
  assumes laws: "rng_laws (en_R env)" and "0 < tick_ms (en_cfg env)" "sim_ok env \<sigma> s" "en_anchor_ms env \<le> now"
  shows "\<exists>ev s' \<sigma>'. create_ride env now s = Inr (ev, s') \<and> lifecycle_step ev \<sigma> = Inr \<sigma>' \<and> event_ok ev \<and> sim_ok env \<sigma>' s'"
proof -
  let ?s = "s\<lparr>sm_counter := sm_counter s + 1\<rparr>"
  obtain city s1 where 1: "pick_city env ?s = (city, s1)" by fastforce
  obtain pickup dropoff s2 where 2: "ride_ends env city s1 = ((pickup, dropoff), s2)" by (metis surj_pair)
  obtain u g3 where 3: "sim_randrange env 200000 s2 = Inr (u, s2\<lparr>sm_rng := g3\<rparr>)"
    by (rule sim_randrange_ok [OF laws, of 200000 s2]) simp_all
  obtain surge s4 where 4: "surge_for env now (s2\<lparr>sm_rng := g3\<rparr>) = (surge, s4)" by fastforce
  obtain jitter g5 where 5: "sim_randrange env (tick_ms (en_cfg env)) s4 = Inr (jitter, s4\<lparr>sm_rng := g5\<rparr>)" "0 \<le> jitter"
    using sim_randrange_ok [OF laws assms(2)] by metis
  obtain promo s6 where 6: "maybe_promo env (s4\<lparr>sm_rng := g5\<rparr>) = (promo, s6)" by fastforce
  obtain stop s7 where 7: "maybe_abandon env s6 = (stop, s7)" by fastforce
  define ride where "ride = \<lparr>ar_ride_id = ride_key env (sm_counter s + 1), ar_rider_id = ''u-'' @ padded 6 (nat u),
      ar_city_id = ct_city_id city, ar_pickup = pickup, ar_dropoff = dropoff,
      ar_surge = surge, ar_machine = Some REQUESTED, ar_driver_id = None,
      ar_requested_ms = now + jitter, ar_started_ms = 0, ar_fare_cents = None,
      ar_next_at_ms = 0, ar_next_event = None, ar_stop_after = stop,
      ar_distance_km = haversine_km (fst pickup) (snd pickup) (fst dropoff) (snd dropoff),
      ar_duration_sec = 0, ar_promo_code = promo\<rparr>"
  obtain ride' s8 where 8: "schedule_after_requested env ride s7 = (ride', s8)" by fastforce
  obtain e d where plan: "e \<in> {MATCHED, CANCELLED}" "0 \<le> d" "ride' = plan e (ar_requested_ms ride + d) ride"
    using schedule_ok [OF laws 8] by blast
  obtain g where s8: "s8 = ?s\<lparr>sm_rng := g\<rparr>"
    using sim_drawn_more(1) [OF 1] sim_drawn_more(4) [OF 2] sim_drawn_more(2) [OF 4] sim_drawn_more(5) [OF 6]
      sim_drawn_more(6) [OF 7] sim_drawn_more(3) [OF 8] by auto
  have c: "city \<in> set CITIES" by (rule pick_city_ok [OF 1])
  have shape: "ride_shape ride'"
    using c ride_ends_ok [OF c 2] surge_range [OF 4] haversine_km_nonneg
    by (auto simp: plan(3) ride_def ride_shape_def plan_def)
  have ready: "ride_ready ride'"
    using plan maybe_abandon_ok [OF laws 7]
    by (auto simp: ride_def ride_ready_def ride_ended_def is_terminal_def TERMINAL_STATES_def plan_def)
  have "advance machine_init REQUESTED = Inr (Some REQUESTED)" by (simp add: advance_def machine_init_def)
  with 1 2 3 4 5 6 7 8 have "create_ride env now s = Inr (emit env ride' REQUESTED (ar_requested_ms ride'),
      s8\<lparr>sm_active := AList.update (ride_key env (sm_counter s + 1)) ride' (sm_active s8)\<rparr>)"
    using sim_drawn_more(1) [OF 1] by (auto simp: create_ride_def ride_def ride_key_def)
  moreover have id: "ar_ride_id ride' = ride_key env (sm_counter s + 1)" "ar_machine ride' = Some REQUESTED"
    "ar_driver_id ride' = None" "ar_requested_ms ride' = now + jitter" "ar_next_at_ms ride' = now + jitter + d"
    by (simp_all add: plan(3) ride_def plan_def)
  moreover have "\<sigma> (ar_ride_id ride') = (machine_init, en_anchor_ms env)"
    using assms(3) by (simp add: id sim_ok_def)
  then have "lifecycle_step (emit env ride' REQUESTED (now + jitter)) \<sigma>
      = Inr (\<sigma>(ar_ride_id ride' := (ar_machine ride', now + jitter)))"
    using assms(4) 5(2) id(2) by (subst lifecycle_emit [of \<sigma> ride' machine_init]) (auto simp: legal_next_def machine_init_def)
  moreover have "event_ok (emit env ride' REQUESTED (now + jitter))" by (rule emit_ok [OF shape]) simp
  moreover have "sim_ok env (\<sigma>(ar_ride_id ride' := (ar_machine ride', now + jitter)))
      (s8\<lparr>sm_active := AList.update (ride_key env (sm_counter s + 1)) ride' (sm_active s8)\<rparr>)"
    using sim_ok_new_ride [OF assms(3) shape ready id(1,3), of "now + jitter" g] plan(2) id(5) by (simp add: s8 id)
  ultimately show ?thesis by auto
qed

section \<open>The tick\<close>

lemma emits_ok_nil: "sim_ok env \<sigma> s \<Longrightarrow> emits_ok env \<sigma> (Inr ([], s))"
  by (simp add: emits_ok_def)

text \<open>Two operations after one another.\<close>

lemma emits_ok_append:
  assumes "emits_ok env \<sigma> r" and "\<And>evs s \<sigma>'. sim_ok env \<sigma>' s \<Longrightarrow> emits_ok env \<sigma>' (f s)"
  shows "emits_ok env \<sigma> (rbind r (\<lambda>(evs, s). rbind (f s) (\<lambda>(evs', s). Inr (evs @ evs', s))))"
proof -
  obtain evs s \<sigma>1 where r: "r = Inr (evs, s)" "rfold lifecycle_step evs \<sigma> = Inr \<sigma>1" "list_all event_ok evs" "sim_ok env \<sigma>1 s"
    using assms(1) by (rule emits_okE)
  obtain evs' s' \<sigma>2 where "f s = Inr (evs', s')" "rfold lifecycle_step evs' \<sigma>1 = Inr \<sigma>2" "list_all event_ok evs'" "sim_ok env \<sigma>2 s'"
    using assms(2) [OF r(4)] by (rule emits_okE)
  with r show ?thesis by (auto simp: emits_ok_def rfold_append)
qed

lemma spawn_loop_ok:
  assumes laws: "rng_laws (en_R env)" and "0 < tick_ms (en_cfg env)" "en_anchor_ms env \<le> now" "sim_ok env \<sigma> s"
  shows "emits_ok env \<sigma> (spawn_loop env now s)"
  using assms(4)
proof (induction "nat \<lfloor>sm_spawn_carry s\<rfloor>" arbitrary: s \<sigma> rule: less_induct)
  case less
  show ?case
  proof (cases "sm_spawn_carry s \<ge> 1")
    case True
    let ?s = "s\<lparr>sm_spawn_carry := sm_spawn_carry s - 1\<rparr>"
    obtain ev s' \<sigma>' where c: "create_ride env now ?s = Inr (ev, s')" "lifecycle_step ev \<sigma> = Inr \<sigma>'" "event_ok ev" "sim_ok env \<sigma>' s'"
      using create_ride_ok [OF laws assms(2) _ assms(3), of \<sigma> ?s] less.prems by auto
    have "nat \<lfloor>sm_spawn_carry s'\<rfloor> < nat \<lfloor>sm_spawn_carry s\<rfloor>"
      using create_ride_carry [OF c(1)] True by (simp add: nat_less_eq_zless)
    from less.hyps [OF this c(4)] obtain evs s'' \<sigma>'' where "spawn_loop env now s' = Inr (evs, s'')"
      "rfold lifecycle_step evs \<sigma>' = Inr \<sigma>''" "list_all event_ok evs" "sim_ok env \<sigma>'' s''"
      by (rule emits_okE)
    with c True show ?thesis by (subst spawn_loop.simps) (auto simp: emits_ok_def)
  next
    case False
    with less.prems show ?thesis by (subst spawn_loop.simps) (simp add: emits_ok_nil)
  qed
qed

lemma spawn_ok:
  assumes "rng_laws (en_R env)" "0 < tick_ms (en_cfg env)" "en_anchor_ms env \<le> now" "sim_ok env \<sigma> s"
  shows "emits_ok env \<sigma> (spawn env now s)"
  unfolding spawn_def Let_def by (rule spawn_loop_ok) (use assms in simp_all)

lemma del_rides:
  assumes "distinct ks" "set ks \<subseteq> fst ` set rides"
  shows "rfold del_ride ks rides = Inr (filter (\<lambda>x. fst x \<notin> set ks) rides)"
  using assms
proof (induction ks arbitrary: rides)
  case (Cons k ks)
  then obtain v where v: "map_of rides k = Some v"
    by (metis insert_subset list.simps(15) map_of_eq_None_iff not_None_eq)
  have del: "AList.delete k rides = filter (\<lambda>x. fst x \<noteq> k) rides"
    by (auto simp: AList.delete_eq intro!: filter_cong)
  have "set ks \<subseteq> fst ` set (AList.delete k rides)"
  proof
    fix x assume "x \<in> set ks"
    then have "x \<noteq> k" "x \<in> fst ` set rides" using Cons.prems by auto
    then show "x \<in> fst ` set (AList.delete k rides)" by (force simp: del)
  qed
  with Cons show ?case
    by (auto simp: del_ride_def v del intro!: filter_cong simp del: map_of_eq_Some_iff)
qed simp

lemma del_ended:
  assumes "dict_ok rides"
  shows "rfold del_ride (map fst (filter (\<lambda>(rid, ride). ride_ended ride) rides)) rides = Inr (kept rides)"
proof -
  let ?ks = "map fst (filter (\<lambda>(rid, ride). ride_ended ride) rides)"
  have "x \<in> set rides \<Longrightarrow> fst x \<notin> set ?ks \<longleftrightarrow> \<not> ride_ended (snd x)" for x
    using assms by (auto simp: image_iff) (metis eq_key_imp_eq_value prod.collapse)
  then have "filter (\<lambda>x. fst x \<notin> set ?ks) rides = kept rides"
    by (intro filter_cong) (auto simp: case_prod_beta)
  moreover have "distinct ?ks" using assms by (metis distinct_map_filter)
  moreover have "set ?ks \<subseteq> fst ` set rides" by auto
  ultimately show ?thesis using del_rides [of ?ks rides] by simp
qed

lemma progress_ok:
  assumes laws: "rng_laws (en_R env)" and "sim_ok env \<sigma> s"
  shows "emits_ok env \<sigma> (progress env now s)"
proof -
  let ?rides = "sm_active s"
  obtain evs rides' s' \<sigma>' where p: "progress_rides env now ?rides s
      = Inr (evs, rides', map fst (filter (\<lambda>(rid, ride). ride_ended ride) rides'), s')"
    and keys: "map fst rides' = map fst ?rides" and evs: "rfold lifecycle_step evs \<sigma> = Inr \<sigma>'" "list_all event_ok evs"
    and \<sigma>': "\<forall>rid. rid \<notin> fst ` set ?rides \<longrightarrow> \<sigma>' rid = \<sigma> rid" and "sim_frame s s'" and k: "list_all (live \<sigma>') (kept rides')"
      "crew_ok {} (kept rides')" "pool_ok (sm_fleet s') (crew (kept rides'))"
  proof -
    have "list_all (live \<sigma>) ?rides" "dict_ok ?rides" "crew_ok {} ?rides" "pool_ok (sm_fleet s) ({} \<union> crew ?rides)"
      using assms(2) by (simp_all add: sim_ok_def)
    from progress_rides_ok [OF laws this, of now] that show thesis by auto
  qed
  have "dict_ok rides'" using keys assms(2) by (simp add: sim_ok_def)
  moreover from this have "dict_ok (kept rides')" by (rule distinct_map_filter)
  moreover have "fst ` set rides' = fst ` set ?rides" using keys by (metis list.set_map)
  moreover have "\<sigma>' (ride_key env k) = (machine_init, en_anchor_ms env)" if "k > sm_counter s" for k
  proof -
    have "fst ` set ?rides \<subseteq> ride_key env ` {..sm_counter s}" using assms(2) by (simp add: sim_ok_def)
    moreover have "ride_key env k \<notin> ride_key env ` {..sm_counter s}" using that by (auto simp: ride_key_inj)
    ultimately have "\<sigma>' (ride_key env k) = \<sigma> (ride_key env k)" using \<sigma>' by blast
    then show ?thesis using assms(2) that by (simp add: sim_ok_def)
  qed
  moreover have "payments_ok s'" "sm_counter s' = sm_counter s"
    using \<open>sim_frame s s'\<close> assms(2) by (simp_all add: sim_frame_def sim_ok_def)
  moreover have "fst ` set (kept rides') \<subseteq> fst ` set rides'" by auto
  moreover have "fst ` set ?rides \<subseteq> ride_key env ` {..sm_counter s}" using assms(2) by (simp add: sim_ok_def)
  ultimately have "sim_ok env \<sigma>' (s'\<lparr>sm_active := kept rides'\<rparr>)"
    using k unfolding sim_ok_def payments_ok_def by simp
  with p evs del_ended [OF \<open>dict_ok rides'\<close>] show ?thesis
    by (auto simp: emits_ok_def progress_def)
qed

lemma other_events:
  assumes "\<And>e. e \<in> set evs \<Longrightarrow> se_topic e \<noteq> RIDES_EVENTS \<and> (se_topic e = PAYMENTS_TRANSACTIONS \<longrightarrow> payment_shape e)"
  shows "rfold lifecycle_step evs \<sigma> = Inr \<sigma>" "list_all event_ok evs"
  using assms by (auto simp: rfold_fixed lifecycle_other event_ok_def list_all_iff)

lemma due_payments_ok:
  assumes "sim_ok env \<sigma> s"
  shows "emits_ok env \<sigma> (Inr (due_payments now s))"
proof -
  have "payments_ok s" using assms by (simp add: sim_ok_def)
  then have "se_topic e \<noteq> RIDES_EVENTS \<and> (se_topic e = PAYMENTS_TRANSACTIONS \<longrightarrow> payment_shape e)" if "e \<in> set (fst (due_payments now s))" for e
    using that topics_distinct payment_shape_topic by (auto simp: due_payments_def payments_ok_def list_all_iff)
  moreover have "sim_ok env \<sigma> (snd (due_payments now s))"
    using assms by (auto simp: sim_ok_def due_payments_def payments_ok_def list_all_iff)
  ultimately show ?thesis
    unfolding emits_ok_def using other_events by (metis surjective_pairing)
qed

lemma ride_tick_ok:
  assumes "rng_laws (en_R env)" "0 < tick_ms (en_cfg env)" "en_anchor_ms env \<le> now" "sim_ok env \<sigma> s"
  shows "emits_ok env \<sigma> (ride_tick env now s)"
proof -
  have "ride_tick env now s = rbind (spawn env now s) (\<lambda>(evs, s).
      rbind (rbind (progress env now s) (\<lambda>(evs, s). rbind (Inr (due_payments now s)) (\<lambda>(evs', s). Inr (evs @ evs', s))))
        (\<lambda>(evs', s). Inr (evs @ evs', s)))"
    by (auto simp: ride_tick_def rbind_def split: sum.split prod.split)
  moreover have "emits_ok env \<sigma>' (rbind (progress env now s) (\<lambda>(evs, s).
      rbind (Inr (due_payments now s)) (\<lambda>(evs', s). Inr (evs @ evs', s))))" if "sim_ok env \<sigma>' s" for s \<sigma>'
    by (rule emits_ok_append [OF progress_ok [OF assms(1) that] due_payments_ok])
  ultimately show ?thesis
    by (simp only: emits_ok_append [OF spawn_ok [OF assms]])
qed

theorem sim_on_tick_ok:
  assumes "rng_laws (en_R env)" "gen_config_ok (en_cfg env)" "en_anchor_ms env \<le> now" "sim_ok env \<sigma> s"
  shows "\<exists>r. sim_on_tick env now s = Some r \<and> emits_ok env \<sigma> r"
proof -
  have "pool_ok (sm_fleet s) (crew (sm_active s))" using assms(4) by (simp add: sim_ok_def)
  then obtain pings ft where f: "fleet_on_tick (en_cfg env) (en_R env) now (sm_fleet s) = Some (Inr (pings, ft))"
    "pool_ok ft (crew (sm_active s))" "locations pings"
    using fleet_on_tick_ok [OF assms(2)] by metis
  have "sim_ok env \<sigma> (s\<lparr>sm_fleet := ft\<rparr>)"
    using assms(4) f(2) by (simp add: sim_ok_def payments_ok_def)
  moreover have "0 < tick_ms (en_cfg env)" using assms(2) by (simp add: gen_config_ok_def)
  ultimately have "emits_ok env \<sigma> (ride_tick env now (s\<lparr>sm_fleet := ft\<rparr>))"
    using ride_tick_ok assms(1,3) by blast
  then obtain evs s' \<sigma>' where "ride_tick env now (s\<lparr>sm_fleet := ft\<rparr>) = Inr (evs, s')"
    "rfold lifecycle_step evs \<sigma> = Inr \<sigma>'" "list_all event_ok evs" "sim_ok env \<sigma>' s'"
    by (rule emits_okE)
  moreover have "rfold lifecycle_step pings \<sigma> = Inr \<sigma>" "list_all event_ok pings"
    using other_events [of pings] f(3) topics_distinct by (auto simp: locations_def list_all_iff)
  ultimately show ?thesis
    using f(1) by (auto simp: sim_on_tick_def emits_ok_def rfold_append)
qed

end
