(* ===== verification/Generator_Properties.thy ===== *)
theory Generator_Properties
  imports Generator_Invariant "HOL-Library.Multiset"
begin

text \<open>
  The properties of the generator's runs: they return, refine the lifecycle store, pass the quality
  suite, never give a driver two rides, and the imperfection layer neither loses nor invents events.
\<close>

section \<open>The simulator without the imperfection layer\<close>

fun sim_run :: "'g sim_env \<Rightarrow> nat \<Rightarrow> SimClock \<Rightarrow> 'g simulator \<Rightarrow> (exn + source_event list \<times> 'g simulator) option" where
  "sim_run env 0 clock s = Some (Inr ([], s))"
| "sim_run env (Suc n) clock s =
     (case sim_on_tick env (now_ms clock) s of
        None \<Rightarrow> None
      | Some (Inl e) \<Rightarrow> Some (Inl e)
      | Some (Inr (evs, s)) \<Rightarrow>
          (case sim_run env n (advance_clock clock) s of
             None \<Rightarrow> None
           | Some r \<Rightarrow> Some (rbind r (\<lambda>(evs', s). Inr (evs @ evs', s)))))"

lemma sim_run_ok:
  assumes laws: "rng_laws (en_R env)" "gen_config_ok (en_cfg env)"
    and "en_anchor_ms env \<le> now_ms clock" "0 < ck_tick_ms clock" "sim_ok env \<sigma> s"
  shows "\<exists>r. sim_run env n clock s = Some r \<and> emits_ok env \<sigma> r"
  using assms(3-)
proof (induction n arbitrary: clock s \<sigma>)
  case 0
  then show ?case by (simp add: emits_ok_nil)
next
  case (Suc n)
  obtain r where r: "sim_on_tick env (now_ms clock) s = Some r" "emits_ok env \<sigma> r"
    using sim_on_tick_ok [OF laws Suc.prems(1,3)] by blast
  obtain evs s' \<sigma>' where e: "r = Inr (evs, s')" "rfold lifecycle_step evs \<sigma> = Inr \<sigma>'" "list_all event_ok evs" "sim_ok env \<sigma>' s'"
    using r(2) by (rule emits_okE)
  have "en_anchor_ms env \<le> now_ms (advance_clock clock)" "0 < ck_tick_ms (advance_clock clock)"
    using Suc.prems(1,2) by (simp_all add: now_ms_def advance_clock_def algebra_simps)
  from Suc.IH [OF this e(4)] obtain evs' s'' \<sigma>'' where "sim_run env n (advance_clock clock) s' = Some (Inr (evs', s''))"
    "rfold lifecycle_step evs' \<sigma>' = Inr \<sigma>''" "list_all event_ok evs'" "sim_ok env \<sigma>'' s''"
    by (auto elim: emits_okE)
  with r(1) e show ?case by (auto simp: emits_ok_def rfold_append)
qed

section \<open>The imperfection layer\<close>

text \<open>What identifies an event on the wire.\<close>

definition ident :: "source_event \<Rightarrow> string \<times> string \<times> int \<times> pyval" where
  "ident e = (se_topic e, se_key e, se_ts e, d_get (se_value e) ''event_id'')"

definition held_idents :: "'g imperfector \<Rightarrow> (string \<times> string \<times> int \<times> pyval) multiset" where
  "held_idents i = mset (map (ident \<circ> snd) (im_held i))"

abbreviation idents :: "source_event list \<Rightarrow> (string \<times> string \<times> int \<times> pyval) multiset" where
  "idents evs \<equiv> mset (map ident evs)"

lemma im_held_simps [simp]:
  "im_held (bump k i) = im_held i" "held_idents (bump k i) = held_idents i" "held_idents (i\<lparr>im_rng := g\<rparr>) = held_idents i"
  "held_idents (hold t e i) = add_mset (ident e) (held_idents i)"
  by (simp_all add: bump_def held_idents_def hold_def)

lemma ident_simps [simp]:
  "ident (e\<lparr>se_corrupt := b\<rparr>) = ident e"
  "k \<noteq> ''event_id'' \<Longrightarrow> ident (e\<lparr>se_value := AList.update k v d\<rparr>) = ident (e\<lparr>se_value := d\<rparr>)"
  "ident (e\<lparr>se_value := se_value e\<rparr>) = ident e"
  by (simp_all add: ident_def)

lemma im_drawn:
  "im_random R i = (x, i') \<Longrightarrow> \<exists>g. i' = i\<lparr>im_rng := g\<rparr>"
  "im_uniform R a b i = (x, i') \<Longrightarrow> \<exists>g. i' = i\<lparr>im_rng := g\<rparr>"
  by (auto simp: im_random_def im_uniform_def Let_def split: prod.splits)

text \<open>One event in: at least one copy out or held, at most two.\<close>

definition conserved :: "source_event list \<Rightarrow> 'g imperfector \<Rightarrow> source_event list \<Rightarrow> 'g imperfector \<Rightarrow> bool" where
  "conserved evs i out i' \<longleftrightarrow> held_idents i + idents evs \<subseteq># idents out + held_idents i'
     \<and> idents out + held_idents i' \<subseteq># held_idents i + idents evs + idents evs"

lemma process_roll_conserved:
  assumes "process_roll cfg R e now i = (out, i')"
  shows "conserved [e] i out i'"
  using assms
  by (auto simp: process_roll_def Let_def conserved_def dest!: im_drawn split: prod.splits if_splits)

lemma maybe_null_fields_keeps:
  assumes "maybe_null_fields cfg R e i = (e', i')"
  shows "ident e' = ident e" "held_idents i' = held_idents i" "d_get (se_value e') ''fare_cents'' = d_get (se_value e) ''fare_cents''"
  using assms
  by (auto simp: maybe_null_fields_def Let_def dest!: im_drawn split: prod.splits if_splits)

lemma maybe_bad_data_keeps:
  assumes "d_get (se_value e) ''fare_cents'' = PNone \<or> (\<exists>x. as_num (d_get (se_value e) ''fare_cents'') = Inr x)"
  shows "\<exists>e' i'. maybe_bad_data cfg R e i = Inr (e', i') \<and> ident e' = ident e \<and> held_idents i' = held_idents i"
proof -
  obtain x i1 where x: "im_random R i = (x, i1)" by fastforce
  then obtain g where "i1 = i\<lparr>im_rng := g\<rparr>" using im_drawn(1) by blast
  moreover have "\<exists>c. py_int (d_get (se_value e) ''fare_cents'') = Inr c" if "d_get (se_value e) ''fare_cents'' \<noteq> PNone"
    using that assms by (cases "d_get (se_value e) ''fare_cents''") auto
  ultimately show ?thesis
    using x by (auto simp: maybe_bad_data_def Let_def)
qed

lemma event_ok_fare:
  assumes "event_ok e" "se_topic e = RIDES_EVENTS"
  shows "d_get (se_value e) ''fare_cents'' = PNone \<or> (\<exists>x. as_num (d_get (se_value e) ''fare_cents'') = Inr x)"
  using assms by (auto simp: event_ok_def raw_rides_events_expectations_def)

lemma process_event_ok:
  assumes "event_ok e"
  shows "\<exists>out i'. process_event cfg R e now i = Inr (out, i') \<and> conserved [e] i out i'"
proof (cases "se_topic e = RIDES_EVENTS")
  case True
  obtain e1 i1 where 1: "maybe_null_fields cfg R e i = (e1, i1)" by fastforce
  note k1 = maybe_null_fields_keeps [OF 1]
  obtain e2 i2 where 2: "maybe_bad_data cfg R e1 i1 = Inr (e2, i2)" "ident e2 = ident e1" "held_idents i2 = held_idents i1"
    using maybe_bad_data_keeps [of e1 cfg R i1] event_ok_fare [OF assms True] k1(3) by auto
  obtain out i' where 3: "process_roll cfg R e2 now i2 = (out, i')" by fastforce
  have "process_event cfg R e now i = Inr (out, i')"
    using True 1 2(1) 3 topics_distinct(1) by (simp add: process_event_def)
  with process_roll_conserved [OF 3] k1 2 show ?thesis by (simp add: conserved_def)
next
  case False
  then show ?thesis
    by (auto simp: process_event_def maybe_corrupt_only_def conserved_def Let_def dest!: im_drawn split: prod.split)
qed

lemma mset_window:
  assumes "H + E \<subseteq># M + H1" "M + H1 \<subseteq># H + E + E" "H1 + E' \<subseteq># M' + H2" "M' + H2 \<subseteq># H1 + E' + E'"
  shows "H + (E + E') \<subseteq># (M + M') + H2" "(M + M') + H2 \<subseteq># H + (E + E') + (E + E')"
proof -
  note c = assms [THEN mset_subset_eq_count]
  have "count (H + (E + E')) x \<le> count ((M + M') + H2) x" for x
    using c(1) [of x] c(3) [of x] by simp
  moreover have "count ((M + M') + H2) x \<le> count (H + (E + E') + (E + E')) x" for x
    using c(2) [of x] c(4) [of x] by simp
  ultimately show "H + (E + E') \<subseteq># (M + M') + H2" "(M + M') + H2 \<subseteq># H + (E + E') + (E + E')"
    by (auto intro: mset_subset_eqI)
qed

lemma conserved_append:
  assumes "conserved evs i out i1" "conserved evs' i1 out' i2"
  shows "conserved (evs @ evs') i (out @ out') i2"
  using assms mset_window [of "held_idents i" "idents evs" "idents out" "held_idents i1" "idents evs'" "idents out'" "held_idents i2"]
  by (simp add: conserved_def)

lemma process_events_ok:
  assumes "list_all event_ok evs"
  shows "\<exists>out i'. process_events cfg R now evs i = Inr (out, i') \<and> conserved evs i out i'"
  using assms
proof (induction evs arbitrary: i)
  case Nil
  then show ?case by (simp add: conserved_def)
next
  case (Cons e evs)
  from Cons.prems have "event_ok e" "list_all event_ok evs" by simp_all
  then obtain out i1 where 1: "process_event cfg R e now i = Inr (out, i1)" "conserved [e] i out i1"
    using process_event_ok by blast
  obtain out' i2 where "process_events cfg R now evs i1 = Inr (out', i2)" "conserved evs i1 out' i2"
    using Cons.IH \<open>list_all event_ok evs\<close> by blast
  with 1 conserved_append [OF 1(2)] show ?case by fastforce
qed

lemma release_due_conserved:
  assumes "release_due now i = (due, i')"
  shows "conserved [] i due i'"
proof -
  have "mset (filter P (im_held i)) + mset (filter (\<lambda>x. \<not> P x) (im_held i)) = mset (im_held i)" for P
    by (metis mset_filter multiset_partition)
  from arg_cong [OF this [of "\<lambda>(t, e). t \<le> now"], of "image_mset (ident \<circ> snd)"]
  have "idents due + held_idents i' = held_idents i"
    using assms by (auto simp: release_due_def held_idents_def case_prod_unfold not_le simp flip: multiset.map_comp)
  then show ?thesis by (simp add: conserved_def)
qed

section \<open>Runs\<close>

abbreviation stream :: "batches \<Rightarrow> source_event list" where
  "stream bs \<equiv> concat (map snd bs)"

lemma sim_tick_conserves:
  assumes "sim_on_tick env now s = Some (Inr (evs, s'))" "list_all event_ok evs"
  shows "\<exists>batch i'. sim_tick env now s i = Some (Inr (batch, s', i')) \<and> conserved evs i batch i'"
proof -
  obtain due i1 where 1: "release_due now i = (due, i1)" by fastforce
  obtain out i2 where "process_events (en_cfg env) (en_R env) now evs i1 = Inr (out, i2)" "conserved evs i1 out i2"
    using process_events_ok [OF assms(2)] by blast
  with assms(1) 1 conserved_append [OF release_due_conserved [OF 1]] show ?thesis
    by (fastforce simp: sim_tick_def)
qed

lemma run_ticks_ok:
  assumes laws: "rng_laws (en_R env)" "gen_config_ok (en_cfg env)"
    and "en_anchor_ms env \<le> now_ms clock" "0 < ck_tick_ms clock" "sim_ok env \<sigma> s"
  shows "\<exists>bs clock' s' i' raw. run_ticks env n clock s i = Some (Inr (bs, clock', s', i'))
    \<and> sim_run env n clock s = Some (Inr (raw, s')) \<and> conserved raw i (stream bs) i' \<and> length bs = n"
  using assms(3-)
proof (induction n arbitrary: clock s \<sigma> i)
  case 0
  then show ?case by (simp add: conserved_def)
next
  case (Suc n)
  obtain r where r: "sim_on_tick env (now_ms clock) s = Some r" "emits_ok env \<sigma> r"
    using sim_on_tick_ok [OF laws Suc.prems(1,3)] by blast
  obtain evs s1 \<sigma>1 where e: "r = Inr (evs, s1)" "list_all event_ok evs" "sim_ok env \<sigma>1 s1"
    using r(2) by (auto elim: emits_okE)
  obtain batch i1 where t: "sim_tick env (now_ms clock) s i = Some (Inr (batch, s1, i1))" "conserved evs i batch i1"
    using sim_tick_conserves e(2) r(1) unfolding e(1) by blast
  have "en_anchor_ms env \<le> now_ms (advance_clock clock)" "0 < ck_tick_ms (advance_clock clock)"
    using Suc.prems(1,2) by (simp_all add: now_ms_def advance_clock_def algebra_simps)
  from Suc.IH [OF this e(3)] obtain bs clock' s' i' raw where
    "run_ticks env n (advance_clock clock) s1 i1 = Some (Inr (bs, clock', s', i'))"
    "sim_run env n (advance_clock clock) s1 = Some (Inr (raw, s'))" "conserved raw i1 (stream bs) i'" "length bs = n"
    by blast
  with r(1) e(1) t conserved_append [OF t(2)] show ?case by auto
qed

text \<open>Without imperfections the layer passes every event through.\<close>

lemma process_event_perfect:
  assumes "rng_laws R"
  shows "\<exists>i'. process_event (perfect cfg) R e now i = Inr ([e], i') \<and> im_held i' = im_held i"
proof -
  have draw: "\<exists>x g. im_random R i = (x, i\<lparr>im_rng := g\<rparr>) \<and> 0 \<le> x" for i :: "'a imperfector"
    using rng_lawsD(1) [OF assms] by (cases "rn_random R (im_rng i)") (auto simp: im_random_def)
  obtain i1 where 1: "maybe_null_fields (perfect cfg) R e i = (e, i1)" "im_held i1 = im_held i"
    using draw [of i]
    by (cases "d_get (se_value e) ''event_type'' = PStr (ev_value REQUESTED)") (auto simp: maybe_null_fields_def perfect_def)
  obtain i2 where 2: "maybe_bad_data (perfect cfg) R e i1 = Inr (e, i2)" "im_held i2 = im_held i1"
    using draw [of i1] by (auto simp: maybe_bad_data_def perfect_def)
  obtain i3 where 3: "process_roll (perfect cfg) R e now i2 = ([e], i3)" "im_held i3 = im_held i2"
    using draw [of i2] by (auto simp: process_roll_def perfect_def)
  obtain i4 where "maybe_corrupt_only (perfect cfg) R e i = (e, i4)" "im_held i4 = im_held i"
    using draw [of i] by (auto simp: maybe_corrupt_only_def perfect_def)
  with 1 2 3 show ?thesis by (auto simp: process_event_def)
qed

lemma process_events_perfect:
  assumes "rng_laws R"
  shows "\<exists>i'. process_events (perfect cfg) R now evs i = Inr (evs, i') \<and> im_held i' = im_held i"
proof (induction evs arbitrary: i)
  case (Cons e evs)
  obtain i1 where "process_event (perfect cfg) R e now i = Inr ([e], i1)" "im_held i1 = im_held i"
    using process_event_perfect [OF assms] by blast
  with Cons.IH [of i1] show ?case by fastforce
qed simp

lemma run_ticks_perfect:
  assumes "rng_laws (en_R env)" "en_cfg env = perfect cfg" "im_held i = []"
    and "sim_run env n clock s = Some (Inr (raw, s'))"
  shows "\<exists>bs clock' i'. run_ticks env n clock s i = Some (Inr (bs, clock', s', i')) \<and> stream bs = raw
    \<and> im_held i' = [] \<and> length bs = n"
  using assms(3-)
proof (induction n arbitrary: clock s i raw)
  case (Suc n)
  obtain evs s1 where 1: "sim_on_tick env (now_ms clock) s = Some (Inr (evs, s1))"
    using Suc.prems(2) by (auto split: option.splits sum.splits)
  obtain raw' where 2: "sim_run env n (advance_clock clock) s1 = Some (Inr (raw', s'))" "raw = evs @ raw'"
    using Suc.prems(2) 1 by (auto simp: rbind_eq_Inr split: option.splits)
  obtain i1 where "release_due (now_ms clock) i = ([], i1)" "im_held i1 = []"
    using Suc.prems(1) by (simp add: release_due_def)
  moreover obtain i2 where "process_events (en_cfg env) (en_R env) (now_ms clock) evs i1 = Inr (evs, i2)" "im_held i2 = im_held i1"
    using process_events_perfect [OF assms(1)] unfolding assms(2) by blast
  ultimately have t: "sim_tick env (now_ms clock) s i = Some (Inr (evs, s1, i2))" "im_held i2 = []"
    using 1 by (simp_all add: sim_tick_def)
  from Suc.IH [OF t(2) 2(1)] t(1) 2(2) show ?case by auto
qed simp

lemma build_ok:
  assumes "build_simulator R crc32 cfg anchor = (env, s, i)"
  shows "en_cfg env = cfg" "en_R env = R" "en_anchor_ms env = anchor" "im_held i = []"
    "sim_ok env (\<lambda>_. (machine_init, anchor)) s"
proof -
  obtain a m1 b m2 c m3 where draws: "rn_getrandbits R 64 (rn_seeded R (seed cfg)) = (a, m1)"
    "rn_getrandbits R 64 m1 = (b, m2)" "rn_getrandbits R 64 m2 = (c, m3)"
    by (metis surj_pair)
  show "en_cfg env = cfg" "en_R env = R" "en_anchor_ms env = anchor" "im_held i = []"
    using assms draws by (auto simp: build_simulator_def new_imperfector_def)
  have s: "s = new_simulator (new_fleet cfg R (rn_seeded R (int b)) anchor) (rn_seeded R (int a))"
    using assms draws by (auto simp: build_simulator_def)
  show "sim_ok env (\<lambda>_. (machine_init, anchor)) s"
    using new_simulator_ok [of env] \<open>en_anchor_ms env = anchor\<close> by (simp add: s)
qed

lemma gen_config_perfect [simp]: "gen_config_ok (perfect cfg) = gen_config_ok cfg"
  by (simp add: gen_config_ok_def perfect_def)

text \<open>A run of the generator from its start.\<close>

lemma simulate_ok:
  assumes "rng_laws R" "gen_config_ok cfg" "build_simulator R crc32 cfg anchor = (env, s0, i0)"
  defines "clock \<equiv> \<lparr>ck_anchor_ms = anchor, ck_tick_ms = tick_ms cfg, ck_ticks = 0\<rparr>"
  obtains bs clock' s i raw \<sigma> where "simulate_ticks R crc32 now_us cfg n (Some anchor) = Some (Inr (bs, clock', s, i))"
    "length bs = n" "sim_run env n clock s0 = Some (Inr (raw, s))" "conserved raw i0 (stream bs) i"
    "rfold lifecycle_step raw (\<lambda>_. (machine_init, anchor)) = Inr \<sigma>" "list_all event_ok raw" "sim_ok env \<sigma> s"
proof -
  note b = build_ok [OF assms(3)]
  have "en_anchor_ms env \<le> now_ms clock" "0 < ck_tick_ms clock"
    using assms(2) b by (simp_all add: clock_def now_ms_def gen_config_ok_def)
  note start = assms(1,2) [folded b(1,2)] this b(5)
  obtain bs clock' s i raw where r: "run_ticks env n clock s0 i0 = Some (Inr (bs, clock', s, i))"
    "sim_run env n clock s0 = Some (Inr (raw, s))" "conserved raw i0 (stream bs) i" "length bs = n"
    using run_ticks_ok [OF start] b(1) by metis
  have "emits_ok env (\<lambda>_. (machine_init, anchor)) (Inr (raw, s))"
    using sim_run_ok [OF start, of n] r(2) b(1) by simp
  then obtain \<sigma> where "rfold lifecycle_step raw (\<lambda>_. (machine_init, anchor)) = Inr \<sigma>" "list_all event_ok raw" "sim_ok env \<sigma> s"
    by (auto simp: emits_ok_def)
  moreover have "simulate_ticks R crc32 now_us cfg n (Some anchor) = run_ticks env n clock s0 i0"
    using assms(3) by (simp add: simulate_ticks_def clock_def)
  ultimately show thesis using that r by metis
qed

lemma crew_distinct: "crew_ok B rides \<Longrightarrow> distinct (List.map_filter (\<lambda>(rid, ride). ar_driver_id ride) rides)
    \<and> set (List.map_filter (\<lambda>(rid, ride). ar_driver_id ride) rides) = crew rides"
  by (induction rides) (auto simp: List.map_filter_simps ride_drivers_def split: option.splits)

text \<open>The events of one ride, and their types.\<close>

definition events_of_ride :: "string \<Rightarrow> source_event list \<Rightarrow> source_event list" where
  "events_of_ride r evs = filter (\<lambda>e. se_topic e = RIDES_EVENTS \<and> se_key e = r) evs"

definition type_of_event :: "source_event \<Rightarrow> exn + ride_event_type" where
  "type_of_event e = rbind (d_item (se_value e) ''event_type'') ride_event_type_of"

lemma events_of_ride_simps [simp]:
  "events_of_ride r [] = []"
  "events_of_ride r (e # evs) =
     (if se_topic e = RIDES_EVENTS \<and> se_key e = r then e # events_of_ride r evs else events_of_ride r evs)"
  by (simp_all add: events_of_ride_def)

text \<open>A stream the store accepts: each ride's events are a path of the machine, in time order.\<close>

lemma lifecycle_path:
  assumes "rfold lifecycle_step evs \<sigma> = Inr \<sigma>'"
  shows "\<exists>ts. rmap type_of_event (events_of_ride r evs) = Inr ts \<and> drive (fst (\<sigma> r)) ts = Inr (fst (\<sigma>' r))
    \<and> sorted (snd (\<sigma> r) # map se_ts (events_of_ride r evs))"
  using assms
proof (induction evs arbitrary: \<sigma>)
  case (Cons e evs)
  obtain \<sigma>1 where 1: "lifecycle_step e \<sigma> = Inr \<sigma>1" "rfold lifecycle_step evs \<sigma>1 = Inr \<sigma>'"
    using Cons.prems by (auto simp: rbind_eq_Inr)
  from Cons.IH [OF 1(2)] obtain ts where ts: "rmap type_of_event (events_of_ride r evs) = Inr ts"
    "drive (fst (\<sigma>1 r)) ts = Inr (fst (\<sigma>' r))" "sorted (snd (\<sigma>1 r) # map se_ts (events_of_ride r evs))"
    by blast
  show ?case
  proof (cases "se_topic e = RIDES_EVENTS \<and> se_key e = r")
    case False
    then have "\<sigma>1 r = \<sigma> r" using 1(1) by (auto simp: lifecycle_step_def rbind_eq_Inr split: if_splits)
    with ts False show ?thesis by auto
  next
    case True
    then obtain t m where t: "type_of_event e = Inr t" "advance (fst (\<sigma> r)) t = Inr m" "snd (\<sigma> r) \<le> se_ts e"
      "\<sigma>1 = \<sigma>(r := (m, se_ts e))"
      using 1(1) by (auto simp: lifecycle_step_def type_of_event_def rbind_eq_Inr split: if_splits)
    then have "sorted (snd (\<sigma> r) # se_ts e # map se_ts (events_of_ride r evs))" using ts(3) by auto
    with t ts True show ?thesis by (auto intro!: exI [of _ "t # ts"])
  qed
qed simp

lemma default_config_ok: "gen_config_ok default_config"
  by (simp add: gen_config_ok_def default_config_def trunc_def)

text \<open>A run with the imperfections off is the simulator's run.\<close>

lemma perfect_run:
  assumes "rng_laws R" "gen_config_ok cfg"
  obtains bs clock s i \<sigma> env where "simulate_ticks R crc32 now_us (perfect cfg) n (Some anchor) = Some (Inr (bs, clock, s, i))"
    "rfold lifecycle_step (stream bs) (\<lambda>_. (machine_init, anchor)) = Inr \<sigma>" "list_all event_ok (stream bs)" "sim_ok env \<sigma> s"
proof -
  obtain env s0 i0 where b: "build_simulator R crc32 (perfect cfg) anchor = (env, s0, i0)"
    using prod_cases3 by blast
  have "gen_config_ok (perfect cfg)" using assms(2) by simp
  then obtain bs clock' s i raw \<sigma> where r: "simulate_ticks R crc32 now_us (perfect cfg) n (Some anchor) = Some (Inr (bs, clock', s, i))"
    "sim_run env n \<lparr>ck_anchor_ms = anchor, ck_tick_ms = tick_ms (perfect cfg), ck_ticks = 0\<rparr> s0 = Some (Inr (raw, s))"
    "rfold lifecycle_step raw (\<lambda>_. (machine_init, anchor)) = Inr \<sigma>" "list_all event_ok raw" "sim_ok env \<sigma> s"
    by (rule simulate_ok [OF assms(1) _ b, where n = n and now_us = now_us]) blast
  note bk = build_ok [OF b]
  obtain bs' clock'' i' where run: "run_ticks env n \<lparr>ck_anchor_ms = anchor, ck_tick_ms = tick_ms (perfect cfg), ck_ticks = 0\<rparr> s0 i0
      = Some (Inr (bs', clock'', s, i'))" "stream bs' = raw"
    using run_ticks_perfect [OF _ bk(1,4) r(2)] assms(1) bk(2) by auto
  then have "bs = bs'" using r(1) b by (simp add: simulate_ticks_def)
  with r run(2) show thesis using that by metis
qed

section \<open>Properties\<close>

text \<open>C15: the generator refines the ride lifecycle. With the imperfections off, every run of any
  length returns its stream without raising, and the stream is accepted, event by event, by the
  abstract lifecycle store that allows only legal transitions in time order; at the end the store
  and the machine of every active ride agree.\<close>

theorem generator_refines_lifecycle:
  assumes "rng_laws R" "gen_config_ok cfg"
  shows "\<exists>bs clock s i \<sigma>. simulate_ticks R crc32 now_us (perfect cfg) n (Some anchor) = Some (Inr (bs, clock, s, i))
    \<and> rfold lifecycle_step (stream bs) (\<lambda>_. (machine_init, anchor)) = Inr \<sigma>
    \<and> list_all (\<lambda>(rid, ride). fst (\<sigma> rid) = ar_machine ride) (sm_active s)"
proof -
  obtain bs clock s i \<sigma> env where r: "simulate_ticks R crc32 now_us (perfect cfg) n (Some anchor) = Some (Inr (bs, clock, s, i))"
    "rfold lifecycle_step (stream bs) (\<lambda>_. (machine_init, anchor)) = Inr \<sigma>" and s: "sim_ok env \<sigma> s"
    by (rule perfect_run [OF assms, where n = n and now_us = now_us]) blast
  from s have "list_all (\<lambda>(rid, ride). fst (\<sigma> rid) = ar_machine ride) (sm_active s)"
    by (auto simp: sim_ok_def live_def list_all_iff)
  with r show ?thesis by blast
qed

theorem generator_refines_lifecycle_witness:
  "\<exists>bs clock s i \<sigma>. simulate_ticks zero_rng length 0 (perfect default_config) 100 (Some 0) = Some (Inr (bs, clock, s, i))
    \<and> rfold lifecycle_step (stream bs) (\<lambda>_. (machine_init, 0)) = Inr \<sigma>
    \<and> list_all (\<lambda>(rid, ride). fst (\<sigma> rid) = ar_machine ride) (sm_active s)"
  by (rule generator_refines_lifecycle [OF zero_rng_laws default_config_ok])

text \<open>C18: generated data passes the quality gate. With the imperfections off, every ride event of a
  run satisfies each of the row expectations of the \<open>raw_rides_events\<close> suite: the required columns
  are set, city, type and version are known values, coordinates and surge are in range and a fare
  is not negative.\<close>

theorem generated_data_passes_suite:
  assumes "rng_laws R" "gen_config_ok cfg"
  shows "\<exists>bs clock s i. simulate_ticks R crc32 now_us (perfect cfg) n (Some anchor) = Some (Inr (bs, clock, s, i))
    \<and> list_all (\<lambda>e. list_all (row_meets (se_value e)) (filter row_level raw_rides_events_expectations))
        (filter (\<lambda>e. se_topic e = RIDES_EVENTS) (stream bs))"
proof -
  obtain bs clock s i where "simulate_ticks R crc32 now_us (perfect cfg) n (Some anchor) = Some (Inr (bs, clock, s, i))"
    "list_all event_ok (stream bs)"
    by (rule perfect_run [OF assms, where n = n and now_us = now_us]) blast
  then show ?thesis by (auto simp: event_ok_def list_all_iff)
qed

theorem generated_data_passes_suite_witness:
  "\<exists>bs clock s i. simulate_ticks zero_rng length 0 (perfect default_config) 100 (Some 0) = Some (Inr (bs, clock, s, i))
    \<and> list_all (\<lambda>e. list_all (row_meets (se_value e)) (filter row_level raw_rides_events_expectations))
        (filter (\<lambda>e. se_topic e = RIDES_EVENTS) (stream bs))"
  by (rule generated_data_passes_suite [OF zero_rng_laws default_config_ok])

text \<open>C17: a driver serves one ride at a time. After any number of ticks, with any rates, no two active
  rides have the same driver, and every driver of an active ride is in the fleet and on a leg, so a
  new ride cannot be given to it.\<close>

theorem drivers_serve_one_ride:
  assumes "rng_laws R" "gen_config_ok cfg"
  shows "\<exists>bs clock s i. simulate_ticks R crc32 now_us cfg n (Some anchor) = Some (Inr (bs, clock, s, i))
    \<and> distinct (List.map_filter (\<lambda>(rid, ride). ar_driver_id ride) (sm_active s))
    \<and> list_all (\<lambda>did. \<exists>d. map_of (fl_drivers (sm_fleet s)) did = Some d \<and> dr_status d \<in> {EN_ROUTE, ON_TRIP})
        (List.map_filter (\<lambda>(rid, ride). ar_driver_id ride) (sm_active s))"
proof -
  obtain env s0 i0 where b: "build_simulator R crc32 cfg anchor = (env, s0, i0)" using prod_cases3 by blast
  obtain bs clock s i \<sigma> where r: "simulate_ticks R crc32 now_us cfg n (Some anchor) = Some (Inr (bs, clock, s, i))"
    and s: "sim_ok env \<sigma> s"
    by (rule simulate_ok [OF assms b, where n = n and now_us = now_us]) blast
  have "crew_ok {} (sm_active s)" "pool_ok (sm_fleet s) (crew (sm_active s))" using s by (simp_all add: sim_ok_def)
  note c = crew_distinct [OF this(1)] this(2)
  then have "\<exists>d. map_of (fl_drivers (sm_fleet s)) did = Some d \<and> dr_status d \<in> {EN_ROUTE, ON_TRIP}"
    if "did \<in> set (List.map_filter (\<lambda>(rid, ride). ar_driver_id ride) (sm_active s))" for did
    using that pool_busy unfolding on_leg_def by metis
  with r c show ?thesis unfolding list_all_iff by blast
qed

theorem drivers_serve_one_ride_witness:
  "\<exists>bs clock s i. simulate_ticks zero_rng length 0 default_config 100 (Some 0) = Some (Inr (bs, clock, s, i))
    \<and> distinct (List.map_filter (\<lambda>(rid, ride). ar_driver_id ride) (sm_active s))
    \<and> list_all (\<lambda>did. \<exists>d. map_of (fl_drivers (sm_fleet s)) did = Some d \<and> dr_status d \<in> {EN_ROUTE, ON_TRIP})
        (List.map_filter (\<lambda>(rid, ride). ar_driver_id ride) (sm_active s))"
  by (rule drivers_serve_one_ride [OF zero_rng_laws default_config_ok])

text \<open>C20: the imperfection layer neither loses nor invents events. Whatever the rates, every event the
  simulator produced is in the emitted stream or still held, with its identity, at least once and
  at most twice, and nothing else is. What is held when the run ends is never emitted.\<close>

theorem imperfections_conserve_events:
  assumes "rng_laws R" "gen_config_ok cfg" "build_simulator R crc32 cfg anchor = (env, s0, i0)"
  shows "\<exists>bs clock s i raw. simulate_ticks R crc32 now_us cfg n (Some anchor) = Some (Inr (bs, clock, s, i))
    \<and> sim_run env n \<lparr>ck_anchor_ms = anchor, ck_tick_ms = tick_ms cfg, ck_ticks = 0\<rparr> s0 = Some (Inr (raw, s))
    \<and> idents raw \<subseteq># idents (stream bs) + mset (map (ident \<circ> snd) (im_held i))
    \<and> idents (stream bs) + mset (map (ident \<circ> snd) (im_held i)) \<subseteq># idents raw + idents raw"
proof -
  obtain bs clock s i raw where r: "simulate_ticks R crc32 now_us cfg n (Some anchor) = Some (Inr (bs, clock, s, i))"
    "sim_run env n \<lparr>ck_anchor_ms = anchor, ck_tick_ms = tick_ms cfg, ck_ticks = 0\<rparr> s0 = Some (Inr (raw, s))"
    and c: "conserved raw i0 (stream bs) i"
    by (rule simulate_ok [OF assms, where n = n and now_us = now_us]) blast
  have "held_idents i0 = {#}" using build_ok(4) [OF assms(3)] by (simp add: held_idents_def)
  with c have "idents raw \<subseteq># idents (stream bs) + mset (map (ident \<circ> snd) (im_held i))"
    "idents (stream bs) + mset (map (ident \<circ> snd) (im_held i)) \<subseteq># idents raw + idents raw"
    by (simp_all add: conserved_def held_idents_def)
  with r show ?thesis by blast
qed

theorem imperfections_conserve_events_witness:
  "\<exists>env s0 i0 bs clock s i raw. simulate_ticks zero_rng length 0 default_config 100 (Some 0) = Some (Inr (bs, clock, s, i))
    \<and> sim_run env 100 \<lparr>ck_anchor_ms = 0, ck_tick_ms = tick_ms default_config, ck_ticks = 0\<rparr> s0 = Some (Inr (raw, s))
    \<and> idents raw \<subseteq># idents (stream bs) + mset (map (ident \<circ> snd) (im_held i))
    \<and> idents (stream bs) + mset (map (ident \<circ> snd) (im_held i)) \<subseteq># idents raw + idents raw"
proof -
  obtain env s0 i0 where "build_simulator zero_rng length default_config 0 = (env, s0, i0 :: unit imperfector)"
    using prod_cases3 by blast
  from imperfections_conserve_events [OF zero_rng_laws default_config_ok this, of 0 100] show ?thesis by blast
qed

end
