(* ===== verification/Generator_Sessions.thy ===== *)
theory Generator_Sessions
  imports Generator_Properties Session_Builder
begin

text \<open>
  Generator and session builder together: the events the generator emits for a ride fold into an
  accumulator without an error, one slot each, and the session derived from them ends in the state
  of the ride's lifecycle machine.
\<close>

lemma terminal_of_path:
  assumes "drive m ts = Inr m'" "\<not> is_terminal m"
    and "list_all2 (\<lambda>t (s, v). ride_event_type_of (d_get v ''event_type'') = Inr t) ts slots"
  shows "first_terminal slots = (if is_terminal m' then m' else None)"
  using assms
proof (induction ts arbitrary: m slots)
  case Nil
  then show ?case by (cases slots) auto
next
  case (Cons t ts)
  obtain s v rest where slots: "slots = (s, v) # rest" "ride_event_type_of (d_get v ''event_type'') = Inr t"
    "list_all2 (\<lambda>t (s, v). ride_event_type_of (d_get v ''event_type'') = Inr t) ts rest"
    using Cons.prems(3) by (cases slots) auto
  have path: "drive (Some t) ts = Inr m'" using Cons.prems(1) by (simp only: drive_Cons_Inr)
  show ?case
  proof (cases "is_terminal (Some t)")
    case True
    then have "legal_next (Some t) = []" by (simp only: legal_next_empty)
    with path have "m' = Some t" by (cases ts) (auto simp: drive_Cons_Inr simp del: drive.simps(2))
    with True slots show ?thesis by (simp add: is_terminal_def)
  next
    case False
    with Cons.IH [OF path False slots(3)] slots(1,2) show ?thesis by (simp add: is_terminal_def)
  qed
qed

text \<open>Events of distinct types, each filling its own slot.\<close>

lemma add_events_slots:
  assumes "list_all2 (\<lambda>e t. type_of_event e = Inr t \<and> d_item (se_value e) ''event_ts'' = Inr (PInt (se_ts e))) es ts"
    and "distinct ts" "\<forall>t \<in> set ts. EVENT_SEQ t \<notin> fst ` set (acc_slots a)"
  shows "add_events a (map se_value es)
    = Inr (a\<lparr>acc_slots := acc_slots a @ map (\<lambda>(e, t). (EVENT_SEQ t, AList.update ''event_ts'' (PInt (se_ts e)) (se_value e))) (zip es ts)\<rparr>)"
  using assms
proof (induction arbitrary: a rule: list_all2_induct)
  case (Cons e es t ts)
  let ?a = "a\<lparr>acc_slots := acc_slots a @ [(EVENT_SEQ t, AList.update ''event_ts'' (PInt (se_ts e)) (se_value e))]\<rparr>"
  have "add_event a (se_value e) = Inr ?a"
    using Cons.hyps(1) Cons.prems(2)
    by (auto simp: add_event_def type_of_event_def rbind_eq_Inr dict_update_new)
  moreover have "\<forall>t' \<in> set ts. EVENT_SEQ t' \<notin> fst ` set (acc_slots ?a)"
    using Cons.prems by auto
  ultimately show ?case using Cons.IH [of ?a] Cons.prems(1) by simp
qed simp

lemma drive_distinct:
  assumes "drive machine_init ts = Inr m"
  shows "distinct ts"
proof -
  have "\<exists>r. ts = REQUESTED # r \<and> drive (Some REQUESTED) r = Inr m" if "ts \<noteq> []"
    using assms that by (simp add: drive_init)
  then show ?thesis using drive_increases strict_sorted_iff by (cases "ts = []") fastforce+
qed

lemma lifecycle_stamps:
  assumes "rfold lifecycle_step evs \<sigma> = Inr \<sigma>'" "e \<in> set (events_of_ride r evs)"
  shows "d_item (se_value e) ''event_ts'' = Inr (PInt (se_ts e))"
  using assms
  by (induction evs arbitrary: \<sigma>) (auto simp: rbind_eq_Inr lifecycle_step_def split: if_splits)

lemma event_ok_coords:
  assumes "event_ok e" "se_topic e = RIDES_EVENTS"
    and "f \<in> {''pickup_lat'', ''pickup_lon'', ''dropoff_lat'', ''dropoff_lon''}"
  shows "case d_get (se_value e) f of PStr _ \<Rightarrow> False | PDatetime _ \<Rightarrow> False | _ \<Rightarrow> True"
proof -
  have "\<exists>lo hi. BeBetween f lo hi \<in> set (filter row_level raw_rides_events_expectations)"
    using assms(3) unfolding raw_rides_events_expectations_def by (elim insertE emptyE; simp)
  then have "\<exists>lo hi. row_meets (se_value e) (BeBetween f lo hi)"
    using assms(1,2) unfolding event_ok_def list_all_iff by blast
  then have "d_get (se_value e) f = PNone \<or> (\<exists>x. as_num (d_get (se_value e) f) = Inr x)"
    unfolding row_meets.simps by blast
  then show ?thesis by (cases "d_get (se_value e) f") auto
qed

section \<open>Property\<close>

definition event_slots :: "source_event list \<Rightarrow> ride_event_type list \<Rightarrow> (int \<times> payload) list" where
  "event_slots es ts = map (\<lambda>(e, t). (EVENT_SEQ t, AList.update ''event_ts'' (PInt (se_ts e)) (se_value e))) (zip es ts)"

lemma event_slots_coords:
  assumes "list_all (\<lambda>e. event_ok e \<and> se_topic e = RIDES_EVENTS) es"
  shows "coords_ok ((new_acc r)\<lparr>acc_slots := event_slots es ts\<rparr>)"
proof -
  define good where "good v f = (case d_get v f of PStr _ \<Rightarrow> False | PDatetime _ \<Rightarrow> False | _ \<Rightarrow> True)" for v f
  let ?fs = "[''pickup_lat'', ''pickup_lon'', ''dropoff_lat'', ''dropoff_lon'']"
  have "good v f" if "(s, v) \<in> set (event_slots es ts)" "f \<in> set ?fs" for s v f
  proof -
    obtain e where e: "e \<in> set es" "v = AList.update ''event_ts'' (PInt (se_ts e)) (se_value e)"
      using \<open>(s, v) \<in> set (event_slots es ts)\<close> by (auto simp: event_slots_def dest: set_zip_leftD)
    moreover have "f \<noteq> ''event_ts''" using \<open>f \<in> set ?fs\<close> by auto
    ultimately have "d_get v f = d_get (se_value e) f" by simp
    moreover have "good (se_value e) f"
      using event_ok_coords [of e f] assms e(1) \<open>f \<in> set ?fs\<close> unfolding good_def list_all_iff by (simp only: list.set)
    ultimately show ?thesis by (simp only: good_def)
  qed
  then have "list_all (\<lambda>(s, v). list_all (good v) ?fs) (event_slots es ts)" unfolding list_all_iff by blast
  moreover have "acc_slots ((new_acc r)\<lparr>acc_slots := event_slots es ts\<rparr>) = event_slots es ts" by simp
  ultimately show ?thesis by (simp only: coords_ok_def good_def [abs_def])
qed

text \<open>C16: generator and sessionizer agree. With the imperfections off, the events a run emits for a ride
  fold into an accumulator, one slot per event, and none is rejected; the accumulator is terminal
  exactly if the ride's lifecycle machine is, with the same state, and the session built from it
  carries that state (\<open>abandoned\<close> otherwise) and the number of the ride's events.\<close>

theorem generated_rides_sessionise:
  assumes "rng_laws R" "gen_config_ok cfg"
  shows "\<exists>bs clock s i ts m a session.
    simulate_ticks R crc32 now_us (perfect cfg) n (Some anchor) = Some (Inr (bs, clock, s, i))
    \<and> rmap type_of_event (events_of_ride r (stream bs)) = Inr ts \<and> drive machine_init ts = Inr m
    \<and> add_events (new_acc r) (map se_value (events_of_ride r (stream bs))) = Inr a
    \<and> terminal a = (if is_terminal m then m else None) \<and> build_session a True = Inr session
    \<and> d_get session ''ride_id'' = PStr r
    \<and> d_get session ''terminal_state'' = PStr (case (if is_terminal m then m else None) of None \<Rightarrow> ''abandoned'' | Some k \<Rightarrow> ev_value k)
    \<and> d_get session ''event_seq'' = PInt (int (length (events_of_ride r (stream bs))))"
proof -
  obtain bs clock s i \<sigma> env where run: "simulate_ticks R crc32 now_us (perfect cfg) n (Some anchor) = Some (Inr (bs, clock, s, i))"
    and \<sigma>: "rfold lifecycle_step (stream bs) (\<lambda>_. (machine_init, anchor)) = Inr \<sigma>" "list_all event_ok (stream bs)"
    by (rule perfect_run [OF assms, where n = n and now_us = now_us]) blast
  let ?es = "events_of_ride r (stream bs)"
  obtain ts m where ts: "rmap type_of_event ?es = Inr ts" "drive machine_init ts = Inr m"
    using lifecycle_path [OF \<sigma>(1), of r] by auto
  define slots where "slots = event_slots ?es ts"
  let ?a = "(new_acc r)\<lparr>acc_slots := slots\<rparr>"
  have typed: "list_all2 (\<lambda>e t. type_of_event e = Inr t \<and> d_item (se_value e) ''event_ts'' = Inr (PInt (se_ts e))) ?es ts"
    using ts(1) unfolding rmap_eq_Inr by (rule list.rel_mono_strong) (auto dest: lifecycle_stamps [OF \<sigma>(1)])
  have fold: "add_events (new_acc r) (map se_value ?es) = Inr ?a"
    using add_events_slots [OF typed drive_distinct [OF ts(2)], of "new_acc r"] by (simp add: new_acc_def slots_def event_slots_def)
  have len: "length ts = length ?es" using rmap_length [OF ts(1)] .
  have "list_all2 (\<lambda>t (s, v). ride_event_type_of (d_get v ''event_type'') = Inr t) ts slots"
    using typed len
    by (auto simp: slots_def event_slots_def list_all2_conv_all_nth type_of_event_def rbind_eq_Inr dest: d_get_of_item)
  then have terminal: "terminal ?a = (if is_terminal m then m else None)"
    using terminal_of_path [OF ts(2)] by (simp add: terminal_def machine_init_def is_terminal_def)
  have "list_all (\<lambda>e. event_ok e \<and> se_topic e = RIDES_EVENTS) ?es"
    using \<sigma>(2) by (auto simp: events_of_ride_def list_all_iff)
  from event_slots_coords [OF this, of ts r] have "coords_ok ?a" by (simp only: slots_def)
  from build_session_closable [OF disjI2 [OF TrueI] this]
  obtain session where session: "build_session ?a True = Inr session" ..
  note fields = build_session_Inr [OF session]
  have "length slots = length ?es" using len by (simp add: slots_def event_slots_def)
  then have "d_get session ''event_seq'' = PInt (int (length ?es))" "d_get session ''ride_id'' = PStr r"
    using fields(1,3) by (simp_all add: new_acc_def)
  with run ts fold terminal session fields(2) [unfolded terminal] show ?thesis by blast
qed

theorem generated_rides_sessionise_witness:
  "\<exists>bs clock s i ts m a session.
    simulate_ticks zero_rng length 0 (perfect default_config) 100 (Some 0) = Some (Inr (bs, clock, s, i))
    \<and> rmap type_of_event (events_of_ride ''r-000000-000001'' (stream bs)) = Inr ts \<and> drive machine_init ts = Inr m
    \<and> add_events (new_acc ''r-000000-000001'') (map se_value (events_of_ride ''r-000000-000001'' (stream bs))) = Inr a
    \<and> terminal a = (if is_terminal m then m else None) \<and> build_session a True = Inr session
    \<and> d_get session ''ride_id'' = PStr ''r-000000-000001''
    \<and> d_get session ''terminal_state'' = PStr (case (if is_terminal m then m else None) of None \<Rightarrow> ''abandoned'' | Some k \<Rightarrow> ev_value k)
    \<and> d_get session ''event_seq'' = PInt (int (length (events_of_ride ''r-000000-000001'' (stream bs))))"
  by (rule generated_rides_sessionise [OF zero_rng_laws default_config_ok])

end
