(* ===== verification/Generator_Speed.thy ===== *)
theory Generator_Speed
  imports Simulation Fleet_Invariant
begin

text \<open>
  The determinism contract of \<open>generator/config.py\<close>: \<open>speed\<close> only controls how fast ticks are
  replayed, never what they contain. Each operation of the generator is shown not to look at it,
  from the draws of a driver up to the loop over the ticks; the one that does is
  \<open>payload_version\<close>, when a schema evolution is scheduled.
\<close>

named_theorems speed_simps "operations that do not look at the speed"

section \<open>The fleet\<close>

lemma fields_speed [speed_simps]:
  "seed (cfg\<lparr>speed := v\<rparr>) = seed cfg"
  "gen_duration_sec (cfg\<lparr>speed := v\<rparr>) = gen_duration_sec cfg"
  "cfg_anchor_ms (cfg\<lparr>speed := v\<rparr>) = cfg_anchor_ms cfg"
  "tick_ms (cfg\<lparr>speed := v\<rparr>) = tick_ms cfg"
  "base_rides_per_min (cfg\<lparr>speed := v\<rparr>) = base_rides_per_min cfg"
  "abandon_rate (cfg\<lparr>speed := v\<rparr>) = abandon_rate cfg"
  "cancel_probability (cfg\<lparr>speed := v\<rparr>) = cancel_probability cfg"
  "drivers_total (cfg\<lparr>speed := v\<rparr>) = drivers_total cfg"
  "ping_interval_sec (cfg\<lparr>speed := v\<rparr>) = ping_interval_sec cfg"
  "offline_prob_per_ping (cfg\<lparr>speed := v\<rparr>) = offline_prob_per_ping cfg"
  "diurnal_on (cfg\<lparr>speed := v\<rparr>) = diurnal_on cfg"
  "dup_rate (cfg\<lparr>speed := v\<rparr>) = dup_rate cfg"
  "ooo_rate (cfg\<lparr>speed := v\<rparr>) = ooo_rate cfg"
  "ooo_max_skew_sec (cfg\<lparr>speed := v\<rparr>) = ooo_max_skew_sec cfg"
  "late_rate (cfg\<lparr>speed := v\<rparr>) = late_rate cfg"
  "late_max_sec (cfg\<lparr>speed := v\<rparr>) = late_max_sec cfg"
  "malformed_rate (cfg\<lparr>speed := v\<rparr>) = malformed_rate cfg"
  "null_field_rate (cfg\<lparr>speed := v\<rparr>) = null_field_rate cfg"
  "bad_data_rate (cfg\<lparr>speed := v\<rparr>) = bad_data_rate cfg"
  "evolve_after_sec (cfg\<lparr>speed := v\<rparr>) = evolve_after_sec cfg"
  by simp_all

lemma fleet_speed [speed_simps]:
  "spawn_driver (cfg\<lparr>speed := v\<rparr>) R = spawn_driver cfg R"
  "city_driver_count (cfg\<lparr>speed := v\<rparr>) = city_driver_count cfg"
  "cruise (cfg\<lparr>speed := v\<rparr>) R = cruise cfg R"
  "maybe_go_offline (cfg\<lparr>speed := v\<rparr>) R = maybe_go_offline cfg R"
  by (simp_all add: fun_eq_iff spawn_driver_def city_driver_count_def cruise_def maybe_go_offline_def)

lemma fleet_speed_more [speed_simps]:
  "new_fleet (cfg\<lparr>speed := v\<rparr>) R = new_fleet cfg R"
  "assign (cfg\<lparr>speed := v\<rparr>) R = assign cfg R"
  "move (cfg\<lparr>speed := v\<rparr>) R = move cfg R"
  by (intro ext, simp only: new_fleet_def assign_def move_def speed_simps)+

lemma ping_loop_speed_Some:
  assumes "ping_loop cfg R interval_ms now d g = Some r"
  shows "ping_loop (cfg\<lparr>speed := v\<rparr>) R interval_ms now d g = Some r"
  using assms
proof (rule ping_loop.raw_induct [rotated])
  fix f :: "GeneratorConfig \<Rightarrow> 'a rng \<Rightarrow> int \<Rightarrow> int \<Rightarrow> Driver \<Rightarrow> 'a \<Rightarrow> (exn + Driver \<times> source_event list \<times> 'a) option"
  fix cfg R interval_ms now d g r
  assume IH: "\<And>cfg R interval_ms now d g r. f cfg R interval_ms now d g = Some r \<Longrightarrow>
      ping_loop (cfg\<lparr>speed := v\<rparr>) R interval_ms now d g = Some r"
    and step: "(if dr_next_ping_ms d \<le> now
       then case move cfg R (dr_next_ping_ms d) d g of Inl e \<Rightarrow> Some (Inl e)
          | Inr (d1, g1) \<Rightarrow>
              case maybe_go_offline cfg R (dr_next_ping_ms d) (d1\<lparr>dr_next_ping_ms := dr_next_ping_ms d + interval_ms\<rparr>) g1 of
              (offline, d2, g2) \<Rightarrow>
                if offline then Some (Inr (d2, [ping d1 (dr_next_ping_ms d), ping d2 (dr_next_ping_ms d)], g2))
                else Option.bind (f cfg R interval_ms now d2 g2) (\<lambda>r.
                  Some (rbind r (\<lambda>(d3, events, g3). Inr (d3, ping d1 (dr_next_ping_ms d) # events, g3))))
       else Some (Inr (d, [], g))) = Some r"
  then show "ping_loop (cfg\<lparr>speed := v\<rparr>) R interval_ms now d g = Some r"
    by (subst ping_loop.simps)
      (auto simp: speed_simps bind_eq_Some_conv split: if_splits sum.splits prod.splits dest!: IH)
qed

lemma ping_loop_speed [speed_simps]: "ping_loop (cfg\<lparr>speed := v\<rparr>) R = ping_loop cfg R"
proof (intro ext)
  fix interval_ms now d g
  show "ping_loop (cfg\<lparr>speed := v\<rparr>) R interval_ms now d g = ping_loop cfg R interval_ms now d g"
  proof (cases "ping_loop (cfg\<lparr>speed := v\<rparr>) R interval_ms now d g")
    case None
    then show ?thesis using ping_loop_speed_Some [of cfg R interval_ms now d g _ v] by fastforce
  next
    case (Some r)
    then show ?thesis using ping_loop_speed_Some [of "cfg\<lparr>speed := v\<rparr>" R interval_ms now d g r "speed cfg"] by simp
  qed
qed

lemma driver_tick_speed [speed_simps]: "driver_tick (cfg\<lparr>speed := v\<rparr>) R = driver_tick cfg R"
  by (intro ext) (simp add: driver_tick_def Let_def speed_simps)

lemma drivers_tick_speed [speed_simps]: "drivers_tick (cfg\<lparr>speed := v\<rparr>) R now ds g = drivers_tick cfg R now ds g"
  by (induction ds arbitrary: g) (auto simp: speed_simps split: option.split sum.split)

lemma fleet_on_tick_speed [speed_simps]: "fleet_on_tick (cfg\<lparr>speed := v\<rparr>) R = fleet_on_tick cfg R"
  by (simp add: fun_eq_iff fleet_on_tick_def speed_simps)

section \<open>The rides\<close>

definition at_speed :: "real \<Rightarrow> 'g sim_env \<Rightarrow> 'g sim_env" where
  "at_speed v env = env\<lparr>en_cfg := (en_cfg env)\<lparr>speed := v\<rparr>\<rparr>"

lemma config_speed [speed_simps]:
  "cancel_prob (cfg\<lparr>speed := v\<rparr>) = cancel_prob cfg" "demand_factor (cfg\<lparr>speed := v\<rparr>) = demand_factor cfg"
  "run_token crc32 (cfg\<lparr>speed := v\<rparr>) = run_token crc32 cfg"
  by (simp_all add: fun_eq_iff cancel_prob_def demand_factor_def run_token_def)

lemma at_speed_fields [simp]:
  "en_R (at_speed v env) = en_R env" "en_cfg (at_speed v env) = (en_cfg env)\<lparr>speed := v\<rparr>"
  "en_run_token (at_speed v env) = en_run_token env" "en_anchor_ms (at_speed v env) = en_anchor_ms env"
  by (simp_all add: at_speed_def)

lemma draws_speed [speed_simps]:
  "sim_random (at_speed v env) = sim_random env" "sim_uniform (at_speed v env) = sim_uniform env"
  "sim_gauss (at_speed v env) = sim_gauss env" "sim_exp (at_speed v env) = sim_exp env"
  "sim_randrange (at_speed v env) = sim_randrange env" "sim_choice (at_speed v env) = sim_choice env"
  "sim_point (at_speed v env) = sim_point env"
  by (simp_all add: fun_eq_iff sim_random_def sim_uniform_def sim_gauss_def sim_exp_def sim_randrange_def
      sim_choice_def sim_point_def)

lemma draws_speed_choice [speed_simps]: "sim_choice (at_speed v env) xs s = sim_choice env xs s"
  by (simp add: sim_choice_def)

lemma rides_speed [speed_simps]:
  "surge_for (at_speed v env) = surge_for env" "pick_city (at_speed v env) = pick_city env"
  "ride_ends (at_speed v env) = ride_ends env" "maybe_promo (at_speed v env) = maybe_promo env"
  "maybe_abandon (at_speed v env) = maybe_abandon env"
  "schedule_after_requested (at_speed v env) = schedule_after_requested env"
  "release_driver (at_speed v env) = release_driver env" "queue_payment (at_speed v env) = queue_payment env"
  "after_arrived (at_speed v env) = after_arrived env"
  by (intro ext, simp only: surge_for_def pick_city_def ride_ends_def maybe_promo_def maybe_abandon_def
      schedule_after_requested_def release_driver_def queue_payment_def after_arrived_def speed_simps at_speed_fields)+

lemma rides_speed_more [speed_simps]:
  "after_matched (at_speed v env) = after_matched env" "after_started (at_speed v env) = after_started env"
  by (intro ext, simp only: after_matched_def after_started_def speed_simps at_speed_fields)+

lemma fire_effect_speed [speed_simps]: "fire_effect (at_speed v env) = fire_effect env"
  by (intro ext, simp only: fire_effect_def speed_simps)

text \<open>From here on no schema evolution is scheduled.\<close>

lemma emit_speed [speed_simps]:
  "evolve_after_sec (en_cfg env) = None \<Longrightarrow> emit (at_speed v env) = emit env"
  by (intro ext) (simp add: emit_def payload_version_def)

lemma fire_speed [speed_simps]: "evolve_after_sec (en_cfg env) = None \<Longrightarrow> fire (at_speed v env) = fire env"
  by (intro ext) (simp only: fire_def speed_simps)

lemma create_ride_speed [speed_simps]:
  "evolve_after_sec (en_cfg env) = None \<Longrightarrow> create_ride (at_speed v env) = create_ride env"
  by (intro ext) (simp only: create_ride_def speed_simps at_speed_fields)

lemma spawn_loop_speed [speed_simps]:
  "evolve_after_sec (en_cfg env) = None \<Longrightarrow> spawn_loop (at_speed v env) now s = spawn_loop env now s"
proof (induction env now s rule: spawn_loop.induct)
  case (1 env now s)
  then show ?case
    by (subst (1 2) spawn_loop.simps) (auto simp: speed_simps split: sum.split)
qed

lemma ride_loop_speed [speed_simps]:
  "evolve_after_sec (en_cfg env) = None \<Longrightarrow> ride_loop (at_speed v env) now ride s = ride_loop env now ride s"
proof (induction env now ride s rule: ride_loop.induct)
  case (1 env now ride s)
  then show ?case
    by (subst (1 2) ride_loop.simps) (auto simp: speed_simps split: sum.split)
qed

lemma progress_rides_speed [speed_simps]:
  "evolve_after_sec (en_cfg env) = None \<Longrightarrow> progress_rides (at_speed v env) now rides s = progress_rides env now rides s"
  by (induction rides arbitrary: s) (auto simp: speed_simps)

lemma sim_on_tick_speed [speed_simps]:
  "evolve_after_sec (en_cfg env) = None \<Longrightarrow> sim_on_tick (at_speed v env) now s = sim_on_tick env now s"
  by (simp only: sim_on_tick_def ride_tick_def spawn_def progress_def speed_simps at_speed_fields)

section \<open>The run\<close>

lemma imperfections_speed [speed_simps]:
  "process_event (cfg\<lparr>speed := v\<rparr>) R = process_event cfg R"
  by (intro ext) (simp only: process_event_def maybe_corrupt_only_def maybe_bad_data_def maybe_null_fields_def process_roll_def speed_simps)

lemma process_events_speed [speed_simps]:
  "process_events (cfg\<lparr>speed := v\<rparr>) R now evs i = process_events cfg R now evs i"
  by (induction evs arbitrary: i) (simp_all add: speed_simps)

lemma sim_tick_speed [speed_simps]:
  "evolve_after_sec (en_cfg env) = None \<Longrightarrow> sim_tick (at_speed v env) now s i = sim_tick env now s i"
  by (simp only: sim_tick_def speed_simps at_speed_fields)

lemma run_ticks_speed [speed_simps]:
  "evolve_after_sec (en_cfg env) = None \<Longrightarrow> run_ticks (at_speed v env) n clock s i = run_ticks env n clock s i"
  by (induction n arbitrary: clock s i) (auto simp: speed_simps split: option.split sum.split)

lemma build_simulator_speed:
  "build_simulator R crc32 (cfg\<lparr>speed := v\<rparr>) anchor =
     (let (env, s, i) = build_simulator R crc32 cfg anchor in (at_speed v env, s, i))"
  by (simp add: build_simulator_def at_speed_def speed_simps split: prod.split)

section \<open>Property\<close>

text \<open>C19: the determinism contract. Without a scheduled schema evolution the batches of a run, and the
  objects it leaves, are the same at every speed.\<close>

theorem speed_is_irrelevant:
  assumes "evolve_after_sec cfg = None"
  shows "simulate_ticks R crc32 now_us (cfg\<lparr>speed := v\<rparr>) n anchor = simulate_ticks R crc32 now_us cfg n anchor"
proof -
  define a where "a = (case anchor of Some a \<Rightarrow> a | None \<Rightarrow> (case cfg_anchor_ms cfg of Some a \<Rightarrow> a | None \<Rightarrow> wall_anchor_ms now_us))"
  obtain env s i where b: "build_simulator R crc32 cfg a = (env, s, i)" using prod_cases3 by blast
  then have "en_cfg env = cfg" by (auto simp: build_simulator_def split: prod.splits)
  with b assms show ?thesis
    unfolding simulate_ticks_def Let_def fields_speed build_simulator_speed a_def [symmetric]
    by (simp add: speed_simps)
qed

theorem speed_is_irrelevant_witness:
  "simulate_ticks zero_rng length 0 (default_config\<lparr>speed := 1\<rparr>) 100 None = simulate_ticks zero_rng length 0 default_config 100 None"
  by (rule speed_is_irrelevant) (simp add: default_config_def)

text \<open>With a schema evolution scheduled the payload of the same event depends on the speed.\<close>

lemma evolution_depends_on_speed:
  "payload_version \<lparr>en_cfg = default_config\<lparr>evolve_after_sec := Some 1\<rparr>, en_R = zero_rng, en_anchor_ms = 0, en_run_token = []\<rparr> 30000 = 1
   \<and> payload_version \<lparr>en_cfg = default_config\<lparr>evolve_after_sec := Some 1, speed := 1\<rparr>, en_R = zero_rng, en_anchor_ms = 0,
        en_run_token = []\<rparr> 30000 = 2"
  by (simp add: payload_version_def default_config_def)

end
