(* ===== verification/Schemas.thy ===== *)
theory Schemas
  imports Json Topics
begin

text \<open>
  \<open>common/schemas.py\<close>: where the schema files are, their registration, and the plain-JSON wire form
  of payments. A schema text is a file's content (\<open>read\<close> gives it or the exception of
  \<open>read_text\<close>). The registry service, the Avro serdes and the \<open>jsonschema\<close> validator are
  parameters; \<open>draft07_ok\<close> spells out what the keywords of the payment schema mean, and
  \<open>validates\<close> is the documented behaviour of \<open>jsonschema.validate\<close>, which the lemmas assume.
\<close>

abbreviation ValidationError :: "string \<Rightarrow> exn" where "ValidationError \<equiv> Exn ''ValidationError''"
abbreviation UnicodeDecodeError :: "string \<Rightarrow> exn" where "UnicodeDecodeError \<equiv> Exn ''UnicodeDecodeError''"

section \<open>The files\<close>

definition schema_dir :: "(string \<Rightarrow> string option) \<Rightarrow> string \<Rightarrow> string" where
  "schema_dir env repo_root =
     (case env ''SCHEMA_DIR'' of
        Some override \<Rightarrow> if override \<noteq> [] then override else repo_root @ ''/schemas''
      | None \<Rightarrow> repo_root @ ''/schemas'')"

definition load_avro_schema :: "(string \<Rightarrow> exn + string) \<Rightarrow> string \<Rightarrow> string \<Rightarrow> exn + string" where
  "load_avro_schema read dir filename = read (dir @ ''/avro/'' @ filename)"

definition load_json_schema :: "(string \<Rightarrow> exn + string) \<Rightarrow> string \<Rightarrow> string \<Rightarrow> exn + string" where
  "load_json_schema read dir filename = read (dir @ ''/json/'' @ filename)"

definition value_subject :: "string \<Rightarrow> string" where
  "value_subject topic = topic @ ''-value''"

definition AVRO_SUBJECTS :: "(string, string list) dict" where
  "AVRO_SUBJECTS =
     [(value_subject RIDES_EVENTS, [''rides_events_v1.avsc'', ''rides_events_v2.avsc'']),
      (value_subject DRIVERS_LOCATIONS, [''drivers_locations.avsc'']),
      (value_subject RIDES_SESSIONS, [''rides_sessions.avsc''])]"

definition JSON_SUBJECTS :: "(string, string) dict" where
  "JSON_SUBJECTS = [(value_subject PAYMENTS_TRANSACTIONS, ''payments_transactions.schema.json'')]"

section \<open>Registration\<close>

text \<open>The registry client: \<open>rc_register subject (text, type)\<close> gives the schema's id.\<close>

record 'r registry_client =
  rc_register :: "string \<Rightarrow> string \<times> string \<Rightarrow> 'r \<Rightarrow> (exn + int) \<times> 'r"
  rc_set_compatibility :: "string \<Rightarrow> string \<Rightarrow> 'r \<Rightarrow> (exn + unit) \<times> 'r"

fun register_files :: "'r registry_client \<Rightarrow> (string \<Rightarrow> exn + string) \<Rightarrow> string \<Rightarrow> string \<Rightarrow> string list
    \<Rightarrow> (string, int) dict \<Rightarrow> 'r \<Rightarrow> (exn + (string, int) dict) \<times> 'r" where
  "register_files client load subject kind [] registered r = (Inr registered, r)"
| "register_files client load subject kind (filename # files) registered r =
     (case load filename of
        Inl e \<Rightarrow> (Inl e, r)
      | Inr text \<Rightarrow>
          (case rc_register client subject (text, kind) r of
             (Inl e, r) \<Rightarrow> (Inl e, r)
           | (Inr schema_id, r) \<Rightarrow>
               register_files client load subject kind files (AList.update subject schema_id registered) r))"

definition register_subject :: "'r registry_client \<Rightarrow> (string \<Rightarrow> exn + string) \<Rightarrow> string \<Rightarrow> string \<times> string list
    \<Rightarrow> (string, int) dict \<Rightarrow> 'r \<Rightarrow> (exn + (string, int) dict) \<times> 'r" where
  "register_subject client load kind item registered r =
     (case register_files client load (fst item) kind (snd item) registered r of
        (Inl e, r) \<Rightarrow> (Inl e, r)
      | (Inr registered, r) \<Rightarrow>
          (case rc_set_compatibility client (fst item) ''BACKWARD'' r of
             (Inl e, r) \<Rightarrow> (Inl e, r)
           | (Inr _, r) \<Rightarrow> (Inr registered, r)))"

fun register_subjects :: "'r registry_client \<Rightarrow> (string \<Rightarrow> exn + string) \<Rightarrow> string \<Rightarrow> (string \<times> string list) list
    \<Rightarrow> (string, int) dict \<Rightarrow> 'r \<Rightarrow> (exn + (string, int) dict) \<times> 'r" where
  "register_subjects client load kind [] registered r = (Inr registered, r)"
| "register_subjects client load kind (item # items) registered r =
     (case register_subject client load kind item registered r of
        (Inl e, r) \<Rightarrow> (Inl e, r)
      | (Inr registered, r) \<Rightarrow> register_subjects client load kind items registered r)"

definition register_all :: "'r registry_client \<Rightarrow> (string \<Rightarrow> exn + string) \<Rightarrow> string
    \<Rightarrow> 'r \<Rightarrow> (exn + (string, int) dict) \<times> 'r" where
  "register_all client read dir r =
     (case register_subjects client (load_avro_schema read dir) ''AVRO'' AVRO_SUBJECTS [] r of
        (Inl e, r) \<Rightarrow> (Inl e, r)
      | (Inr registered, r) \<Rightarrow>
          register_subjects client (load_json_schema read dir) ''JSON''
            (map (\<lambda>(subject, filename). (subject, [filename])) JSON_SUBJECTS) registered r)"

section \<open>The Avro serdes\<close>

text \<open>\<open>avro client text\<close> is the constructor of the serialiser or deserialiser class.\<close>

definition ride_event_serializer :: "('c \<Rightarrow> string \<Rightarrow> exn + 's) \<Rightarrow> (string \<Rightarrow> exn + string) \<Rightarrow> 'c \<Rightarrow> int \<Rightarrow> exn + 's" where
  "ride_event_serializer avro load client version =
     rbind (load (if version = 1 then ''rides_events_v1.avsc'' else ''rides_events_v2.avsc'')) (avro client)"

definition ride_event_deserializer :: "('c \<Rightarrow> string \<Rightarrow> exn + 's) \<Rightarrow> (string \<Rightarrow> exn + string) \<Rightarrow> 'c \<Rightarrow> exn + 's" where
  "ride_event_deserializer avro load client = rbind (load ''rides_events_v2.avsc'') (avro client)"

definition driver_location_serializer :: "('c \<Rightarrow> string \<Rightarrow> exn + 's) \<Rightarrow> (string \<Rightarrow> exn + string) \<Rightarrow> 'c \<Rightarrow> exn + 's" where
  "driver_location_serializer avro load client = rbind (load ''drivers_locations.avsc'') (avro client)"

definition driver_location_deserializer :: "('c \<Rightarrow> string \<Rightarrow> exn + 's) \<Rightarrow> (string \<Rightarrow> exn + string) \<Rightarrow> 'c \<Rightarrow> exn + 's" where
  "driver_location_deserializer avro load client = rbind (load ''drivers_locations.avsc'') (avro client)"

definition ride_session_serializer :: "('c \<Rightarrow> string \<Rightarrow> exn + 's) \<Rightarrow> (string \<Rightarrow> exn + string) \<Rightarrow> 'c \<Rightarrow> exn + 's" where
  "ride_session_serializer avro load client = rbind (load ''rides_sessions.avsc'') (avro client)"

definition ride_session_deserializer :: "('c \<Rightarrow> string \<Rightarrow> exn + 's) \<Rightarrow> (string \<Rightarrow> exn + string) \<Rightarrow> 'c \<Rightarrow> exn + 's" where
  "ride_session_deserializer avro load client = rbind (load ''rides_sessions.avsc'') (avro client)"

section \<open>Payments\<close>

text \<open>The keywords the payment schema uses, and the schema the file's text parses to.\<close>

record prop_schema =
  ps_type :: string
  ps_minimum :: "int option"
  ps_enum :: "string list option"

record json_schema =
  js_additional :: bool
  js_required :: "string list"
  js_properties :: "(string, prop_schema) dict"

definition of_type :: "string \<Rightarrow> prop_schema" where
  "of_type ty = \<lparr>ps_type = ty, ps_minimum = None, ps_enum = None\<rparr>"

definition payment_schema :: json_schema where
  "payment_schema =
     \<lparr>js_additional = False,
      js_required = [''txn_id'', ''ride_id'', ''amount_cents'', ''status'', ''method'', ''ts''],
      js_properties =
        [(''txn_id'', of_type ''string''),
         (''ride_id'', of_type ''string''),
         (''amount_cents'', of_type ''integer'' \<lparr>ps_minimum := Some 0\<rparr>),
         (''status'', of_type ''string'' \<lparr>ps_enum := Some [''completed'', ''failed'', ''refunded'']\<rparr>),
         (''method'', of_type ''string'' \<lparr>ps_enum := Some [''card'', ''cash'', ''wallet'']\<rparr>),
         (''ts'', of_type ''integer'')]\<rparr>"

text \<open>Draft 7: an integer is a number without a fractional part, so a float can be one.\<close>

fun type_ok :: "string \<Rightarrow> pyval \<Rightarrow> bool" where
  "type_ok ty (PStr _) = (ty = ''string'')"
| "type_ok ty (PInt _) = (ty = ''integer'')"
| "type_ok ty (PFloat r) = (ty = ''integer'' \<and> r = of_int \<lfloor>r\<rfloor>)"
| "type_ok ty _ = False"

fun at_least :: "int \<Rightarrow> pyval \<Rightarrow> bool" where
  "at_least m (PInt i) = (m \<le> i)"
| "at_least m (PFloat r) = (of_int m \<le> r)"
| "at_least m _ = True"

definition prop_ok :: "prop_schema \<Rightarrow> pyval \<Rightarrow> bool" where
  "prop_ok s v \<longleftrightarrow> type_ok (ps_type s) v
     \<and> (case ps_minimum s of None \<Rightarrow> True | Some m \<Rightarrow> at_least m v)
     \<and> (case ps_enum s of None \<Rightarrow> True | Some vs \<Rightarrow> v \<in> set (map PStr vs))"

definition draft07_ok :: "json_schema \<Rightarrow> payload \<Rightarrow> bool" where
  "draft07_ok s d \<longleftrightarrow>
     list_all (\<lambda>k. k \<in> set (map fst d)) (js_required s)
     \<and> (js_additional s \<or> list_all (\<lambda>(k, _). k \<in> set (map fst (js_properties s))) d)
     \<and> list_all (\<lambda>(k, ps). case map_of d k of None \<Rightarrow> True | Some v \<Rightarrow> prop_ok ps v) (js_properties s)"

definition validates :: "(payload \<Rightarrow> json_schema \<Rightarrow> exn + unit) \<Rightarrow> bool" where
  "validates validate \<longleftrightarrow> (\<forall>d s. (validate d s = Inr ()) = draft07_ok s d)"

text \<open>\<open>json.dumps(value, separators=(',', ':')).encode()\<close>, after validation.\<close>

definition payment_json_bytes :: "(payload \<Rightarrow> json_schema \<Rightarrow> exn + unit) \<Rightarrow> (pyval \<Rightarrow> string) \<Rightarrow> payload \<Rightarrow> exn + string" where
  "payment_json_bytes validate render value =
     rbind (validate value payment_schema) (\<lambda>_.
       rbind (json_dumps value) (\<lambda>value. Inr (json_object render '','' '':'' value)))"

text \<open>
  \<open>json.loads\<close> of bytes decodes them first: UTF-8 unless a byte-order mark or zero bytes at the
  start say otherwise. Texts in UTF-16 and UTF-32, and characters above 255, are outside the model
  and rejected.
\<close>

fun utf8_decode :: "string \<Rightarrow> exn + string" where
  "utf8_decode [] = Inr []"
| "utf8_decode (b # bs) =
     (let n = of_char b :: nat in
      if n < 128 then rbind (utf8_decode bs) (\<lambda>s. Inr (b # s))
      else if n = 194 \<or> n = 195 then
        (case bs of
           c # cs \<Rightarrow>
             if of_char c div 64 = (2 :: nat)
             then rbind (utf8_decode cs) (\<lambda>s. Inr (char_of ((n - 192) * 64 + of_char c mod 64) # s))
             else Inl (UnicodeDecodeError ''invalid continuation byte'')
         | [] \<Rightarrow> Inl (UnicodeDecodeError ''unexpected end of data''))
      else Inl (UnicodeDecodeError ''invalid start byte''))"

definition detected_utf8 :: "string \<Rightarrow> bool" where
  "detected_utf8 b \<longleftrightarrow> \<not> ((length b \<ge> 4 \<or> length b = 2) \<and> CHR 0x00 \<in> set (take 2 b))
     \<and> take 2 b \<notin> {[char_of (255 :: nat), char_of (254 :: nat)], [char_of (254 :: nat), char_of (255 :: nat)]}"

definition decode_json :: "string \<Rightarrow> exn + string" where
  "decode_json b =
     (if \<not> detected_utf8 b then Inl (UnicodeDecodeError ''encoding outside the model'')
      else utf8_decode (if take 3 b = map char_of [239 :: nat, 187, 191] then drop 3 b else b))"

definition parse_payment :: "(payload \<Rightarrow> json_schema \<Rightarrow> exn + unit) \<Rightarrow> (string \<Rightarrow> real) \<Rightarrow> string \<Rightarrow> exn + payload" where
  "parse_payment validate parse_float data =
     rbind (rbind (decode_json data) (json_loads parse_float)) (\<lambda>value.
       case value of
         JScalar _ \<Rightarrow> Inl (ValidationError ''payment must be an object'')
       | JObj d \<Rightarrow> rbind (validate d payment_schema) (\<lambda>_. Inr d))"

section \<open>Registration is idempotent\<close>

text \<open>
  What the registry promises: registering a schema makes it known under its subject with the id
  returned and keeps what is known; registering a known schema gives its id and changes nothing;
  setting a subject's compatibility sets it, and setting it again changes nothing.
\<close>

definition registry_laws :: "'r registry_client \<Rightarrow> ('r \<Rightarrow> string \<Rightarrow> string \<times> string \<Rightarrow> int option)
    \<Rightarrow> ('r \<Rightarrow> string \<Rightarrow> string option) \<Rightarrow> bool" where
  "registry_laws client known level \<longleftrightarrow>
     (\<forall>s x r i r'. rc_register client s x r = (Inr i, r') \<longrightarrow>
        known r' s x = Some i \<and> level r' = level r \<and> (\<forall>t y j. known r t y = Some j \<longrightarrow> known r' t y = Some j))
     \<and> (\<forall>s x r i. known r s x = Some i \<longrightarrow> rc_register client s x r = (Inr i, r))
     \<and> (\<forall>s c r r' u. rc_set_compatibility client s c r = (Inr u, r') \<longrightarrow>
        known r' = known r \<and> level r' = (level r)(s \<mapsto> c))
     \<and> (\<forall>s c r. level r s = Some c \<longrightarrow> rc_set_compatibility client s c r = (Inr (), r))"

text \<open>What a later state keeps of an earlier one: the schemas, and the levels already at BACKWARD.\<close>

definition keeps :: "('r \<Rightarrow> string \<Rightarrow> string \<times> string \<Rightarrow> int option) \<Rightarrow> ('r \<Rightarrow> string \<Rightarrow> string option) \<Rightarrow> 'r \<Rightarrow> 'r \<Rightarrow> bool" where
  "keeps known level r r' \<longleftrightarrow> (\<forall>s x i. known r s x = Some i \<longrightarrow> known r' s x = Some i)
     \<and> (\<forall>s. level r s = Some ''BACKWARD'' \<longrightarrow> level r' s = Some ''BACKWARD'')"

lemma keeps_refl [simp]: "keeps known level r r"
  by (simp add: keeps_def)

lemma keeps_trans: "keeps known level a b \<Longrightarrow> keeps known level b c \<Longrightarrow> keeps known level a c"
  by (simp add: keeps_def)

lemma registry_lawsD:
  assumes "registry_laws client known level"
  shows "rc_register client s x r = (Inr i, r') \<Longrightarrow> known r' s x = Some i \<and> keeps known level r r'"
    "known r s x = Some i \<Longrightarrow> rc_register client s x r = (Inr i, r)"
    "rc_set_compatibility client s ''BACKWARD'' r = (Inr u, r') \<Longrightarrow>
       level r' s = Some ''BACKWARD'' \<and> keeps known level r r'"
    "level r s = Some c \<Longrightarrow> rc_set_compatibility client s c r = (Inr (), r)"
proof -
  note l = assms [unfolded registry_laws_def]
  show "known r' s x = Some i \<and> keeps known level r r'" if "rc_register client s x r = (Inr i, r')"
  proof -
    have "known r' s x = Some i \<and> level r' = level r \<and> (\<forall>t y j. known r t y = Some j \<longrightarrow> known r' t y = Some j)"
      using l [THEN conjunct1, rule_format, OF that] .
    then show ?thesis by (simp add: keeps_def)
  qed
  show "rc_register client s x r = (Inr i, r)" if "known r s x = Some i"
    using l [THEN conjunct2, THEN conjunct1, rule_format, OF that] .
  show "level r' s = Some ''BACKWARD'' \<and> keeps known level r r'"
    if "rc_set_compatibility client s ''BACKWARD'' r = (Inr u, r')"
    using l [THEN conjunct2, THEN conjunct2, THEN conjunct1, rule_format, OF that] by (simp add: keeps_def)
  show "rc_set_compatibility client s c r = (Inr (), r)" if "level r s = Some c"
    using l [THEN conjunct2, THEN conjunct2, THEN conjunct2, rule_format, OF that] .
qed

lemma keeps_known: "keeps known level r r' \<Longrightarrow> known r s x = Some i \<Longrightarrow> known r' s x = Some i"
  and keeps_level: "keeps known level r r' \<Longrightarrow> level r s = Some ''BACKWARD'' \<Longrightarrow> level r' s = Some ''BACKWARD''"
  by (cases x; simp add: keeps_def)+

lemma register_files_stable:
  assumes laws: "registry_laws client known level"
    and "register_files client load subject kind files reg r = (Inr reg', r')"
  shows "keeps known level r r'
    \<and> (\<forall>q. keeps known level r' q \<longrightarrow> register_files client load subject kind files reg q = (Inr reg', q))"
  using assms(2)
proof (induction files arbitrary: reg r)
  case (Cons f files)
  from Cons.prems obtain body i r1 where f: "load f = Inr body" "rc_register client subject (body, kind) r = (Inr i, r1)"
    "register_files client load subject kind files (AList.update subject i reg) r1 = (Inr reg', r')"
    by (auto split: sum.splits prod.splits)
  note k = registry_lawsD(1) [OF laws f(2)] and IH = Cons.IH [OF f(3)]
  have "rc_register client subject (body, kind) q = (Inr i, q)" if "keeps known level r' q" for q
  proof (rule registry_lawsD(2) [OF laws])
    show "known q subject (body, kind) = Some i"
      by (rule keeps_known [OF that keeps_known [OF conjunct1 [OF IH] conjunct1 [OF k]]])
  qed
  with IH f(1) have "\<forall>q. keeps known level r' q \<longrightarrow>
      register_files client load subject kind (f # files) reg q = (Inr reg', q)" by simp
  then show ?case using keeps_trans [OF conjunct2 [OF k] conjunct1 [OF IH]] by simp
qed simp

lemma register_subject_stable:
  assumes laws: "registry_laws client known level"
    and "register_subject client load kind item reg r = (Inr reg', r')"
  shows "keeps known level r r' \<and> level r' (fst item) = Some ''BACKWARD''
    \<and> (\<forall>q. keeps known level r' q \<longrightarrow> register_subject client load kind item reg q = (Inr reg', q))"
proof -
  obtain r1 where r1: "register_files client load (fst item) kind (snd item) reg r = (Inr reg', r1)"
    "rc_set_compatibility client (fst item) ''BACKWARD'' r1 = (Inr (), r')"
    using assms(2) by (auto simp: register_subject_def split: sum.splits prod.splits)
  note c = registry_lawsD(3) [OF laws r1(2)] and st = register_files_stable [OF laws r1(1)]
  have "register_subject client load kind item reg q = (Inr reg', q)" if q: "keeps known level r' q" for q
  proof -
    have "rc_set_compatibility client (fst item) ''BACKWARD'' q = (Inr (), q)"
      by (rule registry_lawsD(4) [OF laws keeps_level [OF q conjunct1 [OF c]]])
    moreover have "register_files client load (fst item) kind (snd item) reg q = (Inr reg', q)"
      by (rule st [THEN conjunct2, rule_format, OF keeps_trans [OF conjunct2 [OF c] q]])
    ultimately show ?thesis by (simp add: register_subject_def)
  qed
  then show ?thesis using c keeps_trans [OF conjunct1 [OF st] conjunct2 [OF c]] by simp
qed

lemma register_subjects_stable:
  assumes laws: "registry_laws client known level"
    and "register_subjects client load kind items reg r = (Inr reg', r')"
  shows "keeps known level r r' \<and> (\<forall>item \<in> set items. level r' (fst item) = Some ''BACKWARD'')
    \<and> (\<forall>q. keeps known level r' q \<longrightarrow> register_subjects client load kind items reg q = (Inr reg', q))"
  using assms(2)
proof (induction items arbitrary: reg r)
  case (Cons item items)
  from Cons.prems obtain reg1 r1 where 1: "register_subject client load kind item reg r = (Inr reg1, r1)"
    "register_subjects client load kind items reg1 r1 = (Inr reg', r')"
    by (auto split: sum.splits prod.splits)
  note st = register_subject_stable [OF laws 1(1)] and IH = Cons.IH [OF 1(2)]
  have "register_subject client load kind item reg q = (Inr reg1, q)" if "keeps known level r' q" for q
    using st [THEN conjunct2, THEN conjunct2, rule_format, OF keeps_trans [OF conjunct1 [OF IH] that]] .
  then have "\<forall>q. keeps known level r' q \<longrightarrow> register_subjects client load kind (item # items) reg q = (Inr reg', q)"
    using IH by simp
  moreover have "level r' (fst item) = Some ''BACKWARD''" 
    by (rule keeps_level [OF conjunct1 [OF IH] conjunct1 [OF conjunct2 [OF st]]])
  moreover have "keeps known level r r'" by (rule keeps_trans [OF conjunct1 [OF st] conjunct1 [OF IH]])
  ultimately show ?case using IH by simp
qed simp

text \<open>Registration is idempotent: when it succeeds every subject is at BACKWARD compatibility, and
  running it again succeeds with the same ids and leaves the registry as it is.\<close>

theorem register_all_idempotent:
  assumes "registry_laws client known level" "register_all client read dir r = (Inr ids, r')"
  shows "register_all client read dir r' = (Inr ids, r')
    \<and> list_all (\<lambda>subject. level r' subject = Some ''BACKWARD'') (map fst AVRO_SUBJECTS @ map fst JSON_SUBJECTS)"
proof -
  obtain reg r1 where 1: "register_subjects client (load_avro_schema read dir) ''AVRO'' AVRO_SUBJECTS [] r = (Inr reg, r1)"
    "register_subjects client (load_json_schema read dir) ''JSON''
       (map (\<lambda>(subject, filename). (subject, [filename])) JSON_SUBJECTS) reg r1 = (Inr ids, r')"
    using assms(2) by (auto simp: register_all_def split: sum.splits prod.splits)
  note a = register_subjects_stable [OF assms(1) 1(1)] and b = register_subjects_stable [OF assms(1) 1(2)]
  have "register_all client read dir r' = (Inr ids, r')"
    using a b by (simp add: register_all_def)
  moreover have "level r' s = Some ''BACKWARD''" if "s \<in> fst ` set AVRO_SUBJECTS" for s
    using that a keeps_level [OF conjunct1 [OF b]] by blast
  moreover have "level r' s = Some ''BACKWARD''" if "s \<in> fst ` set JSON_SUBJECTS" for s
    using b that by fastforce
  ultimately show ?thesis by (auto simp: list_all_iff)
qed

text \<open>A registry: the schemas in the order of their registration, an id being a position.\<close>

type_synonym sample_registry = "(string \<times> string \<times> string) list \<times> (string, string) dict"

definition sample_known :: "sample_registry \<Rightarrow> string \<Rightarrow> string \<times> string \<Rightarrow> int option" where
  "sample_known r s x =
     (if (s, x) \<in> set (fst r) then Some (int (length (takeWhile (\<lambda>y. y \<noteq> (s, x)) (fst r)))) else None)"

definition sample_client :: "sample_registry registry_client" where
  "sample_client =
     \<lparr>rc_register = (\<lambda>s x r. case sample_known r s x of
        Some i \<Rightarrow> (Inr i, r)
      | None \<Rightarrow> (Inr (int (length (fst r))), (fst r @ [(s, x)], snd r))),
      rc_set_compatibility = (\<lambda>s c r. if map_of (snd r) s = Some c then (Inr (), r)
                                      else (Inr (), (fst r, AList.update s c (snd r))))\<rparr>"

lemma sample_known_snoc:
  assumes "sample_known r s x = None"
  shows "sample_known (fst r @ [(s, x)], snd r) s x = Some (int (length (fst r)))"
    "sample_known r t y = Some j \<Longrightarrow> sample_known (fst r @ [(s, x)], snd r) t y = Some j"
proof -
  have new: "(s, x) \<notin> set (fst r)" using assms by (simp add: sample_known_def split: if_splits)
  then have "takeWhile (\<lambda>y. y \<noteq> (s, x)) (fst r @ [(s, x)]) = fst r" by (intro takeWhile_tail [THEN trans]) auto
  then show "sample_known (fst r @ [(s, x)], snd r) s x = Some (int (length (fst r)))"
    by (simp only: sample_known_def fst_conv set_append list.set) simp
  assume "sample_known r t y = Some j"
  then have old: "(t, y) \<in> set (fst r)" "j = int (length (takeWhile (\<lambda>z. z \<noteq> (t, y)) (fst r)))"
    by (simp_all only: sample_known_def split: if_splits) simp_all
  have "takeWhile (\<lambda>z. z \<noteq> (t, y)) (fst r @ [(s, x)]) = takeWhile (\<lambda>z. z \<noteq> (t, y)) (fst r)"
    by (rule takeWhile_append1 [OF old(1)]) simp
  with old show "sample_known (fst r @ [(s, x)], snd r) t y = Some j"
    by (simp only: sample_known_def fst_conv set_append) simp
qed

lemma sample_registry_laws: "registry_laws sample_client sample_known (map_of \<circ> snd)"
proof -
  have 1: "sample_known r' s x = Some i \<and> (map_of \<circ> snd) r' = (map_of \<circ> snd) r
      \<and> (\<forall>t y j. sample_known r t y = Some j \<longrightarrow> sample_known r' t y = Some j)"
    if "rc_register sample_client s x r = (Inr i, r')" for s x r i r'
    using that sample_known_snoc [of r s x]
    by (cases "sample_known r s x") (auto simp: sample_client_def)
  have 2: "rc_register sample_client s x r = (Inr i, r)" if "sample_known r s x = Some i" for s x r i
    using that by (simp add: sample_client_def)
  have 3: "sample_known r' = sample_known r \<and> (map_of \<circ> snd) r' = ((map_of \<circ> snd) r)(s \<mapsto> c)"
    if "rc_set_compatibility sample_client s c r = (Inr u, r')" for s c r r' u
    using that by (auto simp: sample_client_def sample_known_def fun_eq_iff split: if_splits)
  have 4: "rc_set_compatibility sample_client s c r = (Inr (), r)" if "(map_of \<circ> snd) r s = Some c" for s c r
    using that by (simp add: sample_client_def)
  show ?thesis
    unfolding registry_laws_def
    by (intro conjI [OF _ conjI [OF _ conjI]] allI impI) (erule 1 2 3 4)+
qed

theorem register_all_idempotent_witness:
  "\<exists>ids r'. register_all sample_client (\<lambda>path. Inr path) ''schemas'' ([], []) = (Inr ids, r')
    \<and> register_all sample_client (\<lambda>path. Inr path) ''schemas'' r' = (Inr ids, r')
    \<and> list_all (\<lambda>subject. (map_of \<circ> snd) r' subject = Some ''BACKWARD'') (map fst AVRO_SUBJECTS @ map fst JSON_SUBJECTS)"
proof -
  have "\<not> isl (fst (register_all sample_client (\<lambda>path. Inr path) ''schemas'' ([], [])))" by code_simp
  then have "\<exists>ids r'. register_all sample_client (\<lambda>path. Inr path) ''schemas'' ([], []) = (Inr ids, r')"
    by (cases "register_all sample_client (\<lambda>path. Inr path) ''schemas'' ([], [])") (auto, metis sum.collapse(2))
  then show ?thesis using register_all_idempotent [OF sample_registry_laws] by blast
qed


section \<open>Payments on the wire\<close>

lemma validatesD: "validates validate \<Longrightarrow> (validate d s = Inr ()) = draft07_ok s d"
  by (simp add: validates_def)

text \<open>What a payment the schema accepts looks like.\<close>

definition is_integer :: "pyval \<Rightarrow> bool" where
  "is_integer v \<longleftrightarrow> (\<exists>i. v = PInt i) \<or> (\<exists>i. v = PFloat (of_int i))"

lemma type_ok_cases:
  "type_ok ''string'' v \<longleftrightarrow> (\<exists>s. v = PStr s)"
  "type_ok ''integer'' v \<longleftrightarrow> is_integer v"
  by (cases v; auto simp: is_integer_def; metis)+

lemma prop_ok_cases:
  "prop_ok (of_type ''string'') v \<longleftrightarrow> (\<exists>s. v = PStr s)"
  "prop_ok (of_type ''integer'') v \<longleftrightarrow> is_integer v"
  "prop_ok (of_type ''integer'' \<lparr>ps_minimum := Some 0\<rparr>) v \<longleftrightarrow> is_integer v \<and> at_least 0 v"
  "prop_ok (of_type ''string'' \<lparr>ps_enum := Some xs\<rparr>) v \<longleftrightarrow> (\<exists>x \<in> set xs. v = PStr x)"
  by (auto simp: prop_ok_def of_type_def type_ok_cases)

lemma draft07_closed:
  "\<not> js_additional s \<Longrightarrow> draft07_ok s d \<longleftrightarrow>
     (list_all (\<lambda>k. k \<in> set (map fst d)) (js_required s) \<and> list_all (\<lambda>(k, _). k \<in> set (map fst (js_properties s))) d)
     \<and> list_all (\<lambda>(k, ps). case map_of d k of None \<Rightarrow> True | Some v \<Rightarrow> prop_ok ps v) (js_properties s)"
  by (simp only: draft07_ok_def simp_thms conj_assoc)

lemma payment_accepted:
  "draft07_ok payment_schema d \<longleftrightarrow>
     set (map fst d) = {''txn_id'', ''ride_id'', ''amount_cents'', ''status'', ''method'', ''ts''}
     \<and> (\<exists>t. map_of d ''txn_id'' = Some (PStr t)) \<and> (\<exists>r. map_of d ''ride_id'' = Some (PStr r))
     \<and> (\<exists>a. map_of d ''amount_cents'' = Some a \<and> is_integer a \<and> at_least 0 a)
     \<and> (\<exists>st \<in> {''completed'', ''failed'', ''refunded''}. map_of d ''status'' = Some (PStr st))
     \<and> (\<exists>m \<in> {''card'', ''cash'', ''wallet''}. map_of d ''method'' = Some (PStr m))
     \<and> (\<exists>ts. map_of d ''ts'' = Some ts \<and> is_integer ts)"
  (is "?l \<longleftrightarrow> ?keys \<and> ?vals")
proof -
  let ?K = "{''txn_id'', ''ride_id'', ''amount_cents'', ''status'', ''method'', ''ts''}"
  have keys: "list_all (\<lambda>k. k \<in> set (map fst d)) (js_required payment_schema)
      \<and> list_all (\<lambda>(k, _). k \<in> set (map fst (js_properties payment_schema))) d \<longleftrightarrow> ?keys"
  proof -
    have K: "set (js_required payment_schema) = ?K" "set (map fst (js_properties payment_schema)) = ?K"
      by (simp_all add: payment_schema_def)
    have "list_all (\<lambda>k. k \<in> set (map fst d)) (js_required payment_schema) \<longleftrightarrow> ?K \<subseteq> set (map fst d)"
      unfolding list_all_iff K(1) subset_eq ..
    moreover have "list_all (\<lambda>(k, _). k \<in> set (map fst (js_properties payment_schema))) d \<longleftrightarrow> set (map fst d) \<subseteq> ?K"
      unfolding list_all_iff K(2) case_prod_unfold unfolding set_map image_subset_iff ..
    ultimately show ?thesis unfolding set_eq_subset by (rule conj_cong [THEN trans, OF _ _ conj_commute])
  qed
  have vals: "list_all (\<lambda>(k, ps). case map_of d k of None \<Rightarrow> True | Some v \<Rightarrow> prop_ok ps v) (js_properties payment_schema)
      \<longleftrightarrow> ?vals" if ks: ?keys
  proof -
    have look: "\<exists>v. map_of d k = Some v" if "k \<in> ?K" for k
    proof -
      have "k \<in> set (map fst d)" using that by (simp only: ks)
      then show ?thesis by (metis map_of_eq_None_iff not_None_eq set_map)
    qed
    note i = insertI2
    obtain t r a st m ts where "map_of d ''txn_id'' = Some t" "map_of d ''ride_id'' = Some r"
      "map_of d ''amount_cents'' = Some a" "map_of d ''status'' = Some st" "map_of d ''method'' = Some m"
      "map_of d ''ts'' = Some ts"
      using look [OF insertI1] look [OF i [OF insertI1]] look [OF i [OF i [OF insertI1]]]
        look [OF i [OF i [OF i [OF insertI1]]]] look [OF i [OF i [OF i [OF i [OF insertI1]]]]]
        look [OF i [OF i [OF i [OF i [OF i [OF insertI1]]]]]]
      by (elim exE)
    then show ?thesis
      by (simp add: payment_schema_def prop_ok_cases)
  qed
  have "?l \<longleftrightarrow> (list_all (\<lambda>k. k \<in> set (map fst d)) (js_required payment_schema)
      \<and> list_all (\<lambda>(k, _). k \<in> set (map fst (js_properties payment_schema))) d)
      \<and> list_all (\<lambda>(k, ps). case map_of d k of None \<Rightarrow> True | Some v \<Rightarrow> prop_ok ps v) (js_properties payment_schema)"
    by (rule draft07_closed) (simp add: payment_schema_def)
  then show ?thesis by (rule trans [OF _ conj_cong [OF keys vals]])
qed

text \<open>JSON texts are ASCII when the rendered floats are.\<close>

definition ascii :: "string \<Rightarrow> bool" where
  "ascii s \<longleftrightarrow> list_all (\<lambda>c. (of_char c :: nat) \<in> {1..127}) s"

lemma ascii_append [simp]: "ascii (s @ t) \<longleftrightarrow> ascii s \<and> ascii t"
  and ascii_Cons [simp]: "ascii (c # t) \<longleftrightarrow> (of_char c :: nat) \<in> {1..127} \<and> ascii t"
  and ascii_Nil [simp]: "ascii []"
  by (simp_all add: ascii_def)

lemma hex_digit_ascii: "n < 16 \<Longrightarrow> (of_char (hex_digit n) :: nat) \<in> {1..127}"
  by (simp add: hex_digit_def)

lemma esc_char_ascii: "ascii (esc_char c)"
proof -
  have "of_char c div 16 < (16 :: nat)" using of_char_lt [of c] by (simp add: div_less_iff_less_mult)
  with hex_digit_ascii [of "of_char c div 16"] hex_digit_ascii [of "of_char c mod 16"] show ?thesis
    by (auto simp: esc_char_def)
qed

lemma json_string_ascii: "ascii (json_string s)"
proof -
  have "ascii (concat (map esc_char s))" by (induction s) (simp_all add: esc_char_ascii)
  then show ?thesis by (simp add: json_string_def)
qed

lemma nat_digits_ascii: "ascii (nat_digits n)"
  unfolding ascii_def list_all_iff using nat_digits_digit [of _ n] by (force simp: is_digit_def)

lemma json_value_ascii: "plain v \<or> ascii (render v) \<Longrightarrow> ascii (json_value render v)"
  by (cases v) (auto simp: json_string_ascii nat_digits_ascii int_digits_def)

lemma json_members_ascii:
  assumes "list_all (\<lambda>(k, v). plain v \<or> ascii (render v)) d" "ascii isep" "ascii ksep"
  shows "ascii (json_members render isep ksep d)"
  using assms
  by (induction render isep ksep d rule: json_members.induct) (auto simp: json_string_ascii json_value_ascii)

lemma utf8_decode_ascii: "ascii s \<Longrightarrow> utf8_decode s = Inr s"
  by (induction s) auto

lemma ascii_not_char: "ascii s \<Longrightarrow> c \<in> set s \<Longrightarrow> (of_char c :: nat) \<noteq> 0 \<and> (of_char c :: nat) < 128"
  unfolding ascii_def list_all_iff by auto

lemma decode_json_ascii:
  assumes "ascii s"
  shows "decode_json s = Inr s"
proof -
  have 0: "CHR 0x00 \<notin> set (take 2 s)" using ascii_not_char [OF assms, of "CHR 0x00"] by (auto dest: in_set_takeD)
  have "char_of (255 :: nat) \<notin> set s" "char_of (254 :: nat) \<notin> set s" "char_of (239 :: nat) \<notin> set s"
    using ascii_not_char [OF assms] by fastforce+
  then have "take 2 s \<notin> {[char_of (255 :: nat), char_of (254 :: nat)], [char_of (254 :: nat), char_of (255 :: nat)]}"
    "take 3 s \<noteq> map char_of [239 :: nat, 187, 191]"
    using in_set_takeD [of "char_of (255 :: nat)" 2 s] in_set_takeD [of "char_of (239 :: nat)" 3 s] by auto
  with 0 assms show ?thesis by (simp add: decode_json_def detected_utf8_def utf8_decode_ascii)
qed

lemma dumps_all: "list_all (\<lambda>(k, v). plain v) d \<Longrightarrow> json_dumps d = Inr d"
proof -
  have "plain v \<Longrightarrow> jsonable v" for v by (cases v) auto
  then show "list_all (\<lambda>(k, v). plain v) d \<Longrightarrow> json_dumps d = Inr d"
    by (auto simp: json_dumps_def list_all_iff)
qed

lemma payment_bytes_Inr:
  assumes "list_all (\<lambda>(k, v). plain v) d" "validates validate"
  shows "payment_json_bytes validate render d = Inr b \<longleftrightarrow>
    draft07_ok payment_schema d \<and> b = json_object render '','' '':'' d"
  using dumps_all [OF assms(1)] validatesD [OF assms(2), of d payment_schema]
  by (cases "validate d payment_schema") (auto simp: payment_json_bytes_def)

lemma json_object_ascii: "list_all (\<lambda>(k, v). plain v) d \<Longrightarrow> ascii (json_object render '','' '':'' d)"
  using json_members_ascii [of render d "'',''" "'':''"] by (auto simp: json_object_def list_all_iff)

lemma payment_roundtrip_lemma:
  assumes "validates validate" "dict_ok d" "list_all (\<lambda>(k, v). plain v) d"
    and "payment_json_bytes validate render d = Inr b"
  shows "parse_payment validate parse_float b = Inr d"
proof -
  have b: "draft07_ok payment_schema d" "b = json_object render '','' '':'' d"
    using assms(4) payment_bytes_Inr [OF assms(3,1)] by auto
  have "json_loads parse_float b = Inr (JObj d)"
    using json_roundtrip [OF assms(2,3), of "[]" "[]"] by (simp add: b(2))
  moreover have "decode_json b = Inr b"
    unfolding b(2) by (rule decode_json_ascii [OF json_object_ascii [OF assms(3)]])
  moreover have "validate d payment_schema = Inr ()" using validatesD [OF assms(1)] b(1) by simp
  ultimately show ?thesis by (simp add: parse_payment_def)
qed

text \<open>A payment survives the wire: what the generator serialises, the sink parses back unchanged,
  whatever validator and number parser it uses.\<close>

theorem payment_roundtrip:
  assumes "validates validate" "dict_ok d" "list_all (\<lambda>(k, v). plain v) d"
    and "payment_json_bytes validate render d = Inr b"
  shows "parse_payment validate parse_float b = Inr d"
  by (rule payment_roundtrip_lemma [OF assms])

text \<open>The validator that the keywords' meaning gives.\<close>

definition draft07 :: "payload \<Rightarrow> json_schema \<Rightarrow> exn + unit" where
  "draft07 d s = (if draft07_ok s d then Inr () else Inl (ValidationError ''''))"

lemma draft07_validates: "validates draft07"
  by (simp add: validates_def draft07_def)

definition sample_payment :: payload where
  "sample_payment =
     [(''txn_id'', PStr ''t-1''), (''ride_id'', PStr ''r-1''), (''amount_cents'', PInt 250),
      (''status'', PStr ''completed''), (''method'', PStr ''card''), (''ts'', PInt 1700000000000)]"

lemma sample_payment_ok: "draft07_ok payment_schema sample_payment"
  by (simp add: payment_accepted sample_payment_def is_integer_def)

theorem payment_roundtrip_witness:
  "\<exists>b. payment_json_bytes draft07 (\<lambda>_. []) sample_payment = Inr b
    \<and> parse_payment draft07 (\<lambda>_. 0) b = Inr sample_payment"
proof -
  have s: "dict_ok sample_payment" "list_all (\<lambda>(k, v). plain v) sample_payment" by (simp_all add: sample_payment_def)
  have "payment_json_bytes draft07 (\<lambda>_. []) sample_payment = Inr (json_object (\<lambda>_. []) '','' '':'' sample_payment)"
    by (simp add: payment_bytes_Inr [OF s(2) draft07_validates] sample_payment_ok)
  with payment_roundtrip [OF draft07_validates s this] show ?thesis by blast
qed

text \<open>The reader lets nothing else through: what it returns is an accepted payment.\<close>

lemma parsed_payment_accepted:
  assumes "validates validate" "parse_payment validate parse_float b = Inr d"
  shows "draft07_ok payment_schema d"
proof -
  from assms(2) obtain jv where v: "(case jv of JScalar _ \<Rightarrow> Inl (ValidationError ''payment must be an object'')
       | JObj d \<Rightarrow> rbind (validate d payment_schema) (\<lambda>_. Inr d)) = Inr d"
    by (auto simp: parse_payment_def rbind_eq_Inr)
  then have "validate d payment_schema = Inr ()" by (cases jv) (auto simp: rbind_eq_Inr)
  then show ?thesis using validatesD [OF assms(1)] by simp
qed

text \<open>A text that is not an object, an unknown member, a missing one.\<close>

lemma parse_payment_rejects:
  assumes "validates validate"
  shows "decode_json b = Inr s \<Longrightarrow> json_loads pf s = Inr (JScalar v) \<Longrightarrow>
      parse_payment validate pf b = Inl (ValidationError ''payment must be an object'')"
    and "decode_json b = Inr s \<Longrightarrow> json_loads pf s = Inr (JObj d) \<Longrightarrow> \<not> draft07_ok payment_schema d \<Longrightarrow>
      isl (parse_payment validate pf b)"
  using validatesD [OF assms, of d payment_schema]
  by (auto simp: parse_payment_def) (cases "validate d payment_schema"; simp)

text \<open>The validator accepts an amount that is a float without fraction, and the writer then writes a
  float.\<close>

lemma float_amount_accepted:
  "draft07_ok payment_schema (AList.update ''amount_cents'' (PFloat 250) sample_payment)"
  by (simp add: payment_accepted sample_payment_def is_integer_def)

end
