(* ===== verification/Wire.thy ===== *)
theory Wire
  imports Schemas Pg_Sink Transport Sessionizer
begin

text \<open>
  The serialisers and deserialisers the services build from the schema files: \<open>build_serializers\<close> of
  \<open>generator/producer.py\<close>, \<open>build_deserializers\<close> of \<open>processors/pg_sink.py\<close> and the default codec of
  the sessionizer. The Avro classes are parameters: a constructor from a client and a schema text
  to a function from a value (or the bytes of a message) and a topic.
\<close>

type_synonym avro_serializer = "payload \<Rightarrow> string \<Rightarrow> exn + string option"
type_synonym avro_deserializer = "string option \<Rightarrow> string \<Rightarrow> exn + json"

abbreviation not_bytes :: exn where "not_bytes \<equiv> Exn ''AssertionError'' ''''"

definition wrap_serializer :: "avro_serializer \<Rightarrow> string \<Rightarrow> payload \<Rightarrow> exn + string" where
  "wrap_serializer ser topic value =
     rbind (ser value topic) (\<lambda>data. case data of Some b \<Rightarrow> Inr b | None \<Rightarrow> Inl not_bytes)"

definition build_serializers :: "('c \<Rightarrow> string \<Rightarrow> exn + avro_serializer) \<Rightarrow> (string \<Rightarrow> exn + string)
    \<Rightarrow> (payload \<Rightarrow> json_schema \<Rightarrow> exn + unit) \<Rightarrow> (pyval \<Rightarrow> string) \<Rightarrow> 'c \<Rightarrow> int \<Rightarrow> exn + serializers" where
  "build_serializers avro load validate rend client ride_schema_version =
     rbind (ride_event_serializer avro load client ride_schema_version) (\<lambda>ride_ser.
     rbind (driver_location_serializer avro load client) (\<lambda>location_ser.
       Inr [(RIDES_EVENTS, wrap_serializer ride_ser RIDES_EVENTS),
            (DRIVERS_LOCATIONS, wrap_serializer location_ser DRIVERS_LOCATIONS),
            (PAYMENTS_TRANSACTIONS, payment_json_bytes validate rend)]))"

definition wrap_deserializer :: "avro_deserializer \<Rightarrow> string \<Rightarrow> string option \<Rightarrow> exn + payload" where
  "wrap_deserializer deser topic data =
     rbind (deser data topic) (\<lambda>value.
       case value of JObj d \<Rightarrow> Inr d | JScalar _ \<Rightarrow> Inl (TypeError ''expected record dict''))"

text \<open>\<open>json.loads(None)\<close> of a message without a value is a TypeError.\<close>

definition payment_deserializer :: "(payload \<Rightarrow> json_schema \<Rightarrow> exn + unit) \<Rightarrow> (string \<Rightarrow> real)
    \<Rightarrow> string \<Rightarrow> string option \<Rightarrow> exn + payload" where
  "payment_deserializer validate parse_float topic data =
     (case data of None \<Rightarrow> Inl (TypeError ''the JSON object must be str, bytes or bytearray, not NoneType'')
      | Some b \<Rightarrow> parse_payment validate parse_float b)"

definition build_deserializers :: "('c \<Rightarrow> string \<Rightarrow> exn + avro_deserializer) \<Rightarrow> (string \<Rightarrow> exn + string)
    \<Rightarrow> (payload \<Rightarrow> json_schema \<Rightarrow> exn + unit) \<Rightarrow> (string \<Rightarrow> real) \<Rightarrow> 'c
    \<Rightarrow> exn + (string, string \<Rightarrow> string option \<Rightarrow> exn + payload) dict" where
  "build_deserializers avro load validate parse_float client =
     rbind (ride_event_deserializer avro load client) (\<lambda>ride_deser.
     rbind (ride_session_deserializer avro load client) (\<lambda>session_deser.
     rbind (driver_location_deserializer avro load client) (\<lambda>location_deser.
       Inr [(RIDES_EVENTS, wrap_deserializer ride_deser),
            (RIDES_SESSIONS, wrap_deserializer session_deser),
            (DRIVERS_LOCATIONS, wrap_deserializer location_deser),
            (PAYMENTS_TRANSACTIONS, payment_deserializer validate parse_float)])))"

definition session_deserialize :: "avro_deserializer \<Rightarrow> string \<Rightarrow> string option \<Rightarrow> exn + payload" where
  "session_deserialize deser topic data =
     rbind (deser data topic) (\<lambda>value. case value of JObj d \<Rightarrow> Inr d | JScalar _ \<Rightarrow> Inl not_bytes)"

definition default_codec :: "('c \<Rightarrow> string \<Rightarrow> exn + avro_serializer) \<Rightarrow> ('c \<Rightarrow> string \<Rightarrow> exn + avro_deserializer)
    \<Rightarrow> (string \<Rightarrow> exn + string) \<Rightarrow> 'c \<Rightarrow> (pyval \<Rightarrow> string) \<Rightarrow> (msg \<Rightarrow> string) \<Rightarrow> exn + codec" where
  "default_codec avro_ser avro_deser load client rend now =
     rbind (ride_event_deserializer avro_deser load client) (\<lambda>deser.
     rbind (ride_session_serializer avro_ser load client) (\<lambda>session_ser.
     rbind (ride_event_serializer avro_ser load client 2) (\<lambda>event_ser.
       Inr \<lparr>deserialize = session_deserialize deser,
            serialize_session = wrap_serializer session_ser,
            serialize_event = wrap_serializer event_ser,
            render = rend, clock = now\<rparr>)))"

section \<open>What was built\<close>

lemma build_serializers_payments:
  "build_serializers avro load validate rend client v = Inr sers \<Longrightarrow>
     map_of sers PAYMENTS_TRANSACTIONS = Some (payment_json_bytes validate rend)"
  by (auto simp: build_serializers_def rbind_eq_Inr topic_defs DRIVERS_LOCATIONS_def)

lemma build_deserializers_payments:
  "build_deserializers avro load validate pf client = Inr desers \<Longrightarrow>
     map_of desers PAYMENTS_TRANSACTIONS = Some (payment_deserializer validate pf)"
  by (auto simp: build_deserializers_def rbind_eq_Inr topic_defs DRIVERS_LOCATIONS_def)

text \<open>The producer and the sessionizer write with a version of the schema the readers know.\<close>

lemma build_topics:
  "build_serializers avro load validate rend client v = Inr sers \<Longrightarrow> map fst sers = SOURCE_TOPICS"
  "build_deserializers avro' load validate pf client = Inr desers \<Longrightarrow> set (map fst desers) = set SINK_TOPICS"
  by (auto simp: build_serializers_def build_deserializers_def rbind_eq_Inr SOURCE_TOPICS_def SINK_TOPICS_def)

section \<open>Payments into Postgres\<close>

text \<open>The row of an accepted payment is complete unless its time stamp is beyond the range of a
  datetime.\<close>

lemma payment_row_complete:
  assumes "draft07_ok payment_schema d" "map_of d ''ts'' = Some (PInt ms)"
  shows "\<exists>t r a st m. payment_row d = Inr [PStr t, PStr r, a, PStr st, PStr m, PDatetime (dt_of_ms ms)] \<and> is_integer a"
proof -
  obtain t r a st m where "map_of d ''txn_id'' = Some (PStr t)" "map_of d ''ride_id'' = Some (PStr r)"
    "map_of d ''amount_cents'' = Some a" "map_of d ''status'' = Some (PStr st)" "map_of d ''method'' = Some (PStr m)"
    and int: "is_integer a"
    using payment_accepted [THEN iffD1, OF assms(1)] by (elim conjE exE bexE)
  note i = this(1-5) [folded d_item_eq_Inr] assms(2) [folded d_item_eq_Inr]
  have "payment_row d = Inr [PStr t, PStr r, a, PStr st, PStr m, PDatetime (dt_of_ms ms)]"
    by (simp add: payment_row_def i)
  with int show ?thesis by blast
qed

text \<open>A time stamp that is a float without fraction is accepted by the schema and refused by the row
  builder, so such a payment ends in the dead-letter topic.\<close>

lemma float_ts_dead_lettered:
  defines "d \<equiv> AList.update ''ts'' (PFloat 1) sample_payment"
  shows "draft07_ok payment_schema d \<and> isl (payment_row d)"
proof -
  have "draft07_ok payment_schema d"
    unfolding d_def payment_accepted by (simp add: sample_payment_def is_integer_def)
  moreover have "isl (payment_row d)"
    by (simp add: d_def payment_row_def sample_payment_def d_item_def)
  ultimately show ?thesis ..
qed

end
