(* ===== verification/Payments.thy ===== *)
theory Payments
  imports Wire Generator_Properties
begin

text \<open>
  The way of a payment through the system: the simulator builds it when a ride completes, the
  imperfection layer may corrupt it, the transport serialises it as plain JSON and the Postgres sink
  parses it and builds its row. Every payment of a generated stream, whatever the rates, is either
  whole and becomes a complete row, or corrupted and is refused by the sink.
\<close>

section \<open>Payments in the stream\<close>

definition payment_sent :: "source_event \<Rightarrow> bool" where
  "payment_sent e \<longleftrightarrow> (se_topic e = PAYMENTS_TRANSACTIONS \<longrightarrow>
     (\<exists>p b. payment_shape p \<and> e = p\<lparr>se_corrupt := b\<rparr>))"

definition holds_no_payment :: "'g imperfector \<Rightarrow> bool" where
  "holds_no_payment i \<longleftrightarrow> list_all (\<lambda>(t, e). se_topic e \<noteq> PAYMENTS_TRANSACTIONS) (im_held i)"

lemma holds_no_payment_simps [simp]:
  "holds_no_payment (bump k i) = holds_no_payment i" "holds_no_payment (i\<lparr>im_rng := g\<rparr>) = holds_no_payment i"
  "holds_no_payment (hold t e i) \<longleftrightarrow> holds_no_payment i \<and> se_topic e \<noteq> PAYMENTS_TRANSACTIONS"
  by (auto simp: holds_no_payment_def hold_def bump_def)

lemma payment_sent_other: "se_topic e \<noteq> PAYMENTS_TRANSACTIONS \<Longrightarrow> payment_sent e"
  by (simp add: payment_sent_def)

lemma payment_sent_ok: "event_ok e \<Longrightarrow> payment_sent (e\<lparr>se_corrupt := b\<rparr>)" "event_ok e \<Longrightarrow> payment_sent e"
proof -
  assume e: "event_ok e"
  show sent: "payment_sent (e\<lparr>se_corrupt := b\<rparr>)" for b using e by (auto simp: payment_sent_def event_ok_def)
  show "payment_sent e" using sent [of "se_corrupt e"] by simp
qed

lemma process_roll_topic:
  assumes "process_roll cfg R e now i = (out, i')" "se_topic e = RIDES_EVENTS" "holds_no_payment i"
  shows "list_all payment_sent out \<and> holds_no_payment i'"
  using assms topics_distinct(1)
  by (auto simp: process_roll_def Let_def payment_sent_def dest!: im_drawn split: prod.splits if_splits)

lemma rides_layer_topic:
  "maybe_null_fields cfg R e i = (e', i') \<Longrightarrow> se_topic e' = se_topic e \<and> (holds_no_payment i \<longrightarrow> holds_no_payment i')"
  "maybe_bad_data cfg R e i = Inr (e', i') \<Longrightarrow> se_topic e' = se_topic e \<and> (holds_no_payment i \<longrightarrow> holds_no_payment i')"
  by (auto simp: maybe_null_fields_def maybe_bad_data_def Let_def rbind_eq_Inr dest!: im_drawn split: prod.splits if_splits)

lemma process_event_sent:
  assumes "process_event cfg R e now i = Inr (out, i')" "event_ok e" "holds_no_payment i"
  shows "list_all payment_sent out \<and> holds_no_payment i'"
proof -
  consider "se_topic e = PAYMENTS_TRANSACTIONS" | "se_topic e = RIDES_EVENTS"
    | "se_topic e \<noteq> PAYMENTS_TRANSACTIONS" "se_topic e \<noteq> RIDES_EVENTS" by blast
  then show ?thesis
  proof cases
    case 1
    with assms payment_sent_ok [OF assms(2)] show ?thesis
      by (auto simp: process_event_def maybe_corrupt_only_def Let_def dest!: im_drawn split: prod.splits if_splits)
  next
    case 2
    obtain e1 i1 where 1: "maybe_null_fields cfg R e i = (e1, i1)" by fastforce
    with assms(1) 2 topics_distinct(1) obtain e2 i2 where "maybe_bad_data cfg R e1 i1 = Inr (e2, i2)" "process_roll cfg R e2 now i2 = (out, i')"
      by (auto simp: process_event_def rbind_eq_Inr)
    with rides_layer_topic(1) [OF 1] rides_layer_topic(2) process_roll_topic 2 assms(3) show ?thesis by metis
  next
    case 3
    with assms payment_sent_other show ?thesis by (auto simp: process_event_def)
  qed
qed

lemma process_events_sent:
  assumes "process_events cfg R now evs i = Inr (out, i')" "list_all event_ok evs" "holds_no_payment i"
  shows "list_all payment_sent out \<and> holds_no_payment i'"
  using assms
proof (induction evs arbitrary: i out)
  case (Cons e evs)
  then obtain o1 i1 o2 where o: "process_event cfg R e now i = Inr (o1, i1)" "process_events cfg R now evs i1 = Inr (o2, i')"
    "out = o1 @ o2"
    by (auto simp: rbind_eq_Inr)
  with process_event_sent [OF o(1)] Cons.IH [OF o(2)] Cons.prems show ?case by simp
qed simp

lemma release_due_sent:
  assumes "release_due now i = (due, i')" "holds_no_payment i"
  shows "list_all payment_sent due \<and> holds_no_payment i'"
  using assms by (fastforce simp: release_due_def holds_no_payment_def list_all_iff payment_sent_def)

lemma run_ticks_sent:
  assumes laws: "rng_laws (en_R env)" "gen_config_ok (en_cfg env)"
    and "en_anchor_ms env \<le> now_ms ck" "0 < ck_tick_ms ck" "sim_ok env \<sigma> s" "holds_no_payment i"
    and "run_ticks env n ck s i = Some (Inr (bs, ck', s', i'))"
  shows "list_all payment_sent (stream bs)"
  using assms(3-)
proof (induction n arbitrary: ck s \<sigma> i bs)
  case (Suc n)
  obtain r where r: "sim_on_tick env (now_ms ck) s = Some r" "emits_ok env \<sigma> r"
    using sim_on_tick_ok [OF laws Suc.prems(1,3)] by blast
  obtain evs s1 \<sigma>1 where e: "r = Inr (evs, s1)" "list_all event_ok evs" "sim_ok env \<sigma>1 s1"
    using r(2) by (auto elim: emits_okE)
  obtain due i0 where due: "release_due (now_ms ck) i = (due, i0)" by fastforce
  from Suc.prems(5) obtain out i1 bs' where
    out: "process_events (en_cfg env) (en_R env) (now_ms ck) evs i0 = Inr (out, i1)"
    and rest: "run_ticks env n (advance_clock ck) s1 i1 = Some (Inr (bs', ck', s', i'))"
    and bs: "bs = (now_ms ck, due @ out) # bs'"
    by (auto simp: sim_tick_def r(1) e(1) due rbind_eq_Inr split: option.splits sum.splits)
  have "en_anchor_ms env \<le> now_ms (advance_clock ck)" "0 < ck_tick_ms (advance_clock ck)"
    using Suc.prems(1,2) by (simp_all add: now_ms_def advance_clock_def algebra_simps)
  moreover note d = release_due_sent [OF due Suc.prems(4)]
  note o = process_events_sent [OF out e(2) conjunct2 [OF d]]
  ultimately have "list_all payment_sent (stream bs')" using Suc.IH [OF _ _ e(3) conjunct2 [OF o] rest] by blast
  with d o show ?case by (simp add: bs)
qed simp

lemma simulated_payments:
  assumes "rng_laws R" "gen_config_ok cfg"
  shows "\<exists>bs ck s i. simulate_ticks R crc32 now_us cfg n (Some anchor) = Some (Inr (bs, ck, s, i))
    \<and> (\<forall>e \<in> set (stream bs). payment_sent e)"
proof -
  obtain env s0 i0 where b: "build_simulator R crc32 cfg anchor = (env, s0, i0)" using prod_cases3 by blast
  note k = build_ok [OF b]
  let ?ck = "\<lparr>ck_anchor_ms = anchor, ck_tick_ms = tick_ms cfg, ck_ticks = 0\<rparr>"
  obtain bs ck' s i where r: "simulate_ticks R crc32 now_us cfg n (Some anchor) = Some (Inr (bs, ck', s, i))"
    by (rule simulate_ok [OF assms b, where n = n and now_us = now_us]) blast
  then have run: "run_ticks env n ?ck s0 i0 = Some (Inr (bs, ck', s, i))"
    using b by (simp add: simulate_ticks_def)
  have "en_anchor_ms env \<le> now_ms ?ck" "0 < ck_tick_ms ?ck" "holds_no_payment i0"
    using assms(2) k by (simp_all add: now_ms_def gen_config_ok_def holds_no_payment_def)
  from run_ticks_sent [OF assms(1,2) [folded k(1,2)] this(1,2) k(5) this(3) run] have "list_all payment_sent (stream bs)" .
  then have "\<forall>e \<in> set (stream bs). payment_sent e" by (simp only: list_all_iff)
  with r show ?thesis by blast
qed

section \<open>Payments into Postgres\<close>

definition payment_lands :: "serializers \<Rightarrow> pg_env \<Rightarrow> source_event \<Rightarrow> bool" where
  "payment_lands sers env e \<longleftrightarrow>
     (\<exists>f bytes. map_of sers PAYMENTS_TRANSACTIONS = Some f \<and> f (se_value e) = Inr bytes
        \<and> (\<forall>m. m_topic m = PAYMENTS_TRANSACTIONS \<longrightarrow>
             m_value m = Some (if se_corrupt e then corrupt_payload bytes else bytes) \<longrightarrow>
             (if se_corrupt e then isl (row_of_msg env m)
              else row_of_msg env m = Inr (map (d_get (se_value e)) [''txn_id'', ''ride_id'', ''amount_cents'', ''status'', ''method'']
                     @ [PDatetime (dt_of_ms (se_ts e))]))))"

text \<open>The corrupted first byte is no UTF-8.\<close>

lemma corrupted_refused: "isl (parse_payment validate pf (corrupt_payload b))"
proof -
  have "(of_char (char_of CORRUPT_FIRST_BYTE :: char) :: nat) = 255" by (simp add: CORRUPT_FIRST_BYTE_def)
  then have "\<exists>e. utf8_decode (corrupt_payload b) = Inl e" by (simp add: corrupt_payload_def)
  moreover have "take 3 (corrupt_payload b) \<noteq> map char_of [239 :: nat, 187, 191]"
  proof
    assume "take 3 (corrupt_payload b) = map char_of [239 :: nat, 187, 191]"
    then have "(char_of CORRUPT_FIRST_BYTE :: char) = char_of (239 :: nat)" by (simp add: corrupt_payload_def)
    then have "(of_char (char_of CORRUPT_FIRST_BYTE :: char) :: nat) = of_char (char_of (239 :: nat) :: char)" by simp
    then show False by (simp add: CORRUPT_FIRST_BYTE_def)
  qed
  ultimately show ?thesis by (auto simp: parse_payment_def decode_json_def)
qed

lemma payment_event_lands:
  assumes "validates validate" "build_serializers avro load validate rend client v = Inr sers"
    and "build_deserializers avro' load validate pf client' = Inr (deserializers env)"
    and "payment_shape p" "e = p\<lparr>se_corrupt := b\<rparr>"
  shows "payment_lands sers env e"
proof -
  obtain txn ride cents ts st pay where p: "p = payment_event txn ride cents st pay ts" "0 \<le> cents"
    "st \<in> {''completed'', ''failed'', ''refunded''}" "pay \<in> {''card'', ''cash'', ''wallet''}"
    using assms(4) unfolding payment_shape_def by blast
  let ?d = "[(''txn_id'', PStr txn), (''ride_id'', PStr ride), (''amount_cents'', PInt cents), (''status'', PStr st),
     (''method'', PStr pay), (''ts'', PInt ts)]"
  have d: "se_value e = ?d" "se_ts e = ts" by (simp_all add: assms(5) p(1) payment_event_def)
  have ok: "dict_ok ?d" "list_all (\<lambda>(k, v). plain v) ?d" by simp_all
  have acc: "draft07_ok payment_schema ?d" unfolding payment_accepted using p(2-4) by (simp add: is_integer_def)
  let ?bytes = "json_object rend '','' '':'' ?d"
  have bytes: "payment_json_bytes validate rend ?d = Inr ?bytes"
    using payment_bytes_Inr [OF ok(2) assms(1)] acc by blast
  note rt = payment_roundtrip_lemma [OF assms(1) ok bytes, of pf]
  have "row_of_msg env m = rbind (parse_payment validate pf x) payment_row"
    if "m_topic m = PAYMENTS_TRANSACTIONS" "m_value m = Some x" for m x
    using that build_deserializers_payments [OF assms(3)]
    by (simp add: row_of_msg_def lookup_key_def payment_deserializer_def ROW_BUILDERS_def topic_defs DRIVERS_LOCATIONS_def)
  moreover have "payment_row ?d = Inr (map (d_get ?d) [''txn_id'', ''ride_id'', ''amount_cents'', ''status'', ''method'']
       @ [PDatetime (dt_of_ms ts)])"
    by (simp add: payment_row_def d_item_def d_get_def)
  moreover have "isl (rbind (parse_payment validate pf (corrupt_payload ?bytes)) payment_row)"
    using corrupted_refused [of validate pf ?bytes] by (auto simp: isl_def)
  ultimately show ?thesis
    unfolding payment_lands_def d using build_serializers_payments [OF assms(2)] bytes rt by fastforce
qed

text \<open>C22: every generated payment lands. Whatever the rates, each payment of the stream serialises, and
  any message that carries its bytes becomes in the Postgres sink the row of exactly its fields, or,
  if it was corrupted on the way out, is refused and dead-lettered.\<close>

theorem generated_payments_land:
  assumes "rng_laws R" "gen_config_ok cfg" "validates validate"
    and "build_serializers avro load validate rend client v = Inr sers"
    and "build_deserializers avro' load validate pf client' = Inr (deserializers env)"
  shows "\<exists>bs ck s i. simulate_ticks R crc32 now_us cfg n (Some anchor) = Some (Inr (bs, ck, s, i))
    \<and> list_all (payment_lands sers env) (filter (\<lambda>e. se_topic e = PAYMENTS_TRANSACTIONS) (stream bs))"
proof -
  obtain bs ck s i where r: "simulate_ticks R crc32 now_us cfg n (Some anchor) = Some (Inr (bs, ck, s, i))"
    and sent: "\<forall>e \<in> set (stream bs). payment_sent e"
    using simulated_payments [OF assms(1,2)] by metis
  have "payment_lands sers env e" if e: "e \<in> set (stream bs)" "se_topic e = PAYMENTS_TRANSACTIONS" for e
  proof -
    obtain p b where "payment_shape p" "e = p\<lparr>se_corrupt := b\<rparr>"
      using sent e unfolding payment_sent_def by blast
    then show ?thesis by (rule payment_event_lands [OF assms(3-5)])
  qed
  then have "list_all (payment_lands sers env) (filter (\<lambda>e. se_topic e = PAYMENTS_TRANSACTIONS) (stream bs))"
    unfolding list_all_iff by simp
  with r show ?thesis by blast
qed

text \<open>Serdes that answer with fixed values, and files that are their own names.\<close>

definition sample_avro_ser :: "unit \<Rightarrow> string \<Rightarrow> exn + avro_serializer" where
  "sample_avro_ser c schema = Inr (\<lambda>value topic. Inr (Some schema))"

definition sample_avro_deser :: "unit \<Rightarrow> string \<Rightarrow> exn + avro_deserializer" where
  "sample_avro_deser c schema = Inr (\<lambda>data topic. Inr (JObj []))"

theorem generated_payments_land_witness:
  "\<exists>sers env bs ck s i. build_serializers sample_avro_ser Inr draft07 (\<lambda>_. []) () 2 = Inr sers
    \<and> build_deserializers sample_avro_deser Inr draft07 (\<lambda>_. 0) () = Inr (deserializers env)
    \<and> simulate_ticks zero_rng length 0 default_config 100 (Some 0) = Some (Inr (bs, ck, s, i))
    \<and> list_all (payment_lands sers env) (filter (\<lambda>e. se_topic e = PAYMENTS_TRANSACTIONS) (stream bs))"
proof -
  obtain sers where s: "build_serializers sample_avro_ser Inr draft07 (\<lambda>_. []) () 2 = Inr sers"
    by (simp add: build_serializers_def ride_event_serializer_def driver_location_serializer_def sample_avro_ser_def)
  obtain desers where "build_deserializers sample_avro_deser Inr draft07 (\<lambda>_. 0) () = Inr desers"
    by (simp add: build_deserializers_def ride_event_deserializer_def ride_session_deserializer_def
        driver_location_deserializer_def sample_avro_deser_def)
  then have d: "build_deserializers sample_avro_deser Inr draft07 (\<lambda>_. 0) ()
      = Inr (deserializers \<lparr>deserializers = desers, accepts = (\<lambda>_ _. None), pg_clock = (\<lambda>_. [])\<rparr>)" by simp
  from generated_payments_land [OF zero_rng_laws default_config_ok draft07_validates s d] s d show ?thesis by blast
qed

end
