(* ===== verification/Generator_Main.thy ===== *)
theory Generator_Main
  imports Transport Generator_Properties
begin

text \<open>
  \<open>generator/__main__.py\<close>: the configuration from the parsed arguments, the stdout sink and the loop that
  sends the simulated stream to a sink, paced, until it ends, is interrupted or fails; the sink is
  closed in every case. A sink is a record of operations on its state; what the broker and the user do
  (refusals, delivery reports, interrupts in a send or in a sleep) is a script in that state. The
  parsing of the command line and the logging are left out.
\<close>

section \<open>Arguments\<close>

record gen_args =
  ga_speed :: real
  ga_duration :: real
  ga_seed :: int
  ga_anchor :: "int option"
  ga_no_pace :: bool
  ga_sink :: string
  ga_acked_manifest :: bool
  ga_rides_per_min :: real
  ga_drivers :: int
  ga_dup_rate :: real
  ga_ooo_rate :: real
  ga_late_rate :: real
  ga_malformed_rate :: real
  ga_null_rate :: real
  ga_abandon_rate :: real
  ga_bad_data_rate :: real
  ga_perfect :: bool
  ga_evolve_after :: "real option"

definition default_args :: gen_args where
  "default_args =
     \<lparr>ga_speed = 60, ga_duration = 600, ga_seed = 42, ga_anchor = None, ga_no_pace = False, ga_sink = ''stdout'',
      ga_acked_manifest = False, ga_rides_per_min = 40, ga_drivers = 300, ga_dup_rate = 5 / 1000,
      ga_ooo_rate = 2 / 100, ga_late_rate = 1 / 100, ga_malformed_rate = 2 / 1000, ga_null_rate = 1 / 100,
      ga_abandon_rate = 3 / 1000, ga_bad_data_rate = 0, ga_perfect = False, ga_evolve_after = None\<rparr>"

definition config_from_args :: "gen_args \<Rightarrow> GeneratorConfig" where
  "config_from_args args =
     (let cfg = default_config
            \<lparr>seed := ga_seed args, speed := ga_speed args, gen_duration_sec := ga_duration args,
             cfg_anchor_ms := ga_anchor args, base_rides_per_min := ga_rides_per_min args,
             drivers_total := ga_drivers args, dup_rate := ga_dup_rate args, ooo_rate := ga_ooo_rate args,
             late_rate := ga_late_rate args, malformed_rate := ga_malformed_rate args,
             null_field_rate := ga_null_rate args, abandon_rate := ga_abandon_rate args,
             bad_data_rate := ga_bad_data_rate args, evolve_after_sec := ga_evolve_after args\<rparr>
      in if ga_perfect args then perfect cfg else cfg)"

section \<open>The loop\<close>

record 's sink =
  sk_send :: "source_event \<Rightarrow> 's \<Rightarrow> (exn + unit) \<times> 's"
  sk_sleep :: "real \<Rightarrow> 's \<Rightarrow> (exn + unit) \<times> 's"
  sk_close :: "'s \<Rightarrow> (exn + unit) \<times> 's"

fun send_batch :: "'s sink \<Rightarrow> source_event list \<Rightarrow> nat \<Rightarrow> 's \<Rightarrow> (exn + unit) \<times> nat \<times> 's" where
  "send_batch sk [] emitted s = (Inr (), emitted, s)"
| "send_batch sk (e # es) emitted s =
     (case sk_send sk e s of
        (Inl x, s) \<Rightarrow> (Inl x, emitted, s)
      | (Inr _, s) \<Rightarrow> send_batch sk es (emitted + 1) s)"

definition pace :: "'s sink \<Rightarrow> real \<Rightarrow> 's \<Rightarrow> (exn + unit) \<times> 's" where
  "pace sk pause s = (if pause \<noteq> 0 then sk_sleep sk pause s else (Inr (), s))"

fun main_loop :: "'s sink \<Rightarrow> real \<Rightarrow> 'g sim_env \<Rightarrow> nat \<Rightarrow> SimClock \<Rightarrow> 'g simulator \<Rightarrow> 'g imperfector
    \<Rightarrow> nat \<Rightarrow> 's \<Rightarrow> ((exn + unit) \<times> nat \<times> 's) option" where
  "main_loop sk pause env 0 clock sim i emitted s = Some (Inr (), emitted, s)"
| "main_loop sk pause env (Suc n) clock sim i emitted s =
     (case sim_tick env (now_ms clock) sim i of
        None \<Rightarrow> None
      | Some (Inl e) \<Rightarrow> Some (Inl e, emitted, s)
      | Some (Inr (batch, sim, i)) \<Rightarrow>
          (case send_batch sk batch emitted s of
             (Inl e, emitted, s) \<Rightarrow> Some (Inl e, emitted, s)
           | (Inr _, emitted, s) \<Rightarrow>
               (case pace sk pause s of
                  (Inl e, s) \<Rightarrow> Some (Inl e, emitted, s)
                | (Inr _, s) \<Rightarrow> main_loop sk pause env n (advance_clock clock) sim i emitted s)))"

definition pause_of :: "gen_args \<Rightarrow> GeneratorConfig \<Rightarrow> exn + real" where
  "pause_of args cfg =
     (if ga_no_pace args then Inr 0
      else if speed cfg = 0 then Inl (Exn ''ZeroDivisionError'' ''float division by zero'')
      else Inr (of_int (tick_ms cfg) / 1000 / speed cfg))"

definition anchor_of :: "int \<Rightarrow> GeneratorConfig \<Rightarrow> int" where
  "anchor_of now_us cfg = (case cfg_anchor_ms cfg of Some a \<Rightarrow> a | None \<Rightarrow> wall_anchor_ms now_us)"

text \<open>\<open>finally: sink.close()\<close>, with the interrupt caught.\<close>

definition close_sink :: "'s sink \<Rightarrow> (exn + unit) \<times> nat \<times> 's \<Rightarrow> (exn + int) \<times> nat \<times> 's" where
  "close_sink sk out =
     (case out of (r, emitted, s) \<Rightarrow>
        (case sk_close sk s of
           (Inl e, s) \<Rightarrow> (Inl e, emitted, s)
         | (Inr _, s) \<Rightarrow>
             ((case r of Inl e \<Rightarrow> if exn_type e = ''KeyboardInterrupt'' then Inr 0 else Inl e | Inr _ \<Rightarrow> Inr 0), emitted, s)))"

definition generator_main :: "'g rng \<Rightarrow> (string \<Rightarrow> nat) \<Rightarrow> int \<Rightarrow> gen_args \<Rightarrow> 's sink \<Rightarrow> exn + 's
    \<Rightarrow> (exn + (exn + int) \<times> nat \<times> 's) option" where
  "generator_main R crc32 now_us args sk made =
     (let cfg = config_from_args args; anchor = anchor_of now_us cfg in
      case rbind (ticks_for cfg) (\<lambda>total_ticks. rbind (pause_of args cfg) (\<lambda>pause. rbind made (\<lambda>s. Inr (total_ticks, pause, s)))) of
        Inl e \<Rightarrow> Some (Inl e)
      | Inr (total_ticks, pause, s) \<Rightarrow>
          (let (env, sim, i) = build_simulator R crc32 cfg anchor;
               clock = \<lparr>ck_anchor_ms = anchor, ck_tick_ms = tick_ms cfg, ck_ticks = 0\<rparr>
           in case main_loop sk pause env (nat total_ticks) clock sim i 0 s of
                None \<Rightarrow> None
              | Some out \<Rightarrow> Some (Inr (close_sink sk out))))"

section \<open>The sinks\<close>

definition time_sleep :: "real \<Rightarrow> exn option \<Rightarrow> exn + unit" where
  "time_sleep pause interrupt =
     (if pause < 0 then Inl (ValueError ''sleep length must be non-negative'')
      else case interrupt of Some e \<Rightarrow> Inl e | None \<Rightarrow> Inr ())"

text \<open>One line of JSON per event.\<close>

definition stdout_line :: "(pyval \<Rightarrow> string) \<Rightarrow> source_event \<Rightarrow> exn + string" where
  "stdout_line rend event =
     rbind (json_dumps (se_value event)) (\<lambda>value.
       Inr (''{'' @ json_members rend '','' '':'' [(''topic'', PStr (se_topic event)), (''key'', PStr (se_key event)),
              (''ts'', PInt (se_ts event))]
            @ '','' @ json_string ''value'' @ '':'' @ json_object rend '','' '':'' value
            @ (if se_corrupt event then '','' @ json_members rend '','' '':'' [(''corrupt'', PBool True)] else [])
            @ ''}'' @ [CHR 0x0A]))"

record stdout_state =
  so_out :: string
  so_sent :: nat
  so_sleeps :: "exn option list"

definition next_of :: "'a option list \<Rightarrow> 'a option" where
  "next_of xs = (case xs of [] \<Rightarrow> None | x # _ \<Rightarrow> x)"

definition stdout_sink :: "(pyval \<Rightarrow> string) \<Rightarrow> stdout_state sink" where
  "stdout_sink rend =
     \<lparr>sk_send = (\<lambda>e s. case stdout_line rend e of
        Inl x \<Rightarrow> (Inl x, s)
      | Inr line \<Rightarrow> (Inr (), s\<lparr>so_out := so_out s @ line, so_sent := so_sent s + 1\<rparr>)),
      sk_sleep = (\<lambda>pause s. (time_sleep pause (next_of (so_sleeps s)), s\<lparr>so_sleeps := tl (so_sleeps s)\<rparr>)),
      sk_close = (\<lambda>s. (Inr (), s))\<rparr>"

record kafka_state =
  ks_transport :: transport
  ks_sends :: "(exn option \<times> (nat \<times> exn option) list) list"
  ks_sleeps :: "exn option list"
  ks_final :: "(nat \<times> exn option) list"

definition kafka_sink :: "(pyval \<Rightarrow> string) \<Rightarrow> serializers \<Rightarrow> kafka_state sink" where
  "kafka_sink rend sers =
     \<lparr>sk_send = (\<lambda>e s.
        (let (refused, reports) = (case ks_sends s of [] \<Rightarrow> (None, []) | x # _ \<Rightarrow> x);
             (r, t) = send rend sers e refused reports (ks_transport s)
         in (r, s\<lparr>ks_transport := t, ks_sends := tl (ks_sends s)\<rparr>))),
      sk_sleep = (\<lambda>pause s. (time_sleep pause (next_of (ks_sleeps s)), s\<lparr>ks_sleeps := tl (ks_sleeps s)\<rparr>)),
      sk_close = (\<lambda>s. (Inr (), s\<lparr>ks_transport := snd (transport_close (ks_final s) (ks_transport s))\<rparr>))\<rparr>"

section \<open>What a sink is told\<close>

text \<open>\<open>told xs s\<close>: the sink in state \<open>s\<close> has accepted the events \<open>xs\<close>.\<close>

locale event_sink =
  fixes sk :: "'s sink" and told :: "source_event list \<Rightarrow> 's \<Rightarrow> bool"
  assumes accepts: "told xs s \<Longrightarrow> sk_send sk e s = (Inr (), s') \<Longrightarrow> told (xs @ [e]) s'"
    and refuses: "told xs s \<Longrightarrow> sk_send sk e s = (Inl x, s') \<Longrightarrow> told xs s'"
    and sleeps: "told xs s \<Longrightarrow> sk_sleep sk p s = (r, s') \<Longrightarrow> told xs s'"
begin

lemma batch_told:
  "told xs s \<Longrightarrow> send_batch sk es n s = (r, n', s') \<Longrightarrow>
     \<exists>k \<le> length es. n' = n + k \<and> told (xs @ take k es) s' \<and> (r = Inr () \<longrightarrow> k = length es)"
proof (induction es arbitrary: xs n s)
  case (Cons e es)
  obtain r1 s1 where s1: "sk_send sk e s = (r1, s1)" by fastforce
  show ?case
  proof (cases r1)
    case (Inl x)
    with Cons.prems s1 refuses [OF Cons.prems(1), of e x s1] show ?thesis by auto
  next
    case (Inr u)
    then have "told (xs @ [e]) s1" "send_batch sk es (n + 1) s1 = (r, n', s')"
      using Cons.prems s1 accepts [OF Cons.prems(1), of e s1] by auto
    from Cons.IH [OF this] obtain k where "k \<le> length es" "n' = n + 1 + k" "told (xs @ [e] @ take k es) s'"
      "r = Inr () \<longrightarrow> k = length es" by auto
    then show ?thesis by (intro exI [of _ "Suc k"]) auto
  qed
qed simp

lemma pace_told: "told xs s \<Longrightarrow> pace sk p s = (r, s') \<Longrightarrow> told xs s'"
  using sleeps by (auto simp: pace_def split: if_splits)

lemma loop_told:
  assumes "told xs s" "run_ticks env n ck sim i = Some (Inr (bs, ck', sim', i'))"
  shows "\<exists>r k s'. main_loop sk pause env n ck sim i m s = Some (r, m + k, s') \<and> k \<le> length (stream bs)
    \<and> told (xs @ take k (stream bs)) s' \<and> (r = Inr () \<longrightarrow> k = length (stream bs))"
  using assms
proof (induction n arbitrary: ck sim i bs xs m s)
  case (Suc n)
  obtain batch sim1 i1 bs1 where t: "sim_tick env (now_ms ck) sim i = Some (Inr (batch, sim1, i1))"
    and rest: "run_ticks env n (advance_clock ck) sim1 i1 = Some (Inr (bs1, ck', sim', i'))"
    and bs: "bs = (now_ms ck, batch) # bs1"
    using Suc.prems(2) by (auto simp: rbind_eq_Inr split: option.splits sum.splits)
  obtain r1 m1 s1 where b: "send_batch sk batch m s = (r1, m1, s1)" by (metis prod_cases3)
  from batch_told [OF Suc.prems(1) b] obtain k where k: "k \<le> length batch" "m1 = m + k" "told (xs @ take k batch) s1"
    "r1 = Inr () \<longrightarrow> k = length batch" by blast
  show ?case
  proof (cases r1)
    case (Inl e)
    with t b k show ?thesis by (auto simp: bs intro!: exI [of _ k])
  next
    case (Inr u)
    with k have full: "k = length batch" "told (xs @ batch) s1" by auto
    obtain r2 s2 where p: "pace sk pause s1 = (r2, s2)" by fastforce
    note told2 = pace_told [OF full(2) p]
    show ?thesis
    proof (cases r2)
      case (Inl e)
      with t b p k full Inr told2 show ?thesis by (auto simp: bs intro!: exI [of _ k])
    next
      case Inr2: (Inr u2)
      from Suc.IH [OF told2 rest, of m1] obtain r j s' where
        "main_loop sk pause env n (advance_clock ck) sim1 i1 m1 s2 = Some (r, m1 + j, s')" "j \<le> length (stream bs1)"
        "told ((xs @ batch) @ take j (stream bs1)) s'" "r = Inr () \<longrightarrow> j = length (stream bs1)" by blast
      with t b p k full Inr Inr2 show ?thesis by (intro exI [of _ r] exI [of _ "k + j"] exI [of _ s']) (auto simp: bs)
    qed
  qed
qed simp

end

section \<open>The two sinks\<close>

definition kafka_told :: "(pyval \<Rightarrow> string) \<Rightarrow> serializers \<Rightarrow> source_event list \<Rightarrow> kafka_state \<Rightarrow> bool" where
  "kafka_told rend sers xs s \<longleftrightarrow>
     transport_inv (\<lambda>q. \<exists>e \<in> set xs. carries rend sers e q) (length xs) (ks_transport s)"

definition stdout_told :: "(pyval \<Rightarrow> string) \<Rightarrow> source_event list \<Rightarrow> stdout_state \<Rightarrow> bool" where
  "stdout_told rend xs s \<longleftrightarrow>
     (\<exists>lines. rmap (stdout_line rend) xs = Inr lines \<and> so_out s = concat lines \<and> so_sent s = length xs)"

lemma rmap_snoc: "rmap f (xs @ [x]) = rbind (rmap f xs) (\<lambda>ys. rbind (f x) (\<lambda>y. Inr (ys @ [y])))"
  by (induction xs) (auto simp: rbind_def split: sum.split)

lemma send_refused:
  assumes "send rend sers e refused reports t = (Inl x, t')"
  shows "\<exists>c. t' = t\<lparr>tr_corrupted := c\<rparr>"
proof -
  have keep: "\<exists>c. u = u\<lparr>tr_corrupted := c\<rparr>" for u :: transport by (rule exI [of _ "tr_corrupted u"]) simp
  with assms show ?thesis
    by (auto simp: send_def Let_def split: sum.splits option.splits if_splits)
qed

lemma kafka_sent:
  assumes "sk_send (kafka_sink rend sers) e s = (r, s')"
  obtains refused reports where "send rend sers e refused reports (ks_transport s) = (r, ks_transport s')"
proof -
  obtain refused reports where x: "(case ks_sends s of [] \<Rightarrow> (None, []) | x # _ \<Rightarrow> x) = (refused, reports)" by fastforce
  obtain r1 t where t: "send rend sers e refused reports (ks_transport s) = (r1, t)" by fastforce
  have "send rend sers e refused reports (ks_transport s) = (r, ks_transport s')"
    using assms t by (auto simp: kafka_sink_def x)
  then show thesis by (rule that)
qed

interpretation kafka: event_sink "kafka_sink rend sers" "kafka_told rend sers" for rend sers
proof
  fix xs s e s'
  assume told: "kafka_told rend sers xs s"
  { assume "sk_send (kafka_sink rend sers) e s = (Inr (), s')"
    then obtain refused reports where t: "send rend sers e refused reports (ks_transport s) = (Inr (), ks_transport s')"
      by (rule kafka_sent)
    have "transport_inv (\<lambda>q. \<exists>e \<in> set (xs @ [e]). carries rend sers e q) (length xs) (ks_transport s)"
      by (rule transport_inv_mono [OF told [unfolded kafka_told_def]]) auto
    from send_inv [OF this _ t] show "kafka_told rend sers (xs @ [e]) s'" by (auto simp: kafka_told_def) }
  { fix x assume "sk_send (kafka_sink rend sers) e s = (Inl x, s')"
    then obtain refused reports where t: "send rend sers e refused reports (ks_transport s) = (Inl x, ks_transport s')"
      by (rule kafka_sent)
    from send_refused [OF t] told show "kafka_told rend sers xs s'"
      by (auto simp: kafka_told_def transport_inv_def) }
  { fix p r assume "sk_sleep (kafka_sink rend sers) p s = (r, s')"
    with told show "kafka_told rend sers xs s'" by (auto simp: kafka_sink_def kafka_told_def) }
qed

interpretation stdout: event_sink "stdout_sink rend" "stdout_told rend" for rend
  by unfold_locales (auto simp: stdout_sink_def stdout_told_def rmap_snoc split: sum.splits)

section \<open>The program\<close>

lemma config_from_args_ok: "gen_config_ok (config_from_args args)"
  using default_config_ok by (simp add: config_from_args_def Let_def gen_config_ok_def perfect_def default_config_def)

definition ticks_of :: "gen_args \<Rightarrow> nat" where
  "ticks_of args = nat (max (trunc (ga_duration args * ga_speed args)) 1)"

lemma ticks_for_args: "ticks_for (config_from_args args) = Inr (max (trunc (ga_duration args * ga_speed args)) 1)"
  by (simp add: ticks_for_def config_from_args_def Let_def perfect_def default_config_def)

lemma speed_of_args: "speed (config_from_args args) = ga_speed args"
  by (simp add: config_from_args_def Let_def perfect_def)

text \<open>A run to a sink, when the pause can be computed and the sink can be made.\<close>

lemma main_runs:
  assumes "rng_laws R" "ga_speed args \<noteq> 0 \<or> ga_no_pace args" "made = Inr s0"
  obtains pause env sim i bs ck sim' i' where
    "simulate_ticks R crc32 now_us (config_from_args args) (ticks_of args) (ga_anchor args) = Some (Inr (bs, ck, sim', i'))"
    "run_ticks env (ticks_of args) \<lparr>ck_anchor_ms = anchor_of now_us (config_from_args args),
        ck_tick_ms = tick_ms (config_from_args args), ck_ticks = 0\<rparr> sim i = Some (Inr (bs, ck, sim', i'))"
    "generator_main R crc32 now_us args sk made = (case main_loop sk pause env (ticks_of args)
        \<lparr>ck_anchor_ms = anchor_of now_us (config_from_args args), ck_tick_ms = tick_ms (config_from_args args), ck_ticks = 0\<rparr>
        sim i 0 s0 of None \<Rightarrow> None | Some out \<Rightarrow> Some (Inr (close_sink sk out)))"
    "pause_of args (config_from_args args) = Inr pause"
proof -
  let ?cfg = "config_from_args args" and ?anchor = "anchor_of now_us (config_from_args args)"
  obtain env sim i where b: "build_simulator R crc32 ?cfg ?anchor = (env, sim, i)" using prod_cases3 by blast
  obtain bs ck sim' i' where r: "simulate_ticks R crc32 now_us ?cfg (ticks_of args) (Some ?anchor) = Some (Inr (bs, ck, sim', i'))"
    by (rule simulate_ok [OF assms(1) config_from_args_ok b, where n = "ticks_of args" and now_us = now_us]) blast
  obtain pause where p: "pause_of args ?cfg = Inr pause"
    using assms(2) by (cases "ga_no_pace args") (auto simp: pause_of_def speed_of_args)
  have "cfg_anchor_ms ?cfg = ga_anchor args" by (simp add: config_from_args_def Let_def perfect_def)
  then have "simulate_ticks R crc32 now_us ?cfg (ticks_of args) (ga_anchor args)
      = simulate_ticks R crc32 now_us ?cfg (ticks_of args) (Some ?anchor)"
    by (auto simp: simulate_ticks_def anchor_of_def Let_def split: option.split)
  moreover have "run_ticks env (ticks_of args) \<lparr>ck_anchor_ms = ?anchor, ck_tick_ms = tick_ms ?cfg, ck_ticks = 0\<rparr> sim i
      = Some (Inr (bs, ck, sim', i'))"
    using r b by (simp add: simulate_ticks_def)
  moreover have "generator_main R crc32 now_us args sk made = (case main_loop sk pause env (ticks_of args)
        \<lparr>ck_anchor_ms = ?anchor, ck_tick_ms = tick_ms ?cfg, ck_ticks = 0\<rparr> sim i 0 s0 of
          None \<Rightarrow> None | Some out \<Rightarrow> Some (Inr (close_sink sk out)))"
    by (simp add: generator_main_def Let_def ticks_for_args p assms(3) b ticks_of_def)
  ultimately show thesis using that [OF _ _ _ p] r by simp
qed

definition broker_carries :: "(pyval \<Rightarrow> string) \<Rightarrow> serializers \<Rightarrow> source_event list \<Rightarrow> transport \<Rightarrow> bool" where
  "broker_carries rend sers xs t \<longleftrightarrow> (\<forall>q \<in> set (tr_broker t). \<exists>e \<in> set xs. carries rend sers e q)"



text \<open>To standard output, the lines of a prefix of the stream are printed, as many as are counted.\<close>

lemma stdout_prints_prefix:
  assumes "rng_laws R" "ga_speed args \<noteq> 0 \<or> ga_no_pace args"
  shows "\<exists>bs ck sim i r k s lines.
      simulate_ticks R crc32 now_us (config_from_args args) (ticks_of args) (ga_anchor args) = Some (Inr (bs, ck, sim, i))
    \<and> generator_main R crc32 now_us args (stdout_sink rend) (Inr \<lparr>so_out = [], so_sent = 0, so_sleeps = pauses\<rparr>)
        = Some (Inr (r, k, s))
    \<and> k \<le> length (stream bs) \<and> rmap (stdout_line rend) (take k (stream bs)) = Inr lines \<and> so_out s = concat lines
    \<and> so_sent s = k"
proof -
  let ?s0 = "\<lparr>so_out = [], so_sent = 0, so_sleeps = pauses\<rparr>"
  obtain pause env sim i bs ck sim' i' where
    r: "simulate_ticks R crc32 now_us (config_from_args args) (ticks_of args) (ga_anchor args) = Some (Inr (bs, ck, sim', i'))"
    and run: "run_ticks env (ticks_of args) \<lparr>ck_anchor_ms = anchor_of now_us (config_from_args args),
        ck_tick_ms = tick_ms (config_from_args args), ck_ticks = 0\<rparr> sim i = Some (Inr (bs, ck, sim', i'))"
    and main: "generator_main R crc32 now_us args (stdout_sink rend) (Inr ?s0) = (case main_loop (stdout_sink rend) pause env (ticks_of args)
        \<lparr>ck_anchor_ms = anchor_of now_us (config_from_args args), ck_tick_ms = tick_ms (config_from_args args), ck_ticks = 0\<rparr>
        sim i 0 ?s0 of None \<Rightarrow> None | Some out \<Rightarrow> Some (Inr (close_sink (stdout_sink rend) out)))"
    by (rule main_runs [OF assms refl, where ?crc32.0 = crc32 and now_us = now_us and sk = "stdout_sink rend"])
  have "stdout_told rend [] ?s0" by (simp add: stdout_told_def)
  from stdout.loop_told [OF this run, of pause 0] obtain res k s where
    l: "main_loop (stdout_sink rend) pause env (ticks_of args) \<lparr>ck_anchor_ms = anchor_of now_us (config_from_args args),
        ck_tick_ms = tick_ms (config_from_args args), ck_ticks = 0\<rparr> sim i 0 ?s0 = Some (res, k, s)"
    "k \<le> length (stream bs)" "stdout_told rend (take k (stream bs)) s" by auto
  then obtain lines where "rmap (stdout_line rend) (take k (stream bs)) = Inr lines" "so_out s = concat lines" "so_sent s = k"
    by (auto simp: stdout_told_def)
  moreover have "sk_close (stdout_sink rend) s = (Inr (), s)" by (simp add: stdout_sink_def)
  then obtain x where "generator_main R crc32 now_us args (stdout_sink rend) (Inr ?s0) = Some (Inr (x, k, s))"
    by (simp add: main l(1) close_sink_def)
  ultimately show ?thesis using r l(2) by blast
qed

lemma zero_speed_needs_no_pace:
  "generator_main R crc32 now_us (args\<lparr>ga_speed := 0, ga_no_pace := False\<rparr>) sk made
     = Some (Inl (Exn ''ZeroDivisionError'' ''float division by zero''))"
  by (simp add: generator_main_def Let_def ticks_for_args pause_of_def speed_of_args)

end
