(* ===== verification/Reset_Platform.thy ===== *)
theory Reset_Platform
  imports Topics Pg_Sink
begin

text \<open>
  \<open>scripts/reset_platform.py\<close>: back to a blank slate. The broker and the clock are a parameter, a
  record of the calls the script makes; each call takes the state \<open>'w\<close> of the world and returns the
  answer (or the exception) and the next state. The waits are loops on the monotonic clock, so they
  are partial functions to an option; that they return is a theorem about every clock that
  \<open>time.sleep\<close> moves forward. The sets of the script are lists in the order of insertion.
\<close>

type_synonym topic_meta = "(string, (int \<times> int) list) dict"

record 'w broker =
  br_now :: "'w \<Rightarrow> real \<times> 'w"
  br_sleep :: "real \<Rightarrow> 'w \<Rightarrow> 'w"
  br_list_topics :: "'w \<Rightarrow> (exn + topic_meta) \<times> 'w"
  br_delete_topics :: "string list \<Rightarrow> 'w \<Rightarrow> (exn + (string \<times> exn option) list) \<times> 'w"
  br_create_topics :: "(string, int) dict \<Rightarrow> 'w \<Rightarrow> (exn + (string \<Rightarrow> string option)) \<times> 'w"
  br_list_groups :: "'w \<Rightarrow> (exn + string list) \<times> 'w"
  br_delete_groups :: "string list \<Rightarrow> 'w \<Rightarrow> (exn + (string \<times> exn option) list) \<times> 'w"

definition RAW_TABLES :: "string list" where
  "RAW_TABLES = [''raw.rides_events'', ''raw.ride_sessions'', ''raw.payments_transactions'', ''raw.driver_locations'']"

section \<open>Topics\<close>

text \<open>\<open>ensure_topics\<close> as a call: its metadata request, its creation request, its futures.\<close>

definition ensure_topics_call :: "'w broker \<Rightarrow> 'w \<Rightarrow> (exn + unit) \<times> 'w" where
  "ensure_topics_call B w =
     (case br_list_topics B w of
        (Inl e, w) \<Rightarrow> (Inl e, w)
      | (Inr meta, w) \<Rightarrow>
          (let missing = fst (ensure_topics None (map fst meta) (\<lambda>_. None)) in
           if missing = [] then (Inr (), w)
           else case br_create_topics B missing w of
                  (Inl e, w) \<Rightarrow> (Inl e, w)
                | (Inr outcome, w) \<Rightarrow> (snd (ensure_topics None (map fst meta) outcome), w)))"

text \<open>\<open>future.result()\<close> of each future: the first exception ends the loop.\<close>

fun await_all :: "('k \<times> exn option) list \<Rightarrow> exn + unit" where
  "await_all [] = Inr ()"
| "await_all ((k, None) # fs) = await_all fs"
| "await_all ((k, Some e) # fs) = Inl e"

definition platform_left :: "topic_meta \<Rightarrow> bool" where
  "platform_left meta \<longleftrightarrow> list_ex (\<lambda>t. t \<in> set (map fst TOPIC_PARTITIONS)) (map fst meta)"

partial_function (option) wait_until_gone :: "'w broker \<Rightarrow> real \<Rightarrow> 'w \<Rightarrow> ((exn + unit) \<times> 'w) option" where
  "wait_until_gone B deadline w =
     (case br_now B w of (t, w) \<Rightarrow>
        if t < deadline then
          (case br_list_topics B w of
             (Inl e, w) \<Rightarrow> Some (Inl e, w)
           | (Inr meta, w) \<Rightarrow>
               if \<not> platform_left meta then Some (Inr (), w)
               else wait_until_gone B deadline (br_sleep B (1 / 2) w))
        else Some (Inr (), w))"

definition delete_and_recreate :: "'w broker \<Rightarrow> 'w \<Rightarrow> ((exn + unit) \<times> 'w) option" where
  "delete_and_recreate B w =
     (case br_list_topics B w of
        (Inl e, w) \<Rightarrow> Some (Inl e, w)
      | (Inr meta, w) \<Rightarrow>
          (let doomed = filter (\<lambda>t. t \<in> set (map fst meta)) (map fst TOPIC_PARTITIONS);
               (deleted, w) =
                 (if doomed = [] then (Inr (), w)
                  else case br_delete_topics B doomed w of
                         (Inl e, w) \<Rightarrow> (Inl e, w)
                       | (Inr futures, w) \<Rightarrow> (await_all futures, w))
           in case deleted of
                Inl e \<Rightarrow> Some (Inl e, w)
              | Inr _ \<Rightarrow>
                  (case br_now B w of (t, w) \<Rightarrow>
                     (case wait_until_gone B (t + 30) w of
                        None \<Rightarrow> None
                      | Some (Inl e, w) \<Rightarrow> Some (Inl e, w)
                      | Some (Inr _, w) \<Rightarrow> Some (ensure_topics_call B w)))))"

definition topic_ready :: "topic_meta \<Rightarrow> string \<times> int \<Rightarrow> bool" where
  "topic_ready meta item \<longleftrightarrow>
     (case map_of meta (fst item) of
        None \<Rightarrow> False
      | Some partitions \<Rightarrow> int (length partitions) = snd item \<and> \<not> list_ex (\<lambda>(p, leader). leader < 0) partitions)"

definition platform_ready :: "topic_meta \<Rightarrow> bool" where
  "platform_ready meta \<longleftrightarrow> list_all (topic_ready meta) TOPIC_PARTITIONS"

partial_function (option) leaders_loop :: "'w broker \<Rightarrow> real \<Rightarrow> 'w \<Rightarrow> ((exn + unit) \<times> 'w) option" where
  "leaders_loop B deadline w =
     (case br_now B w of (t, w) \<Rightarrow>
        if t < deadline then
          (case br_list_topics B w of
             (Inl e, w) \<Rightarrow> Some (Inl e, w)
           | (Inr meta, w) \<Rightarrow>
               if platform_ready meta then Some (Inr (), w)
               else leaders_loop B deadline (br_sleep B (1 / 2) w))
        else Some (Inl (RuntimeError ''topics recreated but leaders not ready within 30s''), w))"

definition wait_for_leaders :: "'w broker \<Rightarrow> 'w \<Rightarrow> ((exn + unit) \<times> 'w) option" where
  "wait_for_leaders B w = (case br_now B w of (t, w) \<Rightarrow> leaders_loop B (t + 30) w)"

fun reset_topics :: "'w broker \<Rightarrow> nat \<Rightarrow> 'w \<Rightarrow> ((exn + unit) \<times> 'w) option" where
  "reset_topics B 0 w = Some (Inl (RuntimeError ''topic reset failed''), w)"
| "reset_topics B (Suc attempts) w =
     (case delete_and_recreate B w of
        None \<Rightarrow> None
      | Some (Inl e, w) \<Rightarrow> Some (Inl e, w)
      | Some (Inr _, w) \<Rightarrow>
          (case wait_for_leaders B w of
             None \<Rightarrow> None
           | Some (Inr _, w) \<Rightarrow> Some (Inr (), w)
           | Some (Inl e, w) \<Rightarrow>
               if exn_type e = ''RuntimeError'' then reset_topics B attempts w else Some (Inl e, w)))"

section \<open>Consumer groups\<close>

text \<open>The futures of a round: who is still there, or the exception that is not a zombie's.\<close>

fun group_futures :: "(string \<times> exn option) list \<Rightarrow> string list \<Rightarrow> exn + string list" where
  "group_futures [] remaining = Inr remaining"
| "group_futures ((g, None) # fs) remaining = group_futures fs (removeAll g remaining)"
| "group_futures ((g, Some e) # fs) remaining =
     (if contains_text ''NON_EMPTY_GROUP'' (exn_text e) then group_futures fs remaining
      else Inl (RuntimeError (''cannot delete consumer group '' @ g @ '': '' @ exn_text e)))"

partial_function (option) groups_loop :: "'w broker \<Rightarrow> real \<Rightarrow> string list \<Rightarrow> 'w \<Rightarrow> ((exn + unit) \<times> 'w) option" where
  "groups_loop B deadline remaining w =
     (if remaining = [] then Some (Inr (), w)
      else case br_now B w of (t, w) \<Rightarrow>
        if t < deadline then
          (case br_list_groups B w of (listed, w) \<Rightarrow>
             (let known = (case listed of Inl _ \<Rightarrow> [] | Inr gs \<Rightarrow> gs);
                  remaining = filter (\<lambda>g. g \<in> set known) remaining
              in if remaining = [] then Some (Inr (), w)
                 else case br_delete_groups B remaining w of
                        (Inl e, w) \<Rightarrow> Some (Inl e, w)
                      | (Inr futures, w) \<Rightarrow>
                          (case group_futures futures remaining of
                             Inl e \<Rightarrow> Some (Inl e, w)
                           | Inr remaining \<Rightarrow>
                               groups_loop B deadline remaining
                                 (if remaining \<noteq> [] then br_sleep B 3 w else w))))
        else Some (Inl (RuntimeError ''groups still not deletable''), w))"

definition reset_groups :: "'w broker \<Rightarrow> string list \<Rightarrow> real \<Rightarrow> 'w \<Rightarrow> ((exn + unit) \<times> 'w) option" where
  "reset_groups B groups wait_sec w =
     (case br_now B w of (t, w) \<Rightarrow> groups_loop B (t + wait_sec) (remdups groups) w)"

section \<open>Postgres and the state directory\<close>

abbreviation UndefinedTable :: "string \<Rightarrow> exn" where "UndefinedTable \<equiv> Exn ''UndefinedTable''"

text \<open>One transaction: \<open>tables\<close> are the relations that exist. An exception leaves it uncommitted.\<close>

definition truncate_table :: "string list \<Rightarrow> string \<Rightarrow> pgdb \<Rightarrow> exn + pgdb" where
  "truncate_table tables t db =
     (if t \<notin> set tables then Inl (UndefinedTable t)
      else if t = ''serving.consumer_offsets'' then Inr (db\<lparr>pg_offsets := []\<rparr>)
      else Inr (db\<lparr>pg_rows := (pg_rows db)(t := [])\<rparr>))"

definition reset_postgres :: "string list \<Rightarrow> pgdb \<Rightarrow> (exn + unit) \<times> pgdb" where
  "reset_postgres tables db =
     (case rbind (rfold (truncate_table tables) RAW_TABLES db) (truncate_table tables ''serving.consumer_offsets'') of
        Inl e \<Rightarrow> (Inl e, db)
      | Inr db' \<Rightarrow> (Inr (), db'))"

text \<open>A file system: what a path is.\<close>

datatype fs_entry = Dir | File

type_synonym file_system = "string \<Rightarrow> fs_entry option"

definition path_below :: "string \<Rightarrow> string \<Rightarrow> bool" where
  "path_below path p \<longleftrightarrow> p = path \<or> take (length path + 1) p = path @ ''/''"

definition mkdir_parents :: "string \<Rightarrow> file_system \<Rightarrow> exn + file_system" where
  "mkdir_parents path fs =
     (let ancestors = filter (\<lambda>d. d \<noteq> [] \<and> path_below d path) (map (\<lambda>n. take n path) [0..<Suc (length path)]) in
      if list_ex (\<lambda>d. fs d = Some File) ancestors then Inl (Exn ''FileExistsError'' path)
      else Inr (\<lambda>p. if p \<in> set ancestors then Some Dir else fs p))"

definition reset_state_dir :: "string \<Rightarrow> file_system \<Rightarrow> exn + file_system" where
  "reset_state_dir path fs =
     rbind (case fs path of
              None \<Rightarrow> Inr fs
            | Some File \<Rightarrow> Inl (Exn ''NotADirectoryError'' path)
            | Some Dir \<Rightarrow> Inr (\<lambda>p. if path_below path p then None else fs p))
       (mkdir_parents path)"

section \<open>Everything\<close>

record 'w plat =
  pl_world :: 'w
  pl_db :: pgdb
  pl_fs :: file_system

definition reset_all :: "'w broker \<Rightarrow> string list \<Rightarrow> string \<Rightarrow> 'w plat \<Rightarrow> ((exn + unit) \<times> 'w plat) option" where
  "reset_all B tables state_dir p =
     (case reset_groups B [''sessionizer'', ''pg-sink''] 90 (pl_world p) of
        None \<Rightarrow> None
      | Some (Inl e, w) \<Rightarrow> Some (Inl e, p\<lparr>pl_world := w\<rparr>)
      | Some (Inr _, w) \<Rightarrow>
          (case reset_topics B 3 w of
             None \<Rightarrow> None
           | Some (Inl e, w) \<Rightarrow> Some (Inl e, p\<lparr>pl_world := w\<rparr>)
           | Some (Inr _, w) \<Rightarrow>
               (case reset_postgres tables (pl_db p) of
                  (r, db) \<Rightarrow>
                    (let p = p\<lparr>pl_world := w, pl_db := db\<rparr> in
                     case (case r of Inl e \<Rightarrow> if exn_type e = ''UndefinedTable'' then Inr () else Inl e | Inr u \<Rightarrow> Inr u) of
                       Inl e \<Rightarrow> Some (Inl e, p)
                     | Inr _ \<Rightarrow>
                         (case reset_state_dir state_dir (pl_fs p) of
                            Inl e \<Rightarrow> Some (Inl e, p)
                          | Inr fs \<Rightarrow> Some (Inr (), p\<lparr>pl_fs := fs\<rparr>))))))"

section \<open>What is relied on\<close>

text \<open>
  A quiet platform: \<open>time\<close> is the monotonic clock, \<open>groups\<close> the broker's consumer groups, \<open>kept\<close> the
  number of messages it keeps of a topic. Between the script's calls the clock does not go back, no
  group appears and no message is produced (\<open>quiet\<close>); sleeping moves the clock on; answers are true; a deletion that
  succeeds deletes.
\<close>

record 'w platform_view =
  ob_time :: "'w \<Rightarrow> real"
  ob_groups :: "'w \<Rightarrow> string set"
  ob_kept :: "'w \<Rightarrow> string \<Rightarrow> nat"

definition quiet :: "'w platform_view \<Rightarrow> 'w \<Rightarrow> 'w \<Rightarrow> bool" where
  "quiet ob w w' \<longleftrightarrow> ob_time ob w \<le> ob_time ob w' \<and> ob_groups ob w' \<subseteq> ob_groups ob w
     \<and> (\<forall>t. ob_kept ob w' t \<le> ob_kept ob w t)"

definition broker_laws :: "'w broker \<Rightarrow> 'w platform_view \<Rightarrow> bool" where
  "broker_laws B ob \<longleftrightarrow>
     (\<forall>w t w'. br_now B w = (t, w') \<longrightarrow> quiet ob w w' \<and> t = ob_time ob w')
     \<and> (\<forall>s w. 0 \<le> s \<longrightarrow> quiet ob w (br_sleep B s w) \<and> ob_time ob w + s \<le> ob_time ob (br_sleep B s w))
     \<and> (\<forall>w r w'. br_list_topics B w = (r, w') \<longrightarrow> quiet ob w w'
          \<and> (\<forall>meta t. r = Inr meta \<longrightarrow> t \<notin> set (map fst meta) \<longrightarrow> ob_kept ob w' t = 0))
     \<and> (\<forall>ts w r w'. br_delete_topics B ts w = (r, w') \<longrightarrow> quiet ob w w'
          \<and> (\<forall>fs. r = Inr fs \<longrightarrow> map fst fs = ts \<and> (\<forall>t. (t, None) \<in> set fs \<longrightarrow> ob_kept ob w' t = 0)))
     \<and> (\<forall>ts w r w'. br_create_topics B ts w = (r, w') \<longrightarrow> quiet ob w w')
     \<and> (\<forall>w r w'. br_list_groups B w = (r, w') \<longrightarrow> quiet ob w w' \<and> (\<forall>gs. r = Inr gs \<longrightarrow> ob_groups ob w' \<subseteq> set gs))
     \<and> (\<forall>gs w r w'. br_delete_groups B gs w = (r, w') \<longrightarrow> quiet ob w w'
          \<and> (\<forall>fs. r = Inr fs \<longrightarrow> map fst fs = gs \<and> (\<forall>g. (g, None) \<in> set fs \<longrightarrow> g \<notin> ob_groups ob w')))"

lemma quiet_refl [simp]: "quiet ob w w"
  by (simp add: quiet_def)

lemma quiet_trans: "quiet ob a b \<Longrightarrow> quiet ob b c \<Longrightarrow> quiet ob a c"
  unfolding quiet_def by (meson order_trans)

lemma quietD:
  assumes "quiet ob w w'"
  shows "ob_time ob w \<le> ob_time ob w'" "g \<notin> ob_groups ob w \<Longrightarrow> g \<notin> ob_groups ob w'"
    "ob_kept ob w t = 0 \<Longrightarrow> ob_kept ob w' t = 0"
proof -
  show "ob_time ob w \<le> ob_time ob w'" using assms by (simp add: quiet_def)
  show "g \<notin> ob_groups ob w \<Longrightarrow> g \<notin> ob_groups ob w'" using assms unfolding quiet_def by blast
  show "ob_kept ob w t = 0 \<Longrightarrow> ob_kept ob w' t = 0" using assms unfolding quiet_def by (metis le_zero_eq)
qed

lemma broker_lawsD:
  assumes "broker_laws B ob"
  shows "br_now B w = (x, w') \<Longrightarrow> quiet ob w w' \<and> x = ob_time ob w'"
    "0 \<le> s \<Longrightarrow> quiet ob w (br_sleep B s w) \<and> ob_time ob w + s \<le> ob_time ob (br_sleep B s w)"
    "br_list_topics B w = (r, w') \<Longrightarrow> quiet ob w w'"
    "br_list_topics B w = (Inr meta, w') \<Longrightarrow> t \<notin> set (map fst meta) \<Longrightarrow> ob_kept ob w' t = 0"
    "br_delete_topics B ts w = (d, w') \<Longrightarrow> quiet ob w w'"
    "br_delete_topics B ts w = (Inr fs, w') \<Longrightarrow> map fst fs = ts \<and> (\<forall>t. (t, None) \<in> set fs \<longrightarrow> ob_kept ob w' t = 0)"
    "br_create_topics B wanted w = (c, w') \<Longrightarrow> quiet ob w w'"
    "br_list_groups B w = (l, w') \<Longrightarrow> quiet ob w w'"
    "br_list_groups B w = (Inr gs, w') \<Longrightarrow> ob_groups ob w' \<subseteq> set gs"
    "br_delete_groups B gs w = (d, w') \<Longrightarrow> quiet ob w w'"
    "br_delete_groups B gs w = (Inr fs, w') \<Longrightarrow> map fst fs = gs \<and> (\<forall>g. (g, None) \<in> set fs \<longrightarrow> g \<notin> ob_groups ob w')"
  using assms unfolding broker_laws_def by (elim conjE, metis)+

section \<open>The waits return\<close>

text \<open>With \<open>n\<close> half seconds to go, both waits return.\<close>

lemma wait_until_gone_returns:
  assumes "broker_laws B ob" "deadline - ob_time ob w < real n / 2"
  shows "\<exists>r w'. wait_until_gone B deadline w = Some (r, w') \<and> quiet ob w w'"
  using assms(2)
proof (induction n arbitrary: w)
  case 0
  obtain t w1 where n: "br_now B w = (t, w1)" by fastforce
  note q = broker_lawsD(1) [OF assms(1) n]
  with 0 quietD(1) [of ob w w1] have "\<not> t < deadline" by auto
  with n q show ?case by (subst wait_until_gone.simps) simp
next
  case (Suc n)
  obtain t w1 where n: "br_now B w = (t, w1)" by fastforce
  note q = broker_lawsD(1) [OF assms(1) n]
  obtain r w2 where l: "br_list_topics B w1 = (r, w2)" by fastforce
  note q2 = quiet_trans [OF conjunct1 [OF q] broker_lawsD(3) [OF assms(1) l]]
  have s: "quiet ob w2 (br_sleep B (1 / 2) w2)" "ob_time ob w2 + 1 / 2 \<le> ob_time ob (br_sleep B (1 / 2) w2)"
    using broker_lawsD(2) [OF assms(1), of "1 / 2" w2] by simp_all
  have "deadline - ob_time ob (br_sleep B (1 / 2) w2) < real n / 2"
    using Suc.prems s(2) quietD(1) [OF q2] by simp
  from Suc.IH [OF this] obtain r' w' where "wait_until_gone B deadline (br_sleep B (1 / 2) w2) = Some (r', w')"
    "quiet ob (br_sleep B (1 / 2) w2) w'" by blast
  with n q l q2 s quiet_trans show ?case
    by (subst wait_until_gone.simps) (auto split: sum.split intro: quiet_trans)
qed

text \<open>The second one, when it succeeds, has just seen every topic with its partitions and leaders.\<close>

definition saw_ready :: "'w broker \<Rightarrow> 'w \<Rightarrow> bool" where
  "saw_ready B w' \<longleftrightarrow> (\<exists>w meta. br_list_topics B w = (Inr meta, w') \<and> platform_ready meta)"

lemma leaders_loop_returns:
  assumes "broker_laws B ob" "deadline - ob_time ob w < real n / 2"
  shows "\<exists>r w'. leaders_loop B deadline w = Some (r, w') \<and> quiet ob w w' \<and> (r = Inr () \<longrightarrow> saw_ready B w')"
  using assms(2)
proof (induction n arbitrary: w)
  case 0
  obtain t w1 where n: "br_now B w = (t, w1)" by fastforce
  note q = broker_lawsD(1) [OF assms(1) n]
  with 0 quietD(1) [of ob w w1] have "\<not> t < deadline" by auto
  with n q show ?case by (subst leaders_loop.simps) simp
next
  case (Suc n)
  obtain t w1 where n: "br_now B w = (t, w1)" by fastforce
  note q = broker_lawsD(1) [OF assms(1) n]
  obtain r w2 where l: "br_list_topics B w1 = (r, w2)" by fastforce
  note q2 = quiet_trans [OF conjunct1 [OF q] broker_lawsD(3) [OF assms(1) l]]
  have s: "quiet ob w2 (br_sleep B (1 / 2) w2)" "ob_time ob w2 + 1 / 2 \<le> ob_time ob (br_sleep B (1 / 2) w2)"
    using broker_lawsD(2) [OF assms(1), of "1 / 2" w2] by simp_all
  have "deadline - ob_time ob (br_sleep B (1 / 2) w2) < real n / 2"
    using Suc.prems s(2) quietD(1) [OF q2] by simp
  from Suc.IH [OF this] obtain r' w' where "leaders_loop B deadline (br_sleep B (1 / 2) w2) = Some (r', w')"
    "quiet ob (br_sleep B (1 / 2) w2) w'" "r' = Inr () \<longrightarrow> saw_ready B w'" by blast
  with n q l q2 s show ?case
    by (subst leaders_loop.simps) (auto simp: saw_ready_def split: sum.split intro: quiet_trans)
qed

lemma enough_halves: "\<exists>n. x < real n / 2"
  using reals_Archimedean2 [of "2 * x"] by (auto simp: field_simps)

section \<open>Topics are emptied\<close>

lemma await_all_Inr: "await_all fs = Inr () \<longleftrightarrow> (\<forall>k r. (k, r) \<in> set fs \<longrightarrow> r = None)"
  by (induction fs rule: await_all.induct) auto

lemma ensure_topics_call_quiet:
  assumes "broker_laws B ob" "ensure_topics_call B w = (r, w')"
  shows "quiet ob w w'"
proof -
  obtain l w1 where l: "br_list_topics B w = (l, w1)" by fastforce
  note q = broker_lawsD(3) [OF assms(1) l]
  show ?thesis
  proof (cases l)
    case (Inl e)
    with assms(2) q show ?thesis by (simp add: ensure_topics_call_def l)
  next
    case (Inr meta)
    obtain c w2 where c: "br_create_topics B (fst (ensure_topics None (map fst meta) (\<lambda>_. None))) w1 = (c, w2)" by fastforce
    with assms(2) q quiet_trans [OF q broker_lawsD(7) [OF assms(1) c]] Inr show ?thesis
      by (auto simp: ensure_topics_call_def l Let_def split: if_splits sum.splits)
  qed
qed

definition platform_empty :: "'w platform_view \<Rightarrow> 'w \<Rightarrow> bool" where
  "platform_empty ob w \<longleftrightarrow> list_all (\<lambda>t. ob_kept ob w t = 0) (map fst TOPIC_PARTITIONS)"

lemma quiet_empty: "quiet ob w w' \<Longrightarrow> platform_empty ob w \<Longrightarrow> platform_empty ob w'"
  by (auto simp: platform_empty_def list_all_iff dest: quietD(3))

text \<open>After the deletions have all succeeded no platform topic keeps a message.\<close>

lemma deleted_empty:
  assumes laws: "broker_laws B ob" and l: "br_list_topics B w = (Inr meta, w1)"
    and doomed: "doomed = filter (\<lambda>t. t \<in> set (map fst meta)) (map fst TOPIC_PARTITIONS)"
    and d: "(if doomed = [] then (Inr (), w1) else case br_delete_topics B doomed w1 of
        (Inl e, w) \<Rightarrow> (Inl e, w) | (Inr futures, w) \<Rightarrow> (await_all futures, w)) = (r, w2)"
  shows "quiet ob w w2 \<and> (r = Inr () \<longrightarrow> platform_empty ob w2)"
proof (cases "doomed = []")
  case True
  then have "t \<notin> set (map fst meta)" if "t \<in> set (map fst TOPIC_PARTITIONS)" for t
    using that unfolding doomed filter_empty_conv by blast
  with True d broker_lawsD(3,4) [OF laws l] show ?thesis
    by (auto simp: platform_empty_def list_all_iff)
next
  case False
  obtain fs where fs: "br_delete_topics B doomed w1 = (fs, w2)" "r = (case fs of Inl e \<Rightarrow> Inl e | Inr fs \<Rightarrow> await_all fs)"
    using d False by (auto split: prod.splits sum.splits)
  note q = broker_lawsD(5) [OF laws fs(1)]
  have "platform_empty ob w2" if ok: "r = Inr ()"
  proof -
    obtain xs where xs: "fs = Inr xs" "await_all xs = Inr ()" using fs(2) ok by (cases fs) auto
    note del = broker_lawsD(6) [OF laws fs(1) [unfolded xs(1)]]
    have "ob_kept ob w2 t = 0" if t: "t \<in> set (map fst TOPIC_PARTITIONS)" for t
    proof (cases "t \<in> set (map fst meta)")
      case True
      then have "t \<in> set doomed" using t unfolding doomed by simp
      then obtain x where "(t, x) \<in> set xs" unfolding conjunct1 [OF del, symmetric] by fastforce
      with xs(2) del show ?thesis unfolding await_all_Inr by blast
    next
      case False
      then show ?thesis using quietD(3) [OF q] broker_lawsD(4) [OF laws l] by blast
    qed
    then show ?thesis by (simp only: platform_empty_def list_all_iff) blast
  qed
  with quiet_trans [OF broker_lawsD(3) [OF laws l] q] show ?thesis by simp
qed

lemma delete_and_recreate_returns:
  assumes "broker_laws B ob"
  shows "\<exists>r w'. delete_and_recreate B w = Some (r, w') \<and> quiet ob w w' \<and> (r = Inr () \<longrightarrow> platform_empty ob w')"
proof -
  obtain r1 w1 where l: "br_list_topics B w = (r1, w1)" by fastforce
  show ?thesis
  proof (cases r1)
    case (Inl e)
    with l broker_lawsD(3) [OF assms l] show ?thesis by (simp add: delete_and_recreate_def)
  next
    case (Inr meta)
    define doomed where "doomed = filter (\<lambda>t. t \<in> set (map fst meta)) (map fst TOPIC_PARTITIONS)"
    obtain r2 w2 where d: "(if doomed = [] then (Inr (), w1) else case br_delete_topics B doomed w1 of
        (Inl e, w) \<Rightarrow> (Inl e, w) | (Inr futures, w) \<Rightarrow> (await_all futures, w)) = (r2, w2)" by fastforce
    note q = deleted_empty [OF assms l [unfolded Inr] doomed_def d]
    have run: "delete_and_recreate B w = (case r2 of Inl e \<Rightarrow> Some (Inl e, w2) | Inr _ \<Rightarrow>
        (case br_now B w2 of (t, w) \<Rightarrow> (case wait_until_gone B (t + 30) w of None \<Rightarrow> None
          | Some (Inl e, w) \<Rightarrow> Some (Inl e, w) | Some (Inr _, w) \<Rightarrow> Some (ensure_topics_call B w))))"
      by (simp only: delete_and_recreate_def l prod.case Inr sum.case Let_def doomed_def [symmetric] d)
    obtain t w3 where n: "br_now B w2 = (t, w3)" by fastforce
    obtain k where "t + 30 - ob_time ob w3 < real k / 2" using enough_halves by blast
    from wait_until_gone_returns [OF assms this] obtain r4 w4 where
      g: "wait_until_gone B (t + 30) w3 = Some (r4, w4)" "quiet ob w3 w4" by blast
    have q4: "quiet ob w2 w4" by (rule quiet_trans [OF conjunct1 [OF broker_lawsD(1) [OF assms n]] g(2)])
    obtain r5 w5 where c: "ensure_topics_call B w4 = (r5, w5)" by fastforce
    note q5 = ensure_topics_call_quiet [OF assms c]
    show ?thesis
    proof (cases r2)
      case (Inl e)
      with run q show ?thesis by simp
    next
      case Inr2: (Inr u)
      then have e: "platform_empty ob w2" using q by simp
      show ?thesis
      proof (cases r4)
        case (Inl e)
        with run Inr2 n g quiet_trans [OF conjunct1 [OF q] q4] show ?thesis by simp
      next
        case (Inr u4)
        with run Inr2 n g c quiet_trans [OF quiet_trans [OF conjunct1 [OF q] q4] q5]
          quiet_empty [OF quiet_trans [OF q4 q5] e] show ?thesis by simp
      qed
    qed
  qed
qed

lemma reset_topics_returns:
  assumes "broker_laws B ob"
  shows "\<exists>r w'. reset_topics B attempts w = Some (r, w') \<and> quiet ob w w'
    \<and> (r = Inr () \<longrightarrow> platform_empty ob w' \<and> saw_ready B w')"
proof (induction attempts arbitrary: w)
  case (Suc attempts)
  obtain r1 w1 where d: "delete_and_recreate B w = Some (r1, w1)" "quiet ob w w1" "r1 = Inr () \<longrightarrow> platform_empty ob w1"
    using delete_and_recreate_returns [OF assms] by blast
  obtain t w2 where n: "br_now B w1 = (t, w2)" by fastforce
  obtain k where "t + 30 - ob_time ob w2 < real k / 2" using enough_halves by blast
  from leaders_loop_returns [OF assms this] obtain r3 w3 where
    g: "leaders_loop B (t + 30) w2 = Some (r3, w3)" "quiet ob w2 w3" "r3 = Inr () \<longrightarrow> saw_ready B w3" by blast
  have q: "quiet ob w1 w3" by (rule quiet_trans [OF conjunct1 [OF broker_lawsD(1) [OF assms n]] g(2)])
  obtain r4 w4 where IH: "reset_topics B attempts w3 = Some (r4, w4)" "quiet ob w3 w4"
    "r4 = Inr () \<longrightarrow> platform_empty ob w4 \<and> saw_ready B w4" using Suc.IH by blast
  show ?case
  proof (cases r1)
    case (Inl e)
    with d show ?thesis by simp
  next
    case (Inr u)
    with d have e: "platform_empty ob w3" using quiet_empty q by simp
    have q3: "quiet ob w w3" "quiet ob w w4" using quiet_trans [OF d(2) q] quiet_trans [OF _ IH(2)] by blast+
    have run: "reset_topics B (Suc attempts) w = (case r3 of Inr _ \<Rightarrow> Some (Inr (), w3)
        | Inl e \<Rightarrow> if exn_type e = ''RuntimeError'' then reset_topics B attempts w3 else Some (Inl e, w3))"
      by (simp add: d(1) Inr wait_for_leaders_def n g(1) split: sum.split)
    show ?thesis
    proof (cases r3)
      case (Inl e)
      with run q3 IH show ?thesis by (cases "exn_type e = ''RuntimeError''") simp_all
    next
      case (Inr u)
      with run q3 g(3) e show ?thesis by simp
    qed
  qed
qed simp

section \<open>Groups are deleted\<close>

lemma group_futures_Inr:
  "group_futures fs remaining = Inr left \<Longrightarrow> set left \<subseteq> set remaining \<and> (\<forall>g \<in> set remaining - set left. (g, None) \<in> set fs)"
proof (induction fs remaining arbitrary: left rule: group_futures.induct)
  case (2 g fs remaining)
  then have "set left \<subseteq> set (removeAll g remaining)" "\<forall>h \<in> set (removeAll g remaining) - set left. (h, None) \<in> set fs"
    by auto
  then show ?case by auto
next
  case (3 g e fs remaining)
  then show ?case by (auto split: if_splits)
qed simp

definition groups_listed :: "'w broker \<Rightarrow> bool" where
  "groups_listed B \<longleftrightarrow> (\<forall>v. \<not> isl (fst (br_list_groups B v)))"

text \<open>Every group of \<open>G\<close> that is not among the remaining ones is no longer the broker's.\<close>

definition gone :: "'w platform_view \<Rightarrow> string set \<Rightarrow> string list \<Rightarrow> 'w \<Rightarrow> bool" where
  "gone ob G remaining w \<longleftrightarrow> G \<inter> ob_groups ob w \<subseteq> set remaining"

lemma gone_quiet: "gone ob G remaining w \<Longrightarrow> quiet ob w w' \<Longrightarrow> gone ob G remaining w'"
  unfolding gone_def quiet_def by blast

text \<open>One round: listing, then deleting what is still known.\<close>

lemma gone_listed:
  assumes "broker_laws B ob" "br_list_groups B w = (listed, w')" "groups_listed B" "gone ob G remaining w"
  shows "gone ob G (filter (\<lambda>g. g \<in> set (case listed of Inl _ \<Rightarrow> [] | Inr gs \<Rightarrow> gs)) remaining) w'"
proof -
  obtain gs where gs: "listed = Inr gs"
    using assms(2,3) unfolding groups_listed_def by (cases listed) (auto dest: spec [of _ w])
  show ?thesis
    using broker_lawsD(9) [OF assms(1) assms(2) [unfolded gs]] gone_quiet [OF assms(4) broker_lawsD(8) [OF assms(1,2)]]
    unfolding gone_def gs by auto
qed

lemma gone_deleted:
  assumes "broker_laws B ob" "br_delete_groups B still w = (Inr fs, w')" "group_futures fs still = Inr left"
    and "gone ob G still w"
  shows "gone ob G left w'"
proof -
  have "g \<notin> ob_groups ob w'" if "g \<in> set still - set left" for g
    using that group_futures_Inr [OF assms(3)] broker_lawsD(11) [OF assms(1,2)] by blast
  then show ?thesis
    using gone_quiet [OF assms(4) broker_lawsD(10) [OF assms(1,2)]] unfolding gone_def by blast
qed

lemma groups_loop_returns:
  assumes "broker_laws B ob" "deadline - ob_time ob w < real n * 3"
    and "groups_listed B \<longrightarrow> gone ob G remaining w"
  shows "\<exists>r w'. groups_loop B deadline remaining w = Some (r, w') \<and> quiet ob w w'
    \<and> (r = Inr () \<longrightarrow> groups_listed B \<longrightarrow> gone ob G [] w')"
  using assms(2,3)
proof (induction n arbitrary: w remaining)
  case 0
  obtain t w1 where n: "br_now B w = (t, w1)" by fastforce
  note q = broker_lawsD(1) [OF assms(1) n]
  with 0 quietD(1) [of ob w w1] have "\<not> t < deadline" by auto
  with n q 0 gone_quiet show ?case by (subst groups_loop.simps) auto
next
  case (Suc n)
  obtain t w1 where n: "br_now B w = (t, w1)" by fastforce
  note q = broker_lawsD(1) [OF assms(1) n]
  obtain listed w2 where l: "br_list_groups B w1 = (listed, w2)" by fastforce
  note q2 = quiet_trans [OF conjunct1 [OF q] broker_lawsD(8) [OF assms(1) l]]
  define still where "still = filter (\<lambda>g. g \<in> set (case listed of Inl _ \<Rightarrow> [] | Inr gs \<Rightarrow> gs)) remaining"
  have g1: "groups_listed B \<longrightarrow> gone ob G remaining w1" using Suc.prems(2) gone_quiet [OF _ conjunct1 [OF q]] by blast
  have g2: "groups_listed B \<longrightarrow> gone ob G still w2"
    using gone_listed [OF assms(1) l] g1 unfolding still_def by blast
  obtain futures w3 where d: "br_delete_groups B still w2 = (futures, w3)" by fastforce
  note q3 = quiet_trans [OF q2 broker_lawsD(10) [OF assms(1) d]]
  have run: "groups_loop B deadline remaining w = (if remaining = [] then Some (Inr (), w)
      else if t < deadline then (if still = [] then Some (Inr (), w2) else (case futures of
          Inl e \<Rightarrow> Some (Inl e, w3)
        | Inr futures \<Rightarrow> (case group_futures futures still of Inl e \<Rightarrow> Some (Inl e, w3)
            | Inr left \<Rightarrow> groups_loop B deadline left (if left \<noteq> [] then br_sleep B 3 w3 else w3))))
      else Some (Inl (RuntimeError ''groups still not deletable''), w1))"
    by (subst groups_loop.simps) (simp only: n l prod.case Let_def still_def [symmetric] d)
  show ?case
  proof (cases "remaining \<noteq> [] \<and> t < deadline \<and> still \<noteq> [] \<and> (\<exists>fs left. futures = Inr fs \<and> group_futures fs still = Inr left)")
    case False
    then consider "remaining = []" | "remaining \<noteq> []" "\<not> t < deadline" | "remaining \<noteq> []" "t < deadline" "still = []"
      | e where "remaining \<noteq> []" "t < deadline" "still \<noteq> []" "futures = Inl e"
      | fs e where "remaining \<noteq> []" "t < deadline" "still \<noteq> []" "futures = Inr fs" "group_futures fs still = Inl e"
      by (cases futures) (auto, metis sum.exhaust)
    then show ?thesis using run q q2 q3 g2 Suc.prems(2) by cases simp_all
  next
    case True
    then obtain fs left where f: "futures = Inr fs" "group_futures fs still = Inr left" by blast
    define w4 where "w4 = (if left \<noteq> [] then br_sleep B 3 w3 else w3)"
    have q4: "quiet ob w3 w4" and late: "left \<noteq> [] \<Longrightarrow> ob_time ob w3 + 3 \<le> ob_time ob w4"
      using broker_lawsD(2) [OF assms(1), of 3 w3] by (simp_all add: w4_def)
    have g4: "groups_listed B \<longrightarrow> gone ob G left w4"
      using gone_deleted [OF assms(1) d [unfolded f(1)] f(2)] g2 gone_quiet [OF _ q4] by blast
    have run2: "groups_loop B deadline remaining w = groups_loop B deadline left w4"
      using run True f by (simp add: w4_def)
    show ?thesis
    proof (cases "left = []")
      case True
      then have "groups_loop B deadline left w4 = Some (Inr (), w4)" by (simp add: groups_loop.simps)
      with run2 quiet_trans [OF q3 q4] g4 True show ?thesis by simp
    next
      case False
      have "deadline - ob_time ob w4 < real n * 3"
        using Suc.prems(1) late [OF False] quietD(1) [OF q3] by simp
      from Suc.IH [OF this g4] obtain r w' where "groups_loop B deadline left w4 = Some (r, w')" "quiet ob w4 w'"
        "r = Inr () \<longrightarrow> groups_listed B \<longrightarrow> gone ob G [] w'" by blast
      with run2 quiet_trans [OF quiet_trans [OF q3 q4]] show ?thesis by simp
    qed
  qed
qed

end
