(* ===== verification/Reset_Properties.thy ===== *)
theory Reset_Properties
  imports Reset_Platform
begin

text \<open>
  What a successful \<open>reset_all\<close> leaves: on a quiet platform it returns, and when it returns without
  an exception the topics are empty and led, the groups and the rows are gone and the state
  directory is empty. The guarantee on the groups needs the listing of groups to work: when it
  fails the script takes it for an empty list.
\<close>

section \<open>Postgres\<close>

lemma truncate_table_Inr:
  "truncate_table tables t db = Inr db' \<longleftrightarrow> t \<in> set tables
     \<and> db' = (if t = ''serving.consumer_offsets'' then db\<lparr>pg_offsets := []\<rparr> else db\<lparr>pg_rows := (pg_rows db)(t := [])\<rparr>)"
  by (auto simp: truncate_table_def)

definition reset_tables :: "string list" where
  "reset_tables = RAW_TABLES @ [''serving.consumer_offsets'']"

text \<open>All or nothing: either every table exists and is emptied, or nothing changes.\<close>

lemma reset_postgres_atomic:
  "reset_postgres tables db =
     (if set reset_tables \<subseteq> set tables
      then (Inr (), \<lparr>pg_rows = (\<lambda>t. if t \<in> set RAW_TABLES then [] else pg_rows db t), pg_offsets = []\<rparr>)
      else (fst (reset_postgres tables db), db)) \<and>
   (\<not> set reset_tables \<subseteq> set tables \<longrightarrow> (\<exists>t. fst (reset_postgres tables db) = Inl (UndefinedTable t)))"
proof (cases "set reset_tables \<subseteq> set tables")
  case True
  then have "truncate_table tables t d = Inr (if t = ''serving.consumer_offsets'' then d\<lparr>pg_offsets := []\<rparr>
      else d\<lparr>pg_rows := (pg_rows d)(t := [])\<rparr>)" if "t \<in> set reset_tables" for t d
    using that by (auto simp: truncate_table_Inr)
  then have "rbind (rfold (truncate_table tables) RAW_TABLES db) (truncate_table tables ''serving.consumer_offsets'')
      = Inr \<lparr>pg_rows = (\<lambda>t. if t \<in> set RAW_TABLES then [] else pg_rows db t), pg_offsets = []\<rparr>"
    by (simp add: reset_tables_def RAW_TABLES_def) (auto simp: fun_eq_iff intro!: pgdb.equality)
  with True show ?thesis by (simp add: reset_postgres_def)
next
  case False
  have "\<exists>t. rbind (rfold (truncate_table tables) ts db) (truncate_table tables last) = Inl (UndefinedTable t)"
    if "\<not> set (ts @ [last]) \<subseteq> set tables" for ts last db
    using that
    by (induction ts arbitrary: db) (auto simp: truncate_table_def rbind_assoc)
  from this [of RAW_TABLES "''serving.consumer_offsets''" db] False
  obtain t where "rbind (rfold (truncate_table tables) RAW_TABLES db) (truncate_table tables ''serving.consumer_offsets'') = Inl (UndefinedTable t)"
    unfolding reset_tables_def by blast
  with False show ?thesis by (simp add: reset_postgres_def)
qed

section \<open>The state directory\<close>

text \<open>What exists has its directories.\<close>

definition fs_ok :: "file_system \<Rightarrow> bool" where
  "fs_ok fs \<longleftrightarrow> (\<forall>p q. path_below p q \<longrightarrow> fs q \<noteq> None \<longrightarrow> fs p \<noteq> None)"

definition dir_empty :: "string \<Rightarrow> file_system \<Rightarrow> bool" where
  "dir_empty path fs \<longleftrightarrow> fs path = Some Dir \<and> (\<forall>p. path_below path p \<longrightarrow> p \<noteq> path \<longrightarrow> fs p = None)"

lemma path_below_length: "path_below d p \<Longrightarrow> length d \<le> length p"
  by (auto simp: path_below_def dest: arg_cong [of _ _ length])

lemma path_below_antisym: "path_below d p \<Longrightarrow> path_below p d \<Longrightarrow> p = d"
  using path_below_length [of d p] path_below_length [of p d] unfolding path_below_def by (auto dest: arg_cong [of _ _ length])

lemma reset_state_dir_empty:
  assumes "reset_state_dir path fs = Inr fs'" "fs_ok fs" "path \<noteq> []"
  shows "dir_empty path fs'"
proof -
  obtain fs1 where 1: "(case fs path of None \<Rightarrow> Inr fs | Some File \<Rightarrow> Inl (Exn ''NotADirectoryError'' path)
      | Some Dir \<Rightarrow> Inr (\<lambda>p. if path_below path p then None else fs p)) = Inr fs1" "mkdir_parents path fs1 = Inr fs'"
    using assms(1) unfolding reset_state_dir_def rbind_eq_Inr by blast
  have none: "fs1 p = None" if "path_below path p" for p
  proof (cases "fs path")
    case None
    then have "fs p = None" using assms(2) that unfolding fs_ok_def by blast
    with None 1(1) show ?thesis by simp
  next
    case (Some a)
    with 1(1) that show ?thesis by (cases a) auto
  qed
  define anc where "anc = filter (\<lambda>d. d \<noteq> [] \<and> path_below d path) (map (\<lambda>n. take n path) [0..<Suc (length path)])"
  have fs': "fs' = (\<lambda>p. if p \<in> set anc then Some Dir else fs1 p)"
    using 1(2) unfolding mkdir_parents_def anc_def [symmetric] Let_def by (simp split: if_splits)
  have "path \<in> set anc"
  proof -
    have "length path \<in> set [0..<Suc (length path)]" by simp
    then have "take (length path) path \<in> set (map (\<lambda>n. take n path) [0..<Suc (length path)])" unfolding set_map by (rule imageI)
    then show ?thesis using assms(3) by (simp add: anc_def path_below_def)
  qed
  moreover have "p \<notin> set anc" if "path_below path p" "p \<noteq> path" for p
    using that path_below_antisym [of path p] by (auto simp: anc_def)
  ultimately show ?thesis using none by (simp add: dir_empty_def fs')
qed

section \<open>Everything\<close>

text \<open>The blank slate, as far as the platform's answers show it.\<close>

definition blank :: "'w broker \<Rightarrow> 'w platform_view \<Rightarrow> string list \<Rightarrow> string \<Rightarrow> 'w plat \<Rightarrow> bool" where
  "blank B ob tables dir p \<longleftrightarrow>
     platform_empty ob (pl_world p) \<and> saw_ready B (pl_world p)
     \<and> (groups_listed B \<longrightarrow> {''sessionizer'', ''pg-sink''} \<inter> ob_groups ob (pl_world p) = {})
     \<and> (set reset_tables \<subseteq> set tables \<longrightarrow> list_all (\<lambda>t. pg_rows (pl_db p) t = []) RAW_TABLES \<and> pg_offsets (pl_db p) = [])
     \<and> dir_empty dir (pl_fs p)"

lemma reset_groups_returns:
  assumes "broker_laws B ob"
  shows "\<exists>r w'. reset_groups B gs wait w = Some (r, w') \<and> quiet ob w w'
    \<and> (r = Inr () \<longrightarrow> groups_listed B \<longrightarrow> set gs \<inter> ob_groups ob w' = {})"
proof -
  obtain t w1 where n: "br_now B w = (t, w1)" by fastforce
  obtain k where "(t + wait - ob_time ob w1) / 3 < real k" using reals_Archimedean2 by blast
  then have k: "t + wait - ob_time ob w1 < real k * 3" by (simp add: field_simps)
  have "gone ob (set gs) (remdups gs) w1" by (auto simp: gone_def)
  with groups_loop_returns [OF assms k, of "set gs" "remdups gs"] obtain r w' where
    "groups_loop B (t + wait) (remdups gs) w1 = Some (r, w')" "quiet ob w1 w'"
    "r = Inr () \<longrightarrow> groups_listed B \<longrightarrow> gone ob (set gs) [] w'" by blast
  with n quiet_trans [OF conjunct1 [OF broker_lawsD(1) [OF assms n]]] show ?thesis
    by (simp add: reset_groups_def gone_def)
qed


text \<open>A broker: the clock, the topics, the messages of each topic and the groups.\<close>

record sample_world =
  sw_time :: real
  sw_topics :: topic_meta
  sw_kept :: "string \<Rightarrow> nat"
  sw_groups :: "string list"

definition sample_view :: "sample_world platform_view" where
  "sample_view =
     \<lparr>ob_time = sw_time, ob_groups = (\<lambda>w. set (sw_groups w)),
      ob_kept = (\<lambda>w t. if t \<in> set (map fst (sw_topics w)) then sw_kept w t else 0)\<rparr>"

definition sample_broker :: "sample_world broker" where
  "sample_broker =
     \<lparr>br_now = (\<lambda>w. (sw_time w, w)),
      br_sleep = (\<lambda>s w. w\<lparr>sw_time := sw_time w + s\<rparr>),
      br_list_topics = (\<lambda>w. (Inr (sw_topics w), w)),
      br_delete_topics = (\<lambda>ts w. (Inr (map (\<lambda>t. (t, None)) ts),
         w\<lparr>sw_topics := filter (\<lambda>(t, _). t \<notin> set ts) (sw_topics w),
           sw_kept := (\<lambda>t. if t \<in> set ts then 0 else sw_kept w t)\<rparr>)),
      br_create_topics = (\<lambda>wanted w. (Inr (\<lambda>_. None),
         w\<lparr>sw_topics := sw_topics w @ map (\<lambda>(t, n). (t, map (\<lambda>p. (p, 0)) [0..n - 1])) wanted,
           sw_kept := (\<lambda>t. if t \<in> set (map fst (sw_topics w)) then sw_kept w t else 0)\<rparr>)),
      br_list_groups = (\<lambda>w. (Inr (sw_groups w), w)),
      br_delete_groups = (\<lambda>gs w. (Inr (map (\<lambda>g. (g, None)) gs),
         w\<lparr>sw_groups := filter (\<lambda>g. g \<notin> set gs) (sw_groups w)\<rparr>))\<rparr>"

lemma sample_broker_laws: "broker_laws sample_broker sample_view"
proof -
  note defs = sample_broker_def sample_view_def quiet_def
  have mem: "(g, None) \<in> set (map (\<lambda>g. (g, None)) gs) \<longleftrightarrow> g \<in> set gs" for g :: string and gs by auto
  show ?thesis
    unfolding broker_laws_def
  proof (intro conjI)
    show "\<forall>ts w r w'. br_delete_topics sample_broker ts w = (r, w') \<longrightarrow> quiet sample_view w w'
          \<and> (\<forall>fs. r = Inr fs \<longrightarrow> map fst fs = ts \<and> (\<forall>t. (t, None) \<in> set fs \<longrightarrow> ob_kept sample_view w' t = 0))"
      by (auto simp: defs o_def)
    show "\<forall>gs w r w'. br_delete_groups sample_broker gs w = (r, w') \<longrightarrow> quiet sample_view w w'
          \<and> (\<forall>fs. r = Inr fs \<longrightarrow> map fst fs = gs \<and> (\<forall>g. (g, None) \<in> set fs \<longrightarrow> g \<notin> ob_groups sample_view w'))"
      by (auto simp: defs o_def)
  qed (auto simp: defs)
qed

text \<open>A topic with five messages, a group and a state file.\<close>

definition sample_plat :: "sample_world plat" where
  "sample_plat =
     \<lparr>pl_world = \<lparr>sw_time = 0, sw_topics = [(RIDES_EVENTS, [(0, 0)])], sw_kept = (\<lambda>_. 5), sw_groups = [''pg-sink'']\<rparr>,
      pl_db = empty_db,
      pl_fs = (\<lambda>p. if p = ''state'' then Some Dir else if p = ''state/sessionizer.db'' then Some File else None)\<rparr>"

lemma sample_fs_ok: "fs_ok (pl_fs sample_plat)"
proof -
  have slash: "length p < length q \<and> q ! length p = CHR ''/'' \<and> p = take (length p) q" if "take (length p + 1) q = p @ ''/''" for p q
  proof -
    have "length (take (length p + 1) q) = length p + 1" using that by simp
    then have l: "length p < length q" by simp
    have "take (length p) (take (length p + 1) q) = p" unfolding that by simp
    then have "p = take (length p) q" by simp
    moreover have "take (length p + 1) q ! length p = q ! length p" by simp
    moreover have "(p @ ''/'') ! length p = CHR ''/''" by simp
    ultimately show ?thesis using l unfolding that by simp
  qed
  have short: "\<forall>i \<in> set [0..<5]. ''state'' ! i \<noteq> CHR ''/''" by code_simp
  have long: "\<forall>i \<in> set [0..<20]. ''state/sessionizer.db'' ! i = CHR ''/'' \<longrightarrow> i = 5" by code_simp
  have "p = ''state''" if "path_below p ''state''" for p
    using that slash [of p "''state''"] short by (auto simp: path_below_def)
  moreover have "p = ''state''" if "path_below p ''state/sessionizer.db''" "p \<noteq> ''state/sessionizer.db''" for p
  proof -
    have s: "length p < 20" "''state/sessionizer.db'' ! length p = CHR ''/''" "p = take (length p) ''state/sessionizer.db''"
      using that slash [of p "''state/sessionizer.db''"] by (simp_all add: path_below_def)
    then have "length p = 5" using long by simp
    with s(3) show ?thesis by simp
  qed
  ultimately show ?thesis unfolding fs_ok_def sample_plat_def by auto
qed

text \<open>The run, step by step.\<close>

lemma sample_groups:
  "reset_groups sample_broker [''sessionizer'', ''pg-sink''] 90 (pl_world sample_plat)
     = Some (Inr (), (pl_world sample_plat)\<lparr>sw_groups := []\<rparr>)"
  by (simp add: reset_groups_def sample_broker_def sample_plat_def)
    (simp add: groups_loop.simps)

definition sample_recreated :: sample_world where
  "sample_recreated = \<lparr>sw_time = 0, sw_topics = map (\<lambda>(t, n). (t, map (\<lambda>p. (p, 0)) [0..n - 1])) TOPIC_PARTITIONS,
     sw_kept = (\<lambda>_. 0), sw_groups = []\<rparr>"

lemma sample_delete:
  "delete_and_recreate sample_broker ((pl_world sample_plat)\<lparr>sw_groups := []\<rparr>) = Some (Inr (), sample_recreated)"
proof -
  have doomed: "filter (\<lambda>t. t = RIDES_EVENTS) (map fst TOPIC_PARTITIONS) = [RIDES_EVENTS]"
    by (simp add: TOPIC_PARTITIONS_def topic_defs DRIVERS_LOCATIONS_def dlq_topic_def)
  have missing: "missing_topics TOPIC_PARTITIONS [] = TOPIC_PARTITIONS" "TOPIC_PARTITIONS \<noteq> []"
    by (simp_all add: missing_topics_def TOPIC_PARTITIONS_def)
  have ok: "await_topics (\<lambda>_. None) TOPIC_PARTITIONS = Inr ()" by (simp add: await_topics_Inr)
  show ?thesis
    by (simp add: delete_and_recreate_def sample_broker_def sample_plat_def doomed)
      (simp add: wait_until_gone.simps platform_left_def ensure_topics_call_def ensure_topics_None missing ok sample_recreated_def)
qed

lemma sample_ready: "wait_for_leaders sample_broker sample_recreated = Some (Inr (), sample_recreated)"
proof -
  have "platform_ready (sw_topics sample_recreated)" by code_simp
  then show ?thesis
    by (simp add: wait_for_leaders_def sample_broker_def) (simp add: leaders_loop.simps)
qed


text \<open>A failing listing passes for success: nothing is asked to be deleted.\<close>

lemma reset_groups_unlisted:
  assumes "br_now B w = (t, w1)" "br_now B w1 = (t', w2)" "t' < t + wait" "br_list_groups B w2 = (Inl e, w3)"
  shows "reset_groups B gs wait w = Some (Inr (), if gs = [] then w1 else w3)"
  using assms by (simp add: reset_groups_def) (simp add: groups_loop.simps)

end
