(* ===== verification/Dashboard.thy ===== *)
theory Dashboard
  imports Dashboard_Queries Py_Float "HOL-Library.List_Lexorder" "HOL-Library.Char_ord"
begin

text \<open>
  \<open>ui/streamlit_app.py\<close>: what the dashboard shows. A page is the list of the elements it draws, in order;
  an exception is one the page would show as a stack trace. The number formats, \<open>strftime\<close> and the text
  of a timestamp are parameters. The layout in columns, the heights, the map layer and its tooltip are
  left out.
\<close>

record formats =
  fm_fixed :: "nat \<Rightarrow> real \<Rightarrow> string"
  fm_signed :: "nat \<Rightarrow> real \<Rightarrow> string"
  fm_time :: "int \<Rightarrow> string"
  fm_str :: "pyval \<Rightarrow> string"

record dot =
  dot_driver :: pyval
  dot_lat :: pyval
  dot_lon :: pyval
  dot_status :: pyval
  dot_speed :: pyval
  dot_last_ping :: string
  dot_color :: "int list"

text \<open>A metric: label, value, delta and the colour of the delta.\<close>

datatype element =
    Title string
  | Subheader string
  | Caption string
  | Info string
  | Warn string
  | ErrorBox string
  | SelectBox string "string list"
  | Slider string int int int
  | Metric string string "string option" string
  | DriverMap "(real \<times> real) \<times> nat" "dot list"
  | LineChart "string list" "(int \<times> int list) list"

type_synonym page = "exn + element list"

definition then_page :: "page \<Rightarrow> page \<Rightarrow> page" where
  "then_page p q = rbind p (\<lambda>xs. rbind q (\<lambda>ys. Inr (xs @ ys)))"

text \<open>\<open>sep.join(xs)\<close>.\<close>

fun join_with :: "string \<Rightarrow> string list \<Rightarrow> string" where
  "join_with sep [] = []"
| "join_with sep [x] = x"
| "join_with sep (x # y # xs) = x @ sep @ join_with sep (y # xs)"

definition STATUS_COLORS :: "(string, int list) dict" where
  "STATUS_COLORS =
     [(''idle'', [96, 125, 139, 190]), (''en_route_to_pickup'', [255, 179, 0, 220]), (''on_trip'', [0, 200, 130, 220])]"

definition FALLBACK_COLOR :: "int list" where "FALLBACK_COLOR = [158, 158, 158, 170]"

definition ALL_CITIES :: string where "ALL_CITIES = ''All cities''"

definition INDIA_CENTER :: "real \<times> real" where "INDIA_CENTER = (21, 785 / 10)"

definition format_seconds :: "formats \<Rightarrow> real \<Rightarrow> string" where
  "format_seconds F seconds =
     (if seconds < 120 then fm_fixed F 0 seconds @ '' s'' else fm_fixed F 1 (seconds / 60) @ '' min'')"

text \<open>\<open>f'{n:,}'\<close>.\<close>

fun group_digits :: "string \<Rightarrow> string" where
  "group_digits (a # b # c # d # ds) = a # b # c # CHR '','' # group_digits (d # ds)"
| "group_digits ds = ds"

definition with_commas :: "int \<Rightarrow> string" where
  "with_commas n = (if n < 0 then ''-'' else []) @ rev (group_digits (rev (nat_digits (nat \<bar>n\<bar>))))"

text \<open>\<open>f'{t:%Y-%m-%d %H:%M:%S %Z}'\<close>: only a timestamp takes that format.\<close>

fun show_time :: "formats \<Rightarrow> pyval \<Rightarrow> exn + string" where
  "show_time F (PDatetime us) = Inr (fm_time F us)"
| "show_time F v = Inl (TypeError ''unsupported format string'')"

text \<open>Of two rows with one id the later wins.\<close>

definition city_name_map :: "frame \<Rightarrow> exn + (int, pyval) dict" where
  "city_name_map cities =
     (if cities = [] then Inr []
      else rbind (rmap (\<lambda>row. py_int (d_get row ''city_id'')) cities) (\<lambda>ids.
        Inr (fold (\<lambda>(i, row). AList.update i (d_get row ''city_name'')) (zip ids cities) [])))"

definition mean :: "real list \<Rightarrow> real" where
  "mean xs = sum_list xs / real (length xs)"

text \<open>The centre and the zoom.\<close>

definition compute_view_state :: "frame \<Rightarrow> frame \<Rightarrow> string \<Rightarrow> exn + (real \<times> real) \<times> nat" where
  "compute_view_state cities positions selected_city =
     (let fleet = (if positions \<noteq> []
            then Inr ((mean (numbers ''lat'' positions), mean (numbers ''lon'' positions)), 4)
            else Inr (INDIA_CENTER, 4))
      in if selected_city \<noteq> ALL_CITIES \<and> cities \<noteq> [] then
           (case filter (\<lambda>r. d_get r ''city_name'' = PStr selected_city) cities of
              [] \<Rightarrow> fleet
            | row # _ \<Rightarrow>
                rbind (as_num (d_get row ''center_lat'')) (\<lambda>lat.
                rbind (as_num (d_get row ''center_lon'')) (\<lambda>lon. Inr ((lat, lon), 11))))
         else fleet)"

section \<open>The headline metrics\<close>

definition bucket_rows :: "string \<Rightarrow> frame \<Rightarrow> frame" where
  "bucket_rows b stats = filter (\<lambda>r. d_get r ''bucket'' = PStr b) stats"

definition rate_metric :: "formats \<Rightarrow> frame \<Rightarrow> page" where
  "rate_metric F stats =
     (case bucket_rows ''cur'' stats of
        [] \<Rightarrow> Inr [Metric ''Completion rate (last sim-hour)'' ''no data'' None ''normal'']
      | cur # _ \<Rightarrow>
          rbind (as_num (d_get cur ''completion_rate'')) (\<lambda>c.
            let rate = c * 100 in
            rbind (case bucket_rows ''prev'' stats of
                     [] \<Rightarrow> Inr None
                   | prev # _ \<Rightarrow> rbind (as_num (d_get prev ''completion_rate'')) (\<lambda>p.
                       Inr (Some (fm_signed F 1 (rate - p * 100) @ '' pts vs prior sim-hour'')))) (\<lambda>delta.
              Inr [Metric ''Completion rate (last sim-hour)'' (fm_fixed F 1 rate @ ''%'') delta ''normal''])))"

definition p95_metric :: "formats \<Rightarrow> frame \<Rightarrow> page" where
  "p95_metric F p95 =
     (case p95 of
        [] \<Rightarrow> Inr [Metric ''P95 time to match'' ''no data'' None ''normal'']
      | row # _ \<Rightarrow> rbind (as_num (d_get row ''p95_sec'')) (\<lambda>x.
          Inr [Metric ''P95 time to match'' (format_seconds F x) (Some (py_str (fm_str F) (d_get row ''source''))) ''off'']))"

definition closed_metric :: "frame \<Rightarrow> page" where
  "closed_metric totals =
     (case totals of
        [] \<Rightarrow> Inr [Metric ''Rides closed (total)'' ''no data'' None ''normal'']
      | row # _ \<Rightarrow>
          rbind (py_int (d_get row ''rides_closed'')) (\<lambda>closed.
          rbind (py_int (d_get row ''rides_completed'')) (\<lambda>finished.
            Inr [Metric ''Rides closed (total)'' (with_commas closed) (Some (with_commas finished @ '' completed'')) ''off''])))"

text \<open>\<open>(positions['ts'] >= latest - 10 minutes).sum()\<close>.\<close>

definition drivers_reporting :: "frame \<Rightarrow> nat" where
  "drivers_reporting positions =
     length (filter (\<lambda>r. case (ts_of ''ts'' r, minus_us (max_ts ''ts'' positions) (minutes_us 10)) of
                           (Some t, Some b) \<Rightarrow> t \<ge> b | _ \<Rightarrow> False) positions)"

definition fleet_metric :: "frame \<Rightarrow> page" where
  "fleet_metric positions =
     (if positions = [] then Inr [Metric ''Drivers reporting'' ''no data'' None ''normal'']
      else Inr [Metric ''Drivers reporting'' (with_commas (int (drivers_reporting positions)))
                  (Some (with_commas (int (length positions)) @ '' known drivers'')) ''off''])"

definition render_stats_row :: "formats \<Rightarrow> dash_db \<Rightarrow> frame \<Rightarrow> page" where
  "render_stats_row F D positions =
     rbind (fetch_p95_time_to_match D) (\<lambda>p95.
       then_page (rate_metric F (fetch_ride_stats D))
         (then_page (p95_metric F p95)
           (then_page (closed_metric (fetch_ride_totals D)) (fleet_metric positions))))"

section \<open>The map\<close>

definition color_of :: "formats \<Rightarrow> pyval \<Rightarrow> int list" where
  "color_of F status =
     (case map_of STATUS_COLORS (py_str (fm_str F) status) of Some c \<Rightarrow> c | None \<Rightarrow> FALLBACK_COLOR)"

text \<open>\<open>round(1)\<close> of a float column: the nearest tenth, ties to even.\<close>

definition round1 :: "pyval \<Rightarrow> pyval" where
  "round1 v = (case number v of Some x \<Rightarrow> PFloat (of_int (round_even (10 * x)) / 10) | None \<Rightarrow> v)"

definition dot_of :: "formats \<Rightarrow> payload \<Rightarrow> dot" where
  "dot_of F row =
     \<lparr>dot_driver = d_get row ''driver_id'', dot_lat = d_get row ''lat'', dot_lon = d_get row ''lon'',
      dot_status = d_get row ''status'', dot_speed = round1 (d_get row ''speed_kmh''),
      dot_last_ping = py_str (fm_str F) (d_get row ''ts''), dot_color = color_of F (d_get row ''status'')\<rparr>"

definition render_map :: "formats \<Rightarrow> frame \<Rightarrow> frame \<Rightarrow> string \<Rightarrow> page" where
  "render_map F cities positions selected_city =
     then_page (Inr [Subheader ''Live driver map''])
       (if positions = [] then
          Inr [Info (''No driver positions yet. The map fills in as raw.driver_locations '' @
                     ''receives pings from the generator.'')]
        else rbind (compute_view_state cities positions selected_city) (\<lambda>view.
          Inr [DriverMap view (map (dot_of F) positions),
               Caption (''Status colors: '' @ join_with ''  |  '' (map fst STATUS_COLORS) @
                        '' (gray = other). One dot per driver, latest ping only.'')]))"

section \<open>The chart\<close>

definition city_label :: "formats \<Rightarrow> (int, pyval) dict \<Rightarrow> payload \<Rightarrow> exn + string" where
  "city_label F names row =
     rbind (py_int (d_get row ''city_id'')) (\<lambda>cid.
       Inr (case map_of names cid of Some name \<Rightarrow> py_str (fm_str F) name | None \<Rightarrow> ''City '' @ int_digits cid))"

text \<open>\<open>pivot_table(..., aggfunc='sum').fillna(0)\<close>: labels and minutes sorted, one sum for each pair.\<close>

definition pivot_table :: "(int \<times> string \<times> int) list \<Rightarrow> string list \<times> (int \<times> int list) list" where
  "pivot_table cells =
     (let labels = sort (remdups (map (\<lambda>(_, l, _). l) cells));
          minutes = sort (remdups (map (\<lambda>(m, _, _). m) cells))
      in (labels, map (\<lambda>m. (m, map (\<lambda>l. sum_list (map (\<lambda>(_, _, n). n) (filter (\<lambda>(m', l', _). m' = m \<and> l' = l) cells))) labels))
                    minutes))"

definition chart_cell :: "payload \<Rightarrow> string \<Rightarrow> (int \<times> string \<times> int) option" where
  "chart_cell row label =
     (case (ts_of ''minute_ts'' row, py_int (d_get row ''rides'')) of
        (Some us, Inr n) \<Rightarrow> Some (us, label, n) | _ \<Rightarrow> None)"

definition render_rides_chart :: "formats \<Rightarrow> dash_db \<Rightarrow> frame \<Rightarrow> int \<Rightarrow> page" where
  "render_rides_chart F D cities hours =
     then_page (Inr [Subheader (''Rides per minute by city (last '' @ int_digits hours @ '' sim-hours)'')])
       (let per_minute = fetch_rides_per_minute D hours in
        if per_minute = [] then
          Inr [Info (''No ride sessions yet. This chart appears once the sessionizer '' @
                     ''starts closing rides into raw.ride_sessions.'')]
        else rbind (city_name_map cities) (\<lambda>names.
             rbind (rmap (city_label F names) per_minute) (\<lambda>labels.
               let (columns, rows) = pivot_table (List.map_filter (\<lambda>(row, label). chart_cell row label) (zip per_minute labels))
               in Inr [LineChart columns rows,
                       Caption (''Event time is an accelerated sim clock, so the window is anchored to '' @
                                ''the newest event in the data, not to wall-clock now.'')])))"

section \<open>Data quality\<close>

definition dq_card :: "formats \<Rightarrow> dq_summary \<Rightarrow> page" where
  "dq_card F row =
     (let n_all = ds_expectations row; passed = ds_pass row;
          rate = (if n_all \<noteq> 0 then 100 * real passed / real n_all else 0)
      in rbind (show_time F (ds_run_at row)) (\<lambda>run_at.
        Inr [Metric (''Suite: '' @ py_str (fm_str F) (ds_suite row)) (fm_fixed F 0 rate @ ''% pass'')
               (Some (nat_digits passed @ ''/'' @ nat_digits n_all @ '' expectations''))
               (if passed = n_all then ''normal'' else ''inverse''),
             (if ds_failed row \<noteq> [] then ErrorBox (''Failed: '' @ join_with '', '' (ds_failed row))
              else Caption ''All expectations passed.''),
             Caption (''Mode: '' @ py_str (fm_str F) (ds_mode row) @ '' | run at '' @ run_at)]))"

definition render_dq_strip :: "formats \<Rightarrow> dash_db \<Rightarrow> page" where
  "render_dq_strip F D =
     then_page (Inr [Subheader ''Data quality''])
       (let dq = fetch_dq_latest D in
        if dq = [] then
          Inr [Info (''No data-quality runs recorded yet. This strip fills in once the '' @
                     ''Great Expectations runner writes to serving.dq_results.'')]
        else rbind (rmap (dq_card F) dq) (\<lambda>cards. Inr (concat cards)))"

section \<open>The page\<close>

definition city_options :: "formats \<Rightarrow> frame \<Rightarrow> string list" where
  "city_options F cities = ALL_CITIES # map (\<lambda>row. py_str (fm_str F) (d_get row ''city_name'')) cities"

definition sim_clock_caption :: "formats \<Rightarrow> string \<Rightarrow> frame \<Rightarrow> page" where
  "sim_clock_caption F dsn totals =
     (case totals of
        [] \<Rightarrow> Inr []
      | row # _ \<Rightarrow>
          if d_get row ''max_requested_ts'' = PNone then Inr []
          else rbind (show_time F (d_get row ''max_requested_ts'')) (\<lambda>sim_now.
                 Inr [Caption (''Sim clock at '' @ sim_now @ '' | source '' @ dsn_display dsn)]))"

text \<open>\<open>pick\<close> and \<open>hours\<close> are the user's choice in the two controls.\<close>

definition dashboard :: "formats \<Rightarrow> (string \<Rightarrow> string option) \<Rightarrow> dash_db \<Rightarrow> (string list \<Rightarrow> string) \<Rightarrow> int \<Rightarrow> page" where
  "dashboard F env D pick hours =
     (let dsn = get_dsn env;
          unreachable = (if fetch_health D = []
            then [Warn (''Cannot reach Postgres at '' @ dsn_display dsn @ '' right now. '' @
                        ''Showing placeholders; the page retries automatically every 10 seconds.'')]
            else []);
          cities = fetch_cities D;
          positions = fetch_driver_positions D;
          options = city_options F cities
      in then_page (Inr (unreachable @ [SelectBox ''Center map on'' options, Slider ''Chart window (sim-hours)'' 1 6 2]))
           (then_page (render_stats_row F D positions)
             (then_page (render_map F cities positions (pick options))
               (then_page (render_rides_chart F D cities hours)
                 (then_page (render_dq_strip F D) (sim_clock_caption F dsn (fetch_ride_totals D)))))))"

definition main_page :: "formats \<Rightarrow> (string \<Rightarrow> string option) \<Rightarrow> dash_db \<Rightarrow> (string list \<Rightarrow> string) \<Rightarrow> int \<Rightarrow> page" where
  "main_page F env D pick hours =
     then_page (Inr [Title ''stream-pipeline live operations'',
                     Caption (''All data on this page is synthetic, produced by the ride-hailing '' @
                              ''simulator on an accelerated sim clock. Auto-refreshes every 10 seconds.'')])
       (dashboard F env D pick hours)"

end
