(* ===== verification/Dashboard_Properties.thy ===== *)
theory Dashboard_Properties
  imports Dashboard Pg_Properties Quality_Gates
begin

text \<open>
  The properties of the dashboard: no data base and no data of the declared column types makes it raise,
  the chart shows each session of its window once, the quality strip shows the last run, and over a
  data base the Postgres sink has filled the totals count each ride once and the map shows each
  driver at its newest ping.
\<close>

section \<open>Newest row of a key\<close>

definition stamped :: "string \<Rightarrow> frame \<Rightarrow> bool" where
  "stamped c rows = list_all (\<lambda>r. ts_of c r \<noteq> None) rows"

abbreviation ts_at :: "string \<Rightarrow> payload \<Rightarrow> int" where
  "ts_at c r \<equiv> the (ts_of c r)"

lemma after_ts_at: "ts_of c r \<noteq> None \<Longrightarrow> ts_of c a \<noteq> None \<Longrightarrow> after c (ts_of c a) r \<longleftrightarrow> ts_at c r > ts_at c a"
  by (auto simp: after_def)

lemma newest_spec:
  assumes "stamped c (r # rows)"
  shows "newest c r rows \<in> set (r # rows) \<and> (\<forall>x \<in> set (r # rows). ts_at c x \<le> ts_at c (newest c r rows))"
  using assms
proof (induction rows arbitrary: r)
  case (Cons y ys)
  let ?z = "if after c (ts_of c r) y then y else r"
  have ok: "stamped c (?z # ys)" and ts: "ts_of c r \<noteq> None" "ts_of c y \<noteq> None"
    using Cons.prems by (auto simp: stamped_def)
  have step: "newest c r (y # ys) = newest c ?z ys" by (simp add: newest_def)
  have le: "ts_at c r \<le> ts_at c ?z" "ts_at c y \<le> ts_at c ?z"
    using after_ts_at [OF ts(2,1)] by auto
  from Cons.IH [OF ok] have n: "newest c ?z ys \<in> set (?z # ys)" "ts_at c ?z \<le> ts_at c (newest c ?z ys)"
    "\<forall>x \<in> set ys. ts_at c x \<le> ts_at c (newest c ?z ys)" by simp_all
  from n(1) have "newest c ?z ys \<in> set (r # y # ys)" by (auto split: if_splits)
  with n le show ?case unfolding step by force
qed (simp add: newest_def stamped_def)

lemma distinct_on_spec:
  assumes "stamped c rows"
  shows "distinct (map (\<lambda>x. d_get x key) (distinct_on key c rows))
    \<and> (\<lambda>x. d_get x key) ` set (distinct_on key c rows) = (\<lambda>x. d_get x key) ` set rows
    \<and> (\<forall>x \<in> set (distinct_on key c rows). x \<in> set rows
         \<and> (\<forall>y \<in> set rows. d_get y key = d_get x key \<longrightarrow> ts_at c y \<le> ts_at c x))"
  using assms
proof (induction key c rows rule: distinct_on.induct)
  case (2 key c r rows)
  let ?same = "filter (\<lambda>x. d_get x key = d_get r key) rows"
  let ?other = "filter (\<lambda>x. d_get x key \<noteq> d_get r key) rows"
  have st: "stamped c (r # ?same)" "stamped c ?other" using 2(2) by (auto simp: stamped_def list_all_iff)
  note ih = 2(1) [OF st(2)] and n = newest_spec [OF st(1)]
  let ?n = "newest c r ?same"
  have k: "d_get ?n key = d_get r key" and mem: "?n \<in> set (r # rows)" using n by auto
  have keys: "(\<lambda>x. d_get x key) ` set (distinct_on key c ?other) = (\<lambda>x. d_get x key) ` set ?other"
    by (rule ih [THEN conjunct2, THEN conjunct1])
  have fresh: "d_get r key \<notin> (\<lambda>x. d_get x key) ` set (distinct_on key c ?other)" unfolding keys by auto
  have "distinct (map (\<lambda>x. d_get x key) (distinct_on key c (r # rows)))"
    using ih [THEN conjunct1] k fresh by simp
  moreover have "(\<lambda>x. d_get x key) ` set (distinct_on key c (r # rows)) = (\<lambda>x. d_get x key) ` set (r # rows)"
    unfolding distinct_on.simps list.set image_insert keys k by auto
  moreover have "x \<in> set (r # rows) \<and> (\<forall>y \<in> set (r # rows). d_get y key = d_get x key \<longrightarrow> ts_at c y \<le> ts_at c x)"
    if x: "x \<in> set (distinct_on key c (r # rows))" for x
  proof (cases "x = ?n")
    case True
    with k mem n show ?thesis by auto
  next
    case False
    with x have x: "x \<in> set (distinct_on key c ?other)" by simp
    note m = bspec [OF ih [THEN conjunct2, THEN conjunct2] x]
    show ?thesis
    proof (intro conjI ballI impI)
      show "x \<in> set (r # rows)" using m [THEN conjunct1] by simp
      fix y assume y: "y \<in> set (r # rows)" "d_get y key = d_get x key"
      have "d_get x key \<noteq> d_get r key" using m [THEN conjunct1] by simp
      with y have "y \<in> set ?other" by auto
      from bspec [OF m [THEN conjunct2] this] y(2) show "ts_at c y \<le> ts_at c x" by blast
    qed
  qed
  ultimately show ?case by blast
qed simp

lemma filter_key_unique:
  assumes "distinct (map f xs)" "x \<in> set xs" "f x = k"
  shows "filter (\<lambda>y. f y = k) xs = [x]"
  using assms
proof (induction xs)
  case (Cons y ys)
  show ?case
  proof (cases "x = y")
    case True
    with Cons.prems have "\<forall>z \<in> set ys. f z \<noteq> k" by (metis distinct.simps(2) image_eqI list.set_map list.simps(9))
    with True Cons.prems(3) show ?thesis by (simp add: filter_empty_conv)
  qed (use Cons in auto)
qed simp

text \<open>So the key of a row has exactly one row in the result, the newest of the key.\<close>

lemma distinct_on_row:
  assumes "stamped c rows" "y \<in> set rows"
  shows "\<exists>x. filter (\<lambda>z. d_get z key = d_get y key) (distinct_on key c rows) = [x] \<and> x \<in> set rows
    \<and> d_get x key = d_get y key \<and> (\<forall>z \<in> set rows. d_get z key = d_get y key \<longrightarrow> ts_at c z \<le> ts_at c x)"
proof -
  note spec = distinct_on_spec [OF assms(1), of key]
  have "d_get y key \<in> (\<lambda>x. d_get x key) ` set (distinct_on key c rows)"
    unfolding spec [THEN conjunct2, THEN conjunct1] using assms(2) by (rule imageI)
  then obtain x where x: "x \<in> set (distinct_on key c rows)" "d_get x key = d_get y key" by (rule imageE) simp
  note m = bspec [OF spec [THEN conjunct2, THEN conjunct2] x(1), unfolded x(2)]
  have "filter (\<lambda>z. d_get z key = d_get y key) (distinct_on key c rows) = [x]"
    by (rule filter_key_unique [where f = "\<lambda>z. d_get z key", OF spec [THEN conjunct1] x])
  with m x(2) show ?thesis by (intro exI [of _ x] conjI) simp_all
qed

section \<open>The declared column types\<close>

fun is_int :: "pyval \<Rightarrow> bool" where
  "is_int (PInt _) = True"
| "is_int _ = False"

fun is_ts :: "pyval \<Rightarrow> bool" where
  "is_ts (PDatetime _) = True"
| "is_ts _ = False"

fun is_str :: "pyval \<Rightarrow> bool" where
  "is_str (PStr _) = True"
| "is_str _ = False"

definition is_num :: "pyval \<Rightarrow> bool" where
  "is_num v \<longleftrightarrow> number v \<noteq> None"

definition COLUMN_TYPES :: "(string \<times> (string \<times> (pyval \<Rightarrow> bool)) list) list" where
  "COLUMN_TYPES =
     [(''analytics_marts.dim_cities'', [(''city_id'', is_int), (''city_name'', is_str), (''center_lat'', is_num), (''center_lon'', is_num)]),
      (''raw.ride_sessions'', [(''city_id'', is_int), (''requested_ts'', is_ts)]),
      (''raw.driver_locations'', [(''ts'', is_ts)]),
      (''serving.dq_results'', [(''run_at'', is_ts)])]"

definition typed_frame :: "(string \<times> (pyval \<Rightarrow> bool)) list \<Rightarrow> frame \<Rightarrow> bool" where
  "typed_frame cs rows = list_all (\<lambda>row. list_all (\<lambda>(c, ok). ok (d_get row c)) cs) rows"

definition typed_db :: "dash_db \<Rightarrow> bool" where
  "typed_db D = list_all (\<lambda>(t, cs). case db_relation D t of None \<Rightarrow> True | Some rows \<Rightarrow> typed_frame cs rows) COLUMN_TYPES"

lemma typed_dbD:
  assumes "typed_db D"
  shows "db_relation D ''analytics_marts.dim_cities'' = Some rows \<Longrightarrow> row \<in> set rows \<Longrightarrow>
      is_int (d_get row ''city_id'') \<and> is_num (d_get row ''center_lat'') \<and> is_num (d_get row ''center_lon'')"
    and "db_relation D ''raw.ride_sessions'' = Some rows \<Longrightarrow> row \<in> set rows \<Longrightarrow>
      is_int (d_get row ''city_id'') \<and> is_ts (d_get row ''requested_ts'')"
    and "db_relation D ''raw.driver_locations'' = Some rows \<Longrightarrow> row \<in> set rows \<Longrightarrow> is_ts (d_get row ''ts'')"
    and "db_relation D ''serving.dq_results'' = Some rows \<Longrightarrow> row \<in> set rows \<Longrightarrow> is_ts (d_get row ''run_at'')"
  using assms by (auto simp: typed_db_def COLUMN_TYPES_def typed_frame_def list_all_iff)

lemma is_int_py_int: "is_int v \<Longrightarrow> \<exists>i. py_int v = Inr i \<and> v = PInt i"
  by (cases v) auto

lemma is_num_as_num: "is_num v \<Longrightarrow> \<exists>x. as_num v = Inr x"
  by (cases v) (auto simp: is_num_def)

lemma is_ts_show: "is_ts v \<Longrightarrow> \<exists>s. show_time F v = Inr s"
  by (cases v) auto

lemma is_ts_ts_of: "is_ts (d_get row c) \<Longrightarrow> \<exists>us. ts_of c row = Some us \<and> d_get row c = PDatetime us"
  unfolding ts_of_def by (cases "d_get row c") auto

lemma d_get_project: "c \<in> set cs \<Longrightarrow> d_get (project cs row) c = d_get row c"
  by (induction cs) (auto simp: project_def d_get_def)

section \<open>No part of the page raises\<close>

lemma then_page_Inr: "\<exists>xs. p = Inr xs \<Longrightarrow> \<exists>ys. q = Inr ys \<Longrightarrow> \<exists>zs. then_page p q = Inr zs"
  by (auto simp: then_page_def)

lemma returned: "\<exists>zs. Inr xs = Inr zs"
  by blast

lemma query_df_from:
  "query_df (rbind (from_relation D t) (\<lambda>rows. Inr (g rows)))
     = (if db_reachable D then (case db_relation D t of None \<Rightarrow> [] | Some rows \<Rightarrow> g rows) else [])"
  by (simp add: query_df_def from_relation_def split: option.split)

lemma in_query_df:
  "row \<in> set (query_df (rbind (from_relation D t) (\<lambda>rows. Inr (g rows))))
     \<longleftrightarrow> db_reachable D \<and> (\<exists>rows. db_relation D t = Some rows \<and> row \<in> set (g rows))"
  unfolding query_df_from by (cases "db_reachable D"; cases "db_relation D t") simp_all

lemma p95_result_ok: "p95_result (dropna (query_df (rbind r (\<lambda>rows. Inr (p95_frame (h rows)))))) s
    \<in> {None} \<union> {Some (Inr [[(''p95_sec'', PFloat x), (''source'', PStr s)]]) | x. True}"
proof (cases r)
  case (Inr rows)
  then show ?thesis
    by (cases "h rows") (simp_all add: query_df_def p95_frame_def dropna_def p95_result_def d_get_def)
qed (simp add: query_df_def dropna_def p95_result_def)

lemma fetch_p95_cases:
  obtains "fetch_p95_time_to_match D = Inr []"
  | x s where "fetch_p95_time_to_match D = Inr [[(''p95_sec'', PFloat x), (''source'', PStr s)]]"
proof -
  let ?avg = "\<lambda>rows. sql_avg (numbers ''p95_time_to_match_sec''
      (filter (after ''window_end'' (minus_us (max_ts ''window_end'' rows) (minutes_us 15))) rows))"
  let ?pct = "\<lambda>rows. percentile_cont (95 / 100) (numbers ''time_to_match_sec'' rows)"
  note a = p95_result_ok [of "from_relation D ''flink.city_metrics_full''" ?avg "''Flink 1-min windows''"]
  note b = p95_result_ok [of "from_relation D ''analytics_marts.fct_rides''" ?pct "''fct_rides percentile''"]
  show ?thesis using a b that unfolding fetch_p95_time_to_match_def Let_def by auto
qed

lemma stats_rows:
  "row \<in> set (fetch_ride_stats D) \<Longrightarrow> \<exists>x. d_get row ''completion_rate'' = PFloat x"
  by (auto simp: fetch_ride_stats_def in_query_df Let_def completion_rate_def d_get_def)

lemma rate_metric_total:
  assumes "\<And>row. row \<in> set stats \<Longrightarrow> \<exists>x. d_get row ''completion_rate'' = PFloat x"
  shows "\<exists>els. rate_metric F stats = Inr els"
proof -
  have f: "\<exists>x. d_get row ''completion_rate'' = PFloat x" if "bucket_rows b stats = row # rest" for b row rest
    using assms [of row] that by (metis bucket_rows_def filter_eq_ConsD in_set_conv_decomp)
  show ?thesis
  proof (cases "bucket_rows ''cur'' stats")
    case (Cons c cs)
    with f obtain x where x: "d_get c ''completion_rate'' = PFloat x" by blast
    show ?thesis
    proof (cases "bucket_rows ''prev'' stats")
      case prev: (Cons p ps)
      with f obtain y where "d_get p ''completion_rate'' = PFloat y" by blast
      with x Cons prev show ?thesis by (simp add: rate_metric_def Let_def)
    qed (use x Cons in \<open>simp add: rate_metric_def Let_def\<close>)
  qed (simp add: rate_metric_def)
qed

lemma totals_cases:
  obtains "fetch_ride_totals D = []"
  | n k t where "fetch_ride_totals D = [[(''rides_closed'', PInt n), (''rides_completed'', PInt k),
      (''max_requested_ts'', of_opt_ts t)]]"
  by (cases "db_reachable D"; cases "db_relation D ''raw.ride_sessions''")
    (simp_all add: fetch_ride_totals_def query_df_from count_star_def)

lemma render_stats_row_total: "\<exists>els. render_stats_row F D positions = Inr els"
proof -
  obtain p95 where p: "fetch_p95_time_to_match D = Inr p95" "\<exists>els. p95_metric F p95 = Inr els"
    by (rule fetch_p95_cases [of D]) (auto simp: p95_metric_def d_get_def)
  have "\<exists>els. closed_metric (fetch_ride_totals D) = Inr els"
    by (rule totals_cases [of D]) (auto simp: closed_metric_def d_get_def)
  moreover have "\<exists>els. fleet_metric positions = Inr els" by (simp add: fleet_metric_def)
  ultimately show ?thesis
    unfolding render_stats_row_def p(1) rbind_Inr
    by (intro then_page_Inr p(2) rate_metric_total stats_rows)
qed

lemma city_rows:
  assumes "typed_db D" "row \<in> set (fetch_cities D)"
  shows "is_int (d_get row ''city_id'') \<and> is_num (d_get row ''center_lat'') \<and> is_num (d_get row ''center_lon'')"
  using assms(2) typed_dbD(1) [OF assms(1)]
  by (auto simp: fetch_cities_def in_query_df d_get_project)

lemma render_map_total:
  assumes "typed_db D"
  shows "\<exists>els. render_map F (fetch_cities D) positions city = Inr els"
proof -
  have "\<exists>v. compute_view_state (fetch_cities D) positions city = Inr v"
  proof (cases "filter (\<lambda>r. d_get r ''city_name'' = PStr city) (fetch_cities D)")
    case (Cons row rest)
    then have "row \<in> set (fetch_cities D)" by (metis filter_eq_ConsD in_set_conv_decomp)
    with city_rows [OF assms] obtain a b where "as_num (d_get row ''center_lat'') = Inr a" "as_num (d_get row ''center_lon'') = Inr b"
      using is_num_as_num by meson
    with Cons show ?thesis by (simp add: compute_view_state_def Let_def)
  qed (simp add: compute_view_state_def Let_def)
  then show ?thesis unfolding render_map_def by (intro then_page_Inr) auto
qed

lemma rmap_returns: "(\<And>x. x \<in> set xs \<Longrightarrow> \<exists>y. f x = Inr y) \<Longrightarrow> \<exists>ys. rmap f xs = Inr ys"
proof (induction xs)
  case (Cons x xs)
  then obtain y ys where "f x = Inr y" "rmap f xs = Inr ys" by (meson list.set_intros)
  then show ?case by simp
qed simp

lemma city_name_map_total:
  assumes "typed_db D"
  shows "\<exists>names. city_name_map (fetch_cities D) = Inr names"
proof -
  obtain ids where "rmap (\<lambda>row. py_int (d_get row ''city_id'')) (fetch_cities D) = Inr ids"
    using rmap_returns [of "fetch_cities D" "\<lambda>row. py_int (d_get row ''city_id'')"] city_rows [OF assms] is_int_py_int
    by meson
  then show ?thesis by (simp add: city_name_map_def)
qed

lemma groups_by_in: "(k, g) \<in> set (groups_by f rows) \<Longrightarrow> \<exists>r \<in> set rows. k = f r \<and> g = filter (\<lambda>x. f x = f r) rows"
  by (auto simp: groups_by_def)

lemma per_minute_rows:
  assumes "typed_db D" "row \<in> set (fetch_rides_per_minute D hours)"
  shows "\<exists>us cid n. row = [(''minute_ts'', PDatetime us), (''city_id'', PInt cid), (''rides'', PInt n)]"
proof -
  let ?recent = "\<lambda>rows. filter (after ''requested_ts'' (minus_us (max_ts ''requested_ts'' rows) (hours_us hours))) rows"
  from assms(2) obtain rows k g where r: "db_relation D ''raw.ride_sessions'' = Some rows"
    "(k, g) \<in> set (groups_by (\<lambda>r. (minute_of r, d_get r ''city_id'')) (?recent rows))"
    "row = [(''minute_ts'', of_opt_ts (fst k)), (''city_id'', snd k), (''rides'', count_star g)]"
    by (auto simp: fetch_rides_per_minute_def in_query_df Let_def)
  from groups_by_in [OF r(2)] obtain x where x: "x \<in> set rows" "k = (minute_of x, d_get x ''city_id'')" by auto
  with typed_dbD(2) [OF assms(1) r(1) x(1)] is_int_py_int [of "d_get x ''city_id''"] is_ts_ts_of [of x "''requested_ts''"]
  obtain us cid where "minute_of x = Some us" "d_get x ''city_id'' = PInt cid" by (auto simp: minute_of_def)
  with r(3) x(2) show ?thesis by (simp add: of_opt_ts_def count_star_def)
qed

lemma chart_labels:
  assumes "typed_db D"
  obtains names labels where "city_name_map (fetch_cities D) = Inr names"
    "rmap (city_label F names) (fetch_rides_per_minute D hours) = Inr labels"
proof -
  obtain names where n: "city_name_map (fetch_cities D) = Inr names" using city_name_map_total [OF assms] by blast
  have "\<exists>l. city_label F names row = Inr l" if "row \<in> set (fetch_rides_per_minute D hours)" for row
    using per_minute_rows [OF assms that] by (auto simp: city_label_def d_get_def)
  with rmap_returns that n show thesis by metis
qed

lemma render_rides_chart_total:
  assumes "typed_db D"
  shows "\<exists>els. render_rides_chart F D (fetch_cities D) hours = Inr els"
proof -
  obtain names labels where "city_name_map (fetch_cities D) = Inr names"
    "rmap (city_label F names) (fetch_rides_per_minute D hours) = Inr labels" by (rule chart_labels [OF assms])
  then show ?thesis
    unfolding render_rides_chart_def by (intro then_page_Inr) (auto simp: Let_def split: prod.split)
qed

lemma dq_rows_typed:
  assumes "typed_db D" "s \<in> set (fetch_dq_latest D)"
  shows "is_ts (ds_run_at s)"
proof -
  from assms(2) obtain rows x where r: "db_relation D ''serving.dq_results'' = Some rows"
    "x \<in> set (distinct_on ''suite'' ''run_at'' rows)" "s = summarise_run rows x"
    by (auto simp: fetch_dq_latest_def from_relation_def split: sum.splits option.splits if_splits)
  note t = typed_dbD(4) [OF assms(1) r(1)]
  then have "stamped ''run_at'' rows" using is_ts_ts_of by (fastforce simp: stamped_def list_all_iff)
  from distinct_on_spec [OF this] r(2) have "x \<in> set rows" by blast
  with t r(3) show ?thesis by (simp add: summarise_run_def Let_def)
qed

lemma render_dq_strip_total:
  assumes "typed_db D"
  shows "\<exists>els. render_dq_strip F D = Inr els"
proof -
  have "\<exists>els. dq_card F s = Inr els" if "s \<in> set (fetch_dq_latest D)" for s
    using is_ts_show [OF dq_rows_typed [OF assms that], of F] by (auto simp: dq_card_def Let_def)
  then obtain cards where "rmap (dq_card F) (fetch_dq_latest D) = Inr cards"
    using rmap_returns [of "fetch_dq_latest D" "dq_card F"] by blast
  then show ?thesis unfolding render_dq_strip_def by (intro then_page_Inr) (auto simp: Let_def)
qed

lemma sim_clock_caption_total: "\<exists>els. sim_clock_caption F dsn (fetch_ride_totals D) = Inr els"
  by (rule totals_cases [of D]) (auto simp: sim_clock_caption_def d_get_def of_opt_ts_def split: option.split)

section \<open>The page never raises\<close>

text \<open>Only placeholders: no figure, no map, no chart and no error.\<close>

definition placeholders_only :: "element list \<Rightarrow> bool" where
  "placeholders_only els = list_all (\<lambda>e. case e of
     Metric _ value_ delta _ \<Rightarrow> value_ = ''no data'' \<and> delta = None
   | DriverMap _ _ \<Rightarrow> False | LineChart _ _ \<Rightarrow> False | ErrorBox _ \<Rightarrow> False | _ \<Rightarrow> True) els"

lemma unreachable_fetches:
  assumes "\<not> db_reachable D"
  shows "fetch_health D = []" "fetch_cities D = []" "fetch_driver_positions D = []"
    "fetch_rides_per_minute D hours = []" "fetch_ride_stats D = []" "fetch_ride_totals D = []"
    "fetch_p95_time_to_match D = Inr []" "fetch_dq_latest D = []"
  using assms
  by (simp_all add: fetch_health_def fetch_cities_def fetch_driver_positions_def fetch_rides_per_minute_def
      fetch_ride_stats_def fetch_ride_totals_def fetch_p95_time_to_match_def fetch_dq_latest_def
      query_df_def from_relation_def dropna_def p95_result_def)

lemma unreachable_page:
  assumes "\<not> db_reachable D"
  shows "\<exists>els w. main_page F env D pick hours = Inr els \<and> placeholders_only els \<and> Warn w \<in> set els"
  by (simp add: main_page_def dashboard_def Let_def unreachable_fetches [OF assms] render_stats_row_def
      rate_metric_def bucket_rows_def p95_metric_def closed_metric_def fleet_metric_def render_map_def
      render_rides_chart_def render_dq_strip_def sim_clock_caption_def then_page_def placeholders_only_def)

text \<open>C35: the dashboard never shows a stack trace. Whatever relations exist, however many rows they
  have, and whatever the user chooses, the page is drawn, as long as the columns have the declared
  types; and with Postgres unreachable it warns and shows placeholders only.\<close>

theorem dashboard_never_raises:
  assumes "typed_db D"
  shows "\<exists>els. main_page F env D pick hours = Inr els
    \<and> (db_reachable D \<or> placeholders_only els \<and> (\<exists>w. Warn w \<in> set els))"
proof (cases "db_reachable D")
  case True
  have "\<exists>els. main_page F env D pick hours = Inr els"
    unfolding main_page_def dashboard_def Let_def
    by (intro then_page_Inr render_stats_row_total render_map_total [OF assms] render_rides_chart_total [OF assms]
        render_dq_strip_total [OF assms] sim_clock_caption_total returned)
  with True show ?thesis by blast
qed (use unreachable_page in blast)

text \<open>The witness: an empty data base that is reachable, and one that is not.\<close>

definition plain_formats :: formats where
  "plain_formats = \<lparr>fm_fixed = (\<lambda>_ x. int_digits \<lfloor>x\<rfloor>), fm_signed = (\<lambda>_ x. int_digits \<lfloor>x\<rfloor>), fm_time = int_digits,
     fm_str = (\<lambda>_. ''?'')\<rparr>"

theorem dashboard_never_raises_witness:
  "\<exists>els els'. main_page plain_formats (\<lambda>_. None) \<lparr>db_reachable = True, db_relation = (\<lambda>_. Some [])\<rparr> hd 2 = Inr els
    \<and> main_page plain_formats (\<lambda>_. None) \<lparr>db_reachable = False, db_relation = (\<lambda>_. None)\<rparr> hd 2 = Inr els'
    \<and> placeholders_only els'"
  using dashboard_never_raises [of "\<lparr>db_reachable = True, db_relation = (\<lambda>_. Some [])\<rparr>" plain_formats "\<lambda>_. None" hd 2]
    dashboard_never_raises [of "\<lparr>db_reachable = False, db_relation = (\<lambda>_. None)\<rparr>" plain_formats "\<lambda>_. None" hd 2]
  by (auto simp: typed_db_def COLUMN_TYPES_def typed_frame_def)

section \<open>The chart\<close>

lemma sum_by_key:
  fixes w :: "'a \<Rightarrow> int"
  assumes "finite S" "f ` set xs \<subseteq> S"
  shows "(\<Sum>k\<in>S. sum_list (map w (filter (\<lambda>x. f x = k) xs))) = sum_list (map w xs)"
  using assms(2)
proof (induction xs)
  case (Cons x xs)
  have "(\<Sum>k\<in>S. sum_list (map w (filter (\<lambda>x. f x = k) (x # xs))))
      = (\<Sum>k\<in>S. (if f x = k then w x else 0) + sum_list (map w (filter (\<lambda>x. f x = k) xs)))"
    by (intro sum.cong) auto
  also have "\<dots> = w x + (\<Sum>k\<in>S. sum_list (map w (filter (\<lambda>x. f x = k) xs)))"
    using Cons.prems assms(1) by (simp add: sum.distrib)
  finally show ?case using Cons by simp
qed simp

lemma groups_by_Nil: "groups_by f rows = [] \<longleftrightarrow> rows = []"
  by (simp add: groups_by_def)

lemma groups_by_length: "sum_list (map (\<lambda>(_, g). int (length g)) (groups_by f rows)) = int (length rows)"
proof -
  have "sum_list (map (\<lambda>(_, g). int (length g)) (groups_by f rows))
      = (\<Sum>k\<in>f ` set rows. sum_list (map (\<lambda>_. 1) (filter (\<lambda>r. f r = k) rows)))"
    by (simp add: groups_by_def comp_def sum_list_distinct_conv_sum_set sum_list_triv)
  also have "\<dots> = int (length rows)" using sum_by_key [of "f ` set rows" f rows "\<lambda>_. 1"] by (simp add: sum_list_triv)
  finally show ?thesis .
qed

lemma pivot_table_sum:
  "sum_list (concat (map snd (snd (pivot_table cells)))) = sum_list (map (\<lambda>(_, _, n). n) cells)"
proof -
  let ?M = "(\<lambda>(m, _, _). m) ` set cells" and ?L = "(\<lambda>(_, l, _). l) ` set cells"
  let ?s = "\<lambda>m l. sum_list (map (\<lambda>(_, _, n). n) (filter (\<lambda>(m', l', _). m' = m \<and> l' = l) cells))"
  have cc: "sum_list (concat xss) = sum_list (map sum_list xss)" for xss :: "int list list"
    by (induction xss) simp_all
  have sum: "sum_list (map h (sort (remdups xs))) = (\<Sum>x\<in>set xs. h x)" for h :: "'b::linorder \<Rightarrow> int" and xs
    by (simp add: sum_list_distinct_conv_sum_set)
  have "sum_list (concat (map snd (snd (pivot_table cells)))) = (\<Sum>m\<in>?M. \<Sum>l\<in>?L. ?s m l)"
    by (simp add: pivot_table_def Let_def comp_def cc sum)
  also have "\<dots> = (\<Sum>k\<in>?M \<times> ?L. ?s (fst k) (snd k))"
    by (simp add: sum.cartesian_product split_def)
  also have "\<dots> = (\<Sum>k\<in>?M \<times> ?L. sum_list (map (\<lambda>(_, _, n). n) (filter (\<lambda>c. (fst c, fst (snd c)) = k) cells)))"
    by (intro sum.cong refl arg_cong [where f = sum_list] arg_cong [where f = "map _"] filter_cong) auto
  also have "\<dots> = sum_list (map (\<lambda>(_, _, n). n) cells)"
    by (rule sum_by_key) force+
  finally show ?thesis .
qed

lemma sum_list_sort_key: "sum_list (map h (sort_key k xs)) = sum_list (map h xs)" for h :: "'a \<Rightarrow> int"
proof -
  have "sum_list (map h (insort_key k x ys)) = h x + sum_list (map h ys)" for x ys
    by (induction ys) auto
  then show ?thesis unfolding sort_key_def by (induction xs) simp_all
qed

lemma max_ts_newest:
  assumes "rows \<noteq> []" "stamped c rows"
  obtains r where "r \<in> set rows" "max_ts c rows = ts_of c r"
proof -
  have ne: "List.map_filter (ts_of c) rows = map (ts_at c) rows"
    using assms(2) by (induction rows) (auto simp: stamped_def List.map_filter_simps)
  obtain x xs where x: "rows = x # xs" using assms(1) by (cases rows) auto
  have "fold max ts t \<in> set (t # ts)" for t and ts :: "int list"
    by (induction ts arbitrary: t) (auto simp: max_def split: if_splits)
  from this [of "map (ts_at c) xs" "ts_at c x"]
  have "fold max (map (ts_at c) xs) (ts_at c x) \<in> set (map (ts_at c) rows)" by (simp add: x)
  then obtain r where r: "r \<in> set rows" "fold max (map (ts_at c) xs) (ts_at c x) = ts_at c r" by auto
  moreover have "ts_of c r \<noteq> None" using r(1) assms(2) by (simp add: stamped_def list_all_iff)
  ultimately show thesis using that [of r] ne by (simp add: max_ts_def x)
qed

lemma chart_cells_sum:
  assumes "\<And>row. row \<in> set pm \<Longrightarrow> \<exists>us cid n. row = [(''minute_ts'', PDatetime us), (''city_id'', PInt cid), (''rides'', PInt n)]"
    and "length labels = length pm"
  shows "sum_list (map (\<lambda>(_, _, n). n) (List.map_filter (\<lambda>(row, label). chart_cell row label) (zip pm labels)))
    = sum_list (map (\<lambda>row. int_key (d_get row ''rides'')) pm)"
  using assms
proof (induction pm arbitrary: labels)
  case (Cons row pm)
  obtain l ls where l: "labels = l # ls" using Cons.prems(2) by (cases labels) auto
  obtain us cid n where "row = [(''minute_ts'', PDatetime us), (''city_id'', PInt cid), (''rides'', PInt n)]"
    using Cons.prems(1) [of row] by auto
  moreover have "sum_list (map (\<lambda>(_, _, n). n) (List.map_filter (\<lambda>(row, label). chart_cell row label) (zip pm ls)))
      = sum_list (map (\<lambda>row. int_key (d_get row ''rides'')) pm)"
    by (rule Cons.IH) (use Cons.prems l in auto)
  ultimately show ?case by (simp add: l chart_cell_def List.map_filter_simps ts_of_def d_get_def)
qed (simp add: List.map_filter_simps)

text \<open>The chart shows every session of its window exactly once. The values it plots, over all minutes
  and cities, sum up to the number of sessions requested less than the chosen hours before the newest
  one, a session being counted under one minute and one city label even where labels coincide; with a
  positive window and some session there is a chart.\<close>

theorem chart_counts_every_session:
  assumes "typed_db D" "db_reachable D" "db_relation D ''raw.ride_sessions'' = Some rows" "rows \<noteq> []" "0 < hours"
  shows "\<exists>els labels vals. render_rides_chart F D (fetch_cities D) hours = Inr els \<and> LineChart labels vals \<in> set els
    \<and> sorted (map fst vals)
    \<and> sum_list (concat (map snd vals))
      = int (length (filter (after ''requested_ts'' (minus_us (max_ts ''requested_ts'' rows) (hours_us hours))) rows))"
proof -
  let ?recent = "filter (after ''requested_ts'' (minus_us (max_ts ''requested_ts'' rows) (hours_us hours))) rows"
  let ?pm = "fetch_rides_per_minute D hours"
  let ?row = "\<lambda>((minute, city), g). [(''minute_ts'', of_opt_ts minute), (''city_id'', city), (''rides'', count_star g)]"
  have row_rides: "int_key (d_get (?row kg) ''rides'') = (case kg of (_, g) \<Rightarrow> int (length g))" for kg
    by (cases kg) (auto simp: d_get_def count_star_def)
  have st: "stamped ''requested_ts'' rows"
    using typed_dbD(2) [OF assms(1,3)] is_ts_ts_of by (fastforce simp: stamped_def list_all_iff)
  obtain r where r: "r \<in> set rows" "max_ts ''requested_ts'' rows = ts_of ''requested_ts'' r"
    by (rule max_ts_newest [OF assms(4) st])
  then have "r \<in> set ?recent"
    using st assms(5) by (auto simp: stamped_def list_all_iff after_def minus_us_def hours_us_def minutes_us_def)
  then have "?recent \<noteq> []" by (metis empty_iff empty_set)
  have pm: "?pm = sort_key (\<lambda>r. case ts_of ''minute_ts'' r of Some us \<Rightarrow> us | None \<Rightarrow> 0)
      (map ?row (groups_by (\<lambda>r. (minute_of r, d_get r ''city_id'')) ?recent))"
    using assms(2,3) by (simp add: fetch_rides_per_minute_def query_df_from Let_def)
  then have len: "length ?pm = length (groups_by (\<lambda>r. (minute_of r, d_get r ''city_id'')) ?recent)"
    by (simp only: length_sort length_map)
  have "length ?pm \<noteq> 0" unfolding len length_0_conv groups_by_Nil by (rule \<open>?recent \<noteq> []\<close>)
  then have ne: "?pm \<noteq> []" unfolding length_0_conv .
  obtain names labels where l: "city_name_map (fetch_cities D) = Inr names"
    "rmap (city_label F names) ?pm = Inr labels" by (rule chart_labels [OF assms(1)])
  let ?cells = "List.map_filter (\<lambda>(row, label). chart_cell row label) (zip ?pm labels)"
  obtain cols vals where pv: "pivot_table ?cells = (cols, vals)" by (metis surj_pair)
  have "sum_list (concat (map snd vals)) = sum_list (map (\<lambda>row. int_key (d_get row ''rides'')) ?pm)"
    using pivot_table_sum [of ?cells] chart_cells_sum [OF per_minute_rows [OF assms(1)] rmap_length [OF l(2)]] pv by simp
  also have "\<dots> = sum_list (map (\<lambda>(_, g). int (length g)) (groups_by (\<lambda>r. (minute_of r, d_get r ''city_id'')) ?recent))"
    unfolding pm sum_list_sort_key map_map comp_def row_rides ..
  also have "\<dots> = int (length ?recent)" by (rule groups_by_length)
  finally have "sum_list (concat (map snd vals)) = int (length ?recent)" .
  moreover have "sorted (map fst vals)" using arg_cong [OF pv, of snd] by (auto simp: pivot_table_def Let_def comp_def)
  ultimately show ?thesis using ne l pv by (simp add: render_rides_chart_def then_page_def Let_def)
qed

text \<open>The witness: two sessions of one minute and city and one two hours older, outside the window.\<close>

definition dash_session :: "int \<Rightarrow> payload" where
  "dash_session minute =
     [(''city_id'', PInt 1), (''requested_ts'', PDatetime (minutes_us minute)), (''terminal_state'', PStr ''completed'')]"

definition dash_sessions :: frame where
  "dash_sessions = [dash_session 0, dash_session 120, dash_session 120]"

definition dash_demo_db :: dash_db where
  "dash_demo_db = \<lparr>db_reachable = True,
     db_relation = (\<lambda>t. if t = ''raw.ride_sessions'' then Some dash_sessions else None)\<rparr>"

theorem chart_counts_every_session_witness:
  "\<exists>els labels vals. render_rides_chart plain_formats dash_demo_db (fetch_cities dash_demo_db) 1 = Inr els
    \<and> LineChart labels vals \<in> set els \<and> sum_list (concat (map snd vals)) = 2"
proof -
  have h: "typed_db dash_demo_db" "db_reachable dash_demo_db"
    "db_relation dash_demo_db ''raw.ride_sessions'' = Some dash_sessions" "dash_sessions \<noteq> []"
    by (simp_all add: typed_db_def COLUMN_TYPES_def typed_frame_def dash_demo_db_def dash_sessions_def dash_session_def d_get_def)
  have two: "length (filter (after ''requested_ts''
      (minus_us (max_ts ''requested_ts'' dash_sessions) (hours_us 1))) dash_sessions) = 2"
    by (simp add: dash_sessions_def dash_session_def max_ts_def after_def ts_of_def d_get_def minus_us_def
        hours_us_def minutes_us_def List.map_filter_simps)
  have "(0::int) < 1" by simp
  from chart_counts_every_session [OF h this, of plain_formats, unfolded two] show ?thesis by (simp only: of_nat_numeral) blast
qed

section \<open>The quality strip\<close>

text \<open>A row of \<open>serving.dq_results\<close> as the dashboard reads it, with the \<open>run_at\<close> of its transaction.\<close>

definition dq_payload :: "dq_row \<times> int \<Rightarrow> payload" where
  "dq_payload = (\<lambda>(r, run_at).
     [(''run_id'', PStr (dq_run_id r)), (''suite'', PStr (dq_suite r)), (''expectation'', PStr (dq_expectation r)),
      (''column_name'', of_opt_str (dq_column_name r)), (''success'', PBool (dq_success r)),
      (''element_count'', of_opt_int (dq_element_count r)), (''unexpected_count'', of_opt_int (dq_unexpected_count r)),
      (''mode'', PStr (dq_mode r)), (''run_at'', PDatetime run_at)])"

lemma dq_payload_get [simp]:
  "d_get (dq_payload (r, t)) ''run_id'' = PStr (dq_run_id r)" "d_get (dq_payload (r, t)) ''suite'' = PStr (dq_suite r)"
  "d_get (dq_payload (r, t)) ''success'' = PBool (dq_success r)" "ts_of ''run_at'' (dq_payload (r, t)) = Some t"
  by (simp_all add: dq_payload_def d_get_def ts_of_def)

lemma passed_row_payload [simp]: "passed_row (dq_payload (r, t)) = dq_success r"
  by (simp add: passed_row_def)

lemma run_once_outcomes:
  assumes "run_once env mode minutes run_id now db = (Inr outcomes, db')"
  obtains raw fct where "outcomes = [suite_outcome ''raw_rides_events'' (result_rows (gx_render env) run_id ''raw_rides_events'' mode raw),
      suite_outcome ''fct_rides'' (result_rows (gx_render env) run_id ''fct_rides'' mode fct)]"
    "db' = db @ result_rows (gx_render env) run_id ''raw_rides_events'' mode raw
           @ result_rows (gx_render env) run_id ''fct_rides'' mode fct"
  using assms that
  by (auto simp: run_once_def Let_def persist_def suite_outcome_def split: sum.splits)

lemma result_rows_fields:
  "r \<in> set (result_rows render run_id name mode results) \<Longrightarrow> dq_suite r = name \<and> dq_run_id r = run_id"
  by (auto simp: result_rows_def result_row_def)

lemma run_once_rows:
  assumes "run_once env mode minutes run_id now db = (Inr outcomes, db')" "outcome \<in> set outcomes"
  shows "\<exists>new. db' = db @ new \<and> filter (\<lambda>r. dq_suite r = so_suite outcome \<and> dq_run_id r = run_id) new = so_rows outcome
    \<and> (\<forall>r \<in> set new. dq_run_id r = run_id)
    \<and> so_passed outcome = length (filter dq_success (so_rows outcome))
    \<and> so_failed outcome = length (filter (\<lambda>r. \<not> dq_success r) (so_rows outcome))"
proof -
  from run_once_outcomes [OF assms(1)] obtain raw fct where o:
    "outcomes = [suite_outcome ''raw_rides_events'' (result_rows (gx_render env) run_id ''raw_rides_events'' mode raw),
      suite_outcome ''fct_rides'' (result_rows (gx_render env) run_id ''fct_rides'' mode fct)]"
    "db' = db @ result_rows (gx_render env) run_id ''raw_rides_events'' mode raw
           @ result_rows (gx_render env) run_id ''fct_rides'' mode fct" by blast
  let ?rows = "\<lambda>name results. result_rows (gx_render env) run_id name mode results"
  have sel: "filter (\<lambda>r. dq_suite r = name \<and> dq_run_id r = run_id) (?rows name' results) = (if name = name' then ?rows name' results else [])"
    for name name' results by (induction results) (simp_all add: result_rows_def result_row_def)
  have f: "so_suite (suite_outcome name rows) = name" "so_rows (suite_outcome name rows) = rows"
    "so_passed (suite_outcome name rows) = length (filter dq_success rows)" for name rows
    by (simp_all add: suite_outcome_def Let_def)
  from assms(2) show ?thesis
    unfolding o
    by (intro exI [of _ "?rows ''raw_rides_events'' raw @ ?rows ''fct_rides'' fct"])
      (auto simp: f sel suite_outcome_counts(1) dest: result_rows_fields)
qed

lemma run_rows_selected:
  assumes "list_all (\<lambda>(r, t). dq_run_id r \<noteq> run_id) old" "dq_suite r = su" "dq_run_id r = run_id"
    and "filter (\<lambda>r. dq_suite r = su \<and> dq_run_id r = run_id) new = rows"
  shows "filter (\<lambda>y. d_get y ''suite'' = d_get (dq_payload (r, t)) ''suite'' \<and> d_get y ''run_id'' = d_get (dq_payload (r, t)) ''run_id'')
      (map dq_payload (old @ map (\<lambda>r. (r, due (dq_suite r))) new)) = map (\<lambda>r. dq_payload (r, due (dq_suite r))) rows"
proof -
  have "filter (\<lambda>y. d_get y ''suite'' = d_get (dq_payload (r, t)) ''suite'' \<and> d_get y ''run_id'' = d_get (dq_payload (r, t)) ''run_id'')
      (map dq_payload old) = []"
    using assms(1-3) by (auto simp: list_all_iff filter_empty_conv)
  then show ?thesis unfolding assms(4) [symmetric] by (simp add: assms(2,3) filter_map comp_def)
qed

text \<open>C33: the strip shows the last run. After a complete run with a fresh id, committed later than all
  rows before it, each of its suites that got any result has exactly one card, and the card has the
  run's number of expectations, of passes and of failures.\<close>

theorem dashboard_shows_last_run:
  assumes "run_once env mode minutes run_id now (map fst old) = (Inr outcomes, map fst old @ new)"
    and "list_all (\<lambda>(r, t). dq_run_id r \<noteq> run_id \<and> t < run_at (dq_suite r)) old"
    and "db_reachable D"
    and "db_relation D ''serving.dq_results'' = Some (map dq_payload (old @ map (\<lambda>r. (r, run_at (dq_suite r))) new))"
    and "outcome \<in> set outcomes" "so_rows outcome \<noteq> []"
  shows "\<exists>s. filter (\<lambda>s. ds_suite s = PStr (so_suite outcome)) (fetch_dq_latest D) = [s]
    \<and> ds_expectations s = so_passed outcome + so_failed outcome
    \<and> ds_pass s = so_passed outcome \<and> length (ds_failed s) = so_failed outcome"
proof -
  let ?all = "old @ map (\<lambda>r. (r, run_at (dq_suite r))) new"
  let ?rows = "map dq_payload ?all" and ?suite = "PStr (so_suite outcome)"
  from run_once_rows [OF assms(1,5)] have n:
    "filter (\<lambda>r. dq_suite r = so_suite outcome \<and> dq_run_id r = run_id) new = so_rows outcome"
    "\<And>r. r \<in> set new \<Longrightarrow> dq_run_id r = run_id"
    "so_passed outcome = length (filter dq_success (so_rows outcome))"
    "so_failed outcome = length (filter (\<lambda>r. \<not> dq_success r) (so_rows outcome))" by auto
  obtain r0 where r0: "r0 \<in> set new" "dq_suite r0 = so_suite outcome"
    using assms(6) n(1) by (metis (mono_tags, lifting) filter_False)
  have st: "stamped ''run_at'' ?rows" by (auto simp: stamped_def list_all_iff)
  have y: "dq_payload (r0, run_at (dq_suite r0)) \<in> set ?rows" using r0(1) by auto
  have ys: "d_get (dq_payload (r0, run_at (dq_suite r0))) ''suite'' = ?suite" by (simp add: r0(2))
  obtain x where x: "filter (\<lambda>y. d_get y ''suite'' = ?suite) (distinct_on ''suite'' ''run_at'' ?rows) = [x]"
    "x \<in> set ?rows" "d_get x ''suite'' = ?suite"
    "\<forall>z \<in> set ?rows. d_get z ''suite'' = ?suite \<longrightarrow> ts_at ''run_at'' z \<le> ts_at ''run_at'' x"
    using distinct_on_row [OF st y, of "''suite''", unfolded ys] by (elim exE conjE) (rule that)
  from x(2) obtain r t where rt: "(r, t) \<in> set ?all" "x = dq_payload (r, t)" by auto
  have le: "run_at (so_suite outcome) \<le> t" using bspec [OF x(4) y, THEN mp, OF ys] by (simp add: rt(2) r0(2))
  have run: "dq_suite r = so_suite outcome" "dq_run_id r = run_id"
  proof -
    show s: "dq_suite r = so_suite outcome" using x(3) rt(2) by simp
    have "(r, t) \<notin> set old" using assms(2) le s by (auto simp: list_all_iff)
    with rt(1) n(2) show "dq_run_id r = run_id" by auto
  qed
  have "list_all (\<lambda>(r, t). dq_run_id r \<noteq> run_id) old" using assms(2) by (auto simp: list_all_iff)
  note sel = run_rows_selected [OF this run n(1), of t run_at, folded rt(2)]
  have fetch: "fetch_dq_latest D = map (summarise_run ?rows) (distinct_on ''suite'' ''run_at'' ?rows)"
    unfolding fetch_dq_latest_def from_relation_def assms(4) using assms(3) by (simp only: simp_thms if_False option.case sum.case)
  have card: "ds_suite (summarise_run ?rows y) = d_get y ''suite''" for y by (simp add: summarise_run_def Let_def)
  have "filter (\<lambda>s. ds_suite s = ?suite) (fetch_dq_latest D) = [summarise_run ?rows x]"
    unfolding fetch filter_map comp_def card x(1) by (simp only: list.map)
  moreover have "ds_expectations (summarise_run ?rows x) = so_passed outcome + so_failed outcome"
    unfolding summarise_run_def Let_def sel using sum_length_filter_compl [of dq_success "so_rows outcome"]
    by (simp add: n(3,4))
  moreover have "ds_pass (summarise_run ?rows x) = so_passed outcome"
    unfolding summarise_run_def Let_def sel by (simp add: n(3) filter_map comp_def)
  moreover have "length (ds_failed (summarise_run ?rows x)) = so_failed outcome"
    unfolding summarise_run_def Let_def sel by (simp add: n(4) filter_map comp_def)
  ultimately show ?thesis by blast
qed

text \<open>The witness: a run over a table of 400 rows after one old failure of the same suite.\<close>

definition dq_dash_old :: "(dq_row \<times> int) list" where
  "dq_dash_old = [(\<lparr>dq_run_id = ''old'', dq_suite = ''fct_rides'', dq_expectation = ''expect_other'', dq_column_name = None,
     dq_success = False, dq_element_count = None, dq_unexpected_count = None, dq_observed = None, dq_mode = ''warn''\<rparr>, 1)]"

definition dq_dash_new :: "dq_row list" where
  "dq_dash_new = drop 1 (snd (run_once (dq_demo_env 400) ''fail'' 30 ''run'' 0 (map fst dq_dash_old)))"

definition dq_dash_db :: dash_db where
  "dq_dash_db = \<lparr>db_reachable = True, db_relation = (\<lambda>t. if t = ''serving.dq_results''
     then Some (map dq_payload (dq_dash_old @ map (\<lambda>r. (r, 2)) dq_dash_new)) else None)\<rparr>"

theorem dashboard_shows_last_run_witness:
  "\<exists>s. filter (\<lambda>s. ds_suite s = PStr ''fct_rides'') (fetch_dq_latest dq_dash_db) = [s]
    \<and> ds_expectations s = 7 \<and> ds_pass s = 7 \<and> ds_failed s = []"
proof -
  let ?run = "run_once (dq_demo_env 400) ''fail'' 30 ''run'' 0 (map fst dq_dash_old)"
  let ?fct = "suite_outcome ''fct_rides'' (result_rows (\<lambda>_. []) ''run'' ''fct_rides'' ''fail''
      (map (dq_demo_result 400) (fct_rides_expectations [] 30 0)))"
  have hist: "rowcount_history pf ''fct_rides'' (map fst dq_dash_old) = []" for pf
    by (simp add: rowcount_history_def observed_counts_def dq_dash_old_def List.map_filter_simps ROW_COUNT_TYPE_def)
  let ?raw = "suite_outcome ''raw_rides_events'' (result_rows (\<lambda>_. []) ''run'' ''raw_rides_events'' ''fail''
      (map (dq_demo_result 400) raw_rides_events_expectations))"
  have run: "?run = (Inr [?raw, ?fct], map fst dq_dash_old @ so_rows ?raw @ so_rows ?fct)"
    by (simp add: run_once_def dq_demo_env_def Let_def hist persist_def suite_outcome_def)
  have new: "dq_dash_new = so_rows ?raw @ so_rows ?fct"
    unfolding dq_dash_new_def run by (simp add: dq_dash_old_def)
  have counts: "so_suite ?fct = ''fct_rides''" "so_rows ?fct \<noteq> []" "so_passed ?fct = 7" "so_failed ?fct = 0"
    by (simp_all add: suite_outcome_def Let_def result_rows_def result_row_def fct_rides_expectations_def
        rowcount_bounds_def dq_demo_result_def row_count_ok_def)
  have "\<exists>s. filter (\<lambda>s. ds_suite s = PStr (so_suite ?fct)) (fetch_dq_latest dq_dash_db) = [s]
      \<and> ds_expectations s = so_passed ?fct + so_failed ?fct
      \<and> ds_pass s = so_passed ?fct \<and> length (ds_failed s) = so_failed ?fct"
    by (rule dashboard_shows_last_run [where run_at = "\<lambda>_. 2" and run_id = "''run''" and old = dq_dash_old
          and new = dq_dash_new, OF run [folded new]])
      (simp_all add: counts dq_dash_db_def, simp add: dq_dash_old_def)
  then show ?thesis by (simp add: counts)
qed

section \<open>Over the data base of the Postgres sink\<close>

text \<open>The totals count each ride once. Over any data base the Postgres sink can have reached, with
  every redelivery, replay and re-close behind it, the dashboard's number of closed rides is the number
  of distinct rides among the session records consumed up to the stored offsets, and the number of
  completed ones does not exceed it.\<close>

theorem dashboard_counts_rides:
  assumes "partitions_ok input parts" "preachable env grp input parts x" "db_reachable D"
    and "db_relation D ''raw.ride_sessions''
      = Some (table_frame ''raw.ride_sessions'' (pg_rows (pg_db (ps_sink x)) ''raw.ride_sessions''))"
  shows "\<exists>k t. fetch_ride_totals D =
      [[(''rides_closed'', PInt (int (card (key_of ''raw.ride_sessions'' ` set (good_rows env RIDES_SESSIONS (ps_hist x)))))),
        (''rides_completed'', PInt k), (''max_requested_ts'', t)]]
    \<and> 0 \<le> k \<and> k \<le> int (card (key_of ''raw.ride_sessions'' ` set (good_rows env RIDES_SESSIONS (ps_hist x))))"
proof -
  let ?tbl = "pg_rows (pg_db (ps_sink x)) ''raw.ride_sessions''"
  have "\<exists>a. map_of UPSERTS RIDES_SESSIONS = Some (''raw.ride_sessions'', a)" by (simp add: UPSERTS_def)
  then obtain a where up: "map_of UPSERTS RIDES_SESSIONS = Some (''raw.ride_sessions'', a)" by blast
  note t = reachable_table [OF assms(1,2) up]
  have len: "length (table_frame ''raw.ride_sessions'' ?tbl)
      = card (key_of ''raw.ride_sessions'' ` set (good_rows env RIDES_SESSIONS (ps_hist x)))"
    using t(3) by (simp add: table_frame_def)
  show ?thesis
    unfolding fetch_ride_totals_def query_df_from assms(4) len [symmetric]
    using assms(3) by (simp add: count_star_def)
qed

theorem dashboard_counts_rides_witness:
  "\<exists>s k t. pg_demo_reaches (pg_demo_done s)
    \<and> fetch_ride_totals \<lparr>db_reachable = True,
          db_relation = (\<lambda>table. Some (table_frame table (pg_rows (pg_db s) table)))\<rparr>
      = [[(''rides_closed'', PInt 1), (''rides_completed'', PInt k), (''max_requested_ts'', t)]]"
proof -
  obtain s where s: "pg_demo_reaches (pg_demo_done s)" using pg_demo_reachable by blast
  have "good_rows pg_demo_env RIDES_SESSIONS pg_demo_batch
      = [pg_close_row ''abandoned'' 2 PNone, pg_close_row ''completed'' 5 (PDatetime (dt_of_ms 0))]"
    by (simp add: pg_demo_batch_def good_row_def pg_demo_rows)
  then have one: "card (key_of ''raw.ride_sessions'' ` set (good_rows pg_demo_env RIDES_SESSIONS (ps_hist (pg_demo_done s)))) = 1"
    by (simp add: pg_demo_done_def pg_demo_columns)
  let ?D = "\<lparr>db_reachable = True, db_relation = (\<lambda>table. Some (table_frame table (pg_rows (pg_db s) table)))\<rparr>"
  have "db_reachable ?D" "db_relation ?D ''raw.ride_sessions''
      = Some (table_frame ''raw.ride_sessions'' (pg_rows (pg_db (ps_sink (pg_demo_done s))) ''raw.ride_sessions''))"
    by (simp_all add: pg_demo_done_def)
  from dashboard_counts_rides [OF pg_demo_input_ok s this, unfolded one] s show ?thesis
    unfolding of_nat_1 by blast
qed

lemma location_row_ts:
  assumes "location_row v = Inr r"
  shows "column ''raw.driver_locations'' r ''ts'' = PNone \<or> (\<exists>us. column ''raw.driver_locations'' r ''ts'' = PDatetime us)"
proof -
  from assms obtain a b rest where r: "r = a # b # rest" "field_value v (DtItem ''ts'') = Inr b"
    by (auto simp: location_row_def rbind_eq_Inr)
  then obtain w where "dt_param w = Inr b" by (auto simp: rbind_eq_Inr)
  then have "b = PNone \<or> (\<exists>us. b = PDatetime us)" by (cases w) (auto simp: rbind_eq_Inr)
  moreover have "column ''raw.driver_locations'' r ''ts'' = b"
    by (simp add: r(1) column_def columns_def TABLE_COLUMNS_def d_get_def)
  ultimately show ?thesis by simp
qed

lemma good_location_ts:
  assumes "r \<in> set (good_rows env DRIVERS_LOCATIONS h)" "not_null_ok ''raw.driver_locations'' r"
  shows "\<exists>us. column ''raw.driver_locations'' r ''ts'' = PDatetime us"
proof -
  have b: "map_of ROW_BUILDERS DRIVERS_LOCATIONS = Some (\<lambda>value part off. location_row value)"
    by (simp add: ROW_BUILDERS_def)
  from assms(1) obtain v where "location_row v = Inr r"
    by (auto simp: in_good_rows row_of_msg_def lookup_key_def rbind_eq_Inr b split: option.splits)
  with location_row_ts have "column ''raw.driver_locations'' r ''ts'' = PNone
      \<or> (\<exists>us. column ''raw.driver_locations'' r ''ts'' = PDatetime us)" by blast
  moreover have "column ''raw.driver_locations'' r ''ts'' \<noteq> PNone"
    using assms(2) by (simp add: not_null_ok_def columns_def TABLE_COLUMNS_def)
  ultimately show ?thesis by blast
qed

lemma location_key: "key_of ''raw.driver_locations'' r
    = [column ''raw.driver_locations'' r ''driver_id'', column ''raw.driver_locations'' r ''ts'']"
  by (simp add: key_of_def PRIMARY_KEY_def)

lemma locations_stamped:
  assumes "partitions_ok input parts" "preachable env grp input parts x"
  shows "stamped ''ts'' (table_frame ''raw.driver_locations'' (pg_rows (pg_db (ps_sink x)) ''raw.driver_locations''))"
proof -
  let ?T = "''raw.driver_locations''" and ?good = "good_rows env DRIVERS_LOCATIONS (ps_hist x)"
  have "map_of UPSERTS DRIVERS_LOCATIONS = Some (?T, DO_NOTHING)" by (simp add: UPSERTS_def)
  note t = reachable_table [OF assms this]
  have "\<exists>us. column ?T row ''ts'' = PDatetime us" if kr: "(k, row) \<in> set (pg_rows (pg_db (ps_sink x)) ?T)" for k row
  proof -
    have "key_of ?T row = k" using t(1) kr by (auto simp: table_ok_def list_all_iff)
    moreover have "k \<in> fst ` set (pg_rows (pg_db (ps_sink x)) ?T)" using imageI [OF kr, of fst] by simp
    ultimately have "key_of ?T row \<in> key_of ?T ` set ?good" using t(2) by (simp only:)
    then obtain r where r: "r \<in> set ?good" "key_of ?T row = key_of ?T r" by (rule imageE) blast
    from r(2) have "column ?T row ''ts'' = column ?T r ''ts''" by (simp add: location_key)
    with good_location_ts [OF r(1) t(4) [OF r(1)]] show ?thesis by simp
  qed
  then show ?thesis unfolding stamped_def list_all_iff by (fastforce simp: in_table_frame ts_of_def column_frame)
qed

text \<open>C34: the map shows each driver once, at its newest ping. Over any data base the Postgres sink can
  have reached, each consumed good ping's driver has exactly one row in the positions query, and that
  row is not older than the ping.\<close>

theorem dashboard_positions_latest:
  assumes "partitions_ok input parts" "preachable env grp input parts x" "db_reachable D"
    and "db_relation D ''raw.driver_locations''
      = Some (table_frame ''raw.driver_locations'' (pg_rows (pg_db (ps_sink x)) ''raw.driver_locations''))"
    and "r \<in> set (good_rows env DRIVERS_LOCATIONS (ps_hist x))"
  shows "\<exists>p us. filter (\<lambda>p. d_get p ''driver_id'' = column ''raw.driver_locations'' r ''driver_id'') (fetch_driver_positions D) = [p]
    \<and> column ''raw.driver_locations'' r ''ts'' = PDatetime us \<and> us \<le> ts_at ''ts'' p"
proof -
  let ?T = "''raw.driver_locations''"
  let ?tbl = "pg_rows (pg_db (ps_sink x)) ?T" and ?k = "column ?T r ''driver_id''"
  let ?F = "table_frame ?T ?tbl" and ?cs = "[''driver_id'', ''ts'', ''lat'', ''lon'', ''speed_kmh'', ''status'', ''city_id'']"
  have up: "map_of UPSERTS DRIVERS_LOCATIONS = Some (?T, DO_NOTHING)" by (simp add: UPSERTS_def)
  note t = reachable_table [OF assms(1,2) up]
  note st = locations_stamped [OF assms(1,2)]
  have "key_of ?T r \<in> fst ` set ?tbl" unfolding t(2) using assms(5) by blast
  then obtain row where st_row: "(key_of ?T r, row) \<in> set ?tbl" by force
  with t(1) have "key_of ?T row = key_of ?T r" by (auto simp: table_ok_def list_all_iff)
  then have same: "column ?T row ''driver_id'' = ?k" "column ?T row ''ts'' = column ?T r ''ts''" by (simp_all add: location_key)
  obtain us where us: "column ?T r ''ts'' = PDatetime us" using good_location_ts [OF assms(5) t(4) [OF assms(5)]] by blast
  let ?y = "zip (map fst (columns ?T)) row" and ?L = "distinct_on ''driver_id'' ''ts'' ?F"
  have y: "?y \<in> set ?F" "d_get ?y ''driver_id'' = ?k" "ts_at ''ts'' ?y = us"
    using st_row same us by (auto simp: in_table_frame column_frame ts_of_def)
  obtain z where z: "filter (\<lambda>w. d_get w ''driver_id'' = d_get ?y ''driver_id'') ?L = [z]" "z \<in> set ?F"
    "d_get z ''driver_id'' = d_get ?y ''driver_id''"
    "\<forall>w \<in> set ?F. d_get w ''driver_id'' = d_get ?y ''driver_id'' \<longrightarrow> ts_at ''ts'' w \<le> ts_at ''ts'' z"
    using distinct_on_row [OF st y(1), of "''driver_id''"] by (elim exE conjE) (rule that)
  have le: "us \<le> ts_at ''ts'' z" using bspec [OF z(4) y(1), THEN mp, OF refl] unfolding y(3) .
  have sel: "filter (\<lambda>w. d_get w ''driver_id'' = ?k) ?L = [z]" using z(1) unfolding y(2) .
  have fetch: "fetch_driver_positions D = map (project ?cs) ?L"
    unfolding fetch_driver_positions_def query_df_from assms(4) using assms(3) by simp
  have pj: "d_get (project ?cs y) ''driver_id'' = d_get y ''driver_id''" "ts_at ''ts'' (project ?cs y) = ts_at ''ts'' y" for y
    by (simp_all add: ts_of_def d_get_project)
  have "filter (\<lambda>p. d_get p ''driver_id'' = ?k) (fetch_driver_positions D) = [project ?cs z]"
    unfolding fetch filter_map comp_def pj sel by (simp only: list.map)
  with us le show ?thesis by (intro exI [of _ "project ?cs z"] exI [of _ us]) (simp only: pj simp_thms)
qed

text \<open>The witness: a sink that has consumed two pings of one driver, a minute apart, the newer one first.\<close>

definition ping :: "int \<Rightarrow> payload" where
  "ping ms = [(''driver_id'', PStr ''d''), (''ts'', PInt ms), (''lat'', PFloat 12), (''lon'', PFloat 77),
     (''speed_kmh'', PFloat 30), (''heading'', PFloat 0), (''status'', PStr ''idle''), (''city_id'', PInt 1)]"

definition ping_row :: "int \<Rightarrow> pg_row" where
  "ping_row ms = [PStr ''d'', PDatetime (dt_of_ms ms), PFloat 12, PFloat 77, PFloat 30, PFloat 0, PStr ''idle'', PInt 1]"

definition ping_env :: pg_env where
  "ping_env = \<lparr>deserializers = [(DRIVERS_LOCATIONS, \<lambda>_ v. Inr (ping (if v = Some ''late'' then 60000 else 0)))],
     accepts = (\<lambda>_ _. None), pg_clock = (\<lambda>_. ''now'')\<rparr>"

definition ping_batch :: "msg list" where
  "ping_batch = [pg_demo_msg DRIVERS_LOCATIONS 0 ''late'', pg_demo_msg DRIVERS_LOCATIONS 1 ''early'']"

definition ping_input :: "string \<times> int \<Rightarrow> msg list" where
  "ping_input tp = tp_records tp ping_batch"

abbreviation ping_parts :: "(string \<times> int) list" where
  "ping_parts \<equiv> [(DRIVERS_LOCATIONS, 0)]"

definition ping_start :: pg_sink where
  "ping_start = (new_pg_sink ''pg-sink'' empty_db) \<lparr>pg_positions := [((DRIVERS_LOCATIONS, 0), -2)]\<rparr>"

lemma ping_input_ok: "partitions_ok ping_input ping_parts"
  by (simp add: partitions_ok_def ping_input_def ping_batch_def)

lemma ping_rows: "row_of_msg ping_env (pg_demo_msg DRIVERS_LOCATIONS off ''late'') = Inr (ping_row 60000)"
  "row_of_msg ping_env (pg_demo_msg DRIVERS_LOCATIONS off ''early'') = Inr (ping_row 0)"
proof -
  have b: "map_of ROW_BUILDERS DRIVERS_LOCATIONS = Some (\<lambda>value part off. location_row value)"
    by (simp add: ROW_BUILDERS_def)
  have l: "location_row (ping ms) = Inr (ping_row ms)" for ms
    by (simp add: location_row_def ping_def ping_row_def d_item_def)
  show "row_of_msg ping_env (pg_demo_msg DRIVERS_LOCATIONS off ''late'') = Inr (ping_row 60000)"
    "row_of_msg ping_env (pg_demo_msg DRIVERS_LOCATIONS off ''early'') = Inr (ping_row 0)"
    by (simp_all add: row_of_msg_def lookup_key_def ping_env_def b l)
qed

lemma ping_columns:
  "column ''raw.driver_locations'' (ping_row ms) ''ts'' = PDatetime (dt_of_ms ms)"
  "column ''raw.driver_locations'' (ping_row ms) ''driver_id'' = PStr ''d''"
  by (simp_all add: column_def columns_def TABLE_COLUMNS_def ping_row_def d_get_def)

lemma ping_upserts:
  "\<exists>t. upsert_rows ping_env ''raw.driver_locations'' DO_NOTHING [ping_row 60000, ping_row 0] [] = Inr t"
proof -
  have nn: "not_null_ok ''raw.driver_locations'' (ping_row ms)" for ms
    by (simp add: not_null_ok_def column_def columns_def TABLE_COLUMNS_def ping_row_def d_get_def)
  have "accepts ping_env t r = None" for t r by (simp add: ping_env_def)
  then show ?thesis
    by (simp add: upsert_rows_def upsert_row_def nn unique_ok_def UNIQUE_INDEX_def location_key ping_columns dt_of_ms_def)
qed

lemma ping_process: "\<exists>w s'. pg_process_batch ping_env pg_no_faults ping_batch ping_start = (Ret w, s')"
proof -
  let ?b = "\<lparr>pb_consumed = [(DRIVERS_LOCATIONS, 2)],
      pb_rows = [(RIDES_EVENTS, []), (RIDES_SESSIONS, []), (PAYMENTS_TRANSACTIONS, []),
        (DRIVERS_LOCATIONS, [ping_row 60000, ping_row 0])],
      pb_max_offsets = [((DRIVERS_LOCATIONS, 0), 1)]\<rparr>"
  obtain s1 where s1: "sink_msgs ping_env ping_batch (new_pg_batch, ping_start) = (Ret (), ?b, s1)" "pg_db s1 = empty_db"
    by (simp add: ping_batch_def sink_msg_def ping_rows dlq_handle_eq count_msg_def add_row_def
        new_pg_batch_def SINK_TOPICS_def ping_start_def new_pg_sink_def dlq_producer_init_def Let_def)
  obtain t where t: "upsert_rows ping_env ''raw.driver_locations'' DO_NOTHING [ping_row 60000, ping_row 0] [] = Inr t"
    using ping_upserts by blast
  have up: "map_of UPSERTS DRIVERS_LOCATIONS = Some (''raw.driver_locations'', DO_NOTHING)" by (simp add: UPSERTS_def)
  have "\<exists>db. pg_transact ping_env pg_no_faults (pg_group s1) ?b empty_db = (Ret (), db)"
    by (simp add: pg_transact_def pg_no_faults_def empty_db_def up t exec_offsets_def)
  then show ?thesis by (auto simp: pg_process_batch_def s1)
qed

lemma ping_reachable:
  obtains s pos where "preachable ping_env ''pg-sink'' ping_input ping_parts
    \<lparr>ps_sink = s, ps_pos = pos, ps_up = True, ps_hist = ping_batch\<rparr>"
proof -
  let ?up = "\<lparr>ps_sink = ping_start, ps_pos = assigned_pos ping_start, ps_up = True, ps_hist = []\<rparr>"
  have "ping_start = pg_on_assign ping_parts (new_pg_sink ''pg-sink'' (pg_db (new_pg_sink ''pg-sink'' empty_db)))"
    by (simp add: ping_start_def pg_on_assign_def stored_offsets_def new_pg_sink_def empty_db_def
        stored_offset_def OFFSET_BEGINNING_def)
  from p_restart [OF this] have "pstep ping_env ''pg-sink'' ping_input ping_parts (psys_init ''pg-sink'') ?up"
    unfolding psys_init_def .
  note up = preach_step [OF preach_init this]
  have d: "deliverable ping_input ping_parts (assigned_pos ping_start) ping_batch"
    by (simp add: deliverable_def ping_input_def ping_batch_def from_offset_def assigned_pos_def ping_start_def new_pg_sink_def)
  obtain w s where s: "pg_process_batch ping_env pg_no_faults ping_batch ping_start = (Ret w, s)"
    using ping_process by blast
  from preach_step [OF up p_batch [OF d s]] that show thesis by simp
qed

theorem dashboard_positions_latest_witness:
  "\<exists>x D p. preachable ping_env ''pg-sink'' ping_input ping_parts x
    \<and> filter (\<lambda>p. d_get p ''driver_id'' = PStr ''d'') (fetch_driver_positions D) = [p]
    \<and> dt_of_ms 60000 \<le> ts_at ''ts'' p"
proof -
  obtain s pos where s: "preachable ping_env ''pg-sink'' ping_input ping_parts
    \<lparr>ps_sink = s, ps_pos = pos, ps_up = True, ps_hist = ping_batch\<rparr>" by (rule ping_reachable)
  let ?D = "\<lparr>db_reachable = True, db_relation = (\<lambda>table. Some (table_frame table (pg_rows (pg_db s) table)))\<rparr>"
  have "ping_row 60000 \<in> set (good_rows ping_env DRIVERS_LOCATIONS ping_batch)"
    by (simp add: ping_batch_def good_row_def ping_rows)
  then have "\<exists>p us. filter (\<lambda>p. d_get p ''driver_id'' = column ''raw.driver_locations'' (ping_row 60000) ''driver_id'')
      (fetch_driver_positions ?D) = [p]
    \<and> column ''raw.driver_locations'' (ping_row 60000) ''ts'' = PDatetime us \<and> us \<le> ts_at ''ts'' p"
    by (intro dashboard_positions_latest [OF ping_input_ok s]) simp_all
  with s show ?thesis unfolding ping_columns by blast
qed

section \<open>The data source shown on the page\<close>

lemma dsn_display_uri: "CHR 0x40 \<notin> set tail \<Longrightarrow> dsn_display (pre @ CHR 0x40 # tail) = ''postgresql://'' @ tail"
proof -
  assume "CHR 0x40 \<notin> set tail"
  then have "takeWhile (\<lambda>c. c \<noteq> CHR 0x40) (rev tail @ CHR 0x40 # rev pre) = rev tail"
    by (subst takeWhile_append2) auto
  then show ?thesis by (simp add: dsn_display_def after_last_at_def Let_def)
qed

text \<open>Of a DSN with an at sign, what stands before the last one is never shown; a keyword DSN, which the
  driver accepts as well, is shown with its password.\<close>

theorem dsn_display_keyword:
  "dsn_display ''host=db user=u password=s'' = ''host=db user=u password=s''
   \<and> dsn_display ''postgresql://u:s@db/x'' = ''postgresql://db/x''"
  by (simp add: dsn_display_def after_last_at_def)

end
