(* ===== verification/Replay_Main.thy ===== *)
theory Replay_Main
  imports Dlq_Replay
begin

text \<open>
  \<open>main\<close> of \<open>scripts/replay_dlq.py\<close>: from the options to the exit code. What the operator's Python does
  (the compiled filter, the imported module) is a parameter; argument parsing and the construction of
  the clients are left out. The records handed to the producer are the \<open>rr_produced\<close> of a run, and
  \<open>rr_flushed\<close> says whether the flush was reached.
\<close>

record replay_args =
  ra_topic :: string
  ra_dry_run :: bool
  ra_filter :: "string option"
  ra_transform :: "string option"
  ra_repair :: bool

text \<open>An imported module gives a value for a name, which is callable (\<open>Some\<close>) or not.\<close>

type_synonym py_module = "string \<Rightarrow> exn + (string \<Rightarrow> exn + string) option"

record operator_code =
  oc_compile :: "string \<Rightarrow> exn + (Envelope \<Rightarrow> exn + bool)"
  oc_import :: "string \<Rightarrow> exn + py_module"

definition load_transform :: "operator_code \<Rightarrow> string \<Rightarrow> exn + (string \<Rightarrow> exn + string)" where
  "load_transform code spec =
     (let module_name = takeWhile (\<lambda>c. c \<noteq> CHR '':'') spec;
          func_name = drop (length module_name + 1) spec
      in if func_name = [] then Inl (Exn ''SystemExit'' (''--transform must be module:function, got '' @ spec))
         else rbind (oc_import code module_name) (\<lambda>module.
              rbind (module func_name) (\<lambda>transform.
                case transform of None \<Rightarrow> Inl (Exn ''SystemExit'' (spec @ '' is not callable'')) | Some f \<Rightarrow> Inr f)))"

definition the_predicate :: "operator_code \<Rightarrow> replay_args \<Rightarrow> exn + (Envelope \<Rightarrow> exn + bool) option" where
  "the_predicate code args =
     (case ra_filter args of None \<Rightarrow> Inr None | Some source \<Rightarrow> rbind (oc_compile code source) (\<lambda>p. Inr (Some p)))"

definition the_transform :: "operator_code \<Rightarrow> replay_args \<Rightarrow> exn + (string \<Rightarrow> exn + string) option" where
  "the_transform code args =
     (if ra_repair args then Inr (Some (\<lambda>payload. Inr (repair_magic_byte payload)))
      else case ra_transform args of None \<Rightarrow> Inr None
           | Some spec \<Rightarrow> rbind (load_transform code spec) (\<lambda>f. Inr (Some f)))"

record replay_run =
  rr_result :: "exn + int"
  rr_produced :: produced
  rr_flushed :: bool
  rr_printed :: "string list"

definition failed_run :: "exn \<Rightarrow> replay_run" where
  "failed_run e = \<lparr>rr_result = Inl e, rr_produced = [], rr_flushed = False, rr_printed = []\<rparr>"

text \<open>\<open>polls\<close> are what the consumer of the dead-letter topic returns; \<open>None\<close> while it is still polling.\<close>

definition replay_main :: "operator_code \<Rightarrow> (string \<Rightarrow> real) \<Rightarrow> replay_args \<Rightarrow> msg list list \<Rightarrow> replay_run option" where
  "replay_main code parse_float args polls =
     (case the_predicate code args of
        Inl e \<Rightarrow> Some (failed_run e)
      | Inr predicate \<Rightarrow>
     (case the_transform code args of
        Inl e \<Rightarrow> Some (failed_run e)
      | Inr transform \<Rightarrow>
     (case drain_dlq parse_float 5 polls of
        None \<Rightarrow> None
      | Some (Inl e) \<Rightarrow> Some (failed_run e)
      | Some (Inr envelopes) \<Rightarrow>
          (case replay envelopes predicate transform (ra_dry_run args) of
             (out, Inl e) \<Rightarrow> Some \<lparr>rr_result = Inl e, rr_produced = out, rr_flushed = False, rr_printed = []\<rparr>
           | (out, Inr stats) \<Rightarrow>
               Some \<lparr>rr_result = Inr 0, rr_produced = out, rr_flushed = True, rr_printed = [stats_json stats]\<rparr>))))"

text \<open>The repair of the generator's corruption, end to end: whatever the polls return them in, replaying the
  dead letters of corrupted messages with \<open>--repair-magic-byte\<close> ends with exit code 0 after a flush,
  and what it produced is each message with the magic byte in front of what was left of it.\<close>

theorem replay_main_repairs:
  assumes "list_all (\<lambda>b. b \<noteq> []) batches" "list_all (\<lambda>m. m_value m \<noteq> None) (concat batches)"
    and "ra_repair args" "ra_filter args = None" "\<not> ra_dry_run args"
  shows "\<exists>printed. replay_main code pf args (map (map (dead_letter now err g)) batches @ replicate 5 [])
    = Some \<lparr>rr_result = Inr 0,
        rr_produced = map (\<lambda>m. (m_topic m, m_key m, repair_magic_byte (the (m_value m)))) (concat batches),
        rr_flushed = True, rr_printed = printed\<rparr>"
proof -
  let ?es = "map (\<lambda>m. build_envelope now m err g) (concat batches)"
  have d: "drain_dlq pf 5 (map (map (dead_letter now err g)) batches @ replicate 5 []) = Some (Inr ?es)"
    unfolding drain_dlq_def using drain_polls [of 5 batches pf "[]" now err g] assms(1) by simp
  have "m_value m = Some (the (m_value m))" if "m \<in> set (concat batches)" for m
    using assms(2) that by (auto simp: list_all_iff)
  from replay_loop_all [of "concat batches", OF this, where f = "\<lambda>p. Inr (repair_magic_byte p)" and g = repair_magic_byte]
  have "\<exists>stats. replay ?es None (Some (\<lambda>p. Inr (repair_magic_byte p))) False
      = (map (\<lambda>m. (m_topic m, m_key m, repair_magic_byte (the (m_value m)))) (concat batches), Inr stats)"
    unfolding replay_def by simp
  then obtain stats where "replay ?es None (Some (\<lambda>p. Inr (repair_magic_byte p))) False
      = (map (\<lambda>m. (m_topic m, m_key m, repair_magic_byte (the (m_value m)))) (concat batches), Inr stats)" ..
  with d assms(3-5) show ?thesis by (simp add: replay_main_def the_predicate_def the_transform_def)
qed

theorem replay_main_repairs_witness:
  "\<exists>printed. replay_main \<lparr>oc_compile = (\<lambda>_. Inl (ValueError [])), oc_import = (\<lambda>_. Inl (ValueError []))\<rparr> (\<lambda>_. 0)
      \<lparr>ra_topic = RIDES_EVENTS, ra_dry_run = False, ra_filter = None, ra_transform = None, ra_repair = True\<rparr>
      (map (map (dead_letter [] (ValueError []) ''g'')) [[sample_msg ''abc'']] @ replicate 5 [])
    = Some \<lparr>rr_result = Inr 0, rr_produced = [(RIDES_EVENTS, Some ''r'', CHR 0x00 # ''bc'')],
        rr_flushed = True, rr_printed = printed\<rparr>"
  using replay_main_repairs [of "[[sample_msg ''abc'']]"
      "\<lparr>ra_topic = RIDES_EVENTS, ra_dry_run = False, ra_filter = None, ra_transform = None, ra_repair = True\<rparr>"
      "\<lparr>oc_compile = (\<lambda>_. Inl (ValueError [])), oc_import = (\<lambda>_. Inl (ValueError []))\<rparr>" "\<lambda>_. 0" "[]" "ValueError []" "''g''"]
  by (simp add: sample_msg_def repair_magic_byte_def)

text \<open>The count it prints is what was handed to the producer, delivered or not: the result of the flush is not
  looked at. A run that raises while replaying does not flush what it has produced so far.\<close>

lemma replay_main_flushed:
  assumes "replay_main code pf args polls = Some run"
  shows "rr_flushed run \<longleftrightarrow> rr_result run = Inr 0"
  using assms by (auto simp: replay_main_def failed_run_def split: sum.splits option.splits prod.splits)

end
