(* ===== verification/Service_Shell.thy ===== *)
theory Service_Shell
  imports Json
begin

text \<open>
  What every service starts with: \<open>common/logging.py\<close> (the JSON log lines) and the switch of
  \<open>common/metrics.py\<close>. The clock, the formatted exception and the HTTP server are parameters; the
  handlers of the root logger are the services whose formatter they carry.
\<close>

section \<open>Log lines\<close>

record log_record =
  lr_level :: string
  lr_logger :: string
  lr_message :: string
  lr_ctx :: "payload option"
  lr_exc :: "string option"

definition with_ctx :: "payload \<Rightarrow> log_record \<Rightarrow> log_record" where
  "with_ctx ctx r = r\<lparr>lr_ctx := Some ctx\<rparr>"

definition log_payload :: "string \<Rightarrow> string \<Rightarrow> log_record \<Rightarrow> payload" where
  "log_payload service now r =
     (let payload =
        [(''ts'', PStr now), (''level'', PStr (lr_level r)), (''service'', PStr service),
         (''logger'', PStr (lr_logger r)), (''msg'', PStr (lr_message r))];
          payload = (case lr_ctx r of None \<Rightarrow> payload | Some ctx \<Rightarrow> fold (\<lambda>(k, v). AList.update k v) ctx payload)
      in case lr_exc r of None \<Rightarrow> payload | Some trace \<Rightarrow> AList.update ''exc'' (PStr trace) payload)"

definition format_line :: "(pyval \<Rightarrow> string) \<Rightarrow> string \<Rightarrow> string \<Rightarrow> log_record \<Rightarrow> string" where
  "format_line render service now r = json_object render '','' '':'' (log_payload service now r)"

record root_logger =
  rl_level :: int
  rl_handlers :: "string list"

definition configure_logging :: "string \<Rightarrow> int \<Rightarrow> root_logger \<Rightarrow> root_logger" where
  "configure_logging service level rl = rl\<lparr>rl_level := level, rl_handlers := [service]\<rparr>"

section \<open>The metrics endpoint\<close>

text \<open>The exception, or the port of the server that is started (and \<open>sp_up\<close> set), if one is.\<close>

definition maybe_start_metrics_server :: "(string \<Rightarrow> string option) \<Rightarrow> (int \<Rightarrow> exn + unit) \<Rightarrow> exn + int option" where
  "maybe_start_metrics_server env start_http_server =
     (let raw = strip (case env ''METRICS_PORT'' of None \<Rightarrow> [] | Some s \<Rightarrow> s) in
      if raw = [] then Inr None
      else rbind (py_int (PStr raw)) (\<lambda>port.
           if port \<le> 0 then Inr None else rbind (start_http_server port) (\<lambda>_. Inr (Some port))))"

section \<open>One line, nothing lost\<close>

definition one_line :: "string \<Rightarrow> bool" where
  "one_line s = list_all (\<lambda>c. 32 \<le> (of_char c :: nat)) s"

lemma one_line_append [simp]: "one_line (s @ t) \<longleftrightarrow> one_line s \<and> one_line t"
  by (simp add: one_line_def)

lemma one_line_Cons [simp]: "one_line (c # t) \<longleftrightarrow> 32 \<le> (of_char c :: nat) \<and> one_line t" "one_line []"
  by (simp_all add: one_line_def)

lemma hex_digit_printable: "n < 16 \<Longrightarrow> 32 \<le> (of_char (hex_digit n) :: nat)"
  by (auto simp: hex_digit_def)

lemma esc_char_printable: "one_line (esc_char c)"
proof -
  have "of_char c div 16 < (16 :: nat)" using of_char_lt [of c] by (simp add: div_less_iff_less_mult)
  then show ?thesis by (auto simp: esc_char_def hex_digit_printable)
qed

lemma json_string_printable: "one_line (json_string s)"
proof -
  have "one_line (concat (map esc_char s))" by (induction s) (simp_all add: esc_char_printable)
  then show ?thesis by (simp add: json_string_def)
qed

lemma digits_printable: "one_line (nat_digits n)"
proof -
  have "32 \<le> (of_char c :: nat)" if "c \<in> set (nat_digits n)" for c
    using nat_digits_digit [OF that] by (simp add: is_digit_def)
  then show ?thesis by (simp add: one_line_def list_all_iff)
qed

lemma json_value_printable: "plain v \<Longrightarrow> one_line (json_value render v)"
  by (cases v) (auto simp: json_string_printable int_digits_def digits_printable)

lemma json_members_printable:
  "list_all (\<lambda>(k, v). plain v) d \<Longrightarrow> one_line (json_members render '','' '':'' d)"
  by (induction render "'',''" "'':''" d rule: json_members.induct)
    (simp_all add: json_string_printable json_value_printable)

lemma dict_ok_fold_update: "dict_ok d \<Longrightarrow> dict_ok (fold (\<lambda>(k, v). AList.update k v) kvs d)"
  by (induction kvs arbitrary: d) (auto simp: distinct_update)

lemma plain_update:
  "list_all (\<lambda>(k, v). plain v) d \<Longrightarrow> plain v \<Longrightarrow> list_all (\<lambda>(k, v). plain v) (AList.update k v d)"
  by (induction d) auto

lemma plain_fold_update:
  "list_all (\<lambda>(k, v). plain v) kvs \<Longrightarrow> list_all (\<lambda>(k, v). plain v) d
    \<Longrightarrow> list_all (\<lambda>(k, v). plain v) (fold (\<lambda>(k, v). AList.update k v) kvs d)"
proof (induction kvs arbitrary: d)
  case (Cons kv kvs)
  obtain k v where kv: "kv = (k, v)" by (metis surj_pair)
  with Cons.prems(1) have "plain v" "list_all (\<lambda>(k, v). plain v) kvs" by simp_all
  from Cons.IH [OF this(2) plain_update [OF Cons.prems(2) this(1), of k]] show ?case by (simp only: kv fold.simps comp_def case_prod_conv)
qed simp

lemma fold_update_other:
  "k \<notin> fst ` set kvs \<Longrightarrow> d_get (fold (\<lambda>(k, v). AList.update k v) kvs d) k = d_get d k"
proof (induction kvs arbitrary: d)
  case (Cons kv kvs)
  obtain k0 v0 where kv: "kv = (k0, v0)" by (metis surj_pair)
  have ne: "k \<noteq> k0" "k \<notin> fst ` set kvs" using Cons.prems by (auto simp: kv)
  from Cons.IH [OF ne(2), of "AList.update k0 v0 d"] ne(1) show ?case
    by (simp only: kv fold.simps comp_def case_prod_conv d_get_update if_False)
qed simp

lemma fold_update_get:
  "dict_ok kvs \<Longrightarrow> (k, v) \<in> set kvs \<Longrightarrow> d_get (fold (\<lambda>(k, v). AList.update k v) kvs d) k = v"
proof (induction kvs arbitrary: d)
  case (Cons kv kvs)
  obtain k0 v0 where kv: "kv = (k0, v0)" by (metis surj_pair)
  have ok: "k0 \<notin> fst ` set kvs" "dict_ok kvs" using Cons.prems(1) by (simp_all add: kv)
  show ?case
  proof (cases "(k, v) \<in> set kvs")
    case True
    from Cons.IH [OF ok(2) this, of "AList.update k0 v0 d"] show ?thesis
      by (simp only: kv fold.simps comp_def case_prod_conv)
  next
    case False
    with Cons.prems(2) have "k = k0" "v = v0" by (auto simp: kv)
    with fold_update_other [OF ok(1), of "AList.update k0 v0 d"] show ?thesis
      by (simp only: kv fold.simps comp_def case_prod_conv d_get_update if_True simp_thms)
  qed
qed simp

text \<open>A log line is one line and nothing is lost in it: for any service, message, exception text and plain
  context it holds no control character, and reading it gives back the payload, in which every
  context field has its value unless a formatted exception takes its place.\<close>

theorem log_line_machine_readable:
  assumes "list_all (\<lambda>(k, v). plain v) ctx" "dict_ok ctx" "lr_ctx r = Some ctx"
  shows "one_line (format_line render service now r)
    \<and> json_loads pf (format_line render service now r) = Inr (JObj (log_payload service now r))
    \<and> list_all (\<lambda>(k, v). d_get (log_payload service now r) k
        = (case lr_exc r of Some trace \<Rightarrow> if k = ''exc'' then PStr trace else v | None \<Rightarrow> v)) ctx"
proof (intro conjI)
  let ?d = "log_payload service now r"
  have plain: "list_all (\<lambda>(k, v). plain v) ?d"
    using assms(1) by (auto simp: log_payload_def assms(3) Let_def plain_fold_update plain_update split: option.split)
  have dict: "dict_ok ?d"
    by (auto simp: log_payload_def assms(3) Let_def dict_ok_fold_update distinct_update split: option.split)
  show "one_line (format_line render service now r)"
    using json_members_printable [OF plain, of render] by (simp add: format_line_def json_object_def)
  show "json_loads pf (format_line render service now r) = Inr (JObj ?d)"
    unfolding format_line_def using json_roundtrip [OF dict plain, of "[]" "[]" pf render] by simp
  show "list_all (\<lambda>(k, v). d_get ?d k
      = (case lr_exc r of Some trace \<Rightarrow> if k = ''exc'' then PStr trace else v | None \<Rightarrow> v)) ctx"
    unfolding list_all_iff
  proof (clarify)
    fix k v assume "(k, v) \<in> set ctx"
    from fold_update_get [OF assms(2) this]
    show "d_get ?d k = (case lr_exc r of Some trace \<Rightarrow> if k = ''exc'' then PStr trace else v | None \<Rightarrow> v)"
      by (cases "lr_exc r") (simp_all add: log_payload_def assms(3) Let_def)
  qed
qed

theorem log_line_machine_readable_witness:
  "one_line (format_line (\<lambda>_. []) ''pg-sink'' ''now'' (with_ctx [(''ride_id'', PStr [CHR 0x0A])]
     \<lparr>lr_level = ''info'', lr_logger = ''x'', lr_message = ''m'', lr_ctx = None, lr_exc = None\<rparr>))"
  using log_line_machine_readable [of "[(''ride_id'', PStr [CHR 0x0A])]" "with_ctx [(''ride_id'', PStr [CHR 0x0A])]
     \<lparr>lr_level = ''info'', lr_logger = ''x'', lr_message = ''m'', lr_ctx = None, lr_exc = None\<rparr>" "\<lambda>_. []" "''pg-sink''" "''now''"]
  by (simp add: with_ctx_def)

lemma configure_logging_again:
  "configure_logging service level (configure_logging service' level' rl) = configure_logging service level rl"
  by (simp add: configure_logging_def)

end
