(* ===== verification/Benchmarks.thy ===== *)
theory Benchmarks
  imports Pg_Properties Py_Float
begin

text \<open>
  \<open>benchmarks/measure.py\<close>: the two measurements, as functions of what the broker, the data base and the
  clocks answer. The written report, the construction and the closing of the clients and argument
  parsing are left out. Floats are real numbers.
\<close>

section \<open>Throughput\<close>

definition BENCH_TOPICS :: "string list" where
  "BENCH_TOPICS = [RIDES_EVENTS, DRIVERS_LOCATIONS, PAYMENTS_TRANSACTIONS]"

text \<open>\<open>metadata.topics\<close> with the partitions of each topic, and the high watermark of a partition.\<close>

record watermarks =
  wm_metadata :: "exn + (string, int list) dict"
  wm_high :: "string \<Rightarrow> int \<Rightarrow> exn + int"

definition topic_high_watermarks :: "watermarks \<Rightarrow> exn + int" where
  "topic_high_watermarks b =
     rbind (wm_metadata b) (\<lambda>topics.
       rfold (\<lambda>topic sum.
         rbind (case map_of topics topic of None \<Rightarrow> Inl (KeyError topic) | Some ps \<Rightarrow> Inr ps) (\<lambda>partitions.
           rfold (\<lambda>p sum. rbind (wm_high b topic p) (\<lambda>high. Inr (sum + high))) partitions sum)) BENCH_TOPICS 0)"

text \<open>\<open>RAW_COUNT_SQL\<close>.\<close>

definition raw_count :: "pgdb \<Rightarrow> int" where
  "raw_count db =
     int (length (pg_rows db ''raw.rides_events'')) + int (length (pg_rows db ''raw.driver_locations''))
     + int (length (pg_rows db ''raw.payments_transactions'')) + int (length (pg_rows db ''raw.ride_sessions''))"

text \<open>\<open>round(x, n)\<close>.\<close>

definition py_round :: "nat \<Rightarrow> real \<Rightarrow> real" where
  "py_round n x = of_int (round_even (x * 10 ^ n)) / 10 ^ n"

record throughput =
  tp_window_sec :: real
  tp_broker_msgs_per_sec :: real
  tp_pg_rows_per_sec :: real
  tp_broker_msgs_in_window :: int
  tp_pg_rows_in_window :: int

text \<open>The counts and the watermarks at both ends of the window; a clock that stood still divides by zero.\<close>

definition measure_throughput :: "exn + pgdb \<Rightarrow> watermarks \<Rightarrow> real \<Rightarrow> watermarks \<Rightarrow> exn + pgdb \<Rightarrow> exn + throughput" where
  "measure_throughput start_db start_wm elapsed end_wm end_db =
     rbind start_db (\<lambda>db0.
     rbind (topic_high_watermarks start_wm) (\<lambda>broker_start.
     rbind (topic_high_watermarks end_wm) (\<lambda>broker_end.
     rbind end_db (\<lambda>db1.
       if elapsed = 0 then Inl (Exn ''ZeroDivisionError'' ''float division by zero'')
       else Inr \<lparr>tp_window_sec = py_round 2 elapsed,
                 tp_broker_msgs_per_sec = py_round 1 (of_int (broker_end - broker_start) / elapsed),
                 tp_pg_rows_per_sec = py_round 1 (of_int (raw_count db1 - raw_count db0) / elapsed),
                 tp_broker_msgs_in_window = broker_end - broker_start,
                 tp_pg_rows_in_window = raw_count db1 - raw_count db0\<rparr>))))"

section \<open>Latency\<close>

definition marker_event :: "string \<Rightarrow> real \<Rightarrow> source_event" where
  "marker_event ride_id now =
     ride_event ride_id REQUESTED \<lfloor>now * 1000\<rfloor> ''u-bench'' 1 (129716 / 10000, 775946 / 10000) 1 None
       (Some (129352 / 10000, 776245 / 10000)) None 1 None"

text \<open>One look for the marker: the clock of the loop's test, whether the row is there, the clock after.\<close>

record look =
  lk_before :: real
  lk_found :: "exn + bool"
  lk_after :: real

text \<open>\<open>None\<close> while the loop is still looking after the given looks.\<close>

fun await_visible :: "real \<Rightarrow> look list \<Rightarrow> (exn + real option) option" where
  "await_visible sent_at [] = None"
| "await_visible sent_at (l # ls) =
     (if lk_before l < sent_at + 60 then
        (case lk_found l of
           Inl e \<Rightarrow> Some (Inl e)
         | Inr True \<Rightarrow> Some (Inr (Some (lk_after l - sent_at)))
         | Inr False \<Rightarrow> await_visible sent_at ls)
      else Some (Inr None))"

record marker =
  mk_ride_id :: string
  mk_now :: real
  mk_sent_at :: real
  mk_looks :: "look list"

text \<open>The samples; \<open>send\<close> is the transport's send and flush.\<close>

fun latency_samples :: "(source_event \<Rightarrow> exn + unit) \<Rightarrow> marker list \<Rightarrow> (exn + real list) option" where
  "latency_samples send [] = Some (Inr [])"
| "latency_samples send (k # ks) =
     (case send (marker_event (mk_ride_id k) (mk_now k)) of
        Inl e \<Rightarrow> Some (Inl e)
      | Inr _ \<Rightarrow>
          (case await_visible (mk_sent_at k) (mk_looks k) of
             None \<Rightarrow> None
           | Some (Inl e) \<Rightarrow> Some (Inl e)
           | Some (Inr None) \<Rightarrow>
               Some (Inl (Exn ''RuntimeError'' (''marker '' @ mk_ride_id k @ ''.1 never became visible within 60s'')))
           | Some (Inr (Some seen)) \<Rightarrow>
               map_option (\<lambda>r. rbind r (\<lambda>samples. Inr (seen # samples))) (latency_samples send ks)))"

definition median :: "real list \<Rightarrow> exn + real" where
  "median xs =
     (let s = sort xs; n = length xs in
      if n = 0 then Inl (Exn ''StatisticsError'' ''no median for empty data'')
      else if n mod 2 = 1 then Inr (s ! (n div 2)) else Inr ((s ! (n div 2 - 1) + s ! (n div 2)) / 2))"

definition p95_index :: "nat \<Rightarrow> nat" where
  "p95_index n = nat (max (\<lfloor>real n * (95 / 100)\<rfloor> - 1) 0)"

record latency =
  lt_markers :: nat
  lt_p50_sec :: real
  lt_p95_sec :: real
  lt_max_sec :: real
  lt_samples_sec :: "real list"

definition summarise_latency :: "nat \<Rightarrow> real list \<Rightarrow> exn + latency" where
  "summarise_latency markers samples =
     (let s = sort samples in
      rbind (median s) (\<lambda>m.
        Inr \<lparr>lt_markers = markers, lt_p50_sec = py_round 3 m, lt_p95_sec = py_round 3 (s ! p95_index (length s)),
             lt_max_sec = py_round 3 (last s), lt_samples_sec = map (py_round 3) samples\<rparr>))"

definition measure_latency :: "(source_event \<Rightarrow> exn + unit) \<Rightarrow> marker list \<Rightarrow> (exn + latency) option" where
  "measure_latency send ks =
     map_option (\<lambda>r. rbind r (summarise_latency (length ks))) (latency_samples send ks)"

section \<open>What the numbers mean\<close>

text \<open>Every reported sample is of a marker that was found: it is the time from the acknowledgement to a look
  that began within the minute.\<close>

lemma await_visible_found:
  assumes "await_visible sent_at looks = Some (Inr (Some d))"
  shows "\<exists>l \<in> set looks. lk_found l = Inr True \<and> lk_before l < sent_at + 60 \<and> d = lk_after l - sent_at"
  using assms by (induction looks) (auto split: if_splits sum.splits bool.splits)

lemma latency_samples_found:
  "latency_samples send ks = Some (Inr samples) \<Longrightarrow>
    list_all2 (\<lambda>k d. \<exists>l \<in> set (mk_looks k). lk_found l = Inr True \<and> d = lk_after l - mk_sent_at k) ks samples"
proof (induction ks arbitrary: samples)
  case (Cons k ks)
  from Cons.prems obtain seen rest where s: "await_visible (mk_sent_at k) (mk_looks k) = Some (Inr (Some seen))"
    "latency_samples send ks = Some (Inr rest)" "samples = seen # rest"
    by (auto simp: rbind_eq_Inr split: sum.splits option.splits)
  with Cons.IH [OF s(2)] await_visible_found [OF s(1)] show ?case by auto
qed simp

text \<open>The reported p95 is at the largest rank with at most 95 percent of the samples up to it, so more than 5
  percent of them can be slower: of the default thirty markers two; and of two markers it is the
  smaller sample, below the reported median.\<close>

theorem p95_is_low:
  "p95_index 30 = 27 \<and> p95_index 2 = 0
   \<and> summarise_latency 2 [1, 3] = Inr \<lparr>lt_markers = 2, lt_p50_sec = 2, lt_p95_sec = 1, lt_max_sec = 3, lt_samples_sec = [1, 3]\<rparr>"
proof -
  have "\<lfloor>real 30 * (95 / 100)\<rfloor> = (28 :: int)" "\<lfloor>real 2 * (95 / 100)\<rfloor> = (1 :: int)" by linarith+
  then have i: "p95_index 30 = 27" "p95_index 2 = 0" by (simp_all add: p95_index_def)
  have r: "py_round 3 (of_int k) = of_int k" for k
  proof -
    have "of_int k * 10 ^ 3 = (of_int (k * 10 ^ 3) :: real)" by simp
    then show ?thesis unfolding py_round_def by (simp only: round_even_of_int) simp
  qed
  from r [of 1] r [of 2] r [of 3] i show ?thesis
    by (simp add: summarise_latency_def median_def Let_def numeral_2_eq_2 [symmetric])
qed

section \<open>The sink only adds rows\<close>

lemma pstep_hist: "pstep env grp input parts x y \<Longrightarrow> \<exists>ms. ps_hist y = ps_hist x @ ms"
  by (induction rule: pstep.induct) auto

text \<open>The rows of a window are never negative while only the sink writes: no step of it, crashes and
  restarts included, lowers the count.\<close>

theorem raw_count_grows:
  assumes "partitions_ok input parts" "preachable env grp input parts x" "pstep env grp input parts x y"
  shows "raw_count (pg_db (ps_sink x)) \<le> raw_count (pg_db (ps_sink y))"
proof -
  from pstep_hist [OF assms(3)] obtain ms where h: "ps_hist y = ps_hist x @ ms" by blast
  have le: "length (pg_rows (pg_db (ps_sink x)) table) \<le> length (pg_rows (pg_db (ps_sink y)) table)"
    if up: "map_of UPSERTS t = Some (table, a)" for t table a
    unfolding reachable_table(3) [OF assms(1,2) up] reachable_table(3) [OF assms(1) preach_step [OF assms(2,3)] up]
    by (intro card_mono image_mono good_rows_mono) (auto simp: h)
  have ups: "\<exists>t a. map_of UPSERTS t = Some (table, a)"
    if "table \<in> {''raw.rides_events'', ''raw.driver_locations'', ''raw.payments_transactions'', ''raw.ride_sessions''}" for table
  proof -
    have "map_of UPSERTS RIDES_EVENTS = Some (''raw.rides_events'', DO_NOTHING)"
      "map_of UPSERTS DRIVERS_LOCATIONS = Some (''raw.driver_locations'', DO_NOTHING)"
      "map_of UPSERTS PAYMENTS_TRANSACTIONS = Some (''raw.payments_transactions'', DO_NOTHING)"
      "\<exists>a. map_of UPSERTS RIDES_SESSIONS = Some (''raw.ride_sessions'', a)"
      by (simp_all add: UPSERTS_def)
    with that show ?thesis by fast
  qed
  have "length (pg_rows (pg_db (ps_sink x)) table) \<le> length (pg_rows (pg_db (ps_sink y)) table)"
    if "table \<in> {''raw.rides_events'', ''raw.driver_locations'', ''raw.payments_transactions'', ''raw.ride_sessions''}" for table
    using ups [OF that] le by blast
  then show ?thesis unfolding raw_count_def by (intro add_mono) simp_all
qed

end
