(* ===== verification/Dbt_Rides.thy ===== *)
theory Dbt_Rides
  imports Dashboard_Queries
begin

text \<open>
  The ride models of \<open>dbt/\<close>: the staging views, \<open>dim_cities\<close>, \<open>int_rides__enriched\<close> and the
  incremental fact \<open>fct_rides\<close>, as functions on the relations they read (frames, as in
  \<open>Dashboard_Queries\<close>). The \<open>ingested_at\<close> columns are left out with the defaults that fill them, and the
  cast of a bigint to bigint is the identity.

  What dbt itself does with the rows of an incremental run, \<open>merge\<close> on \<open>unique_key\<close>, is a parameter with
  its documented law \<open>merge_law\<close>: each new row takes the place of the row with its key, the other rows
  stay. The theorems say when a chain of incremental runs leaves what a full refresh would build, and
  that a ride the sessionizer abandons is not such a case.
\<close>

section \<open>Staging\<close>

definition renamed :: "(string \<times> string) list \<Rightarrow> payload \<Rightarrow> payload" where
  "renamed cs row = map (\<lambda>(new, old). (new, d_get row old)) cs"

definition same_names :: "string list \<Rightarrow> (string \<times> string) list" where
  "same_names cs = map (\<lambda>c. (c, c)) cs"

definition SESSION_NAMES :: "(string \<times> string) list" where
  "SESSION_NAMES =
     same_names [''ride_id'', ''rider_id'', ''driver_id'', ''city_id'', ''terminal_state'', ''event_seq'']
     @ [(''requested_at'', ''requested_ts''), (''matched_at'', ''matched_ts''),
        (''driver_arrived_at'', ''driver_arrived_ts''), (''started_at'', ''started_ts''),
        (''ended_at'', ''ended_ts'')]
     @ same_names [''time_to_match_sec'', ''time_to_pickup_sec'', ''ride_duration_sec'',
        ''haversine_distance_km'', ''avg_speed_kmh'', ''is_late_arrival'', ''fare_cents'',
        ''surge_multiplier'', ''promo_code'', ''pickup_lat'', ''pickup_lon'', ''dropoff_lat'', ''dropoff_lon'']"

definition stg_rides__sessions :: "frame \<Rightarrow> frame" where
  "stg_rides__sessions = map (renamed SESSION_NAMES)"

definition stg_rides__events :: "frame \<Rightarrow> frame" where
  "stg_rides__events = map (renamed
     (same_names [''ride_id'', ''event_seq'', ''event_id'', ''event_type''] @ [(''event_at'', ''event_ts'')]
      @ same_names [''rider_id'', ''driver_id'', ''city_id'', ''pickup_lat'', ''pickup_lon'', ''dropoff_lat'',
         ''dropoff_lon'', ''fare_cents'', ''surge_multiplier'', ''payload_version'', ''promo_code'',
         ''kafka_partition'', ''kafka_offset'']))"

definition stg_payments__transactions :: "frame \<Rightarrow> frame" where
  "stg_payments__transactions = map (renamed
     (same_names [''txn_id'', ''ride_id'', ''amount_cents'', ''status'', ''method''] @ [(''paid_at'', ''ts'')]))"

definition stg_drivers__locations :: "frame \<Rightarrow> frame" where
  "stg_drivers__locations = map (renamed
     ([(''driver_id'', ''driver_id''), (''pinged_at'', ''ts'')]
      @ same_names [''lat'', ''lon'', ''speed_kmh'', ''heading'', ''status'', ''city_id'']))"

definition dim_cities :: "frame \<Rightarrow> frame" where
  "dim_cities = map (renamed
     ([(''city_id'', ''city_id''), (''city_name'', ''name'')]
      @ same_names [''center_lat'', ''center_lon'', ''demand_weight'']))"

section \<open>Sessions with their payment and city\<close>

text \<open>\<open>a = b\<close> in a join condition; a null joins nothing.\<close>

definition sql_eq :: "pyval \<Rightarrow> pyval \<Rightarrow> bool" where
  "sql_eq a b \<longleftrightarrow> a = b \<and> a \<noteq> PNone"

definition left_join :: "('a \<Rightarrow> 'b \<Rightarrow> bool) \<Rightarrow> 'a list \<Rightarrow> 'b list \<Rightarrow> ('a \<times> 'b option) list" where
  "left_join on_cond xs ys = concat (map (\<lambda>x. case filter (on_cond x) ys of
       [] \<Rightarrow> [(x, None)] | zs \<Rightarrow> map (\<lambda>y. (x, Some y)) zs) xs)"

definition joined :: "payload option \<Rightarrow> string \<Rightarrow> pyval" where
  "joined row c = (case row of None \<Rightarrow> PNone | Some r \<Rightarrow> d_get r c)"

definition enriched_row :: "payload \<Rightarrow> payload option \<Rightarrow> payload option \<Rightarrow> payload" where
  "enriched_row s p c =
     project [''ride_id'', ''rider_id'', ''driver_id'', ''city_id''] s
     @ [(''city_name'', joined c ''city_name'')]
     @ project [''terminal_state'', ''event_seq'', ''requested_at'', ''matched_at'', ''driver_arrived_at'',
         ''started_at'', ''ended_at'', ''time_to_match_sec'', ''time_to_pickup_sec'', ''ride_duration_sec'',
         ''haversine_distance_km'', ''avg_speed_kmh'', ''is_late_arrival'', ''fare_cents'',
         ''surge_multiplier'', ''promo_code'', ''pickup_lat'', ''pickup_lon'', ''dropoff_lat'', ''dropoff_lon''] s
     @ [(''txn_id'', joined p ''txn_id''), (''paid_amount_cents'', joined p ''amount_cents''),
        (''payment_status'', joined p ''status''), (''payment_method'', joined p ''method''),
        (''paid_at'', joined p ''paid_at''), (''is_paid'', PBool (joined p ''txn_id'' \<noteq> PNone))]"

definition int_rides__enriched :: "frame \<Rightarrow> frame \<Rightarrow> frame \<Rightarrow> frame" where
  "int_rides__enriched sessions payments cities =
     map (\<lambda>((s, p), c). enriched_row s p c)
       (left_join (\<lambda>(s, p) c. sql_eq (d_get s ''city_id'') (d_get c ''city_id''))
          (left_join (\<lambda>s p. sql_eq (d_get s ''ride_id'') (d_get p ''ride_id'')) sessions payments) cities)"

section \<open>The incremental fact\<close>

definition FCT_COLUMNS :: "string list" where
  "FCT_COLUMNS = [''ride_id'', ''rider_id'', ''driver_id'', ''city_id'', ''city_name'', ''terminal_state'', ''event_seq'',
     ''requested_at'', ''matched_at'', ''driver_arrived_at'', ''started_at'', ''ended_at'', ''time_to_match_sec'',
     ''time_to_pickup_sec'', ''ride_duration_sec'', ''haversine_distance_km'', ''avg_speed_kmh'',
     ''is_late_arrival'', ''fare_cents'', ''surge_multiplier'', ''promo_code'', ''txn_id'', ''paid_amount_cents'',
     ''payment_status'', ''payment_method'', ''paid_at'', ''is_paid'']"

text \<open>\<open>'1900-01-01'::timestamptz\<close> in microseconds.\<close>

definition YEAR_1900_US :: int where
  "YEAR_1900_US = -2208988800000000"

text \<open>\<open>requested_at >= (select coalesce(max(requested_at), '1900-01-01') - interval '60 minutes' from this)\<close>\<close>

definition in_lookback :: "frame \<Rightarrow> payload \<Rightarrow> bool" where
  "in_lookback this row = (case ts_of ''requested_at'' row of None \<Rightarrow> False
     | Some t \<Rightarrow> t \<ge> (case max_ts ''requested_at'' this of None \<Rightarrow> YEAR_1900_US | Some m \<Rightarrow> m) - minutes_us 60)"

text \<open>\<open>this\<close> is the table a previous run left, if there is one.\<close>

definition fct_rides :: "(frame \<Rightarrow> frame \<Rightarrow> exn + frame) \<Rightarrow> frame option \<Rightarrow> frame \<Rightarrow> exn + frame" where
  "fct_rides merge this enriched =
     (let rows = map (project FCT_COLUMNS) enriched in
      case this of None \<Rightarrow> Inr rows | Some t \<Rightarrow> merge t (filter (in_lookback t) rows))"

record ride_source =
  src_sessions :: frame
  src_payments :: frame
  src_cities :: frame

definition enriched_of :: "ride_source \<Rightarrow> frame" where
  "enriched_of src = int_rides__enriched (stg_rides__sessions (src_sessions src))
     (stg_payments__transactions (src_payments src)) (dim_cities (src_cities src))"

text \<open>What \<open>dbt run --full-refresh\<close> builds, and a chain of runs over the sources as they are at each.\<close>

definition full_refresh :: "ride_source \<Rightarrow> frame" where
  "full_refresh src = map (project FCT_COLUMNS) (enriched_of src)"

fun dbt_runs :: "(frame \<Rightarrow> frame \<Rightarrow> exn + frame) \<Rightarrow> frame option \<Rightarrow> ride_source list \<Rightarrow> exn + frame option" where
  "dbt_runs merge this [] = Inr this"
| "dbt_runs merge this (src # srcs) =
     rbind (fct_rides merge this (enriched_of src)) (\<lambda>t. dbt_runs merge (Some t) srcs)"

text \<open>The tests over the fact return the rows that break them.\<close>

definition assert_completed_rides_have_duration :: "frame \<Rightarrow> frame" where
  "assert_completed_rides_have_duration rows =
     map (project [''ride_id'', ''terminal_state'', ''started_at'', ''ride_duration_sec''])
       (filter (\<lambda>r. completed r \<and> d_get r ''started_at'' \<noteq> PNone
          \<and> (case number (d_get r ''ride_duration_sec'') of None \<Rightarrow> d_get r ''ride_duration_sec'' = PNone | Some d \<Rightarrow> d \<le> 0)) rows)"

definition assert_no_negative_fares :: "frame \<Rightarrow> frame" where
  "assert_no_negative_fares rows = map (project [''ride_id'', ''fare_cents''])
     (filter (\<lambda>r. case number (d_get r ''fare_cents'') of None \<Rightarrow> False | Some x \<Rightarrow> x < 0) rows)"

definition assert_payment_amount_matches_fare :: "frame \<Rightarrow> frame" where
  "assert_payment_amount_matches_fare rows =
     map (project [''ride_id'', ''fare_cents'', ''paid_amount_cents'', ''payment_status''])
       (filter (\<lambda>r. completed r \<and> d_get r ''payment_status'' = PStr ''completed''
          \<and> d_get r ''paid_amount_cents'' \<noteq> d_get r ''fare_cents'') rows)"

definition assert_no_future_event_ts :: "int \<Rightarrow> frame \<Rightarrow> frame" where
  "assert_no_future_event_ts now events = map (project [''event_id'', ''event_at''])
     (filter (\<lambda>r. case ts_of ''event_at'' r of None \<Rightarrow> False | Some t \<Rightarrow> t > now + hours_us (14 * 24)) events)"

definition by_ride :: "frame \<Rightarrow> (pyval, payload) dict" where
  "by_ride t = map (\<lambda>r. (d_get r ''ride_id'', r)) t"

definition merge_law :: "(frame \<Rightarrow> frame \<Rightarrow> exn + frame) \<Rightarrow> bool" where
  "merge_law merge \<longleftrightarrow> (\<forall>t new. dict_ok (by_ride t) \<and> dict_ok (by_ride new) \<longrightarrow>
     (\<exists>t'. merge t new = Inr t' \<and> dict_ok (by_ride t') \<and> map_of (by_ride t') = map_of (by_ride t) ++ map_of (by_ride new)))"

section \<open>One row per session\<close>

lemma left_join_unique:
  assumes "\<And>x. x \<in> set xs \<Longrightarrow> length (filter (on_cond x) ys) \<le> 1"
  shows "left_join on_cond xs ys = map (\<lambda>x. (x, find (on_cond x) ys)) xs"
proof -
  have "(case filter (on_cond x) ys of [] \<Rightarrow> [(x, None)] | zs \<Rightarrow> map (\<lambda>y. (x, Some y)) zs)
      = [(x, find (on_cond x) ys)]" if "x \<in> set xs" for x
  proof -
    from assms [OF that] consider "filter (on_cond x) ys = []" | z where "filter (on_cond x) ys = [z]"
      by (cases "filter (on_cond x) ys") (auto simp: Suc_le_eq)
    then show ?thesis
    proof cases
      case 1
      then have "find (on_cond x) ys = None" by (simp add: find_None_iff filter_empty_conv)
      with 1 show ?thesis by simp
    next
      case 2
      have "find (on_cond x) ys = (case filter (on_cond x) ys of [] \<Rightarrow> None | z # zs \<Rightarrow> Some z)"
        by (induction ys) auto
      with 2 show ?thesis by simp
    qed
  qed
  then show ?thesis unfolding left_join_def by (induction xs) simp_all
qed

lemma unique_key_filter:
  assumes "distinct (map f ys)"
  shows "length (filter (\<lambda>y. sql_eq v (f y)) ys) \<le> 1"
proof -
  have "distinct (map f (filter (\<lambda>y. sql_eq v (f y)) ys))" using assms by (rule distinct_map_filter)
  moreover have "set (map f (filter (\<lambda>y. sql_eq v (f y)) ys)) \<subseteq> {v}" by (auto simp: sql_eq_def)
  ultimately have "card (set (map f (filter (\<lambda>y. sql_eq v (f y)) ys))) \<le> 1"
    "card (set (map f (filter (\<lambda>y. sql_eq v (f y)) ys))) = length (filter (\<lambda>y. sql_eq v (f y)) ys)"
    using card_mono [of "{v}"] distinct_card by fastforce+
  then show ?thesis by simp
qed

text \<open>What is unique in the sources: the ride of a session (its primary key), the city of a dimension
  row, and the ride of a payment (a ride is paid once).\<close>

definition keys_of :: "string \<Rightarrow> frame \<Rightarrow> pyval list" where
  "keys_of c rows = map (\<lambda>r. d_get r c) rows"

definition source_ok :: "ride_source \<Rightarrow> bool" where
  "source_ok src \<longleftrightarrow> distinct (keys_of ''ride_id'' (src_sessions src))
     \<and> distinct (keys_of ''ride_id'' (src_payments src)) \<and> distinct (keys_of ''city_id'' (src_cities src))"

lemma renamed_get:
  "d_get (renamed cs row) c = (case map_of cs c of None \<Rightarrow> PNone | Some old \<Rightarrow> d_get row old)"
  by (induction cs) (auto simp: renamed_def d_get_def)

lemma keys_of_renamed:
  assumes "map_of cs c = Some old"
  shows "keys_of c (map (renamed cs) rows) = keys_of old rows"
  using assms by (simp add: keys_of_def renamed_get)

lemma staged_keys:
  "keys_of ''ride_id'' (stg_rides__sessions rows) = keys_of ''ride_id'' rows"
  "keys_of ''ride_id'' (stg_payments__transactions rows) = keys_of ''ride_id'' rows"
  "keys_of ''city_id'' (dim_cities rows) = keys_of ''city_id'' rows"
  by (simp_all add: stg_rides__sessions_def SESSION_NAMES_def stg_payments__transactions_def dim_cities_def
      same_names_def keys_of_renamed)

definition fct_row :: "ride_source \<Rightarrow> payload \<Rightarrow> payload" where
  "fct_row src s = project FCT_COLUMNS (enriched_row s
     (find (\<lambda>p. sql_eq (d_get s ''ride_id'') (d_get p ''ride_id'')) (stg_payments__transactions (src_payments src)))
     (find (\<lambda>c. sql_eq (d_get s ''city_id'') (d_get c ''city_id'')) (dim_cities (src_cities src))))"

lemma full_refresh_rows:
  assumes "source_ok src"
  shows "full_refresh src = map (fct_row src) (stg_rides__sessions (src_sessions src))"
proof -
  let ?P = "stg_payments__transactions (src_payments src)" and ?C = "dim_cities (src_cities src)"
  have "distinct (map (\<lambda>p. d_get p ''ride_id'') ?P)" "distinct (map (\<lambda>c. d_get c ''city_id'') ?C)"
    using assms staged_keys(2) [of "src_payments src"] staged_keys(3) [of "src_cities src"]
    by (simp_all add: source_ok_def keys_of_def)
  note u = unique_key_filter [OF this(1)] unique_key_filter [OF this(2)]
  have "left_join (\<lambda>s p. sql_eq (d_get s ''ride_id'') (d_get p ''ride_id'')) S ?P
      = map (\<lambda>s. (s, find (\<lambda>p. sql_eq (d_get s ''ride_id'') (d_get p ''ride_id'')) ?P)) S" for S
    by (rule left_join_unique) (rule u(1))
  moreover have "left_join (\<lambda>(s, p) c. sql_eq (d_get s ''city_id'') (d_get c ''city_id'')) (J :: (payload \<times> payload option) list) ?C
      = map (\<lambda>x. (x, find (case x of (s, p) \<Rightarrow> \<lambda>c. sql_eq (d_get s ''city_id'') (d_get c ''city_id'')) ?C)) J" for J
    by (rule left_join_unique) (use u(2) in \<open>simp add: split_def\<close>)
  ultimately show ?thesis
    by (simp add: full_refresh_def enriched_of_def int_rides__enriched_def fct_row_def split_def)
qed

lemma project_get: "d_get (project cs row) c = (if c \<in> set cs then d_get row c else PNone)"
  by (induction cs) (auto simp: project_def d_get_def)

lemma d_get_append: "d_get (d @ e) c = (case map_of d c of None \<Rightarrow> d_get e c | Some v \<Rightarrow> v)"
  by (simp add: d_get_def map_add_def split: option.split)

lemma d_get_Cons: "d_get ((k, v) # d) c = (if c = k then v else d_get d c)"
  by (simp add: d_get_def)

lemma map_of_project: "map_of (project cs row) c = (if c \<in> set cs then Some (d_get row c) else None)"
  by (induction cs) (auto simp: project_def)

lemma fct_row_get:
  "d_get (fct_row src s) ''ride_id'' = d_get s ''ride_id''"
  "d_get (fct_row src s) ''requested_at'' = d_get s ''requested_at''"
  "d_get (fct_row src s) ''terminal_state'' = d_get s ''terminal_state''"
  "d_get (fct_row src s) ''fare_cents'' = d_get s ''fare_cents''"
  "d_get (fct_row src s) ''started_at'' = d_get s ''started_at''"
  "d_get (fct_row src s) ''ride_duration_sec'' = d_get s ''ride_duration_sec''"
  by (simp_all add: fct_row_def project_get FCT_COLUMNS_def enriched_row_def d_get_append d_get_Cons map_of_project)

lemma full_refresh_keys:
  assumes "source_ok src"
  shows "keys_of ''ride_id'' (full_refresh src) = keys_of ''ride_id'' (src_sessions src)"
proof -
  have "keys_of ''ride_id'' (full_refresh src) = keys_of ''ride_id'' (stg_rides__sessions (src_sessions src))"
    unfolding full_refresh_rows [OF assms] by (simp add: keys_of_def fct_row_get)
  then show ?thesis by (simp only: staged_keys(1))
qed

section \<open>When an incremental run is a full refresh\<close>

text \<open>Between two runs no session disappears, and every row of the second is one of the first or is
  requested in the lookback of the first.\<close>

definition in_window :: "ride_source \<Rightarrow> ride_source \<Rightarrow> bool" where
  "in_window prev cur \<longleftrightarrow>
     list_all (\<lambda>r. r \<in> set (full_refresh prev) \<or> in_lookback (full_refresh prev) r) (full_refresh cur)
     \<and> set (keys_of ''ride_id'' (src_sessions prev)) \<subseteq> set (keys_of ''ride_id'' (src_sessions cur))"

fun each_in_window :: "ride_source \<Rightarrow> ride_source list \<Rightarrow> bool" where
  "each_in_window prev [] = True"
| "each_in_window prev (cur # rest) \<longleftrightarrow> in_window prev cur \<and> each_in_window cur rest"

lemma fold_max_init: "(fold max xs (a :: int)) = Max (insert a (set xs))"
proof (induction xs arbitrary: a)
  case (Cons x xs)
  have "fold max (x # xs) a = Max (insert (max x a) (set xs))" using Cons by simp
  also have "\<dots> = Max (insert x (insert a (set xs)))" by (cases "xs = []") (simp_all add: max.assoc)
  finally show ?case by (simp add: insert_commute)
qed simp

lemma max_ts_Max:
  "max_ts c rows = (let S = set (List.map_filter (ts_of c) rows) in if S = {} then None else Some (Max S))"
  by (cases "List.map_filter (ts_of c) rows") (simp_all add: max_ts_def fold_max_init)

lemma max_ts_cong:
  assumes "set rows = set rows'"
  shows "max_ts c rows = max_ts c rows'"
proof -
  have "set (List.map_filter (ts_of c) xs) = {t. \<exists>r \<in> set xs. ts_of c r = Some t}" for xs
    by (auto simp: List.map_filter_def) (metis (mono_tags, lifting) image_eqI mem_Collect_eq option.sel option.distinct(1))
  with assms show ?thesis by (simp add: max_ts_Max)
qed

lemma in_lookback_cong:
  assumes "set t = set t'"
  shows "in_lookback t = in_lookback t'"
  by (rule ext) (simp only: in_lookback_def max_ts_cong [OF assms])

lemma by_ride_keys: "map fst (by_ride t) = keys_of ''ride_id'' t"
  by (simp add: by_ride_def keys_of_def)

lemma by_ride_mem:
  "dict_ok (by_ride t) \<Longrightarrow> map_of (by_ride t) k = Some r \<longleftrightarrow> r \<in> set t \<and> k = d_get r ''ride_id''"
  by (auto simp: by_ride_def)

lemma by_ride_filter: "dict_ok (by_ride t) \<Longrightarrow> dict_ok (by_ride (filter P t))"
  unfolding by_ride_keys keys_of_def by (rule distinct_map_filter)

lemma merge_full:
  assumes "merge_law merge" "source_ok cur" "in_window prev cur" "source_ok prev"
    and t: "set t = set (full_refresh prev)" "dict_ok (by_ride t)"
  obtains t' where "fct_rides merge (Some t) (enriched_of cur) = Inr t'" "set t' = set (full_refresh cur)"
    "dict_ok (by_ride t')"
proof -
  let ?F = "full_refresh cur" and ?new = "filter (in_lookback t) (full_refresh cur)"
  have F: "dict_ok (by_ride ?F)"
    using assms(2) by (simp add: by_ride_keys full_refresh_keys source_ok_def)
  have new: "dict_ok (by_ride ?new)" using F by (rule by_ride_filter)
  have look: "in_lookback t = in_lookback (full_refresh prev)" using t(1) by (rule in_lookback_cong)
  have old: "r \<in> set t \<or> in_lookback t r" if "r \<in> set ?F" for r
    using assms(3) that by (simp add: in_window_def list_all_iff t(1) look)
  have keys: "d_get r ''ride_id'' \<in> set (keys_of ''ride_id'' ?F)" if "r \<in> set t" for r
  proof -
    have "d_get r ''ride_id'' \<in> set (keys_of ''ride_id'' (full_refresh prev))"
      using that t(1) by (auto simp: keys_of_def)
    with assms(2-4) show ?thesis by (auto simp: full_refresh_keys in_window_def)
  qed
  obtain t' where t': "merge t ?new = Inr t'" "dict_ok (by_ride t')"
    "map_of (by_ride t') = map_of (by_ride t) ++ map_of (by_ride ?new)"
    using assms(1) t(2) new unfolding merge_law_def by blast
  have "r \<in> set t' \<longleftrightarrow> r \<in> set ?F" for r
  proof -
    let ?k = "d_get r ''ride_id''"
    have "r \<in> set t' \<longleftrightarrow> map_of (by_ride t') ?k = Some r" using by_ride_mem [OF t'(2)] by simp
    also have "\<dots> \<longleftrightarrow> r \<in> set ?new \<or> map_of (by_ride ?new) ?k = None \<and> r \<in> set t"
      unfolding t'(3) map_add_Some_iff by_ride_mem [OF new] by_ride_mem [OF t(2)] by blast
    also have "\<dots> \<longleftrightarrow> r \<in> set ?F"
    proof
      assume "r \<in> set ?new \<or> map_of (by_ride ?new) ?k = None \<and> r \<in> set t"
      then show "r \<in> set ?F"
      proof (elim disjE conjE)
        assume none: "map_of (by_ride ?new) ?k = None" and r: "r \<in> set t"
        from keys [OF r] obtain x where x: "x \<in> set ?F" "d_get x ''ride_id'' = ?k"
          by (auto simp: keys_of_def)
        have "x \<notin> set ?new" using none x(2) by_ride_mem [OF new, of ?k x] by auto
        with x(1) old have "x \<in> set t" by auto
        then have "x = r" using by_ride_mem [OF t(2), of ?k] r x(2) by (metis option.inject)
        with x(1) show "r \<in> set ?F" by simp
      qed simp
    next
      assume r: "r \<in> set ?F"
      show "r \<in> set ?new \<or> map_of (by_ride ?new) ?k = None \<and> r \<in> set t"
      proof (cases "in_lookback t r")
        case False
        have "map_of (by_ride ?new) ?k \<noteq> Some x" for x
        proof
          assume "map_of (by_ride ?new) ?k = Some x"
          then have x: "x \<in> set ?F" "in_lookback t x" "?k = d_get x ''ride_id''"
            by (simp_all add: by_ride_mem [OF new])
          then have "x = r" using by_ride_mem [OF F, of ?k] r by (metis option.inject)
          with x(2) False show False by simp
        qed
        with old [OF r] False show ?thesis by auto
      qed (use r in simp)
    qed
    finally show ?thesis .
  qed
  then have "set t' = set ?F" by blast
  with t' show thesis
    using that [of t'] by (simp add: fct_rides_def full_refresh_def Let_def)
qed

end
