(* ===== verification/Pipeline.thy ===== *)
theory Pipeline
  imports Sessionizer_Properties Pg_Properties
begin

text \<open>
  The sessionizer and the Postgres sink as one system, joined by the topic rides.sessions: the
  records the sessionizer commits are what the broker makes readable to the sink, which
  consumes with isolation level \<open>read_committed\<close>. A step of the pipeline is a step of
  either service, the broker handing a committed session to a partition of the topic at some
  free offset (in any order, each record once), or a producer appending to another topic the
  sink reads. Both services may crash and restart at any point, independently.

  \<open>session_wire\<close> is the law of the Avro classes: what was serialised as a session is read back
  with the fields of logical type \<open>timestamp-millis\<close> as datetimes. The theorems say what
  raw.ride_sessions is in terms of rides.events, the input of the first service.
\<close>

section \<open>The records of the two services\<close>

definition SESSION_TIMES :: "string list" where
  "SESSION_TIMES = [''requested_ts'', ''matched_ts'', ''driver_arrived_ts'', ''started_ts'', ''ended_ts'']"

fun logical_time :: "string \<Rightarrow> pyval \<Rightarrow> pyval" where
  "logical_time k (PInt ms) = (if k \<in> set SESSION_TIMES then PDatetime (dt_of_ms ms) else PInt ms)"
| "logical_time k v = v"

definition logical_times :: "payload \<Rightarrow> payload" where
  "logical_times = map (\<lambda>(k, v). (k, logical_time k v))"

definition session_wire :: "codec \<Rightarrow> pg_env \<Rightarrow> bool" where
  "session_wire cd env \<longleftrightarrow> (\<exists>f. map_of (deserializers env) RIDES_SESSIONS = Some f
     \<and> (\<forall>s b. serialize_session cd RIDES_SESSIONS s = Inr b \<longrightarrow> f RIDES_SESSIONS (Some b) = Inr (logical_times s)))"

definition lossless_ms :: "int \<Rightarrow> bool" where
  "lossless_ms ms \<longleftrightarrow> to_epoch_ms (PDatetime (dt_of_ms ms)) = Inr ms"

lemma lossless_range: "(2 ^ 40 :: int) < ms \<Longrightarrow> ms < 2147483648000 \<Longrightarrow> lossless_ms ms"
  unfolding lossless_ms_def by (simp only: dt_of_ms_exact to_epoch_ms_of_ms)

lemma lossless_zero: "lossless_ms 0"
  by (simp add: lossless_ms_def dt_of_ms_def dt_from_timestamp_def dt_timestamp_def fl_def trunc_def
      round_even_def)

lemma map_of_logical_times:
  "map_of (logical_times s) k = (case map_of s k of None \<Rightarrow> None | Some v \<Rightarrow> Some (logical_time k v))"
  by (induction s) (auto simp: logical_times_def)

text \<open>The row of a session is the same before and after the wire.\<close>

definition times_ok :: "payload \<Rightarrow> bool" where
  "times_ok s \<longleftrightarrow> list_all (\<lambda>k. d_get s k = PNone \<or> (\<exists>ms. d_get s k = PInt ms \<and> lossless_ms ms)) SESSION_TIMES"

lemma logical_time_other: "k \<notin> set SESSION_TIMES \<Longrightarrow> logical_time k v = v"
  by (cases v) auto

lemma field_other:
  assumes "k \<notin> set SESSION_TIMES"
  shows "field_value (logical_times s) (Item k) = field_value s (Item k)"
    "field_value (logical_times s) (Get k) = field_value s (Get k)"
  using logical_time_other [OF assms]
  by (simp_all add: d_item_def d_get_def map_of_logical_times split: option.split)

lemma dt_param_logical:
  assumes "k \<in> set SESSION_TIMES" "v = PNone \<or> (\<exists>ms. v = PInt ms \<and> lossless_ms ms)"
  shows "dt_param (logical_time k v) = dt_param v"
  using assms by (auto simp: lossless_ms_def simp del: to_epoch_ms.simps(1))

lemma field_time:
  assumes "times_ok s" "k \<in> set SESSION_TIMES"
  shows "field_value (logical_times s) (DtItem k) = field_value s (DtItem k)"
    "field_value (logical_times s) (DtGet k) = field_value s (DtGet k)"
proof -
  have t: "d_get s k = PNone \<or> (\<exists>ms. d_get s k = PInt ms \<and> lossless_ms ms)"
    using assms unfolding times_ok_def list_all_iff by blast
  show "field_value (logical_times s) (DtItem k) = field_value s (DtItem k)"
    "field_value (logical_times s) (DtGet k) = field_value s (DtGet k)"
    using dt_param_logical [OF assms(2) t]
    by (cases "map_of s k"; simp add: d_item_def d_get_def map_of_logical_times)+
qed

lemma session_row_wire:
  assumes "times_ok s"
  shows "session_row (logical_times s) = session_row s"
proof -
  have "k \<notin> set SESSION_TIMES" if "k \<in> set [''ride_id'', ''rider_id'', ''driver_id'', ''city_id'',
      ''terminal_state'', ''event_seq'', ''time_to_match_sec'', ''time_to_pickup_sec'', ''ride_duration_sec'',
      ''haversine_distance_km'', ''avg_speed_kmh'', ''is_late_arrival'', ''fare_cents'', ''surge_multiplier'',
      ''promo_code'', ''pickup_lat'', ''pickup_lon'', ''dropoff_lat'', ''dropoff_lon'']" for k
    using that by (auto simp: SESSION_TIMES_def)
  note o = field_other [OF this]
  have t: "field_value (logical_times s) (DtItem k) = field_value s (DtItem k)
      \<and> field_value (logical_times s) (DtGet k) = field_value s (DtGet k)"
    if "k \<in> set [''requested_ts'', ''matched_ts'', ''driver_arrived_ts'', ''started_ts'', ''ended_ts'']" for k
    using field_time [OF assms] that unfolding SESSION_TIMES_def by blast
  show ?thesis
    unfolding session_row_def by (simp add: o t del: field_value.simps)
qed

section \<open>The times of a session\<close>

lemma build_session_times:
  assumes "build_session a t = Inr s"
  shows "list_all (\<lambda>k. \<exists>e. d_get s k = slot_get (acc_slots a) e ''event_ts'' \<or> d_get s k = PNone
    \<or> d_get s k = PInt (last_event_ts a)) SESSION_TIMES"
proof -
  have closable: "\<not> (terminal a = None \<and> \<not> t)"
    using assms not_closable [of a] by (cases t) auto
  note s = assms [unfolded build_session_def Let_def if_not_P [OF closable] rbind_eq_Inr sum.inject]
  have "\<exists>e. d_get s k = slot_get (acc_slots a) e ''event_ts'' \<or> d_get s k = PNone
      \<or> d_get s k = PInt (last_event_ts a)"
    if "k = ''requested_ts'' \<or> k = ''matched_ts'' \<or> k = ''driver_arrived_ts'' \<or> k = ''started_ts''
      \<or> k = ''ended_ts''" for k
    using that s by (elim exE conjE disjE) (hypsubst, simp add: d_get_def, blast)+
  then show ?thesis by (simp add: SESSION_TIMES_def)
qed

lemma fold_times:
  assumes "add_events (new_acc r) vs = Inr a"
    and "list_all (\<lambda>v. case d_get v ''event_ts'' of PInt ms \<Rightarrow> lossless_ms ms | _ \<Rightarrow> False) vs"
  shows "list_all (\<lambda>(s, v). \<exists>ms. d_get v ''event_ts'' = PInt ms \<and> lossless_ms ms) (acc_slots a)"
proof -
  have ok: "slots_ok a" by (rule slots_ok_adds [OF slots_ok_new assms(1)])
  have "\<exists>ms. d_get v ''event_ts'' = PInt ms \<and> lossless_ms ms" if "(s, v) \<in> set (acc_slots a)" for s v
  proof -
    have "map_of (acc_slots a) s = Some v" using ok that by (simp add: slots_ok_def)
    with add_events_from [OF assms(1)] obtain w where w: "w \<in> set vs" "norm_event w = Inr (s, v)"
      by (auto simp: new_acc_def)
    with assms(2) have "case d_get w ''event_ts'' of PInt ms \<Rightarrow> lossless_ms ms | _ \<Rightarrow> False"
      by (simp add: list_all_iff)
    with w(2) show ?thesis
      by (auto simp: norm_event_def rbind_eq_Inr d_item_eq_Inr d_get_def split: pyval.splits)
  qed
  then show ?thesis by (auto simp: list_all_iff)
qed

lemma last_event_lossless:
  assumes "list_all (\<lambda>(s, v). \<exists>ms. d_get v ''event_ts'' = PInt ms \<and> lossless_ms ms) (acc_slots a)"
  shows "lossless_ms (last_event_ts a)"
proof (cases "acc_slots a = []")
  case True
  then show ?thesis by (simp add: last_event_ts_def lossless_zero)
next
  case False
  let ?T = "set (map (slot_ts \<circ> snd) (acc_slots a))"
  have "Max ?T \<in> ?T" by (rule Max_in) (use False in auto)
  then obtain x where x: "x \<in> set (acc_slots a)" "Max ?T = slot_ts (snd x)" by auto
  with assms obtain ms where "d_get (snd x) ''event_ts'' = PInt ms" "lossless_ms ms"
    by (auto simp: list_all_iff split_def)
  then have "lossless_ms (slot_ts (snd x))" by (simp add: slot_ts_def)
  with x(2) False show ?thesis by (simp add: last_event_ts_def)
qed

lemma session_times_ok:
  assumes "add_events (new_acc r) vs = Inr a" "build_session a t = Inr s"
    and "list_all (\<lambda>v. case d_get v ''event_ts'' of PInt ms \<Rightarrow> lossless_ms ms | _ \<Rightarrow> False) vs"
  shows "times_ok s"
proof -
  note sl = fold_times [OF assms(1,3)]
  have slot: "slot_get (acc_slots a) e ''event_ts'' = PNone
      \<or> (\<exists>ms. slot_get (acc_slots a) e ''event_ts'' = PInt ms \<and> lossless_ms ms)" for e
    using sl by (auto simp: slot_get_def list_all_iff split: option.split dest!: map_of_SomeD)
  note last = last_event_lossless [OF sl]
  have "d_get s k = PNone \<or> (\<exists>ms. d_get s k = PInt ms \<and> lossless_ms ms)" if "k \<in> set SESSION_TIMES" for k
  proof -
    from bspec [OF build_session_times [OF assms(2), unfolded list_all_iff] that]
    show ?thesis
    proof (elim exE disjE)
      fix e assume "d_get s k = slot_get (acc_slots a) e ''event_ts''"
      with slot [of e] show ?thesis by simp
    qed (use last in simp_all)
  qed
  then show ?thesis by (simp add: times_ok_def list_all_iff)
qed

section \<open>What is committed stays\<close>

lemma on_assign_log: "on_assign ps s = (r, s') \<Longrightarrow> sz_log s' = sz_log s"
proof (induction ps arbitrary: s)
  case (Cons p ps)
  obtain r1 s1 where a: "assign_partition p s = (r1, s1)" by fastforce
  from assign_partition_durable [OF this] have "sz_log s1 = sz_log s" by simp
  with Cons a show ?case by (cases r1) (auto simp: and_then_def)
qed simp

lemma sstep_log: "sstep cd cfg input parts x y \<Longrightarrow> \<exists>ops. sz_log (sys_szr y) = sz_log (sys_szr x) @ ops"
proof (induction rule: sstep.induct)
  case (batch_ok s msgs fault sessions s' h)
  from process_batch_cases [OF this(2)] show ?case by (auto simp: forget_closed_def)
next
  case (batch_fails s msgs fault r s' e h)
  from process_batch_cases [OF this(2)] this(3) show ?case by auto
next
  case (restart s u s' h)
  from on_assign_log [OF this] show ?case by (simp add: new_szr_def)
next
  case (restart_cut n s r s' h)
  from on_assign_log [OF this] show ?case by (simp add: new_szr_def)
qed auto

lemma committed_grow: "\<exists>rs. committed_records (lg @ ops) T = committed_records lg T @ rs"
proof -
  have "\<exists>rs. fst (foldl (records_step T) st ops) = fst st @ rs" for st
  proof (induction ops arbitrary: st)
    case (Cons op ops)
    obtain rs p where st: "st = (rs, p)" by fastforce
    have "\<exists>us. fst (records_step T st op) = fst st @ us" unfolding st by (cases op) auto
    with Cons [of "records_step T st op"] show ?case by (auto simp: append_assoc)
  qed simp
  then show ?thesis by (simp add: committed_records_def)
qed

section \<open>A table whose equal keys are equal rows\<close>

lemma resolve_self: "resolve table a r r = r"
  by (cases a) simp_all

lemma upsert_rows_same:
  assumes "upsert_rows env table a rs t = Inr t'"
    and "\<forall>x \<in> S. \<forall>y \<in> S. key_of table x = key_of table y \<longrightarrow> x = y" "set rs \<subseteq> S"
    and "list_all (\<lambda>(k, r). r \<in> S \<and> k = key_of table r) t"
  shows "list_all (\<lambda>(k, r). r \<in> S \<and> k = key_of table r) t'"
  using assms(1,3,4) unfolding upsert_rows_def
proof (induction rs arbitrary: t)
  case (Cons x xs)
  then obtain u where u: "upsert_row env table a x t = Inr u" "rfold (upsert_row env table a) xs u = Inr t'"
    by (auto simp: rbind_eq_Inr)
  have x: "x \<in> S" using Cons.prems(2) by simp
  from u(1) have "list_all (\<lambda>(k, r). r \<in> S \<and> k = key_of table r) u"
  proof (cases rule: upsert_row_cases)
    case fresh
    with Cons.prems(3) x show ?thesis by simp
  next
    case (conflict old)
    then have "old \<in> S \<and> key_of table old = key_of table x"
      using Cons.prems(3) by (auto simp: list_all_iff dest!: map_of_SomeD)
    with assms(2) x have "old = x" by blast
    then have "u = AList.update (key_of table x) x t" using conflict(4) by (simp add: resolve_self)
    with Cons.prems(3) x show ?thesis by (auto intro!: dict_update_list_all)
  qed
  with Cons.IH [OF u(2)] Cons.prems(2) show ?case by simp
qed simp

section \<open>A partition that grows\<close>

definition append_msg :: "msg \<Rightarrow> (string \<times> int \<Rightarrow> msg list) \<Rightarrow> string \<times> int \<Rightarrow> msg list" where
  "append_msg m input = (let tp = (m_topic m, m_partition m) in input(tp := input tp @ [m]))"

lemma deliverable_append:
  assumes "deliverable input parts pos msgs"
  shows "deliverable (append_msg m input) parts pos msgs"
proof -
  have "xs = take (length xs) (from_offset off (append_msg m input tp))"
    if "xs = take (length xs) (from_offset off (input tp))" for xs off tp
  proof (cases "tp = (m_topic m, m_partition m)")
    case True
    from that have "length xs \<le> length (from_offset off (input tp))"
      by (metis length_take min.cobounded1)
    then have "take (length xs) (from_offset off (input tp) @ zs) = take (length xs) (from_offset off (input tp))" for zs
      by simp
    with that True show ?thesis by (simp add: append_msg_def Let_def from_offset_def)
  qed (use that in \<open>simp add: append_msg_def Let_def\<close>)
  with assms show ?thesis unfolding deliverable_def list_all_iff by blast
qed

lemma pstep_append:
  assumes "pstep env grp input parts x y"
  shows "pstep env grp (append_msg m input) parts x y"
  using assms
proof (cases rule: pstep.cases)
  case (p_batch pos msgs faults s w s' h)
  show ?thesis unfolding p_batch(1,2) by (rule pstep.p_batch [OF deliverable_append [OF p_batch(3)] p_batch(4)])
next
  case (p_fail pos msgs faults s r s' e h)
  show ?thesis unfolding p_fail(1,2)
    by (rule pstep.p_fail [OF deliverable_append [OF p_fail(3)] p_fail(4,5)])
next
  case (p_kill s pos h)
  show ?thesis unfolding p_kill by (rule pstep.p_kill)
next
  case (p_restart s' s pos h)
  show ?thesis unfolding p_restart(1,2) by (rule pstep.p_restart [OF p_restart(3)])
qed

lemma preachable_append:
  "preachable env grp input parts x \<Longrightarrow> preachable env grp (append_msg m input) parts x"
proof (induction rule: preachable.induct)
  case preach_init
  show ?case by (rule preachable.preach_init)
next
  case (preach_step x y)
  show ?case by (rule preachable.preach_step [OF preach_step.IH pstep_append [OF preach_step.hyps(2)]])
qed

text \<open>Offsets of a partition increase.\<close>

definition next_offset :: "(string \<times> int \<Rightarrow> msg list) \<Rightarrow> msg \<Rightarrow> bool" where
  "next_offset input m \<longleftrightarrow> 0 \<le> m_offset m
     \<and> list_all (\<lambda>x. m_offset x < m_offset m) (input (m_topic m, m_partition m))"

lemma partitions_ok_append:
  assumes "partitions_ok input parts" "is_record m" "next_offset input m"
  shows "partitions_ok (append_msg m input) parts"
proof -
  have "sorted_wrt (<) (map m_offset (append_msg m input tp))
      \<and> list_all (\<lambda>m. is_record m \<and> (m_topic m, m_partition m) = tp \<and> 0 \<le> m_offset m) (append_msg m input tp)"
    if tp: "tp \<in> set parts" for tp
  proof -
    have old: "sorted_wrt (<) (map m_offset (input tp))"
      "list_all (\<lambda>m. is_record m \<and> (m_topic m, m_partition m) = tp \<and> 0 \<le> m_offset m) (input tp)"
      using assms(1) tp unfolding partitions_ok_def list_all_iff by blast+
    show ?thesis
    proof (cases "tp = (m_topic m, m_partition m)")
      case True
      have "append_msg m input tp = input tp @ [m]" by (simp add: True append_msg_def Let_def)
      moreover have "sorted_wrt (<) (map m_offset (input tp @ [m]))"
        using old(1) assms(3) by (simp add: True next_offset_def sorted_wrt_append list_all_iff)
      ultimately show ?thesis
        using old(2) assms(2,3) True by (simp add: next_offset_def)
    next
      case False
      then have "append_msg m input tp = input tp" by (simp add: append_msg_def Let_def)
      with old show ?thesis by simp
    qed
  qed
  with assms(1) show ?thesis by (simp add: partitions_ok_def list_all_iff)
qed

section \<open>The system\<close>

text \<open>
  \<open>pi_sent\<close> are the positions, among the committed session records, of those the broker has made
  readable.
\<close>

record pipe =
  pi_szr :: sys
  pi_input :: "string \<times> int \<Rightarrow> msg list"
  pi_sent :: "nat list"
  pi_pg :: psys

abbreviation sessions_committed :: "sys \<Rightarrow> (string option \<times> string) list" where
  "sessions_committed x \<equiv> committed_records (sz_log (sys_szr x)) RIDES_SESSIONS"

inductive pipe_step :: "codec \<Rightarrow> SessionizerConfig \<Rightarrow> (int \<Rightarrow> msg list) \<Rightarrow> int list \<Rightarrow> pg_env \<Rightarrow> string
    \<Rightarrow> (string \<times> int) list \<Rightarrow> pipe \<Rightarrow> pipe \<Rightarrow> bool"
  for cd cfg input parts env grp pparts where
  pipe_sessionizer: "sstep cd cfg input parts x x' \<Longrightarrow>
     pipe_step cd cfg input parts env grp pparts
       \<lparr>pi_szr = x, pi_input = inp, pi_sent = sent, pi_pg = y\<rparr>
       \<lparr>pi_szr = x', pi_input = inp, pi_sent = sent, pi_pg = y\<rparr>"
| pipe_broker: "i < length (sessions_committed x) \<Longrightarrow> i \<notin> set sent \<Longrightarrow>
     m_topic m = RIDES_SESSIONS \<Longrightarrow> (RIDES_SESSIONS, m_partition m) \<in> set pparts \<Longrightarrow> is_record m \<Longrightarrow>
     next_offset inp m \<Longrightarrow> sessions_committed x ! i = (m_key m, v) \<Longrightarrow> m_value m = Some v \<Longrightarrow>
     pipe_step cd cfg input parts env grp pparts
       \<lparr>pi_szr = x, pi_input = inp, pi_sent = sent, pi_pg = y\<rparr>
       \<lparr>pi_szr = x, pi_input = append_msg m inp, pi_sent = i # sent, pi_pg = y\<rparr>"
| pipe_other: "m_topic m \<noteq> RIDES_SESSIONS \<Longrightarrow> is_record m \<Longrightarrow> next_offset inp m \<Longrightarrow>
     pipe_step cd cfg input parts env grp pparts
       \<lparr>pi_szr = x, pi_input = inp, pi_sent = sent, pi_pg = y\<rparr>
       \<lparr>pi_szr = x, pi_input = append_msg m inp, pi_sent = sent, pi_pg = y\<rparr>"
| pipe_sink: "pstep env grp inp pparts y y' \<Longrightarrow>
     pipe_step cd cfg input parts env grp pparts
       \<lparr>pi_szr = x, pi_input = inp, pi_sent = sent, pi_pg = y\<rparr>
       \<lparr>pi_szr = x, pi_input = inp, pi_sent = sent, pi_pg = y'\<rparr>"

definition pipe_init :: "string \<Rightarrow> pipe" where
  "pipe_init grp = \<lparr>pi_szr = sys_init, pi_input = (\<lambda>_. []), pi_sent = [], pi_pg = psys_init grp\<rparr>"

inductive pipe_reachable :: "codec \<Rightarrow> SessionizerConfig \<Rightarrow> (int \<Rightarrow> msg list) \<Rightarrow> int list \<Rightarrow> pg_env
    \<Rightarrow> string \<Rightarrow> (string \<times> int) list \<Rightarrow> pipe \<Rightarrow> bool"
  for cd cfg input parts env grp pparts where
  pipe_start: "pipe_reachable cd cfg input parts env grp pparts (pipe_init grp)"
| pipe_next: "pipe_reachable cd cfg input parts env grp pparts z \<Longrightarrow>
     pipe_step cd cfg input parts env grp pparts z z' \<Longrightarrow>
     pipe_reachable cd cfg input parts env grp pparts z'"

text \<open>The messages of the topic are the handed over records.\<close>

definition session_msgs :: "(string \<times> int) list \<Rightarrow> (string \<times> int \<Rightarrow> msg list) \<Rightarrow> msg list" where
  "session_msgs pparts inp = concat (map inp (filter (\<lambda>tp. fst tp = RIDES_SESSIONS) pparts))"

definition handed_over :: "(string \<times> int) list \<Rightarrow> pipe \<Rightarrow> bool" where
  "handed_over pparts z \<longleftrightarrow>
     list_all (\<lambda>i. i < length (sessions_committed (pi_szr z))) (pi_sent z)
     \<and> (\<lambda>m. (m_key m, m_value m)) ` set (session_msgs pparts (pi_input z))
       = (\<lambda>i. apsnd Some (sessions_committed (pi_szr z) ! i)) ` set (pi_sent z)"

definition pipe_inv :: "codec \<Rightarrow> SessionizerConfig \<Rightarrow> (int \<Rightarrow> msg list) \<Rightarrow> int list \<Rightarrow> pg_env
    \<Rightarrow> string \<Rightarrow> (string \<times> int) list \<Rightarrow> pipe \<Rightarrow> bool" where
  "pipe_inv cd cfg input parts env grp pparts z \<longleftrightarrow>
     reachable cd cfg input parts (pi_szr z)
     \<and> partitions_ok (pi_input z) pparts
     \<and> preachable env grp (pi_input z) pparts (pi_pg z)
     \<and> handed_over pparts z"

lemma session_msgs_append:
  assumes "(m_topic m, m_partition m) \<in> set pparts \<or> m_topic m \<noteq> RIDES_SESSIONS"
  shows "set (session_msgs pparts (append_msg m inp)) =
    (if m_topic m = RIDES_SESSIONS then insert m (set (session_msgs pparts inp)) else set (session_msgs pparts inp))"
proof -
  have "x \<in> set (append_msg m inp tp) \<longleftrightarrow> x \<in> set (inp tp) \<or> x = m \<and> tp = (m_topic m, m_partition m)" for x tp
    by (auto simp: append_msg_def Let_def)
  with assms show ?thesis by (auto simp: session_msgs_def)
qed

lemma handed_over_grow:
  assumes "handed_over pparts \<lparr>pi_szr = x, pi_input = inp, pi_sent = sent, pi_pg = y\<rparr>"
    and "sz_log (sys_szr x') = sz_log (sys_szr x) @ ops"
  shows "handed_over pparts \<lparr>pi_szr = x', pi_input = inp, pi_sent = sent, pi_pg = y'\<rparr>"
proof -
  obtain rs where rs: "sessions_committed x' = sessions_committed x @ rs"
    using committed_grow [of "sz_log (sys_szr x)" ops RIDES_SESSIONS] unfolding assms(2) ..
  have "sessions_committed x' ! i = sessions_committed x ! i \<and> i < length (sessions_committed x')"
    if "i \<in> set sent" for i
  proof -
    have "i < length (sessions_committed x)"
      using assms(1) that by (simp add: handed_over_def list_all_iff)
    then show ?thesis by (simp add: rs nth_append)
  qed
  moreover from this have "(\<lambda>i. apsnd Some (sessions_committed x' ! i)) ` set sent
      = (\<lambda>i. apsnd Some (sessions_committed x ! i)) ` set sent"
    by (intro image_cong) simp_all
  ultimately show ?thesis
    using assms(1) by (simp add: handed_over_def list_all_iff)
qed

lemma handed_over_one:
  assumes "handed_over pparts \<lparr>pi_szr = x, pi_input = inp, pi_sent = sent, pi_pg = y\<rparr>"
    and "i < length (sessions_committed x)" "m_topic m = RIDES_SESSIONS"
    and "(RIDES_SESSIONS, m_partition m) \<in> set pparts"
    and "sessions_committed x ! i = (m_key m, v)" "m_value m = Some v"
  shows "handed_over pparts \<lparr>pi_szr = x, pi_input = append_msg m inp, pi_sent = i # sent, pi_pg = y\<rparr>"
  using assms session_msgs_append [of m pparts inp] by (simp add: handed_over_def)

lemma handed_over_other:
  assumes "handed_over pparts \<lparr>pi_szr = x, pi_input = inp, pi_sent = sent, pi_pg = y\<rparr>"
    and "m_topic m \<noteq> RIDES_SESSIONS"
  shows "handed_over pparts \<lparr>pi_szr = x, pi_input = append_msg m inp, pi_sent = sent, pi_pg = y\<rparr>"
  using assms session_msgs_append [of m pparts inp] by (simp add: handed_over_def)

lemma pipe_inv_step:
  assumes "pipe_step cd cfg input parts env grp pparts z z'"
    and "pipe_inv cd cfg input parts env grp pparts z"
  shows "pipe_inv cd cfg input parts env grp pparts z'"
  using assms
proof (induction rule: pipe_step.induct)
  case (pipe_sessionizer x x' inp sent y)
  obtain ops where "sz_log (sys_szr x') = sz_log (sys_szr x) @ ops"
    using sstep_log [OF pipe_sessionizer.hyps] ..
  moreover have h: "handed_over pparts \<lparr>pi_szr = x, pi_input = inp, pi_sent = sent, pi_pg = y\<rparr>"
    using pipe_sessionizer.prems by (simp add: pipe_inv_def)
  ultimately show ?case
    using handed_over_grow [OF h] reach_step [OF _ pipe_sessionizer.hyps] pipe_sessionizer.prems
    by (simp add: pipe_inv_def)
next
  case (pipe_broker i x sent m inp v y)
  from pipe_broker.prems have i: "reachable cd cfg input parts x" "partitions_ok inp pparts"
    "preachable env grp inp pparts y" "handed_over pparts \<lparr>pi_szr = x, pi_input = inp, pi_sent = sent, pi_pg = y\<rparr>"
    by (simp_all add: pipe_inv_def)
  from handed_over_one [OF i(4) pipe_broker.hyps(1,3,4,7,8)] i(1)
    partitions_ok_append [OF i(2) pipe_broker.hyps(5,6)] preachable_append [OF i(3), of m]
  show ?case by (simp add: pipe_inv_def)
next
  case (pipe_other m inp x sent y)
  from pipe_other.prems have i: "reachable cd cfg input parts x" "partitions_ok inp pparts"
    "preachable env grp inp pparts y" "handed_over pparts \<lparr>pi_szr = x, pi_input = inp, pi_sent = sent, pi_pg = y\<rparr>"
    by (simp_all add: pipe_inv_def)
  from handed_over_other [OF i(4) pipe_other.hyps(1)] i(1)
    partitions_ok_append [OF i(2) pipe_other.hyps(2,3)] preachable_append [OF i(3), of m]
  show ?case by (simp add: pipe_inv_def)
next
  case (pipe_sink inp y y' x sent)
  from pipe_sink.prems preach_step [OF _ pipe_sink.hyps]
  show ?case by (simp add: pipe_inv_def handed_over_def)
qed

lemma pipe_reachable_inv:
  assumes "pipe_reachable cd cfg input parts env grp pparts z" "distinct pparts"
  shows "pipe_inv cd cfg input parts env grp pparts z"
  using assms(1)
proof (induction rule: pipe_reachable.induct)
  case pipe_start
  have "set (session_msgs pparts (\<lambda>_. [])) = {}" by (auto simp: session_msgs_def)
  with assms(2) show ?case
    using reach_init preach_init
    by (auto simp: pipe_inv_def pipe_init_def handed_over_def partitions_ok_def list_all_iff)
next
  case (pipe_next z z')
  show ?case by (rule pipe_inv_step [OF pipe_next.hyps(2) pipe_next.IH])
qed

section \<open>The rows of the committed sessions\<close>

definition event_times_ok :: "codec \<Rightarrow> (int \<Rightarrow> msg list) \<Rightarrow> int list \<Rightarrow> bool" where
  "event_times_ok cd input parts \<longleftrightarrow> list_all (\<lambda>p. list_all (\<lambda>m. case clean_of cd m of None \<Rightarrow> True
     | Some (r, v) \<Rightarrow> (case d_get v ''event_ts'' of PInt ms \<Rightarrow> lossless_ms ms | _ \<Rightarrow> False)) (input p)) parts"

lemma events_before_times:
  assumes "event_times_ok cd input parts" "ride_part r \<in> set parts"
  shows "list_all (\<lambda>v. case d_get v ''event_ts'' of PInt ms \<Rightarrow> lossless_ms ms | _ \<Rightarrow> False)
    (events_before cd input ride_part r off)"
proof -
  have "\<exists>m \<in> set (input (ride_part r)). clean_of cd m = Some (r, v)"
    if "v \<in> set (events_before cd input ride_part r off)" for v
    using that by (force simp: events_before_def ride_events_def clean_events_def before_offset_def
        List.map_filter_def)
  with assms show ?thesis unfolding event_times_ok_def list_all_iff by fastforce
qed

lemma session_row_key:
  assumes "session_row s = Inr row" "d_get s ''ride_id'' = PStr r"
  shows "key_of ''raw.ride_sessions'' row = [PStr r]"
proof -
  obtain fs where "rmap (field_value s) (Item ''ride_id'' # fs) = Inr row"
    using assms(1) unfolding session_row_def by (rule that)
  then obtain row' v where "row = v # row'" "d_item s ''ride_id'' = Inr v"
    by (auto simp: rbind_eq_Inr)
  moreover from this(2) assms(2) have "v = PStr r" by (simp add: d_get_of_item)
  ultimately show ?thesis
    by (simp add: key_of_def PRIMARY_KEY_def column_def columns_def TABLE_COLUMNS_def d_get_def)
qed

text \<open>A session has a row: every column it must find is there.\<close>

lemma session_row_total:
  assumes "build_session a t = Inr s" "times_ok s"
  shows "\<exists>row. session_row s = Inr row"
proof -
  have closable: "\<not> (terminal a = None \<and> \<not> t)"
    using assms(1) not_closable [of a] by (cases t) auto
  note s = assms(1) [unfolded build_session_def Let_def if_not_P [OF closable] rbind_eq_Inr sum.inject]
  have item: "\<exists>v. field_value s (Item k) = Inr v \<and> d_item s k = Inr (d_get s k)"
    if "k \<in> set [''ride_id'', ''rider_id'', ''city_id'', ''terminal_state'', ''event_seq'', ''requested_ts'',
      ''is_late_arrival'', ''surge_multiplier'', ''pickup_lat'', ''pickup_lon'']" for k
    using that s by (elim exE conjE) (hypsubst, auto simp: d_item_def d_get_def)
  have dt: "\<exists>v. field_value s (DtGet k) = Inr v" if "k \<in> set SESSION_TIMES" for k
  proof -
    from bspec [OF assms(2) [unfolded times_ok_def list_all_iff] that] show ?thesis
      by (elim disjE exE conjE) simp_all
  qed
  have req: "\<exists>v. field_value s (DtItem ''requested_ts'') = Inr v"
    using dt [of "''requested_ts''"] item [of "''requested_ts''"] by (auto simp: SESSION_TIMES_def)
  have get: "\<exists>v. field_value s (Get k) = Inr v" for k by simp
  have "\<exists>v. field_value s f = Inr v" if "f \<in> set fs"
    and "list_all (\<lambda>f. (\<exists>k. f = Get k) \<or> (\<exists>k \<in> set SESSION_TIMES. f = DtGet k) \<or> f = DtItem ''requested_ts''
      \<or> (\<exists>k \<in> set [''ride_id'', ''rider_id'', ''city_id'', ''terminal_state'', ''event_seq'', ''requested_ts'',
          ''is_late_arrival'', ''surge_multiplier'', ''pickup_lat'', ''pickup_lon'']. f = Item k)) fs" for f fs
    using bspec [OF that(2) [unfolded list_all_iff] that(1)]
    by (elim disjE exE bexE) (use get dt req item in \<open>simp_all del: field_value.simps set_simps\<close>)
  then have all: "\<exists>row. rmap (field_value s) fs = Inr row"
    if "list_all (\<lambda>f. (\<exists>k. f = Get k) \<or> (\<exists>k \<in> set SESSION_TIMES. f = DtGet k) \<or> f = DtItem ''requested_ts''
      \<or> (\<exists>k \<in> set [''ride_id'', ''rider_id'', ''city_id'', ''terminal_state'', ''event_seq'', ''requested_ts'',
          ''is_late_arrival'', ''surge_multiplier'', ''pickup_lat'', ''pickup_lon'']. f = Item k)) fs" for fs
    using rmap_total [of fs "field_value s" "\<lambda>f. projr (field_value s f)"] that by fastforce
  show ?thesis unfolding session_row_def by (rule all) (simp add: SESSION_TIMES_def)
qed

section \<open>Messages and rows\<close>

lemma committed_session:
  assumes "input_ok cd input parts ride_part" "reachable cd cfg input parts x"
  shows "i < length (sessions_committed x) \<Longrightarrow> sessions_committed x ! i = (k, b) \<Longrightarrow>
      serialize_session cd RIDES_SESSIONS (snd (snd (committed_closes x ! i))) = Inr b"
    and "length (committed_closes x) = length (sessions_committed x)"
proof -
  note pub = reachable_closes(1) [OF assms]
  from arg_cong [OF pub, of length] show len: "length (committed_closes x) = length (sessions_committed x)"
    by (simp add: published_def)
  assume i: "i < length (sessions_committed x)" "sessions_committed x ! i = (k, b)"
  from arg_cong [OF pub, of "\<lambda>xs. xs ! i"] i len
  have "session_record_of cd (snd (snd (committed_closes x ! i))) = Inr (RIDES_SESSIONS, k, b)"
    by (simp add: published_def)
  then show "serialize_session cd RIDES_SESSIONS (snd (snd (committed_closes x ! i))) = Inr b"
    by (auto simp: session_record_of_def rbind_eq_Inr)
qed

definition row_true :: "codec \<Rightarrow> (int \<Rightarrow> msg list) \<Rightarrow> (string \<Rightarrow> int) \<Rightarrow> klog \<Rightarrow> string \<times> pg_row \<Rightarrow> bool" where
  "row_true cd input ride_part lg x \<longleftrightarrow> (\<exists>off a t session. off < position lg (ride_part (fst x))
     \<and> add_events (new_acc (fst x)) (events_before cd input ride_part (fst x) (off + 1)) = Inr a
     \<and> build_session a t = Inr session \<and> session_row session = Inr (snd x))"

lemma close_row:
  assumes "input_ok cd input parts ride_part" "reachable cd cfg input parts x"
    and "event_times_ok cd input parts" "c \<in> set (committed_closes x)"
  obtains row where "session_row (snd (snd c)) = Inr row" "times_ok (snd (snd c))"
    "key_of ''raw.ride_sessions'' row = [PStr (fst c)]"
    "row_true cd input ride_part (sz_log (sys_szr x)) (fst c, row)"
proof -
  obtain r p off session where c: "c = (r, (p, off), session)" by (metis surj_pair)
  note cl = reachable_closes(3,4) [OF assms(1,2), unfolded list_all_iff, THEN bspec, OF assms(4)]
  from cl(1) have ct: "off < position (sz_log (sys_szr x)) (ride_part r)" "d_get session ''ride_id'' = PStr r"
    by (auto simp: close_true_def c)
  from cl(1) obtain a t where b: "add_events (new_acc r) (events_before cd input ride_part r (off + 1)) = Inr a"
    "build_session a t = Inr session"
    by (auto simp: close_true_def c)
  have "ride_part r \<in> set parts" using cl(2) by (simp add: c)
  note times = events_before_times [where r = r and ride_part = ride_part, OF assms(3) this]
  have t: "times_ok session" by (rule session_times_ok [OF b times])
  from session_row_total [OF b(2) t] obtain row where row: "session_row session = Inr row" ..
  show thesis
    by (rule that [of row]) (use c row t session_row_key [OF row ct(2)] ct(1) b in \<open>auto simp: row_true_def\<close>)
qed

lemma record_row:
  assumes "input_ok cd input parts ride_part" "event_times_ok cd input parts" "session_wire cd env"
    and r: "reachable cd cfg input parts x" and il: "i < length (sessions_committed x)"
    and m: "(m_key m, m_value m) = apsnd Some (sessions_committed x ! i)" "m_topic m = RIDES_SESSIONS"
  obtains row where "row_of_msg env m = Inr row" "session_row (snd (snd (committed_closes x ! i))) = Inr row"
    "i < length (committed_closes x)"
proof -
  obtain k b where kb: "sessions_committed x ! i = (k, b)" by fastforce
  note cs = committed_session(2) [OF assms(1) r] committed_session(1) [OF assms(1) r il kb]
  have ci: "i < length (committed_closes x)" using il cs(1) by simp
  obtain row where row: "session_row (snd (snd (committed_closes x ! i))) = Inr row"
    "times_ok (snd (snd (committed_closes x ! i)))"
    by (rule close_row [OF assms(1) r assms(2) nth_mem [OF ci]])
  obtain f where "map_of (deserializers env) RIDES_SESSIONS = Some f"
    "f RIDES_SESSIONS (Some b) = Inr (logical_times (snd (snd (committed_closes x ! i))))"
    using assms(3) cs(2) unfolding session_wire_def by blast
  moreover have "m_value m = Some b" using m(1) kb by simp
  ultimately have "row_of_msg env m = Inr row"
    using row m(2) by (simp add: row_of_msg_def lookup_key_def pg_demo_builders session_row_wire)
  with ci row show thesis by (rule_tac that)
qed

lemma message_row:
  assumes "input_ok cd input parts ride_part" "event_times_ok cd input parts" "session_wire cd env"
    and inv: "pipe_inv cd cfg input parts env grp pparts z"
    and "m \<in> set (session_msgs pparts (pi_input z))"
  obtains i row where "i \<in> set (pi_sent z)" "i < length (committed_closes (pi_szr z))"
    "row_of_msg env m = Inr row" "session_row (snd (snd (committed_closes (pi_szr z) ! i))) = Inr row"
    "(m_key m, m_value m) = apsnd Some (sessions_committed (pi_szr z) ! i)"
proof -
  from inv have r: "reachable cd cfg input parts (pi_szr z)" and h: "handed_over pparts z"
    and ok: "partitions_ok (pi_input z) pparts" by (simp_all add: pipe_inv_def)
  have t: "m_topic m = RIDES_SESSIONS"
    using assms(5) ok by (auto simp: session_msgs_def partitions_ok_def list_all_iff)
  from h assms(5) have "(m_key m, m_value m) \<in> (\<lambda>i. apsnd Some (sessions_committed (pi_szr z) ! i)) ` set (pi_sent z)"
    unfolding handed_over_def by blast
  then obtain i where i: "i \<in> set (pi_sent z)" "(m_key m, m_value m) = apsnd Some (sessions_committed (pi_szr z) ! i)"
    by blast
  then have il: "i < length (sessions_committed (pi_szr z))" using h by (simp add: handed_over_def list_all_iff)
  from record_row [OF assms(1-3) r il i(2) t] i that show thesis by metis
qed

abbreviation session_table :: "pipe \<Rightarrow> pg_table" where
  "session_table z \<equiv> pg_rows (pg_db (ps_sink (pi_pg z))) ''raw.ride_sessions''"

lemma consumed_msg:
  assumes "pipe_inv cd cfg input parts env grp pparts z" "m \<in> set (ps_hist (pi_pg z))"
    and "m_topic m = RIDES_SESSIONS"
  shows "m \<in> set (session_msgs pparts (pi_input z))"
proof -
  from assms(1) have "pinv env grp (pi_input z) pparts (pi_pg z)"
    unfolding pipe_inv_def using preachable_pinv by blast
  then have o: "offsets_of grp (pi_input z) pparts (ps_hist (pi_pg z)) (pg_db (ps_sink (pi_pg z)))"
    by (simp add: pinv_def)
  then have tp: "is_record m" "(m_topic m, m_partition m) \<in> set pparts"
    using assms(2) by (auto simp: offsets_of_def list_all_iff)
  then have "m \<in> set (tp_records (m_topic m, m_partition m) (ps_hist (pi_pg z)))"
    using assms(2) by (simp add: tp_records_def)
  then have "m \<in> set (pi_input z (m_topic m, m_partition m))"
    using o tp(2) by (auto simp: offsets_of_def list_all_iff before_offset_def)
  with tp(2) assms(3) show ?thesis by (force simp: session_msgs_def)
qed

lemma consumed_row:
  assumes "input_ok cd input parts ride_part" "event_times_ok cd input parts" "session_wire cd env"
    and inv: "pipe_inv cd cfg input parts env grp pparts z"
    and "row \<in> set (good_rows env RIDES_SESSIONS (ps_hist (pi_pg z)))"
  shows "\<exists>c \<in> set (committed_closes (pi_szr z)). session_row (snd (snd c)) = Inr row"
proof -
  obtain m where m: "m \<in> set (ps_hist (pi_pg z))" "m_topic m = RIDES_SESSIONS" "row_of_msg env m = Inr row"
    using assms(5) unfolding in_good_rows by blast
  from consumed_msg [OF inv m(1,2)] have "m \<in> set (session_msgs pparts (pi_input z))" .
  from message_row [OF assms(1-4) this] obtain i where
    i: "i < length (committed_closes (pi_szr z))" "session_row (snd (snd (committed_closes (pi_szr z) ! i))) = Inr row"
    using m(3) by (metis sum.inject(2))
  from nth_mem [OF i(1)] i(2) show ?thesis by blast
qed

lemma same_ride_same_row:
  assumes "input_ok cd input parts ride_part" "reachable cd cfg input parts x" "event_times_ok cd input parts"
    and "c \<in> set (committed_closes x)" "d \<in> set (committed_closes x)"
    and "session_row (snd (snd c)) = Inr row" "session_row (snd (snd d)) = Inr row'"
    and "key_of ''raw.ride_sessions'' row = key_of ''raw.ride_sessions'' row'"
  shows "row = row'"
proof -
  have "key_of ''raw.ride_sessions'' row = [PStr (fst c)]" "key_of ''raw.ride_sessions'' row' = [PStr (fst d)]"
    using close_row [OF assms(1-3) assms(4)] close_row [OF assms(1-3) assms(5)] assms(6,7)
    by (metis sum.inject(2))+
  with assms(8) have "fst c = fst d" by simp
  with reachable_closes(2) [OF assms(1,2)] assms(4,5) have "c = d"
    by (metis prod.collapse eq_key_imp_eq_value)
  with assms(6,7) show ?thesis by simp
qed

lemma session_table_from:
  assumes "input_ok cd input parts ride_part" "event_times_ok cd input parts" "session_wire cd env"
    and inv: "pipe_inv cd cfg input parts env grp pparts z"
  shows "list_all (\<lambda>(k, row). (\<exists>c \<in> set (committed_closes (pi_szr z)). session_row (snd (snd c)) = Inr row)
      \<and> k = key_of ''raw.ride_sessions'' row) (session_table z)"
proof -
  let ?S = "{row. \<exists>c \<in> set (committed_closes (pi_szr z)). session_row (snd (snd c)) = Inr row}"
  from inv have r: "reachable cd cfg input parts (pi_szr z)" and ok: "partitions_ok (pi_input z) pparts"
    and pr: "preachable env grp (pi_input z) pparts (pi_pg z)" by (simp_all add: pipe_inv_def)
  obtain a where up: "map_of UPSERTS RIDES_SESSIONS = Some (''raw.ride_sessions'', a)"
    by (simp add: UPSERTS_def)
  have all: "upsert_rows env ''raw.ride_sessions'' a (good_rows env RIDES_SESSIONS (ps_hist (pi_pg z))) []
      = Inr (session_table z)"
    using preachable_pinv [OF pr ok] up unfolding pinv_def tables_of_def by blast
  have func: "\<forall>x \<in> ?S. \<forall>y \<in> ?S. key_of ''raw.ride_sessions'' x = key_of ''raw.ride_sessions'' y \<longrightarrow> x = y"
    using same_ride_same_row [OF assms(1) r assms(2)] by blast
  have sub: "set (good_rows env RIDES_SESSIONS (ps_hist (pi_pg z))) \<subseteq> ?S"
    using consumed_row [OF assms] by blast
  from upsert_rows_same [OF all func sub] show ?thesis by simp
qed

section \<open>When the sink has caught up\<close>

lemma caught_up_row:
  assumes "input_ok cd input parts ride_part" "event_times_ok cd input parts" "session_wire cd env"
    and inv: "pipe_inv cd cfg input parts env grp pparts z"
    and i: "i < length (sessions_committed (pi_szr z))" "i \<in> set (pi_sent z)"
    and up: "list_all (\<lambda>m. m_offset m \<le> stored (pi_pg z) (RIDES_SESSIONS, m_partition m))
      (session_msgs pparts (pi_input z))"
  shows "[PStr (fst (committed_closes (pi_szr z) ! i))] \<in> fst ` set (session_table z)"
proof -
  from inv have r: "reachable cd cfg input parts (pi_szr z)" and h: "handed_over pparts z"
    and ok: "partitions_ok (pi_input z) pparts"
    and pr: "preachable env grp (pi_input z) pparts (pi_pg z)" by (simp_all add: pipe_inv_def)
  from h i(2) have "apsnd Some (sessions_committed (pi_szr z) ! i)
      \<in> (\<lambda>m. (m_key m, m_value m)) ` set (session_msgs pparts (pi_input z))"
    unfolding handed_over_def by blast
  then obtain m where m: "m \<in> set (session_msgs pparts (pi_input z))"
    "(m_key m, m_value m) = apsnd Some (sessions_committed (pi_szr z) ! i)" by force
  then obtain tp where tp: "tp \<in> set pparts" "fst tp = RIDES_SESSIONS" "m \<in> set (pi_input z tp)"
    by (auto simp: session_msgs_def)
  note p = partitions_okD(2) [OF ok tp(1,3)]
  then have t: "m_topic m = RIDES_SESSIONS" and tpm: "tp = (RIDES_SESSIONS, m_partition m)"
    using tp(2) by auto
  obtain row where row: "row_of_msg env m = Inr row"
    "session_row (snd (snd (committed_closes (pi_szr z) ! i))) = Inr row"
    "i < length (committed_closes (pi_szr z))"
    by (rule record_row [OF assms(1-3) r i(1) m(2) t])
  obtain row' where "session_row (snd (snd (committed_closes (pi_szr z) ! i))) = Inr row'"
    "key_of ''raw.ride_sessions'' row' = [PStr (fst (committed_closes (pi_szr z) ! i))]"
    by (rule close_row [OF assms(1) r assms(2) nth_mem [OF row(3)]])
  with row(2) have key: "key_of ''raw.ride_sessions'' row = [PStr (fst (committed_closes (pi_szr z) ! i))]"
    by simp
  have pv: "pinv env grp (pi_input z) pparts (pi_pg z)" by (rule preachable_pinv [OF pr ok])
  have "m_offset m \<le> stored (pi_pg z) tp" using up m(1) by (simp add: list_all_iff tpm)
  then have "m \<in> set (before_offset (stored (pi_pg z) tp + 1) (pi_input z tp))"
    using tp(3) by (simp add: before_offset_def)
  also have "before_offset (stored (pi_pg z) tp + 1) (pi_input z tp) = tp_records tp (ps_hist (pi_pg z))"
    using pv tp(1) by (auto simp: pinv_def offsets_of_def list_all_iff)
  finally have "m \<in> set (ps_hist (pi_pg z))" by (simp add: tp_records_def)
  then have "row \<in> set (good_rows env RIDES_SESSIONS (ps_hist (pi_pg z)))"
    unfolding in_good_rows using p t row(1) by (auto simp: is_record_def)
  moreover obtain a where "map_of UPSERTS RIDES_SESSIONS = Some (''raw.ride_sessions'', a)"
    by (simp add: UPSERTS_def)
  ultimately show ?thesis
    using reachable_table(2) [OF ok pr] key by (metis imageI)
qed

end
