(* ===== verification/Pipeline_Properties.thy ===== *)
theory Pipeline_Properties
  imports Pipeline
begin

text \<open>
  The end-to-end properties of the sessionizer and the Postgres sink joined by rides.sessions, and
  a concrete run: the demo batch of the sessionizer, its session handed over by the broker, and the
  batch of the sink that lands it.
\<close>

section \<open>A concrete run\<close>

text \<open>Five milliseconds after the epoch survive the way through doubles.\<close>

lemma lossless_5: "lossless_ms 5"
proof -
  define s :: real where "s = of_int 5764607523034235 * (1 / 2 ^ 60)"
  have s: "fl (5 / 1000) = s"
  proof -
    have "ulp (5 / 1000) = 2 powi (-8 - 52)"
      by (rule ulp_binade) (simp_all add: power_int_def power_one_over)
    then show ?thesis
      unfolding s_def by (intro fl_nearest) (simp_all add: power_int_def power_one_over)
  qed
  have "ulp (s * 10 ^ 6) = 2 powi (12 - 52)"
    by (rule ulp_binade) (simp_all add: s_def)
  then have e: "fl (s * 10 ^ 6) = of_int (5000 * 2 ^ 40) * (1 / 2 ^ 40)"
    by (intro fl_nearest) (simp_all add: s_def power_int_def power_one_over)
  from e have "fl (s * 10 ^ 6) = of_int 5000" by simp
  then have "round_even (fl (s * 10 ^ 6)) = 5000" by (simp only: round_even_of_int)
  moreover have "trunc s = 0" by (simp add: s_def trunc_def floor_eq_iff)
  ultimately have "dt_from_timestamp s = 5000" by (simp add: dt_from_timestamp_def Let_def)
  with s have dt: "dt_of_ms 5 = 5000" by (simp add: dt_of_ms_def)
  have "ulp (s * 1000) = 2 powi (2 - 52)"
    by (rule ulp_binade) (simp_all add: s_def)
  then have "fl (s * 1000) = of_int (5 * 2 ^ 50) * (1 / 2 ^ 50)"
    by (intro fl_nearest) (simp_all add: s_def power_int_def power_one_over)
  then have "fl (s * 1000) = 5" by simp
  moreover have "dt_timestamp 5000 = s"
    using s by (simp add: dt_timestamp_def)
  ultimately show ?thesis by (simp add: lossless_ms_def dt trunc_def)
qed

definition pipe_env :: pg_env where
  "pipe_env =
     \<lparr>deserializers = [(RIDES_SESSIONS, \<lambda>_ v. if v = Some ''S'' then Inr (logical_times demo_session)
         else Inl (ValueError ''unparseable payload''))],
      accepts = (\<lambda>_ _. None), pg_clock = (\<lambda>_. ''now'')\<rparr>"

definition pipe_msg :: msg where
  "pipe_msg = \<lparr>m_topic = RIDES_SESSIONS, m_partition = 0, m_offset = 0, m_key = Some ''r'',
     m_value = Some ''S'', m_error = None\<rparr>"

definition pipe_input :: "string \<times> int \<Rightarrow> msg list" where
  "pipe_input = append_msg pipe_msg (\<lambda>_. [])"

definition pipe_row :: pg_row where
  "pipe_row =
     [PStr ''r'', PStr ''u-1'', PNone, PInt 1, PStr ''cancelled'', PInt 2, PDatetime (dt_of_ms 5), PNone, PNone,
      PNone, PDatetime (dt_of_ms 5), PNone, PNone, PNone, PNone, PNone, PBool False, PNone, PFloat 1, PNone,
      PFloat 12, PFloat 77, PNone, PNone]"

lemma pipe_wire: "session_wire demo_codec pipe_env"
  by (simp add: session_wire_def pipe_env_def demo_codec_def)

lemma demo_times: "event_times_ok demo_codec demo_input [0]"
proof -
  have "d_get (sample_event ''r'' e 5) ''event_ts'' = PInt 5" for e
    by (simp add: sample_event_def ride_event_def Let_def d_get_def)
  then show ?thesis
    using lossless_5 by (simp add: event_times_ok_def demo_input_def demo_batch_def clean_of_def demo_msg_def
        demo_codec_def normalise_def)
qed

lemma demo_session_times: "times_ok demo_session"
  using lossless_5 by (simp add: times_ok_def SESSION_TIMES_def demo_session_def d_get_def)

lemma pipe_msg_row: "row_of_msg pipe_env pipe_msg = Inr pipe_row"
proof -
  have "session_row demo_session = Inr pipe_row"
    by (simp add: session_row_def demo_session_def pipe_row_def d_item_def d_get_def)
  with session_row_wire [OF demo_session_times] show ?thesis
    by (simp add: row_of_msg_def lookup_key_def pipe_env_def pipe_msg_def pg_demo_builders)
qed

lemma pipe_of_sessionizer:
  "reachable cd cfg input parts x \<Longrightarrow> pipe_reachable cd cfg input parts env grp pparts
     \<lparr>pi_szr = x, pi_input = (\<lambda>_. []), pi_sent = [], pi_pg = psys_init grp\<rparr>"
proof (induction rule: reachable.induct)
  case reach_init
  show ?case using pipe_start [of cd cfg input parts env grp pparts] by (simp add: pipe_init_def)
next
  case (reach_step x y)
  show ?case by (rule pipe_next [OF reach_step.IH pipe_sessionizer [OF reach_step.hyps(2)]])
qed

lemma pipe_of_sink:
  assumes "preachable env grp inp pparts y"
    and "pipe_reachable cd cfg input parts env grp pparts
      \<lparr>pi_szr = x, pi_input = inp, pi_sent = sent, pi_pg = psys_init grp\<rparr>"
  shows "pipe_reachable cd cfg input parts env grp pparts
      \<lparr>pi_szr = x, pi_input = inp, pi_sent = sent, pi_pg = y\<rparr>"
  using assms(1)
proof (induction rule: preachable.induct)
  case preach_init
  show ?case by (rule assms(2))
next
  case (preach_step y y')
  show ?case by (rule pipe_next [OF preach_step.IH pipe_sink [OF preach_step.hyps(2)]])
qed

text \<open>The sink after its start, and its batch.\<close>

definition pipe_parts :: "(string \<times> int) list" where
  "pipe_parts = [(RIDES_SESSIONS, 0)]"

definition pipe_start_sink :: pg_sink where
  "pipe_start_sink = (new_pg_sink ''pg-sink'' empty_db)\<lparr>pg_positions := [((RIDES_SESSIONS, 0), -2)]\<rparr>"

definition pipe_db :: pgdb where
  "pipe_db = \<lparr>pg_rows = (\<lambda>_. [])(''raw.ride_sessions'' := [([PStr ''r''], pipe_row)]),
     pg_offsets = [((''pg-sink'', RIDES_SESSIONS, 0), 0)]\<rparr>"

lemma pipe_started: "preachable env ''pg-sink'' inp pipe_parts
    \<lparr>ps_sink = pipe_start_sink, ps_pos = assigned_pos pipe_start_sink, ps_up = True, ps_hist = []\<rparr>"
proof (rule preach_step [OF preach_init])
  have "pipe_start_sink = pg_on_assign pipe_parts (new_pg_sink ''pg-sink'' (pg_db (new_pg_sink ''pg-sink'' empty_db)))"
    by (simp add: pipe_start_sink_def pg_on_assign_def pipe_parts_def stored_offsets_def new_pg_sink_def
        empty_db_def stored_offset_def OFFSET_BEGINNING_def)
  from p_restart [OF this] show "pstep env ''pg-sink'' inp pipe_parts (psys_init ''pg-sink'')
      \<lparr>ps_sink = pipe_start_sink, ps_pos = assigned_pos pipe_start_sink, ps_up = True, ps_hist = []\<rparr>"
    unfolding psys_init_def .
qed

lemma pipe_deliverable: "deliverable pipe_input pipe_parts (assigned_pos pipe_start_sink) [pipe_msg]"
  by (simp add: deliverable_def pipe_parts_def pipe_input_def pipe_msg_def from_offset_def append_msg_def
      assigned_pos_def pipe_start_sink_def is_record_def)

lemma pipe_row_facts:
  "key_of ''raw.ride_sessions'' pipe_row = [PStr ''r'']" "not_null_ok ''raw.ride_sessions'' pipe_row"
  by (simp_all add: key_of_def not_null_ok_def column_def pg_demo_cols PRIMARY_KEY_def pipe_row_def d_get_def)
    (simp add: columns_def TABLE_COLUMNS_def)

lemma pipe_batch: "\<exists>s'. pg_process_batch pipe_env pg_no_faults [pipe_msg] pipe_start_sink
    = (Ret [(RIDES_SESSIONS, 1)], s') \<and> pg_db s' = pipe_db \<and> pg_group s' = ''pg-sink''"
proof -
  let ?b = "\<lparr>pb_consumed = [(RIDES_SESSIONS, 1)],
      pb_rows = [(RIDES_EVENTS, []), (RIDES_SESSIONS, [pipe_row]), (PAYMENTS_TRANSACTIONS, []),
        (DRIVERS_LOCATIONS, [])],
      pb_max_offsets = [((RIDES_SESSIONS, 0), 0)]\<rparr>"
  have m: "m_error pipe_msg = None" "m_topic pipe_msg = RIDES_SESSIONS" "m_partition pipe_msg = 0"
    "m_offset pipe_msg = 0" by (simp_all add: pipe_msg_def)
  have loop: "sink_msgs pipe_env [pipe_msg] (new_pg_batch, pipe_start_sink) = (Ret (), ?b, pipe_start_sink)"
    by (simp add: sink_msg_def pipe_msg_row m count_msg_def add_row_def new_pg_batch_def SINK_TOPICS_def Let_def)
  obtain a where a: "map_of UPSERTS RIDES_SESSIONS = Some (''raw.ride_sessions'', a)"
    by (simp add: UPSERTS_def)
  have acc: "accepts pipe_env t r = None" for t r by (simp add: pipe_env_def)
  have "upsert_rows pipe_env ''raw.ride_sessions'' a [pipe_row] [] = Inr [([PStr ''r''], pipe_row)]"
    by (simp add: upsert_rows_def upsert_row_def acc pipe_row_facts unique_ok_def UNIQUE_INDEX_def)
  then have "exec_rows pipe_env (pf_exec pg_no_faults) (pb_rows ?b) empty_db
      = Ret \<lparr>pg_rows = pg_rows pipe_db, pg_offsets = []\<rparr>"
    by (simp add: pg_no_faults_def a empty_db_def pipe_db_def)
  then have "pg_transact pipe_env pg_no_faults ''pg-sink'' ?b empty_db = (Ret (), pipe_db)"
    by (simp add: pg_transact_def exec_offsets_def pg_no_faults_def upsert_offset_def pipe_db_def)
  moreover have "pg_group pipe_start_sink = ''pg-sink''" "pg_db pipe_start_sink = empty_db"
    by (simp_all add: pipe_start_sink_def new_pg_sink_def)
  ultimately show ?thesis
    unfolding pg_process_batch_def loop by (simp add: written_def)
qed

definition pipe_end :: "pg_sink \<Rightarrow> pipe" where
  "pipe_end s = \<lparr>pi_szr = \<lparr>sys_szr = demo_end, sys_up = True, sys_hist = demo_batch\<rparr>, pi_input = pipe_input,
     pi_sent = [0], pi_pg = \<lparr>ps_sink = s, ps_pos = advance_pos (assigned_pos pipe_start_sink) [pipe_msg],
       ps_up = True, ps_hist = [pipe_msg]\<rparr>\<rparr>"

abbreviation pipe_demo_reaches :: "pipe \<Rightarrow> bool" where
  "pipe_demo_reaches \<equiv> pipe_reachable demo_codec demo_cfg demo_input [0] pipe_env ''pg-sink'' pipe_parts"

lemma demo_sessions_committed: "committed_records (sz_log demo_end) RIDES_SESSIONS = [(Some ''r'', ''S'')]"
  by (simp add: demo_end_def demo_ops_def committed_records_def)

lemma pipe_demo_reachable:
  obtains s where "pipe_demo_reaches (pipe_end s)" "pg_db s = pipe_db" "pg_group s = ''pg-sink''"
proof -
  let ?x = "\<lparr>sys_szr = demo_end, sys_up = True, sys_hist = demo_batch\<rparr>"
  from pipe_batch obtain s where s: "pg_process_batch pipe_env pg_no_faults [pipe_msg] pipe_start_sink
      = (Ret [(RIDES_SESSIONS, 1)], s)" "pg_db s = pipe_db" "pg_group s = ''pg-sink''" by blast
  have "pipe_step demo_codec demo_cfg demo_input [0] pipe_env ''pg-sink'' pipe_parts
      \<lparr>pi_szr = ?x, pi_input = (\<lambda>_. []), pi_sent = [], pi_pg = psys_init ''pg-sink''\<rparr>
      \<lparr>pi_szr = ?x, pi_input = append_msg pipe_msg (\<lambda>_. []), pi_sent = [0], pi_pg = psys_init ''pg-sink''\<rparr>"
    by (rule pipe_broker [where v = "''S''"])
      (simp_all add: demo_sessions_committed pipe_msg_def pipe_parts_def is_record_def next_offset_def)
  from pipe_next [OF pipe_of_sessionizer [OF demo_reachable] this]
  have "pipe_demo_reaches
      \<lparr>pi_szr = ?x, pi_input = pipe_input, pi_sent = [0], pi_pg = psys_init ''pg-sink''\<rparr>"
    by (simp add: pipe_input_def)
  from pipe_of_sink [OF preach_step [OF pipe_started p_batch [OF pipe_deliverable s(1)]] this]
  have "pipe_demo_reaches (pipe_end s)" by (simp add: pipe_end_def)
  with s(2,3) that show thesis by blast
qed

section \<open>The table\<close>

text \<open>The columns of the row of a session that later models read.\<close>

lemma session_columns:
  assumes "session_row s = Inr row"
  shows "column ''raw.ride_sessions'' row ''ride_id'' = d_get s ''ride_id''"
    and "column ''raw.ride_sessions'' row ''terminal_state'' = d_get s ''terminal_state''"
    and "column ''raw.ride_sessions'' row ''ride_duration_sec'' = d_get s ''ride_duration_sec''"
    and "dt_param (d_get s ''requested_ts'') = Inr (column ''raw.ride_sessions'' row ''requested_ts'')"
    and "dt_param (d_get s ''started_ts'') = Inr (column ''raw.ride_sessions'' row ''started_ts'')"
proof -
  obtain fs where fs: "rmap (field_value s) fs = Inr row" "fs = [Item ''ride_id'', Item ''rider_id'', Get ''driver_id'',
      Item ''city_id'', Item ''terminal_state'', Item ''event_seq'', DtItem ''requested_ts'', DtGet ''matched_ts'',
      DtGet ''driver_arrived_ts'', DtGet ''started_ts'', DtGet ''ended_ts'', Get ''time_to_match_sec'',
      Get ''time_to_pickup_sec'', Get ''ride_duration_sec'', Get ''haversine_distance_km'', Get ''avg_speed_kmh'',
      Item ''is_late_arrival'', Get ''fare_cents'', Item ''surge_multiplier'', Get ''promo_code'',
      Item ''pickup_lat'', Item ''pickup_lon'', Get ''dropoff_lat'', Get ''dropoff_lon'']"
    using assms unfolding session_row_def by (rule that) simp
  let ?cs = "map fst (columns ''raw.ride_sessions'')"
  have len: "length fs = 24" "length ?cs = 24" "length row = 24"
    using rmap_length [OF fs(1)] by (simp_all add: fs(2) pg_demo_cols)
  have d: "distinct ?cs" by (simp add: pg_demo_cols)
  have col: "column ''raw.ride_sessions'' row (?cs ! i) = row ! i \<and> field_value s (fs ! i) = Inr (row ! i)"
    if "i < 24" for i
  proof
    have "map_of (zip ?cs row) (?cs ! i) = Some (row ! i)"
      by (rule map_of_zip_nth) (use len that d in simp_all)
    then show "column ''raw.ride_sessions'' row (?cs ! i) = row ! i"
      by (simp only: column_def d_get_def option.case)
    show "field_value s (fs ! i) = Inr (row ! i)"
      by (rule list_all2_nthD [OF fs(1) [unfolded rmap_eq_Inr]]) (use len that in simp)
  qed
  have item: "d_get s k = v" if "field_value s (Item k) = Inr v" for k v
    using that by (simp add: d_get_of_item)
  show "column ''raw.ride_sessions'' row ''ride_id'' = d_get s ''ride_id''"
    using col [of 0] item by (simp add: fs(2) pg_demo_cols)
  show "column ''raw.ride_sessions'' row ''terminal_state'' = d_get s ''terminal_state''"
    using col [of 4] item by (simp add: fs(2) pg_demo_cols)
  show "column ''raw.ride_sessions'' row ''ride_duration_sec'' = d_get s ''ride_duration_sec''"
    using col [of 13] by (simp add: fs(2) pg_demo_cols)
  show "dt_param (d_get s ''requested_ts'') = Inr (column ''raw.ride_sessions'' row ''requested_ts'')"
    using col [of 6] by (simp add: fs(2) pg_demo_cols rbind_eq_Inr) (auto simp: d_get_of_item)
  show "dt_param (d_get s ''started_ts'') = Inr (column ''raw.ride_sessions'' row ''started_ts'')"
    using col [of 9] by (simp add: fs(2) pg_demo_cols)
qed

lemma table_row_true:
  assumes "input_ok cd input parts ride_part" "event_times_ok cd input parts" "session_wire cd env"
    and "pipe_inv cd cfg input parts env grp pparts z" "(key, row) \<in> set (session_table z)"
  obtains r off a t session where "key = [PStr r]" "off < position (sz_log (sys_szr (pi_szr z))) (ride_part r)"
    "add_events (new_acc r) (events_before cd input ride_part r (off + 1)) = Inr a"
    "build_session a t = Inr session" "session_row session = Inr row" "r \<in> fst ` set (committed_closes (pi_szr z))"
proof -
  from assms(4) have rch: "reachable cd cfg input parts (pi_szr z)" by (simp add: pipe_inv_def)
  obtain c where c: "c \<in> set (committed_closes (pi_szr z))" "session_row (snd (snd c)) = Inr row"
    and k: "key = key_of ''raw.ride_sessions'' row"
    using session_table_from [OF assms(1-4)] assms(5) unfolding list_all_iff by blast
  obtain row' where row': "session_row (snd (snd c)) = Inr row'"
    "key_of ''raw.ride_sessions'' row' = [PStr (fst c)]"
    "row_true cd input ride_part (sz_log (sys_szr (pi_szr z))) (fst c, row')"
    by (rule close_row [OF assms(1) rch assms(2) c(1)])
  then have "row' = row" using c(2) by simp
  with row' k c(1) that show thesis unfolding row_true_def by auto
qed

lemma session_keys_distinct:
  assumes "pipe_inv cd cfg input parts env grp pparts z"
  shows "distinct (map fst (session_table z))"
proof -
  from assms have ok: "partitions_ok (pi_input z) pparts" and pr: "preachable env grp (pi_input z) pparts (pi_pg z)"
    by (simp_all add: pipe_inv_def)
  obtain a where up: "map_of UPSERTS RIDES_SESSIONS = Some (''raw.ride_sessions'', a)"
    by (simp add: UPSERTS_def)
  from reachable_table(1) [OF ok pr this] show ?thesis by (simp add: table_ok_def)
qed

lemma caught_up_keys:
  assumes "input_ok cd input parts ride_part" "event_times_ok cd input parts" "session_wire cd env"
    and inv: "pipe_inv cd cfg input parts env grp pparts z"
    and sent: "list_all (\<lambda>i. i \<in> set (pi_sent z)) [0..<length (sessions_committed (pi_szr z))]"
    and up: "list_all (\<lambda>m. m_offset m \<le> stored (pi_pg z) (RIDES_SESSIONS, m_partition m))
      (session_msgs pparts (pi_input z))"
  shows "fst ` set (session_table z) = (\<lambda>r. [PStr r]) ` fst ` set (committed_closes (pi_szr z))"
proof -
  let ?cl = "committed_closes (pi_szr z)"
  from inv have rch: "reachable cd cfg input parts (pi_szr z)" by (simp add: pipe_inv_def)
  note len = committed_session(2) [OF assms(1) rch]
  have "[PStr (fst (?cl ! i))] \<in> fst ` set (session_table z)" if "i < length ?cl" for i
    using caught_up_row [OF assms(1-3) inv _ _ up, of i] sent that len by (simp add: list_all_iff)
  then have "[PStr (fst c)] \<in> fst ` set (session_table z)" if "c \<in> set ?cl" for c
    using that by (metis in_set_conv_nth)
  moreover have "k \<in> (\<lambda>r. [PStr r]) ` fst ` set ?cl" if k: "(k, row) \<in> set (session_table z)" for k row
    by (rule table_row_true [OF assms(1-3) inv k]) blast
  ultimately show ?thesis by force
qed

section \<open>Properties\<close>

text \<open>C11: the table of sessions tells the truth. Whatever crashes, restarts and redeliveries either
  service goes through, every row of raw.ride_sessions in a reachable state of the pipeline is keyed
  by its ride and is the row of the session that \<open>build_session\<close> derives from the fold of the ride's
  input events up to a committed offset; no ride has two rows.\<close>

theorem pipeline_sessions_true:
  assumes "input_ok cd input parts ride_part" "event_times_ok cd input parts" "session_wire cd env"
    and "distinct pparts" "pipe_reachable cd cfg input parts env grp pparts z"
  shows "distinct (map fst (session_table z))
    \<and> list_all (\<lambda>(key, row). \<exists>r off a t session. key = [PStr r]
        \<and> off < position (sz_log (sys_szr (pi_szr z))) (ride_part r)
        \<and> add_events (new_acc r) (events_before cd input ride_part r (off + 1)) = Inr a
        \<and> build_session a t = Inr session \<and> session_row session = Inr row) (session_table z)"
proof -
  note inv = pipe_reachable_inv [OF assms(5,4)]
  have "\<exists>r off a t session. key = [PStr r]
        \<and> off < position (sz_log (sys_szr (pi_szr z))) (ride_part r)
        \<and> add_events (new_acc r) (events_before cd input ride_part r (off + 1)) = Inr a
        \<and> build_session a t = Inr session \<and> session_row session = Inr row"
    if "(key, row) \<in> set (session_table z)" for key row
    by (rule table_row_true [OF assms(1-3) inv that]) blast
  then show ?thesis using session_keys_distinct [OF inv] by (auto simp: list_all_iff)
qed

theorem pipeline_sessions_true_witness:
  "\<exists>s off a t session. pipe_demo_reaches (pipe_end s)
    \<and> session_table (pipe_end s) = [([PStr ''r''], pipe_row)]
    \<and> off < position (sz_log demo_end) 0
    \<and> add_events (new_acc ''r'') (events_before demo_codec demo_input (\<lambda>_. 0) ''r'' (off + 1)) = Inr a
    \<and> build_session a t = Inr session \<and> session_row session = Inr pipe_row"
proof -
  obtain s where s: "pipe_demo_reaches (pipe_end s)" "pg_db s = pipe_db" by (rule pipe_demo_reachable)
  have t: "session_table (pipe_end s) = [([PStr ''r''], pipe_row)]"
    using s(2) by (simp add: pipe_end_def pipe_db_def)
  have "distinct pipe_parts" by (simp add: pipe_parts_def)
  from pipeline_sessions_true [OF demo_input_ok demo_times pipe_wire this s(1)]
  obtain off a u session where "off < position (sz_log demo_end) 0"
    "add_events (new_acc ''r'') (events_before demo_codec demo_input (\<lambda>_. 0) ''r'' (off + 1)) = Inr a"
    "build_session a u = Inr session" "session_row session = Inr pipe_row"
    unfolding t by (auto simp: pipe_end_def)
  with s(1) t show ?thesis by blast
qed

text \<open>C12: nothing is lost on the way. Once the broker has made every committed session readable and
  the sink's stored offsets have reached the end of the topic, raw.ride_sessions has exactly as many
  rows as sessions were committed, and every ride whose committed input folds to a finished
  accumulator has its row.\<close>

theorem pipeline_delivers_sessions:
  assumes "input_ok cd input parts ride_part" "event_times_ok cd input parts" "session_wire cd env"
    and "distinct pparts" "pipe_reachable cd cfg input parts env grp pparts z"
    and "list_all (\<lambda>i. i \<in> set (pi_sent z)) [0..<length (sessions_committed (pi_szr z))]"
    and "list_all (\<lambda>m. m_offset m \<le> stored (pi_pg z) (RIDES_SESSIONS, m_partition m))
      (session_msgs pparts (pi_input z))"
    and "ride_part r \<in> set parts" "terminal a \<noteq> None"
    and "add_events (new_acc r)
      (events_before cd input ride_part r (position (sz_log (sys_szr (pi_szr z))) (ride_part r))) = Inr a"
  shows "length (session_table z) = length (sessions_committed (pi_szr z))
    \<and> (\<exists>row. map_of (session_table z) [PStr r] = Some row)"
proof -
  let ?cl = "committed_closes (pi_szr z)"
  note inv = pipe_reachable_inv [OF assms(5,4)]
  then have rch: "reachable cd cfg input parts (pi_szr z)" by (simp add: pipe_inv_def)
  note keys = caught_up_keys [OF assms(1-3) inv assms(6,7)] and d = session_keys_distinct [OF inv]
  have "length (session_table z) = card (fst ` set (session_table z))"
    using distinct_card [OF d] by simp
  also have "\<dots> = card (fst ` set ?cl)" unfolding keys by (rule card_image) (simp add: inj_on_def)
  also have "\<dots> = length ?cl" using distinct_card [OF reachable_closes(2) [OF assms(1) rch]] by simp
  finally have "length (session_table z) = length (sessions_committed (pi_szr z))"
    using committed_session(2) [OF assms(1) rch] by simp
  moreover have "[PStr r] \<in> fst ` set (session_table z)"
    unfolding keys using terminal_closed [OF assms(1) rch assms(8,10,9)] by blast
  then obtain row where "(([PStr r]), row) \<in> set (session_table z)" by force
  then have "map_of (session_table z) [PStr r] = Some row" using d by simp
  ultimately show ?thesis by blast
qed

theorem pipeline_delivers_sessions_witness:
  "\<exists>s. pipe_demo_reaches (pipe_end s) \<and> length (session_table (pipe_end s)) = 1
    \<and> (\<exists>row. map_of (session_table (pipe_end s)) [PStr ''r''] = Some row)"
proof -
  obtain s where s: "pipe_demo_reaches (pipe_end s)" "pg_db s = pipe_db" "pg_group s = ''pg-sink''"
    by (rule pipe_demo_reachable)
  have up: "list_all (\<lambda>m. m_offset m \<le> stored (pi_pg (pipe_end s)) (RIDES_SESSIONS, m_partition m))
      (session_msgs pipe_parts (pi_input (pipe_end s)))"
    using s by (simp add: session_msgs_def pipe_parts_def pipe_end_def pipe_input_def append_msg_def pipe_msg_def
        stored_offset_def pipe_db_def)
  have pos: "position (sz_log demo_end) 0 = 3"
    by (simp add: resume_offset_def committed_offset_def demo_end_def demo_ops_def)
  have ev: "events_before demo_codec demo_input (\<lambda>_. 0) ''r'' 3 = [sample_event ''r'' REQUESTED 5, sample_event ''r'' CANCELLED 5]"
    by (simp add: events_before_def before_offset_def demo_input_def demo_batch_def demo_msg_def
        ride_events_def clean_events_def List.map_filter_def clean_of_def demo_codec_def normalise_def)
  have acc: "add_events (new_acc ''r'') [sample_event ''r'' REQUESTED 5, sample_event ''r'' CANCELLED 5] = Inr demo_acc"
    by (simp add: new_acc_def demo_acc_def)
  have trm: "terminal demo_acc \<noteq> None"
    by (simp add: terminal_def demo_acc_def TERMINAL_STATES_def)
  have d: "distinct pipe_parts" and sent: "list_all (\<lambda>i. i \<in> set (pi_sent (pipe_end s)))
      [0..<length (sessions_committed (pi_szr (pipe_end s)))]"
    by (simp_all add: pipe_parts_def pipe_end_def demo_sessions_committed)
  from pipeline_delivers_sessions [where r = "''r''" and a = demo_acc,
      OF demo_input_ok demo_times pipe_wire d s(1) sent up]
  show ?thesis using s(1) trm acc pos ev by (auto simp: pipe_end_def demo_sessions_committed)
qed

end
