(* ===== verification/Dbt_Properties.thy ===== *)
theory Dbt_Properties
  imports Dbt_Rides Pipeline_Properties
begin

text \<open>
  The properties of the ride models, over the tables the Postgres sink fills.
\<close>

section \<open>A merge\<close>

text \<open>The rows by ride, each new one in the place of the old one.\<close>

definition merge_rows :: "frame \<Rightarrow> frame \<Rightarrow> exn + frame" where
  "merge_rows t new = Inr (map snd (fold (\<lambda>(k, r). AList.update k r) (by_ride new) (by_ride t)))"

lemma keyed_fold:
  assumes "list_all (\<lambda>(k, r). k = d_get r ''ride_id'') d"
  shows "list_all (\<lambda>(k, r). k = d_get r ''ride_id'') (fold (\<lambda>(k, r). AList.update k r) (by_ride new) d)"
  using assms by (induction new arbitrary: d) (auto simp: by_ride_def intro!: dict_update_list_all)

lemma by_ride_snd: "list_all (\<lambda>(k, r). k = d_get r ''ride_id'') d \<Longrightarrow> by_ride (map snd d) = d"
  by (induction d) (auto simp: by_ride_def)

lemma merge_rows_law: "merge_law merge_rows"
proof -
  have "\<exists>t'. merge_rows t new = Inr t' \<and> dict_ok (by_ride t')
      \<and> map_of (by_ride t') = map_of (by_ride t) ++ map_of (by_ride new)"
    if "dict_ok (by_ride t)" "dict_ok (by_ride new)" for t new
  proof -
    let ?d = "fold (\<lambda>(k, r). AList.update k r) (by_ride new) (by_ride t)"
    have "list_all (\<lambda>(k, r). k = d_get r ''ride_id'') (by_ride t)" by (simp add: by_ride_def list_all_iff)
    then have d: "by_ride (map snd ?d) = ?d" by (rule by_ride_snd [OF keyed_fold])
    have "dict_ok (fold (\<lambda>(k, r). AList.update k r) kvs e)" if "dict_ok e" for kvs :: "(pyval \<times> payload) list" and e
      using that by (induction kvs arbitrary: e) (auto simp: dict_update_ok)
    then have "dict_ok ?d" using that(1) by blast
    moreover have "map_of ?d = map_of (by_ride t) ++ map_of (by_ride new)"
      by (simp add: map_of_fold_update dict_rev [OF that(2)])
    ultimately show ?thesis by (simp add: merge_rows_def d)
  qed
  then show ?thesis by (simp add: merge_law_def)
qed

section \<open>The incremental fact\<close>


text \<open>A ride closes; a payment for it and a second ride arrive before the next run.\<close>

definition dbt_session :: "string \<Rightarrow> int \<Rightarrow> payload" where
  "dbt_session r us = [(''ride_id'', PStr r), (''requested_ts'', PDatetime us)]"

definition dbt_first :: ride_source where
  "dbt_first = \<lparr>src_sessions = [dbt_session ''r'' 0], src_payments = [], src_cities = []\<rparr>"

definition dbt_second :: ride_source where
  "dbt_second = \<lparr>src_sessions = [dbt_session ''r'' 0, dbt_session ''q'' 60000000],
     src_payments = [[(''txn_id'', PStr ''t''), (''ride_id'', PStr ''r''), (''amount_cents'', PInt 500)]],
     src_cities = []\<rparr>"

lemma dbt_sources_ok: "source_ok dbt_first" "source_ok dbt_second"
  by (simp_all add: source_ok_def dbt_first_def dbt_second_def keys_of_def dbt_session_def d_get_def)

lemma fct_requested: "Dashboard_Queries.ts_of ''requested_at'' (fct_row src s) = Dashboard_Queries.ts_of ''requested_at'' s"
  by (simp add: Dashboard_Queries.ts_of_def fct_row_get)

lemma staged_get:
  "d_get (renamed SESSION_NAMES x) ''ride_id'' = d_get x ''ride_id''"
  "d_get (renamed SESSION_NAMES x) ''requested_at'' = d_get x ''requested_ts''"
  "d_get (renamed SESSION_NAMES x) ''terminal_state'' = d_get x ''terminal_state''"
  "d_get (renamed SESSION_NAMES x) ''started_at'' = d_get x ''started_ts''"
  "d_get (renamed SESSION_NAMES x) ''ride_duration_sec'' = d_get x ''ride_duration_sec''"
  by (simp_all add: renamed_get SESSION_NAMES_def same_names_def)

lemma staged_ts: "Dashboard_Queries.ts_of ''requested_at'' (renamed SESSION_NAMES x)
    = Dashboard_Queries.ts_of ''requested_ts'' x"
  by (simp add: Dashboard_Queries.ts_of_def staged_get)

lemma max_requested:
  assumes "source_ok src"
  shows "max_ts ''requested_at'' (full_refresh src) = max_ts ''requested_ts'' (src_sessions src)"
proof -
  have "List.map_filter (Dashboard_Queries.ts_of ''requested_at'') (map (\<lambda>x. fct_row src (renamed SESSION_NAMES x)) xs)
      = List.map_filter (Dashboard_Queries.ts_of ''requested_ts'') xs" for xs
    by (induction xs) (simp_all add: List.map_filter_simps fct_requested staged_ts split: option.split)
  then show ?thesis
    by (simp add: max_ts_def full_refresh_rows [OF assms] stg_rides__sessions_def o_def)
qed


section \<open>Abandoned rides\<close>

lemma build_session_slots:
  assumes "build_session a t = Inr s"
  shows "d_get s ''requested_ts'' = (if slot_get (acc_slots a) REQUESTED ''event_ts'' \<noteq> PNone
      then slot_get (acc_slots a) REQUESTED ''event_ts'' else PInt (last_event_ts a))"
    and "d_get s ''started_ts'' = slot_get (acc_slots a) STARTED ''event_ts''"
proof -
  have closable: "\<not> (terminal a = None \<and> \<not> t)"
    using assms not_closable [of a] by (cases t) auto
  note s = assms [unfolded build_session_def Let_def if_not_P [OF closable] rbind_eq_Inr sum.inject]
  from s show "d_get s ''requested_ts'' = (if slot_get (acc_slots a) REQUESTED ''event_ts'' \<noteq> PNone
      then slot_get (acc_slots a) REQUESTED ''event_ts'' else PInt (last_event_ts a))"
    by (elim exE conjE) (hypsubst, simp add: d_get_def)
  from s show "d_get s ''started_ts'' = slot_get (acc_slots a) STARTED ''event_ts''"
    by (elim exE conjE) (hypsubst, simp add: d_get_def)
qed

lemma requested_by_last:
  assumes "build_session a t = Inr s" "d_get s ''requested_ts'' = PInt req"
  shows "req \<le> last_event_ts a"
proof (cases "slot_get (acc_slots a) REQUESTED ''event_ts'' = PNone")
  case True
  with build_session_slots(1) [OF assms(1)] assms(2) show ?thesis by simp
next
  case False
  with build_session_slots(1) [OF assms(1)] assms(2)
  have r: "slot_get (acc_slots a) REQUESTED ''event_ts'' = PInt req" by simp
  then obtain v where "map_of (acc_slots a) (EVENT_SEQ REQUESTED) = Some v" "d_get v ''event_ts'' = PInt req"
    by (auto simp: slot_get_def split: option.splits)
  then have v: "(EVENT_SEQ REQUESTED, v) \<in> set (acc_slots a)" "slot_ts v = req"
    by (auto simp: slot_ts_def dest: map_of_SomeD)
  then have "req \<in> set (map (slot_ts \<circ> snd) (acc_slots a))" by force
  with v(1) show ?thesis by (auto simp: last_event_ts_def)
qed

lemma outside_lookback:
  assumes "source_ok src" "x \<in> set (src_sessions src)" "d_get x ''requested_ts'' = PDatetime us"
    and "max_ts ''requested_at'' t = Some m" "us < m - minutes_us 60"
    and "y \<in> set (full_refresh src)" "d_get y ''ride_id'' = d_get x ''ride_id''"
  shows "\<not> in_lookback t y"
proof -
  obtain z where z: "z \<in> set (src_sessions src)" "y = fct_row src (renamed SESSION_NAMES z)"
    using assms(6) by (auto simp: full_refresh_rows [OF assms(1)] stg_rides__sessions_def)
  have "d_get z ''ride_id'' = d_get x ''ride_id''" using assms(7) by (simp add: z(2) fct_row_get staged_get)
  then have "z = x"
    using assms(1,2) z(1) by (auto simp: source_ok_def keys_of_def distinct_map dest: inj_onD)
  then have "Dashboard_Queries.ts_of ''requested_at'' y = Some us"
    using assms(3) by (simp add: z(2) fct_row_get staged_get Dashboard_Queries.ts_of_def)
  then show ?thesis using assms(4,5) by (simp add: in_lookback_def)
qed

lemma merge_absent:
  assumes "merge_law merge" "dict_ok (by_ride t)" "dict_ok (by_ride new)"
    and "r \<notin> set (keys_of ''ride_id'' t)" "r \<notin> set (keys_of ''ride_id'' new)"
  shows "\<exists>t'. merge t new = Inr t' \<and> r \<notin> set (keys_of ''ride_id'' t')"
proof -
  obtain t' where t': "merge t new = Inr t'" "map_of (by_ride t') = map_of (by_ride t) ++ map_of (by_ride new)"
    using assms(1-3) unfolding merge_law_def by blast
  have "map_of (by_ride t) r = None" "map_of (by_ride new) r = None"
    using assms(4,5) by (force simp: map_of_eq_None_iff by_ride_def keys_of_def)+
  then have "map_of (by_ride t') r = None" by (simp add: t'(2) map_add_def)
  from map_of_eq_None_iff [THEN iffD1, OF this] have "r \<notin> set (keys_of ''ride_id'' t')"
    by (simp only: set_map [symmetric] by_ride_keys not_False_eq_True)
  with t'(1) show ?thesis by blast
qed


text \<open>A ride that is requested and never heard of again, while another one goes on.\<close>

definition lost_acc :: acc where
  "lost_acc = \<lparr>acc_ride_id = ''r'', acc_slots = [(1, sample_event ''r'' REQUESTED 1700000000000)]\<rparr>"

definition lost_fact :: frame where
  "lost_fact = [[(''ride_id'', PStr ''q''), (''requested_at'', PDatetime 1700003600001000)]]"

lemma lost_requested: "slot_get (acc_slots lost_acc) REQUESTED ''event_ts'' = PInt 1700000000000"
  by (simp add: slot_get_def lost_acc_def)


section \<open>Durations\<close>

lemma completed_duration:
  assumes "add_events (new_acc r) vs = Inr a" "build_session a t = Inr s"
    and "d_get s ''terminal_state'' = PStr ''completed''" "d_get s ''started_ts'' \<noteq> PNone"
  shows "\<exists>d \<ge> 0. d_get s ''ride_duration_sec'' = PFloat d"
proof -
  note b = build_session_Inr [OF assms(2)] build_session_slots [OF assms(2)]
  have ok: "slots_ok a" by (rule slots_ok_adds [OF slots_ok_new assms(1)])
  have trm: "terminal a = Some COMPLETED"
    using assms(3) unfolding b(2) by (cases "terminal a"; cases "the (terminal a)") auto
  have slot: "slot_get (acc_slots a) e ''event_ts'' = PNone \<or> (\<exists>ms. slot_get (acc_slots a) e ''event_ts'' = PInt ms)" for e
    by (auto simp: slot_get_def dest!: map_of_SomeD split: option.split elim!: slot_kind [OF ok])
  have "map_of (acc_slots a) (EVENT_SEQ COMPLETED) \<noteq> None" using first_terminal_Some [OF ok trm] by simp
  then obtain v where v: "map_of (acc_slots a) (EVENT_SEQ COMPLETED) = Some v" by blast
  obtain et ts where "d_get v ''event_ts'' = PInt ts" by (rule slot_kind [OF ok map_of_SomeD [OF v]])
  with v have e: "slot_get (acc_slots a) COMPLETED ''event_ts'' = PInt ts" by (simp add: slot_get_def)
  from assms(4) b(9) slot [of STARTED] obtain ms where st: "slot_get (acc_slots a) STARTED ''event_ts'' = PInt ms"
    by auto
  have "d_get s ''ride_duration_sec'' = PFloat (max (of_int (ts - ms) / 1000) 0)"
    using b(7) by (simp add: trm slot_diff_def diff_sec_def e st)
  then show ?thesis by (metis max.cobounded2)
qed

text \<open>C32: a completed ride that was seen to start is never without a duration. Over any data base the
  pipeline can reach, the test \<open>assert_completed_rides_have_duration\<close> reports no row of a refreshed
  fact whose duration is missing or negative: the only rows it can report have the duration zero, of
  rides whose events carry the same time stamp or lie the wrong way round.\<close>

theorem completed_rides_have_duration:
  assumes "input_ok cd input parts ride_part" "event_times_ok cd input parts" "session_wire cd env"
    and "distinct pparts" "pipe_reachable cd cfg input parts env grp pparts z"
    and "source_ok src" "src_sessions src = table_frame ''raw.ride_sessions'' (session_table z)"
  shows "list_all (\<lambda>r. d_get r ''ride_duration_sec'' = PFloat 0)
    (assert_completed_rides_have_duration (full_refresh src))"
proof -
  note inv = pipe_reachable_inv [OF assms(5,4)]
  then have rch: "reachable cd cfg input parts (pi_szr z)" by (simp add: pipe_inv_def)
  have "\<exists>d \<ge> 0. d_get r ''ride_duration_sec'' = PFloat d"
    if r: "r \<in> set (full_refresh src)" "d_get r ''terminal_state'' = PStr ''completed''" "d_get r ''started_at'' \<noteq> PNone" for r
  proof -
    obtain x where x: "x \<in> set (src_sessions src)" "r = fct_row src (renamed SESSION_NAMES x)"
      using r(1) by (auto simp: full_refresh_rows [OF assms(6)] stg_rides__sessions_def)
    then obtain k row where kr: "(k, row) \<in> set (session_table z)" "x = zip (map fst (columns ''raw.ride_sessions'')) row"
      unfolding assms(7) in_table_frame by blast
    obtain c where c: "c \<in> set (committed_closes (pi_szr z))" "session_row (snd (snd c)) = Inr row"
      using session_table_from [OF assms(1-3) inv] kr(1) unfolding list_all_iff by blast
    let ?s = "snd (snd c)"
    note cols = session_columns [OF c(2)]
    have "close_true cd input ride_part (sz_log (sys_szr (pi_szr z))) c"
      using reachable_closes(3) [OF assms(1) rch] c(1) by (simp add: list_all_iff)
    then obtain vs a t where a: "add_events (new_acc (fst c)) vs = Inr a" "build_session a t = Inr ?s"
      by (auto simp: close_true_def split: prod.splits)
    have "d_get ?s ''terminal_state'' = PStr ''completed''"
      using r(2) cols(2) by (simp add: x(2) kr(2) fct_row_get staged_get column_frame)
    moreover have "d_get ?s ''started_ts'' \<noteq> PNone"
      using r(3) cols(5) by (auto simp: x(2) kr(2) fct_row_get staged_get column_frame)
    ultimately have "\<exists>d \<ge> 0. d_get ?s ''ride_duration_sec'' = PFloat d" by (rule completed_duration [OF a])
    then show ?thesis using cols(3) by (simp add: x(2) kr(2) fct_row_get staged_get column_frame)
  qed
  then have "d_get r ''ride_duration_sec'' = PFloat 0"
    if "r \<in> set (assert_completed_rides_have_duration (full_refresh src))" for r
    using that by (fastforce simp: assert_completed_rides_have_duration_def completed_def project_get)
  then show ?thesis by (simp add: list_all_iff)
qed

theorem completed_rides_have_duration_witness:
  "\<exists>s src. pipe_demo_reaches (pipe_end s) \<and> length (src_sessions src) = 1
    \<and> assert_completed_rides_have_duration (full_refresh src) = []"
proof -
  obtain s where s: "pipe_demo_reaches (pipe_end s)" "pg_db s = pipe_db" by (rule pipe_demo_reachable)
  define src where "src = \<lparr>src_sessions = table_frame ''raw.ride_sessions'' (session_table (pipe_end s)),
      src_payments = [], src_cities = []\<rparr>"
  have t: "session_table (pipe_end s) = [([PStr ''r''], pipe_row)]" using s(2) by (simp add: pipe_end_def pipe_db_def)
  have src: "source_ok src" "distinct pipe_parts" "length (src_sessions src) = 1"
    by (simp_all add: source_ok_def src_def t table_frame_def keys_of_def pipe_parts_def)
  have dur: "d_get (zip (map fst (columns ''raw.ride_sessions'')) pipe_row) ''ride_duration_sec'' = PNone"
    by (simp add: pg_demo_cols pipe_row_def d_get_def)
  have "d_get (fct_row src (renamed SESSION_NAMES (zip (map fst (columns ''raw.ride_sessions'')) pipe_row))) ''ride_duration_sec'' = PNone"
    using dur by (simp add: fct_row_get staged_get)
  then have none: "d_get r ''ride_duration_sec'' = PNone" if "r \<in> set (full_refresh src)" for r
    using that unfolding full_refresh_rows [OF src(1)] stg_rides__sessions_def
    by (simp add: src_def t table_frame_def)
  have "list_all (\<lambda>r. d_get r ''ride_duration_sec'' = PFloat 0) (assert_completed_rides_have_duration (full_refresh src))"
    by (rule completed_rides_have_duration [OF demo_input_ok demo_times pipe_wire src(2) s(1) src(1)])
      (simp add: src_def)
  with none have "assert_completed_rides_have_duration (full_refresh src) = []"
    by (auto simp: assert_completed_rides_have_duration_def list_all_iff project_get filter_empty_conv)
  with s(1) src(3) show ?thesis by blast
qed

text \<open>The test does report such a ride: one that starts after it completes.\<close>

theorem reversed_ride_has_zero_duration:
  "\<exists>a s. add_events (new_acc ''r'') [sample_event ''r'' STARTED 7, sample_event ''r'' COMPLETED 5] = Inr a
    \<and> build_session a False = Inr s \<and> d_get s ''terminal_state'' = PStr ''completed''
    \<and> d_get s ''started_ts'' = PInt 7 \<and> d_get s ''ride_duration_sec'' = PFloat 0"
proof -
  obtain a where a: "add_events (new_acc ''r'') [sample_event ''r'' STARTED 7, sample_event ''r'' COMPLETED 5] = Inr a"
    and sl: "acc_slots a = [(4, sample_event ''r'' STARTED 7), (5, sample_event ''r'' COMPLETED 5)]"
    by (simp add: new_acc_def)
  have t: "terminal a = Some COMPLETED" by (simp add: terminal_def sl TERMINAL_STATES_def)
  have "coords_ok a"
    by (simp add: coords_ok_def sl sample_event_def ride_event_def Let_def d_get_def)
  then obtain s where s: "build_session a False = Inr s"
    using build_session_closable [of a False] t by auto
  with build_session_Inr(2,7) [OF s] build_session_slots(2) [OF s] a show ?thesis
    by (auto simp: t slot_diff_def diff_sec_def slot_get_def sl)
qed

end
