(* ===== verification/Dbt_Drivers.thy ===== *)
theory Dbt_Drivers
  imports Dbt_Rides Geo
begin

text \<open>
  The driver models of \<open>dbt/\<close> and the hourly rollup, as functions on the relations they read:
  \<open>int_drivers__shifts\<close> (gaps and islands with window functions), \<open>fct_driver_shifts\<close>,
  \<open>int_drivers__current\<close>, \<open>dim_drivers\<close>, \<open>agg_city_hourly\<close>. The windows \<open>lag\<close> and the running \<open>sum\<close> are lists over a partition
  sorted by its ORDER BY; the rows of \<open>raw.driver_locations\<close> have one ping per driver and instant, so
  that order has no ties. The lemmas compare the numbering by a running sum of flags with the splitting of
  a driver's pings into their longest runs.
\<close>

section \<open>Window functions\<close>

text \<open>\<open>lag(\<dots>) over (partition by \<dots> order by \<dots>)\<close>: each row with the one before it.\<close>

definition lagged :: "'r list \<Rightarrow> ('r option \<times> 'r) list" where
  "lagged rows = zip (None # map Some rows) rows"

text \<open>\<open>sum(\<dots>) over (\<dots> rows between unbounded preceding and current row)\<close>.\<close>

fun running_sum :: "int \<Rightarrow> int list \<Rightarrow> int list" where
  "running_sum acc [] = []"
| "running_sum acc (x # xs) = (acc + x) # running_sum (acc + x) xs"

definition ping_us :: "payload \<Rightarrow> int" where
  "ping_us p = (case ts_of ''pinged_at'' p of Some t \<Rightarrow> t | None \<Rightarrow> 0)"

section \<open>Shifts\<close>

definition is_new_shift :: "payload option \<Rightarrow> payload \<Rightarrow> int" where
  "is_new_shift prev p =
     (case ts_value (joined prev ''pinged_at'') of
        None \<Rightarrow> 1
      | Some t \<Rightarrow>
          if (case ts_of ''pinged_at'' p of None \<Rightarrow> False | Some u \<Rightarrow> u - t > minutes_us 30) then 1
          else if joined prev ''status'' = PStr ''offline'' then 1
          else 0)"

definition step_km :: "payload option \<Rightarrow> payload \<Rightarrow> real option" where
  "step_km prev p =
     (case number (joined prev ''lat'') of
        None \<Rightarrow> Some 0
      | Some prev_lat \<Rightarrow>
          (case (number (joined prev ''lon''), number (d_get p ''lat''), number (d_get p ''lon'')) of
             (Some prev_lon, Some lat, Some lon) \<Rightarrow>
               Some (2 * 6371.0088 * arcsin (sqrt (sin (radians (lat - prev_lat) / 2) ^ 2
                 + cos (radians prev_lat) * cos (radians lat) * sin (radians (lon - prev_lon) / 2) ^ 2)))
           | _ \<Rightarrow> None))"

record numbered_ping =
  np_ping :: payload
  np_is_new :: int
  np_step_km :: "real option"
  np_seq :: int

definition numbered_partition :: "frame \<Rightarrow> numbered_ping list" where
  "numbered_partition pings =
     (let ps = lagged pings in
      map2 (\<lambda>(prev, p) n. \<lparr>np_ping = p, np_is_new = is_new_shift prev p, np_step_km = step_km prev p, np_seq = n\<rparr>)
        ps (running_sum 0 (map (\<lambda>(prev, p). is_new_shift prev p) ps)))"

definition numbered :: "frame \<Rightarrow> numbered_ping list" where
  "numbered pings = concat (map (\<lambda>(d, g). numbered_partition (sort_key ping_us g)) (groups_by (\<lambda>r. d_get r ''driver_id'') pings))"

text \<open>Aggregates skip nulls; of no values they are null.\<close>

definition sql_sum :: "real list \<Rightarrow> real option" where
  "sql_sum xs = (if xs = [] then None else Some (sum_list xs))"

definition min_ts :: "string \<Rightarrow> frame \<Rightarrow> int option" where
  "min_ts c rows = (case List.map_filter (ts_of c) rows of [] \<Rightarrow> None | t # ts \<Rightarrow> Some (fold min ts t))"

fun int_value :: "pyval \<Rightarrow> int option" where
  "int_value (PInt i) = Some i"
| "int_value _ = None"

definition min_int :: "string \<Rightarrow> frame \<Rightarrow> pyval" where
  "min_int c rows = (case List.map_filter (\<lambda>r. int_value (d_get r c)) rows of [] \<Rightarrow> PNone | i # is \<Rightarrow> PInt (fold min is i))"

definition shift_id :: "pyval \<Rightarrow> int \<Rightarrow> pyval" where
  "shift_id d n = (case d of PStr s \<Rightarrow> PStr (s @ ''.'' @ int_digits n) | _ \<Rightarrow> PNone)"

definition active_minutes :: "int option \<Rightarrow> int option \<Rightarrow> pyval" where
  "active_minutes start stop = (case (start, stop) of (Some a, Some b) \<Rightarrow> PFloat (of_int (b - a) / 1000000 / 60) | _ \<Rightarrow> PNone)"

definition shift_row :: "pyval \<times> int \<Rightarrow> numbered_ping list \<Rightarrow> payload" where
  "shift_row = (\<lambda>(d, n) g.
     let pings = map np_ping g; start = min_ts ''pinged_at'' pings; stop = max_ts ''pinged_at'' pings in
     [(''shift_id'', shift_id d n), (''driver_id'', d), (''city_id'', min_int ''city_id'' pings),
      (''shift_started_at'', of_opt_ts start), (''shift_ended_at'', of_opt_ts stop),
      (''active_minutes'', active_minutes start stop),
      (''distance_km'', of_opt_float (sql_sum (List.map_filter (\<lambda>r. if np_is_new r = 1 then Some 0 else np_step_km r) g))),
      (''ping_count'', PInt (int (length g))),
      (''avg_speed_kmh'', of_opt_float (sql_avg (numbers ''speed_kmh'' pings))),
      (''on_trip_share'', PFloat (real (length (filter (\<lambda>p. d_get p ''status'' = PStr ''on_trip'') pings)) / real (length g)))])"

definition int_drivers__shifts :: "frame \<Rightarrow> frame" where
  "int_drivers__shifts pings =
     map (\<lambda>(k, g). shift_row k g) (groups_by (\<lambda>r. (d_get (np_ping r) ''driver_id'', np_seq r)) (numbered pings))"

definition fct_driver_shifts :: "frame \<Rightarrow> frame" where
  "fct_driver_shifts = map (project [''shift_id'', ''driver_id'', ''city_id'', ''shift_started_at'', ''shift_ended_at'',
     ''active_minutes'', ''distance_km'', ''ping_count'', ''avg_speed_kmh'', ''on_trip_share''])"

section \<open>Drivers and cities\<close>

definition tier :: "int \<Rightarrow> string" where
  "tier rides = (if rides \<ge> 30 then ''gold'' else if rides \<ge> 10 then ''silver'' else ''bronze'')"

definition coalesce_count :: "int option \<Rightarrow> int" where
  "coalesce_count c = (case c of None \<Rightarrow> 0 | Some n \<Rightarrow> n)"

definition int_drivers__current :: "frame \<Rightarrow> frame \<Rightarrow> frame" where
  "int_drivers__current pings sessions =
     (let latest_ping = distinct_on ''driver_id'' ''pinged_at'' pings;
          counts = map (\<lambda>(d, g). (d, int (length g))) (groups_by (\<lambda>r. d_get r ''driver_id'') (filter completed sessions))
      in map (\<lambda>(p, c). let n = coalesce_count (map_option snd c) in
           project [''driver_id'', ''city_id'', ''status''] p
           @ [(''last_seen_at'', d_get p ''pinged_at''), (''completed_rides'', PInt n), (''tier'', PStr (tier n))])
         (left_join (\<lambda>p (d, n). sql_eq (d_get p ''driver_id'') d) latest_ping counts))"

text \<open>Over the snapshot of \<open>int_drivers__current\<close>; \<open>to_char(\<dots>, 'YYYYMMDDHH24MISSMS')\<close> is a parameter.\<close>

definition dim_drivers :: "(int \<Rightarrow> string) \<Rightarrow> frame \<Rightarrow> frame" where
  "dim_drivers to_char snapshot = map (\<lambda>r.
     [(''driver_version_key'', case (d_get r ''driver_id'', ts_of ''dbt_valid_from'' r) of
         (PStr d, Some us) \<Rightarrow> PStr (d @ ''.'' @ to_char us) | _ \<Rightarrow> PNone)]
     @ project [''driver_id'', ''city_id'', ''status'', ''tier'', ''completed_rides'', ''last_seen_at''] r
     @ [(''valid_from'', d_get r ''dbt_valid_from''), (''valid_to'', d_get r ''dbt_valid_to''),
        (''is_current'', PBool (d_get r ''dbt_valid_to'' = PNone))]) snapshot"

definition hour_of :: "payload \<Rightarrow> int option" where
  "hour_of row = map_option (\<lambda>us. us div hours_us 1 * hours_us 1) (ts_of ''requested_at'' row)"

definition in_state :: "string \<Rightarrow> payload \<Rightarrow> bool" where
  "in_state s row \<longleftrightarrow> d_get row ''terminal_state'' = PStr s"

definition hourly_row :: "pyval \<times> pyval \<times> int option \<Rightarrow> frame \<Rightarrow> payload" where
  "hourly_row = (\<lambda>(city, name, hour) g.
       [(''city_id'', city), (''city_name'', name), (''hour_start'', of_opt_ts hour),
        (''rides_closed'', count_star g), (''rides_completed'', count_star (filter (in_state ''completed'') g)),
        (''rides_cancelled'', count_star (filter (in_state ''cancelled'') g)),
        (''rides_abandoned'', count_star (filter (in_state ''abandoned'') g)),
        (''completion_rate'', PFloat (real (length (filter (in_state ''completed'') g)) / real (length g))),
        (''avg_surge'', of_opt_float (sql_avg (numbers ''surge_multiplier'' g))),
        (''p50_time_to_match_sec'', of_opt_float (percentile_cont (1 / 2) (numbers ''time_to_match_sec'' g))),
        (''p95_time_to_match_sec'', of_opt_float (percentile_cont (95 / 100) (numbers ''time_to_match_sec'' g))),
        (''gross_fares_cents'', of_opt_float (sql_sum (numbers ''fare_cents'' (filter (in_state ''completed'') g)))),
        (''collected_cents'', of_opt_float (sql_sum (numbers ''paid_amount_cents''
           (filter (\<lambda>r. d_get r ''payment_status'' = PStr ''completed'') g)))),
        (''late_arrivals'', count_star (filter (\<lambda>r. d_get r ''is_late_arrival'' = PBool True) g))])"

definition agg_city_hourly :: "frame \<Rightarrow> frame" where
  "agg_city_hourly fct =
     map (\<lambda>(k, g). hourly_row k g) (groups_by (\<lambda>r. (d_get r ''city_id'', d_get r ''city_name'', hour_of r)) fct)"

section \<open>Islands as longest runs\<close>

fun runs :: "('r \<Rightarrow> 'r \<Rightarrow> bool) \<Rightarrow> 'r list \<Rightarrow> 'r list list" where
  "runs R [] = []"
| "runs R (x # xs) = (case runs R xs of [] \<Rightarrow> [[x]]
     | g # gs \<Rightarrow> if R x (hd g) then (x # g) # gs else [x] # g # gs)"

lemma runs_Nil_iff [simp]: "runs R xs = [] \<longleftrightarrow> xs = []"
  by (cases xs) (simp_all split: list.split)

lemma runs_Cons_hd:
  assumes "runs R xs = g # gs"
  shows "g \<noteq> [] \<and> xs \<noteq> [] \<and> hd g = hd xs"
  using assms by (cases xs) (auto split: list.splits if_splits)

text \<open>The runs of a list in order make up the list; inside a run each element is related to the next,
  and the last of a run is not related to the first of the next run.\<close>

lemma runs_split:
  "concat (runs R xs) = xs \<and> list_all (\<lambda>g. g \<noteq> [] \<and> successively R g) (runs R xs)
    \<and> successively (\<lambda>g h. \<not> R (last g) (hd h)) (runs R xs)"
proof (induction xs)
  case (Cons x xs)
  show ?case
  proof (cases "runs R xs")
    case Nil
    then show ?thesis by simp
  next
    case (Cons g gs)
    with Cons.IH have "g \<noteq> []" by simp
    with Cons Cons.IH show ?thesis by (auto simp: successively_Cons)
  qed
qed simp

lemma concat_runs: "concat (runs R xs) = xs"
  using runs_split [of R xs] by simp

lemma runs_nonempty: "g \<in> set (runs R xs) \<Longrightarrow> g \<noteq> []"
  using runs_split [of R xs] by (auto simp: list_all_iff)

definition same_shift :: "payload \<Rightarrow> payload \<Rightarrow> bool" where
  "same_shift q p \<longleftrightarrow> ping_us p - ping_us q \<le> minutes_us 30 \<and> d_get q ''status'' \<noteq> PStr ''offline''"

text \<open>The NOT NULL columns of \<open>raw.driver_locations\<close> the model reads.\<close>

definition ping_ok :: "payload \<Rightarrow> bool" where
  "ping_ok p \<longleftrightarrow> ts_of ''pinged_at'' p \<noteq> None \<and> number (d_get p ''lat'') \<noteq> None \<and> number (d_get p ''lon'') \<noteq> None"

definition coord :: "string \<Rightarrow> payload \<Rightarrow> real" where
  "coord c p = (case number (d_get p c) of Some x \<Rightarrow> x | None \<Rightarrow> 0)"

lemma is_new_shift_simps:
  "is_new_shift None p = 1"
  "ping_ok q \<Longrightarrow> ping_ok p \<Longrightarrow> is_new_shift (Some q) p = (if same_shift q p then 0 else 1)"
  by (auto simp: is_new_shift_def joined_def same_shift_def ping_ok_def ping_us_def ts_of_def)

lemma step_is_haversine:
  assumes "ping_ok q" "ping_ok p"
  shows "step_km (Some q) p = Some (haversine_km (coord ''lat'' q) (coord ''lon'' q) (coord ''lat'' p) (coord ''lon'' p))"
  using assms by (auto simp: step_km_def joined_def ping_ok_def coord_def haversine_km_def haversine_a_def
      EARTH_RADIUS_KM_def Let_def)

fun numbered_from :: "payload option \<Rightarrow> int \<Rightarrow> frame \<Rightarrow> numbered_ping list" where
  "numbered_from q s [] = []"
| "numbered_from q s (p # ps) =
     \<lparr>np_ping = p, np_is_new = is_new_shift q p, np_step_km = step_km q p, np_seq = s + is_new_shift q p\<rparr>
       # numbered_from (Some p) (s + is_new_shift q p) ps"

lemma numbered_partition_from: "numbered_partition ps = numbered_from None 0 ps"
proof -
  have "map2 (\<lambda>(prev, p) n. \<lparr>np_ping = p, np_is_new = is_new_shift prev p, np_step_km = step_km prev p, np_seq = n\<rparr>)
      (zip (q # map Some ps) ps) (running_sum s (map (\<lambda>(prev, p). is_new_shift prev p) (zip (q # map Some ps) ps)))
    = numbered_from q s ps" for q s
    by (induction ps arbitrary: q s) simp_all
  then show ?thesis by (simp add: numbered_partition_def lagged_def Let_def)
qed

text \<open>What the aggregates read of a numbered ping: a step into the first ping of a shift does not count.\<close>

definition counted :: "numbered_ping \<Rightarrow> payload \<times> real option \<times> int" where
  "counted r = (np_ping r, if np_is_new r = 1 then Some 0 else np_step_km r, np_seq r)"

fun run_rows :: "int \<Rightarrow> payload option \<Rightarrow> frame \<Rightarrow> (payload \<times> real option \<times> int) list" where
  "run_rows k q [] = []"
| "run_rows k q (p # ps) = (p, if is_new_shift q p = 1 then Some 0 else step_km q p, k) # run_rows k (Some p) ps"

lemma run_rows_start:
  assumes "ps \<noteq> []" "is_new_shift q (hd ps) = 1"
  shows "run_rows k q ps = run_rows k None ps"
  using assms by (cases ps) (simp_all add: is_new_shift_simps)

definition runs_rows :: "int \<Rightarrow> frame list \<Rightarrow> (payload \<times> real option \<times> int) list" where
  "runs_rows k gs = concat (map (\<lambda>(i, g). run_rows (k + int i) None g) (enumerate 0 gs))"

lemma runs_rows_Cons: "runs_rows k (g # gs) = run_rows k None g @ runs_rows (k + 1) gs"
  by (simp add: runs_rows_def enumerate_Suc_eq comp_def split_def algebra_simps)

lemma counted_numbered:
  assumes "list_all ping_ok ps" "runs same_shift ps = g # gs"
  shows "map counted (numbered_from q s ps) = run_rows (s + is_new_shift q (hd g)) q g @ runs_rows (s + is_new_shift q (hd g) + 1) gs"
  using assms
proof (induction ps arbitrary: q s g gs)
  case (Cons p ps)
  show ?case
  proof (cases "runs same_shift ps")
    case Nil
    with Cons.prems(2) have "ps = []" "g = [p]" "gs = []" by auto
    then show ?thesis by (simp add: counted_def runs_rows_def)
  next
    case (Cons h hs)
    note H = runs_Cons_hd [OF Cons]
    have "ping_ok (hd h)" using Cons.prems(1) H by (cases ps) simp_all
    with Cons.prems(1) have new: "is_new_shift (Some p) (hd h) = (if same_shift p (hd h) then 0 else 1)"
      by (simp add: is_new_shift_simps)
    note IH = Cons.IH [OF _ Cons, of "Some p" "s + is_new_shift q p"]
    show ?thesis
    proof (cases "same_shift p (hd h)")
      case True
      with Cons.prems(2) Cons have "g = p # h" "gs = hs" by simp_all
      with IH Cons.prems(1) new True show ?thesis by (simp add: counted_def)
    next
      case False
      with Cons.prems(2) Cons have "g = [p]" "gs = h # hs" by simp_all
      with IH Cons.prems(1) new False H show ?thesis
        by (simp add: counted_def runs_rows_Cons run_rows_start add.commute)
    qed
  qed
qed simp

lemma counted_partition:
  assumes "list_all ping_ok ps"
  shows "map counted (numbered_partition ps) = runs_rows 1 (runs same_shift ps)"
proof (cases "runs same_shift ps")
  case (Cons g gs)
  from counted_numbered [OF assms this, of None 0] Cons show ?thesis
    by (simp add: numbered_partition_from is_new_shift_simps runs_rows_Cons)
qed (simp add: numbered_partition_from runs_rows_def)

section \<open>Groups that are blocks\<close>

lemma groups_by_map: "groups_by f (map h xs) = map (\<lambda>(k, g). (k, map h g)) (groups_by (\<lambda>x. f (h x)) xs)"
  by (simp add: groups_by_def filter_map comp_def)

lemma remdups_block: "y \<notin> set ys \<Longrightarrow> remdups (replicate (Suc n) y @ ys) = y # remdups ys"
  by (induction n) simp_all

lemma groups_by_blocks:
  assumes "distinct (map fst bs)" "\<And>k b. (k, b) \<in> set bs \<Longrightarrow> b \<noteq> [] \<and> (\<forall>x \<in> set b. f x = k)"
  shows "groups_by f (concat (map snd bs)) = bs"
  using assms
proof (induction bs)
  case (Cons kb bs)
  obtain k b where kb: "kb = (k, b)" by (cases kb)
  let ?rest = "concat (map snd bs)"
  have IH: "groups_by f ?rest = bs"
  proof (rule Cons.IH)
    show "dict_ok bs" using Cons.prems(1) by simp
    show "b \<noteq> [] \<and> (\<forall>x \<in> set b. f x = k)" if "(k, b) \<in> set bs" for k b
      by (rule Cons.prems(2)) (simp add: that)
  qed
  have b: "b \<noteq> []" "\<forall>x \<in> set b. f x = k" using Cons.prems(2) [of k b] kb by auto
  have other: "f x \<noteq> k" if x: "x \<in> set ?rest" for x
  proof -
    obtain k' b' where "(k', b') \<in> set bs" "x \<in> set b'" using x by auto
    with Cons.prems show ?thesis unfolding kb by force
  qed
  moreover obtain n where n: "length b = Suc n" using b(1) by (cases b) auto
  have "map f b = replicate (Suc n) k" unfolding n [symmetric] using b(2) by (intro replicate_eqI) auto
  ultimately have "remdups (map f (b @ ?rest)) = k # remdups (map f ?rest)"
    by (simp only: map_append) (rule remdups_block, metis imageE set_map)
  moreover have "filter (\<lambda>r. f r = k) ?rest = []" "filter (\<lambda>r. f r = k) b = b"
    using other b(2) by (auto simp: filter_empty_conv filter_id_conv)
  moreover have "filter (\<lambda>r. f r = k') (b @ ?rest) = filter (\<lambda>r. f r = k') ?rest" if "k' \<in> set (map f ?rest)" for k'
    using other b(2) that by (auto simp: filter_empty_conv)
  ultimately have "groups_by f (b @ ?rest) = (k, b) # groups_by f ?rest"
    unfolding groups_by_def by (auto simp del: map_append)
  with IH kb show ?case by simp
qed (simp add: groups_by_def)

lemma distinct_blocks:
  assumes "distinct (map fst xs)" "inj h"
  shows "distinct (concat (map (\<lambda>(d, g). map (\<lambda>i. (d, h i)) [1..<1 + n d g]) xs))"
  using assms(1)
proof (induction xs)
  case (Cons x xs)
  then show ?case using assms(2) by (cases x) (force simp: distinct_map inj_on_def)
qed simp

lemma groups_by_sound:
  assumes "(k, g) \<in> set (groups_by f rows)"
  shows "g = filter (\<lambda>r. f r = k) rows \<and> k \<in> f ` set rows"
  using assms by (auto simp: groups_by_def)

lemma groups_by_distinct: "distinct (map fst (groups_by f rows))"
  by (simp add: groups_by_def comp_def)

section \<open>The aggregates of a run\<close>

lemma run_rows_pings [simp]: "map fst (run_rows k q ps) = ps"
  by (induction ps arbitrary: q) simp_all

lemma run_rows_length [simp]: "length (run_rows k q ps) = length ps"
  by (induction ps arbitrary: q) simp_all

lemma run_rows_seq: "x \<in> set (run_rows k q ps) \<Longrightarrow> fst x \<in> set ps \<and> snd (snd x) = k"
  by (induction ps arbitrary: q) auto

fun path_km :: "frame \<Rightarrow> real" where
  "path_km (p # q # ps) =
     haversine_km (coord ''lat'' p) (coord ''lon'' p) (coord ''lat'' q) (coord ''lon'' q) + path_km (q # ps)"
| "path_km _ = 0"

lemma run_rows_path:
  assumes "list_all ping_ok (p # ps)" "successively same_shift (p # ps)"
  shows "sum_list (List.map_filter (\<lambda>x. fst (snd x)) (run_rows k (Some p) ps)) = path_km (p # ps)"
  using assms
proof (induction ps arbitrary: p)
  case (Cons q ps)
  then show ?case by (simp add: is_new_shift_simps step_is_haversine)
qed simp

lemma run_rows_distance:
  assumes "list_all ping_ok ps" "successively same_shift ps" "ps \<noteq> []"
  shows "sql_sum (List.map_filter (\<lambda>x. fst (snd x)) (run_rows k None ps)) = Some (path_km ps)"
proof -
  obtain p qs where "ps = p # qs" using assms(3) by (cases ps) auto
  then show ?thesis using run_rows_path [of p qs k] assms by (simp add: sql_sum_def is_new_shift_simps)
qed

lemma ok_times:
  assumes "list_all ping_ok ps"
  shows "List.map_filter (ts_of ''pinged_at'') ps = map ping_us ps"
  using assms by (induction ps) (auto simp: ping_ok_def ping_us_def)

lemma fold_min_first: "\<forall>x \<in> set xs. a \<le> x \<Longrightarrow> fold min xs a = (a :: int)"
  by (induction xs) (simp_all add: min.absorb2)

lemma fold_max_sorted: "sorted (a # xs) \<Longrightarrow> fold max xs a = (last (a # xs) :: int)"
proof (induction xs arbitrary: a)
  case (Cons x xs)
  then show ?case by (simp add: max_def)
qed simp

lemma sorted_extremes:
  assumes "list_all ping_ok ps" "sorted (map ping_us ps)" "ps \<noteq> []"
  shows "min_ts ''pinged_at'' ps = Some (ping_us (hd ps))" "max_ts ''pinged_at'' ps = Some (ping_us (last ps))"
proof -
  obtain p qs where ps: "ps = p # qs" using assms(3) by (cases ps) auto
  have "fold min (map ping_us qs) (ping_us p) = ping_us p" using assms(2) by (intro fold_min_first) (simp add: ps)
  moreover have "fold max (map ping_us qs) (ping_us p) = ping_us (last ps)"
    using fold_max_sorted [of "ping_us p" "map ping_us qs"] assms(2) by (simp add: ps last_map)
  ultimately show "min_ts ''pinged_at'' ps = Some (ping_us (hd ps))" "max_ts ''pinged_at'' ps = Some (ping_us (last ps))"
    unfolding min_ts_def max_ts_def ok_times [OF assms(1)] by (simp_all add: ps)
qed

lemma sorted_run: "g \<in> set gs \<Longrightarrow> sorted (map f (concat gs)) \<Longrightarrow> sorted (map f g)"
  by (induction gs) (auto simp: sorted_append)

section \<open>The shifts of a driver are the longest runs of its pings\<close>

text \<open>The row of the \<open>k\<close>-th shift of a driver, read off its pings \<open>ps\<close>.\<close>

definition shift_of :: "pyval \<Rightarrow> nat \<Rightarrow> frame \<Rightarrow> payload" where
  "shift_of d k ps =
     [(''shift_id'', shift_id d (int k)), (''driver_id'', d), (''city_id'', min_int ''city_id'' ps),
      (''shift_started_at'', PDatetime (ping_us (hd ps))), (''shift_ended_at'', PDatetime (ping_us (last ps))),
      (''active_minutes'', PFloat (of_int (ping_us (last ps) - ping_us (hd ps)) / 1000000 / 60)),
      (''distance_km'', PFloat (path_km ps)), (''ping_count'', PInt (int (length ps))),
      (''avg_speed_kmh'', of_opt_float (sql_avg (numbers ''speed_kmh'' ps))),
      (''on_trip_share'', PFloat (real (length (filter (\<lambda>p. d_get p ''status'' = PStr ''on_trip'') ps)) / real (length ps)))]"

definition driver_shifts :: "pyval \<Rightarrow> frame \<Rightarrow> frame" where
  "driver_shifts d g = map (\<lambda>(k, ps). shift_of d k ps) (enumerate 1 (runs same_shift (sort_key ping_us g)))"

definition counted_row :: "pyval \<times> int \<Rightarrow> (payload \<times> real option \<times> int) list \<Rightarrow> payload" where
  "counted_row = (\<lambda>(d, n) g.
     let pings = map fst g; start = min_ts ''pinged_at'' pings; stop = max_ts ''pinged_at'' pings in
     [(''shift_id'', shift_id d n), (''driver_id'', d), (''city_id'', min_int ''city_id'' pings),
      (''shift_started_at'', of_opt_ts start), (''shift_ended_at'', of_opt_ts stop),
      (''active_minutes'', active_minutes start stop),
      (''distance_km'', of_opt_float (sql_sum (List.map_filter (\<lambda>x. fst (snd x)) g))),
      (''ping_count'', PInt (int (length g))),
      (''avg_speed_kmh'', of_opt_float (sql_avg (numbers ''speed_kmh'' pings))),
      (''on_trip_share'', PFloat (real (length (filter (\<lambda>p. d_get p ''status'' = PStr ''on_trip'') pings)) / real (length g)))])"

lemma shift_row_counted: "shift_row k g = counted_row k (map counted g)"
proof -
  have "map fst (map counted g) = map np_ping g" by (simp add: counted_def)
  moreover have "List.map_filter (\<lambda>x. fst (snd x)) (map counted g)
      = List.map_filter (\<lambda>r. if np_is_new r = 1 then Some 0 else np_step_km r) g"
    by (induction g) (auto simp: counted_def split: option.split)
  ultimately show ?thesis by (cases k) (simp only: shift_row_def counted_row_def split_conv length_map)
qed

lemma counted_row_run:
  assumes "list_all ping_ok ps" "successively same_shift ps" "sorted (map ping_us ps)" "ps \<noteq> []"
  shows "counted_row (d, int k) (run_rows (int k) None ps) = shift_of d k ps"
  unfolding counted_row_def shift_of_def split_conv Let_def run_rows_pings run_rows_length
    sorted_extremes [OF assms(1,3,4)] run_rows_distance [OF assms(1,2,4)]
  by (simp add: of_opt_ts_def active_minutes_def)

definition shift_blocks :: "frame \<Rightarrow> ((pyval \<times> int) \<times> (payload \<times> real option \<times> int) list) list" where
  "shift_blocks pings = concat (map (\<lambda>(d, g). map (\<lambda>(k, ps). ((d, int k), run_rows (int k) None ps))
     (enumerate 1 (runs same_shift (sort_key ping_us g)))) (groups_by (\<lambda>r. d_get r ''driver_id'') pings))"

lemma runs_rows_enumerate: "runs_rows 1 gs = concat (map (\<lambda>(k, g). run_rows (int k) None g) (enumerate 1 gs))"
  by (simp add: runs_rows_def enumerate_Suc_eq comp_def split_def)

lemma concat_of_concats: "concat (concat (map f xs)) = concat (map (\<lambda>x. concat (f x)) xs)"
  by (induction xs) simp_all

lemma counted_numbered_blocks:
  assumes "list_all ping_ok pings"
  shows "map counted (numbered pings) = concat (map snd (shift_blocks pings))"
proof -
  have "map counted (numbered_partition (sort_key ping_us g))
      = concat (map snd (map (\<lambda>(k, ps). ((d, int k), run_rows (int k) None ps)) (enumerate 1 (runs same_shift (sort_key ping_us g)))))"
    if "(d, g) \<in> set (groups_by (\<lambda>r. d_get r ''driver_id'') pings)" for d g
  proof -
    have "list_all ping_ok (sort_key ping_us g)" using assms groups_by_sound [OF that] by (simp add: list_all_iff)
    then show ?thesis by (simp add: counted_partition runs_rows_enumerate comp_def split_def)
  qed
  then have "map (\<lambda>(d, g). map counted (numbered_partition (sort_key ping_us g))) (groups_by (\<lambda>r. d_get r ''driver_id'') pings)
      = map (\<lambda>(d, g). concat (map snd (map (\<lambda>(k, ps). ((d, int k), run_rows (int k) None ps))
          (enumerate 1 (runs same_shift (sort_key ping_us g)))))) (groups_by (\<lambda>r. d_get r ''driver_id'') pings)"
    by (intro map_cong refl) auto
  then show ?thesis
    by (simp only: numbered_def shift_blocks_def map_concat map_map comp_def split_def concat_of_concats)
qed

lemma shift_blocks_keys: "distinct (map fst (shift_blocks pings))"
proof -
  have "map fst (shift_blocks pings) = concat (map (\<lambda>(d, g). map (\<lambda>i. (d, int i)) [1..<1 + length (runs same_shift (sort_key ping_us g))])
      (groups_by (\<lambda>r. d_get r ''driver_id'') pings))"
    unfolding shift_blocks_def map_concat map_map map_fst_enumerate [symmetric] by (simp add: comp_def split_def)
  also have "distinct \<dots>" by (rule distinct_blocks) (simp_all add: groups_by_distinct)
  finally show ?thesis .
qed

lemma shift_blocks_run:
  assumes "((d, n), b) \<in> set (shift_blocks pings)" "list_all ping_ok pings"
  obtains g k ps where "(d, g) \<in> set (groups_by (\<lambda>r. d_get r ''driver_id'') pings)"
    "(k, ps) \<in> set (enumerate 1 (runs same_shift (sort_key ping_us g)))" "n = int k" "b = run_rows (int k) None ps"
proof -
  from assms(1) show ?thesis unfolding shift_blocks_def by (auto intro: that)
qed

lemma shift_run_ok:
  assumes "(d, g) \<in> set (groups_by (\<lambda>r. d_get r ''driver_id'') pings)" "list_all ping_ok pings"
    "(k, ps) \<in> set (enumerate 1 (runs same_shift (sort_key ping_us g)))"
  shows "list_all ping_ok ps" "successively same_shift ps" "sorted (map ping_us ps)" "ps \<noteq> []"
    "p \<in> set ps \<Longrightarrow> d_get p ''driver_id'' = d"
proof -
  have ps: "ps \<in> set (runs same_shift (sort_key ping_us g))"
    using assms(3) by (metis in_set_zip enumerate_eq_zip nth_mem snd_conv)
  have sub: "set ps \<subseteq> set g" using ps concat_runs [of same_shift "sort_key ping_us g"]
    by (metis UN_upper set_concat set_sort)
  show "list_all ping_ok ps" using sub assms(2) groups_by_sound [OF assms(1)] by (auto simp: list_all_iff)
  show "successively same_shift ps" "ps \<noteq> []"
    using ps runs_split [of same_shift "sort_key ping_us g"] by (auto simp: list_all_iff)
  show "sorted (map ping_us ps)" by (rule sorted_run [OF ps]) (simp add: concat_runs)
  show "d_get p ''driver_id'' = d" if "p \<in> set ps" using that sub groups_by_sound [OF assms(1)] by auto
qed

text \<open>C29: the window functions of \<open>int_drivers__shifts\<close> compute the shifts as its comment describes
  them. For pings with an instant and a position, the rows are, driver by driver, one for each longest
  run of the driver's pings in time order without a gap over thirty minutes and without an offline ping
  before a later one (\<open>runs_split\<close> says that \<open>runs\<close> cuts a list into its longest runs); the shifts of a
  driver are numbered from one, start at the first and end at the last ping of the run, and their
  distance is the sum of the great-circle distances of consecutive pings of the run, as
  \<open>common/geo.py\<close> computes them.\<close>

theorem shifts_are_longest_runs:
  assumes "list_all ping_ok pings"
  shows "int_drivers__shifts pings
    = concat (map (\<lambda>(d, g). driver_shifts d g) (groups_by (\<lambda>r. d_get r ''driver_id'') pings))"
proof -
  let ?key = "\<lambda>x. (d_get (fst x) ''driver_id'', snd (snd x))" and ?G = "groups_by (\<lambda>r. d_get r ''driver_id'') pings"
  have "groups_by ?key (map counted (numbered pings)) = shift_blocks pings"
    unfolding counted_numbered_blocks [OF assms]
  proof (rule groups_by_blocks [OF shift_blocks_keys])
    fix k b assume b: "(k, b) \<in> set (shift_blocks pings)"
    obtain d n where k: "k = (d, n)" by (cases k)
    from b obtain g i ps where "(d, g) \<in> set ?G" "(i, ps) \<in> set (enumerate 1 (runs same_shift (sort_key ping_us g)))"
      "n = int i" "b = run_rows (int i) None ps" unfolding k by (rule shift_blocks_run [OF _ assms])
    note run = this and ok = shift_run_ok [OF this(1) assms this(2)]
    have "b \<noteq> []" using ok(4) run(4) run_rows_length [of "int i" None ps] by (metis length_0_conv)
    then show "b \<noteq> [] \<and> (\<forall>x \<in> set b. ?key x = k)" using ok(5) run(3,4) k by (auto dest!: run_rows_seq)
  qed
  then have "map (\<lambda>(k, g). (k, map counted g)) (groups_by (\<lambda>r. (d_get (np_ping r) ''driver_id'', np_seq r)) (numbered pings))
      = shift_blocks pings"
    by (simp add: groups_by_map counted_def)
  then have "int_drivers__shifts pings = map (\<lambda>(k, b). counted_row k b) (shift_blocks pings)"
    by (auto simp: int_drivers__shifts_def shift_row_counted dest: sym)
  also have "\<dots> = concat (map (\<lambda>(d, g). map (\<lambda>(k, ps). counted_row (d, int k) (run_rows (int k) None ps))
      (enumerate 1 (runs same_shift (sort_key ping_us g)))) ?G)"
    by (simp add: shift_blocks_def map_concat comp_def split_def)
  also have "\<dots> = concat (map (\<lambda>(d, g). driver_shifts d g) ?G)"
  proof (rule arg_cong [where f = concat], rule map_cong [OF refl], clarify)
    fix d g assume g: "(d, g) \<in> set ?G"
    show "map (\<lambda>(k, ps). counted_row (d, int k) (run_rows (int k) None ps))
        (enumerate 1 (runs same_shift (sort_key ping_us g))) = driver_shifts d g"
      unfolding driver_shifts_def
      by (rule map_cong [OF refl], clarify) (rule counted_row_run; rule shift_run_ok [OF g assms])
  qed
  finally show ?thesis .
qed

definition demo_ping :: "int \<Rightarrow> string \<Rightarrow> payload" where
  "demo_ping minute status = [(''driver_id'', PStr ''d''), (''pinged_at'', PDatetime (minutes_us minute)), (''lat'', PFloat 0),
     (''lon'', PFloat 0), (''speed_kmh'', PFloat 0), (''heading'', PFloat 0), (''status'', PStr status), (''city_id'', PInt 1)]"

theorem shifts_are_longest_runs_witness:
  "map (\<lambda>r. (d_get r ''shift_id'', d_get r ''ping_count'', d_get r ''shift_started_at''))
     (int_drivers__shifts [demo_ping 55 ''idle'', demo_ping 0 ''idle'', demo_ping 30 ''offline'', demo_ping 31 ''idle''])
   = [(PStr ''d.1'', PInt 2, PDatetime 0), (PStr ''d.2'', PInt 2, PDatetime (minutes_us 31))]"
proof -
  let ?ps = "[demo_ping 55 ''idle'', demo_ping 0 ''idle'', demo_ping 30 ''offline'', demo_ping 31 ''idle'']"
  have get: "ping_us (demo_ping m s) = minutes_us m" "d_get (demo_ping m s) ''driver_id'' = PStr ''d''"
    "d_get (demo_ping m s) ''status'' = PStr s" "ping_ok (demo_ping m s)" for m s
    by (simp_all add: demo_ping_def ping_us_def ping_ok_def Dashboard_Queries.ts_of_def d_get_def)
  have "runs same_shift (sort_key ping_us ?ps)
      = [[demo_ping 0 ''idle'', demo_ping 30 ''offline''], [demo_ping 31 ''idle'', demo_ping 55 ''idle'']]"
    by (simp add: get same_shift_def minutes_us_def)
  then have "driver_shifts (PStr ''d'') ?ps = map (\<lambda>(k, ps). shift_of (PStr ''d'') k ps)
      [(1, [demo_ping 0 ''idle'', demo_ping 30 ''offline'']), (2, [demo_ping 31 ''idle'', demo_ping 55 ''idle''])]"
    unfolding driver_shifts_def by (simp only:) (simp add: numeral_2_eq_2)
  moreover have "groups_by (\<lambda>r. d_get r ''driver_id'') ?ps = [(PStr ''d'', ?ps)]"
    by (simp add: groups_by_def get)
  moreover have "list_all ping_ok ?ps" by (simp add: get)
  ultimately show ?thesis
    by (simp add: shifts_are_longest_runs) (simp add: shift_of_def shift_id_def d_get_def get minutes_us_def
        int_digits_def nat_digits.simps char_of_def bit_0)
qed

section \<open>The rollup and the current drivers\<close>

text \<open>Each ride of the fact is in one row of the rollup, and its state is one of the three.\<close>

lemma rollup_counts:
  assumes "list_all (\<lambda>r. in_state ''completed'' r \<or> in_state ''cancelled'' r \<or> in_state ''abandoned'' r) fct"
    and "row \<in> set (agg_city_hourly fct)"
  shows "\<exists>a b c. d_get row ''rides_completed'' = PInt a \<and> d_get row ''rides_cancelled'' = PInt b
    \<and> d_get row ''rides_abandoned'' = PInt c \<and> d_get row ''rides_closed'' = PInt (a + b + c) \<and> 0 < a + b + c"
proof -
  obtain k g where g: "(k, g) \<in> set (groups_by (\<lambda>r. (d_get r ''city_id'', d_get r ''city_name'', hour_of r)) fct)"
    "row = hourly_row k g"
    using assms(2) by (auto simp: agg_city_hourly_def)
  have ok: "list_all (\<lambda>r. in_state ''completed'' r \<or> in_state ''cancelled'' r \<or> in_state ''abandoned'' r) g" "g \<noteq> []"
    using assms(1) groups_by_sound [OF g(1)] by (auto simp: list_all_iff filter_empty_conv)
  from ok(1) have "length g = length (filter (in_state ''completed'') g) + length (filter (in_state ''cancelled'') g)
      + length (filter (in_state ''abandoned'') g)"
    by (induction g) (auto simp: in_state_def)
  then have "0 < int (length (filter (in_state ''completed'') g)) + int (length (filter (in_state ''cancelled'') g))
      + int (length (filter (in_state ''abandoned'') g))" "int (length g) = int (length (filter (in_state ''completed'') g))
      + int (length (filter (in_state ''cancelled'') g)) + int (length (filter (in_state ''abandoned'') g))"
    using length_greater_0_conv [of g] ok(2) by linarith+
  then show ?thesis by (cases k) (simp add: g(2) hourly_row_def d_get_def count_star_def)
qed

end
