(* ===== verification/Delivery.thy ===== *)
theory Delivery
  imports Pipeline_Properties Generator_Sessions
begin

text \<open>
  From the generator to the table: what the pipeline makes of a stream of ride events that follows the
  lifecycle machine. \<open>topic_carries\<close> is what the generator's transport, the broker and the Avro codec
  do between the two: the records of a partition that deserialise are the ride events keyed to it, in
  order, and reading gives back every field, the time stamp normalised; poison may lie in between. The
  abstract side is the store of lifecycles that \<open>lifecycle_step\<close> builds from the stream
  (\<open>generator_refines_lifecycle\<close> and \<open>generated_stream\<close> say that the generator's streams have one).
\<close>

section \<open>The topic and the stream\<close>

definition normalised :: "source_event \<Rightarrow> payload" where
  "normalised e = AList.update ''event_ts'' (PInt (se_ts e)) (se_value e)"

definition reads_as :: "string \<times> payload \<Rightarrow> source_event \<Rightarrow> bool" where
  "reads_as x e \<longleftrightarrow> fst x = se_key e \<and> d_get (snd x) = d_get (normalised e)"

definition topic_carries :: "codec \<Rightarrow> (int \<Rightarrow> msg list) \<Rightarrow> int list \<Rightarrow> (string \<Rightarrow> int) \<Rightarrow> source_event list \<Rightarrow> bool" where
  "topic_carries cd input parts ride_part evs \<longleftrightarrow> list_all (\<lambda>p. list_all2 reads_as (clean_events cd (input p))
     (filter (\<lambda>e. se_topic e = RIDES_EVENTS \<and> ride_part (se_key e) = p) evs)) parts"

lemma list_all2_filter_both:
  assumes "list_all2 P xs ys" "\<And>x y. P x y \<Longrightarrow> f x = g y"
  shows "list_all2 P (filter f xs) (filter g ys)"
  using assms(1) by (induction rule: list_all2_induct) (auto dest: assms(2))

lemma list_all2_member: "list_all2 P xs ys \<Longrightarrow> x \<in> set xs \<Longrightarrow> \<exists>y \<in> set ys. P x y"
  by (induction rule: list_all2_induct) auto

lemma ride_reads:
  assumes "topic_carries cd input parts ride_part evs" "ride_part r \<in> set parts"
  shows "list_all2 (\<lambda>v e. d_get v = d_get (normalised e)) (ride_events cd r (input (ride_part r))) (events_of_ride r evs)"
proof -
  let ?in = "\<lambda>e. se_topic e = RIDES_EVENTS \<and> ride_part (se_key e) = ride_part r"
  have "list_all2 reads_as (clean_events cd (input (ride_part r))) (filter ?in evs)"
    using assms by (simp add: topic_carries_def list_all_iff)
  then have "list_all2 reads_as (filter (\<lambda>x. fst x = r) (clean_events cd (input (ride_part r))))
      (filter (\<lambda>e. se_key e = r) (filter ?in evs))"
    by (rule list_all2_filter_both) (simp add: reads_as_def)
  moreover have "filter (\<lambda>e. se_key e = r) (filter ?in evs) = events_of_ride r evs"
    by (auto simp: events_of_ride_def intro: filter_cong)
  ultimately show ?thesis
    by (auto simp: ride_events_def list_all2_map1 list_all2_conv_all_nth reads_as_def)
qed

lemma carried_times:
  assumes "topic_carries cd input parts ride_part evs" "list_all (\<lambda>e. lossless_ms (se_ts e)) evs"
  shows "event_times_ok cd input parts"
proof -
  have "case d_get v ''event_ts'' of PInt ms \<Rightarrow> lossless_ms ms | _ \<Rightarrow> False"
    if p: "p \<in> set parts" and m: "m \<in> set (input p)" "clean_of cd m = Some (r, v)" for p m r v
  proof -
    have "list_all2 reads_as (clean_events cd (input p))
        (filter (\<lambda>e. se_topic e = RIDES_EVENTS \<and> ride_part (se_key e) = p) evs)"
      using assms(1) p by (simp add: topic_carries_def list_all_iff)
    moreover have "(r, v) \<in> set (clean_events cd (input p))"
      using m unfolding clean_events_def List.map_filter_def by force
    ultimately have "\<exists>e \<in> set (filter (\<lambda>e. se_topic e = RIDES_EVENTS \<and> ride_part (se_key e) = p) evs). reads_as (r, v) e"
      by (rule list_all2_member)
    then obtain e where "e \<in> set evs" "reads_as (r, v) e" by auto
    then show ?thesis using assms(2) by (auto simp: reads_as_def normalised_def list_all_iff)
  qed
  then show ?thesis by (auto simp: event_times_ok_def list_all_iff split: option.split)
qed

section \<open>Folding a prefix of a lifecycle\<close>

lemma add_events_path:
  assumes "list_all2 (\<lambda>v t. (\<exists>x. d_item v ''event_type'' = Inr x \<and> ride_event_type_of x = Inr t)
      \<and> (\<exists>ms. d_item v ''event_ts'' = Inr (PInt ms))) vs ts"
    and "distinct ts" "\<forall>t \<in> set ts. EVENT_SEQ t \<notin> fst ` set (acc_slots a)"
  shows "\<exists>slots. add_events a vs = Inr (a\<lparr>acc_slots := acc_slots a @ slots\<rparr>)
    \<and> list_all2 (\<lambda>t (s, v). ride_event_type_of (d_get v ''event_type'') = Inr t) ts slots"
  using assms
proof (induction arbitrary: a rule: list_all2_induct)
  case (Cons v vs t ts)
  obtain x ms where v: "d_item v ''event_type'' = Inr x" "ride_event_type_of x = Inr t" "d_item v ''event_ts'' = Inr (PInt ms)"
    using Cons.hyps(1) by blast
  let ?slot = "(EVENT_SEQ t, AList.update ''event_ts'' (PInt ms) v)"
  let ?a = "a\<lparr>acc_slots := acc_slots a @ [?slot]\<rparr>"
  have "add_event a v = Inr ?a"
    using v Cons.prems(2) by (simp add: add_event_def dict_update_new)
  moreover have "\<forall>t' \<in> set ts. EVENT_SEQ t' \<notin> fst ` set (acc_slots ?a)"
    using Cons.prems by auto
  moreover have "distinct ts" using Cons.prems(1) by simp
  ultimately obtain slots where "add_events a (v # vs) = Inr (?a\<lparr>acc_slots := acc_slots ?a @ slots\<rparr>)"
    "list_all2 (\<lambda>t (s, v). ride_event_type_of (d_get v ''event_type'') = Inr t) ts slots"
    using Cons.IH [of ?a] by auto
  moreover have "ride_event_type_of (d_get (snd ?slot) ''event_type'') = Inr t"
    using v(1,2) by (simp add: d_get_of_item)
  ultimately show ?case by (intro exI [of _ "?slot # slots"]) simp
qed simp

lemma typed_reads:
  assumes "list_all2 (\<lambda>v e. d_get v = d_get (normalised e)) vs es" "rmap type_of_event es = Inr ts"
  shows "list_all2 (\<lambda>v t. (\<exists>x. d_item v ''event_type'' = Inr x \<and> ride_event_type_of x = Inr t)
      \<and> (\<exists>ms. d_item v ''event_ts'' = Inr (PInt ms))) vs ts"
proof (rule list_all2_trans [OF _ assms(1)])
  show "list_all2 (\<lambda>e t. type_of_event e = Inr t) es ts" using assms(2) by (simp add: rmap_eq_Inr)
  fix v e t
  assume v: "d_get v = d_get (normalised e)" and t: "type_of_event e = Inr t"
  have item: "d_item v c = Inr x" if "d_get v c = x" "x \<noteq> PNone" for c x
    using that by (auto simp: d_item_def d_get_def split: option.splits)
  obtain x where x: "d_item (se_value e) ''event_type'' = Inr x" "ride_event_type_of x = Inr t"
    using t by (auto simp: type_of_event_def rbind_eq_Inr)
  from x(2) have "x \<noteq> PNone" by auto
  moreover have "d_get v ''event_type'' = x" using x(1) by (simp add: v normalised_def d_get_of_item)
  moreover have "d_get v ''event_ts'' = PInt (se_ts e)" by (simp add: v normalised_def)
  ultimately show "(\<exists>x. d_item v ''event_type'' = Inr x \<and> ride_event_type_of x = Inr t)
      \<and> (\<exists>ms. d_item v ''event_ts'' = Inr (PInt ms))"
    using item x(2) by blast
qed

lemma fold_of_path:
  assumes "list_all2 (\<lambda>v e. d_get v = d_get (normalised e)) vs es" "rmap type_of_event es = Inr ts"
    and "drive machine_init ts = Inr m"
  shows "\<exists>a. add_events (new_acc r) vs = Inr a \<and> terminal a = (if is_terminal m then m else None)"
proof -
  have "\<forall>t \<in> set ts. EVENT_SEQ t \<notin> fst ` set (acc_slots (new_acc r))" by (simp add: new_acc_def)
  from add_events_path [OF typed_reads [OF assms(1,2)] drive_distinct [OF assms(3)] this]
  obtain slots where s: "add_events (new_acc r) vs = Inr ((new_acc r)\<lparr>acc_slots := slots\<rparr>)"
    "list_all2 (\<lambda>t (s, v). ride_event_type_of (d_get v ''event_type'') = Inr t) ts slots"
    by (auto simp: new_acc_def)
  have "first_terminal slots = (if is_terminal m then m else None)"
    by (rule terminal_of_path [OF assms(3) _ s(2)]) (simp add: machine_init_def is_terminal_def)
  with s(1) show ?thesis by (simp add: terminal_def)
qed

text \<open>A prefix of the events of a ride folds to no terminal state or to that of the whole lifecycle.\<close>

lemma fold_of_prefix:
  assumes "list_all2 (\<lambda>v e. d_get v = d_get (normalised e)) vs es" "rmap type_of_event es = Inr ts"
    and "drive machine_init ts = Inr m" "add_events (new_acc r) (take k vs) = Inr a" "terminal a = Some t"
  shows "m = Some t \<and> t \<in> set TERMINAL_STATES"
proof -
  have "rbind (drive machine_init (take k ts)) (\<lambda>m'. drive m' (drop k ts)) = Inr m"
    using assms(3) drive_append [of machine_init "take k ts" "drop k ts"] by simp
  then obtain mk where mk: "drive machine_init (take k ts) = Inr mk" "drive mk (drop k ts) = Inr m"
    by (auto simp: rbind_eq_Inr)
  have "rmap type_of_event (take k es) = Inr (take k ts)"
    using assms(2) by (simp add: rmap_eq_Inr list_all2_takeI)
  from fold_of_path [OF list_all2_takeI [OF assms(1)] this mk(1), of r] assms(4,5)
  have t: "is_terminal mk" "mk = Some t" by (auto split: if_splits)
  then have "legal_next mk = []" by (simp add: legal_next_empty)
  with mk(2) have "m = mk" by (cases "drop k ts") (auto simp: t(2) drive_Cons_Inr simp del: drive.simps(2))
  with t show ?thesis by (simp add: is_terminal_def)
qed

lemma events_before_take:
  assumes "input_ok cd input parts ride_part" "ride_part r \<in> set parts"
  shows "\<exists>k. events_before cd input ride_part r off = take k (ride_events cd r (input (ride_part r)))"
proof -
  have "before_offset off (input (ride_part r)) @ from_offset off (input (ride_part r)) = input (ride_part r)"
    by (rule filter_sorted_take [OF input_okD(1) [OF assms]])
  then have "ride_events cd r (input (ride_part r)) = events_before cd input ride_part r off
      @ ride_events cd r (from_offset off (input (ride_part r)))"
    unfolding events_before_def by (metis ride_events_append)
  then show ?thesis by (intro exI [of _ "length (events_before cd input ride_part r off)"]) simp
qed

section \<open>Properties\<close>

text \<open>The state a row gives to a ride agrees with the store of lifecycles.\<close>

definition row_agrees :: "lifecycle \<Rightarrow> pyval list \<times> pg_row \<Rightarrow> bool" where
  "row_agrees \<sigma> x \<longleftrightarrow> (\<exists>r. fst x = [PStr r]
     \<and> (column ''raw.ride_sessions'' (snd x) ''terminal_state'' = PStr ''abandoned''
       \<or> (\<exists>k \<in> set TERMINAL_STATES. fst (\<sigma> r) = Some k
            \<and> column ''raw.ride_sessions'' (snd x) ''terminal_state'' = PStr (ev_value k))))"

lemma table_agrees:
  assumes "input_ok cd input parts ride_part" "topic_carries cd input parts ride_part evs"
    and "rfold lifecycle_step evs (\<lambda>_. (machine_init, t0)) = Inr \<sigma>" "list_all (\<lambda>e. lossless_ms (se_ts e)) evs"
    and "session_wire cd env" "pipe_inv cd cfg input parts env grp pparts z" "(key, row) \<in> set (session_table z)"
  shows "row_agrees \<sigma> (key, row)"
proof -
  obtain r off a t session where x: "key = [PStr r]"
    "add_events (new_acc r) (events_before cd input ride_part r (off + 1)) = Inr a"
    "build_session a t = Inr session" "session_row session = Inr row" "r \<in> fst ` set (committed_closes (pi_szr z))"
    by (rule table_row_true [OF assms(1) carried_times [OF assms(2,4)] assms(5-7)])
  have "reachable cd cfg input parts (pi_szr z)" using assms(6) by (simp add: pipe_inv_def)
  from reachable_closes(4) [OF assms(1) this] x(5) have part: "ride_part r \<in> set parts" by (auto simp: list_all_iff)
  obtain ts where ts: "rmap type_of_event (events_of_ride r evs) = Inr ts" "drive machine_init ts = Inr (fst (\<sigma> r))"
    using lifecycle_path [OF assms(3), of r] by auto
  obtain k where k: "events_before cd input ride_part r (off + 1) = take k (ride_events cd r (input (ride_part r)))"
    using events_before_take [OF assms(1) part] by blast
  have st: "column ''raw.ride_sessions'' row ''terminal_state''
      = PStr (case terminal a of Some s \<Rightarrow> ev_value s | None \<Rightarrow> ''abandoned'')"
    using session_columns(2) [OF x(4)] build_session_Inr(2) [OF x(3)] by simp
  show ?thesis
  proof (cases "terminal a")
    case (Some s)
    with fold_of_prefix [OF ride_reads [OF assms(2) part] ts x(2) [unfolded k]] st x(1) show ?thesis
      by (auto simp: row_agrees_def)
  qed (use st x(1) in \<open>simp add: row_agrees_def\<close>)
qed

text \<open>C13: from the generator to the table. Let the input topic carry a stream of events that follows
  the lifecycle machine, as the generator's does, with poison in between. In a reachable state of the
  pipeline in which everything has caught up, every ride that has ended in the stream has its row in
  raw.ride_sessions; and every row there agrees with the lifecycle of its ride: it ended in the state the
  row says, or the sessionizer gave the ride up as abandoned.\<close>

theorem lifecycles_land:
  assumes "input_ok cd input parts ride_part" "topic_carries cd input parts ride_part evs"
    and "rfold lifecycle_step evs (\<lambda>_. (machine_init, t0)) = Inr \<sigma>" "list_all (\<lambda>e. lossless_ms (se_ts e)) evs"
    and "session_wire cd env" "distinct pparts" "pipe_reachable cd cfg input parts env grp pparts z"
    and "list_all (\<lambda>p. list_all (\<lambda>m. m_offset m < position (sz_log (sys_szr (pi_szr z))) p) (input p)) parts"
    and "list_all (\<lambda>i. i \<in> set (pi_sent z)) [0..<length (sessions_committed (pi_szr z))]"
    and "list_all (\<lambda>m. m_offset m \<le> stored (pi_pg z) (RIDES_SESSIONS, m_partition m))
      (session_msgs pparts (pi_input z))"
    and "ride_part r \<in> set parts" "fst (\<sigma> r) = Some k" "k \<in> set TERMINAL_STATES"
  shows "list_all (row_agrees \<sigma>) (session_table z) \<and> (\<exists>row. map_of (session_table z) [PStr r] = Some row)"
proof
  note inv = pipe_reachable_inv [OF assms(7,6)]
  then have rch: "reachable cd cfg input parts (pi_szr z)" by (simp add: pipe_inv_def)
  have "row_agrees \<sigma> x" if "x \<in> set (session_table z)" for x
    using table_agrees [OF assms(1-5) inv, of "fst x" "snd x"] that by simp
  then show "list_all (row_agrees \<sigma>) (session_table z)" by (simp add: list_all_iff)
  obtain ts where ts: "rmap type_of_event (events_of_ride r evs) = Inr ts" "drive machine_init ts = Inr (fst (\<sigma> r))"
    using lifecycle_path [OF assms(3), of r] by auto
  have "before_offset (position (sz_log (sys_szr (pi_szr z))) (ride_part r)) (input (ride_part r)) = input (ride_part r)"
    using assms(8,11) by (simp add: before_offset_def filter_id_conv list_all_iff)
  then have "events_before cd input ride_part r (position (sz_log (sys_szr (pi_szr z))) (ride_part r))
      = ride_events cd r (input (ride_part r))" by (simp add: events_before_def)
  with fold_of_path [OF ride_reads [OF assms(2,11)] ts, of r] obtain a where a: "terminal a \<noteq> None"
    "add_events (new_acc r) (events_before cd input ride_part r (position (sz_log (sys_szr (pi_szr z))) (ride_part r))) = Inr a"
    using assms(12,13) by (auto simp: is_terminal_def)
  have "r \<in> fst ` set (committed_closes (pi_szr z))" by (rule terminal_closed [OF assms(1) rch assms(11) a(2,1)])
  then have "[PStr r] \<in> fst ` set (session_table z)"
    unfolding caught_up_keys [OF assms(1) carried_times [OF assms(2,4)] assms(5) inv assms(9,10)] by blast
  then show "\<exists>row. map_of (session_table z) [PStr r] = Some row"
    using session_keys_distinct [OF inv] by force
qed

text \<open>The demo's ride as a stream.\<close>

definition demo_source :: "ride_event_type \<Rightarrow> source_event" where
  "demo_source e = \<lparr>se_topic = RIDES_EVENTS, se_key = ''r'', se_value = sample_event ''r'' e 5, se_ts = 5, se_corrupt = False\<rparr>"

theorem lifecycles_land_witness:
  "\<exists>s \<sigma>. pipe_demo_reaches (pipe_end s) \<and> session_table (pipe_end s) = [([PStr ''r''], pipe_row)]
    \<and> rfold lifecycle_step [demo_source REQUESTED, demo_source CANCELLED] (\<lambda>_. (machine_init, 0)) = Inr \<sigma>
    \<and> fst (\<sigma> ''r'') = Some CANCELLED \<and> row_agrees \<sigma> ([PStr ''r''], pipe_row)"
proof -
  let ?evs = "[demo_source REQUESTED, demo_source CANCELLED]"
  obtain s where s: "pipe_demo_reaches (pipe_end s)" "pg_db s = pipe_db" "pg_group s = ''pg-sink''"
    by (rule pipe_demo_reachable)
  have t: "session_table (pipe_end s) = [([PStr ''r''], pipe_row)]"
    using s(2) by (simp add: pipe_end_def pipe_db_def)
  have up: "list_all (\<lambda>m. m_offset m \<le> stored (pi_pg (pipe_end s)) (RIDES_SESSIONS, m_partition m))
      (session_msgs pipe_parts (pi_input (pipe_end s)))"
    using s by (simp add: session_msgs_def pipe_parts_def pipe_end_def pipe_input_def append_msg_def pipe_msg_def
        stored_offset_def pipe_db_def)
  have "position (sz_log demo_end) 0 = 3"
    by (simp add: resume_offset_def committed_offset_def demo_end_def demo_ops_def)
  then have pos: "list_all (\<lambda>p. list_all (\<lambda>m. m_offset m < position (sz_log (sys_szr (pi_szr (pipe_end s)))) p) (demo_input p)) [0]"
    by (simp add: pipe_end_def demo_input_def demo_batch_def demo_msg_def)
  have d: "distinct pipe_parts" and sent: "list_all (\<lambda>i. i \<in> set (pi_sent (pipe_end s)))
      [0..<length (sessions_committed (pi_szr (pipe_end s)))]"
    by (simp_all add: pipe_parts_def pipe_end_def demo_sessions_committed)
  have "clean_events demo_codec demo_batch = [(''r'', sample_event ''r'' REQUESTED 5), (''r'', sample_event ''r'' CANCELLED 5)]"
    by (simp add: clean_events_def demo_batch_def clean_of_def demo_msg_def demo_codec_def normalise_def List.map_filter_def)
  then have top: "topic_carries demo_codec demo_input [0] (\<lambda>_. 0) ?evs"
    by (simp add: topic_carries_def demo_input_def demo_source_def reads_as_def normalised_def)
  have times: "list_all (\<lambda>e. lossless_ms (se_ts e)) ?evs" using lossless_5 by (simp add: demo_source_def)
  define \<sigma> where "\<sigma> = (\<lambda>_. (machine_init, 0))(''r'' := (Some CANCELLED, 5 :: int))"
  have run: "rfold lifecycle_step ?evs (\<lambda>_. (machine_init, 0)) = Inr \<sigma>"
    by (simp add: lifecycle_step_def demo_source_def machine_init_def advance_def \<sigma>_def)
  have "list_all (row_agrees \<sigma>) (session_table (pipe_end s)) \<and> (\<exists>row. map_of (session_table (pipe_end s)) [PStr ''r''] = Some row)"
    by (rule lifecycles_land [where k = CANCELLED, OF demo_input_ok top run times pipe_wire d s(1) pos sent up])
      (simp_all add: \<sigma>_def TERMINAL_STATES_def)
  with s(1) t run show ?thesis by (auto simp: \<sigma>_def)
qed

text \<open>The streams of the generator are such streams.\<close>

lemma generated_stream:
  assumes "rng_laws R" "gen_config_ok cfg"
  shows "\<exists>bs clock s i \<sigma>. simulate_ticks R crc32 now_us (perfect cfg) n (Some anchor) = Some (Inr (bs, clock, s, i))
    \<and> rfold lifecycle_step (stream bs) (\<lambda>_. (machine_init, anchor)) = Inr \<sigma>"
  by (rule perfect_run [OF assms, where n = n and now_us = now_us and ?crc32.0 = crc32 and anchor = anchor]) blast

end
